(* ===== verification/Prelude.thy ===== *)
theory Prelude
  imports Complex_Main "HOL-Library.Word" "HOL-Library.AList" "HOL-Library.Char_ord"
    "HOL-Library.List_Lexorder" "HOL-Library.Sublist"
begin

text \<open>
  Shared vocabulary of the development: the names of the machine types, Rust's
  \<open>Ordering\<close>, results as sums (\<open>Inl\<close> the error, \<open>Inr\<close> the value), hash maps as
  association lists with distinct keys, and the generic lemmas on lists and maps that
  several components use.

  A Rust \<open>HashMap\<close> is an association list: the list order stands for the map's
  unspecified iteration order, so a theorem over an arbitrary list holds for every
  iteration order. A Rust \<open>str\<close> and a byte buffer are both lists of bytes (\<open>char\<close> is
  an 8-bit byte), so \<open>length\<close> is \<open>str::len\<close> and the order is \<open>str::cmp\<close>.
\<close>

named_theorems rust_simps \<open>equations of the modelled standard library\<close>
named_theorems hmap_simps \<open>lookup equations of hash maps\<close>

type_synonym u8 = "8 word"
type_synonym u32 = "32 word"
type_synonym u64 = "64 word"
type_synonym u128 = "128 word"
type_synonym bytes = "char list"
type_synonym ('k, 'v) hmap = "('k \<times> 'v) list"

section \<open>Ordering\<close>

datatype ordering = Less | Equal | Greater

fun rev_ord :: "ordering \<Rightarrow> ordering" where
  "rev_ord Less = Greater"
| "rev_ord Equal = Equal"
| "rev_ord Greater = Less"

definition cmp_ord :: "'a::linorder \<Rightarrow> 'a \<Rightarrow> ordering" where
  "cmp_ord a b = (if a < b then Less else if a = b then Equal else Greater)"

fun then_ord :: "ordering \<Rightarrow> ordering \<Rightarrow> ordering" where
  "then_ord Equal o2 = o2"
| "then_ord o1 _ = o1"

lemma rev_ord_rev_ord [simp]: "rev_ord (rev_ord x) = x"
  by (cases x) simp_all

lemma rev_ord_cmp_ord: "rev_ord (cmp_ord a b) = cmp_ord b a"
  by (auto simp: cmp_ord_def)

lemma cmp_ord_simps [simp]:
  "cmp_ord a b = Less \<longleftrightarrow> a < b"
  "cmp_ord a b = Equal \<longleftrightarrow> a = b"
  "cmp_ord a b = Greater \<longleftrightarrow> b < a"
  "cmp_ord a a = Equal"
  by (auto simp: cmp_ord_def)

instantiation ordering :: linorder
begin

fun rank_ordering :: "ordering \<Rightarrow> nat" where
  "rank_ordering Less = 0"
| "rank_ordering Equal = 1"
| "rank_ordering Greater = 2"

definition less_eq_ordering :: "ordering \<Rightarrow> ordering \<Rightarrow> bool" where
  "less_eq_ordering a b \<longleftrightarrow> rank_ordering a \<le> rank_ordering b"

definition less_ordering :: "ordering \<Rightarrow> ordering \<Rightarrow> bool" where
  "less_ordering a b \<longleftrightarrow> rank_ordering a < rank_ordering b"

instance
proof
  fix x y :: ordering
  assume "x \<le> y" "y \<le> x"
  then show "x = y"
    by (cases x; cases y) (simp_all add: less_eq_ordering_def)
qed (auto simp: less_eq_ordering_def less_ordering_def)

end

section \<open>Results\<close>

fun rbind :: "'e + 'a \<Rightarrow> ('a \<Rightarrow> 'e + 'b) \<Rightarrow> 'e + 'b" where
  "rbind (Inl e) f = Inl e"
| "rbind (Inr x) f = f x"

lemma rbind_cong [fundef_cong]:
  "r = r' \<Longrightarrow> (\<And>x. r' = Inr x \<Longrightarrow> f x = g x) \<Longrightarrow> rbind r f = rbind r' g"
  by (cases r') auto

lemma rbind_Inr_iff:
  "rbind r f = Inr y \<longleftrightarrow> (\<exists>x. r = Inr x \<and> f x = Inr y)"
  by (cases r) auto

fun ok_or :: "'e \<Rightarrow> 'a option \<Rightarrow> 'e + 'a" where
  "ok_or e None = Inl e"
| "ok_or e (Some x) = Inr x"

text \<open>\<open>iter().map(f).collect::<Result<Vec<_>>>()\<close>: the first error wins.\<close>

fun map_r :: "('a \<Rightarrow> 'e + 'b) \<Rightarrow> 'a list \<Rightarrow> 'e + 'b list" where
  "map_r f [] = Inr []"
| "map_r f (x # xs) = rbind (f x) (\<lambda>y. rbind (map_r f xs) (\<lambda>ys. Inr (y # ys)))"

lemma map_r_cong [fundef_cong]:
  "xs = ys \<Longrightarrow> (\<And>x. x \<in> set ys \<Longrightarrow> f x = g x) \<Longrightarrow> map_r f xs = map_r g ys"
  by (induction xs arbitrary: ys) auto

lemma map_r_Inr: "(\<And>x. x \<in> set xs \<Longrightarrow> f x = Inr (g x)) \<Longrightarrow> map_r f xs = Inr (map g xs)"
  by (induction xs) auto

lemma map_r_length: "map_r f xs = Inr ys \<Longrightarrow> length ys = length xs"
  by (induction xs arbitrary: ys) (auto simp: rbind_Inr_iff)

text \<open>A fallible fold: the loop of a body that may return early with an error.\<close>

fun fold_r :: "('a \<Rightarrow> 's \<Rightarrow> 'e + 's) \<Rightarrow> 'a list \<Rightarrow> 's \<Rightarrow> 'e + 's" where
  "fold_r f [] s = Inr s"
| "fold_r f (x # xs) s = rbind (f x s) (fold_r f xs)"

lemma fold_r_append: "fold_r f (xs @ ys) s = rbind (fold_r f xs s) (fold_r f ys)"
proof (induction xs arbitrary: s)
  case (Cons x xs)
  then show ?case by (cases "f x s") simp_all
qed simp

section \<open>Hash maps\<close>

definition hget :: "('k, 'v) hmap \<Rightarrow> 'k \<Rightarrow> 'v option" where
  "hget m k = map_of m k"

definition hput :: "'k \<Rightarrow> 'v \<Rightarrow> ('k, 'v) hmap \<Rightarrow> ('k, 'v) hmap" where
  "hput k v m = AList.update k v m"

definition hdel :: "'k \<Rightarrow> ('k, 'v) hmap \<Rightarrow> ('k, 'v) hmap" where
  "hdel k m = AList.delete k m"

definition hwf :: "('k, 'v) hmap \<Rightarrow> bool" where
  "hwf m \<longleftrightarrow> distinct (map fst m)"

definition hdefault :: "'v \<Rightarrow> 'v option \<Rightarrow> 'v" where
  "hdefault d x = (case x of None \<Rightarrow> d | Some v \<Rightarrow> v)"

lemma hdefault_simps [simp]: "hdefault d None = d" "hdefault d (Some v) = v"
  by (simp_all add: hdefault_def)

lemma hget_hput [simp, hmap_simps]: "hget (hput k v m) j = (if j = k then Some v else hget m j)"
  by (simp add: hget_def hput_def update_conv)

lemma hget_hdel [simp, hmap_simps]: "hget (hdel k m) j = (if j = k then None else hget m j)"
  by (simp add: hget_def hdel_def delete_conv)

lemma hget_Nil [simp, hmap_simps]: "hget [] k = None"
  by (simp add: hget_def)

lemma hget_Cons: "hget ((k, v) # m) j = (if j = k then Some v else hget m j)"
  by (simp add: hget_def)

lemma hwf_Nil [simp, intro]: "hwf []"
  by (simp add: hwf_def)

lemma hwf_hput [simp, intro]: "hwf m \<Longrightarrow> hwf (hput k v m)"
  by (simp add: hwf_def hput_def distinct_update)

lemma hwf_hdel [simp, intro]: "hwf m \<Longrightarrow> hwf (hdel k m)"
  by (simp add: hwf_def hdel_def distinct_delete)

lemma hget_Some_iff: "hwf m \<Longrightarrow> hget m k = Some v \<longleftrightarrow> (k, v) \<in> set m"
  by (simp add: hget_def hwf_def map_of_eq_Some_iff)

lemma hget_None_iff: "hget m k = None \<longleftrightarrow> k \<notin> fst ` set m"
  by (simp add: hget_def map_of_eq_None_iff)

lemma hget_filter_key: "hget (filter (\<lambda>(k, v). P k) m) j = (if P j then hget m j else None)"
  by (induction m) (auto simp: hget_def)

lemma hwf_filter: "hwf m \<Longrightarrow> hwf (filter P m)"
  by (simp add: hwf_def distinct_map_filter)

lemma hwf_Cons: "hwf ((k, v) # m) \<longleftrightarrow> k \<notin> fst ` set m \<and> hwf m"
  by (auto simp: hwf_def)

lemma hget_map_val: "hget (map (\<lambda>(k, v). (k, f k v)) m) j = map_option (f j) (hget m j)"
  by (induction m) (auto simp: hget_def)

lemma hwf_map_val: "hwf (map (\<lambda>(k, v). (k, f k v)) m) = hwf m"
  by (simp add: hwf_def case_prod_unfold comp_def)

lemma hget_filter:
  "hwf m \<Longrightarrow> hget (filter P m) j = (case hget m j of None \<Rightarrow> None | Some v \<Rightarrow> if P (j, v) then Some v else None)"
  by (induction m) (auto simp: hget_def hwf_def split: option.splits dest: map_of_SomeD
      intro: rev_image_eqI)

section \<open>Lists\<close>

lemma find_Some_iff': "find P xs = Some x \<Longrightarrow> x \<in> set xs \<and> P x"
  by (induction xs) (auto split: if_splits)

lemma find_None_iff': "find P xs = None \<longleftrightarrow> (\<forall>x\<in>set xs. \<not> P x)"
  by (induction xs) auto

lemma prefix_append_cases:
  "prefix p (xs @ ys) \<longleftrightarrow> prefix p xs \<or> (\<exists>q. p = xs @ q \<and> prefix q ys)"
  by (auto simp: prefix_append)

lemma take_le_drop: "take n (drop m xs) = drop m (take (n + m) xs)"
  by (simp add: take_drop)

end
