(* ===== verification/Rust_Std.thy ===== *)
theory Rust_Std
  imports Prelude
begin

text \<open>
  The part of Rust's standard library the engine uses: little-endian integers, UTF-8,
  \<open>str\<close> operations on the UTF-8 bytes (\<open>trim\<close> removes the Unicode white space), integer
  parsing and printing, and \<open>BufWriter\<close> over an appended file.

  The record \<open>ext\<close> bundles the code that is not under \<^verbatim>\<open>src/\<close> or is a generated
  table: Unicode NFC (\<^verbatim>\<open>unicode-normalization\<close>), the Unicode case maps, \<^verbatim>\<open>xxh3_128\<close>
  and \<^verbatim>\<open>bincode\<close>'s encoding of a string. Every definition that uses one takes the record
  as an argument; what a theorem needs of it is a named hypothesis.
\<close>

section \<open>Parameters: code outside the repository\<close>

record ext =
  nfc :: "string \<Rightarrow> string"
  to_lowercase :: "string \<Rightarrow> string"
  to_uppercase :: "string \<Rightarrow> string"
  xxh3_128 :: "bytes \<Rightarrow> u128"
  bincode_str :: "string \<Rightarrow> bytes"

section \<open>Bytes and little-endian integers\<close>

definition bval :: "char \<Rightarrow> nat" where
  "bval c = of_char c"

definition byte :: "nat \<Rightarrow> char" where
  "byte n = char_of n"

lemma byte_digits [simp]:
  "byte 48 = CHR ''0''" "byte 49 = CHR ''1''" "byte 50 = CHR ''2''" "byte 51 = CHR ''3''"
  "byte 52 = CHR ''4''" "byte 53 = CHR ''5''" "byte 54 = CHR ''6''" "byte 55 = CHR ''7''"
  "byte 56 = CHR ''8''" "byte 57 = CHR ''9''"
  by code_simp+

lemma bval_byte [simp]: "bval (byte n) = n mod 256"
  by (simp add: bval_def byte_def)

lemma byte_bval [simp]: "byte (bval c) = c"
  by (simp add: bval_def byte_def)

lemma bval_less [simp]: "bval c < 256"
  using of_char_mod_256 [of c, where ?'a = nat] by (simp add: bval_def)

fun le_bytes :: "nat \<Rightarrow> nat \<Rightarrow> bytes" where
  "le_bytes 0 n = []"
| "le_bytes (Suc k) n = byte (n mod 256) # le_bytes k (n div 256)"

fun from_le :: "bytes \<Rightarrow> nat" where
  "from_le [] = 0"
| "from_le (b # bs) = bval b + 256 * from_le bs"

lemma length_le_bytes [simp]: "length (le_bytes k n) = k"
  by (induction k arbitrary: n) auto

lemma from_le_le_bytes: "from_le (le_bytes k n) = n mod 256 ^ k"
proof (induction k arbitrary: n)
  case 0
  then show ?case by simp
next
  case (Suc k)
  have "n mod 256 + 256 * (n div 256 mod 256 ^ k) = n mod (256 * 256 ^ k)"
    by (simp add: mod_mult2_eq)
  with Suc show ?case by simp
qed

lemma from_le_bound: "from_le bs < 256 ^ length bs"
proof (induction bs)
  case Nil
  then show ?case by simp
next
  case (Cons b bs)
  have b: "bval b < 256" by simp
  have "from_le bs + 1 \<le> 256 ^ length bs" using Cons by simp
  then have "256 * (from_le bs + 1) \<le> 256 * 256 ^ length bs" by (rule mult_le_mono2)
  then have "256 * from_le bs + 256 \<le> 256 * 256 ^ length bs" by (simp only: distrib_left mult_1_right)
  with b have "bval b + 256 * from_le bs < 256 * 256 ^ length bs" by linarith
  then show ?case by simp
qed

definition le32 :: "u32 \<Rightarrow> bytes" where "le32 w = le_bytes 4 (unat w)"
definition le64 :: "u64 \<Rightarrow> bytes" where "le64 w = le_bytes 8 (unat w)"
definition le128 :: "u128 \<Rightarrow> bytes" where "le128 w = le_bytes 16 (unat w)"

definition from_le32 :: "bytes \<Rightarrow> u32" where "from_le32 bs = of_nat (from_le bs)"
definition from_le64 :: "bytes \<Rightarrow> u64" where "from_le64 bs = of_nat (from_le bs)"
definition from_le128 :: "bytes \<Rightarrow> u128" where "from_le128 bs = of_nat (from_le bs)"

lemma length_le [simp]:
  "length (le32 a) = 4" "length (le64 b) = 8" "length (le128 c) = 16"
  by (simp_all add: le32_def le64_def le128_def)

lemma from_le_le [simp, rust_simps]:
  "from_le32 (le32 a) = a" "from_le64 (le64 b) = b" "from_le128 (le128 c) = c"
  using unsigned_less [of a, where ?'a = nat] unsigned_less [of b, where ?'a = nat]
    unsigned_less [of c, where ?'a = nat]
  by (simp_all add: le32_def le64_def le128_def from_le32_def from_le64_def from_le128_def
      from_le_le_bytes)

lemma unat_from_le64: "length bs = 8 \<Longrightarrow> unat (from_le64 bs) = from_le bs"
  using from_le_bound [of bs]
  by (simp add: from_le64_def unat_of_nat take_bit_nat_eq_self_iff)

text \<open>\<open>&bytes[a..b]\<close> for bounds the caller has checked.\<close>

definition slice :: "bytes \<Rightarrow> nat \<Rightarrow> nat \<Rightarrow> bytes" where
  "slice bs a b = take (b - a) (drop a bs)"

lemma length_slice [simp]: "length (slice bs a b) = min (b - a) (length bs - a)"
  by (simp add: slice_def)

lemma slice_append_left: "b \<le> length xs \<Longrightarrow> slice (xs @ ys) a b = slice xs a b"
  by (cases "a \<le> b") (auto simp: slice_def)

lemma slice_append_right:
  "length xs \<le> a \<Longrightarrow> slice (xs @ ys) a b = slice ys (a - length xs) (b - length xs)"
  by (simp add: slice_def)

lemma slice_whole: "slice xs 0 (length xs) = xs"
  by (simp add: slice_def)

lemma slice_mid: "a = length xs \<Longrightarrow> b = length xs + length ys \<Longrightarrow> slice (xs @ ys @ zs) a b = ys"
  by (simp add: slice_def)

section \<open>UTF-8\<close>

definition in_range :: "nat \<Rightarrow> nat \<Rightarrow> bytes \<Rightarrow> nat \<Rightarrow> bool" where
  "in_range lo hi bs i \<longleftrightarrow> i < length bs \<and> lo \<le> bval (bs ! i) \<and> bval (bs ! i) \<le> hi"

text \<open>
  The first sequence of a byte string, as the decoder of \<open>core::str\<close> reads it: whether it is a
  well-formed character, and its length (for an ill-formed one, the length of its maximal
  subpart).
\<close>

definition utf8_head :: "bytes \<Rightarrow> bool \<times> nat" where
  "utf8_head bs = (let b0 = bval (hd bs); cont = in_range 128 191 bs in
     if b0 < 128 then (True, 1)
     else if 194 \<le> b0 \<and> b0 \<le> 223 then (if cont 1 then (True, 2) else (False, 1))
     else if 224 \<le> b0 \<and> b0 \<le> 239 then
       (if in_range (if b0 = 224 then 160 else 128) (if b0 = 237 then 159 else 191) bs 1
        then (if cont 2 then (True, 3) else (False, 2)) else (False, 1))
     else if 240 \<le> b0 \<and> b0 \<le> 244 then
       (if in_range (if b0 = 240 then 144 else 128) (if b0 = 244 then 143 else 191) bs 1
        then (if cont 2 then (if cont 3 then (True, 4) else (False, 3)) else (False, 2))
        else (False, 1))
     else (False, 1))"

lemma utf8_head_pos: "0 < snd (utf8_head bs)"
  by (simp add: utf8_head_def Let_def)

lemma utf8_drop_shorter: "bs \<noteq> [] \<Longrightarrow> length bs - snd (utf8_head bs) < length bs"
  using utf8_head_pos [of bs] by (cases bs) auto

function utf8_valid :: "bytes \<Rightarrow> bool" where
  "utf8_valid bs = (if bs = [] then True
     else if fst (utf8_head bs) then utf8_valid (drop (snd (utf8_head bs)) bs) else False)"
  by pat_completeness auto
termination
  by (relation "measure length") (auto simp: utf8_drop_shorter)

function from_utf8_lossy :: "bytes \<Rightarrow> string" where
  "from_utf8_lossy bs = (if bs = [] then []
     else (if fst (utf8_head bs) then take (snd (utf8_head bs)) bs
           else [byte 239, byte 191, byte 189])
          @ from_utf8_lossy (drop (snd (utf8_head bs)) bs))"
  by pat_completeness auto
termination
  by (relation "measure length") (auto simp: utf8_drop_shorter)

declare utf8_valid.simps [simp del] from_utf8_lossy.simps [simp del]

lemma from_utf8_lossy_valid: "utf8_valid bs \<Longrightarrow> from_utf8_lossy bs = bs"
proof (induction bs rule: utf8_valid.induct)
  case (1 bs)
  then show ?case
    by (cases "bs = []") (auto simp: utf8_valid.simps [of bs] from_utf8_lossy.simps [of bs]
        from_utf8_lossy.simps [of "[]"] split: if_splits)
qed

definition from_utf8 :: "bytes \<Rightarrow> string option" where
  "from_utf8 bs = (if utf8_valid bs then Some bs else None)"

section \<open>Strings\<close>

text \<open>The UTF-8 encodings of the characters with the Unicode property White_Space.\<close>

definition white_space :: "bytes list" where
  "white_space =
     [[CHR 0x09], [CHR 0x0A], [CHR 0x0B],
      [CHR 0x0C], [CHR 0x0D], [CHR 0x20],
      [CHR 0xC2, CHR 0x85], [CHR 0xC2, CHR 0xA0], [CHR 0xE1, CHR 0x9A, CHR 0x80],
      [CHR 0xE2, CHR 0x80, CHR 0x80], [CHR 0xE2, CHR 0x80, CHR 0x81], [CHR 0xE2, CHR 0x80, CHR 0x82],
      [CHR 0xE2, CHR 0x80, CHR 0x83], [CHR 0xE2, CHR 0x80, CHR 0x84], [CHR 0xE2, CHR 0x80, CHR 0x85],
      [CHR 0xE2, CHR 0x80, CHR 0x86], [CHR 0xE2, CHR 0x80, CHR 0x87], [CHR 0xE2, CHR 0x80, CHR 0x88],
      [CHR 0xE2, CHR 0x80, CHR 0x89], [CHR 0xE2, CHR 0x80, CHR 0x8A], [CHR 0xE2, CHR 0x80, CHR 0xA8],
      [CHR 0xE2, CHR 0x80, CHR 0xA9], [CHR 0xE2, CHR 0x80, CHR 0xAF], [CHR 0xE2, CHR 0x81, CHR 0x9F],
      [CHR 0xE3, CHR 0x80, CHR 0x80]]"

fun strip_prefix :: "bytes \<Rightarrow> bytes \<Rightarrow> bytes option" where
  "strip_prefix [] s = Some s"
| "strip_prefix (c # cs) [] = None"
| "strip_prefix (c # cs) (d # ds) = (if c = d then strip_prefix cs ds else None)"

lemma strip_prefix_Some: "strip_prefix p s = Some r \<longleftrightarrow> s = p @ r"
  by (induction p s rule: strip_prefix.induct) auto

fun first_strip :: "bytes list \<Rightarrow> bytes \<Rightarrow> bytes option" where
  "first_strip [] s = None"
| "first_strip (w # ws) s =
     (case strip_prefix w s of Some r \<Rightarrow> if length r < length s then Some r else first_strip ws s
      | None \<Rightarrow> first_strip ws s)"

lemma first_strip_shorter: "first_strip ws s = Some r \<Longrightarrow> length r < length s"
  by (induction ws) (auto split: option.splits if_splits)

function trim_with :: "bytes list \<Rightarrow> bytes \<Rightarrow> bytes" where
  "trim_with ws s = (case first_strip ws s of None \<Rightarrow> s | Some r \<Rightarrow> trim_with ws r)"
  by pat_completeness auto
termination
  by (relation "measure (\<lambda>(ws, s). length s)") (auto dest: first_strip_shorter)

declare trim_with.simps [simp del]

definition trim_start :: "string \<Rightarrow> string" where
  "trim_start s = trim_with white_space s"

definition trim_end :: "string \<Rightarrow> string" where
  "trim_end s = rev (trim_with (map rev white_space) (rev s))"

definition trim :: "string \<Rightarrow> string" where
  "trim s = trim_end (trim_start s)"

definition ascii_lower :: "char \<Rightarrow> char" where
  "ascii_lower c = (if 65 \<le> bval c \<and> bval c \<le> 90 then byte (bval c + 32) else c)"

definition eq_ignore_ascii_case :: "string \<Rightarrow> string \<Rightarrow> bool" where
  "eq_ignore_ascii_case a b \<longleftrightarrow> map ascii_lower a = map ascii_lower b"

definition ascii_upper :: "char \<Rightarrow> char" where
  "ascii_upper c = (if 97 \<le> bval c \<and> bval c \<le> 122 then byte (bval c - 32) else c)"

text \<open>The parameters on ASCII text (where NFC is the identity), with the number a text reads
  as for its hash: the instance the concrete applications of the theorems use.\<close>

definition ascii_ext :: ext where
  "ascii_ext = \<lparr>nfc = (\<lambda>s. s), to_lowercase = map ascii_lower, to_uppercase = map ascii_upper,
     xxh3_128 = from_le128, bincode_str = (\<lambda>s. le64 (of_nat (length s)) @ s)\<rparr>"

definition is_digit :: "char \<Rightarrow> bool" where
  "is_digit c \<longleftrightarrow> 48 \<le> bval c \<and> bval c \<le> 57"

definition digit_val :: "char \<Rightarrow> nat" where
  "digit_val c = bval c - 48"

fun contains_str :: "string \<Rightarrow> string \<Rightarrow> bool" where
  "contains_str [] p = (p = [])"
| "contains_str (c # cs) p = (prefix p (c # cs) \<or> contains_str cs p)"

definition starts_with :: "string \<Rightarrow> string \<Rightarrow> bool" where
  "starts_with s p = prefix p s"

definition ends_with :: "string \<Rightarrow> string \<Rightarrow> bool" where
  "ends_with s p = prefix (rev p) (rev s)"

fun split_pred :: "(char \<Rightarrow> bool) \<Rightarrow> string \<Rightarrow> string list" where
  "split_pred P [] = [[]]"
| "split_pred P (c # cs) =
     (if P c then [] # split_pred P cs
      else (case split_pred P cs of [] \<Rightarrow> [[c]] | s # ss \<Rightarrow> (c # s) # ss))"

lemma split_pred_not_Nil [simp]: "split_pred P s \<noteq> []"
  by (induction s) (auto split: list.splits)

fun split_once :: "char \<Rightarrow> string \<Rightarrow> (string \<times> string) option" where
  "split_once d [] = None"
| "split_once d (c # cs) =
     (if c = d then Some ([], cs) else map_option (apfst ((#) c)) (split_once d cs))"

lemma split_once_Some: "split_once d s = Some (a, b) \<longleftrightarrow> s = a @ d # b \<and> d \<notin> set a"
proof (induction s arbitrary: a)
  case (Cons c cs)
  then show ?case by (cases a) (auto simp: apfst_def map_prod_def split: prod.splits)
qed simp

lemma split_once_None: "split_once d s = None \<longleftrightarrow> d \<notin> set s"
  by (induction s) auto

text \<open>The rest of \<open>s\<close> from the first occurrence of \<open>d\<close>, with the part before it.\<close>

fun find_str :: "string \<Rightarrow> string \<Rightarrow> (string \<times> string) option" where
  "find_str d [] = (if d = [] then Some ([], []) else None)"
| "find_str d (c # cs) =
     (case strip_prefix d (c # cs) of Some r \<Rightarrow> Some ([], r)
      | None \<Rightarrow> map_option (apfst ((#) c)) (find_str d cs))"

lemma find_str_Some: "find_str d s = Some (a, b) \<Longrightarrow> s = a @ d @ b"
proof (induction s arbitrary: a)
  case (Cons c cs)
  show ?case
  proof (cases "strip_prefix d (c # cs)")
    case None
    with Cons.prems obtain a' where "find_str d cs = Some (a', b)" "a = c # a'" by auto
    with Cons.IH show ?thesis by simp
  next
    case (Some r)
    with Cons.prems show ?thesis by (auto simp del: strip_prefix.simps simp: strip_prefix_Some)
  qed
qed (auto split: if_splits)

function split_str :: "string \<Rightarrow> string \<Rightarrow> string list" where
  "split_str d s = (if d = [] then [s] else
     (case find_str d s of None \<Rightarrow> [s] | Some (a, b) \<Rightarrow> a # split_str d b))"
  by pat_completeness auto
termination
  by (relation "measure (\<lambda>(d, s). length s)") (auto dest!: find_str_Some)

declare split_str.simps [simp del]

fun join_with :: "string \<Rightarrow> string list \<Rightarrow> string" where
  "join_with sep [] = []"
| "join_with sep [x] = x"
| "join_with sep (x # y # ys) = x @ sep @ join_with sep (y # ys)"

lemma join_with_Cons: "xs \<noteq> [] \<Longrightarrow> join_with sep (x # xs) = x @ sep @ join_with sep xs"
  by (cases xs) auto

text \<open>Joining on a byte that no part contains loses nothing.\<close>

lemma join_with_inj:
  assumes "length xs = length ys" "\<forall>x\<in>set xs. d \<notin> set x" "\<forall>y\<in>set ys. d \<notin> set y"
    and "join_with [d] xs = join_with [d] ys"
  shows "xs = ys"
  using assms
proof (induction xs ys rule: list_induct2)
  case Nil
  then show ?case by simp
next
  case (Cons x xs y ys)
  show ?case
  proof (cases "xs = []")
    case True
    with Cons show ?thesis by auto
  next
    case False
    with Cons.hyps have "ys \<noteq> []" by auto
    with False Cons.prems have eq: "x @ d # join_with [d] xs = y @ d # join_with [d] ys"
      and "d \<notin> set x" "d \<notin> set y"
      by (auto simp: join_with_Cons)
    then have "split_once d (x @ d # join_with [d] xs) = Some (x, join_with [d] xs)"
      and "split_once d (x @ d # join_with [d] xs) = Some (y, join_with [d] ys)"
      by (simp_all add: split_once_Some)
    then have "x = y" "join_with [d] xs = join_with [d] ys" by auto
    with Cons show ?thesis by auto
  qed
qed

section \<open>Decimal numbers\<close>

fun show_nat :: "nat \<Rightarrow> string" where
  "show_nat n = (if n < 10 then [byte (48 + n)] else show_nat (n div 10) @ [byte (48 + n mod 10)])"

declare show_nat.simps [simp del]

definition show_int :: "int \<Rightarrow> string" where
  "show_int i = (if i < 0 then CHR ''-'' # show_nat (nat (- i)) else show_nat (nat i))"

definition digits_val :: "string \<Rightarrow> nat" where
  "digits_val ds = foldl (\<lambda>n c. 10 * n + digit_val c) 0 ds"

text \<open>\<open>str::parse\<close> for an unsigned type of the given width.\<close>

definition parse_unsigned :: "nat \<Rightarrow> string \<Rightarrow> nat option" where
  "parse_unsigned w s =
     (let ds = (case s of c # cs \<Rightarrow> if c = CHR ''+'' \<and> cs \<noteq> [] then cs else s | [] \<Rightarrow> []) in
      if ds \<noteq> [] \<and> list_all is_digit ds \<and> digits_val ds < 2 ^ w then Some (digits_val ds) else None)"

text \<open>\<open>str::parse::<i64>\<close>.\<close>

definition parse_i64 :: "string \<Rightarrow> int option" where
  "parse_i64 s = (case s of
       c # ds \<Rightarrow>
         if c = CHR ''-'' then
           (if ds \<noteq> [] \<and> list_all is_digit ds \<and> digits_val ds \<le> 2 ^ 63 then Some (- int (digits_val ds)) else None)
         else map_option int (parse_unsigned 63 s)
     | [] \<Rightarrow> None)"

lemma digit_byte: "n < 10 \<Longrightarrow> is_digit (byte (48 + n)) \<and> digit_val (byte (48 + n)) = n"
  by (simp add: is_digit_def digit_val_def)

lemma show_nat_digits: "list_all is_digit (show_nat n) \<and> show_nat n \<noteq> [] \<and> digits_val (show_nat n) = n"
proof (induction n rule: show_nat.induct)
  case (1 n)
  show ?case
  proof (cases "n < 10")
    case True
    then show ?thesis
      by (simp add: show_nat.simps [of n] digit_byte digits_val_def)
  next
    case False
    with 1 have IH: "list_all is_digit (show_nat (n div 10))" "digits_val (show_nat (n div 10)) = n div 10"
      by auto
    have "n mod 10 < 10" by simp
    with IH False show ?thesis
      by (simp add: show_nat.simps [of n] digit_byte digits_val_def)
  qed
qed

lemma show_nat_hd: "is_digit (hd (show_nat n))"
  using show_nat_digits [of n] by (cases "show_nat n") auto

lemma parse_show_nat: "n < 2 ^ w \<Longrightarrow> parse_unsigned w (show_nat n) = Some n"
proof -
  assume "n < 2 ^ w"
  obtain c cs where s: "show_nat n = c # cs" using show_nat_digits [of n] by (cases "show_nat n") auto
  then have "c \<noteq> CHR ''+''" using show_nat_hd [of n] by (auto simp: is_digit_def bval_def)
  with s show_nat_digits [of n] \<open>n < 2 ^ w\<close> show ?thesis
    by (simp add: parse_unsigned_def)
qed

lemma show_nat_inj: "show_nat m = show_nat n \<longleftrightarrow> m = n"
  using show_nat_digits [of m] show_nat_digits [of n] by metis

lemma show_nat_not_minus: "show_nat n \<noteq> CHR ''-'' # s"
  using show_nat_hd [of n] by (auto simp: is_digit_def bval_def)

lemma show_int_inj: "show_int i = show_int j \<longleftrightarrow> i = j"
  by (auto simp: show_int_def show_nat_inj show_nat_not_minus show_nat_not_minus [symmetric] dest: arg_cong [of _ _ nat])

lemma parse_show_int: "- (2 ^ 63) \<le> i \<Longrightarrow> i < 2 ^ 63 \<Longrightarrow> parse_i64 (show_int i) = Some i"
proof (cases "i < 0")
  case True
  assume "- (2 ^ 63) \<le> i"
  with True show_nat_digits [of "nat (- i)"] show ?thesis
    by (simp add: parse_i64_def show_int_def)
next
  case False
  assume i: "i < 2 ^ 63"
  obtain c cs where s: "show_nat (nat i) = c # cs" using show_nat_digits [of "nat i"] by (cases "show_nat (nat i)") auto
  then have "c \<noteq> CHR ''-''" using show_nat_not_minus by metis
  moreover have "parse_unsigned 63 (show_nat (nat i)) = Some (nat i)" using i False by (intro parse_show_nat) auto
  ultimately show ?thesis using False s by (simp add: parse_i64_def show_int_def)
qed

text \<open>Printable ASCII: no such character is part of white space.\<close>

definition graphic :: "char \<Rightarrow> bool" where
  "graphic c \<longleftrightarrow> 33 \<le> bval c \<and> bval c \<le> 126"

lemma first_strip_graphic:
  "graphic c \<Longrightarrow> \<forall>w\<in>set ws. w \<noteq> [] \<and> \<not> graphic (hd w) \<Longrightarrow> first_strip ws (c # cs) = None"
  by (induction ws) (auto simp: neq_Nil_conv)

lemma trim_graphic: "list_all graphic s \<Longrightarrow> trim s = s"
proof (cases "s = []")
  case False
  assume g: "list_all graphic s"
  have w: "\<forall>w\<in>set white_space. w \<noteq> [] \<and> \<not> graphic (hd w)" "\<forall>w\<in>set (map rev white_space). w \<noteq> [] \<and> \<not> graphic (hd w)"
    by (simp_all add: white_space_def graphic_def bval_def)
  have t: "trim_with ws s = s" if "s \<noteq> []" "list_all graphic s" "\<forall>w\<in>set ws. w \<noteq> [] \<and> \<not> graphic (hd w)" for ws s
    using that first_strip_graphic [of "hd s" ws "tl s"] by (cases s) (simp_all add: trim_with.simps)
  from g False t [OF _ _ w(1)] t [OF _ _ w(2), of "rev s"] show ?thesis
    by (simp add: trim_def trim_start_def trim_end_def list_all_iff)
qed (simp add: trim_def trim_start_def trim_end_def trim_with.simps white_space_def)

lemma graphic_show_nat: "list_all graphic (show_nat n)"
  using show_nat_digits [of n] by (auto simp: list_all_iff graphic_def is_digit_def)

lemma trim_show_nat: "trim (show_nat n) = show_nat n"
  by (rule trim_graphic [OF graphic_show_nat])

section \<open>BufWriter\<close>

text \<open>
  A \<open>BufWriter<File>\<close> opened in append mode: what the file holds and what is still in the
  buffer (capacity 8192, the default). \<open>bw_write_all\<close> follows \<open>BufWriter::write_all\<close>.
\<close>

record bufw =
  bw_file :: bytes
  bw_buf :: bytes

definition bw_capacity :: nat where
  "bw_capacity = 8192"

definition bw_open :: "bytes \<Rightarrow> bufw" where
  "bw_open file = \<lparr>bw_file = file, bw_buf = []\<rparr>"

definition bw_flush :: "bufw \<Rightarrow> bufw" where
  "bw_flush w = \<lparr>bw_file = bw_file w @ bw_buf w, bw_buf = []\<rparr>"

definition bw_write_all :: "bytes \<Rightarrow> bufw \<Rightarrow> bufw" where
  "bw_write_all d w =
     (let spare = bw_capacity - length (bw_buf w) in
      if length d < spare then w\<lparr>bw_buf := bw_buf w @ d\<rparr>
      else let w = (if spare < length d then bw_flush w else w) in
        if bw_capacity \<le> length d then w\<lparr>bw_file := bw_file w @ d\<rparr>
        else w\<lparr>bw_buf := bw_buf w @ d\<rparr>)"

definition bw_all :: "bufw \<Rightarrow> bytes" where
  "bw_all w = bw_file w @ bw_buf w"

definition bw_ok :: "bufw \<Rightarrow> bool" where
  "bw_ok w \<longleftrightarrow> length (bw_buf w) \<le> bw_capacity"

lemma bw_simps [simp]:
  "bw_all (bw_open f) = f" "bw_all (bw_flush w) = bw_all w" "bw_file (bw_flush w) = bw_all w"
  "bw_buf (bw_flush w) = []" "bw_ok (bw_open f)" "bw_ok (bw_flush w)" "bw_file (bw_open f) = f"
  "bw_buf (bw_open f) = []"
  by (simp_all add: bw_all_def bw_open_def bw_flush_def bw_ok_def)

lemma bw_write_all_all [simp]: "bw_ok w \<Longrightarrow> bw_all (bw_write_all d w) = bw_all w @ d"
proof (cases "bw_buf w")
  case Nil
  then show ?thesis
    by (simp add: bw_write_all_def bw_all_def bw_flush_def Let_def)
next
  case (Cons c cs)
  then show ?thesis
    by (auto simp: bw_write_all_def bw_all_def bw_flush_def bw_capacity_def Let_def)
qed

lemma bw_write_all_ok [simp, intro]: "bw_ok w \<Longrightarrow> bw_ok (bw_write_all d w)"
  by (auto simp: bw_write_all_def bw_flush_def bw_ok_def Let_def)

lemma bw_file_prefix: "prefix (bw_file w) (bw_all w)"
  by (simp add: bw_all_def)

end
