(* ===== verification/Wal.thy ===== *)
theory Wal
  imports Rust_Std
begin

text \<open>
  \<^verbatim>\<open>src/core/storage/wal.rs\<close>: the write-ahead log. A record is the length of its payload
  as a little-endian \<open>u64\<close> and the payload, the \<^verbatim>\<open>bincode\<close> encoding of a \<open>WalOperation\<close>
  (the parameters \<open>enc\<close> and \<open>dec\<close>). The file is appended to through a \<open>BufWriter\<close>;
  \<open>wal_replay\<close> reads it from the start. Operations of the file system succeed in the model,
  apart from the short reads \<open>replay\<close> itself distinguishes.
\<close>

datatype wal_operation =
    Insert string bytes
  | Delete string u64 u32
  | Update string bytes u64 u32

record wal =
  wal_writer :: bufw

datatype wal_error = UnexpectedEof | BadPayload

text \<open>What the log relies on of \<^verbatim>\<open>bincode\<close> for the values \<open>xs\<close> it is given: decoding an
  encoding returns the value, and the encodings are shorter than \<open>2\<^sup>6\<^sup>4\<close> bytes (Rust's \<open>usize\<close>).\<close>

definition codec_ok :: "('a \<Rightarrow> bytes) \<Rightarrow> (bytes \<Rightarrow> 'a option) \<Rightarrow> 'a list \<Rightarrow> bool" where
  "codec_ok enc dec xs \<longleftrightarrow> list_all (\<lambda>x. dec (enc x) = Some x \<and> length (enc x) < 2 ^ 64) xs"

section \<open>Operations\<close>

definition wal_open :: "bytes option \<Rightarrow> wal" where
  "wal_open file = \<lparr>wal_writer = bw_open (hdefault [] file)\<rparr>"

definition wal_frame :: "('a \<Rightarrow> bytes) \<Rightarrow> 'a \<Rightarrow> bytes" where
  "wal_frame enc op = le64 (of_nat (length (enc op))) @ enc op"

definition wal_append :: "(wal_operation \<Rightarrow> bytes) \<Rightarrow> wal_operation \<Rightarrow> wal \<Rightarrow> wal" where
  "wal_append enc op w =
     (let encoded = enc op; len = le64 (of_nat (length encoded)) in
      w\<lparr>wal_writer := bw_write_all encoded (bw_write_all len (wal_writer w))\<rparr>)"

definition wal_flush_writes :: "wal \<Rightarrow> wal" where
  "wal_flush_writes w = w\<lparr>wal_writer := bw_flush (wal_writer w)\<rparr>"

text \<open>The bytes on disk: what a crash leaves and what \<open>replay\<close>, which opens the path again,
  reads.\<close>

definition wal_file :: "wal \<Rightarrow> bytes" where
  "wal_file w = bw_file (wal_writer w)"

definition wal_truncate :: "wal \<Rightarrow> wal" where
  "wal_truncate w = (let flushed = wal_flush_writes w in flushed\<lparr>wal_writer := bw_open []\<rparr>)"

text \<open>The loop of \<open>replay\<close>: an end of file in the length ends it, an end of file in the
  payload is the error of the whole call.\<close>

function replay_bytes :: "(bytes \<Rightarrow> 'a option) \<Rightarrow> bytes \<Rightarrow> wal_error + 'a list" where
  "replay_bytes dec bs =
     (if length bs < 8 then Inr []
      else let len = unat (from_le64 (take 8 bs)); rest = drop 8 bs in
        if length rest < len then Inl UnexpectedEof
        else (case dec (take len rest) of
                None \<Rightarrow> Inl BadPayload
              | Some op \<Rightarrow> rbind (replay_bytes dec (drop len rest)) (\<lambda>ops. Inr (op # ops))))"
  by pat_completeness auto
termination
  by (relation "measure (\<lambda>(dec, bs). length bs)") (auto simp: Let_def)

declare replay_bytes.simps [simp del]

definition wal_replay :: "(bytes \<Rightarrow> wal_operation option) \<Rightarrow> wal \<Rightarrow> wal_error + wal_operation list" where
  "wal_replay dec w = replay_bytes dec (wal_file w)"

section \<open>Frames\<close>

definition frames :: "('a \<Rightarrow> bytes) \<Rightarrow> 'a list \<Rightarrow> bytes" where
  "frames enc ops = concat (map (wal_frame enc) ops)"

lemma frames_simps [simp]: "frames enc [] = []" "frames enc (op # ops) = wal_frame enc op @ frames enc ops"
  by (simp_all add: frames_def)

lemma frames_append: "frames enc (ops @ ops') = frames enc ops @ frames enc ops'"
  by (simp add: frames_def)

lemma replay_short [simp]: "length bs < 8 \<Longrightarrow> replay_bytes dec bs = Inr []"
  by (simp add: replay_bytes.simps [of dec bs])

lemma codec_ok_simps [simp]:
  "codec_ok enc dec []"
  "codec_ok enc dec (x # xs) \<longleftrightarrow> (dec (enc x) = Some x \<and> length (enc x) < 2 ^ 64) \<and> codec_ok enc dec xs"
  "codec_ok enc dec (xs @ ys) \<longleftrightarrow> codec_ok enc dec xs \<and> codec_ok enc dec ys"
  by (simp_all add: codec_ok_def)

lemma codec_ok_nth: "codec_ok enc dec xs \<Longrightarrow> n < length xs \<Longrightarrow> codec_ok enc dec [xs ! n]"
  by (auto simp: codec_ok_def list_all_length)

lemma frame_length_field:
  "codec_ok enc dec [op] \<Longrightarrow> unat (from_le64 (le64 (of_nat (length (enc op))))) = length (enc op)"
  by (simp add: unat_of_nat take_bit_nat_eq_self)

lemma wal_frame_parts [simp]:
  "length (wal_frame enc op) = 8 + length (enc op)"
  "take 8 (wal_frame enc op) = le64 (of_nat (length (enc op)))"
  "drop 8 (wal_frame enc op) = enc op"
  by (simp_all add: wal_frame_def)

lemma replay_frame:
  assumes "codec_ok enc dec [op]"
  shows "replay_bytes dec (wal_frame enc op @ bs) = rbind (replay_bytes dec bs) (\<lambda>ops. Inr (op # ops))"
proof -
  have "dec (enc op) = Some op" using assms by simp
  then show ?thesis
    unfolding replay_bytes.simps [of dec "wal_frame enc op @ bs"]
    using frame_length_field [OF assms] by (simp add: Let_def)
qed

lemma replay_frames:
  "codec_ok enc dec ops \<Longrightarrow> replay_bytes dec (frames enc ops @ bs) = rbind (replay_bytes dec bs) (\<lambda>r. Inr (ops @ r))"
proof (induction ops)
  case Nil
  then show ?case by (cases "replay_bytes dec bs") simp_all
next
  case (Cons op ops)
  then show ?case by (cases "replay_bytes dec bs") (simp_all add: replay_frame)
qed

lemma replay_torn_frame:
  assumes "codec_ok enc dec [op]" "prefix p (wal_frame enc op)" "p \<noteq> wal_frame enc op"
  shows "replay_bytes dec p = (if length p < 8 then Inr [] else Inl UnexpectedEof)"
proof (cases "length p < 8")
  case False
  from assms(2) obtain q where q: "wal_frame enc op = p @ q" by (auto elim: prefixE)
  with assms(3) have "q \<noteq> []" by auto
  have t: "take 8 p = le64 (of_nat (length (enc op)))"
    using False arg_cong [OF q, of "take 8"] by simp
  have "length (drop 8 p) < length (enc op)"
    using \<open>q \<noteq> []\<close> False arg_cong [OF q, of length] by (cases q) simp_all
  with t False frame_length_field [OF assms(1)] show ?thesis
    by (simp add: replay_bytes.simps [of dec p] Let_def)
qed simp

text \<open>Every cut of a log is whole records followed by a cut record.\<close>

lemma prefix_frames:
  "prefix p (frames enc ops) \<Longrightarrow>
   \<exists>n q. n \<le> length ops \<and> p = frames enc (take n ops) @ q \<and>
     (q = [] \<or> n < length ops \<and> prefix q (wal_frame enc (ops ! n)) \<and> q \<noteq> wal_frame enc (ops ! n))"
proof (induction ops arbitrary: p)
  case Nil
  then show ?case by simp
next
  case (Cons op ops)
  show ?case
  proof (cases "prefix p (wal_frame enc op) \<and> p \<noteq> wal_frame enc op")
    case True
    then show ?thesis by (intro exI [of _ 0] exI [of _ p]) auto
  next
    case False
    with Cons.prems obtain r where r: "p = wal_frame enc op @ r" "prefix r (frames enc ops)"
      by (auto simp: prefix_append_cases)
    from Cons.IH [OF r(2)] obtain n q where "n \<le> length ops" "r = frames enc (take n ops) @ q"
      "q = [] \<or> n < length ops \<and> prefix q (wal_frame enc (ops ! n)) \<and> q \<noteq> wal_frame enc (ops ! n)"
      by blast
    with r show ?thesis by (intro exI [of _ "Suc n"] exI [of _ q]) auto
  qed
qed

section \<open>The log as a sequence of records\<close>

fun wal_append_all :: "(wal_operation \<Rightarrow> bytes) \<Rightarrow> wal_operation list \<Rightarrow> wal \<Rightarrow> wal" where
  "wal_append_all enc [] w = w"
| "wal_append_all enc (op # ops) w = wal_append_all enc ops (wal_append enc op w)"

definition wal_ok :: "wal \<Rightarrow> bool" where
  "wal_ok w \<longleftrightarrow> bw_ok (wal_writer w)"

definition wal_bytes :: "wal \<Rightarrow> bytes" where
  "wal_bytes w = bw_all (wal_writer w)"

lemma wal_simps [simp]:
  "wal_ok (wal_open f)" "wal_bytes (wal_open f) = hdefault [] f" "wal_file (wal_open f) = hdefault [] f"
  "wal_ok (wal_flush_writes w)" "wal_bytes (wal_flush_writes w) = wal_bytes w"
  "wal_file (wal_flush_writes w) = wal_bytes w"
  "wal_ok (wal_truncate w)" "wal_bytes (wal_truncate w) = []" "wal_file (wal_truncate w) = []"
  by (simp_all add: wal_ok_def wal_open_def wal_bytes_def wal_file_def wal_flush_writes_def
      wal_truncate_def Let_def)

lemma wal_append_bytes [simp]:
  "wal_ok w \<Longrightarrow> wal_bytes (wal_append enc op w) = wal_bytes w @ wal_frame enc op"
  "wal_ok w \<Longrightarrow> wal_ok (wal_append enc op w)"
  by (simp_all add: wal_ok_def wal_bytes_def wal_append_def wal_frame_def Let_def)

lemma wal_append_all_bytes:
  "wal_ok w \<Longrightarrow> wal_ok (wal_append_all enc ops w) \<and>
   wal_bytes (wal_append_all enc ops w) = wal_bytes w @ frames enc ops"
  by (induction ops arbitrary: w) simp_all

lemma wal_file_prefix: "prefix (wal_file w) (wal_bytes w)"
  by (simp add: wal_file_def wal_bytes_def bw_file_prefix)

lemma replay_cut:
  assumes "codec_ok enc dec ops" "prefix p (frames enc ops)"
  shows "\<exists>n q. n \<le> length ops \<and> p = frames enc (take n ops) @ q \<and>
    replay_bytes dec p = (if length q < 8 then Inr (take n ops) else Inl UnexpectedEof)"
proof -
  obtain n q where nq: "n \<le> length ops" "p = frames enc (take n ops) @ q"
    and q: "q = [] \<or> n < length ops \<and> prefix q (wal_frame enc (ops ! n)) \<and> q \<noteq> wal_frame enc (ops ! n)"
    using prefix_frames [OF assms(2)] by blast
  from q have "replay_bytes dec q = (if length q < 8 then Inr [] else Inl UnexpectedEof)"
    using replay_torn_frame [OF codec_ok_nth [OF assms(1)]] by auto
  moreover have "codec_ok enc dec (take n ops)"
    using assms(1) by (metis append_take_drop_id codec_ok_simps(3))
  ultimately show ?thesis using nq by (auto simp: replay_frames)
qed

section \<open>A codec\<close>

text \<open>The layout \<^verbatim>\<open>bincode\<close> gives a \<open>WalOperation\<close> (variant, then the fields, strings with
  their length): an instance of the parameters.\<close>

definition wal_enc :: "wal_operation \<Rightarrow> bytes" where
  "wal_enc op = (case op of
     Insert pk data \<Rightarrow> CHR 0x00 # le64 (of_nat (length pk)) @ pk @ data
   | Delete pk seg row \<Rightarrow> CHR 0x01 # le64 seg @ le32 row @ pk
   | Update pk data seg row \<Rightarrow> CHR 0x02 # le64 seg @ le32 row @ le64 (of_nat (length pk)) @ pk @ data)"

definition wal_dec :: "bytes \<Rightarrow> wal_operation option" where
  "wal_dec bs = (case bs of [] \<Rightarrow> None | tag # r \<Rightarrow>
     let str = (\<lambda>r. let n = unat (from_le64 (take 8 r)) in (take n (drop 8 r), drop n (drop 8 r))) in
     if tag = CHR 0x00 then Some (Insert (fst (str r)) (snd (str r)))
     else if tag = CHR 0x01 then Some (Delete (drop 12 r) (from_le64 (take 8 r)) (from_le32 (take 4 (drop 8 r))))
     else if tag = CHR 0x02 then (let t = drop 12 r in
       Some (Update (fst (str t)) (snd (str t)) (from_le64 (take 8 r)) (from_le32 (take 4 (drop 8 r)))))
     else None)"

definition wal_op_size :: "wal_operation \<Rightarrow> nat" where
  "wal_op_size op = (case op of Insert pk data \<Rightarrow> length pk + length data | Delete pk seg row \<Rightarrow> length pk
     | Update pk data seg row \<Rightarrow> length pk + length data)"

lemma wal_codec [simp]:
  assumes "list_all (\<lambda>op. wal_op_size op < 2 ^ 63) ops"
  shows "codec_ok wal_enc wal_dec ops"
proof -
  have "wal_dec (wal_enc op) = Some op \<and> length (wal_enc op) < 2 ^ 64" if "wal_op_size op < 2 ^ 63" for op
    using that
    by (cases op) (simp_all add: wal_enc_def wal_dec_def wal_op_size_def Let_def unat_of_nat
        take_bit_nat_eq_self)
  with assms show ?thesis by (auto simp: codec_ok_def list_all_iff)
qed

lemma wal_enc_length: "9 \<le> length (wal_enc op)"
  by (cases op) (simp_all add: wal_enc_def)

section \<open>Properties\<close>

text \<open>C23: Whatever the log of a crashed process holds, replaying it never invents or reorders
  operations: if \<open>kept\<close> was appended and flushed, \<open>later\<close> appended after it, and the crash
  left any byte string between the flushed file and all bytes written, then replay either
  returns every flushed operation followed by a prefix of the later ones, or fails with
  \<open>UnexpectedEof\<close> (the cut fell inside a payload).\<close>

theorem wal_crash_safe:
  assumes "codec_ok enc dec (kept @ later)"
  assumes "w = wal_flush_writes (wal_append_all enc kept (wal_open None))"
  assumes "prefix (wal_file w) p" "prefix p (wal_bytes (wal_append_all enc later w))"
  shows "(\<exists>n. replay_bytes dec p = Inr (kept @ take n later)) \<or> replay_bytes dec p = Inl UnexpectedEof"
proof -
  have b: "wal_ok w" "wal_bytes w = frames enc kept" "wal_file w = frames enc kept"
    using wal_append_all_bytes [of "wal_open None" enc kept] by (simp_all add: assms(2))
  obtain r where r: "p = frames enc kept @ r" "prefix r (frames enc later)"
    using assms(3,4) b wal_append_all_bytes [OF b(1), of enc later] by (auto elim!: prefixE)
  have c: "codec_ok enc dec kept" "codec_ok enc dec later" using assms(1) by simp_all
  show ?thesis
    using replay_cut [OF c(2) r(2)] by (auto simp: r(1) replay_frames [OF c(1)] split: if_splits)
qed

theorem wal_crash_safe_witness:
  "(\<exists>n. replay_bytes wal_dec (frames wal_enc [Insert ''a'' ''x''] @ take 3 (wal_frame wal_enc (Delete ''a'' 1 2))) =
      Inr ([Insert ''a'' ''x''] @ take n [Delete ''a'' 1 2])) \<or>
   replay_bytes wal_dec (frames wal_enc [Insert ''a'' ''x''] @ take 3 (wal_frame wal_enc (Delete ''a'' 1 2))) = Inl UnexpectedEof"
proof (rule wal_crash_safe [OF _ refl, where enc = wal_enc])
  show "codec_ok wal_enc wal_dec ([Insert ''a'' ''x''] @ [Delete ''a'' 1 2])"
    by (rule wal_codec) (simp add: wal_op_size_def)
qed (simp_all add: wal_append_all_bytes take_is_prefix)

text \<open>A log that was flushed replays to exactly the operations appended, in order, whatever
  whole records the file already held when it was opened.\<close>

theorem wal_replay_roundtrip:
  assumes "codec_ok enc dec (old @ ops)"
  shows "wal_replay dec (wal_flush_writes (wal_append_all enc ops (wal_open (Some (frames enc old))))) =
    Inr (old @ ops)"
  using assms wal_append_all_bytes [of "wal_open (Some (frames enc old))" enc ops]
    replay_frames [of enc dec "old @ ops" "[]"]
  by (simp add: wal_replay_def frames_append)

theorem wal_replay_roundtrip_witness:
  "wal_replay wal_dec (wal_flush_writes (wal_append_all wal_enc [Delete ''k'' 7 3]
     (wal_open (Some (frames wal_enc [Insert ''k'' ''row'']))))) =
    Inr ([Insert ''k'' ''row''] @ [Delete ''k'' 7 3])"
  by (rule wal_replay_roundtrip, rule wal_codec) (simp add: wal_op_size_def)

text \<open>A torn tail is not treated uniformly: a cut inside the length of the last record is
  dropped, a cut inside its payload makes the whole replay fail, and with it \<open>Table::open\<close>,
  although every earlier record is intact.\<close>

theorem wal_torn_payload_fails:
  assumes "codec_ok enc dec (ops @ [op])" "0 < length (enc op)"
    "q = take k (wal_frame enc op)" "k < length (wal_frame enc op)"
  shows "replay_bytes dec (frames enc ops @ q) = (if k < 8 then Inr ops else Inl UnexpectedEof)"
proof -
  have len: "length q = k" using assms(3,4) by (simp only: length_take)
  then have "q \<noteq> wal_frame enc op" using assms(4) by auto
  moreover have "prefix q (wal_frame enc op)" by (simp add: assms(3) take_is_prefix)
  moreover note len
  ultimately show ?thesis
    using assms(1) replay_torn_frame [of enc dec op q] by (simp add: replay_frames)
qed

theorem wal_torn_payload_fails_witness:
  "replay_bytes wal_dec (frames wal_enc [Delete ''k'' 7 3] @ take 9 (wal_frame wal_enc (Insert ''k'' ''row''))) =
    (if (9::nat) < 8 then Inr [Delete ''k'' 7 3] else Inl UnexpectedEof)"
proof (rule wal_torn_payload_fails [OF _ _ refl])
  show "codec_ok wal_enc wal_dec ([Delete ''k'' 7 3] @ [Insert ''k'' ''row''])"
    by (rule wal_codec) (simp add: wal_op_size_def)
  show "0 < length (wal_enc (Insert ''k'' ''row''))" "9 < length (wal_frame wal_enc (Insert ''k'' ''row''))"
    using wal_enc_length [of "Insert ''k'' ''row''"] unfolding wal_frame_parts by linarith+
qed

end
