(* ===== verification/Float64.thy ===== *)
theory Float64
  imports Rust_Std
begin

text \<open>
  Rust's \<open>f64\<close>: a finite value is the rational number it denotes, and every arithmetic
  result is rounded to the nearest binary64 number, ties to even (\<open>round64\<close>). The sign of a
  zero is not represented: no operation of the engine tells \<open>-0.0\<close> from \<open>0.0\<close> (it
  compares values, divides only by values it has checked to differ from zero, and prints
  integers through \<open>as i64\<close>).
\<close>

datatype f64 = Fin rat | PInf | NInf | NaN

section \<open>Rounding\<close>

definition pow2 :: "int \<Rightarrow> rat" where
  "pow2 e = (if 0 \<le> e then 2 ^ nat e else 1 / 2 ^ nat (- e))"

fun nlog2 :: "nat \<Rightarrow> nat" where
  "nlog2 n = (if n < 2 then 0 else Suc (nlog2 (n div 2)))"

declare nlog2.simps [simp del]

definition exp_of :: "rat \<Rightarrow> int" where
  "exp_of q = (let (n, d) = quotient_of q; g = int (nlog2 (nat n)) - int (nlog2 (nat d)) in
     if pow2 g \<le> q then g else g - 1)"

definition round_half_even :: "rat \<Rightarrow> int" where
  "round_half_even q = (let f = \<lfloor>q\<rfloor>; d = q - of_int f in
     if d < 1/2 then f else if 1/2 < d then f + 1 else if even f then f else f + 1)"

definition round64 :: "rat \<Rightarrow> f64" where
  "round64 q = (if q = 0 then Fin 0 else
     (let a = \<bar>q\<bar>; e = max (exp_of a - 52) (- 1074);
          r = of_int (round_half_even (a / pow2 e)) * pow2 e in
      if pow2 1024 \<le> r then (if 0 < q then PInf else NInf) else Fin (sgn q * r)))"

lemma pow2_pos [simp]: "0 < pow2 e"
  by (simp add: pow2_def)

lemma pow2_0 [simp]: "pow2 0 = 1"
  by (simp add: pow2_def)

lemma pow2_nat: "pow2 (int n) = 2 ^ n"
  by (simp add: pow2_def)

lemma pow2_powi: "pow2 e = 2 powi e"
  by (simp only: pow2_def power_int_def divide_inverse power_inverse mult_1_left)

lemma pow2_mono: "e \<le> f \<Longrightarrow> pow2 e \<le> pow2 f"
  unfolding pow2_powi by (rule power_int_increasing) auto

lemma nlog2_bounds: "0 < n \<Longrightarrow> 2 ^ nlog2 n \<le> n \<and> n < 2 ^ Suc (nlog2 n)"
proof (induction n rule: nlog2.induct)
  case (1 n)
  show ?case
  proof (cases "n < 2")
    case True
    with 1 show ?thesis by (simp add: nlog2.simps [of n])
  next
    case False
    with 1 have "2 ^ nlog2 (n div 2) \<le> n div 2" "n div 2 < 2 ^ Suc (nlog2 (n div 2))" by auto
    then show ?thesis using False by (auto simp: nlog2.simps [of n])
  qed
qed

lemma exp_of_le: "pow2 (exp_of (of_nat (Suc m))) \<le> of_nat (Suc m)"
  and exp_of_nat: "exp_of (of_nat (Suc m)) = int (nlog2 (Suc m))"
proof -
  have q: "quotient_of (of_nat (Suc m)) = (int (Suc m), 1)"
    using quotient_of_int [of "int (Suc m)"] by (simp add: Rat.of_int_def)
  have "2 ^ nlog2 (Suc m) \<le> Suc m" using nlog2_bounds [of "Suc m"] by simp
  then have *: "pow2 (int (nlog2 (Suc m))) \<le> of_nat (Suc m)"
    unfolding pow2_nat by (metis of_nat_le_iff of_nat_numeral of_nat_power)
  have n1: "nlog2 (Suc 0) = 0" by (simp add: nlog2.simps)
  show e: "exp_of (of_nat (Suc m)) = int (nlog2 (Suc m))"
    using * by (simp only: exp_of_def q Let_def case_prod_conv nat_int) (simp add: n1 del: of_nat_Suc)
  from * show "pow2 (exp_of (of_nat (Suc m))) \<le> of_nat (Suc m)" unfolding e .
qed

lemma round_half_even_of_int [simp]: "round_half_even (of_int n) = n"
  by (simp add: round_half_even_def)

text \<open>Integers up to \<open>2\<^sup>5\<^sup>3\<close> are represented exactly.\<close>

lemma round64_of_nat: "n \<le> 2 ^ 53 \<Longrightarrow> round64 (of_nat n) = Fin (of_nat n)"
proof (cases n)
  case 0
  then show ?thesis by (simp add: round64_def)
next
  case (Suc m)
  assume le: "n \<le> 2 ^ 53"
  have lo: "2 ^ nlog2 n \<le> n" and hi: "n < 2 ^ Suc (nlog2 n)" using nlog2_bounds [of n] Suc by auto
  define e where "e = max (int (nlog2 n) - 52) (- 1074)"
  have big: "(of_nat n :: rat) < pow2 1024"
  proof -
    have "(of_nat n :: rat) \<le> 2 ^ 53" using le by (metis of_nat_le_iff of_nat_numeral of_nat_power)
    also have "\<dots> < 2 ^ 1024" by (rule power_strict_increasing) auto
    finally show ?thesis by (simp add: pow2_def)
  qed
  have ex: "\<exists>k::int. (of_nat n :: rat) / pow2 e = of_int k"
  proof (cases "nlog2 n \<le> 52")
    case True
    define j where "j = 52 - nlog2 n"
    have j: "e = - int j" using True by (simp add: e_def j_def)
    have "(of_nat n :: rat) / pow2 e = of_int (int n * 2 ^ j)"
      unfolding j by (cases "j = 0") (simp_all add: pow2_def)
    then show ?thesis by blast
  next
    case False
    have "n = 2 ^ 53"
    proof (rule ccontr)
      assume "n \<noteq> 2 ^ 53"
      with le have "n < 2 ^ 53" by simp
      with lo have "(2::nat) ^ nlog2 n < 2 ^ 53" by linarith
      then have "nlog2 n < 53" by (rule power_less_imp_less_exp [rotated]) simp
      with False show False by simp
    qed
    from this lo have "(2::nat) ^ nlog2 n \<le> 2 ^ 53" by simp
    then have "nlog2 n \<le> 53" by (rule power_le_imp_le_exp [rotated]) simp
    with False have "e = 1" by (simp add: e_def)
    with \<open>n = 2 ^ 53\<close> have "(of_nat n :: rat) / pow2 e = of_int (2 ^ 52)"
      by (simp add: pow2_def)
    then show ?thesis by blast
  qed
  then obtain k :: int where k: "(of_nat n :: rat) / pow2 e = of_int k" by blast
  then have kk: "of_int k * pow2 e = (of_nat n :: rat)" by (metis less_irrefl nonzero_divide_eq_eq pow2_pos)
  have ee: "exp_of (of_nat n :: rat) = int (nlog2 n)" using exp_of_nat Suc by simp
  have r: "round_half_even (of_nat n / pow2 e) = k" unfolding k by simp
  have pos: "(of_nat n :: rat) \<noteq> 0" "\<bar>of_nat n :: rat\<bar> = of_nat n" "sgn (of_nat n :: rat) = 1"
    using Suc by (simp_all del: of_nat_Suc)
  have "\<not> pow2 1024 \<le> (of_nat n :: rat)" using big by linarith
  then show ?thesis
    by (simp only: round64_def Let_def ee pos e_def [symmetric] r kk if_False mult_1_left)
qed

section \<open>Arithmetic and comparison\<close>

fun f64_neg :: "f64 \<Rightarrow> f64" where
  "f64_neg (Fin a) = Fin (- a)"
| "f64_neg PInf = NInf"
| "f64_neg NInf = PInf"
| "f64_neg NaN = NaN"

fun f64_add :: "f64 \<Rightarrow> f64 \<Rightarrow> f64" where
  "f64_add NaN b = NaN"
| "f64_add a NaN = NaN"
| "f64_add (Fin a) (Fin b) = round64 (a + b)"
| "f64_add PInf NInf = NaN"
| "f64_add NInf PInf = NaN"
| "f64_add PInf b = PInf"
| "f64_add NInf b = NInf"
| "f64_add a PInf = PInf"
| "f64_add a NInf = NInf"

definition f64_sub :: "f64 \<Rightarrow> f64 \<Rightarrow> f64" where
  "f64_sub a b = f64_add a (f64_neg b)"

definition inf_of_sign :: "rat \<Rightarrow> f64" where
  "inf_of_sign s = (if s = 0 then NaN else if 0 < s then PInf else NInf)"

fun f64_sign :: "f64 \<Rightarrow> rat" where
  "f64_sign (Fin a) = sgn a"
| "f64_sign PInf = 1"
| "f64_sign NInf = - 1"
| "f64_sign NaN = 0"

fun f64_mul :: "f64 \<Rightarrow> f64 \<Rightarrow> f64" where
  "f64_mul NaN b = NaN"
| "f64_mul a NaN = NaN"
| "f64_mul (Fin a) (Fin b) = round64 (a * b)"
| "f64_mul a b = inf_of_sign (f64_sign a * f64_sign b)"

text \<open>Division; the divisor zero never reaches it (\<open>evaluate\<close> tests it first).\<close>

fun f64_div :: "f64 \<Rightarrow> f64 \<Rightarrow> f64" where
  "f64_div NaN b = NaN"
| "f64_div a NaN = NaN"
| "f64_div (Fin a) (Fin b) = (if b = 0 then inf_of_sign (sgn a) else round64 (a / b))"
| "f64_div (Fin a) b = Fin 0"
| "f64_div a (Fin b) = inf_of_sign (f64_sign a * (if b < 0 then - 1 else 1))"
| "f64_div a b = NaN"

fun f64_abs :: "f64 \<Rightarrow> f64" where
  "f64_abs (Fin a) = Fin \<bar>a\<bar>"
| "f64_abs NaN = NaN"
| "f64_abs a = PInf"

fun partial_cmp :: "f64 \<Rightarrow> f64 \<Rightarrow> ordering option" where
  "partial_cmp NaN b = None"
| "partial_cmp a NaN = None"
| "partial_cmp (Fin a) (Fin b) = Some (cmp_ord a b)"
| "partial_cmp PInf PInf = Some Equal"
| "partial_cmp NInf NInf = Some Equal"
| "partial_cmp PInf b = Some Greater"
| "partial_cmp NInf b = Some Less"
| "partial_cmp a PInf = Some Less"
| "partial_cmp a NInf = Some Greater"

definition f64_lt :: "f64 \<Rightarrow> f64 \<Rightarrow> bool" where
  "f64_lt a b \<longleftrightarrow> partial_cmp a b = Some Less"

definition f64_le :: "f64 \<Rightarrow> f64 \<Rightarrow> bool" where
  "f64_le a b \<longleftrightarrow> partial_cmp a b = Some Less \<or> partial_cmp a b = Some Equal"

definition f64_eq :: "f64 \<Rightarrow> f64 \<Rightarrow> bool" where
  "f64_eq a b \<longleftrightarrow> partial_cmp a b = Some Equal"

definition epsilon :: f64 where
  "epsilon = Fin (1 / 2 ^ 52)"

fun f64_fract :: "f64 \<Rightarrow> f64" where
  "f64_fract (Fin a) = Fin (if 0 \<le> a then a - of_int \<lfloor>a\<rfloor> else a - of_int \<lceil>a\<rceil>)"
| "f64_fract _ = NaN"

fun is_finite :: "f64 \<Rightarrow> bool" where
  "is_finite (Fin a) = True"
| "is_finite _ = False"

text \<open>\<open>as i64\<close>: towards zero, saturating, NaN to zero.\<close>

definition clamp_i64 :: "int \<Rightarrow> int" where
  "clamp_i64 i = max (- (2 ^ 63)) (min (2 ^ 63 - 1) i)"

fun as_i64 :: "f64 \<Rightarrow> int" where
  "as_i64 (Fin a) = clamp_i64 (if 0 \<le> a then \<lfloor>a\<rfloor> else \<lceil>a\<rceil>)"
| "as_i64 PInf = 2 ^ 63 - 1"
| "as_i64 NInf = - (2 ^ 63)"
| "as_i64 NaN = 0"

fun f64_sum :: "f64 list \<Rightarrow> f64" where
  "f64_sum xs = foldl f64_add (Fin 0) xs"

text \<open>\<open>f64::min\<close> and \<open>f64::max\<close>: the other operand when one is NaN.\<close>

fun f64_min :: "f64 \<Rightarrow> f64 \<Rightarrow> f64" where
  "f64_min NaN b = b"
| "f64_min a NaN = a"
| "f64_min a b = (if f64_lt b a then b else a)"

fun f64_max :: "f64 \<Rightarrow> f64 \<Rightarrow> f64" where
  "f64_max NaN b = b"
| "f64_max a NaN = a"
| "f64_max a b = (if f64_lt a b then b else a)"

lemma partial_cmp_rev: "partial_cmp b a = map_option rev_ord (partial_cmp a b)"
  by (cases a; cases b) (auto simp: rev_ord_cmp_ord)

lemma partial_cmp_None: "partial_cmp a b = None \<longleftrightarrow> a = NaN \<or> b = NaN"
  by (cases a; cases b) auto

lemma partial_cmp_Equal: "partial_cmp a b = Some Equal \<longleftrightarrow> a = b \<and> a \<noteq> NaN"
  by (cases a; cases b) auto

lemma f64_lt_trans: "f64_lt a b \<Longrightarrow> f64_lt b c \<Longrightarrow> f64_lt a c"
  by (cases a; cases b; cases c) (auto simp: f64_lt_def)

lemma f64_le_trans: "f64_le a b \<Longrightarrow> f64_le b c \<Longrightarrow> f64_le a c"
  by (cases a; cases b; cases c) (auto simp: f64_le_def)

lemma f64_le_total: "a \<noteq> NaN \<Longrightarrow> b \<noteq> NaN \<Longrightarrow> f64_le a b \<or> f64_le b a"
  by (cases a; cases b) (auto simp: f64_le_def)

section \<open>Parsing and printing\<close>

definition parse_exponent :: "string \<Rightarrow> (int \<times> string) option" where
  "parse_exponent s = (case s of
     c # cs \<Rightarrow> if c = CHR ''e'' \<or> c = CHR ''E'' then
         (let (neg, ds) = (case cs of d # ds \<Rightarrow>
              if d = CHR ''-'' then (True, ds) else if d = CHR ''+'' then (False, ds) else (False, cs)
            | [] \<Rightarrow> (False, [])) in
          if ds \<noteq> [] \<and> list_all is_digit ds
          then Some (if neg then - int (digits_val ds) else int (digits_val ds), []) else None)
       else None
   | [] \<Rightarrow> Some (0, []))"

definition scale10 :: "int \<Rightarrow> rat" where
  "scale10 e = (if 0 \<le> e then 10 ^ nat e else 1 / 10 ^ nat (- e))"

text \<open>The number grammar of \<open>f64::from_str\<close>, without its sign and its names.\<close>

definition parse_decimal :: "string \<Rightarrow> rat option" where
  "parse_decimal s =
     (let ip = takeWhile is_digit s; r1 = dropWhile is_digit s;
          (fp, r2) = (case r1 of c # cs \<Rightarrow> if c = CHR ''.'' then (takeWhile is_digit cs, dropWhile is_digit cs)
                       else ([], r1) | [] \<Rightarrow> ([], [])) in
      if ip = [] \<and> fp = [] then None
      else case parse_exponent r2 of
        Some (e, []) \<Rightarrow> Some (of_nat (digits_val (ip @ fp)) * scale10 (e - int (length fp)))
      | _ \<Rightarrow> None)"

definition parse_unsigned_f64 :: "string \<Rightarrow> f64 option" where
  "parse_unsigned_f64 s =
     (let l = map ascii_lower s in
      if l = ''inf'' \<or> l = ''infinity'' then Some PInf
      else if l = ''nan'' then Some NaN
      else map_option round64 (parse_decimal s))"

definition parse_f64 :: "string \<Rightarrow> f64 option" where
  "parse_f64 s = (case s of
     c # cs \<Rightarrow> if c = CHR ''-'' then map_option f64_neg (parse_unsigned_f64 cs)
       else if c = CHR ''+'' then parse_unsigned_f64 cs else parse_unsigned_f64 s
   | [] \<Rightarrow> None)"

text \<open>\<open>format!("{:.k}")\<close> of a finite value, correctly rounded.\<close>

definition pad_left :: "nat \<Rightarrow> string \<Rightarrow> string" where
  "pad_left n s = replicate (n - length s) CHR ''0'' @ s"

fun show_fixed :: "nat \<Rightarrow> f64 \<Rightarrow> string" where
  "show_fixed k (Fin a) =
     (let m = nat (round_half_even (\<bar>a\<bar> * 10 ^ k)); ip = m div 10 ^ k; fp = m mod 10 ^ k in
      (if a < 0 then ''-'' else []) @ show_nat ip @
      (if k = 0 then [] else CHR ''.'' # pad_left k (show_nat fp)))"
| "show_fixed k PInf = ''inf''"
| "show_fixed k NInf = ''-inf''"
| "show_fixed k NaN = ''NaN''"

lemma show_nat_letters: "list_all is_digit s \<Longrightarrow> s \<noteq> [] \<Longrightarrow> map ascii_lower s = s"
  by (induction s) (auto simp: ascii_lower_def is_digit_def)

lemma parse_decimal_nat: "parse_decimal (show_nat n) = Some (of_nat n)"
proof -
  have d: "list_all is_digit (show_nat n)" "show_nat n \<noteq> []" "digits_val (show_nat n) = n"
    using show_nat_digits [of n] by auto
  then have "takeWhile is_digit (show_nat n) = show_nat n" "dropWhile is_digit (show_nat n) = []"
    by (simp_all add: takeWhile_eq_all_conv list_all_iff)
  then show ?thesis
    by (simp only: parse_decimal_def Let_def) (simp add: d parse_exponent_def scale10_def)
qed

text \<open>A decimal integer parses to the nearest number, one up to \<open>2\<^sup>5\<^sup>3\<close> to itself.\<close>

lemma parse_f64_show_nat_round: "parse_f64 (show_nat n) = Some (round64 (of_nat n))"
proof -
  have d: "list_all is_digit (show_nat n)" "show_nat n \<noteq> []"
    using show_nat_digits [of n] by auto
  then obtain c cs where s: "show_nat n = c # cs" by (cases "show_nat n") auto
  with d have "is_digit c" by simp
  then have c: "c \<noteq> CHR ''-''" "c \<noteq> CHR ''+''" "c \<noteq> CHR ''i''" "c \<noteq> CHR ''n''"
    by (auto simp: is_digit_def bval_def)
  have "map ascii_lower (show_nat n) = show_nat n" using d by (rule show_nat_letters)
  moreover have "parse_decimal (c # cs) = Some (of_nat n)" using parse_decimal_nat [of n] s by simp
  ultimately have "parse_unsigned_f64 (show_nat n) = Some (round64 (of_nat n))"
    using c s by (auto simp: parse_unsigned_f64_def simp del: of_nat_Suc)
  with c s show ?thesis by (simp add: parse_f64_def)
qed

lemma parse_f64_show_nat: "n \<le> 2 ^ 53 \<Longrightarrow> parse_f64 (show_nat n) = Some (Fin (of_nat n))"
  by (simp add: parse_f64_show_nat_round round64_of_nat)

text \<open>The first integer that is not a number: it is read as its lower neighbour.\<close>

lemma round64_inexact: "round64 (of_nat (2 ^ 53 + 1)) = Fin (2 ^ 53)"
proof -
  let ?n = "2 ^ 53 + 1 :: nat"
  have b: "2 ^ nlog2 ?n \<le> ?n" "?n < 2 ^ Suc (nlog2 ?n)" using nlog2_bounds [of ?n] by simp_all
  have "nlog2 ?n < 54"
  proof (rule ccontr)
    assume "\<not> nlog2 ?n < 54"
    then have "(2::nat) ^ 54 \<le> 2 ^ nlog2 ?n" by (intro power_increasing) auto
    with b(1) show False by simp
  qed
  moreover have "53 \<le> nlog2 ?n"
  proof (rule ccontr)
    assume "\<not> 53 \<le> nlog2 ?n"
    then have "(2::nat) ^ Suc (nlog2 ?n) \<le> 2 ^ 53" by (intro power_increasing) auto
    with b(2) show False by simp
  qed
  ultimately have "nlog2 ?n = 53" by simp
  with exp_of_nat [of "2 ^ 53"] have e: "exp_of (of_nat ?n) = 53" by simp
  have "\<lfloor>9007199254740993 / 2 :: rat\<rfloor> = 4503599627370496" by (simp add: floor_eq_iff)
  then have "round_half_even (of_nat ?n / 2) = 2 ^ 52" by (simp add: round_half_even_def Let_def)
  with e show ?thesis by (simp add: round64_def Let_def pow2_def)
qed

end
