(* ===== verification/Date_Utils.thy ===== *)
theory Date_Utils
  imports Rust_Std
begin

text \<open>
  \<^verbatim>\<open>src/core/date_utils.rs\<close>: recognising a calendar date and cutting day, month and hour
  out of a timestamp. Slicing a \<open>str\<close> off a character boundary panics in Rust; the results
  of the extractors carry that as \<open>Panicked\<close>.
\<close>

text \<open>\<open>s.is_char_boundary(i)\<close>, on the UTF-8 bytes.\<close>

definition char_boundary :: "string \<Rightarrow> nat \<Rightarrow> bool" where
  "char_boundary s i \<longleftrightarrow> i = 0 \<or> i = length s \<or>
     (i < length s \<and> \<not> (128 \<le> bval (s ! i) \<and> bval (s ! i) \<le> 191))"

datatype 'a sliced = Panicked | Sliced 'a

definition str_prefix :: "string \<Rightarrow> nat \<Rightarrow> string sliced" where
  "str_prefix s n = (if n \<le> length s \<and> char_boundary s n then Sliced (take n s) else Panicked)"

definition is_date_format :: "string \<Rightarrow> bool" where
  "is_date_format s =
     (if 10 \<le> length s then
        (if s ! 4 \<noteq> CHR ''-'' \<or> s ! 7 \<noteq> CHR ''-'' then False
         else if \<not> list_all (\<lambda>i. is_digit (s ! i)) [0, 1, 2, 3, 5, 6, 8, 9] then False
         else (case (parse_unsigned 8 (slice s 5 7), parse_unsigned 8 (slice s 8 10)) of
                 (Some month, Some day) \<Rightarrow> 1 \<le> month \<and> month \<le> 12 \<and> 1 \<le> day \<and> day \<le> 31
               | _ \<Rightarrow> False))
      else False)"

definition has_time_component :: "string \<Rightarrow> bool" where
  "has_time_component s \<longleftrightarrow> CHR ''T'' \<in> set s \<or> CHR '':'' \<in> set s"

definition extract_day :: "string \<Rightarrow> string sliced option" where
  "extract_day s = (if 10 \<le> length s then Some (str_prefix s 10) else None)"

definition extract_month :: "string \<Rightarrow> string sliced option" where
  "extract_month s = (if 7 \<le> length s then Some (str_prefix s 7) else None)"

definition nth_part :: "char \<Rightarrow> nat \<Rightarrow> string \<Rightarrow> string option" where
  "nth_part d n s = (let ps = split_pred (\<lambda>c. c = d) s in
     if n < length ps then Some (ps ! n) else None)"

definition extract_hour_bucket :: "string \<Rightarrow> string option" where
  "extract_hour_bucket s =
     (case (case nth_part CHR ''T'' 1 s of Some t \<Rightarrow> Some t | None \<Rightarrow> nth_part CHR '' '' 1 s) of
        None \<Rightarrow> None
      | Some time_part \<Rightarrow>
          (case nth_part CHR '':'' 0 time_part of
             None \<Rightarrow> None
           | Some hour \<Rightarrow>
               (case parse_unsigned 8 hour of
                  Some h \<Rightarrow> let hh = (if h < 10 then CHR ''0'' # show_nat h else show_nat h) in
                    Some (hh @ '':00-'' @ hh @ '':59'')
                | None \<Rightarrow> None)))"

lemma is_date_format_length: "is_date_format s \<Longrightarrow> 10 \<le> length s"
  by (simp add: is_date_format_def split: if_splits)

lemma is_digit_ascii: "is_digit c \<Longrightarrow> bval c < 128"
  by (simp add: is_digit_def)

text \<open>A recognised date is ASCII up to its tenth byte, so the day and month extractors,
  which slice at bytes 10 and 7, return what they are named after.\<close>

lemma extract_month_of_date:
  "is_date_format s \<Longrightarrow> extract_month s = Some (Sliced (take 7 s))"
proof -
  assume d: "is_date_format s"
  then have "10 \<le> length s" "s ! 7 = CHR ''-''"
    by (auto simp: is_date_format_def split: if_splits)
  then have "char_boundary s 7" by (simp add: char_boundary_def bval_def)
  with \<open>10 \<le> length s\<close> show ?thesis by (simp add: extract_month_def str_prefix_def)
qed

end
