(* ===== verification/Types.thy ===== *)
theory Types
  imports Float64 Date_Utils
begin

text \<open>
  \<^verbatim>\<open>src/core/types.rs\<close>: filters, comparison operators and the comparison of two cell
  values, which every query path of the engine (segment scan, candidate check, join filters)
  goes through.
\<close>

datatype comparison_op =
    Eq | Ne | Gt | Gte | Lt | Lte | In | Between | NotIn | IsNull | IsNotNull
  | Contains | StartsWith | EndsWith

datatype logical_op = And | Or

datatype sort_direction = Asc | Desc

datatype field_type = FString | FInt | FFloat | FDate

record filter_t =
  f_field :: string
  f_op :: comparison_op
  f_value :: string
  f_value_to :: "string option"
  f_type :: "field_type option"
  f_options :: "string list"

fun op_as_str :: "comparison_op \<Rightarrow> string" where
  "op_as_str Eq = ''Eq''"
| "op_as_str Ne = ''Ne''"
| "op_as_str Gt = ''Gt''"
| "op_as_str Gte = ''Gte''"
| "op_as_str Lt = ''Lt''"
| "op_as_str Lte = ''Lte''"
| "op_as_str In = ''In''"
| "op_as_str Between = ''Between''"
| "op_as_str NotIn = ''NotIn''"
| "op_as_str IsNull = ''IsNull''"
| "op_as_str IsNotNull = ''IsNotNull''"
| "op_as_str Contains = ''Contains''"
| "op_as_str StartsWith = ''StartsWith''"
| "op_as_str EndsWith = ''EndsWith''"

definition op_from_str :: "string \<Rightarrow> comparison_op" where
  "op_from_str s =
     (if s = ''Eq'' then Eq else if s = ''Ne'' then Ne else if s = ''Gt'' then Gt
      else if s = ''Gte'' then Gte else if s = ''Lt'' then Lt else if s = ''Lte'' then Lte
      else if s = ''In'' then In else if s = ''Between'' then Between
      else if s = ''NotIn'' then NotIn else if s = ''IsNull'' then IsNull
      else if s = ''IsNotNull'' then IsNotNull else if s = ''Contains'' then Contains
      else if s = ''StartsWith'' then StartsWith else if s = ''EndsWith'' then EndsWith
      else Eq)"

fun logical_op_fmt :: "logical_op \<Rightarrow> string" where
  "logical_op_fmt And = ''And''"
| "logical_op_fmt Or = ''Or''"

fun sort_direction_as_str :: "sort_direction \<Rightarrow> string" where
  "sort_direction_as_str Asc = ''Asc''"
| "sort_direction_as_str Desc = ''Desc''"

section \<open>Comparing two values\<close>

definition compare_numeric :: "string \<Rightarrow> string \<Rightarrow> ordering option" where
  "compare_numeric left right =
     (case parse_f64 (trim left) of None \<Rightarrow> None
      | Some left_num \<Rightarrow>
          (case parse_f64 (trim right) of None \<Rightarrow> None
           | Some right_num \<Rightarrow> partial_cmp left_num right_num))"

definition compare_dates :: "string \<Rightarrow> string \<Rightarrow> ordering option" where
  "compare_dates l r = (let left = trim l; right = trim r in
     if is_date_format left \<and> is_date_format right then Some (cmp_ord left right) else None)"

fun compare_values :: "string \<Rightarrow> string \<Rightarrow> field_type option \<Rightarrow> ordering option" where
  "compare_values left right (Some FInt) = compare_numeric left right"
| "compare_values left right (Some FFloat) = compare_numeric left right"
| "compare_values left right (Some FDate) = compare_dates left right"
| "compare_values left right _ =
     (case compare_numeric left right of Some o1 \<Rightarrow> Some o1
      | None \<Rightarrow> (case compare_dates left right of Some o2 \<Rightarrow> Some o2
               | None \<Rightarrow> Some (cmp_ord left right)))"

definition list_values :: "string \<Rightarrow> string list \<Rightarrow> string list" where
  "list_values value value_options =
     (if value_options \<noteq> [] then value_options
      else filter (\<lambda>item. item \<noteq> [])
             (map trim (split_pred (\<lambda>c. c = CHR '','' \<or> c = CHR '';'') value)))"

definition is_nullish :: "string \<Rightarrow> bool" where
  "is_nullish value \<longleftrightarrow> trim value = []"

fun compare_filter_value ::
  "ext \<Rightarrow> string \<Rightarrow> comparison_op \<Rightarrow> string \<Rightarrow> string option \<Rightarrow> string list \<Rightarrow>
   field_type option \<Rightarrow> bool" where
  "compare_filter_value x actual Eq v to opts ty \<longleftrightarrow> compare_values actual v ty = Some Equal"
| "compare_filter_value x actual Ne v to opts ty \<longleftrightarrow> compare_values actual v ty \<noteq> Some Equal"
| "compare_filter_value x actual Gt v to opts ty \<longleftrightarrow> compare_values actual v ty = Some Greater"
| "compare_filter_value x actual Gte v to opts ty \<longleftrightarrow>
     compare_values actual v ty \<in> {Some Greater, Some Equal}"
| "compare_filter_value x actual Lt v to opts ty \<longleftrightarrow> compare_values actual v ty = Some Less"
| "compare_filter_value x actual Lte v to opts ty \<longleftrightarrow>
     compare_values actual v ty \<in> {Some Less, Some Equal}"
| "compare_filter_value x actual In v to opts ty \<longleftrightarrow>
     list_ex (\<lambda>c. compare_values actual c ty = Some Equal) (list_values v opts)"
| "compare_filter_value x actual NotIn v to opts ty \<longleftrightarrow>
     list_all (\<lambda>c. compare_values actual c ty \<noteq> Some Equal) (list_values v opts)"
| "compare_filter_value x actual Between v to opts ty \<longleftrightarrow>
     (case to of None \<Rightarrow> False
      | Some upper \<Rightarrow> compare_values actual v ty \<in> {Some Greater, Some Equal}
                   \<and> compare_values actual upper ty \<in> {Some Less, Some Equal})"
| "compare_filter_value x actual IsNull v to opts ty \<longleftrightarrow> is_nullish actual"
| "compare_filter_value x actual IsNotNull v to opts ty \<longleftrightarrow> \<not> is_nullish actual"
| "compare_filter_value x actual Contains v to opts ty \<longleftrightarrow>
     contains_str (to_lowercase x actual) (to_lowercase x v)"
| "compare_filter_value x actual StartsWith v to opts ty \<longleftrightarrow>
     starts_with (to_lowercase x actual) (to_lowercase x v)"
| "compare_filter_value x actual EndsWith v to opts ty \<longleftrightarrow>
     ends_with (to_lowercase x actual) (to_lowercase x v)"

text \<open>A filter applied to a cell, as every caller does it.\<close>

definition filter_holds :: "ext \<Rightarrow> filter_t \<Rightarrow> string \<Rightarrow> bool" where
  "filter_holds x f actual =
     compare_filter_value x actual (f_op f) (f_value f) (f_value_to f) (f_options f) (f_type f)"

text \<open>The filters with a placeholder \<open>?\<close> are ignored by every search.\<close>

definition valid_filters :: "filter_t list \<Rightarrow> filter_t list" where
  "valid_filters fs = filter (\<lambda>f. f_field f \<noteq> ''?'' \<and> f_value f \<noteq> ''?'') fs"

section \<open>Lemmas\<close>

lemma op_round_trip: "op_from_str (op_as_str p) = p"
  by (cases p) (simp_all add: op_from_str_def)

lemma compare_numeric_rev: "compare_numeric b a = map_option rev_ord (compare_numeric a b)"
proof (cases "parse_f64 (trim a)"; cases "parse_f64 (trim b)")
  fix m n assume "parse_f64 (trim a) = Some m" "parse_f64 (trim b) = Some n"
  with partial_cmp_rev [of n m] show ?thesis by (simp add: compare_numeric_def)
qed (simp_all add: compare_numeric_def)

lemma compare_dates_rev: "compare_dates b a = map_option rev_ord (compare_dates a b)"
  by (simp add: compare_dates_def Let_def rev_ord_cmp_ord conj_commute)

lemma compare_values_rev: "compare_values b a ty = map_option rev_ord (compare_values a b ty)"
  using compare_numeric_rev [of b a] compare_dates_rev [of b a] rev_ord_cmp_ord [of a b]
  by (cases "(a, b, ty)" rule: compare_values.cases)
    (auto split: option.splits)

text \<open>The types whose comparison falls back to the order of strings.\<close>

definition untyped :: "field_type option \<Rightarrow> bool" where
  "untyped ty \<longleftrightarrow> ty = None \<or> ty = Some FString"

lemma compare_values_untyped:
  "untyped ty \<Longrightarrow> compare_values a b ty =
     (case compare_numeric a b of Some o1 \<Rightarrow> Some o1
      | None \<Rightarrow> (case compare_dates a b of Some o2 \<Rightarrow> Some o2 | None \<Rightarrow> Some (cmp_ord a b)))"
  by (auto simp: untyped_def)

lemma compare_values_total: "untyped ty \<Longrightarrow> \<exists>r. compare_values a b ty = Some r"
  by (auto simp: compare_values_untyped split: option.splits)

text \<open>A cell always compares equal to itself when the field is untyped, whatever its text.\<close>

lemma compare_values_refl: "untyped ty \<Longrightarrow> compare_values a a ty = Some Equal"
proof -
  assume u: "untyped ty"
  have n: "compare_numeric a a \<in> {None, Some Equal}"
    by (auto simp: compare_numeric_def partial_cmp_None partial_cmp_Equal split: option.splits)
  have "compare_dates a a \<in> {None, Some Equal}" by (simp add: compare_dates_def Let_def)
  with n u show ?thesis by (auto simp: compare_values_untyped)
qed

section \<open>Properties\<close>

text \<open>Swapping the two sides of a comparison reverses its outcome, for every declared type
  and every pair of texts: a value is never both below and above another.\<close>

theorem compare_values_antisym:
  "compare_values b a ty = map_option rev_ord (compare_values a b ty)"
  by (rule compare_values_rev)

text \<open>The order that the untyped comparison induces is not transitive: \<open>"9" < "10"\<close> as
  numbers, \<open>"10" < "1a"\<close> and \<open>"1a" < "9"\<close> as texts. The engine passes it to \<open>sort_by\<close>, which
  requires a total order.\<close>

theorem compare_values_cycle:
  "compare_values ''9'' ''10'' None = Some Less \<and> compare_values ''10'' ''1a'' None = Some Less \<and>
   compare_values ''1a'' ''9'' None = Some Less"
proof -
  have p: "parse_f64 ''9'' = Some (Fin 9)" "parse_f64 ''10'' = Some (Fin 10)"
    using parse_f64_show_nat [of 9] parse_f64_show_nat [of 10]
    by (simp_all add: show_nat.simps [of 9] show_nat.simps [of 10] show_nat.simps [of "Suc 0"])
  have q: "parse_f64 ''1a'' = None"
    by (simp add: parse_f64_def parse_unsigned_f64_def parse_decimal_def parse_exponent_def is_digit_def
        bval_def ascii_lower_def)
  have t: "trim ''9'' = ''9''" "trim ''10'' = ''10''" "trim ''1a'' = ''1a''"
    by (simp_all add: trim_def trim_start_def trim_end_def white_space_def trim_with.simps)
  show ?thesis
    by (simp add: compare_numeric_def t p q compare_dates_def is_date_format_def cmp_ord_def)
qed

text \<open>On untyped fields each operator is the complement or the combination of others that its
  name says: \<open>Ne\<close> of \<open>Eq\<close>, \<open>NotIn\<close> of \<open>In\<close>, \<open>Gte\<close> of \<open>Lt\<close>, \<open>Lte\<close> of \<open>Gt\<close>,
  \<open>IsNotNull\<close> of \<open>IsNull\<close>, and \<open>Between\<close> is \<open>Gte\<close> and \<open>Lte\<close>.\<close>

theorem filter_operator_laws:
  assumes "untyped ty"
  shows "(compare_filter_value x a Ne v to opts ty \<longleftrightarrow> \<not> compare_filter_value x a Eq v to opts ty) \<and>
    (compare_filter_value x a NotIn v to opts ty \<longleftrightarrow> \<not> compare_filter_value x a In v to opts ty) \<and>
    (compare_filter_value x a Gte v to opts ty \<longleftrightarrow> \<not> compare_filter_value x a Lt v to opts ty) \<and>
    (compare_filter_value x a Lte v to opts ty \<longleftrightarrow> \<not> compare_filter_value x a Gt v to opts ty) \<and>
    (compare_filter_value x a IsNotNull v to opts ty \<longleftrightarrow> \<not> compare_filter_value x a IsNull v to opts ty) \<and>
    (compare_filter_value x a Between v (Some hi) opts ty \<longleftrightarrow>
       compare_filter_value x a Gte v to opts ty \<and> compare_filter_value x a Lte hi to opts ty)"
proof -
  obtain r where r: "compare_values a v ty = Some r" using compare_values_total [OF assms] by blast
  have "compare_filter_value x a Gte v to opts ty \<longleftrightarrow> \<not> compare_filter_value x a Lt v to opts ty"
    "compare_filter_value x a Lte v to opts ty \<longleftrightarrow> \<not> compare_filter_value x a Gt v to opts ty"
    by (cases r; simp add: r)+
  then show ?thesis by (auto simp: list_ex_iff list_all_iff)
qed

theorem filter_operator_laws_witness:
  "compare_filter_value ascii_ext ''7'' Ne ''8'' None [] None \<longleftrightarrow> \<not> compare_filter_value ascii_ext ''7'' Eq ''8'' None [] None"
  using filter_operator_laws [of None ascii_ext "''7''" "''8''" None "[]"] by (simp only: untyped_def simp_thms)

end
