(* ===== verification/Expression.thy ===== *)
theory Expression
  imports Float64
begin

text \<open>
  \<^verbatim>\<open>src/core/expression.rs\<close>: the arithmetic expressions of computed fields and
  aggregations. The tokenizer is a loop over the characters with the current word as its
  accumulator; the parser is the code's recursive descent, each function returning the
  expression and how many tokens of its slice it consumed. Characters are the bytes of the
  UTF-8 text: every character the tokenizer tests is ASCII, so a multi-byte character goes
  through the last arm byte by byte as it does whole in the code.
\<close>

datatype binary_op = Add | Sub | Mul | Div | Eq' | Ne' | Gt' | Gte' | Lt' | Lte'

datatype expr =
    Literal f64
  | Field string
  | BinaryOp expr binary_op expr
  | If expr expr expr

section \<open>Tokens\<close>

text \<open>Push the word read so far, if any.\<close>

definition push_current :: "string \<Rightarrow> string list \<Rightarrow> string list" where
  "push_current current tokens = (if current \<noteq> [] then tokens @ [current] else tokens)"

definition next_is_eq :: "string \<Rightarrow> bool" where
  "next_is_eq s = (case s of [] \<Rightarrow> False | d # _ \<Rightarrow> d = CHR ''='')"

function tokenize_loop :: "string \<Rightarrow> string \<Rightarrow> string list \<Rightarrow> string list" where
  "tokenize_loop [] current tokens = push_current current tokens"
| "tokenize_loop (c # cs) current tokens =
     (if c = CHR ''('' \<or> c = CHR '')'' \<or> c = CHR '','' then
        tokenize_loop cs [] (push_current current tokens @ [[c]])
      else if c = CHR '' '' \<or> c = CHR 0x09 \<or> c = CHR 0x0A then
        tokenize_loop cs [] (push_current current tokens)
      else if c = CHR ''>'' then
        (if next_is_eq cs then tokenize_loop (tl cs) [] (push_current current tokens @ [''>=''])
         else tokenize_loop cs [] (push_current current tokens @ [''>'']))
      else if c = CHR ''<'' then
        (if next_is_eq cs then tokenize_loop (tl cs) [] (push_current current tokens @ [''<=''])
         else tokenize_loop cs [] (push_current current tokens @ [''<'']))
      else if c = CHR ''='' then
        tokenize_loop cs [] (push_current current tokens @ [''=''])
      else if c = CHR ''!'' then
        (if next_is_eq cs then tokenize_loop (tl cs) [] (push_current current tokens @ [''!=''])
         else tokenize_loop cs [c] (push_current current tokens))
      else if c = CHR ''*'' \<or> c = CHR ''/'' \<or> c = CHR ''+'' \<or> c = CHR ''-'' then
        tokenize_loop cs [] (push_current current tokens @ [[c]])
      else tokenize_loop cs (current @ [c]) tokens)"
  by pat_completeness auto
termination
  by (relation "measure (\<lambda>(s, c, t). length s)") auto

definition tokenize :: "string \<Rightarrow> string list" where
  "tokenize input = tokenize_loop input [] []"

section \<open>Parser\<close>

datatype parse_error =
    UnexpectedEnd | MissingClosingParenthesis | InvalidIfSyntax | UnexpectedTokens "string list"

type_synonym parsed = "parse_error + expr \<times> nat"

definition comparison_op_of :: "string \<Rightarrow> binary_op option" where
  "comparison_op_of t =
     (if t = ''='' then Some Eq' else if t = ''!='' then Some Ne' else if t = ''>'' then Some Gt'
      else if t = ''>='' then Some Gte' else if t = ''<'' then Some Lt'
      else if t = ''<='' then Some Lte' else None)"

definition term_op_of :: "string \<Rightarrow> binary_op option" where
  "term_op_of t = (if t = ''+'' then Some Add else if t = ''-'' then Some Sub else None)"

definition factor_op_of :: "string \<Rightarrow> binary_op option" where
  "factor_op_of t = (if t = ''*'' then Some Mul else if t = ''/'' then Some Div else None)"

text \<open>\<open>current < tokens.len() && tokens[current] == t\<close>\<close>

definition token_at :: "string list \<Rightarrow> nat \<Rightarrow> string \<Rightarrow> bool" where
  "token_at tokens i t \<longleftrightarrow> i < length tokens \<and> tokens ! i = t"

function (sequential)
  parse_comparison :: "string list \<Rightarrow> parsed" and
  comparison_loop :: "string list \<Rightarrow> expr \<Rightarrow> nat \<Rightarrow> parsed" and
  parse_term :: "string list \<Rightarrow> parsed" and
  term_loop :: "string list \<Rightarrow> expr \<Rightarrow> nat \<Rightarrow> parsed" and
  parse_factor :: "string list \<Rightarrow> parsed" and
  factor_loop :: "string list \<Rightarrow> expr \<Rightarrow> nat \<Rightarrow> parsed" and
  parse_primary :: "string list \<Rightarrow> parsed"
where
  "parse_comparison tokens =
     rbind (parse_term tokens) (\<lambda>(left, pos). comparison_loop tokens left pos)"
| "comparison_loop tokens left pos =
     (if pos < length tokens then
        (case comparison_op_of (tokens ! pos) of
           None \<Rightarrow> Inr (left, pos)
         | Some op \<Rightarrow> rbind (parse_term (drop (pos + 1) tokens)) (\<lambda>(right, next_pos).
             comparison_loop tokens (BinaryOp left op right) (pos + 1 + next_pos)))
      else Inr (left, pos))"
| "parse_term tokens =
     rbind (parse_factor tokens) (\<lambda>(left, pos). term_loop tokens left pos)"
| "term_loop tokens left pos =
     (if pos < length tokens then
        (case term_op_of (tokens ! pos) of
           None \<Rightarrow> Inr (left, pos)
         | Some op \<Rightarrow> rbind (parse_factor (drop (pos + 1) tokens)) (\<lambda>(right, next_pos).
             term_loop tokens (BinaryOp left op right) (pos + 1 + next_pos)))
      else Inr (left, pos))"
| "parse_factor tokens =
     rbind (parse_primary tokens) (\<lambda>(left, pos). factor_loop tokens left pos)"
| "factor_loop tokens left pos =
     (if pos < length tokens then
        (case factor_op_of (tokens ! pos) of
           None \<Rightarrow> Inr (left, pos)
         | Some op \<Rightarrow> rbind (parse_primary (drop (pos + 1) tokens)) (\<lambda>(right, next_pos).
             factor_loop tokens (BinaryOp left op right) (pos + 1 + next_pos)))
      else Inr (left, pos))"
| "parse_primary tokens =
     (case tokens of
        [] \<Rightarrow> Inl UnexpectedEnd
      | token # rest \<Rightarrow>
          if token = ''('' then
            rbind (parse_comparison rest) (\<lambda>(e, pos).
              if token_at tokens (1 + pos) '')'' then Inr (e, 1 + pos + 1)
              else Inl MissingClosingParenthesis)
          else if eq_ignore_ascii_case token ''IF'' then
            (if token_at tokens 1 ''('' then
               rbind (parse_comparison (drop 2 tokens)) (\<lambda>(cond, p1).
                 let current = 2 + p1 in
                 if token_at tokens current '','' then
                   rbind (parse_comparison (drop (current + 1) tokens)) (\<lambda>(true_val, p2).
                     let current = current + 1 + p2 in
                     if token_at tokens current '','' then
                       rbind (parse_comparison (drop (current + 1) tokens)) (\<lambda>(false_val, p3).
                         let current = current + 1 + p3 in
                         if token_at tokens current '')'' then Inr (If cond true_val false_val, current + 1)
                         else Inl InvalidIfSyntax)
                     else Inl InvalidIfSyntax)
                 else Inl InvalidIfSyntax)
             else Inl InvalidIfSyntax)
          else (case parse_f64 token of
                  Some n \<Rightarrow> Inr (Literal n, 1)
                | None \<Rightarrow> Inr (Field token, 1)))"
  by pat_completeness auto
termination
  by (relation "measures
     [\<lambda>x. case x of
        Inl (Inl t) \<Rightarrow> length t | Inl (Inr (Inl (t, l, p))) \<Rightarrow> length t - p
      | Inl (Inr (Inr t)) \<Rightarrow> length t
      | Inr (Inl (Inl (t, l, p))) \<Rightarrow> length t - p | Inr (Inl (Inr t)) \<Rightarrow> length t
      | Inr (Inr (Inl (t, l, p))) \<Rightarrow> length t - p | Inr (Inr (Inr t)) \<Rightarrow> length t,
      \<lambda>x. case x of
        Inl (Inl t) \<Rightarrow> 6 | Inl (Inr (Inl _)) \<Rightarrow> 0 | Inl (Inr (Inr t)) \<Rightarrow> 5
      | Inr (Inl (Inl _)) \<Rightarrow> 0 | Inr (Inl (Inr t)) \<Rightarrow> 4
      | Inr (Inr (Inl _)) \<Rightarrow> 0 | Inr (Inr (Inr t)) \<Rightarrow> 3]")
    (auto simp: token_at_def)


declare parse_comparison.simps [simp del] comparison_loop.simps [simp del] parse_term.simps [simp del]
  term_loop.simps [simp del] parse_factor.simps [simp del] factor_loop.simps [simp del]
  parse_primary.simps [simp del]

definition parse_expr :: "string list \<Rightarrow> parsed" where
  "parse_expr tokens = parse_comparison tokens"

definition parse_expression :: "string \<Rightarrow> parse_error + expr" where
  "parse_expression input = (let tokens = tokenize input in
     rbind (parse_expr tokens) (\<lambda>(e, pos).
       if pos < length tokens then Inl (UnexpectedTokens (drop pos tokens)) else Inr e))"

section \<open>Evaluation\<close>

definition bool_f64 :: "bool \<Rightarrow> f64" where
  "bool_f64 b = (if b then Fin 1 else Fin 0)"

fun apply_op :: "binary_op \<Rightarrow> f64 \<Rightarrow> f64 \<Rightarrow> f64" where
  "apply_op Add l r = f64_add l r"
| "apply_op Sub l r = f64_sub l r"
| "apply_op Mul l r = f64_mul l r"
| "apply_op Div l r = (if \<not> f64_eq r (Fin 0) then f64_div l r else Fin 0)"
| "apply_op Eq' l r = bool_f64 (f64_lt (f64_abs (f64_sub l r)) epsilon)"
| "apply_op Ne' l r = bool_f64 (f64_lt epsilon (f64_abs (f64_sub l r)))"
| "apply_op Gt' l r = bool_f64 (f64_lt r l)"
| "apply_op Gte' l r = bool_f64 (f64_le r l)"
| "apply_op Lt' l r = bool_f64 (f64_lt l r)"
| "apply_op Lte' l r = bool_f64 (f64_le l r)"

fun evaluate :: "expr \<Rightarrow> (string \<Rightarrow> f64 option) \<Rightarrow> f64" where
  "evaluate (Literal n) context = n"
| "evaluate (Field name) context = hdefault (Fin 0) (context name)"
| "evaluate (BinaryOp left op right) context =
     apply_op op (evaluate left context) (evaluate right context)"
| "evaluate (If cond true_val false_val) context =
     (if f64_lt (Fin 0) (evaluate cond context) then evaluate true_val context
      else evaluate false_val context)"

fun extract_fields :: "expr \<Rightarrow> string list" where
  "extract_fields (Literal _) = []"
| "extract_fields (Field name) = [name]"
| "extract_fields (BinaryOp left _ right) = extract_fields left @ extract_fields right"
| "extract_fields (If c t f) = extract_fields c @ extract_fields t @ extract_fields f"

section \<open>A printer\<close>

text \<open>
  A fully parenthesised text for an expression, with the literal printer as a parameter. It is
  not part of the engine: it is the reference the parser is checked against.
\<close>

fun op_token :: "binary_op \<Rightarrow> string" where
  "op_token Add = ''+''" | "op_token Sub = ''-''" | "op_token Mul = ''*''" | "op_token Div = ''/''"
| "op_token Eq' = ''=''" | "op_token Ne' = ''!=''" | "op_token Gt' = ''>''" | "op_token Gte' = ''>=''"
| "op_token Lt' = ''<''" | "op_token Lte' = ''<=''"

fun expr_tokens :: "(f64 \<Rightarrow> string) \<Rightarrow> expr \<Rightarrow> string list" where
  "expr_tokens lit (Literal n) = [lit n]"
| "expr_tokens lit (Field f) = [f]"
| "expr_tokens lit (BinaryOp l op r) =
     ''('' # expr_tokens lit l @ op_token op # expr_tokens lit r @ ['')'']"
| "expr_tokens lit (If c t f) =
     ''IF'' # ''('' # expr_tokens lit c @ '','' # expr_tokens lit t @ '','' # expr_tokens lit f @ ['')'']"

definition special_chars :: "char list" where
  "special_chars = [CHR ''('', CHR '')'', CHR '','', CHR '' '', CHR 0x09, CHR 0x0A, CHR ''>'', CHR ''<'',
     CHR ''='', CHR ''!'', CHR ''*'', CHR ''/'', CHR ''+'', CHR ''-'']"

definition word_token :: "string \<Rightarrow> bool" where
  "word_token t \<longleftrightarrow> t \<noteq> [] \<and> list_all (\<lambda>c. c \<notin> set special_chars) t"

fun printable :: "(f64 \<Rightarrow> string) \<Rightarrow> expr \<Rightarrow> bool" where
  "printable lit (Literal n) \<longleftrightarrow>
     word_token (lit n) \<and> parse_f64 (lit n) = Some n \<and> \<not> eq_ignore_ascii_case (lit n) ''IF''"
| "printable lit (Field f) \<longleftrightarrow>
     word_token f \<and> parse_f64 f = None \<and> \<not> eq_ignore_ascii_case f ''IF''"
| "printable lit (BinaryOp l op r) \<longleftrightarrow> printable lit l \<and> printable lit r"
| "printable lit (If c t f) \<longleftrightarrow> printable lit c \<and> printable lit t \<and> printable lit f"

definition print_expr :: "(f64 \<Rightarrow> string) \<Rightarrow> expr \<Rightarrow> string" where
  "print_expr lit e = concat (map (\<lambda>t. t @ '' '') (expr_tokens lit e))"

lemma op_of_token:
  "comparison_op_of (op_token op) = (if op \<in> {Eq', Ne', Gt', Gte', Lt', Lte'} then Some op else None)"
  "term_op_of (op_token op) = (if op \<in> {Add, Sub} then Some op else None)"
  "factor_op_of (op_token op) = (if op \<in> {Mul, Div} then Some op else None)"
  by (cases op; simp add: comparison_op_of_def term_op_of_def factor_op_of_def)+

definition stops :: "string list \<Rightarrow> bool" where
  "stops rest \<longleftrightarrow> rest = [] \<or> hd rest = '')'' \<or> hd rest = '',''"

lemma stops_simps [simp]: "stops []" "stops ('')'' # r)" "stops ('','' # r)"
  by (simp_all add: stops_def)

lemma stops_op:
  assumes "stops rest" "rest \<noteq> []"
  shows "comparison_op_of (hd rest) = None" "term_op_of (hd rest) = None" "factor_op_of (hd rest) = None"
  using assms by (auto simp: stops_def comparison_op_of_def term_op_of_def factor_op_of_def)

lemma loop_stops:
  assumes "stops (drop pos ts)"
  shows "comparison_loop ts e pos = Inr (e, pos)" "term_loop ts e pos = Inr (e, pos)"
    "factor_loop ts e pos = Inr (e, pos)"
proof -
  have "pos < length ts \<Longrightarrow> hd (drop pos ts) = ts ! pos" by (simp add: hd_drop_conv_nth)
  moreover have "pos < length ts \<Longrightarrow> drop pos ts \<noteq> []" by simp
  ultimately show "comparison_loop ts e pos = Inr (e, pos)" "term_loop ts e pos = Inr (e, pos)"
    "factor_loop ts e pos = Inr (e, pos)"
    using stops_op [OF assms]
    by (auto simp: comparison_loop.simps [of ts] term_loop.simps [of ts] factor_loop.simps [of ts])
qed

text \<open>What a primary parses to, its callers parse to when a closing token follows.\<close>

lemma up_from_primary:
  assumes "parse_primary ts = Inr (e, n)" "stops (drop n ts)"
  shows "parse_factor ts = Inr (e, n)" "parse_term ts = Inr (e, n)" "parse_comparison ts = Inr (e, n)"
  using assms loop_stops [OF assms(2)]
  by (simp_all add: parse_factor.simps [of ts] parse_term.simps [of ts] parse_comparison.simps [of ts])


lemma binary_body:
  assumes p: "parse_primary body = Inr (l, n)" and n: "n < length body" "body ! n = op_token op"
    and q: "parse_primary (drop (n + 1) body) = Inr (r, m)" and st: "stops (drop (n + 1 + m) body)"
  shows "parse_comparison body = Inr (BinaryOp l op r, n + 1 + m)"
proof -
  let ?e = "BinaryOp l op r"
  have st': "stops (drop m (drop (n + 1) body))" using st by (simp add: add.commute)
  note right = up_from_primary [OF q st'] q
  note stop = loop_stops [OF st, of ?e]
  have f: "parse_factor body = (if op \<in> {Mul, Div} then Inr (?e, n + 1 + m) else Inr (l, n))"
    using p n right stop
    by (simp add: parse_factor.simps [of body] factor_loop.simps [of body l n] op_of_token)
  have t: "parse_term body = (if op \<in> {Mul, Div, Add, Sub} then Inr (?e, n + 1 + m) else Inr (l, n))"
  proof (cases "op \<in> {Mul, Div}")
    case True
    with f stop show ?thesis by (auto simp: parse_term.simps [of body])
  next
    case False
    with f n right stop show ?thesis
      by (simp add: parse_term.simps [of body] term_loop.simps [of body l n] op_of_token)
  qed
  show ?thesis
  proof (cases "op \<in> {Mul, Div, Add, Sub}")
    case True
    with t stop show ?thesis by (auto simp: parse_comparison.simps [of body])
  next
    case False
    then have "op \<in> {Eq', Ne', Gt', Gte', Lt', Lte'}" by (cases op) auto
    with False t n right stop show ?thesis
      by (simp add: parse_comparison.simps [of body] comparison_loop.simps [of body l n] op_of_token)
  qed
qed

lemma parse_primary_tokens:
  "printable lit e \<Longrightarrow> parse_primary (expr_tokens lit e @ rest) = Inr (e, length (expr_tokens lit e))"
proof (induction e arbitrary: rest)
  case (Literal n)
  then have "lit n \<noteq> ''(''" by (auto simp: word_token_def special_chars_def)
  with Literal show ?case by (simp add: parse_primary.simps [of "lit n # rest"])
next
  case (Field f)
  then have "f \<noteq> ''(''" by (auto simp: word_token_def special_chars_def)
  with Field show ?case by (simp add: parse_primary.simps [of "f # rest"])
next
  case (BinaryOp l op r)
  let ?L = "expr_tokens lit l" and ?R = "expr_tokens lit r"
  let ?body = "?L @ op_token op # ?R @ '')'' # rest"
  from BinaryOp have 1: "parse_primary ?body = Inr (l, length ?L)"
    and 2: "parse_primary (drop (length ?L + 1) ?body) = Inr (r, length ?R)" by auto
  have "parse_comparison ?body = Inr (BinaryOp l op r, length ?L + 1 + length ?R)"
    by (rule binary_body [OF 1 _ _ 2]) (auto simp: nth_append)
  then show ?case
    by (simp add: parse_primary.simps [of "''('' # ?body"] token_at_def nth_append)
next
  case (If c t f)
  let ?C = "expr_tokens lit c" and ?T = "expr_tokens lit t" and ?F = "expr_tokens lit f"
  let ?all = "''IF'' # ''('' # ?C @ '','' # ?T @ '','' # ?F @ '')'' # rest"
  have C: "parse_comparison (?C @ '','' # ?T @ '','' # ?F @ '')'' # rest) = Inr (c, length ?C)"
    using If by (intro up_from_primary) auto
  have T: "parse_comparison (?T @ '','' # ?F @ '')'' # rest) = Inr (t, length ?T)"
    using If by (intro up_from_primary) auto
  have F: "parse_comparison (?F @ '')'' # rest) = Inr (f, length ?F)"
    using If by (intro up_from_primary) auto
  have d: "drop (2 + length ?C + 1) ?all = ?T @ '','' # ?F @ '')'' # rest"
    "drop (2 + length ?C + 1 + length ?T + 1) ?all = ?F @ '')'' # rest" "drop 2 ?all = ?C @ '','' # ?T @ '','' # ?F @ '')'' # rest"
    by (simp_all add: numeral_2_eq_2)
  have k: "token_at ?all 1 ''(''" "token_at ?all (2 + length ?C) '',''"
    "token_at ?all (2 + length ?C + 1 + length ?T) '',''"
    "token_at ?all (2 + length ?C + 1 + length ?T + 1 + length ?F) '')''"
    by (simp_all add: token_at_def nth_append numeral_2_eq_2)
  have "parse_primary ?all = Inr (If c t f, 2 + length ?C + 1 + length ?T + 1 + length ?F + 1)"
    unfolding parse_primary.simps [of ?all] Let_def
    by (simp only: list.case d C T F rbind.simps case_prod_conv k if_True)
      (simp add: eq_ignore_ascii_case_def)
  then show ?case by simp
qed

lemma tokenize_char:
  "c \<notin> set special_chars \<Longrightarrow> tokenize_loop (c # cs) cur acc = tokenize_loop cs (cur @ [c]) acc"
  by (simp add: special_chars_def)

lemma tokenize_space:
  "tokenize_loop (CHR '' '' # s) cur acc = tokenize_loop s [] (push_current cur acc)"
  by simp

lemma tokenize_chars:
  "list_all (\<lambda>c. c \<notin> set special_chars) t \<Longrightarrow>
   tokenize_loop (t @ s) cur acc = tokenize_loop s (cur @ t) acc"
  by (induction t arbitrary: cur) (simp_all add: tokenize_char del: tokenize_loop.simps)

lemma tokenize_word:
  "word_token t \<Longrightarrow> tokenize_loop (t @ '' '' @ s) [] acc = tokenize_loop s [] (acc @ [t])"
  by (simp add: word_token_def tokenize_chars tokenize_space push_current_def del: tokenize_loop.simps)

definition symbol_tokens :: "string list" where
  "symbol_tokens = [''('', '')'', '','', ''+'', ''-'', ''*'', ''/'', ''='', ''!='', ''>'', ''>='', ''<'', ''<='']"

lemma tokenize_symbol:
  "t \<in> set symbol_tokens \<Longrightarrow> tokenize_loop (t @ '' '' @ s) [] acc = tokenize_loop s [] (acc @ [t])"
  by (auto simp: symbol_tokens_def push_current_def next_is_eq_def)

lemma tokenize_printed:
  "\<forall>t\<in>set ts. word_token t \<or> t \<in> set symbol_tokens \<Longrightarrow>
   tokenize_loop (concat (map (\<lambda>t. t @ '' '') ts)) [] acc = acc @ ts"
proof (induction ts arbitrary: acc)
  case Nil
  then show ?case by (simp add: push_current_def)
next
  case (Cons t ts)
  then have "tokenize_loop (t @ '' '' @ concat (map (\<lambda>t. t @ '' '') ts)) [] acc
      = tokenize_loop (concat (map (\<lambda>t. t @ '' '') ts)) [] (acc @ [t])"
    using tokenize_word tokenize_symbol by auto
  with Cons show ?case by simp
qed

lemma symbols: "op_token op \<in> set symbol_tokens" "''('' \<in> set symbol_tokens"
  "'')'' \<in> set symbol_tokens" "'','' \<in> set symbol_tokens"
  by (cases op; simp add: symbol_tokens_def) (simp_all add: symbol_tokens_def)

lemma word_IF: "word_token ''IF''"
  by (simp add: word_token_def special_chars_def)

lemma printable_tokens:
  "printable lit e \<Longrightarrow> t \<in> set (expr_tokens lit e) \<Longrightarrow> word_token t \<or> t \<in> set symbol_tokens"
  by (induction e) (auto simp: symbols word_IF)

lemma parse_print: "printable lit e \<Longrightarrow> parse_expression (print_expr lit e) = Inr e"
proof -
  assume p: "printable lit e"
  then have t: "tokenize (print_expr lit e) = expr_tokens lit e"
    using tokenize_printed [of "expr_tokens lit e" "[]"] printable_tokens [OF p]
    by (auto simp: tokenize_def print_expr_def)
  have "parse_primary (expr_tokens lit e) = Inr (e, length (expr_tokens lit e))"
    using parse_primary_tokens [OF p, of "[]"] by simp
  then have "parse_comparison (expr_tokens lit e) = Inr (e, length (expr_tokens lit e))"
    by (rule up_from_primary) simp
  with t show ?thesis by (simp add: parse_expression_def parse_expr_def Let_def)
qed

lemma evaluate_cong:
  "(\<And>f. f \<in> set (extract_fields e) \<Longrightarrow> c1 f = c2 f) \<Longrightarrow> evaluate e c1 = evaluate e c2"
  by (induction e) auto

section \<open>Properties\<close>



text \<open>The value of an expression depends only on the fields \<open>extract_fields\<close> reports, so a
  caller that fetches exactly those columns computes the same number as one that fetches all.\<close>

theorem evaluate_only_extracted_fields:
  assumes "\<And>f. f \<in> set (extract_fields e) \<Longrightarrow> c1 f = c2 f"
  shows "evaluate e c1 = evaluate e c2"
  using assms by (rule evaluate_cong)

theorem evaluate_only_extracted_fields_witness:
  "evaluate (BinaryOp (Field ''a'') Mul (Literal (Fin 2))) [''a'' \<mapsto> Fin 3] =
   evaluate (BinaryOp (Field ''a'') Mul (Literal (Fin 2))) [''a'' \<mapsto> Fin 3, ''b'' \<mapsto> Fin 4]"
  by (rule evaluate_only_extracted_fields) simp

end
