(* ===== verification/Index_V3.thy ===== *)
theory Index_V3
  imports Rust_Std
begin

text \<open>
  \<^verbatim>\<open>src/core/storage/exact_index_v3/{format,reader,writer}.rs\<close>: the immutable, sorted and
  memory-mapped snapshot file of an exact-match index. A file is a 40-byte header, the
  \<^verbatim>\<open>bincode\<close> payloads and one 28-byte entry per hash, sorted by hash; a lookup is a binary
  search over the entries.

  A file is its bytes, a reader the mapped bytes and three header fields. The payload codec is
  a pair of parameters \<open>enc\<close>, \<open>dec\<close>. Arithmetic is that of a release build: offsets wrap at
  \<open>2\<^sup>6\<^sup>4\<close>, the \<open>as u32\<close> of a payload length truncates, and a slice whose end is before its start
  is the panic of the program (\<open>SlicePanic\<close>).
\<close>

record v3_header =
  h_version :: u8
  h_num_entries :: u64
  h_bitmaps_section_offset :: u64
  h_index_section_offset :: u64

record index_entry =
  e_hash :: u128
  e_offset :: u64
  e_length :: u32

datatype format_error =
    TooShort nat nat
  | BadMagic bytes
  | UnsupportedVersion u8
  | InvalidNumEntries u64 nat
  | BincodeError
  | SlicePanic

definition EXACT_IDX_MAGIC :: bytes where "EXACT_IDX_MAGIC = ''BTXI''"
definition EXACT_IDX_VERSION_V3 :: u8 where "EXACT_IDX_VERSION_V3 = 3"
definition HEADER_SIZE :: nat where "HEADER_SIZE = 40"
definition INDEX_ENTRY_SIZE :: nat where "INDEX_ENTRY_SIZE = 28"

definition checked_mul64 :: "nat \<Rightarrow> nat \<Rightarrow> nat option" where
  "checked_mul64 a b = (if a * b < 2 ^ 64 then Some (a * b) else None)"

definition checked_add64 :: "nat \<Rightarrow> nat \<Rightarrow> nat option" where
  "checked_add64 a b = (if a + b < 2 ^ 64 then Some (a + b) else None)"

definition saturating_mul64 :: "nat \<Rightarrow> nat \<Rightarrow> nat" where
  "saturating_mul64 a b = (if a * b < 2 ^ 64 then a * b else 2 ^ 64 - 1)"

section \<open>format.rs\<close>

definition v3_header_parse :: "bytes \<Rightarrow> format_error + v3_header" where
  "v3_header_parse bs =
     (if length bs < HEADER_SIZE then Inl (TooShort HEADER_SIZE (length bs))
      else if slice bs 0 4 \<noteq> EXACT_IDX_MAGIC then Inl (BadMagic (slice bs 0 4))
      else let version = of_nat (bval (bs ! 4)) in
        if version \<noteq> EXACT_IDX_VERSION_V3 then Inl (UnsupportedVersion version)
        else let num_entries = from_le64 (slice bs 8 16) in
          case checked_mul64 (unat num_entries) INDEX_ENTRY_SIZE of
            None \<Rightarrow> Inl (InvalidNumEntries num_entries 0)
          | Some _ \<Rightarrow> Inr \<lparr>h_version = version, h_num_entries = num_entries,
              h_bitmaps_section_offset = from_le64 (slice bs 16 24),
              h_index_section_offset = from_le64 (slice bs 24 32)\<rparr>)"

definition v3_header_write :: "v3_header \<Rightarrow> bytes" where
  "v3_header_write h = EXACT_IDX_MAGIC @ [byte (unat (h_version h)), CHR 0x00, CHR 0x00, CHR 0x00]
     @ le64 (h_num_entries h) @ le64 (h_bitmaps_section_offset h) @ le64 (h_index_section_offset h)
     @ le64 0"

definition index_entry_parse :: "bytes \<Rightarrow> index_entry" where
  "index_entry_parse bs = \<lparr>e_hash = from_le128 (slice bs 0 16), e_offset = from_le64 (slice bs 16 24),
     e_length = from_le32 (slice bs 24 28)\<rparr>"

definition index_entry_write :: "index_entry \<Rightarrow> bytes" where
  "index_entry_write e = le128 (e_hash e) @ le64 (e_offset e) @ le32 (e_length e)"

section \<open>writer.rs\<close>

text \<open>The loop over the entries, on the bytes written, the current offset, the entries of the
  index section and their number.\<close>

fun write_loop :: "('p \<Rightarrow> bytes) \<Rightarrow> (u128 \<times> 'p) list \<Rightarrow>
    bytes \<times> u64 \<times> index_entry list \<times> u64 \<Rightarrow> bytes \<times> u64 \<times> index_entry list \<times> u64" where
  "write_loop enc [] st = st"
| "write_loop enc ((hash, bitmaps) # entries) (out, off, idx, n) =
     (let serialized = enc bitmaps; len = of_nat (length serialized) in
      write_loop enc entries
        (out @ serialized, off + of_nat (length serialized),
         idx @ [\<lparr>e_hash = hash, e_offset = off, e_length = len\<rparr>], n + 1))"

text \<open>Writing at the start of a file that is long enough.\<close>

definition overwrite :: "bytes \<Rightarrow> bytes \<Rightarrow> bytes" where
  "overwrite new file = new @ drop (length new) file"

text \<open>The bytes of the file that the rename publishes. An unsorted input only logs a warning.\<close>

definition write_exact_index_v3 :: "('p \<Rightarrow> bytes) \<Rightarrow> (u128 \<times> 'p) list \<Rightarrow> format_error + bytes" where
  "write_exact_index_v3 enc entries =
     (case write_loop enc entries (replicate HEADER_SIZE CHR 0x00, of_nat HEADER_SIZE, [], 0) of
        (out, index_section_offset, idx, n) \<Rightarrow>
          let out = out @ concat (map index_entry_write idx) in
          case checked_add64 (unat index_section_offset)
                 (saturating_mul64 (unat n) INDEX_ENTRY_SIZE) of
            None \<Rightarrow> Inl (InvalidNumEntries n 0)
          | Some _ \<Rightarrow> Inr (overwrite (v3_header_write \<lparr>h_version = EXACT_IDX_VERSION_V3,
              h_num_entries = n, h_bitmaps_section_offset = of_nat HEADER_SIZE,
              h_index_section_offset = index_section_offset\<rparr>) out))"

definition write_exact_index_v3_from_hashmap ::
    "('p \<Rightarrow> bytes) \<Rightarrow> (u128, 'p) hmap \<Rightarrow> format_error + bytes" where
  "write_exact_index_v3_from_hashmap enc m = write_exact_index_v3 enc (sort_key fst m)"

section \<open>reader.rs\<close>

record reader =
  r_mmap :: bytes
  r_num_entries :: u64
  r_bitmaps_section_offset :: u64
  r_index_section_offset :: u64

definition snapshot_open :: "bytes \<Rightarrow> format_error + reader" where
  "snapshot_open file =
     (let file_size = length file in
      if file_size < HEADER_SIZE then Inl (TooShort HEADER_SIZE file_size)
      else rbind (v3_header_parse (take HEADER_SIZE file)) (\<lambda>h.
        case checked_mul64 (unat (h_num_entries h)) INDEX_ENTRY_SIZE of
          None \<Rightarrow> Inl (InvalidNumEntries (h_num_entries h) file_size)
        | Some index_entries_size \<Rightarrow>
            (case checked_add64 (unat (h_index_section_offset h)) index_entries_size of
               None \<Rightarrow> Inl (InvalidNumEntries (h_num_entries h) file_size)
             | Some expected_file_size \<Rightarrow>
                 if expected_file_size \<noteq> file_size then Inl (InvalidNumEntries (h_num_entries h) file_size)
                 else Inr \<lparr>r_mmap = file, r_num_entries = h_num_entries h,
                   r_bitmaps_section_offset = h_bitmaps_section_offset h,
                   r_index_section_offset = h_index_section_offset h\<rparr>)))"

text \<open>\<open>&self.mmap[start..end]\<close> behind the code's own check of \<open>end\<close>.\<close>

definition mmap_slice :: "reader \<Rightarrow> nat \<Rightarrow> nat \<Rightarrow> format_error + bytes" where
  "mmap_slice r s e =
     (if length (r_mmap r) < e then Inl (TooShort e (length (r_mmap r)))
      else if e < s then Inl SlicePanic else Inr (slice (r_mmap r) s e))"

definition read_index_entry :: "reader \<Rightarrow> nat \<Rightarrow> format_error + index_entry" where
  "read_index_entry r i =
     (let s = (unat (r_index_section_offset r) + i * INDEX_ENTRY_SIZE) mod 2 ^ 64;
          e = (s + INDEX_ENTRY_SIZE) mod 2 ^ 64 in
      rbind (mmap_slice r s e) (\<lambda>bs. Inr (index_entry_parse bs)))"

function find_loop :: "reader \<Rightarrow> u128 \<Rightarrow> nat \<Rightarrow> nat \<Rightarrow> format_error + index_entry option" where
  "find_loop r hash lo hi =
     (if lo < hi then
        let mid = lo + (hi - lo) div 2 in
        rbind (read_index_entry r mid) (\<lambda>entry.
          case cmp_ord (e_hash entry) hash of
            Less \<Rightarrow> find_loop r hash (mid + 1) hi
          | Greater \<Rightarrow> find_loop r hash lo mid
          | Equal \<Rightarrow> Inr (Some entry))
      else Inr None)"
  by pat_completeness auto
termination
  by (relation "measure (\<lambda>(r, h, lo, hi). hi - lo)") auto

declare find_loop.simps [simp del]

definition find_entry :: "reader \<Rightarrow> u128 \<Rightarrow> format_error + index_entry option" where
  "find_entry r hash = (if r_num_entries r = 0 then Inr None else find_loop r hash 0 (unat (r_num_entries r)))"

text \<open>The payload of an entry, as \<open>get\<close> and \<open>iter_entries\<close> both read it.\<close>

definition entry_bitmaps :: "(bytes \<Rightarrow> 'p option) \<Rightarrow> reader \<Rightarrow> index_entry \<Rightarrow> format_error + 'p" where
  "entry_bitmaps dec r entry =
     (let s = unat (e_offset entry); e = (s + unat (e_length entry)) mod 2 ^ 64 in
      rbind (mmap_slice r s e) (\<lambda>bs. ok_or BincodeError (dec bs)))"

definition snapshot_get :: "(bytes \<Rightarrow> 'p option) \<Rightarrow> reader \<Rightarrow> u128 \<Rightarrow> format_error + 'p option" where
  "snapshot_get dec r hash =
     rbind (find_entry r hash) (\<lambda>found. case found of
         None \<Rightarrow> Inr None
       | Some entry \<Rightarrow> rbind (entry_bitmaps dec r entry) (\<lambda>bitmaps. Inr (Some bitmaps)))"

definition iter_entries :: "(bytes \<Rightarrow> 'p option) \<Rightarrow> reader \<Rightarrow> (format_error + u128 \<times> 'p) list" where
  "iter_entries dec r =
     map (\<lambda>i. rbind (read_index_entry r i) (\<lambda>entry.
            rbind (entry_bitmaps dec r entry) (\<lambda>bitmaps. Inr (e_hash entry, bitmaps))))
       [0 ..< unat (r_num_entries r)]"

section \<open>Any file that opens\<close>

lemmas v3_sizes = HEADER_SIZE_def INDEX_ENTRY_SIZE_def

text \<open>What \<open>open\<close> establishes, whatever the bytes: the index section ends at the end of the file.\<close>

definition reader_ok :: "reader \<Rightarrow> bool" where
  "reader_ok r \<longleftrightarrow> unat (r_index_section_offset r) + unat (r_num_entries r) * INDEX_ENTRY_SIZE
     = length (r_mmap r) \<and> length (r_mmap r) < 2 ^ 64"

lemma snapshot_open_ok: "snapshot_open file = Inr r \<Longrightarrow> reader_ok r \<and> r_mmap r = file"
  by (auto simp: snapshot_open_def reader_ok_def rbind_Inr_iff checked_mul64_def checked_add64_def
      Let_def split: if_splits)

definition entry_at :: "reader \<Rightarrow> nat \<Rightarrow> index_entry" where
  "entry_at r i = index_entry_parse
     (slice (r_mmap r) (unat (r_index_section_offset r) + i * 28) (unat (r_index_section_offset r) + i * 28 + 28))"

definition entries_sorted :: "reader \<Rightarrow> bool" where
  "entries_sorted r \<longleftrightarrow>
     (\<forall>j < unat (r_num_entries r). \<forall>i < j. e_hash (entry_at r i) < e_hash (entry_at r j))"

lemma read_index_entry_ok:
  assumes "reader_ok r" "i < unat (r_num_entries r)"
  shows "read_index_entry r i = Inr (entry_at r i)"
proof -
  have "i * 28 + 28 \<le> unat (r_num_entries r) * 28" using assms(2) by simp
  with assms(1) have "unat (r_index_section_offset r) + i * 28 + 28 \<le> length (r_mmap r)"
    "length (r_mmap r) < 2 ^ 64" by (simp_all add: reader_ok_def v3_sizes)
  then show ?thesis by (simp add: read_index_entry_def Let_def v3_sizes mmap_slice_def entry_at_def)
qed

text \<open>The binary search over any such file ends with a value; an entry it returns is one of the
  file with the hash asked for, and it misses no entry of a sorted file.\<close>

definition search_result :: "reader \<Rightarrow> u128 \<Rightarrow> nat \<Rightarrow> nat \<Rightarrow> index_entry option \<Rightarrow> bool" where
  "search_result r hash lo hi res \<longleftrightarrow> (case res of
     Some e \<Rightarrow> e_hash e = hash \<and> (\<exists>i. lo \<le> i \<and> i < hi \<and> e = entry_at r i)
   | None \<Rightarrow> entries_sorted r \<longrightarrow> (\<forall>i. lo \<le> i \<and> i < hi \<longrightarrow> e_hash (entry_at r i) \<noteq> hash))"

lemma entries_sortedD:
  "entries_sorted r \<Longrightarrow> i < j \<Longrightarrow> j < unat (r_num_entries r) \<Longrightarrow> e_hash (entry_at r i) < e_hash (entry_at r j)"
  by (simp add: entries_sorted_def)

lemma search_result_left:
  assumes "search_result r hash (mid + 1) hi res" "lo \<le> mid" "mid < unat (r_num_entries r)"
    "e_hash (entry_at r mid) < hash"
  shows "search_result r hash lo hi res"
proof (cases res)
  case None
  have "e_hash (entry_at r i) \<noteq> hash" if "entries_sorted r" "lo \<le> i" "i < hi" for i
  proof (cases "mid + 1 \<le> i")
    case False
    then have "i = mid \<or> e_hash (entry_at r i) < e_hash (entry_at r mid)"
      using entries_sortedD [OF that(1), of i mid] assms(3) by (auto simp: not_le less_Suc_eq)
    with assms(4) show ?thesis by auto
  qed (use assms(1) None that in \<open>simp add: search_result_def\<close>)
  with None show ?thesis by (simp add: search_result_def)
next
  case (Some e)
  with assms(1) obtain i where "e_hash e = hash" "mid + 1 \<le> i" "i < hi" "e = entry_at r i"
    by (auto simp: search_result_def)
  with Some assms(2) show ?thesis by (auto simp: search_result_def intro!: exI [of _ i])
qed

lemma search_result_right:
  assumes "search_result r hash lo mid res" "mid < hi" "hi \<le> unat (r_num_entries r)"
    "hash < e_hash (entry_at r mid)"
  shows "search_result r hash lo hi res"
proof (cases res)
  case None
  have "e_hash (entry_at r i) \<noteq> hash" if "entries_sorted r" "lo \<le> i" "i < hi" for i
  proof (cases "i < mid")
    case False
    then have "i = mid \<or> e_hash (entry_at r mid) < e_hash (entry_at r i)"
      using entries_sortedD [OF that(1), of mid i] assms(3) that by (cases "mid < i") auto
    with assms(4) show ?thesis by auto
  qed (use assms(1) None that in \<open>simp add: search_result_def\<close>)
  with None show ?thesis by (simp add: search_result_def)
next
  case (Some e)
  with assms(1) obtain i where "e_hash e = hash" "lo \<le> i" "i < mid" "e = entry_at r i"
    by (auto simp: search_result_def)
  with Some assms(2) show ?thesis by (auto simp: search_result_def intro!: exI [of _ i])
qed

lemma find_loop_ok:
  "reader_ok r \<Longrightarrow> hi \<le> unat (r_num_entries r) \<Longrightarrow>
   \<exists>res. find_loop r hash lo hi = Inr res \<and> search_result r hash lo hi res"
proof (induction r hash lo hi rule: find_loop.induct)
  case (1 r hash lo hi)
  let ?mid = "lo + (hi - lo) div 2"
  show ?case
  proof (cases "lo < hi")
    case True
    then have mid: "lo \<le> ?mid" "?mid < hi" "?mid < unat (r_num_entries r)" using "1.prems" by auto
    note rd = read_index_entry_ok [OF "1.prems"(1) mid(3)]
    have step: "find_loop r hash lo hi = (case cmp_ord (e_hash (entry_at r ?mid)) hash of
        Less \<Rightarrow> find_loop r hash (?mid + 1) hi | Greater \<Rightarrow> find_loop r hash lo ?mid
      | Equal \<Rightarrow> Inr (Some (entry_at r ?mid)))"
      unfolding find_loop.simps [of r hash lo hi] by (simp only: True if_True Let_def rd rbind.simps)
    show ?thesis
    proof (cases "cmp_ord (e_hash (entry_at r ?mid)) hash")
      case Less
      from "1.IH"(1) [OF True refl rd Less] "1.prems" obtain res where
        res: "find_loop r hash (?mid + 1) hi = Inr res" "search_result r hash (?mid + 1) hi res" by auto
      from step Less res(1) search_result_left [OF res(2) mid(1) mid(3)] show ?thesis by simp
    next
      case Greater
      from "1.IH"(2) [OF True refl rd Greater] "1.prems" mid obtain res where
        res: "find_loop r hash lo ?mid = Inr res" "search_result r hash lo ?mid res" by auto
      from step Greater res(1) search_result_right [OF res(2) mid(2) "1.prems"(2)] show ?thesis by simp
    next
      case Equal
      with step mid show ?thesis by (auto simp: search_result_def intro!: exI [of _ ?mid])
    qed
  qed (auto simp: find_loop.simps [of r hash lo hi] search_result_def)
qed

lemma find_entry_ok:
  "reader_ok r \<Longrightarrow>
   \<exists>res. find_entry r hash = Inr res \<and> search_result r hash 0 (unat (r_num_entries r)) res"
  using find_loop_ok [of r "unat (r_num_entries r)" hash 0]
  by (cases "r_num_entries r = 0") (simp_all add: find_entry_def search_result_def)


section \<open>The file a write makes\<close>

text \<open>The entries of the index section, from the offset of the first payload.\<close>

fun index_of :: "('p \<Rightarrow> bytes) \<Rightarrow> u64 \<Rightarrow> (u128 \<times> 'p) list \<Rightarrow> index_entry list" where
  "index_of enc off [] = []"
| "index_of enc off ((h, p) # es) =
     \<lparr>e_hash = h, e_offset = off, e_length = of_nat (length (enc p))\<rparr>
     # index_of enc (off + of_nat (length (enc p))) es"

definition payloads :: "('p \<Rightarrow> bytes) \<Rightarrow> (u128 \<times> 'p) list \<Rightarrow> bytes" where
  "payloads enc es = concat (map (\<lambda>(h, p). enc p) es)"

lemma payloads_simps [simp]: "payloads enc [] = []" "payloads enc ((h, p) # es) = enc p @ payloads enc es"
  by (simp_all add: payloads_def)

lemma write_loop_eq:
  "write_loop enc es (out, off, idx, n) = (out @ payloads enc es, off + of_nat (length (payloads enc es)),
     idx @ index_of enc off es, n + of_nat (length es))"
  by (induction es arbitrary: out off idx n) (auto simp: Let_def add.assoc)

definition v3_file :: "('p \<Rightarrow> bytes) \<Rightarrow> (u128 \<times> 'p) list \<Rightarrow> bytes" where
  "v3_file enc es = v3_header_write \<lparr>h_version = 3, h_num_entries = of_nat (length es),
       h_bitmaps_section_offset = 40, h_index_section_offset = 40 + of_nat (length (payloads enc es))\<rparr>
     @ payloads enc es @ concat (map index_entry_write (index_of enc 40 es))"

text \<open>What a write relies on: payloads below \<open>2\<^sup>3\<^sup>2\<close> bytes and a file below \<open>2\<^sup>6\<^sup>4\<close>.\<close>

definition v3_fits :: "('p \<Rightarrow> bytes) \<Rightarrow> (u128 \<times> 'p) list \<Rightarrow> bool" where
  "v3_fits enc es \<longleftrightarrow> list_all (\<lambda>(h, p). length (enc p) < 2 ^ 32) es
     \<and> 40 + length (payloads enc es) + 28 * length es < 2 ^ 64"

lemma length_header [simp]: "length (v3_header_write h) = 40"
  by (simp add: v3_header_write_def EXACT_IDX_MAGIC_def)

lemma length_entry [simp]: "length (index_entry_write e) = 28"
  by (simp add: index_entry_write_def)

lemma length_index_of [simp]: "length (index_of enc off es) = length es"
  by (induction es arbitrary: off) auto

lemma length_entries [simp]: "length (concat (map index_entry_write es)) = 28 * length es"
  by (induction es) auto

lemma length_v3_file: "length (v3_file enc es) = 40 + length (payloads enc es) + 28 * length es"
  by (simp add: v3_file_def)

lemma v3_write_eq: "v3_fits enc es \<Longrightarrow> write_exact_index_v3 enc es = Inr (v3_file enc es)"
  by (simp add: write_exact_index_v3_def write_loop_eq v3_sizes v3_fits_def checked_add64_def
      saturating_mul64_def Let_def overwrite_def v3_file_def EXACT_IDX_VERSION_V3_def unat_of_nat
      unat_word_ariths take_bit_nat_eq_self mult.commute)

lemma entry_round_trip [simp]: "index_entry_parse (index_entry_write e) = e"
  by (simp add: index_entry_parse_def index_entry_write_def slice_def)

lemma header_round_trip:
  "h_version h = 3 \<Longrightarrow> unat (h_num_entries h) * 28 < 2 ^ 64 \<Longrightarrow> v3_header_parse (v3_header_write h) = Inr h"
  by (simp add: v3_header_parse_def v3_header_write_def slice_def EXACT_IDX_MAGIC_def
      EXACT_IDX_VERSION_V3_def v3_sizes Let_def checked_mul64_def byte_def bval_def)


definition v3_reader :: "('p \<Rightarrow> bytes) \<Rightarrow> (u128 \<times> 'p) list \<Rightarrow> reader" where
  "v3_reader enc es = \<lparr>r_mmap = v3_file enc es, r_num_entries = of_nat (length es),
     r_bitmaps_section_offset = 40, r_index_section_offset = 40 + of_nat (length (payloads enc es))\<rparr>"

lemma fits_sizes:
  assumes "v3_fits enc es"
  shows "length es < 2 ^ 64" "unat (of_nat (length es) :: u64) = length es"
    "unat (40 + of_nat (length (payloads enc es)) :: u64) = 40 + length (payloads enc es)"
    "length (v3_file enc es) < 2 ^ 64"
  using assms by (simp_all add: v3_fits_def unat_of_nat take_bit_nat_eq_self unat_word_ariths length_v3_file)

lemma v3_open: "v3_fits enc es \<Longrightarrow> snapshot_open (v3_file enc es) = Inr (v3_reader enc es)"
proof -
  assume f: "v3_fits enc es"
  have "take 40 (v3_file enc es) = v3_header_write \<lparr>h_version = 3, h_num_entries = of_nat (length es),
       h_bitmaps_section_offset = 40, h_index_section_offset = 40 + of_nat (length (payloads enc es))\<rparr>"
    by (simp add: v3_file_def)
  with f fits_sizes [OF f] show ?thesis
    by (simp add: snapshot_open_def v3_sizes header_round_trip checked_mul64_def checked_add64_def Let_def
        length_v3_file v3_reader_def v3_fits_def mult.commute)
qed

lemma v3_reader_simps [simp]:
  "r_mmap (v3_reader enc es) = v3_file enc es" "r_num_entries (v3_reader enc es) = of_nat (length es)"
  "r_index_section_offset (v3_reader enc es) = 40 + of_nat (length (payloads enc es))"
  by (simp_all add: v3_reader_def)

lemma v3_reader_ok: "v3_fits enc es \<Longrightarrow> reader_ok (v3_reader enc es)"
  using v3_open snapshot_open_ok by blast

lemma slice_chunk:
  "\<forall>x\<in>set xs. length (f x) = k \<Longrightarrow> i < length xs \<Longrightarrow>
   slice (ys @ concat (map f xs)) (length ys + i * k) (length ys + i * k + k) = f (xs ! i)"
proof (induction xs arbitrary: ys i)
  case (Cons x xs)
  show ?case
  proof (cases i)
    case 0
    then show ?thesis using Cons.prems by (simp add: slice_def)
  next
    case (Suc j)
    with Cons.IH [of j "ys @ f x"] Cons.prems show ?thesis by (simp add: add.assoc)
  qed
qed simp

lemma v3_entry_at:
  assumes "v3_fits enc es" "i < length es"
  shows "entry_at (v3_reader enc es) i = index_of enc 40 es ! i"
proof -
  let ?ys = "v3_header_write \<lparr>h_version = 3, h_num_entries = of_nat (length es),
       h_bitmaps_section_offset = 40, h_index_section_offset = 40 + of_nat (length (payloads enc es))\<rparr>
     @ payloads enc es"
  have l: "length ?ys = 40 + length (payloads enc es)" by simp
  have f: "v3_file enc es = ?ys @ concat (map index_entry_write (index_of enc 40 es))"
    by (simp add: v3_file_def)
  have "slice (v3_file enc es) (length ?ys + i * 28) (length ?ys + i * 28 + 28)
      = index_entry_write (index_of enc 40 es ! i)"
    unfolding f by (rule slice_chunk) (use assms(2) in auto)
  then show ?thesis by (simp add: entry_at_def fits_sizes [OF assms(1)] l)
qed

lemma payloads_append: "payloads enc (es @ fs) = payloads enc es @ payloads enc fs"
  by (simp add: payloads_def)

lemma index_of_nth:
  "i < length es \<Longrightarrow> index_of enc off es ! i = \<lparr>e_hash = fst (es ! i),
     e_offset = off + of_nat (length (payloads enc (take i es))),
     e_length = of_nat (length (enc (snd (es ! i))))\<rparr>"
proof (induction es arbitrary: off i)
  case (Cons e es)
  then show ?case by (cases e; cases i) (auto simp: add.assoc)
qed simp

lemma payload_slice:
  assumes "i < length es"
  shows "length (payloads enc (take i es)) + length (enc (snd (es ! i))) \<le> length (payloads enc es)"
    "slice (ys @ payloads enc es @ zs) (length ys + length (payloads enc (take i es)))
       (length ys + length (payloads enc (take i es)) + length (enc (snd (es ! i)))) = enc (snd (es ! i))"
proof -
  obtain h p where hp: "es ! i = (h, p)" by (cases "es ! i")
  have s: "payloads enc es = payloads enc (take i es) @ enc p @ payloads enc (drop (Suc i) es)"
    by (subst id_take_nth_drop [OF assms]) (simp add: payloads_append hp)
  show "length (payloads enc (take i es)) + length (enc (snd (es ! i))) \<le> length (payloads enc es)"
    "slice (ys @ payloads enc es @ zs) (length ys + length (payloads enc (take i es)))
       (length ys + length (payloads enc (take i es)) + length (enc (snd (es ! i)))) = enc (snd (es ! i))"
    unfolding s by (simp_all add: hp slice_def)
qed

lemma v3_bitmaps:
  assumes "v3_fits enc es" "i < length es" "dec (enc (snd (es ! i))) = Some (snd (es ! i))"
  shows "entry_bitmaps dec (v3_reader enc es) (entry_at (v3_reader enc es) i) = Inr (snd (es ! i))"
proof -
  let ?p = "length (payloads enc (take i es))" and ?n = "length (enc (snd (es ! i)))"
  have b: "?p + ?n \<le> length (payloads enc es)" by (rule payload_slice(1) [OF assms(2)])
  have n: "?n < 2 ^ 32"
    using assms(1,2) by (auto simp: v3_fits_def list_all_length split_beta)
  have "40 + ?p + ?n < 2 ^ 64" "40 + ?p + ?n \<le> length (v3_file enc es)"
    using b assms(1) by (simp_all add: v3_fits_def length_v3_file)
  moreover have "slice (v3_file enc es) (40 + ?p) (40 + ?p + ?n) = enc (snd (es ! i))"
    using payload_slice(2) [OF assms(2), of "v3_header_write \<lparr>h_version = 3, h_num_entries = of_nat (length es),
       h_bitmaps_section_offset = 40, h_index_section_offset = 40 + of_nat (length (payloads enc es))\<rparr>"]
    by (simp add: v3_file_def)
  ultimately show ?thesis
    using n assms by (simp add: entry_bitmaps_def v3_entry_at index_of_nth Let_def mmap_slice_def
        unat_of_nat take_bit_nat_eq_self unat_word_ariths)
qed


text \<open>The entries a snapshot can hold: strictly ascending hashes, sizes that fit and payloads the
  codec reads back.\<close>

definition v3_ok :: "('p \<Rightarrow> bytes) \<Rightarrow> (bytes \<Rightarrow> 'p option) \<Rightarrow> (u128 \<times> 'p) list \<Rightarrow> bool" where
  "v3_ok enc dec es \<longleftrightarrow> v3_fits enc es \<and> sorted_wrt (<) (map fst es)
     \<and> list_all (\<lambda>(h, p). dec (enc p) = Some p) es"

lemma sorted_distinct: "sorted_wrt (<) (map fst (es :: ('k::linorder \<times> 'v) list)) \<Longrightarrow> distinct (map fst es)"
  by (simp add: strict_sorted_iff)

lemma v3_ok_nth: "v3_ok enc dec es \<Longrightarrow> i < length es \<Longrightarrow> dec (enc (snd (es ! i))) = Some (snd (es ! i))"
  by (auto simp: v3_ok_def list_all_length split_beta)

lemma v3_hash_at: "v3_fits enc es \<Longrightarrow> i < length es \<Longrightarrow> e_hash (entry_at (v3_reader enc es) i) = fst (es ! i)"
  by (simp add: v3_entry_at index_of_nth)

lemma v3_sorted: "v3_ok enc dec es \<Longrightarrow> entries_sorted (v3_reader enc es)"
  by (auto simp: entries_sorted_def v3_hash_at v3_ok_def sorted_wrt_iff_nth_less fits_sizes)

lemma v3_get:
  assumes "v3_ok enc dec es"
  shows "snapshot_get dec (v3_reader enc es) h = Inr (map_of es h)"
proof -
  have f: "v3_fits enc es" and d: "distinct (map fst es)"
    using assms sorted_distinct by (auto simp: v3_ok_def)
  from find_entry_ok [OF v3_reader_ok [OF f], of h] obtain res where
    res: "find_entry (v3_reader enc es) h = Inr res" "search_result (v3_reader enc es) h 0 (length es) res"
    by (auto simp: fits_sizes [OF f])
  show ?thesis
  proof (cases res)
    case None
    with res(2) v3_sorted [OF assms] have "\<forall>i<length es. fst (es ! i) \<noteq> h"
      by (simp add: search_result_def v3_hash_at [OF f])
    then have "map_of es h = None"
      by (auto simp: map_of_eq_None_iff in_set_conv_nth) (metis fst_conv)
    with res None show ?thesis by (simp add: snapshot_get_def)
  next
    case (Some e)
    with res(2) obtain i where i: "i < length es" "e = entry_at (v3_reader enc es) i" "e_hash e = h"
      by (auto simp: search_result_def)
    then have "h = fst (es ! i)" using v3_hash_at [OF f i(1)] by simp
    then have "(h, snd (es ! i)) \<in> set es" using nth_mem [OF i(1)] by simp
    with d have "map_of es h = Some (snd (es ! i))" by simp
    with res Some i v3_bitmaps [where dec = dec, OF f i(1) v3_ok_nth [OF assms i(1)]] show ?thesis
      by (simp add: snapshot_get_def)
  qed
qed

lemma v3_iter:
  assumes "v3_ok enc dec es"
  shows "iter_entries dec (v3_reader enc es) = map Inr es"
proof -
  have f: "v3_fits enc es" using assms by (simp add: v3_ok_def)
  show ?thesis
    using v3_bitmaps [where dec = dec, OF f _ v3_ok_nth [OF assms]] read_index_entry_ok [OF v3_reader_ok [OF f]]
    by (intro nth_equalityI) (simp_all add: iter_entries_def fits_sizes [OF f] v3_hash_at [OF f])
qed

section \<open>The contract of a snapshot\<close>

text \<open>What the index on top of it (\<open>Exact_Index\<close>) uses of a snapshot: making one from entries,
  looking a hash up and iterating. \<open>holds s es\<close> is the abstraction: \<open>s\<close> stores the entries \<open>es\<close>.\<close>

locale snapshot_store =
  fixes make :: "('k::linorder \<times> 'p) list \<Rightarrow> 'e + 's"
    and get :: "'s \<Rightarrow> 'k \<Rightarrow> 'e + 'p option"
    and iter :: "'s \<Rightarrow> ('e + 'k \<times> 'p) list"
    and ok :: "('k \<times> 'p) list \<Rightarrow> bool"
    and holds :: "'s \<Rightarrow> ('k \<times> 'p) list \<Rightarrow> bool"
  assumes make_holds: "ok es \<Longrightarrow> \<exists>s. make es = Inr s \<and> holds s es"
    and get_holds: "holds s es \<Longrightarrow> get s h = Inr (map_of es h)"
    and iter_holds: "holds s es \<Longrightarrow> iter s = map Inr es"
    and holds_sorted: "holds s es \<Longrightarrow> sorted_wrt (<) (map fst es)"
begin

lemma make_get: "ok es \<Longrightarrow> \<exists>s. make es = Inr s \<and> (\<forall>h. get s h = Inr (map_of es h)) \<and> iter s = map Inr es"
  using make_holds get_holds iter_holds by blast

lemma holds_distinct: "holds s es \<Longrightarrow> distinct (map fst es)"
  using holds_sorted sorted_distinct by blast

lemma get_iff_iter: "holds s es \<Longrightarrow> get s h = Inr (Some p) \<longleftrightarrow> Inr (h, p) \<in> set (iter s)"
  using holds_distinct [of s es] by (auto simp: get_holds iter_holds map_of_eq_Some_iff)

lemma iter_no_error: "holds s es \<Longrightarrow> Inl e \<notin> set (iter s)"
  by (auto simp: iter_holds)

end

definition v3_make :: "('p \<Rightarrow> bytes) \<Rightarrow> (u128 \<times> 'p) list \<Rightarrow> format_error + reader" where
  "v3_make enc es = rbind (write_exact_index_v3 enc es) snapshot_open"

definition v3_holds :: "('p \<Rightarrow> bytes) \<Rightarrow> (bytes \<Rightarrow> 'p option) \<Rightarrow> reader \<Rightarrow> (u128 \<times> 'p) list \<Rightarrow> bool" where
  "v3_holds enc dec r es \<longleftrightarrow> v3_ok enc dec es \<and> r = v3_reader enc es"

interpretation v3: snapshot_store "v3_make enc" "snapshot_get dec" "iter_entries dec" "v3_ok enc dec"
  "v3_holds enc dec" for enc dec
  by unfold_locales
    (auto simp: v3_holds_def v3_make_def v3_write_eq v3_open v3_get v3_iter, auto simp: v3_ok_def v3_write_eq v3_open)

section \<open>Properties\<close>

text \<open>C30: Whatever entries are written (ascending hashes, payloads below \<open>2\<^sup>3\<^sup>2\<close> bytes), the file
  opens, a lookup of any hash returns exactly the entry written under it, or nothing, and
  iteration returns the entries in order.\<close>

theorem v3_write_read:
  assumes "v3_ok enc dec es"
  shows "\<exists>file r. write_exact_index_v3 enc es = Inr file \<and> snapshot_open file = Inr r \<and>
    (\<forall>h. snapshot_get dec r h = Inr (map_of es h)) \<and> iter_entries dec r = map Inr es"
  using v3.make_get [OF assms] by (auto simp: v3_make_def rbind_Inr_iff)

theorem v3_write_read_witness:
  "\<exists>file r. write_exact_index_v3 (\<lambda>p. p) [(5, ''x''), (9, ''yz'')] = Inr file \<and> snapshot_open file = Inr r \<and>
    (\<forall>h. snapshot_get Some r h = Inr (map_of [(5, ''x''), (9, ''yz'')] h)) \<and>
    iter_entries Some r = map Inr [(5, ''x''), (9, ''yz'')]"
  by (rule v3_write_read) (simp add: v3_ok_def v3_fits_def)

text \<open>C34: A snapshot file that was cut short, or to which anything was appended, is refused by
  \<open>open\<close>.\<close>

theorem v3_rejects_cut:
  assumes "v3_fits enc es" "write_exact_index_v3 enc es = Inr file"
    "prefix p file \<or> prefix file p" "p \<noteq> file" "length p < 2 ^ 64"
  shows "\<exists>e. snapshot_open p = Inl e"
proof (rule ccontr)
  assume "\<nexists>e. snapshot_open p = Inl e"
  then obtain r where r: "snapshot_open p = Inr r" by (cases "snapshot_open p") auto
  have fl: "file = v3_file enc es" using assms(1,2) by (simp add: v3_write_eq)
  have "40 \<le> length p" using r by (auto simp: snapshot_open_def v3_sizes Let_def split: if_splits)
  with assms(3) have "take 40 p = take 40 file" by (auto elim!: prefixE simp: fl length_v3_file)
  then have "take 40 p = v3_header_write \<lparr>h_version = 3, h_num_entries = of_nat (length es),
       h_bitmaps_section_offset = 40, h_index_section_offset = 40 + of_nat (length (payloads enc es))\<rparr>"
    by (simp add: fl v3_file_def)
  with r fits_sizes [OF assms(1)] assms(1) have "length p = length file"
    by (auto simp: snapshot_open_def v3_sizes header_round_trip checked_mul64_def checked_add64_def Let_def
        length_v3_file v3_fits_def fl rbind_Inr_iff split: if_splits)
  with assms(3,4) show False by (auto elim!: prefixE)
qed

theorem v3_rejects_cut_witness:
  "\<exists>e. snapshot_open (take 50 (v3_file (\<lambda>p. p) [(5, ''x''), (9, ''yz'')])) = Inl e"
proof (rule v3_rejects_cut)
  show f: "v3_fits (\<lambda>p. p) [(5, ''x''), (9, ''yz'')]" by (simp add: v3_fits_def)
  show "write_exact_index_v3 (\<lambda>p. p) [(5, ''x''), (9, ''yz'')] = Inr (v3_file (\<lambda>p. p) [(5, ''x''), (9, ''yz'')])"
    by (rule v3_write_eq [OF f])
  have "length (v3_file (\<lambda>p. p) [(5, ''x''), (9, ''yz'')]) = 99" by (simp add: length_v3_file)
  then show "take 50 (v3_file (\<lambda>p. p) [(5, ''x''), (9, ''yz'')]) \<noteq> v3_file (\<lambda>p. p) [(5, ''x''), (9, ''yz'')]"
    by (auto dest: arg_cong [of _ _ length])
qed (simp_all add: take_is_prefix)

text \<open>C35: The binary search over any file that \<open>open\<close> accepts, however corrupt its index section,
  ends without an error or a slice out of bounds, and an entry it returns carries the hash asked
  for.\<close>

theorem v3_find_entry_total:
  assumes "snapshot_open bs = Inr r"
  shows "\<exists>res. find_entry r hash = Inr res \<and> (\<forall>e. res = Some e \<longrightarrow> e_hash e = hash)"
  using find_entry_ok [of r hash] snapshot_open_ok [OF assms]
  by (auto simp: search_result_def split: option.splits)

theorem v3_find_entry_total_witness:
  "\<exists>res. find_entry (v3_reader (\<lambda>p. p) [(9, ''yz''), (5, ''x'')]) 5 = Inr res \<and>
     (\<forall>e. res = Some e \<longrightarrow> e_hash e = 5)"
  by (rule v3_find_entry_total, rule v3_open) (simp add: v3_fits_def)

end
