(* ===== verification/Exact_Index.thy ===== *)
theory Exact_Index
  imports Index_V3
begin

text \<open>
  \<^verbatim>\<open>src/core/storage/exact_index.rs\<close>: the exact-match index of one field. A lookup goes to the
  changes since the last save (\<open>x_delta\<close>), then to an LRU cache, then to the snapshot file
  (\<open>Index_V3\<close>). \<open>save\<close> merges the delta into a new snapshot with the streaming merge of
  \<open>MergedEntriesIter\<close>.

  Parameters: the record \<open>lru\<close> of the operations of the \<^verbatim>\<open>lru\<close> crate on a cache of type \<open>'c\<close>
  (\<open>lru_ok\<close> is its documented contract), and the record \<open>codec\<close> of the \<^verbatim>\<open>bincode\<close> functions on
  the payloads. A \<open>RoaringBitmap\<close> is the set of its \<open>u32\<close> members; the file system is a map from
  paths to contents, and its operations succeed.
\<close>

type_synonym bitmap = "u32 set"
type_synonym postings = "(u64 \<times> bitmap) list"
type_synonym files = "(string, bytes) hmap"

datatype delta_entry = Replace postings | Removed

record 'c lru =
  l_new :: 'c
  l_peek :: "'c \<Rightarrow> u128 \<Rightarrow> postings option"
  l_get :: "u128 \<Rightarrow> 'c \<Rightarrow> postings option \<times> 'c"
  l_put :: "u128 \<Rightarrow> postings \<Rightarrow> 'c \<Rightarrow> 'c"
  l_pop :: "u128 \<Rightarrow> 'c \<Rightarrow> 'c"
  l_clear :: "'c \<Rightarrow> 'c"

text \<open>The contract of a bounded map: \<open>get\<close> returns what is stored and changes only the recency,
  and no operation makes up an entry; any entry may be evicted by \<open>put\<close>.\<close>

definition lru_ok :: "'c lru \<Rightarrow> bool" where
  "lru_ok l \<longleftrightarrow>
     (\<forall>k. l_peek l (l_new l) k = None) \<and> (\<forall>c k. l_peek l (l_clear l c) k = None) \<and>
     (\<forall>c k. fst (l_get l k c) = l_peek l c k \<and> l_peek l (snd (l_get l k c)) = l_peek l c) \<and>
     (\<forall>c k v. l_peek l (l_put l k v c) \<subseteq>\<^sub>m (l_peek l c)(k \<mapsto> v)) \<and>
     (\<forall>c k. l_peek l (l_pop l k c) \<subseteq>\<^sub>m (l_peek l c)(k := None))"

record codec =
  enc_postings :: "postings \<Rightarrow> bytes"
  dec_postings :: "bytes \<Rightarrow> postings option"
  dec_v2 :: "bytes \<Rightarrow> (u128, postings) hmap option"
  dec_v1 :: "bytes \<Rightarrow> (string, postings) hmap option"

record 'c exact_index =
  x_snapshot :: "reader option"
  x_path :: "string option"
  x_delta :: "(u128, delta_entry) hmap"
  x_cache :: 'c

datatype index_error =
    Snapshot format_error | DeserializeV1 | DeserializeV2 | VersionNotSupported u8 | NoPathSet

definition map_err :: "('e \<Rightarrow> 'f) \<Rightarrow> 'e + 'a \<Rightarrow> 'f + 'a" where
  "map_err f r = (case r of Inl e \<Rightarrow> Inl (f e) | Inr a \<Rightarrow> Inr a)"

lemma map_err_simps [simp]: "map_err f (Inl e) = Inl (f e)" "map_err f (Inr a) = Inr a"
  by (simp_all add: map_err_def)

section \<open>Operations\<close>

text \<open>\<open>canonical_bytes\<close> of canonical.rs: \<open>is_nfc(s)\<close> is \<open>nfc s = s\<close>.\<close>

definition canonical_bytes :: "ext \<Rightarrow> string \<Rightarrow> bytes" where
  "canonical_bytes x s = (if nfc x s = s then s else nfc x s)"

definition ix_hash :: "ext \<Rightarrow> string \<Rightarrow> u128" where
  "ix_hash x v = xxh3_128 x (canonical_bytes x v)"

definition exact_index_new :: "'c lru \<Rightarrow> 'c exact_index" where
  "exact_index_new l = \<lparr>x_snapshot = None, x_path = None, x_delta = [], x_cache = l_new l\<rparr>"

text \<open>\<open>existing.1 |= bitmap\<close> on the entry of the segment, or a new entry.\<close>

fun add_bitmap :: "u64 \<Rightarrow> bitmap \<Rightarrow> postings \<Rightarrow> postings" where
  "add_bitmap seg b [] = [(seg, b)]"
| "add_bitmap seg b ((s, c) # ps) = (if s = seg then (s, c \<union> b) # ps else (s, c) # add_bitmap seg b ps)"

definition load_v1_into_delta ::
    "ext \<Rightarrow> (string, postings) hmap \<Rightarrow> (u128, delta_entry) hmap \<Rightarrow> (u128, delta_entry) hmap" where
  "load_v1_into_delta x raw delta = fold (\<lambda>(value, bitmaps) delta.
     let hash = ix_hash x value in
     case hget delta hash of
       Some (Replace entry) \<Rightarrow>
         hput hash (Replace (fold (\<lambda>(seg, bitmap). add_bitmap seg bitmap) bitmaps entry)) delta
     | _ \<Rightarrow> hput hash (Replace bitmaps) delta) raw delta"

definition exact_index_open ::
    "ext \<Rightarrow> 'c lru \<Rightarrow> codec \<Rightarrow> files \<Rightarrow> string \<Rightarrow> index_error + 'c exact_index" where
  "exact_index_open x l cd fs path =
     (let idx = \<lparr>x_snapshot = None, x_path = Some path, x_delta = [], x_cache = l_new l\<rparr> in
      case hget fs path of
        None \<Rightarrow> Inr idx
      | Some content \<Rightarrow>
          let n = min 8 (length content); header = take 8 content @ replicate (8 - n) CHR 0x00; rest = drop 8 content in
          if 4 \<le> n \<and> take 4 header = EXACT_IDX_MAGIC then
            let version = of_nat (bval (header ! 4)) in
            if version = EXACT_IDX_VERSION_V3 then
              rbind (map_err Snapshot (snapshot_open content)) (\<lambda>r. Inr (idx\<lparr>x_snapshot := Some r\<rparr>))
            else if version = 2 then
              rbind (ok_or DeserializeV2 (dec_v2 cd rest)) (\<lambda>m.
                Inr (idx\<lparr>x_delta := fold (\<lambda>(h, b). hput h (Replace b)) m []\<rparr>))
            else if version = 1 then
              rbind (ok_or DeserializeV1 (dec_v1 cd rest)) (\<lambda>raw.
                Inr (idx\<lparr>x_delta := load_v1_into_delta x raw []\<rparr>))
            else Inl (VersionNotSupported version)
          else
            rbind (ok_or DeserializeV1 (dec_v1 cd content)) (\<lambda>raw.
              Inr (idx\<lparr>x_delta := load_v1_into_delta x raw []\<rparr>)))"

definition exact_index_get ::
    "ext \<Rightarrow> 'c lru \<Rightarrow> codec \<Rightarrow> 'c exact_index \<Rightarrow> string \<Rightarrow> postings option \<times> 'c exact_index" where
  "exact_index_get x l cd idx value =
     (let hash = ix_hash x value in
      case hget (x_delta idx) hash of
        Some (Replace ps) \<Rightarrow> (Some ps, idx)
      | Some Removed \<Rightarrow> (None, idx)
      | None \<Rightarrow>
          (case l_get l hash (x_cache idx) of
             (Some ps, cache) \<Rightarrow> (Some ps, idx\<lparr>x_cache := cache\<rparr>)
           | (None, cache) \<Rightarrow>
               let idx = idx\<lparr>x_cache := cache\<rparr> in
               case x_snapshot idx of
                 None \<Rightarrow> (None, idx)
               | Some snap \<Rightarrow>
                   (case snapshot_get (dec_postings cd) snap hash of
                      Inr (Some bitmaps) \<Rightarrow> (Some bitmaps, idx\<lparr>x_cache := l_put l hash bitmaps (x_cache idx)\<rparr>)
                    | Inr None \<Rightarrow> (None, idx)
                    | Inl e \<Rightarrow> (None, idx))))"

definition delta_put :: "'c lru \<Rightarrow> u128 \<Rightarrow> delta_entry \<Rightarrow> 'c exact_index \<Rightarrow> 'c exact_index" where
  "delta_put l hash e idx =
     idx\<lparr>x_delta := hput hash e (x_delta idx), x_cache := l_pop l hash (x_cache idx)\<rparr>"

definition exact_index_insert ::
    "ext \<Rightarrow> 'c lru \<Rightarrow> 'c exact_index \<Rightarrow> string \<Rightarrow> postings \<Rightarrow> 'c exact_index" where
  "exact_index_insert x l idx value bitmaps = delta_put l (ix_hash x value) (Replace bitmaps) idx"

definition current_bitmaps :: "codec \<Rightarrow> 'c exact_index \<Rightarrow> u128 \<Rightarrow> postings" where
  "current_bitmaps cd idx hash =
     (case hget (x_delta idx) hash of
        Some (Replace ps) \<Rightarrow> ps
      | Some Removed \<Rightarrow> []
      | None \<Rightarrow>
          (case x_snapshot idx of
             None \<Rightarrow> []
           | Some s \<Rightarrow> (case snapshot_get (dec_postings cd) s hash of
                          Inr (Some ps) \<Rightarrow> ps | Inr None \<Rightarrow> [] | Inl e \<Rightarrow> [])))"

definition merge_value ::
    "ext \<Rightarrow> 'c lru \<Rightarrow> codec \<Rightarrow> u64 \<Rightarrow> string \<times> bitmap \<Rightarrow> 'c exact_index \<Rightarrow> 'c exact_index" where
  "merge_value x l cd seg_id vb idx =
     (let hash = ix_hash x (fst vb) in
      delta_put l hash (Replace (add_bitmap seg_id (snd vb) (current_bitmaps cd idx hash))) idx)"

definition merge_segment ::
    "ext \<Rightarrow> 'c lru \<Rightarrow> codec \<Rightarrow> 'c exact_index \<Rightarrow> u64 \<Rightarrow> (string, bitmap) hmap \<Rightarrow> 'c exact_index" where
  "merge_segment x l cd idx seg_id segment_bitmaps =
     fold (merge_value x l cd seg_id) segment_bitmaps idx"

text \<open>\<open>Removed\<close> when nothing is left.\<close>

definition replace_or_remove :: "postings \<Rightarrow> delta_entry" where
  "replace_or_remove ps = (if ps = [] then Removed else Replace ps)"

text \<open>The first loop of \<open>purge_segments\<close>: the changes to entries of the snapshot.\<close>

definition purge_snapshot ::
    "codec \<Rightarrow> u64 set \<Rightarrow> (u128, delta_entry) hmap \<Rightarrow> reader \<Rightarrow> (u128 \<times> delta_entry) list" where
  "purge_snapshot cd removed delta snap =
     concat (map (\<lambda>res. case res of
         Inl e \<Rightarrow> []
       | Inr (hash, bitmaps) \<Rightarrow>
           if hget delta hash \<noteq> None then []
           else if \<not> list_ex (\<lambda>(seg, _). seg \<in> removed) bitmaps then []
           else [(hash, replace_or_remove (filter (\<lambda>(seg, _). seg \<notin> removed) bitmaps))])
       (iter_entries (dec_postings cd) snap))"

text \<open>The body of its second loop, on one key: the delta and whether it changed.\<close>

definition purge_key ::
    "u64 set \<Rightarrow> u128 \<Rightarrow> (u128, delta_entry) hmap \<times> bool \<Rightarrow> (u128, delta_entry) hmap \<times> bool" where
  "purge_key removed hash st =
     (case hget (fst st) hash of
        Some (Replace ps) \<Rightarrow>
          let filtered = filter (\<lambda>(seg, _). seg \<notin> removed) ps in
          if length filtered = length ps then st
          else (hput hash (replace_or_remove filtered) (fst st), True)
      | _ \<Rightarrow> st)"

definition purge_segments ::
    "'c lru \<Rightarrow> codec \<Rightarrow> 'c exact_index \<Rightarrow> u64 set \<Rightarrow> 'c exact_index \<times> bool" where
  "purge_segments l cd idx removed =
     (let to_apply = (case x_snapshot idx of
            None \<Rightarrow> [] | Some snap \<Rightarrow> purge_snapshot cd removed (x_delta idx) snap);
          delta = fold (\<lambda>(hash, e). hput hash e) to_apply (x_delta idx);
          (delta, changed) = fold (purge_key removed) (map fst delta) (delta, to_apply \<noteq> []) in
      (idx\<lparr>x_delta := delta, x_cache := (if changed then l_clear l (x_cache idx) else x_cache idx)\<rparr>, changed))"

section \<open>The streaming merge\<close>

type_synonym entry = "u128 \<times> postings"

record merged_iter =
  mi_snap :: "(format_error + entry) list"
  mi_delta :: "(u128 \<times> delta_entry) list"
  mi_delta_idx :: nat
  mi_snap_buf :: "entry option"

text \<open>The loop of \<open>advance_snap\<close>: skip errors up to the next entry.\<close>

fun next_entry :: "(format_error + entry) list \<Rightarrow> entry option \<times> (format_error + entry) list" where
  "next_entry [] = (None, [])"
| "next_entry (Inr e # r) = (Some e, r)"
| "next_entry (Inl _ # r) = next_entry r"

definition advance_snap :: "merged_iter \<Rightarrow> merged_iter" where
  "advance_snap it = (case next_entry (mi_snap it) of
     (b, r) \<Rightarrow> it\<lparr>mi_snap := r, mi_snap_buf := b\<rparr>)"

text \<open>\<open>Iterator::next\<close> and \<open>take_delta\<close>, which calls it again on a removed entry.\<close>

function (sequential)
  merged_next :: "merged_iter \<Rightarrow> entry option \<times> merged_iter" and
  take_delta :: "merged_iter \<Rightarrow> u128 \<Rightarrow> entry option \<times> merged_iter"
where
  "merged_next it =
     (let snap_hash = mi_snap_buf it;
          delta_hash = (if mi_delta_idx it < length (mi_delta it)
                        then Some (fst (mi_delta it ! mi_delta_idx it)) else None) in
      case (snap_hash, delta_hash) of
        (None, None) \<Rightarrow> (None, it)
      | (Some (sh, bitmaps), None) \<Rightarrow> (Some (sh, bitmaps), advance_snap it)
      | (None, Some dh) \<Rightarrow> take_delta it dh
      | (Some (sh, bitmaps), Some dh) \<Rightarrow>
          if sh < dh then (Some (sh, bitmaps), advance_snap it)
          else if dh < sh then take_delta it dh
          else take_delta (advance_snap it) dh)"
| "take_delta it dh =
     (if mi_delta_idx it < length (mi_delta it) then
        (case mi_delta it ! mi_delta_idx it of
           (_, Replace ps) \<Rightarrow> (Some (dh, ps), it\<lparr>mi_delta_idx := mi_delta_idx it + 1\<rparr>)
         | (_, Removed) \<Rightarrow> merged_next (it\<lparr>mi_delta_idx := mi_delta_idx it + 1\<rparr>))
      else (None, it))"
  by pat_completeness auto
termination
  by (relation "measure (\<lambda>x. case x of
      Inl it \<Rightarrow> 2 * (length (mi_delta it) - mi_delta_idx it) + 1
    | Inr (it, _) \<Rightarrow> 2 * (length (mi_delta it) - mi_delta_idx it))")
    (auto simp: advance_snap_def split: prod.splits)

declare merged_next.simps [simp del] take_delta.simps [simp del]

text \<open>How much input an iterator has left: each item consumes some.\<close>

definition mi_left :: "merged_iter \<Rightarrow> nat" where
  "mi_left it = length (mi_snap it) + (case mi_snap_buf it of None \<Rightarrow> 0 | Some _ \<Rightarrow> 1)
     + (length (mi_delta it) - mi_delta_idx it)"

lemma next_entry_length: "next_entry r = (b, r') \<Longrightarrow> length r' + (case b of None \<Rightarrow> 0 | Some _ \<Rightarrow> 1) \<le> length r"
  by (induction r rule: next_entry.induct) (auto simp: le_Suc_eq)

lemma advance_left:
  "mi_snap_buf it = Some e \<Longrightarrow> mi_left (advance_snap it) < mi_left it"
  by (auto simp: advance_snap_def mi_left_def split: prod.splits dest: next_entry_length)

lemma advance_delta [simp]: "mi_delta (advance_snap it) = mi_delta it"
  "mi_delta_idx (advance_snap it) = mi_delta_idx it"
  by (simp_all add: advance_snap_def split: prod.splits)

text \<open>The arms of the two functions.\<close>

definition skip_delta :: "merged_iter \<Rightarrow> merged_iter" where
  "skip_delta it = it\<lparr>mi_delta_idx := mi_delta_idx it + 1\<rparr>"

lemma skip_delta_simps [simp]:
  "mi_delta (skip_delta it) = mi_delta it" "mi_delta_idx (skip_delta it) = Suc (mi_delta_idx it)"
  "mi_snap (skip_delta it) = mi_snap it" "mi_snap_buf (skip_delta it) = mi_snap_buf it"
  by (simp_all add: skip_delta_def)

lemma take_delta_eq:
  "mi_delta_idx it < length (mi_delta it) \<Longrightarrow> take_delta it dh =
     (case snd (mi_delta it ! mi_delta_idx it) of
        Replace ps \<Rightarrow> (Some (dh, ps), skip_delta it) | Removed \<Rightarrow> merged_next (skip_delta it))"
  by (simp add: take_delta.simps [of it] skip_delta_def case_prod_unfold split: delta_entry.splits)

lemma merged_next_end:
  "mi_delta_idx it \<ge> length (mi_delta it) \<Longrightarrow> merged_next it =
     (case mi_snap_buf it of None \<Rightarrow> (None, it) | Some e \<Rightarrow> (Some e, advance_snap it))"
  by (simp add: merged_next.simps [of it] split: option.splits)

lemma merged_next_delta:
  "mi_delta_idx it < length (mi_delta it) \<Longrightarrow> dh = fst (mi_delta it ! mi_delta_idx it) \<Longrightarrow> merged_next it =
     (case mi_snap_buf it of
        None \<Rightarrow> take_delta it dh
      | Some e \<Rightarrow> if fst e < dh then (Some e, advance_snap it)
                  else if dh < fst e then take_delta it dh else take_delta (advance_snap it) dh)"
  by (simp add: merged_next.simps [of it] Let_def split: option.splits)

lemma skip_left: "mi_delta_idx it < length (mi_delta it) \<Longrightarrow> mi_left (skip_delta it) < mi_left it"
  by (simp add: mi_left_def)

lemma merged_next_left: "merged_next it = (Some e, it') \<Longrightarrow> mi_left it' < mi_left it"
proof (induction "length (mi_delta it) - mi_delta_idx it" arbitrary: it rule: less_induct)
  case less
  show ?case
  proof (cases "mi_delta_idx it < length (mi_delta it)")
    case True
    have td: "mi_left it' < mi_left i"
      if "take_delta i dh = (Some e, it')" "mi_delta i = mi_delta it" "mi_delta_idx i = mi_delta_idx it" for i dh
    proof (cases "snd (mi_delta i ! mi_delta_idx i)")
      case (Replace ps)
      with that True skip_left [of i] show ?thesis by (simp add: take_delta_eq)
    next
      case Removed
      with that True have "merged_next (skip_delta i) = (Some e, it')" by (simp add: take_delta_eq)
      with less.hyps [of "skip_delta i"] that True have "mi_left it' < mi_left (skip_delta i)" by simp
      also have "\<dots> < mi_left i" using that True by (simp add: skip_left)
      finally show ?thesis .
    qed
    show ?thesis
      using less.prems True td [of it] td [of "advance_snap it"] advance_left [of it]
      by (auto simp: merged_next_delta split: option.splits if_splits intro: less_trans)
  next
    case False
    with less.prems advance_left [of it e] show ?thesis by (auto simp: merged_next_end split: option.splits)
  qed
qed

text \<open>All items, as the writer consumes them.\<close>

function collect_merged :: "merged_iter \<Rightarrow> entry list" where
  "collect_merged it = (case merged_next it of
     (None, _) \<Rightarrow> [] | (Some e, it') \<Rightarrow> e # collect_merged it')"
  by pat_completeness auto
termination
  by (relation "measure mi_left") (auto dest: merged_next_left [OF sym])

declare collect_merged.simps [simp del]

fun first_error :: "('e + 'a) list \<Rightarrow> 'e option" where
  "first_error [] = None"
| "first_error (Inl e # _) = Some e"
| "first_error (Inr _ # r) = first_error r"

definition merge_streams :: "codec \<Rightarrow> reader \<Rightarrow> (u128, delta_entry) hmap \<Rightarrow> format_error + merged_iter" where
  "merge_streams cd snap delta =
     (let delta_sorted = sort_key fst delta;
          snap_vec = iter_entries (dec_postings cd) snap in
      case first_error snap_vec of
        Some e \<Rightarrow> Inl e
      | None \<Rightarrow> Inr (advance_snap \<lparr>mi_snap = snap_vec, mi_delta = delta_sorted, mi_delta_idx = 0,
          mi_snap_buf = None\<rparr>))"

section \<open>Saving\<close>

definition delta_replaced :: "(u128, delta_entry) hmap \<Rightarrow> (u128, postings) hmap" where
  "delta_replaced delta = concat (map (\<lambda>(k, v). case v of Replace ps \<Rightarrow> [(k, ps)] | Removed \<Rightarrow> []) delta)"

definition exact_index_save ::
    "'c lru \<Rightarrow> codec \<Rightarrow> string option \<Rightarrow> 'c exact_index \<times> files \<Rightarrow> index_error + 'c exact_index \<times> files" where
  "exact_index_save l cd path st =
     (let (idx, fs) = st in
      rbind (case path of Some p \<Rightarrow> Inr p | None \<Rightarrow> ok_or NoPathSet (x_path idx)) (\<lambda>target_path.
        if x_delta idx = [] \<and> x_snapshot idx \<noteq> None then Inr (idx, fs)
        else
          rbind (map_err Snapshot (case x_snapshot idx of
              Some snapshot \<Rightarrow> rbind (merge_streams cd snapshot (x_delta idx)) (\<lambda>merged_iter.
                write_exact_index_v3 (enc_postings cd) (collect_merged merged_iter))
            | None \<Rightarrow> write_exact_index_v3_from_hashmap (enc_postings cd) (delta_replaced (x_delta idx))))
            (\<lambda>content.
              let fs = hput target_path content fs in
              rbind (map_err Snapshot (snapshot_open content)) (\<lambda>r.
                Inr (idx\<lparr>x_snapshot := Some r, x_delta := [], x_cache := l_clear l (x_cache idx),
                       x_path := Some target_path\<rparr>, fs)))))"

section \<open>Reading the whole index\<close>

definition exact_index_is_empty :: "'c exact_index \<Rightarrow> bool" where
  "exact_index_is_empty idx \<longleftrightarrow> list_all (\<lambda>(_, e). e = Removed) (x_delta idx) \<and>
     (case x_snapshot idx of None \<Rightarrow> True | Some s \<Rightarrow> r_num_entries s = 0)"

definition exact_index_len :: "'c exact_index \<Rightarrow> nat" where
  "exact_index_len idx =
     (let snap = (case x_snapshot idx of None \<Rightarrow> 0 | Some s \<Rightarrow> unat (r_num_entries s));
          delta_added = length (filter (\<lambda>(_, e). e \<noteq> Removed) (x_delta idx));
          delta_removed = length (filter (\<lambda>(_, e). e = Removed) (x_delta idx)) in
      min (snap + delta_added) (2 ^ 64 - 1) - delta_removed)"

definition exact_index_segment_ids :: "codec \<Rightarrow> 'c exact_index \<Rightarrow> u64 set" where
  "exact_index_segment_ids cd idx =
     (case x_snapshot idx of None \<Rightarrow> {} | Some snap \<Rightarrow>
        \<Union> (set (map (\<lambda>res. case res of
            Inl e \<Rightarrow> {}
          | Inr (hash, bitmaps) \<Rightarrow> if hget (x_delta idx) hash \<noteq> None then {} else fst ` set bitmaps)
          (iter_entries (dec_postings cd) snap))))
     \<union> \<Union> (set (map (\<lambda>(_, e). case e of Replace ps \<Rightarrow> fst ` set ps | Removed \<Rightarrow> {}) (x_delta idx)))"

definition bind_path :: "string \<Rightarrow> 'c exact_index \<Rightarrow> 'c exact_index" where
  "bind_path path idx = idx\<lparr>x_path := Some path\<rparr>"

section \<open>The merge is the override of one map by another\<close>

fun delta_value :: "delta_entry option \<Rightarrow> postings option \<Rightarrow> postings option" where
  "delta_value (Some (Replace ps)) old = Some ps"
| "delta_value (Some Removed) old = None"
| "delta_value None old = old"

fun overlay :: "entry list \<Rightarrow> (u128 \<times> delta_entry) list \<Rightarrow> entry list" where
  "overlay [] [] = []"
| "overlay (e # es) [] = e # overlay es []"
| "overlay [] ((dh, d) # ds) =
     (case d of Replace ps \<Rightarrow> (dh, ps) # overlay [] ds | Removed \<Rightarrow> overlay [] ds)"
| "overlay (e # es) ((dh, d) # ds) =
     (if fst e < dh then e # overlay es ((dh, d) # ds)
      else if dh < fst e then
        (case d of Replace ps \<Rightarrow> (dh, ps) # overlay (e # es) ds | Removed \<Rightarrow> overlay (e # es) ds)
      else (case d of Replace ps \<Rightarrow> (dh, ps) # overlay es ds | Removed \<Rightarrow> overlay es ds))"

definition mi_rep :: "merged_iter \<Rightarrow> entry list \<Rightarrow> (u128 \<times> delta_entry) list \<Rightarrow> bool" where
  "mi_rep it es ds \<longleftrightarrow> drop (mi_delta_idx it) (mi_delta it) = ds \<and>
     (case mi_snap_buf it of None \<Rightarrow> es = [] \<and> mi_snap it = []
      | Some e \<Rightarrow> \<exists>r. es = e # r \<and> mi_snap it = map Inr r)"

lemma mi_rep_delta:
  assumes "mi_rep it es ((dh, d) # ds)"
  shows "mi_delta_idx it < length (mi_delta it)" "mi_delta it ! mi_delta_idx it = (dh, d)"
    "mi_rep (skip_delta it) es ds"
proof -
  from assms have d: "drop (mi_delta_idx it) (mi_delta it) = (dh, d) # ds" by (simp add: mi_rep_def)
  show l: "mi_delta_idx it < length (mi_delta it)" using d by (metis drop_all list.distinct(1) not_le)
  with d show "mi_delta it ! mi_delta_idx it = (dh, d)" by (simp add: Cons_nth_drop_Suc [symmetric])
  from d l assms show "mi_rep (skip_delta it) es ds"
    by (auto simp: mi_rep_def Cons_nth_drop_Suc [symmetric] split: option.splits)
qed

lemma mi_rep_nodelta: "mi_rep it es [] \<Longrightarrow> length (mi_delta it) \<le> mi_delta_idx it"
  by (simp add: mi_rep_def)

lemma mi_rep_entry:
  assumes "mi_rep it (e # es) ds"
  shows "mi_snap_buf it = Some e" "mi_rep (advance_snap it) es ds"
  using assms by (cases es; auto simp: mi_rep_def advance_snap_def split: option.splits)+

lemma mi_rep_noentry: "mi_rep it [] ds \<Longrightarrow> mi_snap_buf it = None"
  by (auto simp: mi_rep_def split: option.splits)

lemma collect_step:
  "merged_next it = (Some e, it') \<Longrightarrow> collect_merged it = e # collect_merged it'"
  "merged_next it = (None, it') \<Longrightarrow> collect_merged it = []"
  by (simp_all add: collect_merged.simps [of it])

lemma collect_same: "merged_next it = merged_next it2 \<Longrightarrow> collect_merged it = collect_merged it2"
  by (simp add: collect_merged.simps [of it] collect_merged.simps [of it2])

lemma collect_take:
  assumes "mi_rep it es ((dh, d) # ds)" "merged_next it2 = take_delta it dh"
  shows "collect_merged it2 = (case d of Replace ps \<Rightarrow> (dh, ps) # collect_merged (skip_delta it)
    | Removed \<Rightarrow> collect_merged (skip_delta it))"
proof (cases d)
  case (Replace ps)
  with assms(2) mi_rep_delta [OF assms(1)] show ?thesis by (simp add: take_delta_eq collect_step)
next
  case Removed
  with assms(2) mi_rep_delta [OF assms(1)] have "merged_next it2 = merged_next (skip_delta it)"
    by (simp add: take_delta_eq)
  from collect_same [OF this] Removed show ?thesis by simp
qed

lemma collect_overlay: "mi_rep it es ds \<Longrightarrow> collect_merged it = overlay es ds"
proof (induction es ds arbitrary: it rule: overlay.induct)
  case 1
  then have "merged_next it = (None, it)" by (simp add: merged_next_end mi_rep_nodelta mi_rep_noentry)
  then show ?case by (simp add: collect_step(2))
next
  case (2 e es)
  then have "merged_next it = (Some e, advance_snap it)"
    by (simp add: merged_next_end mi_rep_nodelta mi_rep_entry)
  with 2 show ?case by (simp add: collect_step mi_rep_entry)
next
  case (3 dh d ds)
  note rep = mi_rep_delta [OF "3.prems"]
  from rep mi_rep_noentry [OF "3.prems"] have "merged_next it = take_delta it dh"
    by (simp add: merged_next_delta)
  from collect_take [OF "3.prems" this] 3 rep(3) show ?case by (cases d) simp_all
next
  case (4 e es dh d ds)
  note rep = mi_rep_delta [OF "4.prems"] and ent = mi_rep_entry [OF "4.prems"]
  note next_eq = merged_next_delta [OF rep(1), of dh]
  consider "fst e < dh" | "dh < fst e" | "fst e = dh" by (meson linorder_less_linear)
  then show ?case
  proof cases
    case 1
    then have "merged_next it = (Some e, advance_snap it)" using next_eq rep(2) ent(1) by simp
    with 1 "4.IH"(1) ent(2) show ?thesis by (simp add: collect_step)
  next
    case 2
    then have "merged_next it = take_delta it dh" using next_eq rep(2) ent(1) by auto
    from collect_take [OF "4.prems" this] 2 "4.IH" rep(3) show ?thesis by (cases d) auto
  next
    case 3
    then have m: "merged_next it = take_delta (advance_snap it) dh" using next_eq rep(2) ent(1) by auto
    from collect_take [OF ent(2) m] mi_rep_delta(3) [OF ent(2)] 3 "4.IH" show ?thesis by (cases d) auto
  qed
qed

lemma overlay_keys: "x \<in> set (overlay es ds) \<Longrightarrow> fst x \<in> fst ` set es \<union> fst ` set ds"
  by (induction es ds rule: overlay.induct) (auto split: delta_entry.splits if_splits)

lemma overlay_above:
  "(\<And>k. k \<in> fst ` set es \<union> fst ` set ds \<Longrightarrow> h < k) \<Longrightarrow> list_all (\<lambda>x. h < fst x) (overlay es ds)"
  using overlay_keys by (fastforce simp: list_all_iff)

lemma sorted_fst_Cons:
  "sorted_wrt (<) (map fst (x # xs)) \<longleftrightarrow> list_all (\<lambda>y. fst x < fst y) xs \<and> sorted_wrt (<) (map fst xs)"
  by (auto simp: list_all_iff)

lemma above_None: "list_all (\<lambda>y. h < fst y) (xs :: ('k::linorder \<times> 'v) list) \<Longrightarrow> map_of xs h = None"
  by (auto simp: list_all_iff map_of_eq_None_iff)

lemma overlay_sorted:
  "sorted_wrt (<) (map fst es) \<Longrightarrow> sorted_wrt (<) (map fst ds) \<Longrightarrow> sorted_wrt (<) (map fst (overlay es ds))"
proof (induction es ds rule: overlay.induct)
  case (2 e es)
  then show ?case using overlay_above [of es "[]" "fst e"] by (auto simp: list_all_iff)
next
  case (3 dh d ds)
  then show ?case using overlay_above [of "[]" ds dh] by (cases d) (auto simp: list_all_iff)
next
  case (4 e es dh d ds)
  consider "fst e < dh" | "dh < fst e" | "fst e = dh" by (meson linorder_less_linear)
  then show ?case
  proof cases
    case 1
    then have "list_all (\<lambda>x. fst e < fst x) (overlay es ((dh, d) # ds))"
      using "4.prems" by (intro overlay_above) (auto intro: less_trans)
    with 1 4 show ?thesis by (auto simp: list_all_iff)
  next
    case 2
    then have "list_all (\<lambda>x. dh < fst x) (overlay (e # es) ds)"
      using "4.prems" by (intro overlay_above) (auto intro: less_trans)
    with 2 4 show ?thesis by (cases d) (auto simp: list_all_iff)
  next
    case 3
    then have "list_all (\<lambda>x. dh < fst x) (overlay es ds)"
      using "4.prems" by (intro overlay_above) auto
    with 3 4 show ?thesis by (cases d) (auto simp: list_all_iff)
  qed
qed simp

lemma overlay_map_of:
  "sorted_wrt (<) (map fst es) \<Longrightarrow> sorted_wrt (<) (map fst ds) \<Longrightarrow>
   map_of (overlay es ds) h = delta_value (map_of ds h) (map_of es h)"
proof (induction es ds rule: overlay.induct)
  case (2 e es)
  then show ?case by (cases e) auto
next
  case (3 dh d ds)
  have "map_of ds dh = None" using "3.prems" by (intro above_None) (auto simp: list_all_iff)
  with 3 show ?case by (cases d) auto
next
  case (4 e es dh d ds)
  obtain eh b where e: "e = (eh, b)" by (cases e)
  have n: "map_of ds dh = None" "map_of es eh = None"
    using "4.prems" by (auto intro!: above_None simp: list_all_iff e)
  consider "eh < dh" | "dh < eh" | "eh = dh" by (meson linorder_less_linear)
  then show ?case
  proof cases
    case 1
    then have "map_of ((dh, d) # ds) eh = None"
      using "4.prems" by (intro above_None) (auto simp: list_all_iff e intro: less_trans)
    moreover have "map_of (overlay es ((dh, d) # ds)) h = delta_value (map_of ((dh, d) # ds) h) (map_of es h)"
      using "4.IH"(1) "4.prems" 1 by (auto simp: e)
    ultimately show ?thesis using 1 less_imp_neq [OF 1] by (simp add: e)
  next
    case 2
    then have "map_of (e # es) dh = None"
      using "4.prems" by (intro above_None) (auto simp: list_all_iff e intro: less_trans)
    moreover have "map_of (overlay (e # es) ds) h = delta_value (map_of ds h) (map_of (e # es) h)"
      using "4.IH"(2,3) "4.prems" 2 by (cases d) (auto simp: e)
    moreover have "\<not> fst e < dh" "dh < fst e" using 2 by (auto simp: e)
    ultimately show ?thesis using n(1) by (cases "h = dh"; cases d) simp_all
  next
    case 3
    have "map_of (overlay es ds) h = delta_value (map_of ds h) (map_of es h)"
      using "4.IH"(4,5) "4.prems" 3 by (cases d) (auto simp: e)
    moreover have "\<not> fst e < dh" "\<not> dh < fst e" using 3 by (auto simp: e)
    ultimately show ?thesis using n 3 by (cases "h = dh"; cases d) (simp_all add: e)
  qed
qed simp

section \<open>The index as a map from hashes to postings\<close>

definition ix_map :: "entry list \<Rightarrow> 'c exact_index \<Rightarrow> u128 \<Rightarrow> postings option" where
  "ix_map es idx h = delta_value (hget (x_delta idx) h) (map_of es h)"

text \<open>The snapshot holds \<open>es\<close>, the delta has distinct keys, and the cache is part of the snapshot.\<close>

definition ix_rep :: "'c lru \<Rightarrow> codec \<Rightarrow> 'c exact_index \<Rightarrow> entry list \<Rightarrow> bool" where
  "ix_rep l cd idx es \<longleftrightarrow>
     (case x_snapshot idx of None \<Rightarrow> es = []
      | Some r \<Rightarrow> v3_holds (enc_postings cd) (dec_postings cd) r es) \<and>
     hwf (x_delta idx) \<and> l_peek l (x_cache idx) \<subseteq>\<^sub>m map_of es"

lemma ix_snapshot:
  assumes "ix_rep l cd idx es" "x_snapshot idx = Some r"
  shows "snapshot_get (dec_postings cd) r h = Inr (map_of es h)"
    "iter_entries (dec_postings cd) r = map Inr es"
  using assms v3.get_holds v3.iter_holds by (auto simp: ix_rep_def)

lemma ix_new [simp]: "lru_ok l \<Longrightarrow> ix_rep l cd (exact_index_new l) []" "ix_map [] (exact_index_new l) h = None"
  by (auto simp: ix_rep_def exact_index_new_def lru_ok_def map_le_def ix_map_def)

lemma lru_okD:
  assumes "lru_ok l"
  shows "fst (l_get l k c) = l_peek l c k" "l_peek l (snd (l_get l k c)) = l_peek l c"
    "l_peek l (l_put l k v c) \<subseteq>\<^sub>m (l_peek l c)(k \<mapsto> v)" "l_peek l (l_pop l k c) \<subseteq>\<^sub>m (l_peek l c)(k := None)"
    "l_peek l (l_clear l c) h = None"
  using assms by (simp_all add: lru_ok_def)

lemma map_le_upd: "m \<subseteq>\<^sub>m f(k \<mapsto> v) \<Longrightarrow> f \<subseteq>\<^sub>m g \<Longrightarrow> g k = Some v \<Longrightarrow> m \<subseteq>\<^sub>m g"
  by (force simp: map_le_def split: if_splits)

lemma map_le_del: "m \<subseteq>\<^sub>m f(k := None) \<Longrightarrow> f \<subseteq>\<^sub>m g \<Longrightarrow> m \<subseteq>\<^sub>m g"
  by (force simp: map_le_def split: if_splits)

lemma get_ok:
  assumes l: "lru_ok l" and r: "ix_rep l cd idx es"
  shows "fst (exact_index_get x l cd idx v) = ix_map es idx (ix_hash x v)"
    "ix_rep l cd (snd (exact_index_get x l cd idx v)) es"
    "ix_map es (snd (exact_index_get x l cd idx v)) = ix_map es idx"
proof -
  let ?h = "ix_hash x v"
  obtain res c where g: "l_get l ?h (x_cache idx) = (res, c)" by (cases "l_get l ?h (x_cache idx)")
  have c: "res = l_peek l (x_cache idx) ?h" "l_peek l c = l_peek l (x_cache idx)"
    using lru_okD(1,2) [OF l, of ?h "x_cache idx"] g by simp_all
  have le: "l_peek l (x_cache idx) \<subseteq>\<^sub>m map_of es" using r by (simp add: ix_rep_def)
  have hit: "map_of es ?h = Some ps" if "res = Some ps" for ps
    using le that c(1) by (simp add: map_le_def) (metis domI)
  have put: "l_peek l (l_put l ?h ps c) \<subseteq>\<^sub>m map_of es" if "map_of es ?h = Some ps" for ps
    using map_le_upd [OF lru_okD(3) [OF l]] le that c(2) by metis
  show "fst (exact_index_get x l cd idx v) = ix_map es idx (ix_hash x v)"
    "ix_rep l cd (snd (exact_index_get x l cd idx v)) es"
    "ix_map es (snd (exact_index_get x l cd idx v)) = ix_map es idx"
    using r hit put c(1) le [folded c(2)] ix_snapshot [OF r]
    by (auto simp: exact_index_get_def Let_def g ix_map_def ix_rep_def fun_eq_iff
        split: option.splits delta_entry.splits sum.splits)
qed

lemma delta_put_ok:
  assumes "lru_ok l" "ix_rep l cd idx es"
  shows "ix_rep l cd (delta_put l h e idx) es"
    "ix_map es (delta_put l h e idx) = (ix_map es idx)(h := delta_value (Some e) None)"
proof -
  have "l_peek l (l_pop l h (x_cache idx)) \<subseteq>\<^sub>m map_of es"
    using map_le_del [OF lru_okD(4) [OF assms(1)]] assms(2) by (simp add: ix_rep_def)
  with assms(2) show "ix_rep l cd (delta_put l h e idx) es" by (auto simp: ix_rep_def delta_put_def)
  show "ix_map es (delta_put l h e idx) = (ix_map es idx)(h := delta_value (Some e) None)"
    by (cases e) (auto simp: ix_map_def delta_put_def fun_eq_iff)
qed

lemma current_bitmaps_ok:
  "ix_rep l cd idx es \<Longrightarrow> current_bitmaps cd idx h = hdefault [] (ix_map es idx h)"
  using ix_snapshot [of l cd idx es]
  by (auto simp: current_bitmaps_def ix_map_def ix_rep_def hdefault_def split: option.splits delta_entry.splits)

text \<open>The rows a value has in a segment.\<close>

definition rows_in :: "u64 \<Rightarrow> postings option \<Rightarrow> bitmap" where
  "rows_in s ps = \<Union> {b. (s, b) \<in> set (hdefault [] ps)}"

lemma rows_in_simps [simp]: "rows_in s None = {}" "rows_in s (Some []) = {}"
  by (simp_all add: rows_in_def)

lemma rows_in_Cons [simp]: "rows_in s (Some ((t, b) # ps)) = (if s = t then b else {}) \<union> rows_in s (Some ps)"
  by (auto simp: rows_in_def)

lemma rows_in_add [simp]:
  "rows_in s (Some (add_bitmap t b ps)) = rows_in s (Some ps) \<union> (if s = t then b else {})"
proof (induction t b ps rule: add_bitmap.induct)
  case (2 seg b t c ps)
  then show ?case by (cases "t = seg") (simp_all add: Un_ac)
qed simp

lemma rows_in_default [simp]: "rows_in s (Some (hdefault [] ps)) = rows_in s ps"
  by (cases ps) simp_all

lemma merge_value_ok:
  assumes "lru_ok l" "ix_rep l cd idx es"
  shows "ix_rep l cd (merge_value x l cd seg vb idx) es"
    "rows_in s (ix_map es (merge_value x l cd seg vb idx) h) = rows_in s (ix_map es idx h) \<union>
       (if s = seg \<and> h = ix_hash x (fst vb) then snd vb else {})"
  by (simp_all add: merge_value_def Let_def delta_put_ok [OF assms] current_bitmaps_ok [OF assms(2)])

lemma merge_segment_ok:
  assumes "lru_ok l" "ix_rep l cd idx es"
  shows "ix_rep l cd (merge_segment x l cd idx seg bms) es \<and>
    rows_in s (ix_map es (merge_segment x l cd idx seg bms) h) = rows_in s (ix_map es idx h) \<union>
      (if s = seg then \<Union> {b. \<exists>v. (v, b) \<in> set bms \<and> ix_hash x v = h} else {})"
  using assms(2)
proof (induction bms arbitrary: idx)
  case Nil
  then show ?case by (simp add: merge_segment_def)
next
  case (Cons vb bms)
  from Cons.IH [OF merge_value_ok(1) [OF assms(1) Cons.prems, of x seg vb]]
    merge_value_ok(2) [OF assms(1) Cons.prems, of s x seg vb h]
  show ?case by (cases vb) (auto simp: merge_segment_def)
qed

section \<open>Purging\<close>

text \<open>What a purge makes of the postings of one value.\<close>

definition purge_value :: "u64 set \<Rightarrow> postings option \<Rightarrow> postings option" where
  "purge_value removed ps = (case ps of None \<Rightarrow> None | Some ps \<Rightarrow>
     if list_ex (\<lambda>(seg, _). seg \<in> removed) ps
     then delta_value (Some (replace_or_remove (filter (\<lambda>(seg, _). seg \<notin> removed) ps))) None
     else Some ps)"

definition mentions :: "u64 set \<Rightarrow> postings option \<Rightarrow> bool" where
  "mentions removed ps \<longleftrightarrow> (case ps of None \<Rightarrow> False | Some ps \<Rightarrow> list_ex (\<lambda>(seg, _). seg \<in> removed) ps)"

lemma mentions_iff: "mentions removed ps \<longleftrightarrow> (\<exists>s b. (s, b) \<in> set (hdefault [] ps) \<and> s \<in> removed)"
  by (auto simp: mentions_def list_ex_iff hdefault_def split: option.splits)

lemma mentions_some: "mentions {s} q \<longleftrightarrow> (\<exists>ps b. q = Some ps \<and> (s, b) \<in> set ps)"
  by (cases q) (auto simp: mentions_def list_ex_iff)

lemma mentions_None [simp]: "\<not> mentions removed None"
  by (simp add: mentions_def)

lemma purge_value_id: "\<not> mentions removed ps \<Longrightarrow> purge_value removed ps = ps"
  by (auto simp: purge_value_def mentions_def split: option.splits)

lemma purge_rows: "rows_in s (purge_value removed ps) = (if s \<in> removed then {} else rows_in s ps)"
  by (auto simp: purge_value_def rows_in_def replace_or_remove_def list_ex_iff hdefault_def filter_empty_conv
      split: option.splits)

lemma filter_same: "length (filter P xs) = length xs \<longleftrightarrow> list_all P xs"
  by (metis filter_True length_filter_less less_irrefl list_all_iff)

lemma purge_key_get:
  "hget (fst (purge_key removed k st)) h =
     (if h = k \<and> mentions removed (delta_value (hget (fst st) k) None)
      then Some (replace_or_remove (filter (\<lambda>(seg, _). seg \<notin> removed) (hdefault [] (delta_value (hget (fst st) k) None))))
      else hget (fst st) h)"
  "snd (purge_key removed k st) = (snd st \<or> mentions removed (delta_value (hget (fst st) k) None))"
  by (auto simp: purge_key_def Let_def mentions_def filter_same list_all_iff list_ex_iff split_beta
      split: option.splits delta_entry.splits)

text \<open>The lookup of a delta on which every key was purged once.\<close>

lemma purge_key_value:
  "delta_value (hget (fst (purge_key removed k st)) h) old =
     (if h = k \<and> hget (fst st) k \<noteq> None then purge_value removed (delta_value (hget (fst st) k) None)
      else delta_value (hget (fst st) h) old)"
  by (auto simp: purge_key_get purge_value_def mentions_def replace_or_remove_def
      split: option.splits delta_entry.splits elim!: delta_value.elims)

lemma purge_key_wf: "hwf (fst st) \<Longrightarrow> hwf (fst (purge_key removed k st))"
  by (auto simp: purge_key_def Let_def split: option.splits delta_entry.splits)

lemma purge_key_dom: "hget (fst (purge_key removed k st)) h = None \<longleftrightarrow> hget (fst st) h = None"
  by (auto simp: purge_key_def Let_def split: option.splits delta_entry.splits)

lemma purge_keys_get:
  "distinct ks \<Longrightarrow> delta_value (hget (fst (fold (purge_key removed) ks st)) h) old =
     (if h \<in> set ks \<and> hget (fst st) h \<noteq> None then purge_value removed (delta_value (hget (fst st) h) None)
      else delta_value (hget (fst st) h) old)"
proof (induction ks arbitrary: st)
  case (Cons k ks)
  let ?st = "purge_key removed k st"
  have "delta_value (hget (fst (fold (purge_key removed) ks ?st)) h) old =
     (if h \<in> set ks \<and> hget (fst ?st) h \<noteq> None then purge_value removed (delta_value (hget (fst ?st) h) None)
      else delta_value (hget (fst ?st) h) old)"
    using Cons by simp
  moreover have "hget (fst ?st) h = hget (fst st) h" if "h \<noteq> k" using that by (simp add: purge_key_get)
  ultimately show ?case
    using purge_key_value [of removed k st h old] Cons.prems
    by (cases "h = k"; cases "hget (fst st) h") simp_all
qed simp

lemma purge_keys_changed:
  "distinct ks \<Longrightarrow> snd (fold (purge_key removed) ks st) \<longleftrightarrow>
     snd st \<or> (\<exists>k\<in>set ks. mentions removed (delta_value (hget (fst st) k) None))"
proof (induction ks arbitrary: st)
  case (Cons k ks)
  have "hget (fst (purge_key removed k st)) j = hget (fst st) j" if "j \<in> set ks" for j
    using that Cons.prems by (auto simp: purge_key_get)
  with Cons.IH [of "purge_key removed k st"] Cons.prems show ?case
    by (simp add: purge_key_get(2) disj_assoc cong: bex_cong)
qed simp

lemma purge_keys_wf: "hwf (fst st) \<Longrightarrow> hwf (fst (fold (purge_key removed) ks st))"
  by (induction ks arbitrary: st) (simp_all add: purge_key_wf)

lemma fold_hput_get:
  "distinct (map fst m) \<Longrightarrow>
   hget (fold (\<lambda>(k, e). hput k e) m d) h = (case map_of m h of Some e \<Rightarrow> Some e | None \<Rightarrow> hget d h)"
proof (induction m arbitrary: d)
  case (Cons ke m)
  obtain k e where ke: "ke = (k, e)" by (cases ke)
  with Cons.prems have "map_of m k = None" by (simp add: map_of_eq_None_iff)
  with Cons.IH [of "hput k e d"] Cons.prems show ?case by (simp add: ke split: option.splits)
qed simp

lemma fold_hput_wf: "hwf d \<Longrightarrow> hwf (fold (\<lambda>(k, e). hput k e) m d)"
  by (induction m arbitrary: d) auto

lemma fst_set_hget: "h \<in> fst ` set d \<longleftrightarrow> hget d h \<noteq> None"
  by (simp add: hget_None_iff)

lemma purge_snapshot_of:
  fixes removed :: "u64 set"
  assumes "ix_rep l cd idx es" "x_snapshot idx = Some r"
  defines "ta \<equiv> purge_snapshot cd removed (x_delta idx) r"
  shows "distinct (map fst ta)"
    "map_of ta h = (if hget (x_delta idx) h = None \<and> mentions removed (map_of es h)
       then Some (replace_or_remove (filter (\<lambda>(seg, _). seg \<notin> removed) (hdefault [] (map_of es h)))) else None)"
proof -
  have d: "distinct (map fst es)" using assms(1,2) v3.holds_distinct by (auto simp: ix_rep_def)
  have c: "concat (map ((\<lambda>res. case res of Inl e \<Rightarrow> [] | Inr (h, b) \<Rightarrow>
      if A h then [] else if \<not> B b then [] else [(h, g b)]) \<circ> Inr) fs)
      = map (\<lambda>(h, b). (h, g b)) (filter (\<lambda>(h, b). \<not> A h \<and> B b) fs)"
    for A B g and fs :: "entry list"
    by (induction fs) (auto split: if_splits)
  have ta: "ta = map (\<lambda>(h, b). (h, replace_or_remove (filter (\<lambda>(seg, _). seg \<notin> removed) b)))
      (filter (\<lambda>(h, b). \<not> hget (x_delta idx) h \<noteq> None \<and> list_ex (\<lambda>(seg, _). seg \<in> removed) b) es)"
    unfolding ta_def purge_snapshot_def ix_snapshot(2) [OF assms(1,2)] map_map by (rule c)
  have k: "map fst ta = map fst (filter (\<lambda>(h, b). \<not> hget (x_delta idx) h \<noteq> None \<and> list_ex (\<lambda>(seg, _). seg \<in> removed) b) es)"
    by (simp add: ta case_prod_unfold comp_def)
  with d show "distinct (map fst ta)" by (simp add: distinct_map_filter)
  show "map_of ta h = (if hget (x_delta idx) h = None \<and> mentions removed (map_of es h)
       then Some (replace_or_remove (filter (\<lambda>(seg, _). seg \<notin> removed) (hdefault [] (map_of es h)))) else None)"
    using hget_map_val [of "\<lambda>h b. replace_or_remove (filter (\<lambda>(seg, _). seg \<notin> removed) b)"
        "filter (\<lambda>(h, b). \<not> hget (x_delta idx) h \<noteq> None \<and> list_ex (\<lambda>(seg, _). seg \<in> removed) b) es" h]
      hget_filter [of es _ h] d
    by (auto simp: ta hget_def hwf_def mentions_def split: option.splits)
qed

lemma purge_filtered:
  "purge_value removed (delta_value (Some (replace_or_remove (filter (\<lambda>(seg, _). seg \<notin> removed) ps))) None) =
   delta_value (Some (replace_or_remove (filter (\<lambda>(seg, _). seg \<notin> removed) ps))) None"
  by (auto simp: purge_value_def replace_or_remove_def list_ex_iff)

lemma purge_mentioned:
  "mentions removed ps \<Longrightarrow> purge_value removed ps =
   delta_value (Some (replace_or_remove (filter (\<lambda>(seg, _). seg \<notin> removed) (hdefault [] ps)))) None"
  by (auto simp: purge_value_def mentions_def split: option.splits)

lemma purge_segments_ok:
  assumes l: "lru_ok l" and r: "ix_rep l cd idx es" and p: "purge_segments l cd idx removed = (idx', changed)"
  shows "ix_rep l cd idx' es" "ix_map es idx' h = purge_value removed (ix_map es idx h)"
    "changed \<longleftrightarrow> (\<exists>h. mentions removed (ix_map es idx h))"
proof -
  define ta where "ta = (case x_snapshot idx of None \<Rightarrow> [] | Some snap \<Rightarrow> purge_snapshot cd removed (x_delta idx) snap)"
  define d where "d = fold (\<lambda>(hash, e). hput hash e) ta (x_delta idx)"
  have ta_ok: "distinct (map fst ta) \<and>
    (\<forall>h. map_of ta h = (if hget (x_delta idx) h = None \<and> mentions removed (map_of es h)
       then Some (replace_or_remove (filter (\<lambda>(seg, _). seg \<notin> removed) (hdefault [] (map_of es h)))) else None))"
  proof (cases "x_snapshot idx")
    case None
    with r have "es = []" by (simp add: ix_rep_def)
    with None show ?thesis by (simp add: ta_def mentions_def)
  next
    case (Some snap)
    from purge_snapshot_of [OF r Some] Some show ?thesis by (simp add: ta_def)
  qed
  have wf: "hwf d" using r by (simp add: d_def fold_hput_wf ix_rep_def)
  then have dist: "distinct (map fst d)" by (simp add: hwf_def)
  have get: "hget d h = (if hget (x_delta idx) h = None \<and> mentions removed (map_of es h)
       then Some (replace_or_remove (filter (\<lambda>(seg, _). seg \<notin> removed) (hdefault [] (map_of es h))))
       else hget (x_delta idx) h)" for h
    using ta_ok by (simp add: d_def fold_hput_get)
  let ?res = "fold (purge_key removed) (map fst d) (d, ta \<noteq> [])"
  have idx': "idx' = idx\<lparr>x_delta := fst ?res,
      x_cache := (if changed then l_clear l (x_cache idx) else x_cache idx)\<rparr>" "changed = snd ?res"
    using p by (auto simp: purge_segments_def Let_def ta_def [symmetric] d_def [symmetric] split: prod.splits)
  show "ix_rep l cd idx' es"
    using r purge_keys_wf [of "(d, ta \<noteq> [])"] wf lru_okD(5) [OF l] by (auto simp: ix_rep_def idx' map_le_def)
  show "ix_map es idx' h = purge_value removed (ix_map es idx h)"
  proof -
    have v: "ix_map es idx' h = (if hget d h \<noteq> None then purge_value removed (delta_value (hget d h) None)
        else delta_value (hget d h) (map_of es h))"
      using purge_keys_get [OF dist, of removed "(d, ta \<noteq> [])" h "map_of es h"] fst_set_hget [of h d]
      by (simp add: ix_map_def idx'(1))
    show ?thesis
    proof (cases "hget (x_delta idx) h")
      case None
      then show ?thesis
        unfolding v by (cases "mentions removed (map_of es h)")
          (simp_all add: get ix_map_def purge_filtered purge_mentioned purge_value_id)
    next
      case (Some e)
      then show ?thesis unfolding v by (cases e) (simp_all add: get ix_map_def)
    qed
  qed
  have nm: "\<not> mentions removed (delta_value (Some (replace_or_remove (filter (\<lambda>(seg, _). seg \<notin> removed) ps))) None)"
    for ps by (auto simp: mentions_def replace_or_remove_def list_ex_iff)
  have val: "mentions removed (delta_value (hget d k) None) \<longleftrightarrow>
      mentions removed (delta_value (hget (x_delta idx) k) None)" for k
    by (auto simp: get nm)
  have ch: "changed \<longleftrightarrow> ta \<noteq> [] \<or> (\<exists>k. mentions removed (delta_value (hget (x_delta idx) k) None))"
  proof -
    have k: "k \<in> set (map fst d)" if "mentions removed (delta_value (hget d k) None)" for k
      using that fst_set_hget [of k d] by (cases "hget d k") simp_all
    have "changed \<longleftrightarrow> ta \<noteq> [] \<or> (\<exists>k\<in>set (map fst d). mentions removed (delta_value (hget d k) None))"
      unfolding idx'(2) purge_keys_changed [OF dist] fst_conv snd_conv ..
    then show ?thesis using k unfolding val by blast
  qed
  have tane: "ta \<noteq> [] \<longleftrightarrow> (\<exists>h. hget (x_delta idx) h = None \<and> mentions removed (map_of es h))"
  proof
    assume "ta \<noteq> []"
    then obtain k e r where "ta = (k, e) # r" by (metis list.exhaust surj_pair)
    then have "map_of ta k = Some e" by simp
    with ta_ok show "\<exists>h. hget (x_delta idx) h = None \<and> mentions removed (map_of es h)"
      by (metis option.distinct(1))
  next
    assume "\<exists>h. hget (x_delta idx) h = None \<and> mentions removed (map_of es h)"
    with ta_ok obtain h where "map_of ta h \<noteq> None" by auto
    then show "ta \<noteq> []" by auto
  qed
  have "mentions removed (ix_map es idx h) \<longleftrightarrow> (hget (x_delta idx) h = None \<and> mentions removed (map_of es h))
      \<or> mentions removed (delta_value (hget (x_delta idx) h) None)" for h
    by (cases "hget (x_delta idx) h"; cases "the (hget (x_delta idx) h)") (auto simp: ix_map_def mentions_def)
  with ch tane show "changed \<longleftrightarrow> (\<exists>h. mentions removed (ix_map es idx h))" by blast
qed

section \<open>Saving and reopening\<close>

text \<open>The entries of the snapshot a save writes.\<close>

definition saved_entries :: "entry list \<Rightarrow> 'c exact_index \<Rightarrow> entry list" where
  "saved_entries es idx = overlay es (sort_key fst (x_delta idx))"

lemma sort_key_strict: "hwf m \<Longrightarrow> sorted_wrt (<) (map fst (sort_key fst (m :: ('k::linorder \<times> 'v) list)))"
  by (simp add: hwf_def strict_sorted_iff distinct_map)

lemma hwf_inj: "hwf m \<Longrightarrow> inj_on fst (set m)"
  by (simp add: hwf_def distinct_map)

lemma map_of_sort_key: "hwf m \<Longrightarrow> map_of (sort_key fst (m :: ('k::linorder \<times> 'v) list)) h = hget m h"
proof -
  assume wf: "hwf m"
  then have "distinct (map fst (sort_key fst m))" by (simp add: hwf_def distinct_map)
  then have "map_of (sort_key fst m) h = Some v \<longleftrightarrow> hget m h = Some v" for v
    using wf by (simp add: hget_Some_iff)
  then show ?thesis by (cases "hget m h"; cases "map_of (sort_key fst m) h") auto
qed

lemma delta_replaced_simps [simp]:
  "delta_replaced [] = []"
  "delta_replaced ((k, Replace ps) # d) = (k, ps) # delta_replaced d"
  "delta_replaced ((k, Removed) # d) = delta_replaced d"
  by (simp_all add: delta_replaced_def)

lemma overlay_Nil: "overlay [] ds = delta_replaced ds"
  by (induction ds) (auto split: delta_entry.splits)

lemma delta_replaced_set: "(k, ps) \<in> set (delta_replaced d) \<longleftrightarrow> (k, Replace ps) \<in> set d"
proof (induction d)
  case (Cons x d)
  then show ?case by (cases x; cases "snd x") auto
qed simp

lemma delta_replaced_distinct: "hwf d \<Longrightarrow> distinct (map fst (delta_replaced d))"
proof (induction d)
  case (Cons x d)
  have "fst ` set (delta_replaced d) \<subseteq> fst ` set d" using delta_replaced_set by force
  with Cons show ?case by (cases x; cases "snd x") (auto simp: hwf_def)
qed simp

lemma saved_no_snapshot:
  assumes "hwf (x_delta idx)"
  shows "sort_key fst (delta_replaced (x_delta idx)) = saved_entries [] idx"
proof (rule map_sorted_distinct_set_unique)
  let ?a = "sort_key fst (delta_replaced (x_delta idx))" and ?b = "saved_entries [] idx"
  note d = delta_replaced_distinct [OF assms]
  have s: "sorted_wrt (<) (map fst ?b)"
    unfolding saved_entries_def by (rule overlay_sorted) (simp_all add: sort_key_strict assms)
  show eq: "set ?a = set ?b"
    using delta_replaced_set by (auto simp: saved_entries_def overlay_Nil)
  show "inj_on fst (set ?a \<union> set ?b)" using d by (simp add: eq [symmetric] distinct_map)
  show "distinct (map fst ?a)" using d by (simp add: distinct_map)
  show "sorted (map fst ?b)" "distinct (map fst ?b)" using s by (simp_all add: strict_sorted_iff)
qed simp

lemma saved_sorted:
  assumes "ix_rep l cd idx es"
  shows "sorted_wrt (<) (map fst (saved_entries es idx))" "map_of (saved_entries es idx) = ix_map es idx"
proof -
  have es: "sorted_wrt (<) (map fst es)"
    using assms v3.holds_sorted by (auto simp: ix_rep_def split: option.splits)
  have wf: "hwf (x_delta idx)" using assms by (simp add: ix_rep_def)
  show "sorted_wrt (<) (map fst (saved_entries es idx))" "map_of (saved_entries es idx) = ix_map es idx"
    using overlay_sorted [OF es sort_key_strict [OF wf]] overlay_map_of [OF es sort_key_strict [OF wf]]
    by (simp_all add: saved_entries_def ix_map_def fun_eq_iff map_of_sort_key wf)
qed

lemma first_error_ok [simp]: "first_error (map Inr es) = None"
  by (induction es) simp_all

lemma merge_streams_ok:
  assumes "ix_rep l cd idx es" "x_snapshot idx = Some r"
  shows "\<exists>it. merge_streams cd r (x_delta idx) = Inr it \<and> collect_merged it = saved_entries es idx"
proof -
  let ?it = "\<lparr>mi_snap = map Inr es, mi_delta = sort_key fst (x_delta idx), mi_delta_idx = 0, mi_snap_buf = None\<rparr>"
  have "mi_rep (advance_snap ?it) es (sort_key fst (x_delta idx))"
    by (cases es) (auto simp: mi_rep_def advance_snap_def)
  then show ?thesis
    by (auto simp: merge_streams_def ix_snapshot(2) [OF assms] saved_entries_def collect_overlay)
qed

lemma open_v3_file:
  assumes "v3_fits (enc_postings cd) es" "hget fs path = Some (v3_file (enc_postings cd) es)"
  shows "exact_index_open x l cd fs path = Inr \<lparr>x_snapshot = Some (v3_reader (enc_postings cd) es),
    x_path = Some path, x_delta = [], x_cache = l_new l\<rparr>"
proof -
  have t: "take 8 (v3_file (enc_postings cd) es) = ''BTXI'' @ [byte 3, CHR 0x00, CHR 0x00, CHR 0x00]"
    by (simp add: v3_file_def v3_header_write_def EXACT_IDX_MAGIC_def)
  show ?thesis
    by (simp add: exact_index_open_def assms(2) length_v3_file t EXACT_IDX_MAGIC_def EXACT_IDX_VERSION_V3_def
        v3_open [OF assms(1)])
qed

lemma save_ok:
  assumes l: "lru_ok l" and r: "ix_rep l cd idx es"
    and ok: "v3_ok (enc_postings cd) (dec_postings cd) (saved_entries es idx)"
    and t: "path = Some target \<or> path = None \<and> x_path idx = Some target"
    and dirty: "x_delta idx \<noteq> [] \<or> x_snapshot idx = None"
  shows "\<exists>idx' fs'. exact_index_save l cd path (idx, fs) = Inr (idx', fs') \<and>
    fs' = hput target (v3_file (enc_postings cd) (saved_entries es idx)) fs \<and>
    x_delta idx' = [] \<and> x_path idx' = Some target \<and>
    ix_rep l cd idx' (saved_entries es idx) \<and> ix_map (saved_entries es idx) idx' = ix_map es idx"
proof -
  let ?es = "saved_entries es idx"
  let ?idx = "idx\<lparr>x_snapshot := Some (v3_reader (enc_postings cd) ?es), x_delta := [],
    x_cache := l_clear l (x_cache idx), x_path := Some target\<rparr>"
  have f: "v3_fits (enc_postings cd) ?es" using ok by (simp add: v3_ok_def)
  have w: "(case x_snapshot idx of
      Some snapshot \<Rightarrow> rbind (merge_streams cd snapshot (x_delta idx)) (\<lambda>it.
        write_exact_index_v3 (enc_postings cd) (collect_merged it))
    | None \<Rightarrow> write_exact_index_v3_from_hashmap (enc_postings cd) (delta_replaced (x_delta idx)))
    = Inr (v3_file (enc_postings cd) ?es)"
  proof (cases "x_snapshot idx")
    case None
    with r have "es = []" "hwf (x_delta idx)" by (simp_all add: ix_rep_def)
    with None f show ?thesis
      by (simp add: write_exact_index_v3_from_hashmap_def saved_no_snapshot v3_write_eq)
  next
    case (Some snap)
    with merge_streams_ok [OF r Some] f show ?thesis by (auto simp: v3_write_eq)
  qed
  have "exact_index_save l cd path (idx, fs) = Inr (?idx, hput target (v3_file (enc_postings cd) ?es) fs)"
  proof -
    have p: "(case path of Some p \<Rightarrow> Inr p | None \<Rightarrow> ok_or NoPathSet (x_path idx)) = Inr target"
      and d: "\<not> (x_delta idx = [] \<and> x_snapshot idx \<noteq> None)"
      using t dirty by auto
    show ?thesis unfolding exact_index_save_def Let_def prod.case w p rbind.simps if_not_P [OF d]
      by (simp add: v3_open [OF f])
  qed
  moreover have "ix_rep l cd ?idx ?es"
    using ok by (simp add: ix_rep_def v3_holds_def map_le_def dom_def lru_okD(5) [OF l])
  moreover have "ix_map ?es ?idx = ix_map es idx"
    using saved_sorted(2) [OF r] by (simp add: ix_map_def fun_eq_iff)
  ultimately show ?thesis by auto
qed

lemma segment_ids_ok:
  assumes "ix_rep l cd idx es"
  shows "exact_index_segment_ids cd idx = {s. \<exists>h ps b. ix_map es idx h = Some ps \<and> (s, b) \<in> set ps}"
proof -
  have d: "distinct (map fst es)"
    using assms v3.holds_distinct by (auto simp: ix_rep_def split: option.splits)
  have wf: "hwf (x_delta idx)" using assms by (simp add: ix_rep_def)
  have a: "(case x_snapshot idx of None \<Rightarrow> {} | Some snap \<Rightarrow>
        \<Union> (set (map (\<lambda>res. case res of Inl e \<Rightarrow> {}
          | Inr (hash, bitmaps) \<Rightarrow> if hget (x_delta idx) hash \<noteq> None then {} else fst ` set bitmaps)
          (iter_entries (dec_postings cd) snap))))
    = {s. \<exists>h ps b. (h, ps) \<in> set es \<and> hget (x_delta idx) h = None \<and> (s, b) \<in> set ps}"
    using assms ix_snapshot(2) [OF assms]
    by (auto simp: ix_rep_def image_iff split: option.splits if_splits) (force+)?
  have b: "\<Union> (set (map (\<lambda>(_, e). case e of Replace ps \<Rightarrow> fst ` set ps | Removed \<Rightarrow> {}) (x_delta idx)))
    = {s. \<exists>h ps b. (h, Replace ps) \<in> set (x_delta idx) \<and> (s, b) \<in> set ps}"
    by (auto split: delta_entry.splits) force+
  have c: "ix_map es idx h = Some ps \<longleftrightarrow>
      (h, ps) \<in> set es \<and> hget (x_delta idx) h = None \<or> hget (x_delta idx) h = Some (Replace ps)" for h ps
  proof (cases "hget (x_delta idx) h")
    case (Some e)
    then show ?thesis by (cases e) (simp_all add: ix_map_def)
  qed (simp add: ix_map_def d)
  show ?thesis unfolding exact_index_segment_ids_def a b c hget_Some_iff [OF wf] by blast
qed

section \<open>Migration of old files\<close>

text \<open>\<^verbatim>\<open>exact_index_v3/migrate.rs\<close>: \<open>None\<close> when the file was already v3 (nothing is written),
  else the number of entries reported and the file system after the save.\<close>

datatype migrate_error = OpenFailed | IndexFailed index_error | PostOpenFailed format_error

definition migrate_exact_index_to_v3 ::
    "ext \<Rightarrow> 'c lru \<Rightarrow> codec \<Rightarrow> files \<Rightarrow> string \<Rightarrow> migrate_error + (nat \<times> bool) \<times> files" where
  "migrate_exact_index_to_v3 x l cd fs path =
     rbind (ok_or OpenFailed (hget fs path)) (\<lambda>content.
       let n = min 5 (length content) in
       if 5 \<le> n \<and> take 4 content = EXACT_IDX_MAGIC \<and> of_nat (bval (content ! 4)) = EXACT_IDX_VERSION_V3
       then Inr ((0, True), fs)
       else rbind (map_err IndexFailed (exact_index_open x l cd fs path)) (\<lambda>idx.
         let num_entries = exact_index_len idx in
         rbind (map_err IndexFailed (exact_index_save l cd (Some path) (idx, fs))) (\<lambda>(idx, fs).
           rbind (map_err PostOpenFailed (snapshot_open (hdefault [] (hget fs path)))) (\<lambda>_.
             Inr ((num_entries, False), fs)))))"

text \<open>One entry of the loop of \<open>load_v1_into_delta\<close>.\<close>

definition v1_step :: "ext \<Rightarrow> string \<Rightarrow> postings \<Rightarrow> (u128, delta_entry) hmap \<Rightarrow> (u128, delta_entry) hmap" where
  "v1_step x v ps d = (case hget d (ix_hash x v) of
      Some (Replace entry) \<Rightarrow>
        hput (ix_hash x v) (Replace (fold (\<lambda>(seg, bitmap). add_bitmap seg bitmap) ps entry)) d
    | _ \<Rightarrow> hput (ix_hash x v) (Replace ps) d)"

lemma load_v1_Nil: "load_v1_into_delta x [] d = d"
  by (simp add: load_v1_into_delta_def)

lemma load_v1_Cons: "load_v1_into_delta x ((v, ps) # raw) d = load_v1_into_delta x raw (v1_step x v ps d)"
  by (simp add: load_v1_into_delta_def Let_def v1_step_def)

lemma v1_step_wf: "hwf d \<Longrightarrow> hwf (v1_step x v ps d)"
  by (auto simp: v1_step_def split: option.splits delta_entry.splits)

lemma load_v1_wf: "hwf d \<Longrightarrow> hwf (load_v1_into_delta x raw d)"
proof (induction raw arbitrary: d)
  case (Cons vp raw)
  then show ?case by (cases vp) (simp add: load_v1_Cons v1_step_wf)
qed (simp add: load_v1_Nil)

lemma rows_in_fold_add:
  "rows_in s (Some (fold (\<lambda>(seg, b). add_bitmap seg b) bs ps)) = rows_in s (Some ps) \<union> rows_in s (Some bs)"
proof (induction bs arbitrary: ps)
  case (Cons sb bs)
  then show ?case by (cases sb) (simp add: Un_ac)
qed simp

definition no_removed :: "(u128, delta_entry) hmap \<Rightarrow> bool" where
  "no_removed d \<longleftrightarrow> (\<forall>h. hget d h \<noteq> Some Removed)"

lemma v1_step_rows:
  assumes "no_removed d"
  shows "no_removed (v1_step x v ps d)"
    "rows_in s (delta_value (hget (v1_step x v ps d) h) None) =
      rows_in s (delta_value (hget d h) None) \<union> (if h = ix_hash x v then rows_in s (Some ps) else {})"
  using assms
  by (auto simp: v1_step_def no_removed_def rows_in_fold_add split: option.splits delta_entry.splits)

lemma load_v1_rows:
  "no_removed d \<Longrightarrow> no_removed (load_v1_into_delta x raw d) \<and>
   rows_in s (delta_value (hget (load_v1_into_delta x raw d) h) None) =
     rows_in s (delta_value (hget d h) None) \<union> \<Union> {rows_in s (Some ps) | v ps. (v, ps) \<in> set raw \<and> ix_hash x v = h}"
proof (induction raw arbitrary: d)
  case Nil
  then show ?case by (simp add: load_v1_Nil)
next
  case (Cons vp raw)
  obtain v ps where vp: "vp = (v, ps)" by (cases vp)
  have u: "\<Union> {rows_in s (Some ps') | v' ps'. (v', ps') \<in> set ((v, ps) # raw) \<and> ix_hash x v' = h} =
      (if h = ix_hash x v then rows_in s (Some ps) else {}) \<union>
      \<Union> {rows_in s (Some ps') | v' ps'. (v', ps') \<in> set raw \<and> ix_hash x v' = h}"
    by auto
  show ?case unfolding vp load_v1_Cons u
    using Cons.IH [OF v1_step_rows(1) [OF Cons.prems]] v1_step_rows(2) [OF Cons.prems]
    by (simp add: Un_assoc)
qed

section \<open>A codec and a cache\<close>

text \<open>Instances of the parameters: a little-endian encoding of postings, and a cache that
  empties itself when it is full.\<close>

definition plain_enc :: "postings \<Rightarrow> bytes" where
  "plain_enc ps = concat (map (\<lambda>(s, b). le64 s @ le64 (of_nat (card b)) @ concat (map le32 (sorted_list_of_set b))) ps)"

function plain_dec :: "bytes \<Rightarrow> postings option" where
  "plain_dec bs = (if bs = [] then Some [] else
     let n = unat (from_le64 (take 8 (drop 8 bs)));
         b = set (map (\<lambda>i. from_le32 (take 4 (drop (16 + 4 * i) bs))) [0..<n]) in
     case plain_dec (drop (16 + 4 * n) bs) of
       None \<Rightarrow> None | Some ps \<Rightarrow> Some ((from_le64 (take 8 bs), b) # ps))"
  by pat_completeness auto
termination by (relation "measure length") auto

declare plain_dec.simps [simp del]

definition plain_codec :: codec where
  "plain_codec = \<lparr>enc_postings = plain_enc, dec_postings = plain_dec, dec_v2 = (\<lambda>_. None),
     dec_v1 = (\<lambda>bs. Some [(bs, [(1, {2})])])\<rparr>"

definition small_lru :: "(u128, postings) hmap lru" where
  "small_lru = \<lparr>l_new = [], l_peek = hget, l_get = (\<lambda>k c. (hget c k, c)),
     l_put = (\<lambda>k v c. if length c < 2 then hput k v c else [(k, v)]), l_pop = hdel, l_clear = (\<lambda>_. [])\<rparr>"

lemma small_lru_ok: "lru_ok small_lru"
  by (auto simp: lru_ok_def small_lru_def map_le_def hget_Cons split: if_splits)

lemma le32_chunks:
  "i < length ws \<Longrightarrow> take 4 (drop (4 * i) (concat (map le32 ws) @ r)) = le32 (ws ! i)"
proof (induction ws arbitrary: i)
  case (Cons w ws)
  then show ?case by (cases i) simp_all
qed simp

lemma length_le32s [simp]: "length (concat (map le32 ws)) = 4 * length ws"
  by (induction ws) simp_all

lemma card_u32: "card (b :: bitmap) \<le> 2 ^ 32"
  using card_mono [OF finite subset_UNIV, of b] by (simp add: card_word)

lemma plain_dec_enc [simp]: "plain_dec (plain_enc ps) = Some ps"
proof (induction ps)
  case Nil
  then show ?case by (simp add: plain_enc_def plain_dec.simps [of "[]"])
next
  case (Cons sb ps)
  obtain s b where sb: "sb = (s, b)" by (cases sb)
  let ?ws = "sorted_list_of_set b"
  let ?bs = "le64 s @ le64 (of_nat (card b)) @ concat (map le32 ?ws) @ plain_enc ps"
  have e: "plain_enc (sb # ps) = ?bs" by (simp add: plain_enc_def sb)
  have n: "unat (of_nat (card b) :: u64) = card b"
    using card_u32 [of b] by (simp add: unat_of_nat take_bit_nat_eq_self)
  have l: "length ?ws = card b" by (simp add: length_sorted_list_of_set)
  have "map (\<lambda>i. from_le32 (take 4 (drop (16 + 4 * i) ?bs))) [0..<card b] = ?ws"
    by (rule nth_equalityI) (simp_all add: l le32_chunks [where r = "[]", simplified])
  then have "set (map (\<lambda>i. from_le32 (take 4 (drop (16 + 4 * i) ?bs))) [0..<card b]) = b" by simp
  moreover have "drop (16 + 4 * card b) ?bs = plain_enc ps" by (simp add: l)
  moreover have "?bs \<noteq> []" by (metis append_is_Nil_conv length_le(2) length_0_conv zero_neq_numeral)
  ultimately show ?case
    unfolding e plain_dec.simps [of ?bs] using Cons.IH n by (simp add: Let_def sb)
qed


section \<open>The index refines a map\<close>

text \<open>Operations of a caller and what they do to the map from hashes to postings.\<close>

datatype ix_op = Get string | Ins string postings | Mrg u64 "(string, bitmap) hmap" | Prg "u64 set" | Sav

fun ix_step :: "ext \<Rightarrow> 'c lru \<Rightarrow> codec \<Rightarrow> ix_op \<Rightarrow> 'c exact_index \<times> files \<Rightarrow> index_error + 'c exact_index \<times> files" where
  "ix_step x l cd (Get v) (idx, fs) = Inr (snd (exact_index_get x l cd idx v), fs)"
| "ix_step x l cd (Ins v ps) (idx, fs) = Inr (exact_index_insert x l idx v ps, fs)"
| "ix_step x l cd (Mrg seg bms) (idx, fs) = Inr (merge_segment x l cd idx seg bms, fs)"
| "ix_step x l cd (Prg removed) (idx, fs) = Inr (fst (purge_segments l cd idx removed), fs)"
| "ix_step x l cd Sav (idx, fs) = exact_index_save l cd None (idx, fs)"

definition ix_run where
  "ix_run x l cd ops st = fold_r (ix_step x l cd) ops st"

definition merge_spec :: "ext \<Rightarrow> u64 \<Rightarrow> string \<times> bitmap \<Rightarrow> (u128 \<Rightarrow> postings option) \<Rightarrow> u128 \<Rightarrow> postings option" where
  "merge_spec x seg vb m = m(ix_hash x (fst vb) := Some (add_bitmap seg (snd vb) (hdefault [] (m (ix_hash x (fst vb))))))"

fun ix_spec :: "ext \<Rightarrow> ix_op \<Rightarrow> (u128 \<Rightarrow> postings option) \<Rightarrow> u128 \<Rightarrow> postings option" where
  "ix_spec x (Get v) m = m"
| "ix_spec x (Ins v ps) m = m(ix_hash x v := Some ps)"
| "ix_spec x (Mrg seg bms) m = fold (merge_spec x seg) bms m"
| "ix_spec x (Prg removed) m = (\<lambda>h. purge_value removed (m h))"
| "ix_spec x Sav m = m"

text \<open>A map that fits a snapshot file.\<close>

definition saveable :: "codec \<Rightarrow> (u128 \<Rightarrow> postings option) \<Rightarrow> bool" where
  "saveable cd m \<longleftrightarrow> (\<exists>es. map_of es = m \<and> v3_ok (enc_postings cd) (dec_postings cd) es)"

fun saves_fit :: "ext \<Rightarrow> codec \<Rightarrow> ix_op list \<Rightarrow> (u128 \<Rightarrow> postings option) \<Rightarrow> bool" where
  "saves_fit x cd [] m = True"
| "saves_fit x cd (op # ops) m \<longleftrightarrow> (op = Sav \<longrightarrow> saveable cd m) \<and> saves_fit x cd ops (ix_spec x op m)"

lemma sorted_map_of_unique:
  assumes "sorted_wrt (<) (map fst es)" "sorted_wrt (<) (map fst fs)" "map_of es = map_of (fs :: ('k::linorder \<times> 'v) list)"
  shows "es = fs"
proof (rule map_sorted_distinct_set_unique)
  have d: "distinct (map fst es)" "distinct (map fst fs)" using assms(1,2) by (simp_all add: strict_sorted_iff)
  have "kv \<in> set es \<longleftrightarrow> kv \<in> set fs" for kv
    using map_of_eq_Some_iff [OF d(1), of "fst kv" "snd kv"] map_of_eq_Some_iff [OF d(2), of "fst kv" "snd kv"]
    by (simp only: assms(3) prod.collapse)
  then show eq: "set es = set fs" by blast
  show "inj_on fst (set es \<union> set fs)" using d by (simp add: eq distinct_map)
qed (use assms in \<open>simp_all add: strict_sorted_iff\<close>)

lemma saveable_entries:
  assumes "ix_rep l cd idx es" "saveable cd (ix_map es idx)"
  shows "v3_ok (enc_postings cd) (dec_postings cd) (saved_entries es idx)"
proof -
  from assms(2) obtain fs where fs: "map_of fs = ix_map es idx" "v3_ok (enc_postings cd) (dec_postings cd) fs"
    by (auto simp: saveable_def)
  then have "sorted_wrt (<) (map fst fs)" by (simp add: v3_ok_def)
  with fs(1) saved_sorted [OF assms(1)] have "saved_entries es idx = fs"
    by (intro sorted_map_of_unique) simp_all
  with fs(2) show ?thesis by simp
qed

lemma merge_segment_spec:
  assumes "lru_ok l" "ix_rep l cd idx es"
  shows "ix_map es (merge_segment x l cd idx seg bms) = fold (merge_spec x seg) bms (ix_map es idx)"
  using assms(2)
proof (induction bms arbitrary: idx)
  case (Cons vb bms)
  have "ix_map es (merge_value x l cd seg vb idx) = merge_spec x seg vb (ix_map es idx)"
    by (simp add: merge_value_def Let_def delta_put_ok(2) [OF assms(1) Cons.prems]
        current_bitmaps_ok [OF Cons.prems] merge_spec_def)
  with Cons.IH [OF merge_value_ok(1) [OF assms(1) Cons.prems, of x seg vb]] show ?case
    by (simp add: merge_segment_def)
qed (simp add: merge_segment_def)

text \<open>One operation: the representation survives (with other snapshot entries after a save) and
  the map changes as specified.\<close>

definition ix_sim :: "'c lru \<Rightarrow> codec \<Rightarrow> 'c exact_index \<Rightarrow> (u128 \<Rightarrow> postings option) \<Rightarrow> bool" where
  "ix_sim l cd idx m \<longleftrightarrow> x_path idx \<noteq> None \<and> (\<exists>es. ix_rep l cd idx es \<and> ix_map es idx = m)"

lemma get_path [simp]: "x_path (snd (exact_index_get x l cd idx v)) = x_path idx"
  by (auto simp: exact_index_get_def Let_def split: option.splits delta_entry.splits prod.splits sum.splits)

lemma merge_path [simp]: "x_path (merge_segment x l cd idx seg bms) = x_path idx"
  by (induction bms arbitrary: idx) (simp_all add: merge_segment_def merge_value_def delta_put_def Let_def)

lemma purge_path [simp]: "x_path (fst (purge_segments l cd idx removed)) = x_path idx"
  by (simp add: purge_segments_def Let_def split_beta)

lemma ix_step_sim:
  assumes l: "lru_ok l" and sim: "ix_sim l cd idx m" and fit: "op = Sav \<longrightarrow> saveable cd m"
  shows "\<exists>idx' fs'. ix_step x l cd op (idx, fs) = Inr (idx', fs') \<and> ix_sim l cd idx' (ix_spec x op m)"
proof -
  obtain es p where r: "ix_rep l cd idx es" "ix_map es idx = m" and p: "x_path idx = Some p"
    using sim by (auto simp: ix_sim_def)
  show ?thesis
  proof (cases op)
    case (Get v)
    with get_ok(2,3) [OF l r(1), of x v] r p show ?thesis by (auto simp: ix_sim_def)
  next
    case (Ins v ps)
    with delta_put_ok [OF l r(1), of "ix_hash x v" "Replace ps"] r p show ?thesis
      by (auto simp: ix_sim_def exact_index_insert_def delta_put_def)
  next
    case (Mrg seg bms)
    with merge_segment_ok [OF l r(1), of x seg bms] merge_segment_spec [OF l r(1), of x seg bms] r p
    show ?thesis by (auto simp: ix_sim_def)
  next
    case (Prg removed)
    obtain idx' ch where "purge_segments l cd idx removed = (idx', ch)" by (cases "purge_segments l cd idx removed")
    with Prg purge_segments_ok(1,2) [OF l r(1) this] r p purge_path [of l cd idx removed] show ?thesis
      by (auto simp: ix_sim_def fun_eq_iff)
  next
    case Sav
    show ?thesis
    proof (cases "x_delta idx \<noteq> [] \<or> x_snapshot idx = None")
      case True
      have "v3_ok (enc_postings cd) (dec_postings cd) (saved_entries es idx)"
        using saveable_entries [OF r(1)] fit Sav r(2) by simp
      from save_ok [OF l r(1) this, of None p fs] p True Sav r(2) show ?thesis
        by (auto simp: ix_sim_def)
    next
      case False
      with Sav sim p show ?thesis by (auto simp: exact_index_save_def)
    qed
  qed
qed

lemma ix_run_sim:
  "lru_ok l \<Longrightarrow> ix_sim l cd idx m \<Longrightarrow> saves_fit x cd ops m \<Longrightarrow>
   \<exists>idx' fs'. ix_run x l cd ops (idx, fs) = Inr (idx', fs') \<and> ix_sim l cd idx' (fold (ix_spec x) ops m)"
proof (induction ops arbitrary: idx fs m)
  case (Cons op ops)
  then obtain idx' fs' where
    "ix_step x l cd op (idx, fs) = Inr (idx', fs')" "ix_sim l cd idx' (ix_spec x op m)"
    using ix_step_sim [of l cd idx m op x fs] by auto
  with Cons show ?case by (auto simp: ix_run_def)
qed (simp add: ix_run_def)

section \<open>Properties\<close>

lemma saveable_plain:
  assumes "sorted_wrt (<) (map fst es)" "list_all (\<lambda>(h, ps). length (plain_enc ps) < 2 ^ 32) es"
    "40 + length (payloads plain_enc es) + 28 * length es < 2 ^ 64"
  shows "saveable plain_codec (map_of es)"
  using assms by (auto simp: saveable_def v3_ok_def v3_fits_def plain_codec_def list_all_iff intro!: exI [of _ es])

lemma ix_sim_new: "lru_ok l \<Longrightarrow> ix_sim l cd (bind_path p (exact_index_new l)) (\<lambda>_. None)"
  using ix_new(1) [of l cd] ix_new(2) [of l]
  by (auto simp: ix_sim_def bind_path_def ix_rep_def ix_map_def exact_index_new_def intro!: exI [of _ "[]"])

text \<open>C36: An exact index behaves as a map from value hashes to postings: after any sequence of
  lookups, inserts, segment merges, purges and saves (whose payloads fit the file format), a
  lookup returns what the same sequence leaves in a plain map, whatever the cache evicts and
  however the changes are spread over delta, cache and snapshot file.\<close>

theorem exact_index_refines_map:
  assumes "lru_ok l" "saves_fit x cd ops (\<lambda>_. None)"
  shows "\<exists>idx fs'. ix_run x l cd ops (bind_path p (exact_index_new l), fs) = Inr (idx, fs') \<and>
    (\<forall>v. fst (exact_index_get x l cd idx v) = fold (ix_spec x) ops (\<lambda>_. None) (ix_hash x v))"
proof -
  obtain idx fs' where run: "ix_run x l cd ops (bind_path p (exact_index_new l), fs) = Inr (idx, fs')"
    and sim: "ix_sim l cd idx (fold (ix_spec x) ops (\<lambda>_. None))"
    using ix_run_sim [OF assms(1) ix_sim_new [OF assms(1)] assms(2)] by blast
  from sim obtain es where "ix_rep l cd idx es" "ix_map es idx = fold (ix_spec x) ops (\<lambda>_. None)"
    by (auto simp: ix_sim_def)
  with get_ok(1) [OF assms(1)] run show ?thesis by metis
qed

lemma small_map: "[k \<mapsto> ps] = map_of [(k, ps)]"
  by simp

theorem exact_index_refines_map_witness:
  "\<exists>idx fs'. ix_run ascii_ext small_lru plain_codec [Ins ''v'' [(1, {7})], Sav, Get ''v'', Mrg 2 [(''v'', {9})]]
      (bind_path ''f'' (exact_index_new small_lru), []) = Inr (idx, fs') \<and>
    (\<forall>v. fst (exact_index_get ascii_ext small_lru plain_codec idx v) =
      fold (ix_spec ascii_ext) [Ins ''v'' [(1, {7})], Sav, Get ''v'', Mrg 2 [(''v'', {9})]] (\<lambda>_. None) (ix_hash ascii_ext v))"
proof (rule exact_index_refines_map [OF small_lru_ok])
  have "saveable plain_codec (map_of [(ix_hash ascii_ext ''v'', [(1, {7})])])"
    by (rule saveable_plain) (simp_all add: plain_enc_def)
  then show "saves_fit ascii_ext plain_codec [Ins ''v'' [(1, {7})], Sav, Get ''v'', Mrg 2 [(''v'', {9})]] (\<lambda>_. None)"
    by simp
qed

text \<open>Merging a segment into the index adds to each value exactly the rows the segment has
  for it, under the segment's id, and leaves every other segment's rows alone; values with the same
  canonical form share their rows.\<close>

theorem merge_segment_rows:
  assumes "lru_ok l" "ix_rep l cd idx es"
  shows "rows_in s (fst (exact_index_get x l cd (merge_segment x l cd idx seg bms) v)) =
    rows_in s (fst (exact_index_get x l cd idx v)) \<union>
    (if s = seg then \<Union> {b. \<exists>w. (w, b) \<in> set bms \<and> ix_hash x w = ix_hash x v} else {})"
  using get_ok(1) [OF assms] get_ok(1) [OF assms(1)] merge_segment_ok [OF assms] by metis

theorem merge_segment_rows_witness:
  "rows_in 3 (fst (exact_index_get ascii_ext small_lru plain_codec
      (merge_segment ascii_ext small_lru plain_codec (exact_index_new small_lru) 3 [(''v'', {7})]) ''v'')) =
    rows_in 3 (fst (exact_index_get ascii_ext small_lru plain_codec (exact_index_new small_lru) ''v'')) \<union>
    (if (3::u64) = 3 then \<Union> {b. \<exists>w. (w, b) \<in> set [(''v'', {7::u32})] \<and> ix_hash ascii_ext w = ix_hash ascii_ext ''v''} else {})"
  by (rule merge_segment_rows [OF small_lru_ok ix_new(1) [OF small_lru_ok]])

text \<open>A purge removes every row of the given segments from every value, touches no other
  segment's rows, leaves none of those segments in \<open>segment_ids\<close>, and reports a change exactly when
  the index mentioned one of them.\<close>

theorem purge_segments_exact:
  assumes "lru_ok l" "ix_rep l cd idx es" "purge_segments l cd idx removed = (idx', changed)"
  shows "rows_in s (fst (exact_index_get x l cd idx' v)) =
      (if s \<in> removed then {} else rows_in s (fst (exact_index_get x l cd idx v))) \<and>
    exact_index_segment_ids cd idx' \<inter> removed = {} \<and>
    (changed \<longleftrightarrow> exact_index_segment_ids cd idx \<inter> removed \<noteq> {})"
proof -
  note p = purge_segments_ok [OF assms]
  have "rows_in s (fst (exact_index_get x l cd idx' v)) =
      (if s \<in> removed then {} else rows_in s (fst (exact_index_get x l cd idx v)))"
    by (simp add: get_ok(1) [OF assms(1) p(1)] get_ok(1) [OF assms(1,2)] p(2) purge_rows)
  moreover have "exact_index_segment_ids cd idx' \<inter> removed = {}"
    by (auto simp: segment_ids_ok [OF p(1)] p(2) purge_value_def replace_or_remove_def list_ex_iff
        split: option.splits if_splits)
  moreover have "changed \<longleftrightarrow> exact_index_segment_ids cd idx \<inter> removed \<noteq> {}"
  proof -
    have "mentions removed q \<longleftrightarrow> (\<exists>s\<in>removed. mentions {s} q)" for q
      by (auto simp: mentions_iff)
    moreover have "s \<in> exact_index_segment_ids cd idx \<longleftrightarrow> (\<exists>h. mentions {s} (ix_map es idx h))" for s
      by (simp add: segment_ids_ok [OF assms(2)] mentions_some)
    ultimately show ?thesis unfolding p(3) by blast
  qed
  ultimately show ?thesis by blast
qed

theorem purge_segments_exact_witness:
  "\<exists>idx' changed. purge_segments small_lru plain_codec (exact_index_new small_lru) {2} = (idx', changed) \<and>
    rows_in 3 (fst (exact_index_get ascii_ext small_lru plain_codec idx' ''v'')) =
      (if (3::u64) \<in> {2} then {} else rows_in 3 (fst (exact_index_get ascii_ext small_lru plain_codec (exact_index_new small_lru) ''v''))) \<and>
    exact_index_segment_ids plain_codec idx' \<inter> {2} = {} \<and>
    (changed \<longleftrightarrow> exact_index_segment_ids plain_codec (exact_index_new small_lru) \<inter> {2} \<noteq> {})"
proof -
  obtain idx' ch where p: "purge_segments small_lru plain_codec (exact_index_new small_lru) {2} = (idx', ch)"
    by (cases "purge_segments small_lru plain_codec (exact_index_new small_lru) {2}")
  from conjI [OF p purge_segments_exact [OF small_lru_ok ix_new(1) [OF small_lru_ok] p, of 3 ascii_ext "''v''"]]
  show ?thesis by - (rule exI, rule exI, assumption)
qed

text \<open>C37: Opening a file a save has written gives an index that answers every lookup as the index
  did before the save, for an index with unsaved changes.\<close>

theorem save_then_open:
  assumes "lru_ok l" "ix_rep l cd idx es" "saveable cd (ix_map es idx)" "x_delta idx \<noteq> [] \<or> x_snapshot idx = None"
  shows "\<exists>idx' fs' idx2. exact_index_save l cd (Some p) (idx, fs) = Inr (idx', fs') \<and>
    exact_index_open x l cd fs' p = Inr idx2 \<and>
    fst (exact_index_get x l cd idx2 v) = fst (exact_index_get x l cd idx v) \<and>
    fst (exact_index_get x l cd idx' v) = fst (exact_index_get x l cd idx v)"
proof -
  let ?es = "saved_entries es idx"
  have ok: "v3_ok (enc_postings cd) (dec_postings cd) ?es" by (rule saveable_entries [OF assms(2,3)])
  then have f: "v3_fits (enc_postings cd) ?es" by (simp add: v3_ok_def)
  obtain idx' fs' where s: "exact_index_save l cd (Some p) (idx, fs) = Inr (idx', fs')"
    "fs' = hput p (v3_file (enc_postings cd) ?es) fs" "ix_rep l cd idx' ?es" "ix_map ?es idx' = ix_map es idx"
    using save_ok [OF assms(1,2) ok, of "Some p" p fs] assms(4) by auto
  let ?idx2 = "\<lparr>x_snapshot = Some (v3_reader (enc_postings cd) ?es), x_path = Some p, x_delta = [], x_cache = l_new l\<rparr>"
  have o: "exact_index_open x l cd fs' p = Inr ?idx2" using open_v3_file [OF f, of fs' p] s(2) by simp
  have r2: "ix_rep l cd ?idx2 ?es"
    using ok assms(1) by (simp add: ix_rep_def v3_holds_def map_le_def dom_def lru_ok_def)
  have "ix_map ?es ?idx2 = ix_map es idx" using saved_sorted(2) [OF assms(2)] by (simp add: ix_map_def fun_eq_iff)
  with s o show ?thesis
    by (auto simp: get_ok(1) [OF assms(1) r2] get_ok(1) [OF assms(1) s(3)] get_ok(1) [OF assms(1,2)])
qed

theorem save_then_open_witness:
  "\<exists>idx' fs' idx2. exact_index_save small_lru plain_codec (Some ''f'')
      (exact_index_insert ascii_ext small_lru (exact_index_new small_lru) ''v'' [(1, {7})], []) = Inr (idx', fs') \<and>
    exact_index_open ascii_ext small_lru plain_codec fs' ''f'' = Inr idx2 \<and>
    fst (exact_index_get ascii_ext small_lru plain_codec idx2 ''v'') =
      fst (exact_index_get ascii_ext small_lru plain_codec
        (exact_index_insert ascii_ext small_lru (exact_index_new small_lru) ''v'' [(1, {7})]) ''v'') \<and>
    fst (exact_index_get ascii_ext small_lru plain_codec idx' ''v'') =
      fst (exact_index_get ascii_ext small_lru plain_codec
        (exact_index_insert ascii_ext small_lru (exact_index_new small_lru) ''v'' [(1, {7})]) ''v'')"
proof -
  let ?h = "ix_hash ascii_ext ''v''"
  let ?i = "exact_index_insert ascii_ext small_lru (exact_index_new small_lru) ''v'' [(1, {7})]"
  note r = delta_put_ok [OF small_lru_ok ix_new(1) [OF small_lru_ok, of plain_codec],
      where h = ?h and e = "Replace [(1, {7})]"]
  have m: "ix_map [] ?i = map_of [(?h, [(1, {7})])]"
    by (simp add: exact_index_insert_def r(2) fun_eq_iff ix_new(2))
  have "saveable plain_codec (map_of [(?h, [(1, {7})])])"
    by (rule saveable_plain) (simp_all add: plain_enc_def)
  then show ?thesis
    using m r(1) by (intro save_then_open [OF small_lru_ok, of _ _ "[]"])
      (simp_all add: exact_index_insert_def delta_put_def exact_index_new_def)
qed

text \<open>Saving an index without changes to another path writes nothing: \<open>save(Some(p))\<close> reports
  success and the file system is as before, so a copy that the caller asked for does not exist.\<close>

theorem save_copy_writes_nothing:
  assumes "x_delta idx = []" "x_snapshot idx = Some r"
  shows "exact_index_save l cd (Some p) (idx, fs) = Inr (idx, fs)"
  using assms by (simp add: exact_index_save_def)

theorem save_copy_writes_nothing_witness:
  "exact_index_save small_lru plain_codec (Some ''copy'')
     (\<lparr>x_snapshot = Some (v3_reader plain_enc []), x_path = Some ''f'', x_delta = [], x_cache = []\<rparr>, []) =
   Inr (\<lparr>x_snapshot = Some (v3_reader plain_enc []), x_path = Some ''f'', x_delta = [], x_cache = []\<rparr>, [])"
  by (rule save_copy_writes_nothing [of _ "v3_reader plain_enc []"]) simp_all

text \<open>Migrating a headerless (legacy) file keeps every row: the migrated file opens, and a
  value has in each segment exactly the union of the rows of the old keys with the same canonical
  hash, so keys that NFC makes equal are merged and nothing is lost.\<close>

theorem migrate_keeps_rows:
  assumes "lru_ok l" "hget fs p = Some old" "take 4 old \<noteq> ''BTXI''" "dec_v1 cd old = Some raw"
    "saveable cd (\<lambda>h. delta_value (hget (load_v1_into_delta x raw []) h) None)"
  shows "\<exists>n fs' idx2. migrate_exact_index_to_v3 x l cd fs p = Inr ((n, False), fs') \<and>
    exact_index_open x l cd fs' p = Inr idx2 \<and>
    rows_in s (fst (exact_index_get x l cd idx2 v)) =
      \<Union> {rows_in s (Some ps) | w ps. (w, ps) \<in> set raw \<and> ix_hash x w = ix_hash x v}"
proof -
  let ?d = "load_v1_into_delta x raw []"
  let ?i = "\<lparr>x_snapshot = None, x_path = Some p, x_delta = ?d, x_cache = l_new l\<rparr>"
  have r: "ix_rep l cd ?i []" using assms(1) by (simp add: ix_rep_def load_v1_wf map_le_def dom_def lru_ok_def)
  have m: "ix_map [] ?i = (\<lambda>h. delta_value (hget ?d h) None)" by (simp add: ix_map_def fun_eq_iff)
  have ok: "v3_ok (enc_postings cd) (dec_postings cd) (saved_entries [] ?i)"
    by (rule saveable_entries [OF r]) (simp only: m assms(5))
  then have f: "v3_fits (enc_postings cd) (saved_entries [] ?i)" by (simp add: v3_ok_def)
  have nm: "take 4 (take 8 old @ replicate (8 - min 8 (length old)) CHR 0x00) \<noteq> ''BTXI'' \<or> length old < 4"
    using assms(3) by (cases "length old < 4") auto
  have o: "exact_index_open x l cd fs p = Inr ?i"
    using nm by (auto simp: exact_index_open_def assms(2,4) EXACT_IDX_MAGIC_def Let_def)
  obtain idx' fs' where s: "exact_index_save l cd (Some p) (?i, fs) = Inr (idx', fs')"
    "fs' = hput p (v3_file (enc_postings cd) (saved_entries [] ?i)) fs"
    using save_ok [OF assms(1) r ok, of "Some p" p fs] by auto
  have "migrate_exact_index_to_v3 x l cd fs p = Inr ((exact_index_len ?i, False), fs')"
    using assms(3) by (simp add: migrate_exact_index_to_v3_def assms(2) EXACT_IDX_MAGIC_def o s v3_open [OF f])
  moreover let ?idx2 = "\<lparr>x_snapshot = Some (v3_reader (enc_postings cd) (saved_entries [] ?i)), x_path = Some p,
    x_delta = [], x_cache = l_new l\<rparr>"
  have "exact_index_open x l cd fs' p = Inr ?idx2" using open_v3_file [OF f, of fs' p] s(2) by simp
  moreover have r2: "ix_rep l cd ?idx2 (saved_entries [] ?i)"
    using ok assms(1) by (simp add: ix_rep_def v3_holds_def map_le_def dom_def lru_ok_def)
  have "ix_map (saved_entries [] ?i) ?idx2 = ix_map [] ?i"
    using saved_sorted(2) [OF r] by (simp add: ix_map_def fun_eq_iff)
  then have "rows_in s (fst (exact_index_get x l cd ?idx2 v)) =
      \<Union> {rows_in s (Some ps) | w ps. (w, ps) \<in> set raw \<and> ix_hash x w = ix_hash x v}"
    using load_v1_rows [of "[]" x raw s "ix_hash x v"]
    by (simp add: get_ok(1) [OF assms(1) r2] m no_removed_def)
  ultimately show ?thesis by blast
qed

theorem migrate_keeps_rows_witness:
  "\<exists>n fs' idx2. migrate_exact_index_to_v3 ascii_ext small_lru plain_codec [(''f'', ''legacy'')] ''f'' = Inr ((n, False), fs') \<and>
    exact_index_open ascii_ext small_lru plain_codec fs' ''f'' = Inr idx2 \<and>
    rows_in 1 (fst (exact_index_get ascii_ext small_lru plain_codec idx2 ''legacy'')) =
      \<Union> {rows_in 1 (Some ps) | w ps. (w, ps) \<in> set [(''legacy'', [(1::u64, {2::u32})])] \<and>
         ix_hash ascii_ext w = ix_hash ascii_ext ''legacy''}"
proof (rule migrate_keeps_rows [OF small_lru_ok])
  let ?h = "ix_hash ascii_ext ''legacy''"
  have d: "load_v1_into_delta ascii_ext [(''legacy'', [(1, {2})])] [] = [(?h, Replace [(1, {2})])]"
    by (simp add: load_v1_Cons load_v1_Nil v1_step_def hput_def)
  have "saveable plain_codec (map_of [(?h, [(1, {2})])])"
    by (rule saveable_plain) (simp_all add: plain_enc_def)
  moreover have "(\<lambda>h. delta_value (hget [(?h, Replace [(1, {2})])] h) None) = map_of [(?h, [(1, {2})])]"
    by (simp add: fun_eq_iff hget_Cons)
  ultimately show "saveable plain_codec (\<lambda>h. delta_value (hget (load_v1_into_delta ascii_ext [(''legacy'', [(1, {2})])] []) h) None)"
    by (simp only: d)
qed (simp_all add: plain_codec_def hget_Cons)

end
