(* ===== verification/Primary_Index.thy ===== *)
theory Primary_Index
  imports Exact_Index
begin

text \<open>
  \<^verbatim>\<open>src/core/storage/primary_index.rs\<close> and \<^verbatim>\<open>primary_index_io.rs\<close>: the map from primary keys
  to row locations \<open>(segment, row)\<close>, keyed by the hash of the key's canonical form, its file
  format and the loading of the two older formats; \<^verbatim>\<open>src/core/storage/manifest.rs\<close>: the list of
  segments.

  The locale \<open>key_map\<close> is what the table relies on: a map whose keys are compared after a
  canonicalisation. Parameters: \<^verbatim>\<open>bincode\<close> on the two payload types.
\<close>

type_synonym location = "u64 \<times> u32"

record primary_index =
  pi_inner :: "(u128, location) hmap"

section \<open>primary\_index.rs\<close>

definition primary_index_new :: primary_index where
  "primary_index_new = \<lparr>pi_inner = []\<rparr>"

definition pi_hash :: "ext \<Rightarrow> string \<Rightarrow> u128" where
  "pi_hash x pk = xxh3_128 x (canonical_bytes x pk)"

text \<open>\<open>HashMap::insert\<close> and \<open>remove\<close> return the value that was there.\<close>

definition pi_insert_raw :: "u128 \<Rightarrow> location \<Rightarrow> primary_index \<Rightarrow> location option \<times> primary_index" where
  "pi_insert_raw h loc idx = (hget (pi_inner idx) h, idx\<lparr>pi_inner := hput h loc (pi_inner idx)\<rparr>)"

definition pi_insert :: "ext \<Rightarrow> string \<Rightarrow> location \<Rightarrow> primary_index \<Rightarrow> location option \<times> primary_index" where
  "pi_insert x pk loc idx =
     (hget (pi_inner idx) (pi_hash x pk), idx\<lparr>pi_inner := hput (pi_hash x pk) loc (pi_inner idx)\<rparr>)"

definition pi_get :: "ext \<Rightarrow> primary_index \<Rightarrow> string \<Rightarrow> location option" where
  "pi_get x idx pk = hget (pi_inner idx) (pi_hash x pk)"

definition pi_remove :: "ext \<Rightarrow> string \<Rightarrow> primary_index \<Rightarrow> location option \<times> primary_index" where
  "pi_remove x pk idx =
     (hget (pi_inner idx) (pi_hash x pk), idx\<lparr>pi_inner := hdel (pi_hash x pk) (pi_inner idx)\<rparr>)"

definition pi_contains_key :: "ext \<Rightarrow> primary_index \<Rightarrow> string \<Rightarrow> bool" where
  "pi_contains_key x idx pk \<longleftrightarrow> hget (pi_inner idx) (pi_hash x pk) \<noteq> None"

definition pi_is_empty :: "primary_index \<Rightarrow> bool" where
  "pi_is_empty idx \<longleftrightarrow> pi_inner idx = []"

definition pi_len :: "primary_index \<Rightarrow> nat" where
  "pi_len idx = length (pi_inner idx)"

text \<open>\<open>for (_, loc) in idx.iter_mut() { ... }\<close>\<close>

definition pi_map_locations :: "(location \<Rightarrow> location) \<Rightarrow> primary_index \<Rightarrow> primary_index" where
  "pi_map_locations f idx = idx\<lparr>pi_inner := map (\<lambda>(k, loc). (k, f loc)) (pi_inner idx)\<rparr>"

definition pi_wf :: "primary_index \<Rightarrow> bool" where
  "pi_wf idx \<longleftrightarrow> hwf (pi_inner idx)"

section \<open>The contract the table uses\<close>

locale key_map =
  fixes canon :: "'k \<Rightarrow> 'c"
    and empty_map :: 'm
    and get :: "'m \<Rightarrow> 'k \<Rightarrow> 'v option"
    and insert :: "'k \<Rightarrow> 'v \<Rightarrow> 'm \<Rightarrow> 'v option \<times> 'm"
    and remove :: "'k \<Rightarrow> 'm \<Rightarrow> 'v option \<times> 'm"
    and wf :: "'m \<Rightarrow> bool"
  assumes wf_empty: "wf empty_map"
    and get_empty: "get empty_map k = None"
    and wf_insert: "wf m \<Longrightarrow> wf (snd (insert k v m))"
    and wf_remove: "wf m \<Longrightarrow> wf (snd (remove k m))"
    and get_insert: "wf m \<Longrightarrow> get (snd (insert k v m)) j = (if canon j = canon k then Some v else get m j)"
    and get_remove: "wf m \<Longrightarrow> get (snd (remove k m)) j = (if canon j = canon k then None else get m j)"
    and old_insert: "wf m \<Longrightarrow> fst (insert k v m) = get m k"
    and old_remove: "wf m \<Longrightarrow> fst (remove k m) = get m k"
begin

lemma insert_insert:
  "wf m \<Longrightarrow> canon k = canon j \<Longrightarrow> get (snd (insert j w (snd (insert k v m)))) i = get (snd (insert j w m)) i"
  by (simp add: get_insert wf_insert)

lemma insert_remove:
  "wf m \<Longrightarrow> canon k = canon j \<Longrightarrow> get m k = None \<Longrightarrow> get m j = None \<Longrightarrow>
   (\<And>i. canon i = canon k \<Longrightarrow> get m i = None) \<Longrightarrow> get (snd (remove j (snd (insert k v m)))) i = get m i"
  by (simp add: get_insert get_remove wf_insert)

text \<open>Replaying inserts of one log twice is replaying it once.\<close>

definition insert_all :: "('k \<times> 'v) list \<Rightarrow> 'm \<Rightarrow> 'm" where
  "insert_all kvs m = fold (\<lambda>(k, v) m. snd (insert k v m)) kvs m"

lemma insert_all_simps [simp]:
  "insert_all [] m = m" "insert_all ((k, v) # kvs) m = insert_all kvs (snd (insert k v m))"
  by (simp_all add: insert_all_def)

lemma insert_all_get:
  "wf m \<Longrightarrow> wf (insert_all kvs m) \<and> get (insert_all kvs m) j =
     (case find (\<lambda>(k, v). canon k = canon j) (rev kvs) of Some (k, v) \<Rightarrow> Some v | None \<Rightarrow> get m j)"
proof (induction kvs arbitrary: m)
  case (Cons kv kvs)
  obtain k v where kv: "kv = (k, v)" by (cases kv)
  have app: "find P (xs @ ys) = (case find P xs of Some y \<Rightarrow> Some y | None \<Rightarrow> find P ys)"
    for P and xs ys :: "('k \<times> 'v) list"
    by (induction xs) auto
  show ?case
    using Cons.IH [OF wf_insert [OF Cons.prems, of k v]]
    by (auto simp: kv app get_insert Cons.prems split: option.splits)
qed simp

lemma insert_all_twice: "wf m \<Longrightarrow> get (insert_all kvs (insert_all kvs m)) j = get (insert_all kvs m) j"
  using insert_all_get by (auto split: option.splits)

end

interpretation pidx: key_map "pi_hash x" primary_index_new "pi_get x" "pi_insert x" "pi_remove x" pi_wf for x
  by unfold_locales (simp_all add: pi_wf_def primary_index_new_def pi_get_def pi_insert_def pi_remove_def)

section \<open>primary\_index\_io.rs\<close>

definition PRIMARY_IDX_MAGIC :: bytes where "PRIMARY_IDX_MAGIC = ''BTPI''"

record pi_codec =
  enc_pi :: "(u128, location) hmap \<Rightarrow> bytes"
  dec_pi :: "bytes \<Rightarrow> (u128, location) hmap option"
  dec_pi_v1 :: "bytes \<Rightarrow> (string, location) hmap option"

datatype pi_error = PiNotFound | PiBadV2 | PiBadV1 | PiVersion u8

text \<open>The bytes the rename publishes.\<close>

definition save_primary_index :: "pi_codec \<Rightarrow> string \<Rightarrow> primary_index \<Rightarrow> files \<Rightarrow> files" where
  "save_primary_index cd path idx fs =
     hput path (PRIMARY_IDX_MAGIC @ [CHR 0x02, CHR 0x00, CHR 0x00, CHR 0x00] @ enc_pi cd (pi_inner idx)) fs"

text \<open>The body of the loop over a file of the first format; the number counts the collisions the
  log line reports.\<close>

definition v1_migrate_step :: "ext \<Rightarrow> string \<times> location \<Rightarrow> primary_index \<times> nat \<Rightarrow> primary_index \<times> nat" where
  "v1_migrate_step x pl st = (case pl of (pk, loc) \<Rightarrow>
     (case pi_insert_raw (xxh3_128 x (canonical_bytes x pk)) loc (fst st) of
        (None, idx) \<Rightarrow> (idx, snd st) | (Some _, idx) \<Rightarrow> (idx, snd st + 1)))"

definition load_v1_migrate :: "ext \<Rightarrow> pi_codec \<Rightarrow> bytes \<Rightarrow> pi_error + primary_index \<times> nat" where
  "load_v1_migrate x cd bs = rbind (ok_or PiBadV1 (dec_pi_v1 cd bs)) (\<lambda>legacy.
     Inr (fold (v1_migrate_step x) legacy (primary_index_new, 0)))"

definition load_primary_index :: "ext \<Rightarrow> pi_codec \<Rightarrow> files \<Rightarrow> string \<Rightarrow> pi_error + primary_index" where
  "load_primary_index x cd fs path = rbind (ok_or PiNotFound (hget fs path)) (\<lambda>content.
     let n = min 8 (length content); header = take 8 content @ replicate (8 - n) CHR 0x00; rest = drop 8 content in
     if 4 \<le> n \<and> take 4 header = PRIMARY_IDX_MAGIC then
       let version = of_nat (bval (header ! 4)) in
       if version = 2 then rbind (ok_or PiBadV2 (dec_pi cd rest)) (\<lambda>m. Inr \<lparr>pi_inner = m\<rparr>)
       else if version = 1 then rbind (load_v1_migrate x cd rest) (\<lambda>(idx, _). Inr idx)
       else Inl (PiVersion version)
     else rbind (load_v1_migrate x cd content) (\<lambda>(idx, _). Inr idx))"

section \<open>manifest.rs\<close>

record segment_meta =
  sm_id :: u64
  sm_min_max :: "(string, string \<times> string) hmap"
  sm_record_count :: u64
  sm_path :: string

record manifest =
  m_segments :: "segment_meta list"
  m_active_segment_id :: u64
  m_last_sequence_number :: u64
  m_version :: u64
  m_original_fields :: "string list"
  m_primary_key :: string
  m_primary_key_columns :: "string list"

definition manifest_new :: manifest where
  "manifest_new = \<lparr>m_segments = [], m_active_segment_id = 0, m_last_sequence_number = 0, m_version = 1,
     m_original_fields = [], m_primary_key = ''PK'', m_primary_key_columns = []\<rparr>"

definition add_segment :: "segment_meta \<Rightarrow> manifest \<Rightarrow> manifest" where
  "add_segment sm m = m\<lparr>m_segments := m_segments m @ [sm]\<rparr>"

definition remove_segment :: "u64 \<Rightarrow> manifest \<Rightarrow> manifest" where
  "remove_segment seg m = m\<lparr>m_segments := filter (\<lambda>s. sm_id s \<noteq> seg) (m_segments m)\<rparr>"

section \<open>Lemmas\<close>

lemma v1_step_get:
  "hget (pi_inner (fst (v1_migrate_step x (pk, loc) st))) h =
     (if pi_hash x pk = h then Some loc else hget (pi_inner (fst st)) h)"
  by (simp add: v1_migrate_step_def pi_insert_raw_def pi_hash_def split: option.splits)

lemma v1_fold_get:
  "hget (pi_inner (fst (fold (v1_migrate_step x) legacy st))) h =
   (case find (\<lambda>(pk, loc). pi_hash x pk = h) (rev legacy) of
      Some (pk, loc) \<Rightarrow> Some loc | None \<Rightarrow> hget (pi_inner (fst st)) h)"
proof (induction legacy arbitrary: st)
  case (Cons pl legacy)
  obtain pk loc where pl: "pl = (pk, loc)" by (cases pl)
  have app: "find P (xs @ [y]) = (case find P xs of Some z \<Rightarrow> Some z | None \<Rightarrow> if P y then Some y else None)"
    for P and xs :: "(string \<times> location) list" and y
    by (induction xs) auto
  show ?case by (auto simp: pl app Cons.IH v1_step_get split: option.splits)
qed simp

section \<open>Properties\<close>

text \<open>The primary index is a map on canonical keys: after an insert every key with the same
  canonical hash finds the new location, after a removal none, other keys are unaffected, and both
  return the location that was there.\<close>

theorem primary_index_laws:
  assumes "pi_wf idx"
  shows "pi_get x (snd (pi_insert x pk loc idx)) j = (if pi_hash x j = pi_hash x pk then Some loc else pi_get x idx j) \<and>
    pi_get x (snd (pi_remove x pk idx)) j = (if pi_hash x j = pi_hash x pk then None else pi_get x idx j) \<and>
    fst (pi_insert x pk loc idx) = pi_get x idx pk \<and> fst (pi_remove x pk idx) = pi_get x idx pk \<and>
    pi_wf (snd (pi_insert x pk loc idx)) \<and> pi_wf (snd (pi_remove x pk idx))"
  using pidx.get_insert [OF assms] pidx.get_remove [OF assms] pidx.old_insert [OF assms]
    pidx.old_remove [OF assms] pidx.wf_insert [OF assms] pidx.wf_remove [OF assms] by metis

theorem primary_index_laws_witness:
  "pi_get ascii_ext (snd (pi_insert ascii_ext ''a'' (1, 2) primary_index_new)) ''a'' = Some (1, 2)"
  using primary_index_laws [OF pidx.wf_empty, of ascii_ext "''a''" "(1, 2)" "''a''"] by simp

text \<open>Loading a file \<open>save_primary_index\<close> wrote gives the same index; loading a file of the
  first format gives every key the location of some old key with the same canonical hash, and finds
  nothing else.\<close>

theorem primary_index_load:
  assumes "dec_pi cd (enc_pi cd (pi_inner idx)) = Some (pi_inner idx)"
    "hget fs old = Some bs" "take 4 bs \<noteq> ''BTPI''" "dec_pi_v1 cd bs = Some legacy"
  shows "load_primary_index x cd (save_primary_index cd path idx fs') path = Inr idx \<and>
    (\<exists>m. load_primary_index x cd fs old = Inr m \<and>
      (\<forall>pk loc. pi_get x m pk = Some loc \<longrightarrow> (\<exists>q. (q, loc) \<in> set legacy \<and> pi_hash x q = pi_hash x pk)) \<and>
      (\<forall>(q, loc) \<in> set legacy. pi_get x m q \<noteq> None))"
proof
  show "load_primary_index x cd (save_primary_index cd path idx fs') path = Inr idx"
    by (simp add: load_primary_index_def save_primary_index_def PRIMARY_IDX_MAGIC_def assms(1) bval_def)
  let ?m = "fst (fold (v1_migrate_step x) legacy (primary_index_new, 0))"
  have g: "pi_get x ?m pk = (case find (\<lambda>(q, loc). pi_hash x q = pi_hash x pk) (rev legacy) of
      Some (q, loc) \<Rightarrow> Some loc | None \<Rightarrow> None)" for pk
    by (simp add: pi_get_def v1_fold_get primary_index_new_def split: option.splits)
  have "\<not> (4 \<le> length bs \<and> take 4 (take 8 bs @ replicate (8 - min 8 (length bs)) CHR 0x00) = ''BTPI'')"
    using assms(3) by (cases "length bs < 4") auto
  then have l: "load_primary_index x cd fs old = Inr ?m"
    using assms(4)
    by (auto simp: load_primary_index_def assms(2) load_v1_migrate_def PRIMARY_IDX_MAGIC_def Let_def split_beta)
  have 1: "\<exists>q. (q, loc) \<in> set legacy \<and> pi_hash x q = pi_hash x pk" if "pi_get x ?m pk = Some loc" for pk loc
    using that unfolding g by (auto split: option.splits dest!: find_Some_iff')
  have 2: "pi_get x ?m q \<noteq> None" if "(q, loc) \<in> set legacy" for q loc
    using that unfolding g by (auto simp: find_None_iff' split: option.splits)
  show "\<exists>m. load_primary_index x cd fs old = Inr m \<and>
      (\<forall>pk loc. pi_get x m pk = Some loc \<longrightarrow> (\<exists>q. (q, loc) \<in> set legacy \<and> pi_hash x q = pi_hash x pk)) \<and>
      (\<forall>(q, loc) \<in> set legacy. pi_get x m q \<noteq> None)"
    using l 1 2 by blast
qed

theorem primary_index_load_witness:
  "\<exists>m. load_primary_index ascii_ext \<lparr>enc_pi = (\<lambda>_. ''P''), dec_pi = (\<lambda>_. Some [(5, (1, 2))]),
        dec_pi_v1 = (\<lambda>_. Some [(''k'', (1, 0))])\<rparr> [(''old'', ''legacy'')] ''old'' = Inr m \<and>
     pi_get ascii_ext m ''k'' \<noteq> None"
  using primary_index_load [of "\<lparr>enc_pi = (\<lambda>_. ''P''), dec_pi = (\<lambda>_. Some [(5, (1, 2))]),
      dec_pi_v1 = (\<lambda>_. Some [(''k'', (1, 0))])\<rparr>" "\<lparr>pi_inner = [(5, (1, 2))]\<rparr>" "[(''old'', ''legacy'')]" "''old''"
      "''legacy''" "[(''k'', (1, 0))]" ascii_ext]
  by (auto simp: hget_Cons simp del: ex_simps) blast

end
