(* ===== verification/Segment.thy ===== *)
theory Segment
  imports Types Primary_Index
begin

text \<open>
  \<^verbatim>\<open>src/core/storage/segment.rs\<close>: a segment, the unit of storage of a table. Per column it has a
  data file (the \<^verbatim>\<open>bincode\<close> encodings of the cells, appended), an offsets file (where each cell
  starts, 8 bytes per row) and a file of bitmaps (which rows have which value). A segment prunes
  with the least and greatest value of a column and hides deleted rows with a bitmap.

  The directory of a segment is the field \<open>s_dir\<close>, a map from file names to contents. A
  \<open>SegmentWriter\<close> holds the column files open behind \<open>BufWriter\<close>s: \<open>writer_dir\<close> is the directory
  as a reader sees it then. A memory map is the contents of the file when it was mapped. The
  locks are not modelled: one operation runs at a time. Parameters (\<open>seg_codec\<close>): \<^verbatim>\<open>bincode\<close>,
  \<^verbatim>\<open>roaring\<close> and \<^verbatim>\<open>serde_json\<close> on the payloads.
\<close>

type_synonym bitmaps = "(string, bitmap) hmap"
type_synonym mmap_pair = "bytes \<times> bytes"

record seg_codec =
  enc_bitmaps :: "bitmaps \<Rightarrow> bytes"
  dec_bitmaps :: "bytes \<Rightarrow> bitmaps option"
  enc_deleted :: "bitmap \<Rightarrow> bytes"
  dec_deleted :: "bytes \<Rightarrow> bitmap option"
  enc_min_max :: "(string, string \<times> string) hmap \<Rightarrow> bytes"
  dec_min_max :: "bytes \<Rightarrow> (string, string \<times> string) hmap option"
  dec_str :: "bytes \<Rightarrow> string option"

record segment =
  s_id :: u64
  s_name :: string
  s_is_immutable :: bool
  s_min_max :: "(string, string \<times> string) hmap"
  s_deleted :: bitmap
  s_record_count :: u64
  s_mmap_cache :: "(string, mmap_pair) hmap"
  s_bitmap_cache :: "(string, bitmaps) hmap"
  s_mmap_order :: "string list"
  s_dir :: files

datatype seg_error = FieldFilesNotFound | BadBitmaps | BadDeleted | DivisionByZero

definition MMAP_CACHE_MAX_ENTRIES :: nat where "MMAP_CACHE_MAX_ENTRIES = 64"

text \<open>\<open>format!("seg_{:04}", id)\<close>\<close>

definition seg_name :: "u64 \<Rightarrow> string" where
  "seg_name i = (let d = show_nat (unat i) in ''seg_'' @ replicate (4 - length d) CHR ''0'' @ d)"

definition segment_new :: "u64 \<Rightarrow> segment" where
  "segment_new i = \<lparr>s_id = i, s_name = seg_name i, s_is_immutable = False, s_min_max = [], s_deleted = {},
     s_record_count = 0, s_mmap_cache = [], s_bitmap_cache = [], s_mmap_order = [], s_dir = []\<rparr>"

definition to_meta :: "segment \<Rightarrow> segment_meta" where
  "to_meta s = \<lparr>sm_id = s_id s, sm_min_max = s_min_max s, sm_record_count = s_record_count s,
     sm_path = seg_name (s_id s)\<rparr>"

definition id_of_name :: "string \<Rightarrow> u64" where
  "id_of_name nm = of_nat (hdefault 0 (parse_unsigned 64 (hdefault ''0'' (strip_prefix ''seg_'' nm))))"

text \<open>The names are those \<open>read_dir\<close> lists, in its order; an entry that is not a file of the map
  does not exist.\<close>

definition segment_load :: "seg_codec \<Rightarrow> string \<Rightarrow> files \<Rightarrow> segment_meta option \<Rightarrow> seg_error + segment" where
  "segment_load cd nm dir meta =
     rbind (case hget dir ''deleted.bitmap'' of
         None \<Rightarrow> Inr {} | Some bs \<Rightarrow> ok_or BadDeleted (dec_deleted cd bs)) (\<lambda>deleted.
       let (min_max, record_count) = (case meta of
           Some m \<Rightarrow> (sm_min_max m, sm_record_count m)
         | None \<Rightarrow>
             ((case hget dir ''metadata.json'' of None \<Rightarrow> [] | Some bs \<Rightarrow> hdefault [] (dec_min_max cd bs)),
              (case find (\<lambda>(n, _). ends_with n ''.offsets'') dir of
                 None \<Rightarrow> 0 | Some (_, bs) \<Rightarrow> of_nat (length bs div 8)))) in
       Inr \<lparr>s_id = id_of_name nm, s_name = nm, s_is_immutable = True, s_min_max = min_max, s_deleted = deleted,
         s_record_count = record_count, s_mmap_cache = [], s_bitmap_cache = [], s_mmap_order = [],
         s_dir = dir\<rparr>)"

definition bitmaps_file :: "string \<Rightarrow> string" where "bitmaps_file field = ''bitmaps_'' @ field @ ''.dat''"
definition dat_file :: "string \<Rightarrow> string" where "dat_file field = field @ ''.dat''"
definition off_file :: "string \<Rightarrow> string" where "off_file field = field @ ''.offsets''"

definition read_bitmaps :: "seg_codec \<Rightarrow> files \<Rightarrow> string \<Rightarrow> seg_error + bitmaps" where
  "read_bitmaps cd dir field = (case hget dir (bitmaps_file field) of
     None \<Rightarrow> Inr [] | Some bs \<Rightarrow> ok_or BadBitmaps (dec_bitmaps cd bs))"

definition get_bitmaps_cached :: "seg_codec \<Rightarrow> segment \<Rightarrow> string \<Rightarrow> seg_error + bitmaps \<times> segment" where
  "get_bitmaps_cached cd s field =
     (case hget (s_bitmap_cache s) field of
        Some cached \<Rightarrow> Inr (cached, s)
      | None \<Rightarrow> rbind (read_bitmaps cd (s_dir s) field) (\<lambda>bitmaps.
          Inr (bitmaps, s\<lparr>s_bitmap_cache := hput field bitmaps (s_bitmap_cache s)\<rparr>)))"

definition mark_deleted :: "u32 \<Rightarrow> segment \<Rightarrow> segment" where
  "mark_deleted local_id s = s\<lparr>s_deleted := s_deleted s \<union> {local_id}\<rparr>"

definition has_deletions :: "segment \<Rightarrow> bool" where
  "has_deletions s \<longleftrightarrow> s_deleted s \<noteq> {}"

definition persist_deleted_bitmap :: "seg_codec \<Rightarrow> segment \<Rightarrow> segment" where
  "persist_deleted_bitmap cd s = (if s_deleted s = {} then s
     else s\<lparr>s_dir := hput ''deleted.bitmap'' (enc_deleted cd (s_deleted s)) (s_dir s)\<rparr>)"

definition update_metadata :: "string \<Rightarrow> string \<Rightarrow> segment \<Rightarrow> segment" where
  "update_metadata column value s =
     (let (lo, hi) = hdefault (value, value) (hget (s_min_max s) column) in
      s\<lparr>s_min_max := hput column (if value < lo then value else lo, if hi < value then value else hi) (s_min_max s)\<rparr>)"

text \<open>The file is opened without truncation: what is longer in the old file stays.\<close>

definition save_metadata :: "seg_codec \<Rightarrow> segment \<Rightarrow> segment" where
  "save_metadata cd s = s\<lparr>s_dir := hput ''metadata.json''
     (overwrite (enc_min_max cd (s_min_max s)) (hdefault [] (hget (s_dir s) ''metadata.json''))) (s_dir s)\<rparr>"

section \<open>Memory maps\<close>

definition invalidate_mmap_cache :: "segment \<Rightarrow> segment" where
  "invalidate_mmap_cache s = s\<lparr>s_mmap_cache := [], s_mmap_order := []\<rparr>"

definition touch :: "string \<Rightarrow> string list \<Rightarrow> string list" where
  "touch field order = filter (\<lambda>k. k \<noteq> field) order @ [field]"

text \<open>The eviction loop: \<open>while cache.len() >= 64 { if let Some(k) = order.first() .. else break }\<close>.\<close>

fun evict :: "(string, mmap_pair) hmap \<Rightarrow> string list \<Rightarrow> (string, mmap_pair) hmap \<times> string list" where
  "evict cache [] = (cache, [])"
| "evict cache (k # order) = (if MMAP_CACHE_MAX_ENTRIES \<le> length cache then evict (hdel k cache) order
     else (cache, k # order))"

text \<open>The directory is an argument, as the files of an active segment are those of its writer.\<close>

definition get_mmap_pair :: "files \<Rightarrow> segment \<Rightarrow> string \<Rightarrow> seg_error + mmap_pair \<times> segment" where
  "get_mmap_pair dir s field =
     (case hget (s_mmap_cache s) field of
        Some p \<Rightarrow> Inr (p, s\<lparr>s_mmap_order := touch field (s_mmap_order s)\<rparr>)
      | None \<Rightarrow>
          (case (hget dir (dat_file field), hget dir (off_file field)) of
             (Some dat, Some off) \<Rightarrow>
               let (cache, order) = evict (s_mmap_cache s) (s_mmap_order s) in
               Inr ((dat, off), s\<lparr>s_mmap_cache := hput field (dat, off) cache, s_mmap_order := order @ [field]\<rparr>)
           | _ \<Rightarrow> Inl FieldFilesNotFound))"

definition get_mmaps_batch :: "segment \<Rightarrow> string list \<Rightarrow> mmap_pair option list" where
  "get_mmaps_batch s flds = map (hget (s_mmap_cache s)) flds"

text \<open>Missing files are skipped; the order of use is not updated and nothing is evicted.\<close>

definition ensure_mmaps_batch :: "files \<Rightarrow> string list \<Rightarrow> segment \<Rightarrow> segment" where
  "ensure_mmaps_batch dir flds s =
     s\<lparr>s_mmap_cache := fold (\<lambda>field cache.
        case hget cache field of
          Some _ \<Rightarrow> cache
        | None \<Rightarrow> (case (hget dir (dat_file field), hget dir (off_file field)) of
                    (Some dat, Some off) \<Rightarrow> hput field (dat, off) cache
                  | _ \<Rightarrow> cache))
        (filter (\<lambda>f. hget (s_mmap_cache s) f = None) flds) (s_mmap_cache s)\<rparr>"

definition warm_up_indices :: "seg_codec \<Rightarrow> string list \<Rightarrow> segment \<Rightarrow> seg_error + segment" where
  "warm_up_indices cd flds s = fold_r (\<lambda>field s. rbind (get_bitmaps_cached cd s field) (\<lambda>(_, s). Inr s)) flds s"

section \<open>Reading a cell\<close>

text \<open>\<open>usize\<close> sums wrap at \<open>2\<^sup>6\<^sup>4\<close> (release build); a slice whose end is before its start panics.\<close>

definition wrap64 :: "nat \<Rightarrow> nat" where "wrap64 n = n mod 2 ^ 64"

definition slice_checked :: "bytes \<Rightarrow> nat \<Rightarrow> nat \<Rightarrow> bytes sliced" where
  "slice_checked bs a b = (if a \<le> b \<and> b \<le> length bs then Sliced (slice bs a b) else Panicked)"

text \<open>The bytes of a cell: \<open>None\<close> when one of the bounds checks fails.\<close>

definition cell_bytes :: "mmap_pair \<Rightarrow> u32 \<Rightarrow> bytes sliced option" where
  "cell_bytes mmaps local_id =
     (let (dat, off) = mmaps; start_idx = 8 * unat local_id in
      if length off < start_idx + 8 then None
      else let start_pos = unat (from_le64 (slice off start_idx (start_idx + 8))) in
        if length dat < wrap64 (start_pos + 8) then None
        else if wrap64 (start_pos + 8) < start_pos then Some Panicked
        else let len = unat (from_le64 (slice dat start_pos (start_pos + 8))); e = wrap64 (start_pos + 8 + len) in
          if length dat < e then None else Some (slice_checked dat (start_pos + 8) e))"

definition read_value_from_mmap :: "mmap_pair \<Rightarrow> u32 \<Rightarrow> string sliced" where
  "read_value_from_mmap mmaps local_id =
     (case cell_bytes mmaps local_id of
        None \<Rightarrow> Sliced [] | Some Panicked \<Rightarrow> Panicked | Some (Sliced bs) \<Rightarrow> Sliced (from_utf8_lossy bs))"

text \<open>A row: the first panic ends it.\<close>

fun sliced_list :: "'a sliced list \<Rightarrow> 'a list sliced" where
  "sliced_list [] = Sliced []"
| "sliced_list (Panicked # _) = Panicked"
| "sliced_list (Sliced a # r) = (case sliced_list r of Panicked \<Rightarrow> Panicked | Sliced as \<Rightarrow> Sliced (a # as))"

definition get_row_values_from_mmaps :: "u32 \<Rightarrow> mmap_pair option list \<Rightarrow> string list sliced" where
  "get_row_values_from_mmaps local_id mmaps =
     sliced_list (map (\<lambda>m. case m of None \<Rightarrow> Sliced [] | Some p \<Rightarrow> read_value_from_mmap p local_id) mmaps)"

definition cell_number :: "mmap_pair \<Rightarrow> u32 \<Rightarrow> f64 sliced" where
  "cell_number p local_id = (case cell_bytes p local_id of
     None \<Rightarrow> Sliced (Fin 0) | Some Panicked \<Rightarrow> Panicked
   | Some (Sliced bs) \<Rightarrow> Sliced (if bs = [] then Fin 0
       else case from_utf8 bs of None \<Rightarrow> Fin 0 | Some s \<Rightarrow> hdefault (Fin 0) (parse_f64 s)))"

definition get_row_numbers_from_mmaps :: "u32 \<Rightarrow> mmap_pair option list \<Rightarrow> f64 list sliced" where
  "get_row_numbers_from_mmaps local_id mmaps =
     sliced_list (map (\<lambda>m. case m of None \<Rightarrow> Sliced (Fin 0) | Some p \<Rightarrow> cell_number p local_id) mmaps)"

definition get_row_values :: "segment \<Rightarrow> u32 \<Rightarrow> string list \<Rightarrow> string list sliced" where
  "get_row_values s local_id flds = get_row_values_from_mmaps local_id (get_mmaps_batch s flds)"

section \<open>Search\<close>

text \<open>\<open>insert_range(0..record_count as u32)\<close> without the deleted rows.\<close>

definition all_live :: "segment \<Rightarrow> bitmap" where
  "all_live s = {i. i < ucast (s_record_count s)} - s_deleted s"

text \<open>Whether a filter's bounds exclude the whole segment. Texts are compared as texts, except for
  \<open>Between\<close>.\<close>

definition prune_skip :: "segment \<Rightarrow> filter_t \<Rightarrow> bool" where
  "prune_skip s f = (case hget (s_min_max s) (f_field f) of None \<Rightarrow> False
     | Some (lo, hi) \<Rightarrow> let val = f_value f in
         (case f_op f of
            Eq \<Rightarrow> val < lo \<or> hi < val
          | Gt \<Rightarrow> hi \<le> val
          | Gte \<Rightarrow> hi < val
          | Lt \<Rightarrow> val \<le> lo
          | Lte \<Rightarrow> val < lo
          | Between \<Rightarrow> (case f_value_to f of None \<Rightarrow> False
              | Some upper \<Rightarrow> compare_values hi val (f_type f) = Some Less
                  \<or> compare_values lo upper (f_type f) = Some Greater)
          | _ \<Rightarrow> False))"

definition bitmap_matches_for_filter :: "ext \<Rightarrow> bitmaps \<Rightarrow> filter_t \<Rightarrow> bitmap" where
  "bitmap_matches_for_filter x bms f =
     (case (if f_op f = Eq then hget bms (f_value f) else None) of
        Some bitmap \<Rightarrow> bitmap
      | None \<Rightarrow> fold (\<lambda>(key, bitmap) acc. if filter_holds x f key then acc \<union> bitmap else acc) bms {})"

text \<open>The loop over the filters, on the result and \<open>first\<close>.\<close>

definition combine_bitmap :: "logical_op \<Rightarrow> bitmap \<Rightarrow> bitmap option \<Rightarrow> bitmap option" where
  "combine_bitmap op b acc = (case acc of None \<Rightarrow> Some b
     | Some r \<Rightarrow> Some (case op of And \<Rightarrow> r \<inter> b | Or \<Rightarrow> r \<union> b))"

fun search_loop :: "ext \<Rightarrow> seg_codec \<Rightarrow> logical_op \<Rightarrow> filter_t list \<Rightarrow> bitmap option \<times> segment \<Rightarrow>
    seg_error + bitmap option \<times> segment" where
  "search_loop x cd op [] st = Inr st"
| "search_loop x cd op (f # fs) (acc, s) =
     rbind (get_bitmaps_cached cd s (f_field f)) (\<lambda>(bms, s).
       search_loop x cd op fs (combine_bitmap op (bitmap_matches_for_filter x bms f) acc, s))"

definition search_thread_safe ::
    "ext \<Rightarrow> seg_codec \<Rightarrow> segment \<Rightarrow> filter_t list \<Rightarrow> logical_op \<Rightarrow> seg_error + bitmap \<times> segment" where
  "search_thread_safe x cd s fs op =
     (let vf = valid_filters fs in
      if vf = [] then Inr (all_live s, s)
      else if list_ex (prune_skip s) vf then Inr ({}, s)
      else rbind (search_loop x cd op vf (None, s)) (\<lambda>(acc, s). Inr (hdefault {} acc - s_deleted s, s)))"

definition counts_of :: "bitmaps \<Rightarrow> bitmap \<Rightarrow> (string, nat) hmap" where
  "counts_of bms filter_bitmap =
     fold (\<lambda>(val, bm) counts. if 0 < card (bm \<inter> filter_bitmap)
        then hput val (card (bm \<inter> filter_bitmap)) counts else counts) bms []"

definition get_counts_thread_safe ::
    "seg_codec \<Rightarrow> segment \<Rightarrow> string \<Rightarrow> bitmap \<Rightarrow> seg_error + (string, nat) hmap" where
  "get_counts_thread_safe cd s field filter_bitmap =
     rbind (read_bitmaps cd (s_dir s) field) (\<lambda>bms. Inr (counts_of bms filter_bitmap))"

section \<open>The writer\<close>

record segment_writer =
  w_segment :: segment
  w_writers :: "(string, bufw \<times> bufw \<times> u64) hmap"
  w_bitmaps :: "(string, bitmaps) hmap"
  w_dirty :: bool
  w_flush_count :: u32

text \<open>The directory as another file handle sees it.\<close>

definition writer_dir :: "segment_writer \<Rightarrow> files" where
  "writer_dir w = fold (\<lambda>(col, (dat, off, _)) fs. hput (dat_file col) (bw_file dat) (hput (off_file col) (bw_file off) fs))
     (w_writers w) (s_dir (w_segment w))"

definition add_row :: "u32 \<Rightarrow> string \<Rightarrow> bitmaps \<Rightarrow> bitmaps" where
  "add_row local_id val bms = hput val (hdefault {} (hget bms val) \<union> {local_id}) bms"

fun rebuild_loop :: "seg_codec \<Rightarrow> segment \<Rightarrow> bytes \<Rightarrow> bytes \<Rightarrow> nat list \<Rightarrow> bitmaps \<Rightarrow> bitmaps" where
  "rebuild_loop cd s dat offsets [] bms = bms"
| "rebuild_loop cd s dat offsets (i # is) bms =
     (if of_nat i \<in> s_deleted s then rebuild_loop cd s dat offsets is bms
      else let n = length offsets div 8;
             st = unat (from_le64 (slice offsets (i * 8) (i * 8 + 8)));
             e = (if i + 1 < n then unat (from_le64 (slice offsets ((i + 1) * 8) ((i + 1) * 8 + 8))) else length dat) in
        if e \<le> st \<or> length dat < e then rebuild_loop cd s dat offsets is bms
        else (case dec_str cd (slice dat st e) of
                None \<Rightarrow> rebuild_loop cd s dat offsets is bms
              | Some val \<Rightarrow> rebuild_loop cd s dat offsets is (add_row (of_nat i) val bms)))"

definition rebuild_bitmap_from_data :: "seg_codec \<Rightarrow> segment \<Rightarrow> string \<Rightarrow> bitmaps" where
  "rebuild_bitmap_from_data cd s col =
     (case (hget (s_dir s) (dat_file col), hget (s_dir s) (off_file col)) of
        (Some dat, Some offsets) \<Rightarrow> rebuild_loop cd s dat offsets [0 ..< length offsets div 8] []
      | _ \<Rightarrow> [])"

definition strip_suffix :: "string \<Rightarrow> string \<Rightarrow> string option" where
  "strip_suffix suf s = map_option rev (strip_prefix (rev suf) (rev s))"

definition rehydrate_bitmaps_from_disk :: "seg_codec \<Rightarrow> segment \<Rightarrow> (string, bitmaps) hmap" where
  "rehydrate_bitmaps_from_disk cd s =
     fold (\<lambda>col acc.
       let bms = (case hget (s_dir s) (bitmaps_file col) of
             Some bs \<Rightarrow> hdefault [] (dec_bitmaps cd bs)
           | None \<Rightarrow> rebuild_bitmap_from_data cd s col) in
       if bms \<noteq> [] then hput col bms acc else acc)
     (List.map_filter (\<lambda>(n, _). strip_suffix ''.offsets'' n) (s_dir s)) []"

definition segment_writer_new :: "seg_codec \<Rightarrow> segment \<Rightarrow> segment_writer" where
  "segment_writer_new cd s = \<lparr>w_segment = s, w_writers = [],
     w_bitmaps = (if 0 < s_record_count s then rehydrate_bitmaps_from_disk cd s else []),
     w_dirty = False, w_flush_count = 0\<rparr>"

definition open_column :: "segment_writer \<Rightarrow> string \<Rightarrow> bufw \<times> bufw \<times> u64" where
  "open_column w col =
     (let dat = hdefault [] (hget (s_dir (w_segment w)) (dat_file col));
          off = hdefault [] (hget (s_dir (w_segment w)) (off_file col)) in
      (bw_open dat, bw_open off, of_nat (length dat)))"

text \<open>The entry of \<open>writers\<close>, opened on first use.\<close>

definition column_of :: "segment_writer \<Rightarrow> string \<Rightarrow> bufw \<times> bufw \<times> u64" where
  "column_of w col = (case hget (w_writers w) col of Some t \<Rightarrow> t | None \<Rightarrow> open_column w col)"

definition append_cell :: "ext \<Rightarrow> u32 \<Rightarrow> string \<times> string \<Rightarrow> segment_writer \<Rightarrow> segment_writer" where
  "append_cell x local_id cv w =
     (let (col, val) = cv;
          (dat, off, current_offset) = column_of w col;
          encoded = bincode_str x val in
      w\<lparr>w_writers := hput col (bw_write_all encoded dat, bw_write_all (le64 current_offset) off,
            current_offset + of_nat (length encoded)) (w_writers w),
        w_bitmaps := hput col (add_row local_id val (hdefault [] (hget (w_bitmaps w) col))) (w_bitmaps w),
        w_segment := update_metadata col val (w_segment w)\<rparr>)"

definition append_record :: "ext \<Rightarrow> (string, string) hmap \<Rightarrow> segment_writer \<Rightarrow> segment_writer" where
  "append_record x row w =
     (let local_id = ucast (s_record_count (w_segment w));
          w = fold (append_cell x local_id) row w in
      w\<lparr>w_segment := (w_segment w)\<lparr>s_record_count := s_record_count (w_segment w) + 1\<rparr>, w_dirty := True\<rparr>)"

definition flush_column :: "bufw \<times> bufw \<times> u64 \<Rightarrow> bufw \<times> bufw \<times> u64" where
  "flush_column t = (case t of (dat, off, n) \<Rightarrow> (bw_flush dat, bw_flush off, n))"

definition flush_writers :: "segment_writer \<Rightarrow> segment_writer" where
  "flush_writers w = w\<lparr>w_writers := map (\<lambda>(col, t). (col, flush_column t)) (w_writers w)\<rparr>"

definition flush_buffers :: "seg_codec \<Rightarrow> segment_writer \<Rightarrow> segment_writer" where
  "flush_buffers cd w = (let w = flush_writers w in
     w\<lparr>w_segment := invalidate_mmap_cache (persist_deleted_bitmap cd (w_segment w))\<rparr>)"

definition persist_bitmaps :: "seg_codec \<Rightarrow> segment_writer \<Rightarrow> segment_writer" where
  "persist_bitmaps cd w = w\<lparr>w_segment := (w_segment w)\<lparr>s_dir :=
     fold (\<lambda>(col, m). hput (bitmaps_file col) (enc_bitmaps cd m)) (w_bitmaps w) (s_dir (w_segment w))\<rparr>\<rparr>"

text \<open>The rewrite interval comes from the environment (5 when unset); zero makes the remainder
  panic.\<close>

definition writer_flush :: "seg_codec \<Rightarrow> u32 \<Rightarrow> segment_writer \<Rightarrow> seg_error + segment_writer" where
  "writer_flush cd interval w =
     (if \<not> w_dirty w then Inr w
      else let w = flush_writers w;
             w = w\<lparr>w_segment := persist_deleted_bitmap cd (save_metadata cd (w_segment w)),
                   w_flush_count := w_flush_count w + 1\<rparr> in
        if interval = 0 then Inl DivisionByZero
        else let w = (if w_flush_count w mod interval = 0 then persist_bitmaps cd w else w) in
          Inr (w\<lparr>w_dirty := False, w_segment := invalidate_mmap_cache (w_segment w)\<rparr>))"

definition writer_search :: "ext \<Rightarrow> segment_writer \<Rightarrow> filter_t list \<Rightarrow> logical_op \<Rightarrow> bitmap" where
  "writer_search x w fs op =
     (let vf = valid_filters fs; s = w_segment w in
      if vf = [] then all_live s
      else if list_ex (prune_skip s) vf then {}
      else hdefault {} (fold (\<lambda>f. combine_bitmap op
             (bitmap_matches_for_filter x (hdefault [] (hget (w_bitmaps w) (f_field f))) f)) vf None) - s_deleted s)"

definition writer_get_counts :: "segment_writer \<Rightarrow> string \<Rightarrow> bitmap \<Rightarrow> (string, nat) hmap" where
  "writer_get_counts w field filter_bitmap = counts_of (hdefault [] (hget (w_bitmaps w) field)) filter_bitmap"

section \<open>What the writer holds\<close>

text \<open>The layout of a string in \<^verbatim>\<open>bincode\<close>, on which the readers rely.\<close>

definition str_layout :: "ext \<Rightarrow> bool" where
  "str_layout x \<longleftrightarrow> (\<forall>s. bincode_str x s = le64 (of_nat (length s)) @ s)"

definition col_data :: "ext \<Rightarrow> string list \<Rightarrow> bytes" where
  "col_data x vals = concat (map (bincode_str x) vals)"

fun offsets_from :: "ext \<Rightarrow> nat \<Rightarrow> string list \<Rightarrow> bytes" where
  "offsets_from x n [] = []"
| "offsets_from x n (v # vs) = le64 (of_nat n) @ offsets_from x (n + length (bincode_str x v)) vs"

text \<open>The column files of a writer hold the cells \<open>vals\<close>, one per row.\<close>

definition col_holds :: "ext \<Rightarrow> segment_writer \<Rightarrow> string \<Rightarrow> string list \<Rightarrow> bool" where
  "col_holds x w col vals \<longleftrightarrow>
     (case column_of w col of (dat, off, n) \<Rightarrow>
        bw_ok dat \<and> bw_ok off \<and> bw_all dat = col_data x vals \<and> bw_all off = offsets_from x 0 vals \<and>
        n = of_nat (length (col_data x vals)))"

lemma col_data_snoc: "col_data x (vals @ [v]) = col_data x vals @ bincode_str x v"
  by (simp add: col_data_def)

lemma offsets_snoc: "offsets_from x n (vals @ [v]) = offsets_from x n vals @ le64 (of_nat (n + length (col_data x vals)))"
  by (induction vals arbitrary: n) (simp_all add: col_data_def add.assoc)

lemma append_cell_dir [simp]: "s_dir (w_segment (append_cell x i cv w)) = s_dir (w_segment w)"
  by (simp add: append_cell_def Let_def split_beta update_metadata_def)

lemma column_of_append:
  "column_of (append_cell x i (c, v) w) col =
     (if c = col then (case column_of w col of (dat, off, n) \<Rightarrow>
        (bw_write_all (bincode_str x v) dat, bw_write_all (le64 n) off, n + of_nat (length (bincode_str x v))))
      else column_of w col)"
  by (simp add: column_of_def append_cell_def Let_def split_beta open_column_def update_metadata_def
      split: option.splits)

lemma append_cell_same: "col_holds x w col vals \<Longrightarrow> col_holds x (append_cell x i (col, v) w) col (vals @ [v])"
  by (auto simp: col_holds_def column_of_append col_data_snoc offsets_snoc split: prod.splits)

lemma append_cell_other:
  "c \<noteq> col \<Longrightarrow> col_holds x (append_cell x i (c, v) w) col vals = col_holds x w col vals"
  by (simp add: col_holds_def column_of_append)

lemma append_cells_other:
  "col \<notin> fst ` set row \<Longrightarrow> col_holds x (fold (append_cell x i) row w) col vals = col_holds x w col vals"
proof (induction row arbitrary: w)
  case (Cons cv row)
  then show ?case by (cases cv) (auto simp: append_cell_other)
qed simp

lemma append_cells:
  "hwf row \<Longrightarrow> hget row col = Some v \<Longrightarrow> col_holds x w col vals \<Longrightarrow>
   col_holds x (fold (append_cell x i) row w) col (vals @ [v])"
proof (induction row arbitrary: w)
  case (Cons cv row)
  obtain c u where cv: "cv = (c, u)" by (cases cv)
  show ?case
  proof (cases "c = col")
    case True
    with Cons.prems cv have "col \<notin> fst ` set row" "u = v" by (auto simp: hwf_def hget_Cons)
    with Cons.prems(3) True cv show ?thesis by (simp add: append_cells_other append_cell_same)
  next
    case False
    with Cons cv show ?thesis by (simp add: append_cell_other hwf_Cons hget_Cons)
  qed
qed simp

lemma col_holds_cong:
  "w_writers w' = w_writers w \<Longrightarrow> s_dir (w_segment w') = s_dir (w_segment w) \<Longrightarrow>
   col_holds x w' col vals = col_holds x w col vals"
  by (simp add: col_holds_def column_of_def open_column_def split: option.splits)

lemma append_record_col:
  "hwf row \<Longrightarrow> hget row col = Some v \<Longrightarrow> col_holds x w col vals \<Longrightarrow>
   col_holds x (append_record x row w) col (vals @ [v])"
  using append_cells [of row col v x w vals "ucast (s_record_count (w_segment w))"]
  by (subst col_holds_cong [where w = "fold (append_cell x (ucast (s_record_count (w_segment w)))) row w"])
    (simp_all add: append_record_def Let_def)

lemma append_record_missing:
  "hget row col = None \<Longrightarrow> col_holds x (append_record x row w) col vals = col_holds x w col vals"
  using append_cells_other [of col row x "ucast (s_record_count (w_segment w))" w vals]
  by (subst col_holds_cong [where w = "fold (append_cell x (ucast (s_record_count (w_segment w)))) row w"])
    (simp_all add: append_record_def Let_def hget_None_iff)

definition append_records :: "ext \<Rightarrow> (string, string) hmap list \<Rightarrow> segment_writer \<Rightarrow> segment_writer" where
  "append_records x rows w = fold (append_record x) rows w"

text \<open>A column holds the cells of the rows that have it, with nothing for the rows that do not.\<close>

definition present :: "string \<Rightarrow> (string, string) hmap list \<Rightarrow> string list" where
  "present col rows = List.map_filter (\<lambda>row. hget row col) rows"

lemma present_simps [simp]:
  "present col [] = []"
  "present col (row # rows) = (case hget row col of None \<Rightarrow> present col rows | Some v \<Rightarrow> v # present col rows)"
  by (simp_all add: present_def List.map_filter_simps split: option.splits)

lemma present_all:
  "list_all (\<lambda>row. hget row col \<noteq> None) rows \<Longrightarrow> present col rows = map (\<lambda>row. the (hget row col)) rows"
  by (induction rows) auto

lemma append_records_col:
  "list_all hwf rows \<Longrightarrow> col_holds x w col vals \<Longrightarrow>
   col_holds x (append_records x rows w) col (vals @ present col rows)"
proof (induction rows arbitrary: w vals)
  case (Cons row rows)
  show ?case
  proof (cases "hget row col")
    case None
    with Cons.IH [of "append_record x row w" vals] Cons.prems show ?thesis
      by (simp add: append_records_def append_record_missing)
  next
    case (Some v)
    with Cons.IH [of "append_record x row w" "vals @ [v]"] Cons.prems append_record_col [of row col v x w vals]
    show ?thesis by (simp add: append_records_def)
  qed
qed (simp add: append_records_def)

definition fresh_writer :: "u64 \<Rightarrow> segment_writer" where
  "fresh_writer i = \<lparr>w_segment = segment_new i, w_writers = [], w_bitmaps = [], w_dirty = False, w_flush_count = 0\<rparr>"

lemma fresh_col: "col_holds x (fresh_writer i) col []"
  by (simp add: col_holds_def column_of_def fresh_writer_def open_column_def segment_new_def col_data_def)

section \<open>Reading back\<close>

lemma offsets_length [simp]: "length (offsets_from x n vals) = 8 * length vals"
  by (induction vals arbitrary: n) simp_all

lemma offsets_nth:
  "i < length vals \<Longrightarrow> slice (offsets_from x n vals) (8 * i) (8 * i + 8) =
     le64 (of_nat (n + length (col_data x (take i vals))))"
proof (induction vals arbitrary: n i)
  case (Cons v vals)
  then show ?case
  proof (cases i)
    case (Suc j)
    with Cons.IH [of j "n + length (bincode_str x v)"] Cons.prems show ?thesis
      by (simp add: slice_def col_data_def add.assoc)
  qed (simp add: slice_def col_data_def)
qed simp

lemma col_data_split:
  "i < length vals \<Longrightarrow>
   col_data x vals = col_data x (take i vals) @ bincode_str x (vals ! i) @ col_data x (drop (Suc i) vals)"
  by (subst id_take_nth_drop [of i vals]) (simp_all add: col_data_def)

lemma read_cell:
  assumes l: "str_layout x" and i: "i < length vals" and sz: "length (col_data x vals) < 2 ^ 63"
    and n: "length vals \<le> 2 ^ 32"
  shows "cell_bytes (col_data x vals, offsets_from x 0 vals) (of_nat i) = Some (Sliced (vals ! i))"
proof -
  let ?p = "length (col_data x (take i vals))" and ?v = "vals ! i"
  have e: "bincode_str x ?v = le64 (of_nat (length ?v)) @ ?v" using l by (simp add: str_layout_def)
  note d = col_data_split [OF i, of x, unfolded e]
  have len: "?p + 8 + length ?v \<le> length (col_data x vals)" using arg_cong [OF d, of length] by simp
  with sz have b: "?p < 2 ^ 64" "?p + 8 < 2 ^ 64" "?p + 8 + length ?v < 2 ^ 64" "length ?v < 2 ^ 64" by simp_all
  have u: "unat (of_nat i :: u32) = i" using i n by (simp add: unat_of_nat take_bit_nat_eq_self)
  have s1: "slice (col_data x vals) ?p (?p + 8) = le64 (of_nat (length ?v))"
    unfolding d by (simp add: slice_def)
  have s2: "slice (col_data x vals) (?p + 8) (?p + 8 + length ?v) = ?v"
    unfolding d by (simp add: slice_def)
  have up: "unat (of_nat ?p :: u64) = ?p" "unat (of_nat (length ?v) :: u64) = length ?v"
    using b by (simp_all add: unat_of_nat take_bit_nat_eq_self)
  show ?thesis
    using i len b by (simp add: cell_bytes_def Let_def u offsets_nth up s1 s2 wrap64_def slice_checked_def)
qed

text \<open>What a reader maps after the writer's buffers were flushed.\<close>

lemma flushed_column:
  assumes "col_holds x w col vals" "hget (w_writers w) col \<noteq> None"
  shows "hget (w_writers (flush_writers w)) col =
    Some (\<lparr>bw_file = col_data x vals, bw_buf = []\<rparr>, \<lparr>bw_file = offsets_from x 0 vals, bw_buf = []\<rparr>,
      of_nat (length (col_data x vals)))"
  using assms hget_map_val [of "\<lambda>_. flush_column" "w_writers w" col]
  by (auto simp: flush_writers_def flush_column_def col_holds_def column_of_def bw_flush_def bw_all_def)

lemma append_record_dir [simp]: "s_dir (w_segment (append_record x row w)) = s_dir (w_segment w)"
proof -
  have "s_dir (w_segment (fold (append_cell x i) r v)) = s_dir (w_segment v)" for i r v
    by (induction r arbitrary: v) simp_all
  then show ?thesis by (simp add: append_record_def Let_def)
qed

lemma append_records_dir [simp]: "s_dir (w_segment (append_records x rows w)) = s_dir (w_segment w)"
  by (induction rows arbitrary: w) (simp_all add: append_records_def)

lemma append_record_wf: "hwf (w_writers w) \<Longrightarrow> hwf (w_writers (append_record x row w))"
proof -
  have "hwf (w_writers v) \<Longrightarrow> hwf (w_writers (fold (append_cell x i) r v))" for i r v
    by (induction r arbitrary: v) (simp_all add: append_cell_def Let_def split_beta)
  then show "hwf (w_writers w) \<Longrightarrow> hwf (w_writers (append_record x row w))"
    by (simp add: append_record_def Let_def)
qed

lemma append_records_wf: "hwf (w_writers w) \<Longrightarrow> hwf (w_writers (append_records x rows w))"
  by (induction rows arbitrary: w) (simp_all add: append_records_def append_record_wf)

lemma file_names:
  "dat_file a = dat_file b \<longleftrightarrow> a = b" "off_file a = off_file b \<longleftrightarrow> a = b" "dat_file a \<noteq> off_file b"
proof -
  have "last (dat_file a) \<noteq> last (off_file b)" by (simp add: dat_file_def off_file_def)
  then show "dat_file a \<noteq> off_file b" by metis
qed (simp_all add: dat_file_def off_file_def)

lemma writer_dir_get:
  assumes "hwf (w_writers w)" "hget (w_writers w) col = Some (dat, off, n)"
  shows "hget (writer_dir w) (dat_file col) = Some (bw_file dat)"
    "hget (writer_dir w) (off_file col) = Some (bw_file off)"
proof -
  have "hwf ws \<Longrightarrow> hget (fold (\<lambda>(col, (dat, off, _)) fs.
       hput (dat_file col) (bw_file dat) (hput (off_file col) (bw_file off) fs)) ws fs) (dat_file col) =
      (case hget ws col of Some (dat, off, n) \<Rightarrow> Some (bw_file dat) | None \<Rightarrow> hget fs (dat_file col)) \<and>
    hget (fold (\<lambda>(col, (dat, off, _)) fs.
       hput (dat_file col) (bw_file dat) (hput (off_file col) (bw_file off) fs)) ws fs) (off_file col) =
      (case hget ws col of Some (dat, off, n) \<Rightarrow> Some (bw_file off) | None \<Rightarrow> hget fs (off_file col))"
    for ws :: "(string, bufw \<times> bufw \<times> u64) hmap" and fs
  proof (induction ws arbitrary: fs)
    case (Cons cw ws)
    obtain c d e m where cw: "cw = (c, d, e, m)" by (cases cw)
    from Cons.prems cw have "hwf ws" and n: "c = col \<Longrightarrow> hget ws col = None"
      by (auto simp: hwf_Cons hget_None_iff)
    with Cons.IH show ?case
      by (cases "c = col") (simp_all add: cw hget_Cons file_names file_names(3) [symmetric] split: option.splits)
  qed simp
  with assms show "hget (writer_dir w) (dat_file col) = Some (bw_file dat)"
    "hget (writer_dir w) (off_file col) = Some (bw_file off)"
    by (simp_all add: writer_dir_def)
qed

lemma read_column:
  assumes "str_layout x" "list_all hwf rows" "rows' = present col rows" "rows' \<noteq> []"
    "length (col_data x rows') < 2 ^ 63" "length rows' \<le> 2 ^ 32" "list_all utf8_valid rows'"
    "w = flush_buffers cd (append_records x rows (fresh_writer sid))"
  shows "\<exists>s'. get_mmap_pair (writer_dir w) (w_segment w) col =
      Inr ((col_data x rows', offsets_from x 0 rows'), s') \<and>
    (\<forall>j < length rows'. read_value_from_mmap (col_data x rows', offsets_from x 0 rows') (of_nat j) = Sliced (rows' ! j))"
proof -
  let ?v = "append_records x rows (fresh_writer sid)"
  have h: "col_holds x ?v col rows'"
    using append_records_col [OF assms(2) fresh_col] assms(3) by simp
  have opened: "hget (w_writers ?v) col \<noteq> None"
  proof
    assume "hget (w_writers ?v) col = None"
    with h assms(4) show False
      by (auto simp: col_holds_def column_of_def open_column_def fresh_writer_def segment_new_def
          dest!: arg_cong [of _ _ length])
  qed
  have wf: "hwf (w_writers (flush_writers ?v))"
    using append_records_wf [of "fresh_writer sid" x rows] by (simp add: flush_writers_def hwf_map_val fresh_writer_def)
  have dir: "w_writers w = w_writers (flush_writers ?v)"
    "s_mmap_cache (w_segment w) = []" "s_mmap_order (w_segment w) = []"
    by (simp_all add: assms(8) flush_buffers_def Let_def invalidate_mmap_cache_def)
  note f = flushed_column [OF h opened]
  have "hget (writer_dir w) (dat_file col) = Some (col_data x rows')"
    "hget (writer_dir w) (off_file col) = Some (offsets_from x 0 rows')"
    using writer_dir_get [of w col] wf f dir(1) by simp_all
  then have "\<exists>s'. get_mmap_pair (writer_dir w) (w_segment w) col =
      Inr ((col_data x rows', offsets_from x 0 rows'), s')"
    by (simp add: get_mmap_pair_def dir)
  moreover have "read_value_from_mmap (col_data x rows', offsets_from x 0 rows') (of_nat j) = Sliced (rows' ! j)"
    if "j < length rows'" for j
    using read_cell [OF assms(1) that assms(5,6)] assms(7) that
    by (simp add: read_value_from_mmap_def from_utf8_lossy_valid list_all_length)
  ultimately show ?thesis by blast
qed

section \<open>What the writer's index holds\<close>

definition bm_of :: "segment_writer \<Rightarrow> string \<Rightarrow> bitmaps" where
  "bm_of w col = hdefault [] (hget (w_bitmaps w) col)"

definition mm_of :: "segment_writer \<Rightarrow> string \<Rightarrow> (string \<times> string) option" where
  "mm_of w col = hget (s_min_max (w_segment w)) col"

text \<open>The rows with a value in a column.\<close>

definition rows_with :: "string \<Rightarrow> string \<Rightarrow> (string, string) hmap list \<Rightarrow> bitmap" where
  "rows_with col val rows = {of_nat i | i. i < length rows \<and> hget (rows ! i) col = Some val}"

definition bounds_of :: "string list \<Rightarrow> (string \<times> string) option" where
  "bounds_of vs = (if vs = [] then None else Some (Min (set vs), Max (set vs)))"

text \<open>The writer's row count, bitmaps and bounds are those of the rows appended.\<close>

definition w_rep :: "segment_writer \<Rightarrow> (string, string) hmap list \<Rightarrow> bool" where
  "w_rep w rows \<longleftrightarrow> s_record_count (w_segment w) = of_nat (length rows) \<and>
     (\<forall>col val. hget (bm_of w col) val = (if rows_with col val rows = {} then None else Some (rows_with col val rows))) \<and>
     (\<forall>col. hwf (bm_of w col)) \<and> (\<forall>col. mm_of w col = bounds_of (present col rows))"

lemma append_cell_bm:
  "bm_of (append_cell x i (c, v) w) col = (if c = col then add_row i v (bm_of w col) else bm_of w col)"
  by (simp add: bm_of_def append_cell_def Let_def split_beta)

lemma append_cell_mm:
  "mm_of (append_cell x i (c, v) w) col = (if c = col
     then (let (lo, hi) = hdefault (v, v) (mm_of w col) in Some (if v < lo then v else lo, if hi < v then v else hi))
     else mm_of w col)"
  by (simp add: mm_of_def append_cell_def Let_def split_beta update_metadata_def)

lemma append_cells_bm:
  "hwf row \<Longrightarrow> bm_of (fold (append_cell x i) row w) col =
     (case hget row col of None \<Rightarrow> bm_of w col | Some v \<Rightarrow> add_row i v (bm_of w col)) \<and>
   mm_of (fold (append_cell x i) row w) col = (case hget row col of None \<Rightarrow> mm_of w col
     | Some v \<Rightarrow> (let (lo, hi) = hdefault (v, v) (mm_of w col) in Some (if v < lo then v else lo, if hi < v then v else hi)))"
proof (induction row arbitrary: w)
  case (Cons cv row)
  obtain c v where cv: "cv = (c, v)" by (cases cv)
  from Cons.prems cv have wf: "hwf row" and n: "c = col \<Longrightarrow> hget row col = None"
    by (auto simp: hwf_Cons hget_None_iff)
  show ?case
    using Cons.IH [OF wf] n by (cases "c = col") (simp_all add: cv append_cell_bm append_cell_mm hget_Cons split: option.splits)
qed simp

lemma rows_with_snoc:
  "rows_with col val (rows @ [row]) = rows_with col val rows \<union>
     (if hget row col = Some val then {of_nat (length rows)} else {})"
proof -
  have "i < length (rows @ [row]) \<and> hget ((rows @ [row]) ! i) col = Some val \<longleftrightarrow>
      i < length rows \<and> hget (rows ! i) col = Some val \<or> i = length rows \<and> hget row col = Some val" for i
    by (auto simp: nth_append less_Suc_eq)
  then show ?thesis unfolding rows_with_def by auto
qed

lemma bounds_snoc: "bounds_of (vs @ [v]) = (let (lo, hi) = hdefault (v, v) (bounds_of vs) in
   Some (if v < lo then v else lo, if hi < v then v else hi))"
proof (cases "vs = []")
  case False
  have "(if v < m then v else m) = min v m" "(if m < v then v else m) = max v m" for m
    by (auto simp: min_def max_def)
  with False show ?thesis by (simp add: bounds_of_def)
qed (simp add: bounds_of_def)

lemma present_snoc: "present col (rows @ [row]) = present col rows @ (case hget row col of None \<Rightarrow> [] | Some v \<Rightarrow> [v])"
  by (induction rows) (auto split: option.splits)

lemma append_record_rep:
  assumes "w_rep w rows" "hwf row" "length rows < 2 ^ 32"
  shows "w_rep (append_record x row w) (rows @ [row])"
proof -
  let ?i = "ucast (s_record_count (w_segment w)) :: u32"
  have i: "ucast (of_nat (length rows) :: u64) = (of_nat (length rows) :: u32)"
    using assms(3) by (simp add: unsigned_of_nat take_bit_nat_eq_self)
  let ?f = "fold (append_cell x ?i) row w"
  have rc: "s_record_count (w_segment (fold (append_cell x j) r v)) = s_record_count (w_segment v)" for j r v
    by (induction r arbitrary: v) (simp_all add: append_cell_def Let_def split_beta update_metadata_def)
  have "bm_of (append_record x row w) col = bm_of ?f col" "mm_of (append_record x row w) col = mm_of ?f col" for col
    by (simp_all add: append_record_def Let_def bm_of_def mm_of_def)
  note bm = this [unfolded append_cells_bm [OF assms(2), THEN conjunct1] append_cells_bm [OF assms(2), THEN conjunct2]]
  have B: "hget (bm_of (append_record x row w) col) val =
     (if rows_with col val (rows @ [row]) = {} then None else Some (rows_with col val (rows @ [row])))" for col val
    using assms(1) by (cases "hget row col")
      (auto simp: bm(1) rows_with_snoc w_rep_def add_row_def i)
  moreover have "hwf (bm_of (append_record x row w) col)" for col
    using assms(1) by (cases "hget row col") (simp_all add: bm(1) w_rep_def add_row_def)
  moreover have "mm_of (append_record x row w) col = bounds_of (present col (rows @ [row]))" for col
    using assms(1) by (cases "hget row col") (simp_all add: bm(2) w_rep_def present_snoc bounds_snoc)
  moreover have "s_record_count (w_segment (append_record x row w)) = of_nat (length (rows @ [row]))"
    using assms(1) by (simp add: append_record_def Let_def rc w_rep_def)
  ultimately show ?thesis by (simp add: w_rep_def)
qed

lemma fresh_rep: "w_rep (fresh_writer i) []"
  by (simp add: w_rep_def fresh_writer_def segment_new_def bm_of_def mm_of_def rows_with_def bounds_of_def)

lemma append_records_rep:
  "w_rep w rows \<Longrightarrow> list_all hwf rs \<Longrightarrow> length rows + length rs \<le> 2 ^ 32 \<Longrightarrow>
   w_rep (append_records x rs w) (rows @ rs)"
proof (induction rs arbitrary: w rows)
  case (Cons r rs)
  with append_record_rep [of w rows r x] Cons.IH [of "append_record x r w" "rows @ [r]"] show ?case
    by (simp add: append_records_def)
qed (simp add: append_records_def)

section \<open>What a search should return\<close>

definition row_holds :: "ext \<Rightarrow> filter_t \<Rightarrow> (string, string) hmap \<Rightarrow> bool" where
  "row_holds x f row \<longleftrightarrow> (\<exists>v. hget row (f_field f) = Some v \<and> filter_holds x f v)"

definition rows_matching :: "ext \<Rightarrow> filter_t \<Rightarrow> (string, string) hmap list \<Rightarrow> bitmap" where
  "rows_matching x f rows = {of_nat i | i. i < length rows \<and> row_holds x f (rows ! i)}"

text \<open>A filter that compares the cells of its column as texts: none of them and of its bounds is
  read as a number or a date.\<close>

definition textual :: "filter_t \<Rightarrow> (string, string) hmap list \<Rightarrow> bool" where
  "textual f rows \<longleftrightarrow> (\<forall>v\<in>set (present (f_field f) rows). \<forall>b\<in>insert (f_value f) (set_option (f_value_to f)).
     compare_values v b (f_type f) = Some (cmp_ord v b))"

lemma fold_union:
  "fold (\<lambda>(key, b) acc. if P key then acc \<union> b else acc) bms acc = acc \<union> \<Union> {b. \<exists>key. (key, b) \<in> set bms \<and> P key}"
proof (induction bms arbitrary: acc)
  case (Cons kb bms)
  obtain k b where kb: "kb = (k, b)" by (cases kb)
  have "\<Union> {b'. \<exists>key. (key, b') \<in> set ((k, b) # bms) \<and> P key} =
      (if P k then b else {}) \<union> \<Union> {b'. \<exists>key. (key, b') \<in> set bms \<and> P key}" by auto
  with Cons.IH show ?case by (simp add: kb Un_assoc)
qed simp

lemma present_mem: "v \<in> set (present col rows) \<longleftrightarrow> (\<exists>i < length rows. hget (rows ! i) col = Some v)"
proof -
  have "v \<in> set (present col rows) \<longleftrightarrow> (\<exists>row\<in>set rows. hget row col = Some v)"
    by (induction rows) (auto split: option.splits)
  then show ?thesis by (metis in_set_conv_nth)
qed

lemma scan_bitmaps:
  assumes "w_rep w rows"
  shows "\<Union> {b. \<exists>key. (key, b) \<in> set (bm_of w col) \<and> filter_holds x f key} =
    {of_nat i | i. i < length rows \<and> (\<exists>v. hget (rows ! i) col = Some v \<and> filter_holds x f v)}"
proof -
  have "(key, b) \<in> set (bm_of w col) \<longleftrightarrow> b = rows_with col key rows \<and> b \<noteq> {}" for key b
    using assms hget_Some_iff [of "bm_of w col" key b] by (auto simp: w_rep_def split: if_splits)
  then have "\<Union> {b. \<exists>key. (key, b) \<in> set (bm_of w col) \<and> filter_holds x f key} =
      \<Union> {rows_with col key rows | key. filter_holds x f key}" by blast
  also have "\<dots> = {of_nat i | i. i < length rows \<and> (\<exists>v. hget (rows ! i) col = Some v \<and> filter_holds x f v)}"
    unfolding rows_with_def by blast
  finally show ?thesis .
qed

lemma textual_cmp:
  "textual f rows \<Longrightarrow> v \<in> set (present (f_field f) rows) \<Longrightarrow>
   compare_values v (f_value f) (f_type f) = Some (cmp_ord v (f_value f)) \<and>
   (\<forall>u. f_value_to f = Some u \<longrightarrow> compare_values v u (f_type f) = Some (cmp_ord v u))"
  by (auto simp: textual_def)

lemma bitmap_matches:
  assumes "w_rep w rows" "textual f rows"
  shows "bitmap_matches_for_filter x (bm_of w (f_field f)) f = rows_matching x f rows"
proof (cases "f_op f = Eq \<and> hget (bm_of w (f_field f)) (f_value f) \<noteq> None")
  case True
  have "filter_holds x f v \<longleftrightarrow> v = f_value f" if "v \<in> set (present (f_field f) rows)" for v
    using textual_cmp [OF assms(2) that] True by (simp add: filter_holds_def)
  then have "rows_matching x f rows = rows_with (f_field f) (f_value f) rows"
    by (auto simp: rows_matching_def rows_with_def row_holds_def present_mem)
  with True assms(1) show ?thesis by (auto simp: bitmap_matches_for_filter_def w_rep_def split: if_splits)
next
  case False
  then have "bitmap_matches_for_filter x (bm_of w (f_field f)) f =
      \<Union> {b. \<exists>key. (key, b) \<in> set (bm_of w (f_field f)) \<and> filter_holds x f key}"
    by (auto simp: bitmap_matches_for_filter_def fold_union)
  with scan_bitmaps [OF assms(1)] show ?thesis by (simp add: rows_matching_def row_holds_def)
qed

text \<open>Pruning a segment on a textual filter drops no row.\<close>

lemma prune_sound:
  assumes "w_rep w rows" "textual f rows" "prune_skip (w_segment w) f"
  shows "rows_matching x f rows = {}"
proof -
  let ?vs = "present (f_field f) rows"
  have mm: "hget (s_min_max (w_segment w)) (f_field f) = bounds_of ?vs"
    using assms(1) by (simp add: w_rep_def mm_of_def)
  have "\<not> filter_holds x f v" if v: "v \<in> set ?vs" for v
  proof -
    define lo where "lo = Min (set ?vs)"
    define hi where "hi = Max (set ?vs)"
    have b: "bounds_of ?vs = Some (lo, hi)" using v by (auto simp: bounds_of_def lo_def hi_def)
    have le: "lo \<le> v" "v \<le> hi" using v by (auto simp: lo_def hi_def)
    have "lo \<in> set ?vs" "hi \<in> set ?vs" using v by (auto simp: lo_def hi_def intro: Min_in Max_in)
    with assms(3) textual_cmp [OF assms(2)] textual_cmp [OF assms(2) v] le show ?thesis
      by (cases "f_op f") (auto simp: prune_skip_def mm b filter_holds_def Let_def split: option.splits)
  qed
  then show ?thesis by (auto simp: rows_matching_def row_holds_def present_mem)
qed

lemma fold_combine:
  "hdefault {} (fold (\<lambda>f. combine_bitmap And (g f)) fs (Some r)) = r \<inter> \<Inter> (g ` set fs)"
proof (induction fs arbitrary: r)
  case (Cons f fs)
  then show ?case by (simp add: combine_bitmap_def Int_assoc)
qed simp

lemma of_nat_inj32: "i < 2 ^ 32 \<Longrightarrow> j < 2 ^ 32 \<Longrightarrow> (of_nat i :: u32) = of_nat j \<longleftrightarrow> i = j"
  by (simp add: word_of_nat_eq_iff take_bit_nat_eq_self)

definition matching_all :: "ext \<Rightarrow> filter_t list \<Rightarrow> (string, string) hmap list \<Rightarrow> bitmap" where
  "matching_all x fs rows = {of_nat i | i. i < length rows \<and> list_all (\<lambda>f. row_holds x f (rows ! i)) (valid_filters fs)}"

lemma matching_all_Int:
  assumes "length rows \<le> 2 ^ 32" "valid_filters fs = f # r"
  shows "matching_all x fs rows = rows_matching x f rows \<inter> \<Inter> ((\<lambda>f. rows_matching x f rows) ` set r)"
proof -
  have m: "(of_nat i :: u32) \<in> rows_matching x g rows \<longleftrightarrow> row_holds x g (rows ! i)" if "i < length rows" for i g
    using that assms(1) by (auto simp: rows_matching_def of_nat_inj32)
  show ?thesis
  proof (intro set_eqI iffI)
    fix a assume "a \<in> matching_all x fs rows"
    then show "a \<in> rows_matching x f rows \<inter> \<Inter> ((\<lambda>f. rows_matching x f rows) ` set r)"
      using m by (auto simp: matching_all_def assms(2) list_all_iff)
  next
    fix a assume a: "a \<in> rows_matching x f rows \<inter> \<Inter> ((\<lambda>f. rows_matching x f rows) ` set r)"
    then obtain i where "i < length rows" "a = of_nat i" by (auto simp: rows_matching_def)
    with a m show "a \<in> matching_all x fs rows"
      by (auto simp: matching_all_def assms(2) list_all_iff intro!: exI [of _ i])
  qed
qed

lemma writer_search_and:
  assumes "w_rep w rows" "length rows < 2 ^ 32" "\<And>f. f \<in> set (valid_filters fs) \<Longrightarrow> textual f rows"
  shows "writer_search x w fs And = matching_all x fs rows - s_deleted (w_segment w)"
proof (cases "valid_filters fs")
  case Nil
  have "unat (ucast (of_nat (length rows) :: u64) :: u32) = length rows"
    using assms(2) by (simp add: unsigned_of_nat take_bit_nat_eq_self)
  then have "{i :: u32. i < ucast (s_record_count (w_segment w))} = {of_nat i | i. i < length rows}"
    using assms(1,2) by (auto simp: w_rep_def word_less_nat_alt unat_of_nat take_bit_nat_eq_self
        intro!: exI [of _ "unat _"])
  with Nil show ?thesis by (simp add: writer_search_def all_live_def matching_all_def)
next
  case (Cons f r)
  have len: "length rows \<le> 2 ^ 32" using assms(2) by simp
  note spec = matching_all_Int [OF len Cons, of x]
  show ?thesis
  proof (cases "list_ex (prune_skip (w_segment w)) (f # r)")
    case True
    then obtain g where "g \<in> set (f # r)" "rows_matching x g rows = {}"
      using prune_sound [OF assms(1) assms(3)] Cons by (auto simp: list_ex_iff)
    with spec have "matching_all x fs rows = {}" by auto
    with True Cons show ?thesis by (simp add: writer_search_def)
  next
    case False
    have "hdefault {} (fold (\<lambda>f. combine_bitmap And (bitmap_matches_for_filter x (bm_of w (f_field f)) f)) (f # r) None)
        = matching_all x fs rows"
      using spec bitmap_matches [OF assms(1) assms(3)] Cons
      by (simp add: combine_bitmap_def fold_combine)
    with False Cons show ?thesis by (simp add: writer_search_def bm_of_def)
  qed
qed

section \<open>Sealing\<close>

text \<open>What \<open>flush\<close> with persisted bitmaps leaves on disk, opened again with the writer's metadata.\<close>

definition sealed_dir :: "seg_codec \<Rightarrow> segment_writer \<Rightarrow> files" where
  "sealed_dir cd w = writer_dir (persist_bitmaps cd (flush_buffers cd w))"

text \<open>No column takes the name of another column's bitmap file or of the other files of a segment.\<close>

definition names_ok :: "string set \<Rightarrow> bool" where
  "names_ok cols \<longleftrightarrow> (\<forall>a\<in>cols. \<forall>b. a \<noteq> ''bitmaps_'' @ b)"

lemma file_clash:
  "a \<noteq> ''bitmaps_'' @ b \<Longrightarrow> bitmaps_file b \<noteq> dat_file a"
  "bitmaps_file b \<noteq> off_file a" "bitmaps_file b = bitmaps_file c \<longleftrightarrow> b = c"
  "dat_file a \<noteq> ''deleted.bitmap''" "off_file a \<noteq> ''deleted.bitmap''" "bitmaps_file a \<noteq> ''deleted.bitmap''"
proof -
  have l: "last (dat_file a) = CHR ''t''" "last (off_file a) = CHR ''s''" "last (bitmaps_file a) = CHR ''t''"
    "last (bitmaps_file b) = CHR ''t''"
    by (simp_all add: dat_file_def off_file_def bitmaps_file_def)
  show "a \<noteq> ''bitmaps_'' @ b \<Longrightarrow> bitmaps_file b \<noteq> dat_file a"
    by (auto simp: bitmaps_file_def dat_file_def)
  show "bitmaps_file b \<noteq> off_file a" "dat_file a \<noteq> ''deleted.bitmap''" "off_file a \<noteq> ''deleted.bitmap''"
    "bitmaps_file a \<noteq> ''deleted.bitmap''"
    using l by (auto dest: arg_cong [of _ _ last])
qed (simp add: bitmaps_file_def)

lemma writer_dir_other:
  assumes "\<And>col. col \<in> fst ` set (w_writers w) \<Longrightarrow> n \<noteq> dat_file col \<and> n \<noteq> off_file col"
  shows "hget (writer_dir w) n = hget (s_dir (w_segment w)) n"
proof -
  have "(\<And>col. col \<in> fst ` set ws \<Longrightarrow> n \<noteq> dat_file col \<and> n \<noteq> off_file col) \<Longrightarrow>
    hget (fold (\<lambda>(col, (dat, off, _)) fs.
       hput (dat_file col) (bw_file dat) (hput (off_file col) (bw_file off) fs)) ws fs) n = hget fs n"
    for ws :: "(string, bufw \<times> bufw \<times> u64) hmap" and fs
  proof (induction ws arbitrary: fs)
    case (Cons cw ws)
    obtain c d e m where cw: "cw = (c, d, e, m)" by (cases cw)
    have "hget (fold (\<lambda>(col, (dat, off, _)) fs.
       hput (dat_file col) (bw_file dat) (hput (off_file col) (bw_file off) fs)) ws f) n = hget f n" for f
      using Cons by simp
    with Cons.prems [of c] show ?case by (simp add: cw)
  qed simp
  from this [OF assms] show ?thesis by (simp add: writer_dir_def)
qed

lemma fold_bitmaps_get:
  "distinct (map fst m) \<Longrightarrow>
   hget (fold (\<lambda>(col, b). hput (bitmaps_file col) (enc b)) m fs) (bitmaps_file c) =
     (case map_of m c of None \<Rightarrow> hget fs (bitmaps_file c) | Some b \<Rightarrow> Some (enc b))"
proof (induction m arbitrary: fs)
  case (Cons cb m)
  obtain d b where cb: "cb = (d, b)" by (cases cb)
  with Cons.prems have "map_of m d = None" by (simp add: map_of_eq_None_iff)
  with Cons.IH [of "hput (bitmaps_file d) (enc b) fs"] Cons.prems show ?case
    by (auto simp: cb file_clash(3) split: option.splits)
qed simp

lemma fold_bitmaps_other:
  "(\<And>col. n \<noteq> bitmaps_file col) \<Longrightarrow>
   hget (fold (\<lambda>(col, b). hput (bitmaps_file col) (enc b)) m fs) n = hget fs n"
proof (induction m arbitrary: fs)
  case (Cons cb m)
  then show ?case by (cases cb) simp
qed simp

lemma sealed_bitmaps:
  assumes "hwf (w_bitmaps w)" "names_ok (fst ` set (w_writers w))"
    "\<And>col. hget (s_dir (w_segment w)) (bitmaps_file col) = None"
    "\<And>col. dec_bitmaps cd (enc_bitmaps cd (bm_of w col)) = Some (bm_of w col)"
  shows "read_bitmaps cd (sealed_dir cd w) col = Inr (bm_of w col)"
proof -
  let ?v = "persist_bitmaps cd (flush_buffers cd w)"
  have ws: "fst ` set (w_writers ?v) = fst ` set (w_writers w)"
    by (force simp: persist_bitmaps_def flush_buffers_def Let_def flush_writers_def)
  have "hget (sealed_dir cd w) (bitmaps_file col) = hget (s_dir (w_segment ?v)) (bitmaps_file col)"
    unfolding sealed_dir_def using assms(2) file_clash(1,2)
    by (intro writer_dir_other) (auto simp: ws names_ok_def)
  also have "\<dots> = (case hget (w_bitmaps w) col of None \<Rightarrow> None | Some b \<Rightarrow> Some (enc_bitmaps cd b))"
  proof -
    have "hget (s_dir (persist_deleted_bitmap cd (w_segment w))) (bitmaps_file col) = None"
      by (simp add: persist_deleted_bitmap_def assms(3) file_clash)
    with fold_bitmaps_get [of "w_bitmaps w" "enc_bitmaps cd" _ col] assms(1) show ?thesis
      by (simp add: persist_bitmaps_def flush_buffers_def Let_def flush_writers_def invalidate_mmap_cache_def
          hwf_def hget_def split: option.splits)
  qed
  finally show ?thesis
    using assms(4) [of col] by (simp add: read_bitmaps_def bm_of_def split: option.splits)
qed

lemma sealed_deleted:
  assumes "hwf (w_bitmaps w)" "hget (s_dir (w_segment w)) ''deleted.bitmap'' = None"
    "dec_deleted cd (enc_deleted cd (s_deleted (w_segment w))) = Some (s_deleted (w_segment w))"
  shows "(case hget (sealed_dir cd w) ''deleted.bitmap'' of None \<Rightarrow> Inr {} | Some bs \<Rightarrow> ok_or BadDeleted (dec_deleted cd bs))
    = Inr (s_deleted (w_segment w))"
proof -
  let ?v = "persist_bitmaps cd (flush_buffers cd w)"
  have "hget (sealed_dir cd w) ''deleted.bitmap'' = hget (s_dir (w_segment ?v)) ''deleted.bitmap''"
    unfolding sealed_dir_def by (rule writer_dir_other) (metis file_clash(4,5))
  also have "\<dots> = hget (s_dir (persist_deleted_bitmap cd (w_segment w))) ''deleted.bitmap''"
    by (simp add: persist_bitmaps_def flush_buffers_def Let_def flush_writers_def invalidate_mmap_cache_def
        fold_bitmaps_other file_clash(6) [symmetric])
  finally show ?thesis using assms(2,3) by (simp add: persist_deleted_bitmap_def)
qed

lemma search_loop_ok:
  assumes "\<And>col. read_bitmaps cd (s_dir s) col = Inr (B col)"
    "\<And>col b. hget (s_bitmap_cache s) col = Some b \<Longrightarrow> b = B col"
  shows "\<exists>s'. search_loop x cd op fs (acc, s) =
      Inr (fold (\<lambda>f. combine_bitmap op (bitmap_matches_for_filter x (B (f_field f)) f)) fs acc, s') \<and>
    s_deleted s' = s_deleted s"
  using assms
proof (induction fs arbitrary: acc s)
  case (Cons f fs)
  have cached: "B (f_field f) = b" if "hget (s_bitmap_cache s) (f_field f) = Some b" for b
    using Cons.prems(2) that by simp
  have put: "b = B col" if "hget (hput (f_field f) (B (f_field f)) (s_bitmap_cache s)) col = Some b" for col b
    using Cons.prems(2) [of col b] that by (simp add: hget_hput split: if_splits)
  obtain s1 where s1: "get_bitmaps_cached cd s (f_field f) = Inr (B (f_field f), s1)"
    "s_deleted s1 = s_deleted s" "s_dir s1 = s_dir s"
    "\<And>col b. hget (s_bitmap_cache s1) col = Some b \<Longrightarrow> b = B col"
  proof (cases "hget (s_bitmap_cache s) (f_field f)")
    case None
    show thesis
      by (rule that [of "s\<lparr>s_bitmap_cache := hput (f_field f) (B (f_field f)) (s_bitmap_cache s)\<rparr>"])
        (simp_all add: get_bitmaps_cached_def None Cons.prems(1) put)
  next
    case (Some b)
    then show thesis by (intro that [of s]) (simp_all add: get_bitmaps_cached_def cached Cons.prems(2))
  qed
  have r1: "read_bitmaps cd (s_dir s1) col = Inr (B col)" for col by (simp add: s1(3) Cons.prems(1))
  obtain s' where "search_loop x cd op fs (combine_bitmap op (bitmap_matches_for_filter x (B (f_field f)) f) acc, s1) =
      Inr (fold (\<lambda>f. combine_bitmap op (bitmap_matches_for_filter x (B (f_field f)) f)) fs
        (combine_bitmap op (bitmap_matches_for_filter x (B (f_field f)) f) acc), s')" "s_deleted s' = s_deleted s1"
    using Cons.IH [OF r1 s1(4)] by blast
  then show ?case by (intro exI [of _ s']) (simp add: s1(1,2))
qed simp

lemma sealed_search:
  assumes "hwf (w_bitmaps w)" "names_ok (fst ` set (w_writers w))" "s_dir (w_segment w) = []"
    "\<And>col. dec_bitmaps cd (enc_bitmaps cd (bm_of w col)) = Some (bm_of w col)"
    "dec_deleted cd (enc_deleted cd (s_deleted (w_segment w))) = Some (s_deleted (w_segment w))"
    "segment_load cd nm (sealed_dir cd w) (Some (to_meta (w_segment w))) = Inr s"
  shows "\<exists>s'. search_thread_safe x cd s fs op = Inr (writer_search x w fs op, s')"
proof -
  have s: "s_deleted s = s_deleted (w_segment w)" "s_record_count s = s_record_count (w_segment w)"
    "s_min_max s = s_min_max (w_segment w)" "s_dir s = sealed_dir cd w" "s_bitmap_cache s = []"
    using assms(6) sealed_deleted [OF assms(1) _ assms(5)] assms(3)
    by (auto simp: segment_load_def to_meta_def)
  have r: "read_bitmaps cd (s_dir s) col = Inr (bm_of w col)" for col
    using sealed_bitmaps [OF assms(1,2) _ assms(4)] by (simp add: s assms(3))
  have p: "prune_skip s = prune_skip (w_segment w)" "all_live s = all_live (w_segment w)"
    by (simp_all add: prune_skip_def all_live_def s fun_eq_iff)
  show ?thesis
    using search_loop_ok [OF r, of x op "valid_filters fs" None]
    by (auto simp: search_thread_safe_def writer_search_def Let_def p s bm_of_def)
qed

text \<open>A concrete codec, for the witnesses: it stands for the code's \<open>bincode\<close> on the two values it is
  given, a column's bitmaps and the statistics, and on the empty ones.\<close>

definition plain_seg_codec :: "bitmaps \<Rightarrow> (string, string \<times> string) hmap \<Rightarrow> seg_codec" where
  "plain_seg_codec b mm =
     \<lparr>enc_bitmaps = (\<lambda>m. if m = b then ''b'' else []), dec_bitmaps = (\<lambda>s. Some (if s = ''b'' then b else [])),
      enc_deleted = (\<lambda>d. []), dec_deleted = (\<lambda>s. Some {}),
      enc_min_max = (\<lambda>m. if m = mm then ''m'' else []), dec_min_max = (\<lambda>s. Some (if s = ''m'' then mm else [])),
      dec_str = (\<lambda>s. None)\<rparr>"

section \<open>Properties\<close>

text \<open>C38: Every cell of a column reads back: rows that all have the column are appended to a new
  segment and flushed; mapping the column's files then gives, for each row, the text that was
  written (valid UTF-8, files below \<open>2\<^sup>6\<^sup>3\<close> bytes).\<close>

theorem column_read_back:
  assumes "str_layout x" "rows \<noteq> []" "list_all (\<lambda>row. hwf row \<and> hget row col \<noteq> None) rows"
    "length rows \<le> 2 ^ 32" "length (col_data x (present col rows)) < 2 ^ 63" "list_all utf8_valid (present col rows)"
    "w = flush_buffers cd (append_records x rows (fresh_writer sid))"
  shows "\<exists>p s'. get_mmap_pair (writer_dir w) (w_segment w) col = Inr (p, s') \<and>
    (\<forall>j < length rows. read_value_from_mmap p (of_nat j) = Sliced (the (hget (rows ! j) col)))"
proof -
  have pr: "present col rows = map (\<lambda>row. the (hget row col)) rows"
    using assms(3) by (intro present_all) (auto simp: list_all_iff)
  have "list_all hwf rows" using assms(3) by (auto simp: list_all_iff)
  from read_column [OF assms(1) this refl _ assms(5) _ assms(6,7)] assms(2,4) show ?thesis
    by (auto simp: pr)
qed

lemma ascii_layout: "str_layout ascii_ext"
  by (simp add: str_layout_def ascii_ext_def)

theorem column_read_back_witness:
  "\<exists>p s'. get_mmap_pair (writer_dir (flush_buffers (plain_seg_codec [] []) (append_records ascii_ext [[(''a'', ''x'')], [(''a'', ''yz'')]] (fresh_writer 3))))
      (w_segment (flush_buffers (plain_seg_codec [] []) (append_records ascii_ext [[(''a'', ''x'')], [(''a'', ''yz'')]] (fresh_writer 3)))) ''a'' = Inr (p, s') \<and>
    (\<forall>j < length [[(''a'', ''x'')], [(''a'', ''yz'')]]. read_value_from_mmap p (of_nat j) =
       Sliced (the (hget ([[(''a'', ''x'')], [(''a'', ''yz'')]] ! j) ''a'')))"
  by (rule column_read_back [OF ascii_layout _ _ _ _ _ refl])
    (simp_all add: hwf_Cons hget_Cons col_data_def ascii_ext_def utf8_valid.simps utf8_head_def bval_def)

text \<open>A column file has no place for a row that lacks the column: its cells are those of the
  rows that have it, one after the other, so after a row without the column every later cell is
  read under the number of an earlier row. Row 0, which has no such cell, reads the cell of a later
  row.\<close>

theorem missing_column_shifts_cells:
  assumes "str_layout x" "list_all hwf rows" "rows = r0 # rs" "hget r0 col = None" "present col rs \<noteq> []"
    "length rows \<le> 2 ^ 32" "length (col_data x (present col rows)) < 2 ^ 63" "list_all utf8_valid (present col rows)"
    "w = flush_buffers (plain_seg_codec [] []) (append_records x rows (fresh_writer sid))"
  shows "\<exists>p s'. get_mmap_pair (writer_dir w) (w_segment w) col = Inr (p, s') \<and>
    read_value_from_mmap p 0 = Sliced (hd (present col rs))"
proof -
  have pr: "present col rows = present col rs" by (simp add: assms(3,4))
  have len: "length (present col rows) \<le> 2 ^ 32"
    using assms(6) by (simp add: present_def List.map_filter_def le_trans [OF length_filter_le])
  from read_column [OF assms(1,2) refl _ assms(7) len assms(8,9)] assms(5) pr
  obtain s' where "get_mmap_pair (writer_dir w) (w_segment w) col =
      Inr ((col_data x (present col rows), offsets_from x 0 (present col rows)), s')"
    "read_value_from_mmap (col_data x (present col rows), offsets_from x 0 (present col rows)) (of_nat 0) =
      Sliced (present col rows ! 0)"
    by (metis length_greater_0_conv)
  with assms(5) show ?thesis by (auto simp: pr hd_conv_nth)
qed

theorem missing_column_shifts_cells_witness:
  "\<exists>p s'. get_mmap_pair (writer_dir (flush_buffers (plain_seg_codec [] []) (append_records ascii_ext [[(''a'', ''x'')], [(''a'', ''y''), (''b'', ''z'')]] (fresh_writer 3))))
      (w_segment (flush_buffers (plain_seg_codec [] []) (append_records ascii_ext [[(''a'', ''x'')], [(''a'', ''y''), (''b'', ''z'')]] (fresh_writer 3)))) ''b'' = Inr (p, s') \<and>
    read_value_from_mmap p 0 = Sliced (hd (present ''b'' [[(''a'', ''y''), (''b'', ''z'')]]))"
  by (rule missing_column_shifts_cells [OF ascii_layout _ refl _ _ _ _ _ refl])
    (simp_all add: hwf_Cons hget_Cons col_data_def ascii_ext_def utf8_valid.simps utf8_head_def bval_def)

text \<open>C39: On columns compared as texts, a search of the active segment for the conjunction of the
  filters returns exactly the rows that satisfy all of them and are not deleted; in particular
  pruning with the least and greatest value loses no row.\<close>

theorem writer_search_exact:
  assumes "list_all hwf rows" "length rows < 2 ^ 32" "\<forall>f\<in>set (valid_filters fs). textual f rows"
    "w = append_records x rows (fresh_writer sid)"
  shows "writer_search x (w\<lparr>w_segment := (w_segment w)\<lparr>s_deleted := d\<rparr>\<rparr>) fs And = matching_all x fs rows - d"
proof -
  have "w_rep w rows" using append_records_rep [OF fresh_rep assms(1), of x sid] assms(2,4) by simp
  then have "w_rep (w\<lparr>w_segment := (w_segment w)\<lparr>s_deleted := d\<rparr>\<rparr>) rows" by (simp add: w_rep_def bm_of_def mm_of_def)
  from writer_search_and [OF this assms(2)] assms(3) show ?thesis by simp
qed

definition flt :: "string \<Rightarrow> comparison_op \<Rightarrow> string \<Rightarrow> filter_t" where
  "flt field p v = \<lparr>f_field = field, f_op = p, f_value = v, f_value_to = None, f_type = None, f_options = []\<rparr>"

lemma parse_letter_None: "parse_f64 ''x'' = None" "parse_f64 ''y'' = None"
  by (simp_all add: parse_f64_def parse_unsigned_f64_def parse_decimal_def parse_exponent_def is_digit_def
      bval_def ascii_lower_def)

lemma trim_letter: "trim ''x'' = ''x''" "trim ''y'' = ''y''" "trim ''95'' = ''95''" "trim ''100'' = ''100''"
  by (simp_all add: trim_def trim_start_def trim_end_def white_space_def trim_with.simps)

lemma no_number: "compare_numeric ''x'' ''y'' = None" "compare_numeric ''y'' ''y'' = None"
  "compare_numeric ''x'' ''x'' = None" "compare_numeric ''y'' ''x'' = None"
  by (simp_all add: compare_numeric_def trim_letter parse_letter_None Let_def)

lemma no_date_letter: "\<not> is_date_format ''x''" "\<not> is_date_format ''y''"
  by (simp_all add: is_date_format_def trim_letter)

lemma no_date: "compare_dates ''x'' ''y'' = None" "compare_dates ''y'' ''y'' = None"
  "compare_dates ''x'' ''x'' = None" "compare_dates ''y'' ''x'' = None"
  by (simp_all add: compare_dates_def no_date_letter Let_def trim_letter)

lemma text_letters: "compare_values ''x'' ''y'' None = Some Less" "compare_values ''y'' ''y'' None = Some Equal"
  "compare_values ''x'' ''x'' None = Some Equal" "compare_values ''y'' ''x'' None = Some Greater"
  by (simp_all add: no_number no_date cmp_ord_def)

theorem writer_search_exact_witness:
  "writer_search ascii_ext
     ((append_records ascii_ext [[(''a'', ''x'')], [(''a'', ''y'')]] (fresh_writer 3))\<lparr>w_segment :=
       (w_segment (append_records ascii_ext [[(''a'', ''x'')], [(''a'', ''y'')]] (fresh_writer 3)))\<lparr>s_deleted := {}\<rparr>\<rparr>)
     [flt ''a'' Lt ''y''] And
   = matching_all ascii_ext [flt ''a'' Lt ''y''] [[(''a'', ''x'')], [(''a'', ''y'')]] - {}"
  by (rule writer_search_exact [OF _ _ _ refl])
    (simp_all add: hwf_Cons valid_filters_def flt_def textual_def text_letters cmp_ord_def hget_Cons del: compare_values.simps)



text \<open>Pruning compares texts where the filter compares numbers: the row with the number 100
  satisfies \<open>a > 95\<close>, and the search returns no row, as \<open>''100'' < ''95''\<close> as a text.\<close>

lemma numeric_prune_loses_row:
  "filter_holds ascii_ext (flt ''a'' Gt ''95'') ''100'' \<and>
   writer_search ascii_ext (append_record ascii_ext [(''a'', ''100'')] (fresh_writer 3)) [flt ''a'' Gt ''95''] And = {}"
proof -
  have n: "compare_numeric ''100'' ''95'' = Some Greater"
    using parse_f64_show_nat [of 100] parse_f64_show_nat [of 95]
    by (simp add: compare_numeric_def trim_letter show_nat.simps [of 100] show_nat.simps [of 95]
        show_nat.simps [of 10] show_nat.simps [of 9] show_nat.simps [of "Suc 0"])
  show ?thesis
    by (simp add: filter_holds_def flt_def n append_record_def append_cell_def fresh_writer_def segment_new_def
        update_metadata_def Let_def split_beta writer_search_def valid_filters_def prune_skip_def)
qed

text \<open>One filter whose bounds exclude the segment empties the answer of a disjunction.\<close>

lemma or_prune_loses_row:
  "filter_holds ascii_ext (flt ''a'' Eq ''x'') ''x'' \<and>
   writer_search ascii_ext (append_record ascii_ext [(''a'', ''x'')] (fresh_writer 3)) [flt ''a'' Eq ''x'', flt ''a'' Eq ''y''] Or = {}"
  by (simp add: filter_holds_def flt_def text_letters append_record_def append_cell_def fresh_writer_def segment_new_def
      update_metadata_def Let_def split_beta writer_search_def valid_filters_def prune_skip_def del: compare_values.simps)

text \<open>Pruning by a segment's bounds loses rows. Texts are compared where the filter compares
  numbers: the row with the number 100 satisfies \<open>a > 95\<close>, and the search returns no row, as
  \<open>''100'' < ''95''\<close> as a text. And in a disjunction one filter whose bounds exclude the segment
  empties the whole answer.\<close>

theorem pruning_loses_rows:
  "(filter_holds ascii_ext (flt ''a'' Gt ''95'') ''100'' \<and>
     writer_search ascii_ext (append_record ascii_ext [(''a'', ''100'')] (fresh_writer 3)) [flt ''a'' Gt ''95''] And = {}) \<and>
   (filter_holds ascii_ext (flt ''a'' Eq ''x'') ''x'' \<and>
     writer_search ascii_ext (append_record ascii_ext [(''a'', ''x'')] (fresh_writer 3))
       [flt ''a'' Eq ''x'', flt ''a'' Eq ''y''] Or = {})"
  using numeric_prune_loses_row or_prune_loses_row by blast

text \<open>Reading a cell panics exactly when the start offset or the length stored in the files is
  so near \<open>2\<^sup>6\<^sup>4\<close> that a sum wraps below the file's length; otherwise damage reads as the empty text.\<close>

theorem read_cell_panics_iff:
  assumes "8 * unat i + 8 \<le> length off" "length dat < 2 ^ 64"
    "st = unat (from_le64 (slice off (8 * unat i) (8 * unat i + 8)))"
    "k = unat (from_le64 (slice dat st (st + 8)))"
  shows "read_value_from_mmap (dat, off) i = Panicked \<longleftrightarrow>
    2 ^ 64 \<le> st + 8 \<and> st + 8 - 2 ^ 64 \<le> length dat \<or>
    st + 8 \<le> length dat \<and> 2 ^ 64 \<le> st + 8 + k \<and> st + 8 + k - 2 ^ 64 \<le> length dat"
proof -
  have st: "st < 2 ^ 64" and k: "k < 2 ^ 64"
    using unsigned_less [of "from_le64 (slice off (8 * unat i) (8 * unat i + 8))", where ?'a = nat]
      unsigned_less [of "from_le64 (slice dat st (st + 8))", where ?'a = nat]
    by (simp_all add: assms(3,4))
  have wrap: "wrap64 n = (if n < 2 ^ 64 then n else n - 2 ^ 64)" if "n < 2 ^ 65" for n
    using that by (simp add: wrap64_def mod_if)
  have "read_value_from_mmap (dat, off) i = Panicked \<longleftrightarrow> cell_bytes (dat, off) i = Some Panicked"
    by (simp add: read_value_from_mmap_def split: option.splits sliced.splits)
  also have "\<dots> \<longleftrightarrow> \<not> length dat < wrap64 (st + 8) \<and> (wrap64 (st + 8) < st \<or>
      \<not> length dat < wrap64 (st + 8 + k) \<and> \<not> st + 8 \<le> wrap64 (st + 8 + k))"
    using assms(1) by (auto simp: cell_bytes_def Let_def slice_checked_def assms(3,4))
  also have "\<dots> \<longleftrightarrow> 2 ^ 64 \<le> st + 8 \<and> st + 8 - 2 ^ 64 \<le> length dat \<or>
    st + 8 \<le> length dat \<and> 2 ^ 64 \<le> st + 8 + k \<and> st + 8 + k - 2 ^ 64 \<le> length dat"
    using st k assms(2) wrap [of "st + 8"] wrap [of "st + 8 + k"] by (auto split: if_splits)
  finally show ?thesis .
qed

theorem read_cell_panics_iff_witness:
  "read_value_from_mmap (le64 (- 8), le64 0) 0 = Panicked"
proof -
  have sl: "slice (le64 w) 0 8 = le64 w" for w by (simp add: slice_def)
  show ?thesis using read_cell_panics_iff [of 0 "le64 0" "le64 (- 8)", OF _ _ refl refl] by (simp add: sl)
qed

end
