(* ===== verification/Table.thy ===== *)
theory Table
  imports Segment Wal "HOL-Library.Product_Lexorder"
begin

text \<open>
  \<^verbatim>\<open>src/core/storage/table.rs\<close>, first part: the state of a table, the primary key of a row, reading
  rows (\<open>get_rows_batch\<close>), and the operations on rows (\<open>insert\<close>, \<open>delete\<close>, \<open>update\<close>,
  \<open>get_row_as_map\<close>) with the reconciliation of duplicate rows.

  The code outside the repository and the environment variables are the fields of the record
  \<open>env\<close>: the functions of \<open>ext\<close>, the LRU cache and the codecs of the components, \<^verbatim>\<open>serde_json\<close> on
  rows and on the manifest, the supply of fresh UUIDs, the Unicode test \<open>e_word\<close> that all
  characters of a text are alphanumeric or underscores, and the grouping \<open>e_jobs\<close> of consecutive
  chunks into jobs by \<^verbatim>\<open>rayon\<close>. The caches of memory maps change under
  \<open>&self\<close> in the code; here the changed table is returned. A panic is the error \<open>Panic\<close>.
\<close>

type_synonym row = "(string, string) hmap"

record 'c env =
  e_ext :: ext
  e_lru :: "'c lru"
  e_codec :: codec
  e_seg :: seg_codec
  e_pi :: pi_codec
  e_wal_enc :: "wal_operation \<Rightarrow> bytes"
  e_wal_dec :: "bytes \<Rightarrow> wal_operation option"
  e_row_enc :: "row \<Rightarrow> bytes"
  e_row_dec :: "bytes \<Rightarrow> row option"
  e_man_enc :: "manifest \<Rightarrow> bytes"
  e_man_dec :: "bytes \<Rightarrow> manifest option"
  e_uuid :: "nat \<Rightarrow> string"
  e_bitmap_interval :: u32
  e_save_interval :: u32
  e_skip_fields :: "string option"
  e_cache_fields :: nat
  e_compact_rows :: u64
  e_auth_table :: string
  e_word :: "string \<Rightarrow> bool"
  e_jobs :: "location list list \<Rightarrow> location list list list"

text \<open>\<open>t_dirs\<close> holds the directories under \<open>segments/\<close> by name, as far as no segment in memory
  has them open; \<open>t_files\<close> the other files of the table; \<open>t_draws\<close> counts the UUIDs drawn.\<close>

record 'c table =
  t_name :: string
  t_manifest :: manifest
  t_active :: "segment_writer option"
  t_immutable :: "segment list"
  t_wal :: wal
  t_primary_index :: primary_index
  t_exact :: "(string, 'c exact_index) hmap"
  t_flush_count :: u32
  t_discarded :: bool
  t_dirs :: "(string, files) hmap"
  t_files :: files
  t_draws :: nat

datatype table_error =
    SegErr seg_error | WalErr wal_error | IxErr index_error | PiErr pi_error | BadManifest | CompactAborted | Panic

definition discard :: "'c table \<Rightarrow> 'c table" where
  "discard t = t\<lparr>t_discarded := True\<rparr>"

definition immutable_segment_count :: "'c table \<Rightarrow> nat" where
  "immutable_segment_count t = length (t_immutable t)"

section \<open>The primary key of a row\<close>

definition pk_columns :: "'c table \<Rightarrow> string list" where
  "pk_columns t =
     (let m = t_manifest t in
      if m_primary_key_columns m \<noteq> [] then m_primary_key_columns m
      else if m_primary_key m = [] \<or> m_primary_key m = ''PK'' then [''PK'']
      else [m_primary_key m])"

definition PK_COMPOSITE_SEP :: char where "PK_COMPOSITE_SEP = CHR 0x1F"

text \<open>The last argument is the UUID a row without a key gets.\<close>

definition row_pk_value :: "ext \<Rightarrow> string list \<Rightarrow> string \<Rightarrow> row \<Rightarrow> string" where
  "row_pk_value x cols uuid row =
     (if length cols = 1 \<and> cols ! 0 = ''PK'' then hdefault uuid (hget row ''PK'')
      else join_with [PK_COMPOSITE_SEP] (map (\<lambda>c. case hget row c of None \<Rightarrow> [] | Some v \<Rightarrow> nfc x v) cols))"

text \<open>The call with the next UUID of the supply.\<close>

definition draw_pk :: "'c env \<Rightarrow> row \<Rightarrow> 'c table \<Rightarrow> string \<times> 'c table" where
  "draw_pk E row t =
     (row_pk_value (e_ext E) (pk_columns t) (e_uuid E (t_draws t)) row, t\<lparr>t_draws := t_draws t + 1\<rparr>)"

text \<open>The values of the first equality filter of every key column, or nothing.\<close>

fun eq_filter_parts :: "ext \<Rightarrow> filter_t list \<Rightarrow> string list \<Rightarrow> string list option" where
  "eq_filter_parts x fs [] = Some []"
| "eq_filter_parts x fs (c # cols) =
     (case find (\<lambda>f. f_field f = c \<and> f_op f = Eq) fs of
        None \<Rightarrow> None
      | Some f \<Rightarrow> map_option (\<lambda>r. nfc x (f_value f) # r) (eq_filter_parts x fs cols))"

definition composite_pk_from_eq_filters :: "ext \<Rightarrow> string list \<Rightarrow> filter_t list \<Rightarrow> string option" where
  "composite_pk_from_eq_filters x cols fs =
     (if length cols \<le> 1 then None else map_option (join_with [PK_COMPOSITE_SEP]) (eq_filter_parts x fs cols))"

definition resolve_row_pk_from_segment_row :: "ext \<Rightarrow> string list \<Rightarrow> segment \<Rightarrow> u32 \<Rightarrow> string option sliced" where
  "resolve_row_pk_from_segment_row x cols s local_id =
     (if cols = [] then Sliced None
      else case get_row_values s local_id cols of
        Panicked \<Rightarrow> Panicked
      | Sliced vals \<Rightarrow>
          if length vals \<noteq> length cols then Sliced None
          else if length cols = 1 \<and> cols ! 0 = ''PK'' then Sliced (Some (hd vals))
          else Sliced (Some (row_pk_value x cols [] (fold (\<lambda>(c, v). hput c v) (zip cols vals) []))))"

definition field_is_pk_column :: "'c table \<Rightarrow> string \<Rightarrow> bool" where
  "field_is_pk_column t field \<longleftrightarrow> field \<in> set (pk_columns t)"

section \<open>Reading rows\<close>

text \<open>\<open>segments_map\<close>: the active segment over the immutable ones, the later of these over the
  earlier.\<close>

definition segment_of :: "'c table \<Rightarrow> u64 \<Rightarrow> segment option" where
  "segment_of t i =
     (case t_active t of
        Some w \<Rightarrow> if s_id (w_segment w) = i then Some (w_segment w) else find (\<lambda>s. s_id s = i) (rev (t_immutable t))
      | None \<Rightarrow> find (\<lambda>s. s_id s = i) (rev (t_immutable t)))"

definition ensure_needed :: "string list \<Rightarrow> u64 set \<Rightarrow> 'c table \<Rightarrow> 'c table" where
  "ensure_needed flds needed t =
     t\<lparr>t_immutable := map (\<lambda>s. if s_id s \<in> needed then ensure_mmaps_batch (s_dir s) flds s else s) (t_immutable t),
       t_active := map_option (\<lambda>w. if s_id (w_segment w) \<in> needed
         then w\<lparr>w_segment := ensure_mmaps_batch (writer_dir w) flds (w_segment w)\<rparr> else w) (t_active t)\<rparr>"

fun chunks :: "nat \<Rightarrow> 'a list \<Rightarrow> 'a list list" where
  "chunks n xs = (if xs = [] \<or> n = 0 then [] else take n xs # chunks n (drop n xs))"

declare chunks.simps [simp del]

text \<open>One column of a chunk: the maps of the last segment are kept until the segment changes.\<close>

fun column_values :: "(u64 \<Rightarrow> mmap_pair option list option) \<Rightarrow> nat \<Rightarrow> u64 \<Rightarrow> mmap_pair option \<Rightarrow> location list \<Rightarrow> string sliced list" where
  "column_values mms field_idx last_seg_id last_mmap [] = []"
| "column_values mms field_idx last_seg_id last_mmap ((seg_id, local_id) # ids) =
     (let (last_seg_id, last_mmap) =
        (if seg_id \<noteq> last_seg_id
         then (seg_id, case mms seg_id of Some mmaps \<Rightarrow> mmaps ! field_idx | None \<Rightarrow> None)
         else (last_seg_id, last_mmap)) in
      (case last_mmap of Some p \<Rightarrow> read_value_from_mmap p local_id | None \<Rightarrow> Sliced [])
        # column_values mms field_idx last_seg_id last_mmap ids)"

definition chunk_rows :: "(u64 \<Rightarrow> mmap_pair option list option) \<Rightarrow> nat \<Rightarrow> location list \<Rightarrow> string sliced list list" where
  "chunk_rows mms n chunk =
     (let columns_data = map (\<lambda>field_idx. column_values mms field_idx (- 1) None chunk) [0 ..< n] in
      map (\<lambda>j. map (\<lambda>col. col ! j) columns_data) [0 ..< length chunk])"

definition get_rows_batch :: "string list \<Rightarrow> location list \<Rightarrow> 'c table \<Rightarrow> table_error + string list list \<times> 'c table" where
  "get_rows_batch flds ids t =
     (let needed = fst ` set ids;
          t = ensure_needed flds needed t;
          mms = (\<lambda>i. if i \<in> needed then map_option (\<lambda>s. get_mmaps_batch s flds) (segment_of t i) else None);
          rows = concat (map (chunk_rows mms (length flds)) (chunks 512 ids)) in
      case sliced_list (map sliced_list rows) of Panicked \<Rightarrow> Inl Panic | Sliced r \<Rightarrow> Inr (r, t))"

section \<open>One row by its key\<close>

definition flush_if_dirty :: "'c env \<Rightarrow> u64 \<Rightarrow> 'c table \<Rightarrow> 'c table" where
  "flush_if_dirty E seg_id t = t\<lparr>t_active := map_option (\<lambda>w.
     if s_id (w_segment w) = seg_id \<and> w_dirty w then flush_buffers (e_seg E) w else w) (t_active t)\<rparr>"

definition get_row_as_map :: "'c env \<Rightarrow> string \<Rightarrow> 'c table \<Rightarrow> table_error + row option \<times> 'c table" where
  "get_row_as_map E pk_val t =
     (case pi_get (e_ext E) (t_primary_index t) pk_val of
        None \<Rightarrow> Inr (None, t)
      | Some (seg_id, local_id) \<Rightarrow>
          let flds = m_original_fields (t_manifest t) in
          if flds = [] then Inr (None, t)
          else let t = flush_if_dirty E seg_id t in
            rbind (get_rows_batch flds [(seg_id, local_id)] t) (\<lambda>(rows, t).
              case rows of
                [] \<Rightarrow> Inr (None, t)
              | vals # _ \<Rightarrow>
                  let m = fold (\<lambda>(i, f). hput f (if i < length vals then vals ! i else []))
                            (zip [0 ..< length flds] flds) [];
                      (actual_pk, t) = draw_pk E m t in
                  if canonical_bytes (e_ext E) actual_pk \<noteq> canonical_bytes (e_ext E) pk_val then Inr (None, t)
                  else Inr (Some m, t)))"

section \<open>Inserting and deleting\<close>

text \<open>\<open>*map == row_data\<close> on hash maps.\<close>

definition row_eq :: "row \<Rightarrow> row \<Rightarrow> bool" where
  "row_eq m n \<longleftrightarrow> length m = length n \<and> list_all (\<lambda>(k, v). hget n k = Some v) m"

fun update_first :: "('a \<Rightarrow> bool) \<Rightarrow> ('a \<Rightarrow> 'a) \<Rightarrow> 'a list \<Rightarrow> 'a list" where
  "update_first P f [] = []"
| "update_first P f (a # as) = (if P a then f a # as else a # update_first P f as)"

definition mark_and_persist :: "'c env \<Rightarrow> u32 list \<Rightarrow> segment \<Rightarrow> segment" where
  "mark_and_persist E ls s = persist_deleted_bitmap (e_seg E) (fold mark_deleted ls s)"

text \<open>Marking a row deleted where it is; without an active segment nothing is marked.\<close>

definition tombstone :: "'c env \<Rightarrow> location \<Rightarrow> 'c table \<Rightarrow> 'c table" where
  "tombstone E loc t =
     (case t_active t of
        None \<Rightarrow> t
      | Some w \<Rightarrow>
          if s_id (w_segment w) = fst loc
          then t\<lparr>t_active := Some (w\<lparr>w_segment := mark_and_persist E [snd loc] (w_segment w)\<rparr>)\<rparr>
          else t\<lparr>t_immutable := update_first (\<lambda>s. s_id s = fst loc) (mark_and_persist E [snd loc]) (t_immutable t)\<rparr>)"

definition append_row :: "'c env \<Rightarrow> string \<Rightarrow> row \<Rightarrow> 'c table \<Rightarrow> 'c table" where
  "append_row E i row t =
     (case t_active t of
        None \<Rightarrow> t
      | Some w \<Rightarrow>
          let local_id = ucast (s_record_count (w_segment w)); w = append_record (e_ext E) row w in
          t\<lparr>t_active := Some w,
            t_primary_index := snd (pi_insert (e_ext E) i (s_id (w_segment w), local_id) (t_primary_index t))\<rparr>)"

definition normalize_pk :: "ext \<Rightarrow> string list \<Rightarrow> row \<Rightarrow> row" where
  "normalize_pk x cols row = fold (\<lambda>col row. case hget row col of
       None \<Rightarrow> row
     | Some v \<Rightarrow> if nfc x v \<noteq> v then hput col (nfc x v) row else row) cols row"

definition table_insert :: "'c env \<Rightarrow> row \<Rightarrow> 'c table \<Rightarrow> table_error + 'c table" where
  "table_insert E row_data t =
     (let row = normalize_pk (e_ext E) (pk_columns t) row_data;
          (i, t) = draw_pk E row t;
          append = (\<lambda>t. append_row E i row
            (t\<lparr>t_wal := wal_append (e_wal_enc E) (wal_operation.Insert i (e_row_enc E row)) (t_wal t)\<rparr>)) in
      case pi_get (e_ext E) (t_primary_index t) i of
        None \<Rightarrow> Inr (append t)
      | Some loc \<Rightarrow>
          rbind (get_row_as_map E i t) (\<lambda>(existing, t).
            if (case existing of None \<Rightarrow> False | Some m \<Rightarrow> row_eq m row) then Inr t
            else Inr (append (tombstone E loc t))))"

definition table_delete :: "'c env \<Rightarrow> string \<Rightarrow> 'c table \<Rightarrow> 'c table" where
  "table_delete E i t =
     (case pi_remove (e_ext E) i (t_primary_index t) of
        (None, idx) \<Rightarrow> t\<lparr>t_primary_index := idx\<rparr>
      | (Some (seg_id, local_id), idx) \<Rightarrow>
          tombstone E (seg_id, local_id)
            (t\<lparr>t_primary_index := idx,
               t_wal := wal_append (e_wal_enc E) (wal_operation.Delete i seg_id local_id) (t_wal t)\<rparr>))"

section \<open>Reconciliation\<close>

text \<open>The live rows of a segment whose key is not empty, added to the locations found so far.\<close>

definition live_ids :: "segment \<Rightarrow> u32 list" where
  "live_ids s = filter (\<lambda>l. l \<notin> s_deleted s) (map of_nat [0 ..< unat (ucast (s_record_count s) :: u32)])"

fun collect_ids :: "ext \<Rightarrow> string list \<Rightarrow> segment \<Rightarrow> u32 list \<Rightarrow> (string, location list) hmap \<Rightarrow>
    table_error + (string, location list) hmap" where
  "collect_ids x cols s [] m = Inr m"
| "collect_ids x cols s (l # ls) m =
     (case resolve_row_pk_from_segment_row x cols s l of
        Panicked \<Rightarrow> Inl Panic
      | Sliced pk \<Rightarrow> collect_ids x cols s ls
          (case pk of
             Some v \<Rightarrow> if v \<noteq> [] then hput v (hdefault [] (hget m v) @ [(s_id s, l)]) m else m
           | None \<Rightarrow> m))"

definition collect_locations :: "ext \<Rightarrow> string list \<Rightarrow> segment \<Rightarrow> (string, location list) hmap \<Rightarrow>
    table_error + (string, location list) hmap" where
  "collect_locations x cols s m = (if s_record_count s = 0 then Inr m else collect_ids x cols s (live_ids s) m)"

definition max_loc :: "location list \<Rightarrow> location" where
  "max_loc locs = fold max locs (hd locs)"

text \<open>Phase 2: the rows to mark, by segment, and the row each key keeps.\<close>

definition find_orphans :: "(string, location list) hmap \<Rightarrow> (u64, u32 list) hmap" where
  "find_orphans m = fold (\<lambda>(pk, locs) acc.
     if length locs < 2 then acc
     else fold (\<lambda>(seg, l) acc. if (seg, l) \<noteq> max_loc locs then hput seg (hdefault [] (hget acc seg) @ [l]) acc else acc)
       locs acc) m []"

definition latest_per_pk :: "(string, location list) hmap \<Rightarrow> (string, location) hmap" where
  "latest_per_pk m = map (\<lambda>(pk, locs). (pk, max_loc locs)) m"

definition mark_orphans :: "'c env \<Rightarrow> u64 \<times> u32 list \<Rightarrow> 'c table \<Rightarrow> 'c table" where
  "mark_orphans E so t =
     (case so of (seg, orphans) \<Rightarrow>
        (case t_active t of
           Some w \<Rightarrow> if s_id (w_segment w) = seg
             then t\<lparr>t_active := Some (w\<lparr>w_segment := mark_and_persist E orphans (w_segment w)\<rparr>)\<rparr>
             else t\<lparr>t_immutable := update_first (\<lambda>s. s_id s = seg) (mark_and_persist E orphans) (t_immutable t)\<rparr>
         | None \<Rightarrow> t\<lparr>t_immutable := update_first (\<lambda>s. s_id s = seg) (mark_and_persist E orphans) (t_immutable t)\<rparr>))"

definition repoint :: "ext \<Rightarrow> string \<times> location \<Rightarrow> primary_index \<Rightarrow> primary_index" where
  "repoint x pl idx = (if pi_get x idx (fst pl) \<noteq> Some (snd pl) then snd (pi_insert x (fst pl) (snd pl) idx) else idx)"

definition ensure_active_pk :: "string list \<Rightarrow> segment_writer \<Rightarrow> segment_writer" where
  "ensure_active_pk cols w = (if s_record_count (w_segment w) = 0 then w
     else w\<lparr>w_segment := ensure_mmaps_batch (writer_dir w) cols (w_segment w)\<rparr>)"

definition reconcile_orphan_rows :: "'c env \<Rightarrow> 'c table \<Rightarrow> table_error + 'c table" where
  "reconcile_orphan_rows E t =
     (let cols = pk_columns t;
          t = t\<lparr>t_immutable := map (\<lambda>s. if s_record_count s = 0 then s else ensure_mmaps_batch (s_dir s) cols s) (t_immutable t)\<rparr> in
      rbind (fold_r (collect_locations (e_ext E) cols) (t_immutable t) []) (\<lambda>locs.
        let t = t\<lparr>t_active := map_option (\<lambda>w. ensure_active_pk cols
              (if s_record_count (w_segment w) \<noteq> 0 \<and> w_dirty w then flush_buffers (e_seg E) w else w)) (t_active t)\<rparr> in
        rbind (case t_active t of None \<Rightarrow> Inr locs | Some w \<Rightarrow> collect_locations (e_ext E) cols (w_segment w) locs) (\<lambda>locs.
          let t = fold (mark_orphans E) (find_orphans locs) t in
          Inr (t\<lparr>t_primary_index := fold (repoint (e_ext E)) (latest_per_pk locs) (t_primary_index t)\<rparr>))))"

definition table_update :: "'c env \<Rightarrow> string \<Rightarrow> row \<Rightarrow> 'c table \<Rightarrow> table_error + 'c table" where
  "table_update E i row t = rbind (table_insert E row (table_delete E i t)) (reconcile_orphan_rows E)"

end
