(* ===== verification/Table_Index.thy ===== *)
theory Table_Index
  imports Table
begin

text \<open>
  \<^verbatim>\<open>src/core/storage/table.rs\<close>, the secondary indexes: loading, patching, merging and saving the
  \<open>ExactIndex\<close> of a field, and the row matches of equality and \<open>In\<close> filters they give.

  A lookup changes the LRU cache of the index it reads; the index is stored back in the table's
  cache of indexes, from which the code shares it.
\<close>

type_synonym segment_matches = "(u64 \<times> bitmap) list"

definition exact_index_path :: "string \<Rightarrow> string" where
  "exact_index_path field = ''secondary_exact/exact_'' @ field @ ''.idx''"

definition should_skip_exact_index :: "'c env \<Rightarrow> 'c table \<Rightarrow> string \<Rightarrow> bool" where
  "should_skip_exact_index E t field \<longleftrightarrow> field_is_pk_column t field \<or>
     (case e_skip_fields E of None \<Rightarrow> False
      | Some l \<Rightarrow> list_ex (\<lambda>entry. trim entry = field) (split_pred (\<lambda>c. c = CHR '','') l))"

definition non_empty :: "bitmaps \<Rightarrow> bitmaps" where
  "non_empty bms = filter (\<lambda>(_, b). b \<noteq> {}) bms"

section \<open>Building and patching\<close>

definition exact_index_missing_immutable_segments :: "'c env \<Rightarrow> 'c table \<Rightarrow> string \<Rightarrow> 'c exact_index \<Rightarrow> bool" where
  "exact_index_missing_immutable_segments E t field idx \<longleftrightarrow>
     (let known = exact_index_segment_ids (e_codec E) idx in
      list_ex (\<lambda>s. s_id s \<notin> known \<and> hget (s_dir s) (bitmaps_file field) \<noteq> None) (t_immutable t))"

text \<open>The body of the loop; files that do not decode are skipped.\<close>

definition patch_step :: "'c env \<Rightarrow> string \<Rightarrow> u64 set \<Rightarrow> segment \<Rightarrow> 'c exact_index \<times> nat \<Rightarrow> 'c exact_index \<times> nat" where
  "patch_step E field known s st =
     (if s_id s \<in> known then st
      else case hget (s_dir s) (bitmaps_file field) of
        None \<Rightarrow> st
      | Some bs \<Rightarrow>
          (case dec_bitmaps (e_seg E) bs of
             None \<Rightarrow> st
           | Some bms \<Rightarrow>
               if non_empty bms \<noteq> []
               then (merge_segment (e_ext E) (e_lru E) (e_codec E) (fst st) (s_id s) (non_empty bms), snd st + 1)
               else st))"

definition patch_exact_index_missing_segments :: "'c env \<Rightarrow> 'c table \<Rightarrow> string \<Rightarrow> 'c exact_index \<Rightarrow> 'c exact_index \<times> nat" where
  "patch_exact_index_missing_segments E t field idx =
     fold (patch_step E field (exact_index_segment_ids (e_codec E) idx)) (t_immutable t) (idx, 0)"

definition live_bitmaps :: "segment_writer \<Rightarrow> bitmaps \<Rightarrow> bitmaps" where
  "live_bitmaps w bms = non_empty (map (\<lambda>(v, b). (v, b - s_deleted (w_segment w))) (non_empty bms))"

definition build_exact_index :: "'c env \<Rightarrow> 'c table \<Rightarrow> string \<Rightarrow> table_error + 'c exact_index" where
  "build_exact_index E t field =
     (let merge = merge_segment (e_ext E) (e_lru E) (e_codec E) in
      rbind (fold_r (\<lambda>s idx. case hget (s_dir s) (bitmaps_file field) of
            None \<Rightarrow> Inr idx
          | Some bs \<Rightarrow> rbind (ok_or (SegErr BadBitmaps) (dec_bitmaps (e_seg E) bs)) (\<lambda>bms.
              Inr (merge idx (s_id s) (non_empty bms))))
        (t_immutable t) (exact_index_new (e_lru E))) (\<lambda>idx.
      case t_active t of
        None \<Rightarrow> Inr idx
      | Some w \<Rightarrow> (case hget (w_bitmaps w) field of
            None \<Rightarrow> Inr idx
          | Some bms \<Rightarrow> Inr (merge idx (s_id (w_segment w)) (live_bitmaps w bms)))))"

section \<open>Saving and loading\<close>

definition save_exact_index :: "'c env \<Rightarrow> string \<Rightarrow> 'c exact_index \<Rightarrow> files \<Rightarrow> table_error + 'c exact_index \<times> files" where
  "save_exact_index E field idx fs =
     map_err IxErr (exact_index_save (e_lru E) (e_codec E) (Some (exact_index_path field)) (idx, fs))"

text \<open>A patched index is saved; an error of the save is only logged.\<close>

definition save_patched :: "'c env \<Rightarrow> string \<Rightarrow> 'c exact_index \<times> nat \<Rightarrow> 'c table \<Rightarrow> 'c exact_index \<times> 'c table" where
  "save_patched E field p t =
     (if 0 < snd p
      then case save_exact_index E field (fst p) (t_files t) of
          Inl _ \<Rightarrow> (fst p, t)
        | Inr (idx, fs) \<Rightarrow> (idx, t\<lparr>t_files := fs\<rparr>)
      else (fst p, t))"

definition evict_field :: "nat \<Rightarrow> string \<Rightarrow> (string, 'c exact_index) hmap \<Rightarrow> (string, 'c exact_index) hmap" where
  "evict_field max_fields field cache =
     (if max_fields \<le> length cache \<and> hget cache field = None
      then (case cache of [] \<Rightarrow> cache | (k, _) # _ \<Rightarrow> hdel k cache) else cache)"

definition store_exact :: "string \<Rightarrow> 'c exact_index \<Rightarrow> 'c table \<Rightarrow> 'c table" where
  "store_exact field idx t = t\<lparr>t_exact := hput field idx (t_exact t)\<rparr>"

definition load_exact_index :: "'c env \<Rightarrow> string \<Rightarrow> 'c table \<Rightarrow> table_error + 'c exact_index \<times> 'c table" where
  "load_exact_index E field t =
     (if should_skip_exact_index E t field then Inr (exact_index_new (e_lru E), t)
      else case hget (t_exact t) field of
        Some cached \<Rightarrow>
          if exact_index_missing_immutable_segments E t field cached
          then let (idx, t) = save_patched E field (patch_exact_index_missing_segments E t field cached) t in
            Inr (idx, store_exact field idx t)
          else Inr (cached, t)
      | None \<Rightarrow>
          rbind (if hget (t_files t) (exact_index_path field) \<noteq> None
                 then map_err IxErr (exact_index_open (e_ext E) (e_lru E) (e_codec E) (t_files t) (exact_index_path field))
                 else map_sum id (bind_path (exact_index_path field)) (build_exact_index E t field)) (\<lambda>idx.
            let (idx, t) = save_patched E field (patch_exact_index_missing_segments E t field idx) t in
            Inr (idx, store_exact field idx (t\<lparr>t_exact := evict_field (e_cache_fields E) field (t_exact t)\<rparr>))))"

section \<open>Merging a rotated segment\<close>

definition merge_field :: "'c env \<Rightarrow> u64 \<Rightarrow> string \<times> bitmaps \<Rightarrow> 'c table \<Rightarrow> 'c table" where
  "merge_field E seg_id fv t =
     (let (field, vals) = fv; path = exact_index_path field in
      if should_skip_exact_index E t field then t
      else let idx = (case hget (t_exact t) field of
                Some cached \<Rightarrow> cached
              | None \<Rightarrow>
                  let initial = (if hget (t_files t) path \<noteq> None
                    then (case exact_index_open (e_ext E) (e_lru E) (e_codec E) (t_files t) path of
                            Inr i \<Rightarrow> i | Inl _ \<Rightarrow> exact_index_new (e_lru E))
                    else bind_path path (exact_index_new (e_lru E))) in
                  fst (patch_exact_index_missing_segments E t field initial)) in
        store_exact field (merge_segment (e_ext E) (e_lru E) (e_codec E) idx seg_id (non_empty vals)) t)"

definition merge_exact_indexes_for_segment :: "'c env \<Rightarrow> u64 \<Rightarrow> (string, bitmaps) hmap \<Rightarrow> 'c table \<Rightarrow> 'c table" where
  "merge_exact_indexes_for_segment E seg_id segment_bitmaps t = fold (merge_field E seg_id) segment_bitmaps t"

text \<open>\<open>trim_start_matches\<close> and \<open>trim_end_matches\<close> take the affix off as often as it is there.\<close>

definition field_of_index_file :: "string \<Rightarrow> string" where
  "field_of_index_file nm =
     rev (trim_with [rev ''.idx''] (rev (trim_with [''exact_''] nm)))"

definition purge_file :: "'c env \<Rightarrow> u64 set \<Rightarrow> string \<Rightarrow> files \<Rightarrow> table_error + files" where
  "purge_file E removed path fs =
     (case strip_prefix ''secondary_exact/'' path of
        None \<Rightarrow> Inr fs
      | Some nm \<Rightarrow>
          if \<not> (starts_with nm ''exact_'' \<and> ends_with nm ''.idx'') then Inr fs
          else (case exact_index_open (e_ext E) (e_lru E) (e_codec E) fs path of
              Inl _ \<Rightarrow> Inr fs
            | Inr idx \<Rightarrow>
                let (idx, changed) = purge_segments (e_lru E) (e_codec E) idx removed in
                if changed then map_sum id snd (save_exact_index E (field_of_index_file nm) idx fs) else Inr fs))"

definition purge_exact_indexes_for_removed_segments :: "'c env \<Rightarrow> u64 list \<Rightarrow> 'c table \<Rightarrow> table_error + 'c table" where
  "purge_exact_indexes_for_removed_segments E removed t =
     (if removed = [] then Inr t
      else map_sum id (\<lambda>fs. t\<lparr>t_files := fs\<rparr>) (fold_r (purge_file E (set removed)) (map fst (t_files t)) (t_files t)))"

section \<open>Matches\<close>

definition live_bitmap_for_segment :: "'c table \<Rightarrow> u64 \<Rightarrow> bitmap \<Rightarrow> bitmap" where
  "live_bitmap_for_segment t segment_id b =
     (let imm = (case find (\<lambda>s. s_id s = segment_id) (t_immutable t) of
            Some s \<Rightarrow> b - s_deleted s | None \<Rightarrow> {}) in
      case t_active t of
        Some w \<Rightarrow> if s_id (w_segment w) = segment_id then b - s_deleted (w_segment w) else imm
      | None \<Rightarrow> imm)"

text \<open>The result and the index with its changed LRU cache.\<close>

definition exact_matches_one_value ::
    "'c env \<Rightarrow> 'c table \<Rightarrow> string \<Rightarrow> string \<Rightarrow> 'c exact_index \<Rightarrow> segment_matches option \<times> 'c exact_index" where
  "exact_matches_one_value E t field value idx =
     (let (found, idx) = exact_index_get (e_ext E) (e_lru E) (e_codec E) idx value;
          from_index = (case found of None \<Rightarrow> []
            | Some entries \<Rightarrow> filter (\<lambda>(_, b). b \<noteq> {}) (map (\<lambda>(s, b). (s, live_bitmap_for_segment t s b)) entries));
          in_active = (case t_active t of None \<Rightarrow> None
            | Some w \<Rightarrow> map_option (\<lambda>b. (s_id (w_segment w), b - s_deleted (w_segment w)))
                (hget (hdefault [] (hget (w_bitmaps w) field)) value));
          from_active = (case in_active of None \<Rightarrow> [] | Some (s, b) \<Rightarrow> if b \<noteq> {} then [(s, b)] else []) in
      ((if found \<noteq> None \<or> in_active \<noteq> None then Some (from_index @ from_active) else None), idx))"

definition exact_matches_for_field_value :: "'c env \<Rightarrow> filter_t \<Rightarrow> 'c table \<Rightarrow> table_error + segment_matches option \<times> 'c table" where
  "exact_matches_for_field_value E f t =
     rbind (load_exact_index E (f_field f) t) (\<lambda>(idx, t).
       let (r, idx) = exact_matches_one_value E t (f_field f) (f_value f) idx in
       Inr (r, if should_skip_exact_index E t (f_field f) then t else store_exact (f_field f) idx t))"

definition combine_matches :: "segment_matches \<Rightarrow> (u64, bitmap) hmap \<Rightarrow> (u64, bitmap) hmap" where
  "combine_matches ms combined = fold (\<lambda>(s, b) c. hput s (hdefault {} (hget c s) \<union> b) c) ms combined"

fun values_loop :: "'c env \<Rightarrow> 'c table \<Rightarrow> string \<Rightarrow> string list \<Rightarrow> bool \<times> (u64, bitmap) hmap \<times> 'c exact_index \<Rightarrow>
    bool \<times> (u64, bitmap) hmap \<times> 'c exact_index" where
  "values_loop E t field [] st = st"
| "values_loop E t field (v # vs) (found_any, combined, idx) =
     (case exact_matches_one_value E t field v idx of
        (None, idx) \<Rightarrow> values_loop E t field vs (found_any, combined, idx)
      | (Some ms, idx) \<Rightarrow> values_loop E t field vs (True, combine_matches ms combined, idx))"

definition exact_matches_for_values_with_index ::
    "'c env \<Rightarrow> 'c table \<Rightarrow> string \<Rightarrow> string list \<Rightarrow> 'c exact_index \<Rightarrow> segment_matches option \<times> 'c exact_index" where
  "exact_matches_for_values_with_index E t field vs idx =
     (let (found_any, combined, idx) = values_loop E t field vs (False, [], idx) in
      ((if found_any then Some (filter (\<lambda>(_, b). b \<noteq> {}) combined) else None), idx))"

definition exact_matches_for_in_filter :: "'c env \<Rightarrow> filter_t \<Rightarrow> 'c table \<Rightarrow> table_error + segment_matches option \<times> 'c table" where
  "exact_matches_for_in_filter E f t =
     (let vs = list_values (f_value f) (f_options f) in
      if vs = [] then Inr (Some [], t)
      else rbind (load_exact_index E (f_field f) t) (\<lambda>(idx, t).
        let (r, idx) = exact_matches_for_values_with_index E t (f_field f) vs idx in
        Inr (r, if should_skip_exact_index E t (f_field f) then t else store_exact (f_field f) idx t)))"

definition intersect_segment_matches :: "segment_matches \<Rightarrow> segment_matches \<Rightarrow> segment_matches" where
  "intersect_segment_matches left right =
     (let right_map = fold (\<lambda>(s, b). hput s b) right [] in
      concat (map (\<lambda>(s, lb). case hget right_map s of
          None \<Rightarrow> []
        | Some rb \<Rightarrow> if lb \<inter> rb \<noteq> {} then [(s, lb \<inter> rb)] else []) left))"

text \<open>The loop over the equality and \<open>In\<close> filters; the last case of \<open>None\<close> is the early return.\<close>

fun eq_filters_loop :: "'c env \<Rightarrow> string \<Rightarrow> filter_t list \<Rightarrow> segment_matches option \<Rightarrow> 'c table \<Rightarrow>
    table_error + segment_matches option \<times> 'c table" where
  "eq_filters_loop E pk_field [] acc t = Inr (acc, t)"
| "eq_filters_loop E pk_field (f # fs) acc t =
     (if f_field f = pk_field \<or> field_is_pk_column t (f_field f) then eq_filters_loop E pk_field fs acc t
      else rbind (if f_op f = In then exact_matches_for_in_filter E f t else exact_matches_for_field_value E f t)
        (\<lambda>(current, t). case current of
           None \<Rightarrow> if f_op f = In then Inr (acc, t) else Inr (None, t)
         | Some current \<Rightarrow>
             let acc = (case acc of None \<Rightarrow> current | Some existing \<Rightarrow> intersect_segment_matches existing current) in
             if acc = [] then Inr (Some acc, t) else eq_filters_loop E pk_field fs (Some acc) t))"

definition exact_matches_for_eq_filters :: "'c env \<Rightarrow> filter_t list \<Rightarrow> string \<Rightarrow> 'c table \<Rightarrow>
    table_error + segment_matches option \<times> 'c table" where
  "exact_matches_for_eq_filters E fs pk_field t =
     eq_filters_loop E pk_field (filter (\<lambda>f. (f_op f = Eq \<or> f_op f = In) \<and> f_field f \<noteq> ''?'' \<and> f_value f \<noteq> ''?'') fs) None t"

section \<open>Scanning\<close>

definition scan_one :: "'c env \<Rightarrow> segment_writer option \<Rightarrow> filter_t list \<Rightarrow> logical_op \<Rightarrow> segment \<Rightarrow>
    seg_error + (u64 \<times> bitmap) \<times> segment" where
  "scan_one E act fs op s =
     (if (case act of Some w \<Rightarrow> s_id (w_segment w) = s_id s | None \<Rightarrow> False)
      then Inr ((s_id s, writer_search (e_ext E) (the act) fs op), s)
      else rbind (search_thread_safe (e_ext E) (e_seg E) s fs op) (\<lambda>(b, s). Inr ((s_id s, b), s)))"

text \<open>The tasks of every caller: the immutable segments, then the active one.\<close>

definition scan_segments_parallel :: "'c env \<Rightarrow> filter_t list \<Rightarrow> logical_op \<Rightarrow> 'c table \<Rightarrow>
    table_error + segment_matches \<times> 'c table" where
  "scan_segments_parallel E fs op t =
     rbind (map_err SegErr (map_r (scan_one E (t_active t) fs op) (t_immutable t))) (\<lambda>rs.
       let act = (case t_active t of None \<Rightarrow> []
             | Some w \<Rightarrow> [(s_id (w_segment w), writer_search (e_ext E) w fs op)]) in
       Inr (filter (\<lambda>(_, b). b \<noteq> {}) (map fst rs @ act), t\<lparr>t_immutable := map snd rs\<rparr>))"

end
