(* ===== verification/Table_Life.thy ===== *)
theory Table_Life
  imports Table_Index
begin

text \<open>
  \<^verbatim>\<open>src/core/storage/table.rs\<close>, the life of a table: opening (with the replay of the log and the
  reconciliation), rotating the active segment, closing, reloading, and emptying. A table's disk is
  its files and the directories of its segments; those of the segments in memory are in the
  segments (for the active one: what its writers have flushed).
\<close>

section \<open>Directories and small saves\<close>

text \<open>The directories with those of the segments in memory put back; dropping a writer flushes it.\<close>

definition release_dirs :: "'c env \<Rightarrow> 'c table \<Rightarrow> (string, files) hmap" where
  "release_dirs E t =
     (let dirs = fold (\<lambda>s. hput (s_name s) (s_dir s)) (t_immutable t) (t_dirs t) in
      case t_active t of None \<Rightarrow> dirs
      | Some w \<Rightarrow> hput (s_name (w_segment w)) (writer_dir (flush_writers w)) dirs)"

definition save_manifest :: "'c env \<Rightarrow> 'c table \<Rightarrow> 'c table" where
  "save_manifest E t = t\<lparr>t_files := hput ''manifest.json'' (e_man_enc E (t_manifest t)) (t_files t)\<rparr>"

definition table_save_primary_index :: "'c env \<Rightarrow> 'c table \<Rightarrow> 'c table" where
  "table_save_primary_index E t =
     t\<lparr>t_files := save_primary_index (e_pi E) ''primary.idx'' (t_primary_index t) (t_files t)\<rparr>"

definition table_load_primary_index :: "'c env \<Rightarrow> 'c table \<Rightarrow> table_error + 'c table" where
  "table_load_primary_index E t =
     (if hget (t_files t) ''primary.idx'' = None then Inr t
      else rbind (map_err PiErr (load_primary_index (e_ext E) (e_pi E) (t_files t) ''primary.idx'')) (\<lambda>idx.
        Inr (t\<lparr>t_primary_index := idx\<rparr>)))"

definition set_original_fields :: "'c env \<Rightarrow> string list \<Rightarrow> 'c table \<Rightarrow> 'c table" where
  "set_original_fields E flds t = save_manifest E (t\<lparr>t_manifest := (t_manifest t)\<lparr>m_original_fields := flds\<rparr>\<rparr>)"

definition persist_if_deleted :: "'c env \<Rightarrow> segment \<Rightarrow> segment" where
  "persist_if_deleted E s = (if has_deletions s then persist_deleted_bitmap (e_seg E) s else s)"

definition persist_all_deleted_bitmaps :: "'c env \<Rightarrow> 'c table \<Rightarrow> 'c table" where
  "persist_all_deleted_bitmaps E t =
     t\<lparr>t_immutable := map (persist_if_deleted E) (t_immutable t),
       t_active := map_option (\<lambda>w. w\<lparr>w_segment := persist_if_deleted E (w_segment w)\<rparr>) (t_active t)\<rparr>"

definition flush_wal_only :: "'c env \<Rightarrow> 'c table \<Rightarrow> 'c table" where
  "flush_wal_only E t = persist_all_deleted_bitmaps E (t\<lparr>t_wal := wal_flush_writes (t_wal t)\<rparr>)"

definition active_segment_row_count :: "'c table \<Rightarrow> u64" where
  "active_segment_row_count t = (case t_active t of None \<Rightarrow> 0 | Some w \<Rightarrow> s_record_count (w_segment w))"

definition live_row_count :: "'c table \<Rightarrow> nat" where
  "live_row_count t = pi_len (t_primary_index t)"

text \<open>The end of both flushes: the counter, and from the interval on the checkpoint.\<close>

definition count_flush :: "'c env \<Rightarrow> 'c table \<Rightarrow> 'c table" where
  "count_flush E t =
     (let t = t\<lparr>t_flush_count := t_flush_count t + 1\<rparr> in
      if e_save_interval E \<le> t_flush_count t
      then let t = table_save_primary_index E t in t\<lparr>t_wal := wal_truncate (t_wal t), t_flush_count := 0\<rparr>
      else t)"

definition flush_active_segment_buffers :: "'c env \<Rightarrow> 'c table \<Rightarrow> 'c table" where
  "flush_active_segment_buffers E t =
     (let t = t\<lparr>t_active := map_option (\<lambda>w. persist_bitmaps (e_seg E) (flush_buffers (e_seg E) w)) (t_active t)\<rparr> in
      count_flush E (t\<lparr>t_wal := wal_flush_writes (t_wal t)\<rparr>))"

section \<open>Segments\<close>

definition load_segments :: "'c env \<Rightarrow> 'c table \<Rightarrow> 'c table" where
  "load_segments E t =
     (let dirs = fold (\<lambda>s. hput (s_name s) (s_dir s)) (t_immutable t) (t_dirs t);
          metas = filter (\<lambda>m. sm_id m \<noteq> m_active_segment_id (t_manifest t)) (m_segments (t_manifest t));
          loaded = List.map_filter (\<lambda>m. case hget dirs (seg_name (sm_id m)) of
              None \<Rightarrow> None
            | Some dir \<Rightarrow> (case segment_load (e_seg E) (seg_name (sm_id m)) dir (Some m) of
                Inl _ \<Rightarrow> None | Inr s \<Rightarrow> Some s)) metas in
      t\<lparr>t_dirs := dirs, t_immutable := sort_key s_id loaded\<rparr>)"

text \<open>An active segment that does not load is replaced by an empty one in the same directory.\<close>

definition ensure_active_segment :: "'c env \<Rightarrow> 'c table \<Rightarrow> 'c table" where
  "ensure_active_segment E t =
     (case t_active t of
        Some _ \<Rightarrow> t
      | None \<Rightarrow>
          let active_id = m_active_segment_id (t_manifest t); nm = seg_name active_id;
              segment = (case hget (t_dirs t) nm of
                  None \<Rightarrow> segment_new active_id
                | Some dir \<Rightarrow>
                    (case segment_load (e_seg E) nm dir (find (\<lambda>m. sm_id m = active_id) (m_segments (t_manifest t))) of
                       Inr s \<Rightarrow> s\<lparr>s_is_immutable := False\<rparr>
                     | Inl _ \<Rightarrow> (segment_new active_id)\<lparr>s_dir := dir\<rparr>)) in
          t\<lparr>t_active := Some (segment_writer_new (e_seg E) segment), t_dirs := hdel nm (t_dirs t)\<rparr>)"

definition flush_active_segment :: "'c env \<Rightarrow> 'c table \<Rightarrow> table_error + 'c table" where
  "flush_active_segment E t =
     (case t_active t of
        None \<Rightarrow> Inr (ensure_active_segment E (persist_all_deleted_bitmaps E t))
      | Some w \<Rightarrow>
          if s_record_count (w_segment w) = 0 then Inr t
          else rbind (map_err SegErr (writer_flush (e_seg E) (e_bitmap_interval E) w)) (\<lambda>w.
            let w = persist_bitmaps (e_seg E) w;
                t = merge_exact_indexes_for_segment E (s_id (w_segment w)) (w_bitmaps w) (t\<lparr>t_active := None\<rparr>);
                m = add_segment (to_meta (w_segment w)) (t_manifest t);
                m = m\<lparr>m_active_segment_id := m_active_segment_id m + 1,
                      m_last_sequence_number := m_last_sequence_number m + 1\<rparr>;
                t = save_manifest E (t\<lparr>t_manifest := m\<rparr>);
                t = count_flush E (t\<lparr>t_wal := wal_flush_writes (t_wal t)\<rparr>);
                s = (w_segment w)\<lparr>s_is_immutable := True, s_dir := writer_dir w\<rparr>;
                t = t\<lparr>t_immutable := t_immutable t @ [s]\<rparr> in
            Inr (ensure_active_segment E (persist_all_deleted_bitmaps E t))))"

section \<open>Replaying the log\<close>

definition replay_op :: "'c env \<Rightarrow> wal_operation \<Rightarrow> 'c table \<Rightarrow> table_error + 'c table" where
  "replay_op E op t =
     (case op of
        wal_operation.Insert i data \<Rightarrow> table_insert E (hdefault [] (e_row_dec E data)) t
      | wal_operation.Delete i seg_id local_id \<Rightarrow>
          let normalized_id = nfc (e_ext E) i;
              (primary_loc, idx) = pi_remove (e_ext E) normalized_id (t_primary_index t);
              t = tombstone E (seg_id, local_id) (t\<lparr>t_primary_index := idx\<rparr>) in
          Inr (case primary_loc of
              None \<Rightarrow> t
            | Some cur \<Rightarrow> if cur \<noteq> (seg_id, local_id) then tombstone E cur t else t)
      | wal_operation.Update i data seg_id local_id \<Rightarrow>
          let row_data = hdefault [] (e_row_dec E data);
              t = tombstone E (seg_id, local_id) t;
              (pk_val, t) = draw_pk E row_data t in
          (case pi_get (e_ext E) (t_primary_index t) pk_val of
             Some cur \<Rightarrow> if cur \<noteq> (seg_id, local_id) then Inr t else Inr (append_row E pk_val row_data t)
           | None \<Rightarrow> Inr (append_row E pk_val row_data t)))"

definition replay_wal :: "'c env \<Rightarrow> 'c table \<Rightarrow> table_error + 'c table" where
  "replay_wal E t =
     rbind (map_err WalErr (wal_replay (e_wal_dec E) (t_wal t))) (\<lambda>ops.
       if ops = [] then Inr t
       else rbind (fold_r (replay_op E) ops t) (\<lambda>t.
         Inr ((table_save_primary_index E t)\<lparr>t_wal := wal_truncate (wal_flush_writes (t_wal t))\<rparr>)))"

section \<open>Opening\<close>

text \<open>The loop that collects the keys of the active segment, and the one that registers them.\<close>

fun active_pks :: "ext \<Rightarrow> string list \<Rightarrow> segment \<Rightarrow> u32 list \<Rightarrow> table_error + (string \<times> u32) list" where
  "active_pks x cols s [] = Inr []"
| "active_pks x cols s (l # ls) =
     (case resolve_row_pk_from_segment_row x cols s l of
        Panicked \<Rightarrow> Inl Panic
      | Sliced pk \<Rightarrow> rbind (active_pks x cols s ls) (\<lambda>r.
          Inr (case pk of None \<Rightarrow> r | Some v \<Rightarrow> (v, l) # r)))"

definition sync_primary_index_to_active_bitmaps :: "'c env \<Rightarrow> 'c table \<Rightarrow> table_error + 'c table" where
  "sync_primary_index_to_active_bitmaps E t =
     (case t_active t of
        None \<Rightarrow> Inr t
      | Some w \<Rightarrow>
          if s_record_count (w_segment w) = 0 then Inr t
          else let cols = pk_columns t; w = w\<lparr>w_segment := ensure_mmaps_batch (writer_dir w) cols (w_segment w)\<rparr> in
            rbind (active_pks (e_ext E) cols (w_segment w) (live_ids (w_segment w))) (\<lambda>adds.
              Inr (t\<lparr>t_active := Some w,
                t_primary_index := fold (\<lambda>(pk, l) idx.
                  if pi_get (e_ext E) idx pk = None then snd (pi_insert (e_ext E) pk (s_id (w_segment w), l) idx) else idx)
                  adds (t_primary_index t)\<rparr>)))"

definition remove_stale_pk_index :: "'c table \<Rightarrow> 'c table" where
  "remove_stale_pk_index t =
     (if m_primary_key (t_manifest t) \<noteq> []
      then t\<lparr>t_files := hdel (exact_index_path (m_primary_key (t_manifest t))) (t_files t)\<rparr> else t)"

text \<open>The steps both ways of opening share; \<open>fs\<close> are the files, the log among them.\<close>

definition open_common :: "'c env \<Rightarrow> string \<Rightarrow> files \<Rightarrow> (string, files) hmap \<Rightarrow> table_error + 'c table" where
  "open_common E nm fs dirs =
     rbind (case hget fs ''manifest.json'' of None \<Rightarrow> Inr manifest_new
       | Some bs \<Rightarrow> ok_or BadManifest (e_man_dec E bs)) (\<lambda>manifest.
     let t = \<lparr>t_name = nm, t_manifest = manifest, t_active = None, t_immutable = [],
              t_wal = wal_open (hget fs ''wal.log''), t_primary_index = primary_index_new, t_exact = [],
              t_flush_count = 0, t_discarded = False, t_dirs = dirs, t_files = hdel ''wal.log'' fs, t_draws = 0\<rparr>;
         t = ensure_active_segment E (load_segments E t) in
     rbind (table_load_primary_index E t) (sync_primary_index_to_active_bitmaps E))"

definition table_open :: "'c env \<Rightarrow> string \<Rightarrow> files \<Rightarrow> (string, files) hmap \<Rightarrow> table_error + 'c table" where
  "table_open E nm fs dirs =
     rbind (open_common E nm fs dirs) (\<lambda>t.
     rbind (replay_wal E t) (\<lambda>t.
     rbind (reconcile_orphan_rows E t) (\<lambda>t.
     rbind (if 0 < active_segment_row_count t then flush_active_segment E t else Inr t) (\<lambda>t.
     Inr (remove_stale_pk_index t)))))"

definition open_for_query :: "'c env \<Rightarrow> string \<Rightarrow> files \<Rightarrow> (string, files) hmap \<Rightarrow> table_error + 'c table" where
  "open_for_query E nm fs dirs =
     (if (case hget fs ''wal.log'' of None \<Rightarrow> False | Some bs \<Rightarrow> bs \<noteq> []) then table_open E nm fs dirs
      else rbind (open_common E nm fs dirs) (\<lambda>t. Inr (remove_stale_pk_index t)))"

section \<open>Closing\<close>

text \<open>The saves up to the first error.\<close>

fun persist_loop :: "'c env \<Rightarrow> (string \<times> 'c exact_index) list \<Rightarrow> 'c table \<Rightarrow> 'c table \<times> table_error option" where
  "persist_loop E [] t = (t, None)"
| "persist_loop E ((field, idx) # r) t =
     (case save_exact_index E field idx (t_files t) of
        Inl e \<Rightarrow> (t, Some e)
      | Inr (idx, fs) \<Rightarrow> persist_loop E r (store_exact field idx (t\<lparr>t_files := fs\<rparr>)))"

definition clear_caches :: "segment \<Rightarrow> segment" where
  "clear_caches s = s\<lparr>s_mmap_cache := [], s_mmap_order := [], s_bitmap_cache := []\<rparr>"

definition table_close :: "'c env \<Rightarrow> 'c table \<Rightarrow> table_error + 'c table" where
  "table_close E t =
     (if t_discarded t then Inr t
      else rbind (case t_active t of
          None \<Rightarrow> Inr t
        | Some w \<Rightarrow> rbind (map_err SegErr (writer_flush (e_seg E) (e_bitmap_interval E) w)) (\<lambda>w.
            let w = persist_bitmaps (e_seg E) w in
            Inr (t\<lparr>t_active := None, t_dirs := hput (s_name (w_segment w)) (writer_dir w) (t_dirs t)\<rparr>))) (\<lambda>t.
        let t = persist_all_deleted_bitmaps E (t\<lparr>t_wal := wal_flush_writes (t_wal t)\<rparr>);
            t = (if \<not> pi_is_empty (t_primary_index t) \<or> t_immutable t \<noteq> []
              then let t = table_save_primary_index E (save_manifest E t);
                       t = fst (persist_loop E (t_exact t) t) in
                t\<lparr>t_wal := wal_truncate (t_wal t)\<rparr>
              else t) in
        Inr (t\<lparr>t_immutable := map clear_caches (t_immutable t), t_exact := []\<rparr>)))"

section \<open>Reloading and emptying\<close>

definition reload_if_needed :: "'c env \<Rightarrow> 'c table \<Rightarrow> table_error + 'c table" where
  "reload_if_needed E t =
     (case hget (t_files t) ''manifest.json'' of
        None \<Rightarrow> Inr t
      | Some bs \<Rightarrow> rbind (ok_or BadManifest (e_man_dec E bs)) (\<lambda>new_manifest.
          if m_last_sequence_number (t_manifest t) < m_last_sequence_number new_manifest
            \<or> m_last_sequence_number new_manifest = m_last_sequence_number (t_manifest t)
              \<and> t_immutable t = [] \<and> m_segments new_manifest \<noteq> []
          then let dirs = release_dirs E t in
            rbind (table_load_primary_index E (load_segments E (t\<lparr>t_manifest := new_manifest\<rparr>))) (\<lambda>t.
              Inr (ensure_active_segment E (t\<lparr>t_active := None, t_dirs := dirs\<rparr>)))
          else Inr t))"

fun segment_pks :: "ext \<Rightarrow> string list \<Rightarrow> segment list \<Rightarrow> table_error + string list" where
  "segment_pks x cols [] = Inr []"
| "segment_pks x cols (s # ss) =
     rbind (active_pks x cols s (live_ids s)) (\<lambda>ps. rbind (segment_pks x cols ss) (\<lambda>r. Inr (map fst ps @ r)))"

definition delete_all_rows :: "'c env \<Rightarrow> 'c table \<Rightarrow> table_error + 'c table" where
  "delete_all_rows E t =
     (let cols = pk_columns t;
          t = t\<lparr>t_immutable := map (\<lambda>s. ensure_mmaps_batch (s_dir s) cols s) (t_immutable t),
                t_active := map_option (\<lambda>w. w\<lparr>w_segment := ensure_mmaps_batch (writer_dir w) cols (w_segment w)\<rparr>) (t_active t)\<rparr> in
      rbind (segment_pks (e_ext E) cols (t_immutable t @ (case t_active t of None \<Rightarrow> [] | Some w \<Rightarrow> [w_segment w]))) (\<lambda>pks.
        flush_active_segment E (fold (table_delete E) pks t)))"

definition prepare_for_full_snapshot :: "'c env \<Rightarrow> 'c table \<Rightarrow> 'c table" where
  "prepare_for_full_snapshot E t =
     (let m = (t_manifest t)\<lparr>m_segments := [], m_active_segment_id := 0,
                m_last_sequence_number := m_last_sequence_number (t_manifest t) + 1\<rparr>;
          t = t\<lparr>t_dirs := [], t_immutable := [], t_primary_index := primary_index_new, t_exact := [],
                t_files := filter (\<lambda>(n, _). \<not> starts_with n ''secondary_exact/'') (t_files t),
                t_active := None, t_manifest := m\<rparr>;
          t = table_save_primary_index E (ensure_active_segment E t) in
      t\<lparr>t_wal := wal_truncate (t_wal t)\<rparr>)"

section \<open>Warming\<close>

fun warm_until_error :: "seg_codec \<Rightarrow> string list \<Rightarrow> segment \<Rightarrow> segment" where
  "warm_until_error cd [] s = s"
| "warm_until_error cd (f # fs) s = (case get_bitmaps_cached cd s f of
     Inl _ \<Rightarrow> s | Inr (_, s) \<Rightarrow> warm_until_error cd fs s)"

definition table_warm_up_indices :: "'c env \<Rightarrow> string list \<Rightarrow> 'c table \<Rightarrow> 'c table" where
  "table_warm_up_indices E flds t =
     (let t = fold (\<lambda>f t. case load_exact_index E f t of Inl _ \<Rightarrow> t | Inr (_, t) \<Rightarrow> t) flds t in
      t\<lparr>t_immutable := map (warm_until_error (e_seg E) flds) (t_immutable t),
        t_active := map_option (\<lambda>w. w\<lparr>w_segment := warm_until_error (e_seg E) flds (w_segment w)\<rparr>) (t_active t)\<rparr>)"

end
