(* ===== verification/Table_Rows.thy ===== *)
theory Table_Rows
  imports Table_Life
begin

text \<open>
  A table is a store of rows by primary key: the invariant of \<open>insert\<close>, \<open>delete\<close> and the rotation of
  the active segment, and their refinement of a map from keys to rows.
\<close>

section \<open>Reading through the maps\<close>

definition pair_in :: "files \<Rightarrow> string \<Rightarrow> mmap_pair option" where
  "pair_in dir f = (case (hget dir (dat_file f), hget dir (off_file f)) of (Some a, Some b) \<Rightarrow> Some (a, b) | _ \<Rightarrow> None)"

definition cell_at :: "files \<Rightarrow> string \<Rightarrow> u32 \<Rightarrow> string sliced" where
  "cell_at dir f i = (case pair_in dir f of None \<Rightarrow> Sliced [] | Some p \<Rightarrow> read_value_from_mmap p i)"

text \<open>The cached maps are those of the files.\<close>

definition cache_ok :: "string list \<Rightarrow> files \<Rightarrow> segment \<Rightarrow> bool" where
  "cache_ok fs dir s \<longleftrightarrow> (\<forall>f\<in>set fs. \<forall>p. hget (s_mmap_cache s) f = Some p \<longrightarrow> pair_in dir f = Some p)"

lemma ensure_simps [simp]:
  "s_id (ensure_mmaps_batch dir flds s) = s_id s" "s_name (ensure_mmaps_batch dir flds s) = s_name s"
  "s_dir (ensure_mmaps_batch dir flds s) = s_dir s" "s_deleted (ensure_mmaps_batch dir flds s) = s_deleted s"
  "s_record_count (ensure_mmaps_batch dir flds s) = s_record_count s"
  by (simp_all add: ensure_mmaps_batch_def)

text \<open>The body of the loop of \<open>ensure_mmaps_batch\<close>.\<close>

definition ensure_step :: "files \<Rightarrow> string \<Rightarrow> (string, mmap_pair) hmap \<Rightarrow> (string, mmap_pair) hmap" where
  "ensure_step dir field cache = (case hget cache field of Some _ \<Rightarrow> cache
     | None \<Rightarrow> (case (hget dir (dat_file field), hget dir (off_file field)) of
         (Some dat, Some off) \<Rightarrow> hput field (dat, off) cache | _ \<Rightarrow> cache))"

lemma ensure_batch_fold: "s_mmap_cache (ensure_mmaps_batch dir flds s) =
    fold (ensure_step dir) (filter (\<lambda>f. hget (s_mmap_cache s) f = None) flds) (s_mmap_cache s)"
  by (simp add: ensure_mmaps_batch_def ensure_step_def [abs_def])

lemma ensure_step_get: "hget (ensure_step dir g m) f =
    (if f = g \<and> hget m g = None then pair_in dir g else hget m f)"
  by (auto simp: ensure_step_def pair_in_def split: option.splits)

lemma ensure_fold:
  "hget (fold (ensure_step dir) flds m) f = (if f \<in> set flds \<and> hget m f = None then pair_in dir f else hget m f)"
  by (induction flds arbitrary: m) (auto simp: ensure_step_get)

lemma ensure_cache:
  assumes "cache_ok fs dir s" "f \<in> set fs"
  shows "hget (s_mmap_cache (ensure_mmaps_batch dir flds s)) f =
    (if f \<in> set flds then pair_in dir f else hget (s_mmap_cache s) f)"
proof (cases "hget (s_mmap_cache s) f")
  case (Some p)
  with assms show ?thesis by (cases p) (simp add: ensure_batch_fold ensure_fold cache_ok_def)
qed (simp add: ensure_batch_fold ensure_fold)

lemma ensure_cache_ok: "cache_ok fs dir s \<Longrightarrow> cache_ok fs dir (ensure_mmaps_batch dir flds s)"
  unfolding cache_ok_def [of _ _ "ensure_mmaps_batch dir flds s"] by (auto simp: ensure_cache cache_ok_def split: if_splits)

text \<open>A cell read through the maps of a batch.\<close>

definition cell_via :: "mmap_pair option \<Rightarrow> u32 \<Rightarrow> string sliced" where
  "cell_via m l = (case m of Some p \<Rightarrow> read_value_from_mmap p l | None \<Rightarrow> Sliced [])"

definition row_cells :: "(u64 \<Rightarrow> mmap_pair option list option) \<Rightarrow> nat \<Rightarrow> location \<Rightarrow> string sliced list" where
  "row_cells mms n loc = map (\<lambda>j. cell_via (case mms (fst loc) of Some ms \<Rightarrow> ms ! j | None \<Rightarrow> None) (snd loc)) [0 ..< n]"

text \<open>Keeping the maps of the last segment changes nothing, as no segment has the initial id.\<close>

lemma column_values_eq:
  assumes "\<forall>loc\<in>set ids. fst loc \<noteq> - 1" "last_seg = - 1 \<and> lm = None \<or> lm = (case mms last_seg of Some ms \<Rightarrow> ms ! j | None \<Rightarrow> None)"
  shows "column_values mms j last_seg lm ids =
    map (\<lambda>loc. cell_via (case mms (fst loc) of Some ms \<Rightarrow> ms ! j | None \<Rightarrow> None) (snd loc)) ids"
  using assms
proof (induction ids arbitrary: last_seg lm)
  case (Cons loc ids)
  obtain s l where loc: "loc = (s, l)" by (cases loc)
  show ?case
  proof (cases "s = last_seg")
    case True
    with Cons.prems loc have "lm = (case mms s of Some ms \<Rightarrow> ms ! j | None \<Rightarrow> None)" by auto
    with Cons True show ?thesis by (simp add: loc cell_via_def cong: option.case_cong)
  next
    case False
    with Cons.IH [of s "case mms s of Some ms \<Rightarrow> ms ! j | None \<Rightarrow> None"] Cons.prems show ?thesis
      by (simp add: loc cell_via_def cong: option.case_cong)
  qed
qed simp

lemma chunk_rows_eq:
  "\<forall>loc\<in>set chunk. fst loc \<noteq> - 1 \<Longrightarrow> chunk_rows mms n chunk = map (row_cells mms n) chunk"
  by (intro nth_equalityI) (simp_all add: chunk_rows_def row_cells_def column_values_eq cong: option.case_cong)

lemma concat_chunks: "0 < n \<Longrightarrow> concat (chunks n xs) = xs"
proof (induction n xs rule: chunks.induct)
  case (1 n xs)
  then show ?case by (subst chunks.simps) auto
qed

lemma rows_of_chunks:
  assumes "0 < m" "\<forall>loc\<in>set ids. fst loc \<noteq> - 1"
  shows "concat (map (chunk_rows mms n) (chunks m ids)) = map (row_cells mms n) ids"
proof -
  have "set (concat (chunks m ids)) = set ids" using concat_chunks [OF assms(1), of ids] by simp
  then have "\<forall>c\<in>set (chunks m ids). \<forall>loc\<in>set c. fst loc \<noteq> - 1" using assms(2) by auto
  then have "map (chunk_rows mms n) (chunks m ids) = map (map (row_cells mms n)) (chunks m ids)"
    by (simp add: chunk_rows_eq)
  then show ?thesis using concat_chunks [OF assms(1), of ids] by (metis map_concat)
qed

lemma sliced_list_map: "(\<And>x. x \<in> set xs \<Longrightarrow> f x = Sliced (g x)) \<Longrightarrow> sliced_list (map f xs) = Sliced (map g xs)"
  by (induction xs) simp_all

section \<open>The rows of a segment\<close>

lemma pair_in_cong: "hget d (dat_file f) = hget d' (dat_file f) \<Longrightarrow> hget d (off_file f) = hget d' (off_file f) \<Longrightarrow>
  pair_in d f = pair_in d' f"
  by (simp add: pair_in_def)

lemma pair_in_hput [simp]: "n \<noteq> dat_file f \<Longrightarrow> n \<noteq> off_file f \<Longrightarrow> pair_in (hput n b d) f = pair_in d f"
  by (auto simp: pair_in_def)

lemma pair_in_deleted [simp]: "pair_in (hput ''deleted.bitmap'' b d) f = pair_in d f"
  using file_clash(4,5) by (intro pair_in_hput) metis+

lemma pair_in_metadata [simp]: "pair_in (hput ''metadata.json'' b d) f = pair_in d f"
proof -
  have "last (dat_file f) \<noteq> last ''metadata.json''" "last (off_file f) \<noteq> last ''metadata.json''"
    by (simp_all add: dat_file_def off_file_def)
  then show ?thesis by (intro pair_in_hput) metis+
qed

lemma pair_in_writer:
  assumes "hwf (w_writers w)"
  shows "pair_in (writer_dir w) f = (case hget (w_writers w) f of
     Some (dat, off, n) \<Rightarrow> Some (bw_file dat, bw_file off) | None \<Rightarrow> pair_in (s_dir (w_segment w)) f)"
proof (cases "hget (w_writers w) f")
  case None
  then have n: "f \<notin> fst ` set (w_writers w)" by (simp add: hget_None_iff)
  have "hget (writer_dir w) (dat_file f) = hget (s_dir (w_segment w)) (dat_file f)"
    using n by (intro writer_dir_other) (auto simp: file_names)
  moreover have "hget (writer_dir w) (off_file f) = hget (s_dir (w_segment w)) (off_file f)"
    using n file_names(3) by (intro writer_dir_other) (metis file_names(2))
  ultimately show ?thesis using None by (simp add: pair_in_def)
next
  case (Some t)
  then show ?thesis using writer_dir_get [OF assms] by (cases t) (simp add: pair_in_def)
qed

definition row_over :: "string list \<Rightarrow> row \<Rightarrow> bool" where
  "row_over fs row \<longleftrightarrow> hwf row \<and> fst ` set row = set fs \<and> list_all (utf8_valid \<circ> snd) row"

definition vals :: "string \<Rightarrow> row list \<Rightarrow> string list" where
  "vals f rows = map (\<lambda>r. the (hget r f)) rows"

definition holds_rows :: "string list \<Rightarrow> files \<Rightarrow> segment \<Rightarrow> row list \<Rightarrow> bool" where
  "holds_rows fs dir s rows \<longleftrightarrow> s_record_count s = of_nat (length rows) \<and> length rows < 2 ^ 32 \<and>
     (\<forall>r\<in>set rows. row_over fs r) \<and>
     (\<forall>f\<in>set fs. \<forall>i < length rows. cell_at dir f (of_nat i) = Sliced (the (hget (rows ! i) f)))"

definition imm_ok :: "string list \<Rightarrow> segment \<Rightarrow> row list \<Rightarrow> bool" where
  "imm_ok fs s rows \<longleftrightarrow> cache_ok fs (s_dir s) s \<and> holds_rows fs (s_dir s) s rows"

text \<open>Nothing is left in the buffers, and the maps are those of the files.\<close>

definition clean :: "string list \<Rightarrow> segment_writer \<Rightarrow> bool" where
  "clean fs w \<longleftrightarrow> cache_ok fs (writer_dir w) (w_segment w) \<and>
     (\<forall>(col, dat, off, n) \<in> set (w_writers w). bw_buf dat = [] \<and> bw_buf off = [])"

definition act_ok :: "ext \<Rightarrow> string list \<Rightarrow> segment_writer \<Rightarrow> row list \<Rightarrow> bool" where
  "act_ok x fs w rows \<longleftrightarrow> hwf (w_writers w) \<and> s_record_count (w_segment w) = of_nat (length rows) \<and>
     length rows < 2 ^ 32 \<and> (\<forall>r\<in>set rows. row_over fs r) \<and>
     (\<forall>f\<in>set fs. col_holds x w f (vals f rows) \<and> length (col_data x (vals f rows)) < 2 ^ 63) \<and>
     (w_dirty w \<or> clean fs w)"

lemma row_over_get: "row_over fs row \<Longrightarrow> f \<in> set fs \<Longrightarrow> \<exists>v. hget row f = Some v \<and> utf8_valid v"
proof -
  assume r: "row_over fs row" and f: "f \<in> set fs"
  then obtain v where "(f, v) \<in> set row" by (force simp: row_over_def)
  with r show ?thesis by (force simp: row_over_def list_all_iff hget_Some_iff)
qed

lemma row_over_None: "row_over fs row \<Longrightarrow> f \<notin> set fs \<Longrightarrow> hget row f = None"
  by (simp add: row_over_def hget_None_iff)

lemma col_data_empty: "str_layout x \<Longrightarrow> vs \<noteq> [] \<Longrightarrow> col_data x vs \<noteq> []"
proof (cases vs)
  case (Cons v r)
  assume "str_layout x"
  then have "length (bincode_str x v) \<ge> 8" by (simp add: str_layout_def)
  with Cons show ?thesis by (auto simp: col_data_def)
qed simp

lemma clean_pair:
  assumes "str_layout x" "act_ok x fs w rows" "clean fs w" "f \<in> set fs" "rows \<noteq> []"
  shows "pair_in (writer_dir w) f = Some (col_data x (vals f rows), offsets_from x 0 (vals f rows))"
proof -
  have h: "col_holds x w f (vals f rows)" and wf: "hwf (w_writers w)" using assms by (simp_all add: act_ok_def)
  have ne: "vals f rows \<noteq> []" using assms(5) by (simp add: vals_def)
  show ?thesis
  proof (cases "hget (w_writers w) f")
    case None
    with h have d: "hdefault [] (hget (s_dir (w_segment w)) (dat_file f)) = col_data x (vals f rows)"
      "hdefault [] (hget (s_dir (w_segment w)) (off_file f)) = offsets_from x 0 (vals f rows)"
      by (simp_all add: col_holds_def column_of_def open_column_def Let_def)
    moreover have "col_data x (vals f rows) \<noteq> []" "offsets_from x 0 (vals f rows) \<noteq> []"
      using col_data_empty [OF assms(1) ne] ne offsets_length [of x 0 "vals f rows"] by (auto simp del: offsets_length)
    ultimately have "pair_in (s_dir (w_segment w)) f = Some (col_data x (vals f rows), offsets_from x 0 (vals f rows))"
      by (cases "hget (s_dir (w_segment w)) (dat_file f)"; cases "hget (s_dir (w_segment w)) (off_file f)")
        (simp_all add: pair_in_def)
    with wf None show ?thesis by (simp add: pair_in_writer)
  next
    case (Some t)
    obtain dat off n where t: "t = (dat, off, n)" by (cases t)
    from Some t wf have "(f, dat, off, n) \<in> set (w_writers w)" by (simp add: hget_Some_iff)
    with assms(3) have "bw_buf dat = []" "bw_buf off = []" by (auto simp: clean_def)
    with h Some t wf show ?thesis by (simp add: pair_in_writer col_holds_def column_of_def bw_all_def)
  qed
qed

lemma clean_holds:
  assumes "str_layout x" "act_ok x fs w rows" "clean fs w"
  shows "holds_rows fs (writer_dir w) (w_segment w) rows"
proof -
  have "cell_at (writer_dir w) f (of_nat i) = Sliced (the (hget (rows ! i) f))" if f: "f \<in> set fs" and i: "i < length rows" for f i
  proof -
    have "rows \<noteq> []" using i by auto
    note p = clean_pair [OF assms f this]
    have "cell_bytes (col_data x (vals f rows), offsets_from x 0 (vals f rows)) (of_nat i) = Some (Sliced (vals f rows ! i))"
      using assms(2) f i by (intro read_cell [OF assms(1)]) (simp_all add: act_ok_def vals_def)
    moreover have "utf8_valid (vals f rows ! i)"
      using assms(2) row_over_get [of fs "rows ! i" f] f i by (auto simp: act_ok_def vals_def)
    ultimately show ?thesis using i
      by (simp add: cell_at_def p read_value_from_mmap_def from_utf8_lossy_valid vals_def)
  qed
  with assms(2) show ?thesis by (simp add: holds_rows_def act_ok_def)
qed

text \<open>Steps that leave the columns alone.\<close>

definition same_columns :: "string list \<Rightarrow> segment_writer \<Rightarrow> segment_writer \<Rightarrow> bool" where
  "same_columns fs w w' \<longleftrightarrow> hwf (w_writers w') \<and> s_record_count (w_segment w') = s_record_count (w_segment w) \<and>
     (\<forall>x. \<forall>f\<in>set fs. \<forall>vs. col_holds x w f vs \<longrightarrow> col_holds x w' f vs)"

lemma same_columns_act:
  "act_ok x fs w rows \<Longrightarrow> same_columns fs w w' \<Longrightarrow> w_dirty w' \<or> clean fs w' \<Longrightarrow> act_ok x fs w' rows"
  by (simp add: act_ok_def same_columns_def)

lemma same_columnsI:
  assumes "w_writers w' = w_writers w" "hwf (w_writers w)" "s_record_count (w_segment w') = s_record_count (w_segment w)"
    "\<And>f. f \<in> set fs \<Longrightarrow> hget (s_dir (w_segment w')) (dat_file f) = hget (s_dir (w_segment w)) (dat_file f)"
    "\<And>f. f \<in> set fs \<Longrightarrow> hget (s_dir (w_segment w')) (off_file f) = hget (s_dir (w_segment w)) (off_file f)"
  shows "same_columns fs w w'"
proof -
  have "column_of w' f = column_of w f" if "f \<in> set fs" for f
    using assms that by (simp add: column_of_def open_column_def split: option.splits)
  with assms show ?thesis by (simp add: same_columns_def col_holds_def)
qed

lemma mark_persist_simps [simp]:
  "s_id (mark_and_persist E ls s) = s_id s" "s_record_count (mark_and_persist E ls s) = s_record_count s"
  "s_mmap_cache (mark_and_persist E ls s) = s_mmap_cache s" "s_name (mark_and_persist E ls s) = s_name s"
  "s_deleted (mark_and_persist E ls s) = s_deleted s \<union> set ls"
  "pair_in (s_dir (mark_and_persist E ls s)) f = pair_in (s_dir s) f"
  "hget (s_dir (mark_and_persist E ls s)) (dat_file f) = hget (s_dir s) (dat_file f)"
  "hget (s_dir (mark_and_persist E ls s)) (off_file f) = hget (s_dir s) (off_file f)"
proof -
  have "fold mark_deleted ls s = s\<lparr>s_deleted := s_deleted s \<union> set ls\<rparr>"
    by (induction ls arbitrary: s) (auto simp: mark_deleted_def)
  then show "s_id (mark_and_persist E ls s) = s_id s" "s_record_count (mark_and_persist E ls s) = s_record_count s"
    "s_mmap_cache (mark_and_persist E ls s) = s_mmap_cache s" "s_name (mark_and_persist E ls s) = s_name s"
    "s_deleted (mark_and_persist E ls s) = s_deleted s \<union> set ls"
    "pair_in (s_dir (mark_and_persist E ls s)) f = pair_in (s_dir s) f"
    "hget (s_dir (mark_and_persist E ls s)) (dat_file f) = hget (s_dir s) (dat_file f)"
    "hget (s_dir (mark_and_persist E ls s)) (off_file f) = hget (s_dir s) (off_file f)"
    using file_clash(4,5) by (auto simp: mark_and_persist_def persist_deleted_bitmap_def)
qed

lemma cache_ok_cong:
  "s_mmap_cache s' = s_mmap_cache s \<Longrightarrow> (\<And>f. pair_in d' f = pair_in d f) \<Longrightarrow> cache_ok fs d' s' = cache_ok fs d s"
  by (simp add: cache_ok_def)

lemma imm_ok_mark: "imm_ok fs s rows \<Longrightarrow> imm_ok fs (mark_and_persist E ls s) rows"
  by (simp add: imm_ok_def holds_rows_def cell_at_def cong: cache_ok_cong option.case_cong)

lemma imm_ok_ensure: "imm_ok fs s rows \<Longrightarrow> imm_ok fs (ensure_mmaps_batch (s_dir s) flds s) rows"
  by (simp add: imm_ok_def holds_rows_def ensure_cache_ok)

lemma clean_cong:
  assumes "hwf (w_writers w)" "w_writers w' = w_writers w" "s_mmap_cache (w_segment w') = s_mmap_cache (w_segment w)"
    "\<And>f. pair_in (s_dir (w_segment w')) f = pair_in (s_dir (w_segment w)) f"
  shows "clean fs w' = clean fs w"
  using assms by (simp add: clean_def cache_ok_def pair_in_writer cong: option.case_cong)

lemma act_ok_mark:
  assumes "act_ok x fs w rows"
  shows "act_ok x fs (w\<lparr>w_segment := mark_and_persist E ls (w_segment w)\<rparr>) rows"
proof (rule same_columns_act [OF assms])
  have wf: "hwf (w_writers w)" using assms by (simp add: act_ok_def)
  show "same_columns fs w (w\<lparr>w_segment := mark_and_persist E ls (w_segment w)\<rparr>)"
    using wf by (intro same_columnsI) simp_all
  show "w_dirty (w\<lparr>w_segment := mark_and_persist E ls (w_segment w)\<rparr>) \<or>
      clean fs (w\<lparr>w_segment := mark_and_persist E ls (w_segment w)\<rparr>)"
    using assms clean_cong [OF wf, of "w\<lparr>w_segment := mark_and_persist E ls (w_segment w)\<rparr>"]
    by (simp add: act_ok_def)
qed

lemma writer_dir_segment: "s_dir s = s_dir (w_segment w) \<Longrightarrow> writer_dir (w\<lparr>w_segment := s\<rparr>) = writer_dir w"
  by (simp add: writer_dir_def)

lemma act_ok_ensure:
  assumes "act_ok x fs w rows" "clean fs w"
  shows "act_ok x fs (w\<lparr>w_segment := ensure_mmaps_batch (writer_dir w) flds (w_segment w)\<rparr>) rows"
    "clean fs (w\<lparr>w_segment := ensure_mmaps_batch (writer_dir w) flds (w_segment w)\<rparr>)"
proof -
  show c: "clean fs (w\<lparr>w_segment := ensure_mmaps_batch (writer_dir w) flds (w_segment w)\<rparr>)"
    using assms(2) by (simp add: clean_def writer_dir_segment ensure_cache_ok)
  have "same_columns fs w (w\<lparr>w_segment := ensure_mmaps_batch (writer_dir w) flds (w_segment w)\<rparr>)"
    using assms(1) by (intro same_columnsI) (simp_all add: act_ok_def)
  from same_columns_act [OF assms(1) this] c
  show "act_ok x fs (w\<lparr>w_segment := ensure_mmaps_batch (writer_dir w) flds (w_segment w)\<rparr>) rows" by blast
qed

lemma flush_buffers_simps [simp]:
  "s_id (w_segment (flush_buffers cd w)) = s_id (w_segment w)"
  "s_name (w_segment (flush_buffers cd w)) = s_name (w_segment w)"
  "s_deleted (w_segment (flush_buffers cd w)) = s_deleted (w_segment w)"
  "s_record_count (w_segment (flush_buffers cd w)) = s_record_count (w_segment w)"
  "s_mmap_cache (w_segment (flush_buffers cd w)) = []" "w_dirty (flush_buffers cd w) = w_dirty w"
  "w_bitmaps (flush_buffers cd w) = w_bitmaps w"
  "w_writers (flush_buffers cd w) = map (\<lambda>(col, t). (col, flush_column t)) (w_writers w)"
  "hget (s_dir (w_segment (flush_buffers cd w))) (dat_file f) = hget (s_dir (w_segment w)) (dat_file f)"
  "hget (s_dir (w_segment (flush_buffers cd w))) (off_file f) = hget (s_dir (w_segment w)) (off_file f)"
  using file_clash(4,5)
  by (auto simp: flush_buffers_def flush_writers_def Let_def invalidate_mmap_cache_def persist_deleted_bitmap_def)

lemma flushed_holds:
  assumes "w_writers w' = map (\<lambda>(col, t). (col, flush_column t)) (w_writers w)"
    "hget (s_dir (w_segment w')) (dat_file f) = hget (s_dir (w_segment w)) (dat_file f)"
    "hget (s_dir (w_segment w')) (off_file f) = hget (s_dir (w_segment w)) (off_file f)"
    "col_holds x w f vs"
  shows "col_holds x w' f vs"
proof (cases "hget (w_writers w) f")
  case None
  then have "hget (w_writers w') f = None" by (simp add: assms(1) hget_map_val [of "\<lambda>_. flush_column"])
  with None assms(2-4) show ?thesis by (simp add: col_holds_def column_of_def open_column_def)
next
  case (Some t)
  then have "hget (w_writers w') f = Some (flush_column t)" by (simp add: assms(1) hget_map_val [of "\<lambda>_. flush_column"])
  with Some assms(4) show ?thesis by (cases t) (simp add: col_holds_def column_of_def flush_column_def)
qed

lemma flushed_clean:
  assumes "w_writers w' = map (\<lambda>(col, t). (col, flush_column t)) ws" "s_mmap_cache (w_segment w') = []"
  shows "clean fs w'"
  by (auto simp: clean_def cache_ok_def assms flush_column_def)

lemma act_ok_flush_buffers:
  assumes "act_ok x fs w rows"
  shows "act_ok x fs (flush_buffers cd w) rows" "clean fs (flush_buffers cd w)"
proof -
  show c: "clean fs (flush_buffers cd w)" by (rule flushed_clean) simp_all
  have "same_columns fs w (flush_buffers cd w)"
    using assms flushed_holds [of "flush_buffers cd w" w]
    unfolding same_columns_def act_ok_def by (auto simp: hwf_map_val)
  from same_columns_act [OF assms this] c show "act_ok x fs (flush_buffers cd w) rows" by blast
qed

text \<open>What the files have room for.\<close>

definition row_fits :: "ext \<Rightarrow> string list \<Rightarrow> segment_writer \<Rightarrow> row \<Rightarrow> bool" where
  "row_fits x fs w row \<longleftrightarrow> unat (s_record_count (w_segment w)) + 1 < 2 ^ 32 \<and>
     list_all (\<lambda>f. case column_of w f of (_, _, n) \<Rightarrow> unat n + length (bincode_str x (the (hget row f))) < 2 ^ 63) fs"

lemma append_record_simps [simp]:
  "s_id (w_segment (append_record x row w)) = s_id (w_segment w)"
  "s_name (w_segment (append_record x row w)) = s_name (w_segment w)"
  "s_deleted (w_segment (append_record x row w)) = s_deleted (w_segment w)"
  "s_record_count (w_segment (append_record x row w)) = s_record_count (w_segment w) + 1"
  "w_dirty (append_record x row w)"
proof -
  have f: "s_id (w_segment (fold (append_cell x i) r v)) = s_id (w_segment v) \<and>
      s_name (w_segment (fold (append_cell x i) r v)) = s_name (w_segment v) \<and>
      s_deleted (w_segment (fold (append_cell x i) r v)) = s_deleted (w_segment v) \<and>
      s_record_count (w_segment (fold (append_cell x i) r v)) = s_record_count (w_segment v)" for i r v
    by (induction r arbitrary: v) (simp_all add: append_cell_def Let_def split_beta update_metadata_def)
  then show "s_id (w_segment (append_record x row w)) = s_id (w_segment w)"
    "s_name (w_segment (append_record x row w)) = s_name (w_segment w)"
    "s_deleted (w_segment (append_record x row w)) = s_deleted (w_segment w)"
    "s_record_count (w_segment (append_record x row w)) = s_record_count (w_segment w) + 1"
    "w_dirty (append_record x row w)"
    by (simp_all add: append_record_def Let_def)
qed

lemma act_ok_append:
  assumes "act_ok x fs w rows" "row_over fs row" "row_fits x fs w row"
  shows "act_ok x fs (append_record x row w) (rows @ [row])"
proof -
  have len: "length rows + 1 < 2 ^ 32"
    using assms(1,3) by (simp add: act_ok_def row_fits_def unat_of_nat take_bit_nat_eq_self)
  have c: "col_holds x (append_record x row w) f (vals f rows @ [the (hget row f)]) \<and>
      length (col_data x (vals f rows @ [the (hget row f)])) < 2 ^ 63" if f: "f \<in> set fs" for f
  proof -
    obtain v where v: "hget row f = Some v" using row_over_get [OF assms(2) f] by auto
    have h: "col_holds x w f (vals f rows)" "length (col_data x (vals f rows)) < 2 ^ 63"
      using assms(1) f by (simp_all add: act_ok_def)
    obtain dat off n where c: "column_of w f = (dat, off, n)" by (cases "column_of w f")
    with h have "unat n = length (col_data x (vals f rows))"
      by (simp add: col_holds_def unat_of_nat take_bit_nat_eq_self)
    with assms(3) f c have "length (col_data x (vals f rows)) + length (bincode_str x v) < 2 ^ 63"
      by (auto simp: row_fits_def list_all_iff v)
    with append_record_col [OF _ v h(1)] assms(2) v show ?thesis by (simp add: row_over_def col_data_snoc)
  qed
  with assms(1,2) len append_record_wf show ?thesis by (simp add: act_ok_def vals_def)
qed

section \<open>The rows of a table\<close>

text \<open>The identity and the deleted rows of each segment, the active one first; \<open>B\<close> stands for the
  rows of the active segment and \<open>A\<close> for those of the immutable ones.\<close>

definition seg_head :: "segment \<Rightarrow> u64 \<times> bitmap" where
  "seg_head s = (s_id s, s_deleted s)"

definition heads :: "'c table \<Rightarrow> (u64 \<times> bitmap) list" where
  "heads t = (case t_active t of None \<Rightarrow> [] | Some w \<Rightarrow> [seg_head (w_segment w)]) @ map seg_head (t_immutable t)"

definition holds_at :: "((u64 \<times> bitmap) \<times> row list) list \<Rightarrow> location \<Rightarrow> row \<Rightarrow> bool" where
  "holds_at hs loc row \<longleftrightarrow> (\<exists>d rows. ((fst loc, d), rows) \<in> set hs \<and> snd loc \<notin> d \<and> unat (snd loc) < length rows \<and>
     row = rows ! unat (snd loc))"

lemma holds_at_Cons: "holds_at (((i, d), rows) # hs) loc row \<longleftrightarrow>
    i = fst loc \<and> snd loc \<notin> d \<and> unat (snd loc) < length rows \<and> row = rows ! unat (snd loc) \<or> holds_at hs loc row"
  unfolding holds_at_def by auto

definition live_at :: "'c table \<Rightarrow> row list list \<Rightarrow> row list \<Rightarrow> location \<Rightarrow> row \<Rightarrow> bool" where
  "live_at t A B loc row \<longleftrightarrow> holds_at (zip (heads t) (B # A)) loc row"

definition flds_of :: "'c table \<Rightarrow> string list" where
  "flds_of t = m_original_fields (t_manifest t)"

definition pk_of :: "'c env \<Rightarrow> 'c table \<Rightarrow> row \<Rightarrow> string" where
  "pk_of E t row = row_pk_value (e_ext E) (pk_columns t) [] row"

definition rep :: "'c env \<Rightarrow> 'c table \<Rightarrow> row list list \<Rightarrow> row list \<Rightarrow> bool" where
  "rep E t A B \<longleftrightarrow>
     (\<exists>w. t_active t = Some w \<and> act_ok (e_ext E) (flds_of t) w B) \<and>
     list_all2 (imm_ok (flds_of t)) (t_immutable t) A \<and>
     distinct (map fst (heads t)) \<and> - 1 \<notin> fst ` set (heads t) \<and>
     (\<forall>((i, d), rows) \<in> set (zip (heads t) (B # A)). \<forall>l\<in>d. unat l < length rows) \<and>
     flds_of t \<noteq> [] \<and> set (pk_columns t) \<subseteq> set (flds_of t)"

text \<open>The primary index holds exactly the live rows, each under its key.\<close>

definition index_ok :: "'c env \<Rightarrow> 'c table \<Rightarrow> row list list \<Rightarrow> row list \<Rightarrow> bool" where
  "index_ok E t A B \<longleftrightarrow> pi_wf (t_primary_index t) \<and>
     (\<forall>pk loc. pi_get (e_ext E) (t_primary_index t) pk = Some loc \<longrightarrow>
       (\<exists>row. live_at t A B loc row \<and> pi_hash (e_ext E) (pk_of E t row) = pi_hash (e_ext E) pk)) \<and>
     (\<forall>loc row. live_at t A B loc row \<longrightarrow> pi_get (e_ext E) (t_primary_index t) (pk_of E t row) = Some loc)"

lemma rep_lengths: "rep E t A B \<Longrightarrow> length (heads t) = Suc (length A)"
  by (auto simp: rep_def heads_def dest: list_all2_lengthD)

lemma rep_active:
  assumes "rep E t A B"
  obtains w where "t_active t = Some w" "act_ok (e_ext E) (flds_of t) w B"
    "heads t = seg_head (w_segment w) # map seg_head (t_immutable t)" "s_id (w_segment w) \<notin> s_id ` set (t_immutable t)"
    "distinct (map s_id (t_immutable t))"
proof -
  from assms obtain w where w: "t_active t = Some w" "act_ok (e_ext E) (flds_of t) w B" by (auto simp: rep_def)
  then have h: "heads t = seg_head (w_segment w) # map seg_head (t_immutable t)" by (simp add: heads_def)
  have "distinct (map fst (heads t))" using assms by (simp add: rep_def)
  then have "s_id (w_segment w) \<notin> s_id ` set (t_immutable t)" "distinct (map s_id (t_immutable t))"
    by (auto simp: h seg_head_def comp_def)
  with w h show thesis by (intro that)
qed

lemma find_rev_distinct:
  assumes "distinct (map s_id ss)" "s \<in> set ss"
  shows "find (\<lambda>s'. s_id s' = s_id s) (rev ss) = Some s" "find (\<lambda>s'. s_id s' = s_id s) ss = Some s"
proof -
  have "find (\<lambda>s'. s_id s' = s_id s) ss = Some s" if "distinct (map s_id ss)" "s \<in> set ss" for ss
    using that by (induction ss) auto
  from this [of "rev ss"] this [of ss] assms
  show "find (\<lambda>s'. s_id s' = s_id s) (rev ss) = Some s" "find (\<lambda>s'. s_id s' = s_id s) ss = Some s"
    by (simp_all add: rev_map [symmetric])
qed

lemma live_cases:
  assumes "rep E t A B" "live_at t A B loc row" "t_active t = Some w"
  shows "s_id (w_segment w) = fst loc \<and> unat (snd loc) < length B \<and> row = B ! unat (snd loc) \<or>
    (\<exists>k < length A. s_id (t_immutable t ! k) = fst loc \<and> unat (snd loc) < length (A ! k) \<and> row = A ! k ! unat (snd loc))"
proof -
  have "length (t_immutable t) = length A" using assms(1) by (auto simp: rep_def dest: list_all2_lengthD)
  with assms(2,3) show ?thesis
    by (force simp: live_at_def holds_at_def heads_def seg_head_def in_set_zip)
qed

text \<open>Reading a live row of a table whose active segment is flushed when it is the one.\<close>

lemma ensure_needed_simps [simp]:
  "t_manifest (ensure_needed flds n t) = t_manifest t" "t_primary_index (ensure_needed flds n t) = t_primary_index t"
  "t_wal (ensure_needed flds n t) = t_wal t" "t_dirs (ensure_needed flds n t) = t_dirs t"
  "t_draws (ensure_needed flds n t) = t_draws t" "heads (ensure_needed flds n t) = heads t"
  by (auto simp: ensure_needed_def heads_def seg_head_def split: option.splits)

lemma flush_if_dirty_simps [simp]:
  "t_manifest (flush_if_dirty E i t) = t_manifest t" "t_primary_index (flush_if_dirty E i t) = t_primary_index t"
  "t_wal (flush_if_dirty E i t) = t_wal t" "t_dirs (flush_if_dirty E i t) = t_dirs t"
  "t_draws (flush_if_dirty E i t) = t_draws t" "heads (flush_if_dirty E i t) = heads t"
  "t_immutable (flush_if_dirty E i t) = t_immutable t"
  by (auto simp: flush_if_dirty_def heads_def seg_head_def split: option.splits)

lemma flds_of_cong [simp]: "flds_of (ensure_needed flds n t) = flds_of t" "flds_of (flush_if_dirty E i t) = flds_of t"
  "pk_columns (ensure_needed flds n t) = pk_columns t" "pk_columns (flush_if_dirty E i t) = pk_columns t"
  by (simp_all add: flds_of_def pk_columns_def)

lemma rep_flush:
  assumes "rep E t A B"
  shows "rep E (flush_if_dirty E i t) A B"
    "\<And>w. t_active (flush_if_dirty E i t) = Some w \<Longrightarrow> s_id (w_segment w) = i \<Longrightarrow> clean (flds_of t) w"
proof -
  from assms obtain w where w: "t_active t = Some w" "act_ok (e_ext E) (flds_of t) w B" by (auto simp: rep_def)
  with act_ok_flush_buffers(1) [OF w(2)] assms show "rep E (flush_if_dirty E i t) A B"
    by (simp add: rep_def) (simp add: flush_if_dirty_def)
  show "clean (flds_of t) w'" if "t_active (flush_if_dirty E i t) = Some w'" "s_id (w_segment w') = i" for w'
    using that w act_ok_flush_buffers(2) [OF w(2)] by (auto simp: flush_if_dirty_def act_ok_def split: if_splits)
qed

lemma rep_ensure:
  assumes "rep E t A B" "\<And>w. t_active t = Some w \<Longrightarrow> s_id (w_segment w) \<in> n \<Longrightarrow> clean (flds_of t) w"
  shows "rep E (ensure_needed flds n t) A B"
proof -
  from assms obtain w where w: "t_active t = Some w" "act_ok (e_ext E) (flds_of t) w B" by (auto simp: rep_def)
  have "list_all2 (imm_ok (flds_of t)) (t_immutable (ensure_needed flds n t)) A"
    using assms(1) imm_ok_ensure by (auto simp: rep_def ensure_needed_def list_all2_conv_all_nth)
  moreover have "\<exists>w. t_active (ensure_needed flds n t) = Some w \<and> act_ok (e_ext E) (flds_of t) w B"
    using w act_ok_ensure(1) [OF w(2)] assms(2) by (auto simp: ensure_needed_def)
  ultimately show ?thesis using assms(1) by (simp add: rep_def)
qed

lemma batch_reads:
  assumes "cache_ok fs dir s" "holds_rows fs dir s rows" "unat l < length rows"
  shows "map (\<lambda>j. cell_via (get_mmaps_batch (ensure_mmaps_batch dir fs s) fs ! j) l) [0 ..< length fs] =
    map (\<lambda>f. Sliced (the (hget (rows ! unat l) f))) fs"
proof (rule nth_equalityI)
  fix j assume "j < length (map (\<lambda>j. cell_via (get_mmaps_batch (ensure_mmaps_batch dir fs s) fs ! j) l) [0 ..< length fs])"
  then have j: "j < length fs" by simp
  then have "cell_at dir (fs ! j) (of_nat (unat l)) = Sliced (the (hget (rows ! unat l) (fs ! j)))"
    using assms(2,3) nth_mem [OF j] unfolding holds_rows_def by blast
  with j show "map (\<lambda>j. cell_via (get_mmaps_batch (ensure_mmaps_batch dir fs s) fs ! j) l) [0 ..< length fs] ! j =
      map (\<lambda>f. Sliced (the (hget (rows ! unat l) f))) fs ! j"
    by (simp add: get_mmaps_batch_def ensure_cache [OF assms(1) nth_mem [OF j]] cell_at_def cell_via_def)
qed simp

lemma segment_of_active: "t_active t = Some w \<Longrightarrow> s_id (w_segment w) = i \<Longrightarrow> segment_of t i = Some (w_segment w)"
  by (simp add: segment_of_def)

lemma segment_of_immutable:
  assumes "rep E t A B" "k < length (t_immutable t)"
  shows "segment_of t (s_id (t_immutable t ! k)) = Some (t_immutable t ! k)"
proof -
  obtain w where w: "t_active t = Some w" "s_id (w_segment w) \<notin> s_id ` set (t_immutable t)" "distinct (map s_id (t_immutable t))"
    using rep_active [OF assms(1)] by blast
  have m: "t_immutable t ! k \<in> set (t_immutable t)" using assms(2) by simp
  with w have "s_id (w_segment w) \<noteq> s_id (t_immutable t ! k)" by force
  with find_rev_distinct(1) [OF w(3) m] w(1) show ?thesis by (simp add: segment_of_def)
qed

lemma read_row:
  assumes x: "str_layout (e_ext E)" and r: "rep E t A B" and l: "live_at t A B (seg, l) row"
    and c: "\<And>w. t_active t = Some w \<Longrightarrow> s_id (w_segment w) = seg \<Longrightarrow> clean (flds_of t) w"
  shows "get_rows_batch (flds_of t) [(seg, l)] t =
    Inr ([map (\<lambda>f. the (hget row f)) (flds_of t)], ensure_needed (flds_of t) {seg} t)"
proof -
  let ?fs = "flds_of t" and ?t = "ensure_needed (flds_of t) {seg} t"
  let ?mms = "\<lambda>i. if i \<in> {seg} then map_option (\<lambda>s. get_mmaps_batch s ?fs) (segment_of ?t i) else None"
  have rt: "rep E ?t A B" using r c by (intro rep_ensure) auto
  have seg: "seg \<noteq> - 1"
  proof -
    have "seg \<in> fst ` set (heads t)" using l by (force simp: live_at_def holds_at_def dest: set_zip_leftD)
    moreover have "- 1 \<notin> fst ` set (heads t)" using r by (simp add: rep_def)
    ultimately show ?thesis by metis
  qed
  obtain w where w: "t_active t = Some w" "act_ok (e_ext E) ?fs w B" using rep_active [OF r] by blast
  have cells: "map (\<lambda>j. cell_via (case ?mms seg of Some ms \<Rightarrow> ms ! j | None \<Rightarrow> None) l) [0 ..< length ?fs] =
      map (\<lambda>f. Sliced (the (hget row f))) ?fs"
    using live_cases [OF r l w(1)]
  proof
    assume a: "s_id (w_segment w) = fst (seg, l) \<and> unat (snd (seg, l)) < length B \<and> row = B ! unat (snd (seg, l))"
    then have cl: "clean (flds_of t) w" using c w by simp
    from a w have "segment_of ?t seg = Some (ensure_mmaps_batch (writer_dir w) ?fs (w_segment w))"
      by (simp add: segment_of_def ensure_needed_def)
    with batch_reads [OF _ clean_holds [OF x w(2) cl], of l] cl a show ?thesis by (simp add: clean_def)
  next
    assume "\<exists>k<length A. s_id (t_immutable t ! k) = fst (seg, l) \<and> unat (snd (seg, l)) < length (A ! k) \<and> row = A ! k ! unat (snd (seg, l))"
    then obtain k where k: "k < length A" "s_id (t_immutable t ! k) = seg" "unat l < length (A ! k)" "row = A ! k ! unat l" by auto
    have len: "length (t_immutable t) = length A" using r by (auto simp: rep_def dest: list_all2_lengthD)
    have im: "imm_ok ?fs (t_immutable t ! k) (A ! k)" using r k len by (auto simp: rep_def list_all2_conv_all_nth)
    have kk: "t_immutable ?t ! k = ensure_mmaps_batch (s_dir (t_immutable t ! k)) ?fs (t_immutable t ! k)"
      using k len by (simp add: ensure_needed_def)
    have "segment_of ?t seg = Some (ensure_mmaps_batch (s_dir (t_immutable t ! k)) ?fs (t_immutable t ! k))"
      using segment_of_immutable [OF rt, of k] k len kk by (simp add: ensure_needed_def)
    with batch_reads [where dir = "s_dir (t_immutable t ! k)" and s = "t_immutable t ! k" and rows = "A ! k" and l = l] im k show ?thesis
      by (simp add: imm_ok_def)
  qed
  have "concat (map (chunk_rows ?mms (length ?fs)) (chunks 512 [(seg, l)])) = map (row_cells ?mms (length ?fs)) [(seg, l)]"
    using seg by (intro rows_of_chunks) auto
  also have "\<dots> = [map (\<lambda>f. Sliced (the (hget row f))) ?fs]"
    using cells by (simp add: row_cells_def)
  finally have rows: "concat (map (chunk_rows ?mms (length ?fs)) (chunks 512 [(seg, l)])) =
      [map (\<lambda>f. Sliced (the (hget row f))) ?fs]" .
  have n: "fst ` set [(seg, l)] = {seg}" by simp
  show ?thesis unfolding get_rows_batch_def Let_def n rows by (simp add: sliced_list_map)
qed

section \<open>A row by its key\<close>

lemma row_eq_iff:
  assumes "hwf m" "hwf n"
  shows "row_eq m n \<longleftrightarrow> hget m = hget n"
proof
  have d: "distinct m" "distinct n" using assms distinct_map by (auto simp: hwf_def)
  assume "row_eq m n"
  then have "set m \<subseteq> set n" "length m = length n"
    using assms(2) by (auto simp: row_eq_def list_all_iff hget_Some_iff)
  with d have "set m = set n" by (metis card_subset_eq distinct_card finite_set)
  then show "hget m = hget n" using hget_Some_iff [OF assms(1)] hget_Some_iff [OF assms(2)]
    by (metis ext option.exhaust)
next
  assume h: "hget m = hget n"
  have "set m = set n" using hget_Some_iff [OF assms(1)] hget_Some_iff [OF assms(2)] h by auto
  moreover have "distinct m" "distinct n" using assms distinct_map by (auto simp: hwf_def)
  ultimately have "length m = length n" by (metis distinct_card)
  moreover have "list_all (\<lambda>(k, v). hget n k = Some v) m"
    using hget_Some_iff [OF assms(1)] by (auto simp: list_all_iff h [symmetric])
  ultimately show "row_eq m n" by (simp add: row_eq_def)
qed

lemma hget_snoc: "hget (xs @ [(a, b)]) g = (case hget xs g of Some v \<Rightarrow> Some v | None \<Rightarrow> if g = a then Some b else None)"
  by (induction xs) (auto simp: hget_def)

lemma fold_zip_get:
  "hget (fold (\<lambda>(i, f). hput f (h i)) (zip ns fs) m) g = (case hget (rev (zip fs ns)) g of Some i \<Rightarrow> Some (h i) | None \<Rightarrow> hget m g)"
proof (induction fs arbitrary: ns m)
  case (Cons f fs)
  show ?case by (cases ns) (auto simp: Cons.IH hget_snoc split: option.splits)
qed simp

lemma row_of_vals:
  "hget (fold (\<lambda>(i, f). hput f (if i < length (map g fs) then map g fs ! i else [])) (zip [0 ..< length fs] fs) []) k =
     (if k \<in> set fs then Some (g k) else None)"
proof -
  have m: "(k, i) \<in> set (zip fs [0 ..< length fs]) \<longleftrightarrow> i < length fs \<and> fs ! i = k" for i
    by (auto simp: in_set_zip)
  note f = fold_zip_get [where h = "\<lambda>i. if i < length (map g fs) then map g fs ! i else []"
      and ns = "[0 ..< length fs]" and fs = fs and m = "[]" and g = k]
  show ?thesis
  proof (cases "hget (rev (zip fs [0 ..< length fs])) k")
    case None
    then have "k \<notin> fst ` set (zip fs [0 ..< length fs])" by (simp add: hget_None_iff)
    moreover have "map fst (zip fs [0 ..< length fs]) = fs" by simp
    ultimately have "k \<notin> set fs" by (metis set_map)
    with None show ?thesis unfolding f by simp
  next
    case (Some i)
    then have "(k, i) \<in> set (zip fs [0 ..< length fs])" by (auto simp: hget_def dest: map_of_SomeD)
    with m have i: "i < length fs" "fs ! i = k" by auto
    then have "k \<in> set fs" by auto
    with i show ?thesis unfolding f Some by simp
  qed
qed

lemma row_pk_cong:
  assumes "\<forall>c\<in>set cols. hget m c = hget n c \<and> hget m c \<noteq> None"
  shows "row_pk_value x cols u m = row_pk_value x cols v n"
proof -
  have "map (\<lambda>c. case hget m c of None \<Rightarrow> [] | Some v \<Rightarrow> nfc x v) cols = map (\<lambda>c. case hget n c of None \<Rightarrow> [] | Some v \<Rightarrow> nfc x v) cols"
    using assms by simp
  moreover have "hget m ''PK'' = hget n ''PK'' \<and> hget m ''PK'' \<noteq> None" if "length cols = 1" "cols ! 0 = ''PK''"
  proof -
    from that have "''PK'' \<in> set cols" by (cases cols) auto
    with assms show ?thesis by blast
  qed
  ultimately show ?thesis
    by (cases "hget n ''PK''") (auto simp: row_pk_value_def simp del: map_eq_conv)
qed

lemma live_row_over:
  assumes "rep E t A B" "live_at t A B loc row"
  shows "row_over (flds_of t) row"
proof -
  obtain w where w: "t_active t = Some w" "act_ok (e_ext E) (flds_of t) w B" using rep_active [OF assms(1)] by blast
  have a: "\<forall>k < length A. \<forall>r\<in>set (A ! k). row_over (flds_of t) r"
    using assms(1) by (auto simp: rep_def list_all2_conv_all_nth imm_ok_def holds_rows_def)
  from live_cases [OF assms w(1)] w(2) a show ?thesis by (auto simp: act_ok_def)
qed

text \<open>What the operations that only read keep.\<close>

definition unchanged :: "'c table \<Rightarrow> 'c table \<Rightarrow> bool" where
  "unchanged t t' \<longleftrightarrow> heads t' = heads t \<and> t_manifest t' = t_manifest t \<and> t_primary_index t' = t_primary_index t \<and>
     t_wal t' = t_wal t \<and> t_dirs t' = t_dirs t"

lemma draw_pk_unchanged: "snd (draw_pk E m t) = t\<lparr>t_draws := t_draws t + 1\<rparr>"
  by (simp add: draw_pk_def)

lemma rep_draws [simp]: "rep E (t\<lparr>t_draws := n\<rparr>) A B = rep E t A B" "heads (t\<lparr>t_draws := n\<rparr>) = heads t"
proof -
  have [simp]: "heads (t\<lparr>t_draws := n\<rparr>) = heads t" "flds_of (t\<lparr>t_draws := n\<rparr>) = flds_of t"
    "pk_columns (t\<lparr>t_draws := n\<rparr>) = pk_columns t"
    by (simp_all add: heads_def flds_of_def pk_columns_def)
  show "rep E (t\<lparr>t_draws := n\<rparr>) A B = rep E t A B" "heads (t\<lparr>t_draws := n\<rparr>) = heads t"
    by (simp_all add: rep_def)
qed

lemma get_row_ok:
  assumes x: "str_layout (e_ext E)" and r: "rep E t A B" and pk: "pi_get (e_ext E) (t_primary_index t) pk = Some loc"
    and l: "live_at t A B loc row"
  shows "\<exists>m t'. get_row_as_map E pk t =
      Inr (if canonical_bytes (e_ext E) (pk_of E t row) = canonical_bytes (e_ext E) pk then Some m else None, t') \<and>
    hwf m \<and> hget m = hget row \<and> rep E t' A B \<and> unchanged t t'"
proof -
  obtain seg i where loc: "loc = (seg, i)" by (cases loc)
  let ?fs = "flds_of t" and ?t1 = "flush_if_dirty E seg t"
  let ?t2 = "ensure_needed ?fs {seg} ?t1"
  let ?vals = "map (\<lambda>f. the (hget row f)) ?fs"
  define m where "m = fold (\<lambda>(i, f). hput f (if i < length ?vals then ?vals ! i else [])) (zip [0 ..< length ?fs] ?fs) []"
  have r1: "rep E ?t1 A B" using rep_flush(1) [OF r] .
  have l1: "live_at ?t1 A B (seg, i) row" using l loc by (simp add: live_at_def)
  have c1: "\<And>w. t_active ?t1 = Some w \<Longrightarrow> s_id (w_segment w) = seg \<Longrightarrow> clean (flds_of ?t1) w"
    using rep_flush(2) [OF r] by simp
  have g: "get_rows_batch ?fs [(seg, i)] ?t1 = Inr ([?vals], ?t2)"
    using read_row [OF x r1 l1 c1] by simp
  have ov: "row_over ?fs row" using live_row_over [OF r l] .
  have m: "hget m k = hget row k" for k
    unfolding m_def row_of_vals using row_over_get [OF ov, of k] row_over_None [OF ov, of k] by auto
  have wf: "hwf m"
  proof -
    have "hwf n \<Longrightarrow> hwf (fold (\<lambda>(i, f). hput f (h i)) xs n)" for h :: "nat \<Rightarrow> string" and xs :: "(nat \<times> string) list" and n
      by (induction xs arbitrary: n) auto
    then show ?thesis by (simp add: m_def)
  qed
  have cols: "set (pk_columns t) \<subseteq> set ?fs" "?fs \<noteq> []" using r by (simp_all add: rep_def)
  have pkm: "row_pk_value (e_ext E) (pk_columns t) u m = pk_of E t row" for u
    unfolding pk_of_def
  proof (rule row_pk_cong, rule ballI)
    fix c assume "c \<in> set (pk_columns t)"
    with cols(1) row_over_get [OF ov, of c] m [of c] show "hget m c = hget row c \<and> hget m c \<noteq> None" by auto
  qed
  have r2: "rep E ?t2 A B" using rep_ensure [OF r1, of "{seg}" ?fs] c1 by auto
  have "get_row_as_map E pk t = (if canonical_bytes (e_ext E) (pk_of E t row) \<noteq> canonical_bytes (e_ext E) pk
      then Inr (None, ?t2\<lparr>t_draws := t_draws ?t2 + 1\<rparr>) else Inr (Some m, ?t2\<lparr>t_draws := t_draws ?t2 + 1\<rparr>))"
    using cols(2) g pkm [unfolded m_def]
    by (simp add: get_row_as_map_def pk loc flds_of_def [symmetric] draw_pk_def Let_def m_def del: length_map)
  then show ?thesis
    using m wf r2 by (intro exI [of _ m] exI [of _ "?t2\<lparr>t_draws := t_draws ?t2 + 1\<rparr>"]) (auto simp: unchanged_def)
qed

section \<open>Marking and appending\<close>

lemma update_first_map:
  "distinct (map s_id ss) \<Longrightarrow> update_first (\<lambda>s. s_id s = i) f ss = map (\<lambda>s. if s_id s = i then f s else s) ss"
proof (induction ss)
  case (Cons s ss)
  then have "s_id s' \<noteq> s_id s" if "s' \<in> set ss" for s' using that by (auto simp: image_iff)
  then have "s_id s = i \<Longrightarrow> map (\<lambda>s. if s_id s = i then f s else s) ss = ss" by (auto intro: map_idI)
  with Cons show ?case by simp
qed simp

definition mark_head :: "location \<Rightarrow> u64 \<times> bitmap \<Rightarrow> u64 \<times> bitmap" where
  "mark_head loc h = (if fst h = fst loc then (fst h, snd h \<union> {snd loc}) else h)"

lemma mark_head_fst [simp]: "fst (mark_head loc h) = fst h" "fst \<circ> mark_head loc = fst"
  by (auto simp: mark_head_def)

lemma tombstone_simps [simp]:
  "t_manifest (tombstone E loc t) = t_manifest t" "t_primary_index (tombstone E loc t) = t_primary_index t"
  "t_wal (tombstone E loc t) = t_wal t" "t_dirs (tombstone E loc t) = t_dirs t"
  "flds_of (tombstone E loc t) = flds_of t" "pk_columns (tombstone E loc t) = pk_columns t"
  by (simp_all add: tombstone_def flds_of_def pk_columns_def split: option.splits)

lemma tombstone_heads:
  assumes "rep E t A B"
  shows "heads (tombstone E loc t) = map (mark_head loc) (heads t)"
proof -
  obtain w where w: "t_active t = Some w" "heads t = seg_head (w_segment w) # map seg_head (t_immutable t)"
    "s_id (w_segment w) \<notin> s_id ` set (t_immutable t)" "distinct (map s_id (t_immutable t))"
    using rep_active [OF assms] by blast
  show ?thesis
  proof (cases "s_id (w_segment w) = fst loc")
    case True
    have "s_id s \<noteq> fst loc" if "s \<in> set (t_immutable t)" for s using that w(3) True by (metis image_eqI)
    then have "map (mark_head loc) (map seg_head (t_immutable t)) = map seg_head (t_immutable t)"
      by (simp add: mark_head_def seg_head_def)
    with w True show ?thesis by (simp add: tombstone_def heads_def) (simp add: seg_head_def mark_head_def)
  next
    case False
    with w show ?thesis
      by (auto simp: tombstone_def heads_def update_first_map seg_head_def mark_head_def)
  qed
qed

lemma zip_map_heads: "set (zip (map f hs) R) = (\<lambda>(h, r). (f h, r)) ` set (zip hs R)"
  by (force simp: zip_map1)

lemma zip_heads_unique:
  assumes "distinct (map fst hs)" "((i, d), r) \<in> set (zip hs R)" "((i, d'), r') \<in> set (zip hs R)"
  shows "d = d' \<and> r = r'"
proof -
  from assms(2,3) obtain a b where "a < length hs" "hs ! a = (i, d)" "R ! a = r" "b < length hs" "hs ! b = (i, d')" "R ! b = r'"
    by (auto simp: in_set_zip)
  moreover from this assms(1) have "a = b" by (metis fst_conv length_map nth_eq_iff_index_eq nth_map)
  ultimately show ?thesis by simp
qed

lemma rep_distinct: "rep E t A B \<Longrightarrow> distinct (map fst (heads t))"
  by (simp add: rep_def)

lemma live_unique: "rep E t A B \<Longrightarrow> live_at t A B loc r \<Longrightarrow> live_at t A B loc r' \<Longrightarrow> r = r'"
  using zip_heads_unique [OF rep_distinct] by (fastforce simp: live_at_def holds_at_def)

lemma mark_head_zip:
  "((i, d'), rows) \<in> set (zip (map (mark_head loc) hs) R) \<longleftrightarrow>
     (\<exists>d. ((i, d), rows) \<in> set (zip hs R) \<and> d' = (if i = fst loc then d \<union> {snd loc} else d))"
proof
  assume "((i, d'), rows) \<in> set (zip (map (mark_head loc) hs) R)"
  then obtain h where "(h, rows) \<in> set (zip hs R)" "(i, d') = mark_head loc h" unfolding zip_map_heads by auto
  then show "\<exists>d. ((i, d), rows) \<in> set (zip hs R) \<and> d' = (if i = fst loc then d \<union> {snd loc} else d)"
    by (cases h) (auto simp: mark_head_def split: if_splits)
next
  assume "\<exists>d. ((i, d), rows) \<in> set (zip hs R) \<and> d' = (if i = fst loc then d \<union> {snd loc} else d)"
  then obtain d where d: "((i, d), rows) \<in> set (zip hs R)" "d' = (if i = fst loc then d \<union> {snd loc} else d)" by blast
  then have "((i, d'), rows) = (\<lambda>(h, r). (mark_head loc h, r)) ((i, d), rows)" by (simp add: mark_head_def)
  with d(1) show "((i, d'), rows) \<in> set (zip (map (mark_head loc) hs) R)" unfolding zip_map_heads by (rule rev_image_eqI)
qed

lemma tombstone_live:
  assumes "rep E t A B"
  shows "live_at (tombstone E loc t) A B loc' r \<longleftrightarrow> live_at t A B loc' r \<and> loc' \<noteq> loc"
proof -
  have "holds_at (zip (map (mark_head loc) hs) R) loc' r \<longleftrightarrow>
      (\<exists>rows d. ((fst loc', d), rows) \<in> set (zip hs R) \<and> snd loc' \<notin> (if fst loc' = fst loc then d \<union> {snd loc} else d) \<and>
        unat (snd loc') < length rows \<and> r = rows ! unat (snd loc'))" for hs R
    unfolding holds_at_def mark_head_zip by blast
  also have "\<dots> hs R \<longleftrightarrow> holds_at (zip hs R) loc' r \<and> loc' \<noteq> loc" for hs R
    by (cases loc; cases loc') (auto simp: holds_at_def)
  finally show ?thesis unfolding live_at_def tombstone_heads [OF assms] .
qed

lemma tombstone_rep:
  assumes "rep E t A B" "live_at t A B loc row"
  shows "rep E (tombstone E loc t) A B"
proof -
  obtain w where w: "t_active t = Some w" "act_ok (e_ext E) (flds_of t) w B" using rep_active [OF assms(1)] by blast
  have a: "\<exists>w. t_active (tombstone E loc t) = Some w \<and> act_ok (e_ext E) (flds_of t) w B"
    using w act_ok_mark [OF w(2), of E "[snd loc]"] by (simp add: tombstone_def)
  have d: "distinct (map s_id (t_immutable t))" using rep_active [OF assms(1)] by blast
  have i: "list_all2 (imm_ok (flds_of t)) (t_immutable (tombstone E loc t)) A"
  proof -
    have "list_all2 (imm_ok (flds_of t)) (t_immutable t) A" using assms(1) by (simp add: rep_def)
    then show ?thesis using w(1) d
      by (auto simp: tombstone_def update_first_map list_all2_conv_all_nth intro: imm_ok_mark)
  qed
  have b: "\<forall>((i, d), rows) \<in> set (zip (map (mark_head loc) (heads t)) (B # A)). \<forall>l\<in>d. unat l < length rows"
  proof -
    have "unat l < length rows" if z: "((i, d), rows) \<in> set (zip (heads t) (B # A))" and l: "l \<in> snd (mark_head loc (i, d))" for i d rows l
    proof (cases "l \<in> d")
      case True
      with z assms(1) show ?thesis by (force simp: rep_def)
    next
      case False
      with l have il: "i = fst loc" "l = snd loc" by (auto simp: mark_head_def split: if_splits)
      from assms(2) obtain d' rows' where "((fst loc, d'), rows') \<in> set (zip (heads t) (B # A))" "unat (snd loc) < length rows'"
        by (auto simp: live_at_def holds_at_def)
      with zip_heads_unique [OF rep_distinct [OF assms(1)] z [unfolded il(1)]] il show ?thesis by blast
    qed
    then show ?thesis unfolding zip_map_heads by (auto simp: mark_head_def split: if_splits)
  qed
  have "map fst (heads (tombstone E loc t)) = map fst (heads t)"
    unfolding tombstone_heads [OF assms(1)] by simp
  then have "fst ` set (heads (tombstone E loc t)) = fst ` set (heads t)" by (metis set_map)
  with a i b \<open>map fst (heads (tombstone E loc t)) = map fst (heads t)\<close> assms(1) show ?thesis
    by (simp add: rep_def tombstone_heads [OF assms(1)])
qed

lemma append_row_simps:
  assumes "t_active t = Some w"
  shows "t_active (append_row E i row t) = Some (append_record (e_ext E) row w)"
    "t_immutable (append_row E i row t) = t_immutable t" "t_manifest (append_row E i row t) = t_manifest t"
    "t_primary_index (append_row E i row t) = snd (pi_insert (e_ext E) i
      (s_id (w_segment w), ucast (s_record_count (w_segment w))) (t_primary_index t))"
    "t_dirs (append_row E i row t) = t_dirs t" "t_wal (append_row E i row t) = t_wal t"
    "heads (append_row E i row t) = heads t"
  by (simp_all add: append_row_def assms Let_def heads_def seg_head_def)

lemma append_rep:
  assumes r: "rep E t A B" and w: "t_active t = Some w" and row: "row_over (flds_of t) row" "row_fits (e_ext E) (flds_of t) w row"
  shows "rep E (append_row E i row t) A (B @ [row])"
    "live_at (append_row E i row t) A (B @ [row]) loc r' \<longleftrightarrow>
      live_at t A B loc r' \<or> loc = (s_id (w_segment w), ucast (s_record_count (w_segment w))) \<and> r' = row"
proof -
  note s = append_row_simps [OF w]
  have a: "act_ok (e_ext E) (flds_of t) w B" using rep_active [OF r] w by auto
  have f: "flds_of (append_row E i row t) = flds_of t" "pk_columns (append_row E i row t) = pk_columns t"
    by (simp_all add: flds_of_def pk_columns_def s)
  have h: "heads t = seg_head (w_segment w) # map seg_head (t_immutable t)" using w by (simp add: heads_def)
  have bound: "unat l < length B" if "l \<in> s_deleted (w_segment w)" for l
    using r that by (auto simp: rep_def h seg_head_def)
  show "rep E (append_row E i row t) A (B @ [row])"
    using r act_ok_append [OF a row] bound
    by (fastforce simp: rep_def s f h seg_head_def)
  have len: "length B + 1 < 2 ^ 32" using act_ok_append [OF a row] by (simp add: act_ok_def)
  have c: "ucast (s_record_count (w_segment w)) = (of_nat (length B) :: u32)"
    using a len by (simp add: act_ok_def unsigned_of_nat take_bit_nat_eq_self)
  have u: "unat (of_nat (length B) :: u32) = length B" using len by (simp add: unat_of_nat take_bit_nat_eq_self)
  have n: "(of_nat (length B) :: u32) \<notin> s_deleted (w_segment w)" using bound [of "of_nat (length B)"] u by auto
  have e: "unat l = length B \<longleftrightarrow> l = of_nat (length B)" for l :: u32 by (simp add: word_unat_eq_iff u)
  show "live_at (append_row E i row t) A (B @ [row]) loc r' \<longleftrightarrow>
      live_at t A B loc r' \<or> loc = (s_id (w_segment w), ucast (s_record_count (w_segment w))) \<and> r' = row"
  proof -
    have "live_at t A C loc r' \<longleftrightarrow>
        s_id (w_segment w) = fst loc \<and> snd loc \<notin> s_deleted (w_segment w) \<and> unat (snd loc) < length C \<and> r' = C ! unat (snd loc) \<or>
        holds_at (zip (map seg_head (t_immutable t)) A) loc r'" for C
      by (simp add: live_at_def h holds_at_Cons seg_head_def)
    moreover have "live_at (append_row E i row t) A C loc r' = live_at t A C loc r'" for C
      by (simp add: live_at_def s)
    moreover have "snd loc \<notin> s_deleted (w_segment w) \<and> unat (snd loc) < length (B @ [row]) \<and> r' = (B @ [row]) ! unat (snd loc) \<longleftrightarrow>
        snd loc \<notin> s_deleted (w_segment w) \<and> unat (snd loc) < length B \<and> r' = B ! unat (snd loc) \<or>
        snd loc = of_nat (length B) \<and> r' = row"
    proof (cases "snd loc = of_nat (length B)")
      case True
      with n u show ?thesis by simp
    next
      case False
      with e [of "snd loc"] show ?thesis by (auto simp: nth_append less_Suc_eq)
    qed
    ultimately show ?thesis by (cases loc) (auto simp: c)
  qed
qed

end
