(* ===== verification/Table_Store.thy ===== *)
theory Table_Store
  imports Table_Rows
begin

text \<open>
  What a client of a table sees of \<^verbatim>\<open>insert\<close>, \<^verbatim>\<open>delete\<close> and \<^verbatim>\<open>get_row_as_map\<close>
  (\<^verbatim>\<open>src/core/storage/table.rs\<close>): a map from primary keys to rows. The locale \<open>keyed_store\<close> is
  that contract; it is interpreted on the table, for tables whose invariant \<open>table_ok\<close> holds.
\<close>

section \<open>The invariant of a table, and what it shows\<close>

definition store_rep :: "'c env \<Rightarrow> 'c table \<Rightarrow> row list list \<Rightarrow> row list \<Rightarrow> bool" where
  "store_rep E t A B \<longleftrightarrow> rep E t A B \<and> index_ok E t A B"

definition table_ok :: "'c env \<Rightarrow> 'c table \<Rightarrow> bool" where
  "table_ok E t \<longleftrightarrow> (\<exists>A B. store_rep E t A B)"

text \<open>The answer of \<open>get_row_as_map\<close>, the row as a map of its columns.\<close>

definition observed :: "'c env \<Rightarrow> 'c table \<Rightarrow> string \<Rightarrow> (string \<Rightarrow> string option) option" where
  "observed E t pk = (case get_row_as_map E pk t of Inr (Some m, _) \<Rightarrow> Some (hget m) | _ \<Rightarrow> None)"

lemma live_at_cong: "heads t' = heads t \<Longrightarrow> live_at t' = live_at t"
  by (intro ext) (simp add: live_at_def)

lemma pk_of_cong: "t_manifest t' = t_manifest t \<Longrightarrow> pk_of E t' = pk_of E t"
  by (rule ext) (simp add: pk_of_def pk_columns_def)

lemma index_ok_cong:
  assumes "heads t' = heads t" "t_manifest t' = t_manifest t" "t_primary_index t' = t_primary_index t"
  shows "index_ok E t' A B = index_ok E t A B"
proof -
  have "live_at t' = live_at t" by (rule live_at_cong [OF assms(1)])
  moreover have "pk_of E t' = pk_of E t" by (rule pk_of_cong [OF assms(2)])
  ultimately show ?thesis unfolding index_ok_def assms(3) by simp
qed

lemma index_ok_get:
  assumes "index_ok E t A B" "pi_get (e_ext E) (t_primary_index t) pk = Some loc"
  obtains row where "live_at t A B loc row" "pi_hash (e_ext E) (pk_of E t row) = pi_hash (e_ext E) pk"
  using assms by (cases loc) (fastforce simp: index_ok_def)

lemma index_ok_live: "index_ok E t A B \<Longrightarrow> live_at t A B loc row \<Longrightarrow> pi_get (e_ext E) (t_primary_index t) (pk_of E t row) = Some loc"
  by (cases loc) (simp add: index_ok_def)

lemma store_rep_unchanged: "store_rep E t A B \<Longrightarrow> rep E t' A B \<Longrightarrow> unchanged t t' \<Longrightarrow> store_rep E t' A B"
  using index_ok_cong [of t' t] by (simp add: store_rep_def unchanged_def)

lemma store_rep_draws [simp]: "store_rep E (t\<lparr>t_draws := n\<rparr>) A B = store_rep E t A B"
  using index_ok_cong [of "t\<lparr>t_draws := n\<rparr>" t] by (simp add: store_rep_def)

lemma rep_wal [simp]: "rep E (t\<lparr>t_wal := wl\<rparr>) A B = rep E t A B" "heads (t\<lparr>t_wal := wl\<rparr>) = heads t"
proof -
  have [simp]: "heads (t\<lparr>t_wal := wl\<rparr>) = heads t" "flds_of (t\<lparr>t_wal := wl\<rparr>) = flds_of t"
    "pk_columns (t\<lparr>t_wal := wl\<rparr>) = pk_columns t"
    by (simp_all add: heads_def flds_of_def pk_columns_def)
  show "rep E (t\<lparr>t_wal := wl\<rparr>) A B = rep E t A B" "heads (t\<lparr>t_wal := wl\<rparr>) = heads t"
    by (simp_all add: rep_def)
qed

lemma rep_index [simp]: "rep E (t\<lparr>t_primary_index := idx\<rparr>) A B = rep E t A B" "heads (t\<lparr>t_primary_index := idx\<rparr>) = heads t"
proof -
  have [simp]: "heads (t\<lparr>t_primary_index := idx\<rparr>) = heads t" "flds_of (t\<lparr>t_primary_index := idx\<rparr>) = flds_of t"
    "pk_columns (t\<lparr>t_primary_index := idx\<rparr>) = pk_columns t"
    by (simp_all add: heads_def flds_of_def pk_columns_def)
  show "rep E (t\<lparr>t_primary_index := idx\<rparr>) A B = rep E t A B"
    "heads (t\<lparr>t_primary_index := idx\<rparr>) = heads t" by (simp_all add: rep_def)
qed

text \<open>The index decides where the row of a key is; the key found there decides the answer.\<close>

lemma get_row_Some:
  assumes "str_layout (e_ext E)" "store_rep E t A B" "pi_get (e_ext E) (t_primary_index t) pk = Some loc" "live_at t A B loc row"
  obtains m t' where "hwf m" "hget m = hget row" "store_rep E t' A B" "unchanged t t'"
    "get_row_as_map E pk t =
      Inr (if canonical_bytes (e_ext E) (pk_of E t row) = canonical_bytes (e_ext E) pk then Some m else None, t')"
proof -
  have r: "rep E t A B" using assms(2) by (simp add: store_rep_def)
  from get_row_ok [OF assms(1) r assms(3,4)] obtain m t' where
    "get_row_as_map E pk t =
      Inr (if canonical_bytes (e_ext E) (pk_of E t row) = canonical_bytes (e_ext E) pk then Some m else None, t')"
    "hwf m" "hget m = hget row" "rep E t' A B" "unchanged t t'" by blast
  with store_rep_unchanged [OF assms(2)] show thesis using that by blast
qed

lemma observed_None: "pi_get (e_ext E) (t_primary_index t) pk = None \<Longrightarrow> observed E t pk = None"
  by (simp add: observed_def get_row_as_map_def)

lemma observed_Some:
  assumes "str_layout (e_ext E)" "store_rep E t A B" "pi_get (e_ext E) (t_primary_index t) pk = Some loc" "live_at t A B loc row"
  shows "observed E t pk = (if canonical_bytes (e_ext E) (pk_of E t row) = canonical_bytes (e_ext E) pk then Some (hget row) else None)"
proof -
  have r: "rep E t A B" using assms(2) by (simp add: store_rep_def)
  from get_row_ok [OF assms(1) r assms(3,4)] show ?thesis by (auto simp: observed_def)
qed

section \<open>Inserting\<close>

lemma tombstone_active:
  assumes "t_active t = Some w"
  obtains w' where "t_active (tombstone E loc t) = Some w'" "s_id (w_segment w') = s_id (w_segment w)"
    "s_record_count (w_segment w') = s_record_count (w_segment w)"
  using assms that by (cases "s_id (w_segment w) = fst loc") (auto simp: tombstone_def)

lemma active_ok: "rep E t A B \<Longrightarrow> t_active t = Some w \<Longrightarrow> act_ok (e_ext E) (flds_of t) w B"
  by (auto simp: rep_def)

text \<open>Whether a row fits depends on the rows of the active segment only.\<close>

lemma row_fits_iff:
  assumes "act_ok x fs w rows"
  shows "row_fits x fs w row \<longleftrightarrow> length rows + 1 < 2 ^ 32 \<and>
    (\<forall>f\<in>set fs. length (col_data x (vals f rows)) + length (bincode_str x (the (hget row f))) < 2 ^ 63)"
proof -
  have "(case column_of w f of (_, _, n) \<Rightarrow> unat n + m < 2 ^ 63) \<longleftrightarrow> length (col_data x (vals f rows)) + m < 2 ^ 63"
    if "f \<in> set fs" for f m
  proof -
    have "col_holds x w f (vals f rows)" "length (col_data x (vals f rows)) < 2 ^ 63" using assms that by (simp_all add: act_ok_def)
    then show ?thesis by (cases "column_of w f") (simp add: col_holds_def unat_of_nat take_bit_nat_eq_self)
  qed
  moreover have "unat (s_record_count (w_segment w)) = length rows"
    using assms by (simp add: act_ok_def unat_of_nat take_bit_nat_eq_self)
  ultimately show ?thesis by (simp add: row_fits_def list_all_iff)
qed

lemma index_ok_append:
  assumes r: "rep E t A B" and i: "index_ok E t A B" and w: "t_active t = Some w"
    and row: "row_over (flds_of t) row" "row_fits (e_ext E) (flds_of t) w row" and pk: "pk = pk_of E t row"
    and free: "pi_get (e_ext E) (t_primary_index t) pk = None \<and> t0 = t \<or>
      (\<exists>loc. pi_get (e_ext E) (t_primary_index t) pk = Some loc \<and> t0 = tombstone E loc t)"
  shows "store_rep E (append_row E pk row t0) A (B @ [row])"
    "t_primary_index (append_row E pk row t0) = snd (pi_insert (e_ext E) pk
      (s_id (w_segment w), ucast (s_record_count (w_segment w))) (t_primary_index t))"
    "live_at (append_row E pk row t0) A (B @ [row]) (s_id (w_segment w), ucast (s_record_count (w_segment w))) row"
    "\<And>loc r'. live_at (append_row E pk row t0) A (B @ [row]) loc r' \<Longrightarrow>
       loc = (s_id (w_segment w), ucast (s_record_count (w_segment w))) \<and> r' = row \<or>
       live_at t A B loc r' \<and> pi_get (e_ext E) (t_primary_index t) pk \<noteq> Some loc"
    "pk_of E (append_row E pk row t0) = pk_of E t"
proof -
  let ?x = "e_ext E" and ?new = "(s_id (w_segment w), ucast (s_record_count (w_segment w)))" and ?t = "append_row E pk row t0"
  have wf: "pi_wf (t_primary_index t)" using i by (simp add: index_ok_def)
  have t0: "rep E t0 A B" "t_manifest t0 = t_manifest t" "t_primary_index t0 = t_primary_index t"
    "\<And>loc r'. live_at t0 A B loc r' \<longleftrightarrow> live_at t A B loc r' \<and> pi_get ?x (t_primary_index t) pk \<noteq> Some loc"
  proof -
    have a: "\<exists>row. live_at t A B loc row" if "pi_get ?x (t_primary_index t) pk = Some loc" for loc
      using index_ok_get [OF i that] by blast
    show "rep E t0 A B" using free r a tombstone_rep [OF r] by auto
    show "t_manifest t0 = t_manifest t" "t_primary_index t0 = t_primary_index t" using free by auto
    show "live_at t0 A B loc r' \<longleftrightarrow> live_at t A B loc r' \<and> pi_get ?x (t_primary_index t) pk \<noteq> Some loc" for loc r'
      using free tombstone_live [OF r, of _ loc r'] by (metis option.inject option.distinct(1))
  qed
  obtain w0 where w0: "t_active t0 = Some w0" "s_id (w_segment w0) = s_id (w_segment w)"
    "s_record_count (w_segment w0) = s_record_count (w_segment w)"
    using free
  proof (elim disjE exE conjE)
    fix loc assume "t0 = tombstone E loc t"
    then show thesis using tombstone_active [OF w, of E loc] that by blast
  qed (use w that in blast)
  have f0: "flds_of t0 = flds_of t" "pk_of E t0 = pk_of E t" using pk_of_cong [OF t0(2)] t0(2) by (simp_all add: flds_of_def)
  have fits0: "row_fits ?x (flds_of t) w0 row"
    using row(2) unfolding row_fits_iff [OF active_ok [OF r w]] row_fits_iff [OF active_ok [OF t0(1) w0(1)], unfolded f0] .
  have row0: "row_over (flds_of t0) row" "row_fits ?x (flds_of t0) w0 row" using row fits0 by (simp_all add: f0)
  note s = append_row_simps [OF w0(1), of E pk row]
  note ap = append_rep [OF t0(1) w0(1) row0, of pk]
  have new: "live_at ?t A (B @ [row]) loc r' \<longleftrightarrow> live_at t A B loc r' \<and> pi_get ?x (t_primary_index t) pk \<noteq> Some loc \<or> loc = ?new \<and> r' = row" for loc r'
    using ap(2) w0 t0(4) by simp
  show ix: "t_primary_index ?t = snd (pi_insert ?x pk ?new (t_primary_index t))" using s w0 t0(3) by simp
  show pko: "pk_of E ?t = pk_of E t" using s t0(2) by (intro pk_of_cong) simp
  show "live_at ?t A (B @ [row]) ?new row" by (simp add: new)
  show "loc = ?new \<and> r' = row \<or> live_at t A B loc r' \<and> pi_get ?x (t_primary_index t) pk \<noteq> Some loc"
    if "live_at ?t A (B @ [row]) loc r'" for loc r' using that new by blast
  have g: "pi_get ?x (t_primary_index ?t) q = (if pi_hash ?x q = pi_hash ?x pk then Some ?new else pi_get ?x (t_primary_index t) q)" for q
    unfolding ix by (rule pidx.get_insert [OF wf])
  have "\<exists>r'. live_at ?t A (B @ [row]) loc r' \<and> pi_hash ?x (pk_of E ?t r') = pi_hash ?x q"
    if q: "pi_get ?x (t_primary_index ?t) q = Some loc" for q loc
  proof (cases "pi_hash ?x q = pi_hash ?x pk")
    case True
    with q g pk pko new show ?thesis by auto
  next
    case False
    with q g have o: "pi_get ?x (t_primary_index t) q = Some loc" by simp
    then obtain r' where l: "live_at t A B loc r'" "pi_hash ?x (pk_of E t r') = pi_hash ?x q" using index_ok_get [OF i o] by blast
    have "pi_get ?x (t_primary_index t) pk \<noteq> Some loc"
    proof
      assume "pi_get ?x (t_primary_index t) pk = Some loc"
      then obtain r2 where "live_at t A B loc r2" "pi_hash ?x (pk_of E t r2) = pi_hash ?x pk" using index_ok_get [OF i] by blast
      with live_unique [OF r l(1)] l(2) False show False by auto
    qed
    with l pko new show ?thesis by auto
  qed
  moreover have "pi_get ?x (t_primary_index ?t) (pk_of E ?t r') = Some loc" if l: "live_at ?t A (B @ [row]) loc r'" for loc r'
  proof (cases "loc = ?new \<and> r' = row")
    case True
    then show ?thesis unfolding g pko using pk by simp
  next
    case False
    with l new have o: "live_at t A B loc r'" "pi_get ?x (t_primary_index t) pk \<noteq> Some loc" by auto
    then have p: "pi_get ?x (t_primary_index t) (pk_of E t r') = Some loc" using index_ok_live [OF i] by blast
    with o(2) have "pi_hash ?x (pk_of E t r') \<noteq> pi_hash ?x pk" by (auto simp: pi_get_def)
    with p show ?thesis unfolding g pko by simp
  qed
  moreover have "pi_wf (t_primary_index ?t)" unfolding ix by (rule pidx.wf_insert [OF wf])
  ultimately show "store_rep E ?t A (B @ [row])" using ap(1) by (simp add: store_rep_def index_ok_def)
qed

text \<open>The row as it is stored, and the key it is stored under.\<close>

definition stored_row :: "'c env \<Rightarrow> 'c table \<Rightarrow> row \<Rightarrow> row" where
  "stored_row E t row = normalize_pk (e_ext E) (pk_columns t) row"

definition stored_key :: "'c env \<Rightarrow> 'c table \<Rightarrow> row \<Rightarrow> string" where
  "stored_key E t row = pk_of E t (stored_row E t row)"

text \<open>The row has exactly the columns of the table, and the active segment has room for it.\<close>

definition room_for :: "'c env \<Rightarrow> 'c table \<Rightarrow> row \<Rightarrow> bool" where
  "room_for E t row \<longleftrightarrow> row_over (flds_of t) (stored_row E t row) \<and>
     (case t_active t of None \<Rightarrow> False | Some w \<Rightarrow> row_fits (e_ext E) (flds_of t) w (stored_row E t row))"

definition key_eq :: "'c env \<Rightarrow> string \<Rightarrow> string \<Rightarrow> bool" where
  "key_eq E p q \<longleftrightarrow> canonical_bytes (e_ext E) p = canonical_bytes (e_ext E) q"

lemma key_eq_hash: "key_eq E p q \<Longrightarrow> pi_hash (e_ext E) p = pi_hash (e_ext E) q"
  by (simp add: key_eq_def pi_hash_def)

lemma row_over_keys: "rep E t A B \<Longrightarrow> row_over (flds_of t) row \<Longrightarrow> row_pk_value (e_ext E) (pk_columns t) u row = pk_of E t row"
  unfolding pk_of_def rep_def by (rule row_pk_cong) (auto dest: row_over_get)

text \<open>Appending under a key, its old row first tombstoned: what is seen afterwards.\<close>

lemma observed_append:
  assumes x: "str_layout (e_ext E)" and s: "store_rep E t A B" and w: "t_active t = Some w"
    and row: "row_over (flds_of t) row" "row_fits (e_ext E) (flds_of t) w row" and pk: "pk = pk_of E t row"
    and free: "pi_get (e_ext E) (t_primary_index t) pk = None \<and> t0 = t \<or>
      (\<exists>loc. pi_get (e_ext E) (t_primary_index t) pk = Some loc \<and> t0 = tombstone E loc t)"
  shows "observed E (append_row E pk row t0) q = (if key_eq E q pk then Some (hget row)
      else if pi_hash (e_ext E) q = pi_hash (e_ext E) pk then None else observed E t q)"
proof -
  have r: "rep E t A B" and i: "index_ok E t A B" using s by (simp_all add: store_rep_def)
  let ?t = "append_row E pk row t0" and ?new = "(s_id (w_segment w), ucast (s_record_count (w_segment w)))"
  note ap = index_ok_append [OF r i w row pk free]
  have wf: "pi_wf (t_primary_index t)" using i by (simp add: index_ok_def)
  have g: "pi_get (e_ext E) (t_primary_index ?t) q = (if pi_hash (e_ext E) q = pi_hash (e_ext E) pk then Some ?new
      else pi_get (e_ext E) (t_primary_index t) q)"
    unfolding ap(2) by (rule pidx.get_insert [OF wf])
  show ?thesis
  proof (cases "pi_hash (e_ext E) q = pi_hash (e_ext E) pk")
    case True
    with observed_Some [OF x ap(1) _ ap(3)] g show ?thesis by (auto simp: ap(5) pk [symmetric] key_eq_def)
  next
    case False
    then have nk: "\<not> key_eq E q pk" using key_eq_hash by blast
    show ?thesis
    proof (cases "pi_get (e_ext E) (t_primary_index t) q")
      case None
      with g False nk show ?thesis by (simp add: observed_None)
    next
      case (Some loc)
      then obtain old where old: "live_at t A B loc old" using index_ok_get [OF i] by blast
      have g': "pi_get (e_ext E) (t_primary_index ?t) q = Some loc" using g False Some by simp
      then obtain r' where r': "live_at ?t A (B @ [row]) loc r'" "pi_hash (e_ext E) (pk_of E ?t r') = pi_hash (e_ext E) q"
        using index_ok_get [of E ?t A "B @ [row]" q loc] ap(1) unfolding store_rep_def by blast
      from ap(4) [OF r'(1)] have "r' = old"
      proof
        assume "loc = ?new \<and> r' = row"
        with r'(2) False show ?thesis unfolding ap(5) pk [symmetric] by (metis pk)
      qed (use live_unique [OF r old] in blast)
      with observed_Some [OF x ap(1) g' r'(1)] observed_Some [OF x s Some old] False nk show ?thesis by (simp add: ap(5))
    qed
  qed
qed

text \<open>Two tables with the same rows show the same.\<close>

definition unchanged_rows :: "'c table \<Rightarrow> 'c table \<Rightarrow> bool" where
  "unchanged_rows t t' \<longleftrightarrow> heads t' = heads t \<and> t_manifest t' = t_manifest t \<and> t_primary_index t' = t_primary_index t"

lemma observed_unchanged:
  assumes x: "str_layout (e_ext E)" and s: "store_rep E t A B" and s': "store_rep E t' A B" and u: "unchanged_rows t t'"
  shows "observed E t' q = observed E t q"
proof (cases "pi_get (e_ext E) (t_primary_index t) q")
  case None
  with u show ?thesis by (simp add: observed_None unchanged_rows_def)
next
  case (Some loc)
  have i: "index_ok E t A B" using s by (simp add: store_rep_def)
  obtain row where row: "live_at t A B loc row" using index_ok_get [OF i Some] by blast
  have l: "live_at t' A B loc row" using row u live_at_cong [of t' t] by (simp add: unchanged_rows_def)
  have p: "pk_of E t' = pk_of E t" using u by (intro pk_of_cong) (simp add: unchanged_rows_def)
  have g: "pi_get (e_ext E) (t_primary_index t') q = Some loc" using Some u by (simp add: unchanged_rows_def)
  show ?thesis unfolding observed_Some [OF x s Some row] observed_Some [OF x s' g l] p ..
qed

lemma tombstone_wal: "tombstone E loc (t\<lparr>t_wal := wl\<rparr>) = (tombstone E loc t)\<lparr>t_wal := wl\<rparr>"
  by (simp add: tombstone_def split: option.splits)

lemma store_rep_wal [simp]: "store_rep E (t\<lparr>t_wal := wl\<rparr>) A B = store_rep E t A B"
  using index_ok_cong [of "t\<lparr>t_wal := wl\<rparr>" t] by (simp add: store_rep_def)

lemma insert_effect:
  assumes x: "str_layout (e_ext E)" and ok: "table_ok E t" and room: "room_for E t row"
  shows "\<exists>t'. table_insert E row t = Inr t' \<and> table_ok E t' \<and> flds_of t' = flds_of t \<and> pk_columns t' = pk_columns t \<and>
    (\<forall>q. observed E t' q = (if key_eq E q (stored_key E t row) then Some (hget (stored_row E t row))
       else if pi_hash (e_ext E) q = pi_hash (e_ext E) (stored_key E t row) then None else observed E t q))"
proof -
  from ok obtain A B where s: "store_rep E t A B" by (auto simp: table_ok_def)
  then have r: "rep E t A B" and i: "index_ok E t A B" by (simp_all add: store_rep_def)
  let ?row = "stored_row E t row" and ?pk = "stored_key E t row"
  from room obtain w where w: "t_active t = Some w" and ro: "row_over (flds_of t) ?row" "row_fits (e_ext E) (flds_of t) w ?row"
    by (auto simp: room_for_def split: option.splits)
  let ?goal = "\<lambda>t'. table_ok E t' \<and> flds_of t' = flds_of t \<and> pk_columns t' = pk_columns t \<and>
    (\<forall>q. observed E t' q = (if key_eq E q ?pk then Some (hget ?row)
       else if pi_hash (e_ext E) q = pi_hash (e_ext E) ?pk then None else observed E t q))"
  have app: "?goal (append_row E ?pk ?row t0)" if t1: "store_rep E t1 A B" "unchanged_rows t t1"
      and f: "pi_get (e_ext E) (t_primary_index t1) ?pk = None \<and> t0 = t1 \<or>
        (\<exists>loc. pi_get (e_ext E) (t_primary_index t1) ?pk = Some loc \<and> t0 = tombstone E loc t1)" for t0 t1
  proof -
    obtain w1 where w1: "t_active t1 = Some w1" using t1(1) by (auto simp: store_rep_def rep_def)
    have m: "t_manifest t1 = t_manifest t" using t1(2) by (simp add: unchanged_rows_def)
    then have fl: "flds_of t1 = flds_of t" and pk1: "?pk = pk_of E t1 ?row"
      using pk_of_cong [OF m] by (simp_all add: flds_of_def stored_key_def)
    have r1: "rep E t1 A B" and i1: "index_ok E t1 A B" using t1(1) by (simp_all add: store_rep_def)
    have ro1: "row_over (flds_of t1) ?row" "row_fits (e_ext E) (flds_of t1) w1 ?row"
      using ro unfolding row_fits_iff [OF active_ok [OF r w]] row_fits_iff [OF active_ok [OF r1 w1], unfolded fl] fl by simp_all
    have t0m: "t_manifest t0 = t_manifest t" using f m by auto
    have "t_manifest (append_row E ?pk ?row t0) = t_manifest t"
      using t0m by (simp add: append_row_def Let_def split: option.splits)
    moreover have "observed E t1 q = observed E t q" for q by (rule observed_unchanged [OF x s t1])
    ultimately show ?thesis
      using observed_append [OF x t1(1) w1 ro1 pk1 f] index_ok_append(1) [OF r1 i1 w1 ro1 pk1 f]
      by (auto simp: table_ok_def flds_of_def pk_columns_def)
  qed
  have dr: "draw_pk E ?row t = (?pk, t\<lparr>t_draws := t_draws t + 1\<rparr>)"
    using row_over_keys [OF r ro(1)] by (simp add: draw_pk_def stored_key_def)
  let ?t2 = "t\<lparr>t_draws := t_draws t + 1\<rparr>"
  show ?thesis
  proof (cases "pi_get (e_ext E) (t_primary_index t) ?pk")
    case None
    let ?t1 = "?t2\<lparr>t_wal := wal_append (e_wal_enc E) (wal_operation.Insert ?pk (e_row_enc E ?row)) (t_wal t)\<rparr>"
    have "table_insert E row t = Inr (append_row E ?pk ?row ?t1)"
      using dr None by (simp add: table_insert_def Let_def stored_row_def [symmetric])
    moreover have "?goal (append_row E ?pk ?row ?t1)"
      using None s by (intro app [of ?t1]) (simp_all add: unchanged_rows_def)
    ultimately show ?thesis by blast
  next
    case (Some loc)
    then obtain old where old: "live_at t A B loc old" "pi_hash (e_ext E) (pk_of E t old) = pi_hash (e_ext E) ?pk"
      using index_ok_get [OF i] by blast
    have s2: "store_rep E ?t2 A B" using s by simp
    obtain m t3 where m: "hwf m" "hget m = hget old" "store_rep E t3 A B" "unchanged ?t2 t3"
      and g: "get_row_as_map E ?pk ?t2 =
        Inr (if canonical_bytes (e_ext E) (pk_of E t old) = canonical_bytes (e_ext E) ?pk then Some m else None, t3)"
      using get_row_Some [OF x s2, of ?pk loc old] Some old(1) live_at_cong [of ?t2 t] pk_of_cong [of ?t2 t] by auto
    have u3: "unchanged_rows t t3" using m(4) by (simp add: unchanged_def unchanged_rows_def)
    define same where "same \<longleftrightarrow> canonical_bytes (e_ext E) (pk_of E t old) = canonical_bytes (e_ext E) ?pk \<and> row_eq m ?row"
    let ?wl = "wal_append (e_wal_enc E) (wal_operation.Insert ?pk (e_row_enc E ?row)) (t_wal t3)"
    have ins: "table_insert E row t = Inr (if same then t3 else append_row E ?pk ?row (tombstone E loc (t3\<lparr>t_wal := ?wl\<rparr>)))"
      using dr Some g by (simp add: table_insert_def Let_def stored_row_def [symmetric] same_def tombstone_wal)
    have p3: "t_primary_index t3 = t_primary_index t" using u3 by (simp add: unchanged_rows_def)
    show ?thesis
    proof (cases same)
      case True
      then have c: "canonical_bytes (e_ext E) (pk_of E t old) = canonical_bytes (e_ext E) ?pk" and e: "hget old = hget ?row"
        using m(1,2) ro(1) row_eq_iff [of m ?row] by (simp_all add: same_def row_over_def)
      have "observed E t q = (if key_eq E q ?pk then Some (hget ?row) else None)"
        if "pi_hash (e_ext E) q = pi_hash (e_ext E) ?pk" for q
        using observed_Some [OF x s _ old(1), of q] Some that c e by (auto simp: key_eq_def pi_get_def)
      then have "?goal t3"
        using observed_unchanged [OF x s m(3) u3] m(3) u3 key_eq_hash [of E _ ?pk]
        unfolding table_ok_def flds_of_def pk_columns_def unchanged_rows_def by (simp add: Let_def) metis
      with True ins show ?thesis by auto
    next
      case False
      have "?goal (append_row E ?pk ?row (tombstone E loc (t3\<lparr>t_wal := ?wl\<rparr>)))"
        using Some m(3) u3 p3 by (intro app [of "t3\<lparr>t_wal := ?wl\<rparr>"]) (simp_all add: unchanged_rows_def)
      with False ins show ?thesis by auto
    qed
  qed
qed

section \<open>Deleting\<close>

lemma tombstone_index: "tombstone E loc (t\<lparr>t_primary_index := idx\<rparr>) = (tombstone E loc t)\<lparr>t_primary_index := idx\<rparr>"
  by (simp add: tombstone_def split: option.splits)

lemma delete_form:
  "\<exists>wl. table_delete E i t = (case pi_get (e_ext E) (t_primary_index t) i of None \<Rightarrow> t | Some loc \<Rightarrow> tombstone E loc t)
     \<lparr>t_primary_index := snd (pi_remove (e_ext E) i (t_primary_index t)), t_wal := wl\<rparr>"
proof (cases "pi_get (e_ext E) (t_primary_index t) i")
  case None
  then show ?thesis by (intro exI [of _ "t_wal t"]) (simp add: table_delete_def pi_remove_def pi_get_def)
next
  case (Some loc)
  then show ?thesis
    by (cases loc) (auto simp: table_delete_def pi_remove_def pi_get_def tombstone_wal tombstone_index)
qed

lemma delete_effect:
  assumes x: "str_layout (e_ext E)" and ok: "table_ok E t"
  shows "table_ok E (table_delete E i t) \<and> t_manifest (table_delete E i t) = t_manifest t \<and>
    observed E (table_delete E i t) q = (if pi_hash (e_ext E) q = pi_hash (e_ext E) i then None else observed E t q)"
proof -
  let ?x = "e_ext E" and ?t = "table_delete E i t"
  from ok obtain A B where s: "store_rep E t A B" by (auto simp: table_ok_def)
  then have r: "rep E t A B" and ix: "index_ok E t A B" by (simp_all add: store_rep_def)
  define t0 where "t0 = (case pi_get ?x (t_primary_index t) i of None \<Rightarrow> t | Some loc \<Rightarrow> tombstone E loc t)"
  obtain wl where t': "?t = t0\<lparr>t_primary_index := snd (pi_remove ?x i (t_primary_index t)), t_wal := wl\<rparr>"
    using delete_form [of E i t] unfolding t0_def by blast
  have t0: "rep E t0 A B" "t_manifest t0 = t_manifest t"
    "live_at t0 A B loc r' \<longleftrightarrow> live_at t A B loc r' \<and> pi_get ?x (t_primary_index t) i \<noteq> Some loc" for loc r'
  proof -
    have "rep E (tombstone E l t) A B" if "pi_get ?x (t_primary_index t) i = Some l" for l
      using index_ok_get [OF ix that] tombstone_rep [OF r] by blast
    with r show "rep E t0 A B" "t_manifest t0 = t_manifest t"
      "live_at t0 A B loc r' \<longleftrightarrow> live_at t A B loc r' \<and> pi_get ?x (t_primary_index t) i \<noteq> Some loc" for loc r'
      using tombstone_live [OF r] by (auto simp: t0_def split: option.splits)
  qed
  have h: "heads ?t = heads t0" "t_manifest ?t = t_manifest t" "t_primary_index ?t = snd (pi_remove ?x i (t_primary_index t))"
    using t0(2) by (simp_all add: t')
  have rt: "rep E ?t A B" unfolding t' using t0(1) by simp
  have pko: "pk_of E ?t = pk_of E t" by (rule pk_of_cong [OF h(2)])
  have live: "live_at ?t A B loc r' \<longleftrightarrow> live_at t A B loc r' \<and> pi_get ?x (t_primary_index t) i \<noteq> Some loc" for loc r'
    unfolding live_at_cong [OF h(1)] by (rule t0(3))
  have wf: "pi_wf (t_primary_index t)" using ix by (simp add: index_ok_def)
  have g: "pi_get ?x (t_primary_index ?t) q = (if pi_hash ?x q = pi_hash ?x i then None else pi_get ?x (t_primary_index t) q)" for q
    unfolding h(3) by (rule pidx.get_remove [OF wf])
  have other: "pi_get ?x (t_primary_index t) i \<noteq> Some loc"
    if at: "pi_get ?x (t_primary_index t) q = Some loc" and ne: "pi_hash ?x q \<noteq> pi_hash ?x i" for q loc
  proof
    assume "pi_get ?x (t_primary_index t) i = Some loc"
    then obtain a where "live_at t A B loc a" "pi_hash ?x (pk_of E t a) = pi_hash ?x i" using index_ok_get [OF ix] by blast
    moreover obtain b where "live_at t A B loc b" "pi_hash ?x (pk_of E t b) = pi_hash ?x q" using index_ok_get [OF ix at] by blast
    ultimately show False using live_unique [OF r] ne by metis
  qed
  have "\<exists>row. live_at ?t A B loc row \<and> pi_hash ?x (pk_of E ?t row) = pi_hash ?x q"
    if q: "pi_get ?x (t_primary_index ?t) q = Some loc" for q loc
  proof -
    from q g have o: "pi_get ?x (t_primary_index t) q = Some loc" "pi_hash ?x q \<noteq> pi_hash ?x i" by (auto split: if_splits)
    then show ?thesis using index_ok_get [OF ix o(1)] other [OF o] unfolding live pko by blast
  qed
  moreover have "pi_get ?x (t_primary_index ?t) (pk_of E ?t row) = Some loc" if l: "live_at ?t A B loc row" for loc row
  proof -
    from l have o: "live_at t A B loc row" "pi_get ?x (t_primary_index t) i \<noteq> Some loc" unfolding live by simp_all
    then have p: "pi_get ?x (t_primary_index t) (pk_of E t row) = Some loc" using index_ok_live [OF ix] by blast
    with o(2) have "pi_hash ?x (pk_of E t row) \<noteq> pi_hash ?x i" by (auto simp: pi_get_def)
    with p show ?thesis unfolding g pko by simp
  qed
  moreover have "pi_wf (t_primary_index ?t)" unfolding h(3) by (rule pidx.wf_remove [OF wf])
  ultimately have st: "store_rep E ?t A B" using rt by (simp add: store_rep_def index_ok_def)
  have "observed E ?t q = (if pi_hash ?x q = pi_hash ?x i then None else observed E t q)"
  proof (cases "pi_hash ?x q = pi_hash ?x i \<or> pi_get ?x (t_primary_index t) q = None")
    case True
    then show ?thesis using observed_None [of E ?t q] observed_None [of E t q] g by auto
  next
    case False
    then obtain loc where loc: "pi_get ?x (t_primary_index t) q = Some loc" and n: "pi_hash ?x q \<noteq> pi_hash ?x i" by auto
    then obtain row where row: "live_at t A B loc row" using index_ok_get [OF ix] by blast
    have l: "live_at ?t A B loc row" using row other [OF loc n] unfolding live by simp
    have g': "pi_get ?x (t_primary_index ?t) q = Some loc" using g n loc by simp
    show ?thesis using n unfolding observed_Some [OF x s loc row] observed_Some [OF x st g' l] pko by simp
  qed
  with st h(2) show ?thesis by (auto simp: table_ok_def)
qed

section \<open>Rotating the active segment\<close>

lemma persist_bitmaps_simps [simp]:
  "s_id (w_segment (persist_bitmaps cd w)) = s_id (w_segment w)"
  "s_deleted (w_segment (persist_bitmaps cd w)) = s_deleted (w_segment w)"
  "s_record_count (w_segment (persist_bitmaps cd w)) = s_record_count (w_segment w)"
  "s_mmap_cache (w_segment (persist_bitmaps cd w)) = s_mmap_cache (w_segment w)"
  "w_writers (persist_bitmaps cd w) = w_writers w" "w_dirty (persist_bitmaps cd w) = w_dirty w"
  by (simp_all add: persist_bitmaps_def)

lemma persist_bitmaps_dir:
  assumes "names_ok (set fs)" "f \<in> set fs"
  shows "hget (s_dir (w_segment (persist_bitmaps cd w))) (dat_file f) = hget (s_dir (w_segment w)) (dat_file f)"
    "hget (s_dir (w_segment (persist_bitmaps cd w))) (off_file f) = hget (s_dir (w_segment w)) (off_file f)"
proof -
  have "dat_file f \<noteq> bitmaps_file b" "off_file f \<noteq> bitmaps_file b" for b
    using assms file_clash(1,2) by (metis names_ok_def)+
  then show "hget (s_dir (w_segment (persist_bitmaps cd w))) (dat_file f) = hget (s_dir (w_segment w)) (dat_file f)"
    "hget (s_dir (w_segment (persist_bitmaps cd w))) (off_file f) = hget (s_dir (w_segment w)) (off_file f)"
    by (simp_all add: persist_bitmaps_def fold_bitmaps_other)
qed

lemma act_ok_persist:
  assumes a: "act_ok x fs w rows" and n: "names_ok (set fs)" and c: "clean fs w"
  shows "act_ok x fs (persist_bitmaps cd w) rows" "clean fs (persist_bitmaps cd w)"
proof -
  have wf: "hwf (w_writers w)" using a by (simp add: act_ok_def)
  have "pair_in (s_dir (w_segment (persist_bitmaps cd w))) f = pair_in (s_dir (w_segment w)) f" if "f \<in> set fs" for f
    using persist_bitmaps_dir [OF n that] by (rule pair_in_cong)
  then have "pair_in (writer_dir (persist_bitmaps cd w)) f = pair_in (writer_dir w) f" if "f \<in> set fs" for f
    using that wf by (simp add: pair_in_writer cong: option.case_cong)
  with c show c': "clean fs (persist_bitmaps cd w)" by (simp add: clean_def cache_ok_def)
  have "same_columns fs w (persist_bitmaps cd w)"
    using wf persist_bitmaps_dir [OF n] by (intro same_columnsI) simp_all
  from same_columns_act [OF a this] c' show "act_ok x fs (persist_bitmaps cd w) rows" by blast
qed

lemma metadata_dir [simp]:
  "hget (s_dir (save_metadata cd s)) (dat_file f) = hget (s_dir s) (dat_file f)"
  "hget (s_dir (save_metadata cd s)) (off_file f) = hget (s_dir s) (off_file f)"
proof -
  have "last (dat_file f) \<noteq> last ''metadata.json''" "last (off_file f) \<noteq> last ''metadata.json''"
    by (simp_all add: dat_file_def off_file_def)
  then show "hget (s_dir (save_metadata cd s)) (dat_file f) = hget (s_dir s) (dat_file f)"
    "hget (s_dir (save_metadata cd s)) (off_file f) = hget (s_dir s) (off_file f)"
    by (auto simp: save_metadata_def)
qed

lemma writer_flush_ok:
  assumes a: "act_ok x fs w rows" and n: "names_ok (set fs)" and i: "interval \<noteq> 0"
  shows "\<exists>w'. writer_flush cd interval w = Inr w' \<and> act_ok x fs w' rows \<and> clean fs w' \<and>
    s_id (w_segment w') = s_id (w_segment w) \<and> s_deleted (w_segment w') = s_deleted (w_segment w)"
proof (cases "w_dirty w")
  case False
  with a show ?thesis by (simp add: writer_flush_def act_ok_def)
next
  case True
  let ?w1 = "(flush_writers w)\<lparr>w_segment := persist_deleted_bitmap cd (save_metadata cd (w_segment w)), w_flush_count := w_flush_count w + 1\<rparr>"
  let ?w2 = "if w_flush_count ?w1 mod interval = 0 then persist_bitmaps cd ?w1 else ?w1"
  let ?w3 = "?w2\<lparr>w_dirty := False, w_segment := invalidate_mmap_cache (w_segment ?w2)\<rparr>"
  have d1: "hget (s_dir (w_segment ?w1)) (dat_file f) = hget (s_dir (w_segment w)) (dat_file f)"
    "hget (s_dir (w_segment ?w1)) (off_file f) = hget (s_dir (w_segment w)) (off_file f)" for f
    using file_clash(4,5) by (auto simp: persist_deleted_bitmap_def)
  have d3: "hget (s_dir (w_segment ?w3)) (dat_file f) = hget (s_dir (w_segment w)) (dat_file f)"
    "hget (s_dir (w_segment ?w3)) (off_file f) = hget (s_dir (w_segment w)) (off_file f)" if "f \<in> set fs" for f
    using persist_bitmaps_dir [OF n that, of cd ?w1] d1 [of f] by (simp_all add: invalidate_mmap_cache_def)
  have ws: "w_writers ?w3 = map (\<lambda>(col, t). (col, flush_column t)) (w_writers w)" by (simp add: flush_writers_def)
  have k: "s_id (w_segment ?w3) = s_id (w_segment w)" "s_deleted (w_segment ?w3) = s_deleted (w_segment w)"
    "s_record_count (w_segment ?w3) = s_record_count (w_segment w)" "s_mmap_cache (w_segment ?w3) = []"
    by (simp_all add: invalidate_mmap_cache_def persist_deleted_bitmap_def save_metadata_def)
  have c: "clean fs ?w3" by (rule flushed_clean [OF ws k(4)])
  have "same_columns fs w ?w3"
    unfolding same_columns_def
  proof (intro conjI allI ballI impI)
    show "hwf (w_writers ?w3)" unfolding ws using a by (simp add: act_ok_def hwf_map_val)
    show "col_holds y ?w3 f vs" if "f \<in> set fs" "col_holds y w f vs" for y f vs
      using flushed_holds [OF ws d3 [OF that(1)] that(2)] .
  qed (rule k(3))
  from same_columns_act [OF a this] c have "act_ok x fs ?w3 rows" by blast
  moreover have "writer_flush cd interval w = Inr ?w3" using True i by (simp add: writer_flush_def Let_def flush_writers_def)
  ultimately show ?thesis using c k by blast
qed

text \<open>The exact indexes, the log and the files are not what the rows depend on.\<close>

definition row_state :: "'c table \<Rightarrow> manifest \<times> segment_writer option \<times> segment list \<times> primary_index \<times> (string, files) hmap" where
  "row_state t = (t_manifest t, t_active t, t_immutable t, t_primary_index t, t_dirs t)"

lemma merge_exact_state: "row_state (merge_exact_indexes_for_segment E i bms t) = row_state t"
proof -
  have "row_state (merge_field E i fv u) = row_state u" for fv and u :: "'a table"
    by (simp add: merge_field_def Let_def store_exact_def row_state_def split_beta)
  then show ?thesis unfolding merge_exact_indexes_for_segment_def by (induction bms arbitrary: t) simp_all
qed

lemma count_flush_state: "row_state (count_flush E t) = row_state t" "row_state (save_manifest E t) = row_state t"
  "row_state (t\<lparr>t_wal := wl\<rparr>) = row_state t"
  by (simp_all add: count_flush_def Let_def table_save_primary_index_def save_manifest_def row_state_def)

lemma row_stateD: "row_state t = row_state t' \<Longrightarrow> t_manifest t = t_manifest t' \<and> t_active t = t_active t' \<and>
    t_immutable t = t_immutable t' \<and> t_primary_index t = t_primary_index t' \<and> t_dirs t = t_dirs t'"
  by (simp add: row_state_def)

lemma persist_if_simps [simp]:
  "s_id (persist_if_deleted E s) = s_id s" "s_deleted (persist_if_deleted E s) = s_deleted s"
  "s_record_count (persist_if_deleted E s) = s_record_count s" "s_mmap_cache (persist_if_deleted E s) = s_mmap_cache s"
  "pair_in (s_dir (persist_if_deleted E s)) f = pair_in (s_dir s) f"
  by (simp_all add: persist_if_deleted_def persist_deleted_bitmap_def)

lemma imm_ok_persist: "imm_ok fs s rows \<Longrightarrow> imm_ok fs (persist_if_deleted E s) rows"
  by (simp add: imm_ok_def holds_rows_def cell_at_def cong: cache_ok_cong option.case_cong)

lemma fresh_act_ok: "act_ok x fs (fresh_writer i) []"
  using fresh_col [of x i] by (simp add: act_ok_def clean_def cache_ok_def vals_def col_data_def) (simp add: fresh_writer_def segment_new_def)

text \<open>The table after the rotation: the active segment is the last immutable one.\<close>

lemma flush_active_form:
  assumes w: "t_active t = Some w" "s_record_count (w_segment w) \<noteq> 0" and f: "writer_flush (e_seg E) (e_bitmap_interval E) w = Inr w1"
    and n: "hget (t_dirs t) (seg_name (m_active_segment_id (t_manifest t) + 1)) = None"
  defines "w2 \<equiv> persist_bitmaps (e_seg E) w1"
  shows "\<exists>t'. flush_active_segment E t = Inr t' \<and>
    t_active t' = Some (fresh_writer (m_active_segment_id (t_manifest t) + 1)) \<and>
    t_immutable t' = map (persist_if_deleted E) (t_immutable t @ [(w_segment w2)\<lparr>s_is_immutable := True, s_dir := writer_dir w2\<rparr>]) \<and>
    t_primary_index t' = t_primary_index t \<and> m_original_fields (t_manifest t') = m_original_fields (t_manifest t) \<and>
    m_primary_key (t_manifest t') = m_primary_key (t_manifest t) \<and>
    m_primary_key_columns (t_manifest t') = m_primary_key_columns (t_manifest t)"
proof -
  let ?t1 = "merge_exact_indexes_for_segment E (s_id (w_segment w2)) (w_bitmaps w2) (t\<lparr>t_active := None\<rparr>)"
  have 1: "t_manifest ?t1 = t_manifest t" "t_active ?t1 = None" "t_immutable ?t1 = t_immutable t"
    "t_primary_index ?t1 = t_primary_index t" "t_dirs ?t1 = t_dirs t"
    using row_stateD [OF merge_exact_state [of E "s_id (w_segment w2)" "w_bitmaps w2" "t\<lparr>t_active := None\<rparr>"]] by simp_all
  let ?m = "(add_segment (to_meta (w_segment w2)) (t_manifest t))\<lparr>m_active_segment_id := m_active_segment_id (t_manifest t) + 1,
      m_last_sequence_number := m_last_sequence_number (t_manifest t) + 1\<rparr>"
  let ?t2 = "save_manifest E (?t1\<lparr>t_manifest := ?m\<rparr>)"
  let ?t3 = "count_flush E (?t2\<lparr>t_wal := wal_flush_writes (t_wal ?t2)\<rparr>)"
  have "row_state ?t3 = row_state (?t1\<lparr>t_manifest := ?m\<rparr>)" by (simp only: count_flush_state)
  from row_stateD [OF this] 1 have 3: "t_manifest ?t3 = ?m" "t_active ?t3 = None" "t_immutable ?t3 = t_immutable t"
    "t_primary_index ?t3 = t_primary_index t" "t_dirs ?t3 = t_dirs t" by simp_all
  let ?t4 = "?t3\<lparr>t_immutable := t_immutable ?t3 @ [(w_segment w2)\<lparr>s_is_immutable := True, s_dir := writer_dir w2\<rparr>]\<rparr>"
  have "flush_active_segment E t = Inr (ensure_active_segment E (persist_all_deleted_bitmaps E ?t4))"
    using w f 1(1) by (simp add: flush_active_segment_def Let_def w2_def add_segment_def)
  moreover have "seg_name (m_active_segment_id (t_manifest ?t4)) = seg_name (m_active_segment_id (t_manifest t) + 1)"
    by (simp add: 3)
  ultimately show ?thesis
    using n 3 by (simp add: ensure_active_segment_def persist_all_deleted_bitmaps_def Let_def add_segment_def
        segment_writer_new_def fresh_writer_def segment_new_def)
qed

text \<open>The next segment is new: its directory does not exist, and no segment has its id.\<close>

definition next_free :: "'c table \<Rightarrow> bool" where
  "next_free t \<longleftrightarrow> (let i = m_active_segment_id (t_manifest t) + 1 in
     hget (t_dirs t) (seg_name i) = None \<and> i \<noteq> - 1 \<and> list_all (\<lambda>h. fst h \<noteq> i) (heads t))"

lemma rotate_effect:
  assumes x: "str_layout (e_ext E)" and ok: "table_ok E t" and names: "names_ok (set (flds_of t))"
    and i: "e_bitmap_interval E \<noteq> 0" and nf: "next_free t"
  shows "\<exists>t'. flush_active_segment E t = Inr t' \<and> table_ok E t' \<and> flds_of t' = flds_of t \<and> pk_columns t' = pk_columns t \<and>
    (\<forall>q. observed E t' q = observed E t q)"
proof -
  from ok obtain A B where s: "store_rep E t A B" by (auto simp: table_ok_def)
  then have r: "rep E t A B" and ix: "index_ok E t A B" by (simp_all add: store_rep_def)
  obtain w where w: "t_active t = Some w" "act_ok (e_ext E) (flds_of t) w B"
    "heads t = seg_head (w_segment w) # map seg_head (t_immutable t)" using rep_active [OF r] by blast
  show ?thesis
  proof (cases "s_record_count (w_segment w) = 0")
    case True
    with w ok show ?thesis by (simp add: flush_active_segment_def)
  next
    case False
    obtain w1 where f: "writer_flush (e_seg E) (e_bitmap_interval E) w = Inr w1" and w1: "act_ok (e_ext E) (flds_of t) w1 B"
      "clean (flds_of t) w1" "s_id (w_segment w1) = s_id (w_segment w)" "s_deleted (w_segment w1) = s_deleted (w_segment w)"
      using writer_flush_ok [OF w(2) names i] by blast
    define w2 where "w2 = persist_bitmaps (e_seg E) w1"
    define n where "n = m_active_segment_id (t_manifest t) + 1"
    define sg where "sg = (w_segment w2)\<lparr>s_is_immutable := True, s_dir := writer_dir w2\<rparr>"
    have w2: "act_ok (e_ext E) (flds_of t) w2 B" "clean (flds_of t) w2"
      unfolding w2_def using act_ok_persist [OF w1(1) names w1(2)] by simp_all
    have nf': "hget (t_dirs t) (seg_name (m_active_segment_id (t_manifest t) + 1)) = None" "n \<noteq> - 1" "n \<notin> fst ` set (heads t)"
      using nf by (auto simp: next_free_def Let_def n_def list_all_iff)
    obtain t' where t': "flush_active_segment E t = Inr t'" "t_active t' = Some (fresh_writer n)"
      "t_immutable t' = map (persist_if_deleted E) (t_immutable t @ [sg])" "t_primary_index t' = t_primary_index t"
      "m_original_fields (t_manifest t') = m_original_fields (t_manifest t)"
      "m_primary_key (t_manifest t') = m_primary_key (t_manifest t)"
      "m_primary_key_columns (t_manifest t') = m_primary_key_columns (t_manifest t)"
      using flush_active_form [OF w(1) False f nf'(1)] unfolding n_def sg_def w2_def by blast
    have cols: "flds_of t' = flds_of t" "pk_columns t' = pk_columns t" using t' by (simp_all add: flds_of_def pk_columns_def Let_def)
    have pko: "pk_of E t' = pk_of E t" by (rule ext) (simp add: pk_of_def cols)
    have sgh: "seg_head sg = seg_head (w_segment w)" using w1(3,4) by (simp add: seg_head_def sg_def w2_def)
    have h: "heads t' = (n, {}) # map seg_head (t_immutable t) @ [seg_head (w_segment w)]"
      using t'(2,3) sgh by (simp add: heads_def seg_head_def fresh_writer_def segment_new_def)
    have len: "length (t_immutable t) = length A" using r by (auto simp: rep_def dest: list_all2_lengthD)
    have z: "zip (heads t') ([] # A @ [B]) = ((n, {}), []) # zip (map seg_head (t_immutable t)) A @ [(seg_head (w_segment w), B)]"
      using len by (simp add: h)
    have live: "live_at t' (A @ [B]) [] loc row \<longleftrightarrow> live_at t A B loc row" for loc row
      unfolding live_at_def z w(3) holds_at_def by auto
    have im: "imm_ok (flds_of t) sg B"
    proof -
      have "cache_ok (flds_of t) (writer_dir w2) (w_segment w2)" using w2(2) by (simp add: clean_def)
      with clean_holds [OF x w2] show ?thesis by (simp add: imm_ok_def sg_def holds_rows_def cache_ok_def)
    qed
    have old: "list_all2 (imm_ok (flds_of t)) (t_immutable t) A" using r by (simp add: rep_def)
    have "list_all2 (imm_ok (flds_of t)) (t_immutable t @ [sg]) (A @ [B])" using old im by (simp add: list_all2_appendI)
    then have l2: "list_all2 (imm_ok (flds_of t')) (t_immutable t') (A @ [B])"
      unfolding t'(3) cols list_all2_map1 by (rule list_all2_mono) (rule imm_ok_persist)
    have bounds: "\<forall>((j, d), rows) \<in> set (zip (heads t') ([] # A @ [B])). \<forall>l\<in>d. unat l < length rows"
      using r unfolding z rep_def w(3) by (auto simp: seg_head_def)
    have "rep E t' (A @ [B]) []"
    proof -
      have e: "map fst (heads t') = n # map fst (tl (heads t)) @ [fst (hd (heads t))]" by (simp add: h w(3))
      have d: "distinct (map fst (heads t'))" "- 1 \<notin> fst ` set (heads t')"
        using r nf'(2,3) unfolding rep_def set_map [symmetric] e by (auto simp: w(3))
      with r l2 fresh_act_ok [of "e_ext E" "flds_of t" n] t'(2) bounds show ?thesis unfolding rep_def cols by blast
    qed
    moreover have "index_ok E t' (A @ [B]) []" using ix by (simp add: index_ok_def t'(4) live pko)
    ultimately have s': "store_rep E t' (A @ [B]) []" by (simp add: store_rep_def)
    have "observed E t' q = observed E t q" for q
    proof (cases "pi_get (e_ext E) (t_primary_index t) q")
      case None
      with t'(4) show ?thesis by (simp add: observed_None)
    next
      case (Some loc)
      obtain row where row: "live_at t A B loc row" using index_ok_get [OF ix Some] by blast
      have g: "pi_get (e_ext E) (t_primary_index t') q = Some loc" using Some t'(4) by simp
      show ?thesis unfolding observed_Some [OF x s Some row] observed_Some [OF x s' g row [folded live]] pko ..
    qed
    with t'(1) cols s' show ?thesis by (auto simp: table_ok_def)
  qed
qed

section \<open>The contract of a store\<close>

text \<open>The operations of a client, and what they mean for the map of rows; \<open>Turn\<close> is a step of
  maintenance the client does not see.\<close>

datatype ('r, 'k) store_op = Put 'r | Del 'k | Turn

fun apply_op :: "('r \<Rightarrow> 'k) \<Rightarrow> ('r \<Rightarrow> 'v) \<Rightarrow> ('k \<Rightarrow> 'k \<Rightarrow> bool) \<Rightarrow> ('r, 'k) store_op \<Rightarrow>
    ('k \<Rightarrow> 'v option) \<Rightarrow> 'k \<Rightarrow> 'v option" where
  "apply_op key val same (Put r) m k = (if same k (key r) then Some (val r) else m k)"
| "apply_op key val same (Del j) m k = (if same k j then None else m k)"
| "apply_op key val same Turn m k = m k"

primrec do_op :: "('r \<Rightarrow> 's \<Rightarrow> 'e + 's) \<Rightarrow> ('k \<Rightarrow> 's \<Rightarrow> 's) \<Rightarrow> ('s \<Rightarrow> 'e + 's) \<Rightarrow> ('r, 'k) store_op \<Rightarrow> 's \<Rightarrow> 'e + 's" where
  "do_op put del turn (Put r) s = put r s"
| "do_op put del turn (Del j) s = Inr (del j s)"
| "do_op put del turn Turn s = turn s"

text \<open>Every operation finds the store ready for it.\<close>

primrec all_ready :: "(('r, 'k) store_op \<Rightarrow> 's \<Rightarrow> 'e + 's) \<Rightarrow> ('s \<Rightarrow> ('r, 'k) store_op \<Rightarrow> bool) \<Rightarrow>
    ('r, 'k) store_op list \<Rightarrow> 's \<Rightarrow> bool" where
  "all_ready step ready [] s = True"
| "all_ready step ready (p # ops) s \<longleftrightarrow> ready s p \<and> (case step p s of Inl _ \<Rightarrow> True | Inr s' \<Rightarrow> all_ready step ready ops s')"

text \<open>\<open>K\<close> is the set of keys in use; \<open>key\<close> and \<open>val\<close> depend on what \<open>shape\<close> keeps of the state.\<close>

locale keyed_store =
  fixes ok :: "'s \<Rightarrow> bool"
    and shape :: "'s \<Rightarrow> 'h"
    and ready :: "'s \<Rightarrow> ('r, 'k) store_op \<Rightarrow> bool"
    and step :: "('r, 'k) store_op \<Rightarrow> 's \<Rightarrow> 'e + 's"
    and key :: "'s \<Rightarrow> 'r \<Rightarrow> 'k"
    and val :: "'s \<Rightarrow> 'r \<Rightarrow> 'v"
    and obs :: "'s \<Rightarrow> 'k \<Rightarrow> 'v option"
    and same :: "'k \<Rightarrow> 'k \<Rightarrow> bool"
    and K :: "'k set"
  assumes step_ok: "ok s \<Longrightarrow> ready s p \<Longrightarrow> \<exists>s'. step p s = Inr s' \<and> ok s' \<and> shape s' = shape s"
    and step_obs: "ok s \<Longrightarrow> ready s p \<Longrightarrow> step p s = Inr s' \<Longrightarrow> k \<in> K \<Longrightarrow>
      obs s' k = apply_op (key s) (val s) same p (obs s) k"
    and key_shape: "shape s = shape s' \<Longrightarrow> key s = key s'"
    and val_shape: "shape s = shape s' \<Longrightarrow> val s = val s'"
begin

lemma apply_local: "m k = n k \<Longrightarrow> apply_op f g same p m k = apply_op f g same p n k"
  by (cases p) simp_all

text \<open>A sequence of operations never fails, and shows the map its meaning computes.\<close>

lemma run_obs:
  "ok s \<Longrightarrow> all_ready step ready ops s \<Longrightarrow> (\<forall>k\<in>K. obs s k = m k) \<Longrightarrow>
   \<exists>s'. fold_r step ops s = Inr s' \<and> ok s' \<and> shape s' = shape s \<and>
     (\<forall>k\<in>K. obs s' k = fold (apply_op (key s) (val s) same) ops m k)"
proof (induction ops arbitrary: s m)
  case (Cons p ops)
  from Cons.prems have rd: "ready s p" by simp
  obtain s1 where s1: "step p s = Inr s1" "ok s1" "shape s1 = shape s" using step_ok [OF Cons.prems(1) rd] by blast
  have o: "\<forall>k\<in>K. obs s1 k = apply_op (key s) (val s) same p m k"
    using step_obs [OF Cons.prems(1) rd s1(1)] Cons.prems(3) apply_local by metis
  have a: "all_ready step ready ops s1" using Cons.prems(2) s1(1) by simp
  from Cons.IH [OF s1(2) a o] key_shape [OF s1(3)] val_shape [OF s1(3)] s1 show ?case by simp
qed simp

text \<open>Putting a row twice is putting it once.\<close>

lemma put_twice:
  assumes "ok s" "ready s (Put r)" "step (Put r) s = Inr s1" "ready s1 (Put r)" "step (Put r) s1 = Inr s2" "k \<in> K"
  shows "obs s2 k = obs s1 k"
proof -
  have s1: "ok s1" "shape s1 = shape s" using step_ok [OF assms(1,2)] assms(3) by auto
  show ?thesis
    using step_obs [OF assms(1-3,6)] step_obs [OF s1(1) assms(4-6)] key_shape [OF s1(2)] val_shape [OF s1(2)] by simp
qed

end

text \<open>The keys in use have distinct hashes, unless they are equal.\<close>

definition collision_free :: "'c env \<Rightarrow> string set \<Rightarrow> bool" where
  "collision_free E K \<longleftrightarrow> (\<forall>p\<in>K. \<forall>q\<in>K. pi_hash (e_ext E) p = pi_hash (e_ext E) q \<longrightarrow> key_eq E p q)"

definition store_ok :: "'c env \<Rightarrow> string set \<Rightarrow> 'c table \<Rightarrow> bool" where
  "store_ok E K t \<longleftrightarrow> str_layout (e_ext E) \<and> collision_free E K \<and> table_ok E t"

lemma stored_shape: "(flds_of t, pk_columns t) = (flds_of t', pk_columns t') \<Longrightarrow>
    stored_key E t = stored_key E t' \<and> stored_row E t = stored_row E t'"
  by (auto simp: stored_key_def stored_row_def pk_of_def)

text \<open>The operations of a table, and when it is ready for one.\<close>

definition table_op :: "'c env \<Rightarrow> (row, string) store_op \<Rightarrow> 'c table \<Rightarrow> table_error + 'c table" where
  "table_op E = do_op (table_insert E) (table_delete E) (flush_active_segment E)"

definition op_ready :: "'c env \<Rightarrow> string set \<Rightarrow> 'c table \<Rightarrow> (row, string) store_op \<Rightarrow> bool" where
  "op_ready E K t p \<longleftrightarrow> (case p of
       Put r \<Rightarrow> room_for E t r \<and> stored_key E t r \<in> K
     | Del j \<Rightarrow> j \<in> K
     | Turn \<Rightarrow> names_ok (set (flds_of t)) \<and> e_bitmap_interval E \<noteq> 0 \<and> next_free t)"

interpretation tstore: keyed_store "store_ok E K" "\<lambda>t. (flds_of t, pk_columns t)" "op_ready E K" "table_op E"
  "stored_key E" "\<lambda>t r. hget (stored_row E t r)" "observed E" "key_eq E" K for E K
proof unfold_locales
  fix t :: "'a table" and p assume ok: "store_ok E K t" and rd: "op_ready E K t p"
  then have t: "str_layout (e_ext E)" "table_ok E t" by (simp_all add: store_ok_def)
  have hash: "pi_hash (e_ext E) k = pi_hash (e_ext E) j \<longleftrightarrow> key_eq E k j" if "k \<in> K" "j \<in> K" for k j
    using ok that key_eq_hash by (auto simp: store_ok_def collision_free_def)
  have "\<exists>t'. table_op E p t = Inr t' \<and> table_ok E t' \<and> flds_of t' = flds_of t \<and> pk_columns t' = pk_columns t \<and>
    (\<forall>k\<in>K. observed E t' k = apply_op (stored_key E t) (\<lambda>r. hget (stored_row E t r)) (key_eq E) p (observed E t) k)"
  proof (cases p)
    case (Put r)
    with insert_effect [OF t, of r] rd hash show ?thesis by (force simp: table_op_def op_ready_def)
  next
    case (Del j)
    with delete_effect [OF t, of j] rd hash show ?thesis
      by (auto simp: table_op_def op_ready_def flds_of_def pk_columns_def)
  next
    case Turn
    with rotate_effect [OF t] rd show ?thesis by (auto simp: table_op_def op_ready_def)
  qed
  then show "\<exists>t'. table_op E p t = Inr t' \<and> store_ok E K t' \<and> (flds_of t', pk_columns t') = (flds_of t, pk_columns t)"
    "\<And>t' k. table_op E p t = Inr t' \<Longrightarrow> k \<in> K \<Longrightarrow>
      observed E t' k = apply_op (stored_key E t) (\<lambda>r. hget (stored_row E t r)) (key_eq E) p (observed E t) k"
    using ok by (auto simp: store_ok_def)
qed (use stored_shape in \<open>metis+\<close>)

section \<open>An empty table\<close>

definition empty_table :: "string \<Rightarrow> manifest \<Rightarrow> 'c table" where
  "empty_table nm m = \<lparr>t_name = nm, t_manifest = m, t_active = Some (fresh_writer (m_active_segment_id m)), t_immutable = [],
     t_wal = wal_open None, t_primary_index = primary_index_new, t_exact = [], t_flush_count = 0, t_discarded = False,
     t_dirs = [], t_files = [], t_draws = 0\<rparr>"

lemma empty_table_simps [simp]:
  "t_manifest (empty_table nm m) = m" "t_active (empty_table nm m) = Some (fresh_writer (m_active_segment_id m))"
  "t_immutable (empty_table nm m) = []" "t_primary_index (empty_table nm m) = primary_index_new" "t_dirs (empty_table nm m) = []"
  "flds_of (empty_table nm m) = m_original_fields m"
  by (simp_all add: empty_table_def flds_of_def)

lemma open_common_empty: "open_common E nm [] [] = Inr (empty_table nm manifest_new)"
  by (simp add: open_common_def Let_def load_segments_def ensure_active_segment_def table_load_primary_index_def
      sync_primary_index_to_active_bitmaps_def manifest_new_def segment_writer_new_def segment_new_def empty_table_def
      fresh_writer_def hdel_def map_filter_simps)

lemma open_empty:
  fixes E :: "'c env"
  shows "table_open E nm [] [] = Inr (remove_stale_pk_index (empty_table nm manifest_new))"
proof -
  let ?t = "empty_table nm manifest_new :: 'c table"
  have w: "s_record_count (w_segment (fresh_writer 0)) = 0" by (simp add: fresh_writer_def segment_new_def)
  have "replay_wal E ?t = Inr ?t"
    by (simp add: replay_wal_def wal_replay_def empty_table_def replay_bytes.simps)
  moreover have "reconcile_orphan_rows E ?t = Inr ?t"
    using w by (simp add: reconcile_orphan_rows_def Let_def collect_locations_def find_orphans_def latest_per_pk_def
        ensure_active_pk_def) (simp add: empty_table_def manifest_new_def)
  moreover have "active_segment_row_count ?t = 0" using w by (simp add: active_segment_row_count_def manifest_new_def)
  ultimately show ?thesis by (simp add: table_open_def open_common_empty)
qed

lemma empty_table_ok:
  fixes E :: "'c env" and t :: "'c table"
  assumes t: "t = empty_table nm m" and "m_original_fields m \<noteq> []" "set (pk_columns t) \<subseteq> set (m_original_fields m)" "m_active_segment_id m \<noteq> - 1"
  shows "table_ok E t" "observed E t pk = None"
proof -
  have h: "heads t = [(m_active_segment_id m, {})]"
    by (simp add: t heads_def seg_head_def fresh_writer_def segment_new_def)
  have l: "\<not> live_at t [] [] loc row" for loc row by (simp add: live_at_def h holds_at_def)
  have "rep E t [] []" using assms(2-4) h fresh_act_ok by (simp add: rep_def) (simp add: t)
  moreover have "index_ok E t [] []"
    using l by (simp add: index_ok_def) (simp add: t pidx.wf_empty pidx.get_empty)
  ultimately show "table_ok E t" by (auto simp: table_ok_def store_rep_def)
  show "observed E t pk = None" by (rule observed_None) (simp add: t pidx.get_empty)
qed

section \<open>An environment\<close>

text \<open>A concrete environment: ASCII texts, and codecs that forget what they are given.\<close>

definition small_env :: "(u128, postings) hmap env" where
  "small_env = \<lparr>e_ext = ascii_ext, e_lru = small_lru, e_codec = plain_codec, e_seg = plain_seg_codec [] [],
     e_pi = \<lparr>enc_pi = (\<lambda>_. []), dec_pi = (\<lambda>_. None), dec_pi_v1 = (\<lambda>_. None)\<rparr>,
     e_wal_enc = (\<lambda>_. ''w''), e_wal_dec = (\<lambda>_. None), e_row_enc = (\<lambda>_. ''r''), e_row_dec = (\<lambda>_. None),
     e_man_enc = (\<lambda>_. ''m''), e_man_dec = (\<lambda>_. None), e_uuid = (\<lambda>n. ''uuid''), e_bitmap_interval = 5, e_save_interval = 10,
     e_skip_fields = None, e_cache_fields = 64, e_compact_rows = 1000, e_auth_table = ''auth'',
     e_word = (\<lambda>s. list_all (\<lambda>c. is_digit c) s), e_jobs = (\<lambda>cs. [cs])\<rparr>"

definition small_table :: "(u128, postings) hmap table" where
  "small_table = empty_table ''t'' (manifest_new\<lparr>m_original_fields := [''id'', ''v''], m_primary_key := ''id''\<rparr>)"

lemma small_cols: "flds_of small_table = [''id'', ''v'']" "pk_columns small_table = [''id'']" "nfc (e_ext small_env) v = v"
  by (simp_all add: small_table_def pk_columns_def manifest_new_def small_env_def ascii_ext_def)

lemma small_shape: "stored_row small_env small_table row = row" "stored_key small_env small_table row = hdefault [] (hget row ''id'')"
proof -
  show r: "stored_row small_env small_table row = row"
    by (simp add: stored_row_def normalize_pk_def small_cols split: option.split)
  show "stored_key small_env small_table row = hdefault [] (hget row ''id'')"
    by (simp add: stored_key_def r pk_of_def small_cols row_pk_value_def split: option.split)
qed

lemma small_ok: "table_ok E small_table" "observed E small_table pk = None"
  by (rule empty_table_ok [OF small_table_def]; simp add: small_cols manifest_new_def)+

lemma small_store: "collision_free small_env K \<Longrightarrow> store_ok small_env K small_table"
  using small_ok(1) [of small_env] by (simp add: store_ok_def) (simp add: small_env_def ascii_layout)

lemma small_key: "key_eq small_env p q \<longleftrightarrow> p = q"
  by (simp add: key_eq_def small_env_def ascii_ext_def canonical_bytes_def)

lemma small_fits:
  assumes "row_over [''id'', ''v''] row" "list_all (\<lambda>(_, v). length v < 1000) row"
  shows "room_for small_env small_table row"
proof -
  have h: "hwf row" "fst ` set row = {''id'', ''v''}" using assms(1) by (simp_all add: row_over_def)
  have l: "length (bincode_str (e_ext small_env) (the (hget row f))) < 2 ^ 63" if "f \<in> {''id'', ''v''}" for f
  proof -
    from that have "f \<in> set [''id'', ''v'']" by simp
    then obtain v where v: "hget row f = Some v" using row_over_get [OF assms(1)] by blast
    then have "(f, v) \<in> set row" using h by (simp add: hget_Some_iff)
    with assms(2) have "length v < 1000" by (auto simp: list_all_iff)
    with v show ?thesis by (simp add: small_env_def ascii_ext_def)
  qed
  have a: "t_active small_table = Some (fresh_writer 0)" by (simp add: small_table_def manifest_new_def)
  have c: "column_of (fresh_writer 0) f = (bw_open [], bw_open [], 0)" "s_record_count (w_segment (fresh_writer 0)) = 0" for f
    by (simp_all add: fresh_writer_def segment_new_def column_of_def open_column_def)
  show ?thesis using assms(1) l by (simp add: room_for_def small_cols small_shape row_fits_def a c)
qed

section \<open>Properties\<close>

text \<open>C1: A table is a map from primary keys to rows. Any sequence of inserts, deletes and rotations of
  the active segment that finds the table ready (rows over the table's columns, room in the segment,
  a free directory for the next one) succeeds, keeps the invariant, and leaves \<open>get_row_as_map\<close>
  answering, for the keys in use, what the sequence means on a map: the row inserted last under the
  key unless it was deleted since.\<close>

theorem table_refines_map:
  assumes "store_ok E K t" "all_ready (table_op E) (op_ready E K) ops t"
  shows "\<exists>t'. fold_r (table_op E) ops t = Inr t' \<and> store_ok E K t' \<and>
    (\<forall>k\<in>K. observed E t' k =
      fold (apply_op (stored_key E t) (\<lambda>r. hget (stored_row E t r)) (key_eq E)) ops (observed E t) k)"
  using tstore.run_obs [OF assms, of "observed E t"] by auto

theorem table_refines_map_witness:
  "\<exists>t'. fold_r (table_op small_env) [Put [(''id'', ''1''), (''v'', ''a'')], Del ''2''] small_table = Inr t' \<and>
    map_option (\<lambda>r. r ''v'') (observed small_env t' ''1'') = Some (Some ''a'')"
proof -
  have c: "collision_free small_env {''1'', ''2''}"
    by (auto simp: collision_free_def small_key pi_hash_def) (simp_all add: small_env_def ascii_ext_def canonical_bytes_def from_le128_def bval_def)
  have r: "room_for small_env small_table [(''id'', ''1''), (''v'', ''a'')]"
    by (rule small_fits) (auto simp: row_over_def hwf_Cons utf8_valid.simps utf8_head_def bval_def)
  then have a: "all_ready (table_op small_env) (op_ready small_env {''1'', ''2''}) [Put [(''id'', ''1''), (''v'', ''a'')], Del ''2''] small_table"
    by (simp add: op_ready_def small_shape hget_Cons split: sum.split)
  from table_refines_map [OF small_store [OF c] a] show ?thesis
    by (auto simp: small_shape small_ok(2) hget_Cons small_key)
qed
text \<open>An insert and a delete act on all keys with the key's hash: the row inserted is found under
  the keys with its canonical form, and under no other key with the same hash; all other keys keep
  their rows. So a key whose hash collides with that of an inserted or deleted key loses its row.\<close>

theorem insert_delete_by_hash:
  assumes "str_layout (e_ext E)" "table_ok E t" "room_for E t row"
  shows "(\<exists>t'. table_insert E row t = Inr t' \<and> table_ok E t' \<and>
      (\<forall>q. observed E t' q = (if key_eq E q (stored_key E t row) then Some (hget (stored_row E t row))
         else if pi_hash (e_ext E) q = pi_hash (e_ext E) (stored_key E t row) then None else observed E t q))) \<and>
    table_ok E (table_delete E i t) \<and>
    (\<forall>q. observed E (table_delete E i t) q = (if pi_hash (e_ext E) q = pi_hash (e_ext E) i then None else observed E t q))"
  using insert_effect [OF assms] delete_effect [OF assms(1,2), of i] by auto

theorem insert_delete_by_hash_witness:
  "\<exists>t'. table_insert small_env [(''id'', ''1''), (''v'', ''a'')] small_table = Inr t' \<and> table_ok small_env t' \<and>
    observed small_env t' ''1'' = Some (hget [(''id'', ''1''), (''v'', ''a'')])"
proof -
  have r: "room_for small_env small_table [(''id'', ''1''), (''v'', ''a'')]"
    by (rule small_fits) (auto simp: row_over_def hwf_Cons utf8_valid.simps utf8_head_def bval_def)
  have x: "str_layout (e_ext small_env)" using ascii_layout by (simp add: small_env_def)
  from insert_delete_by_hash [OF x small_ok(1) r, of "''1''"] show ?thesis by (auto simp: small_shape small_key hget_Cons)
qed



text \<open>Opening an empty directory gives an empty table; once it has columns, the key's among
  them, it satisfies the invariant and finds no row.\<close>

theorem empty_directory_opens:
  assumes "m_original_fields m \<noteq> []" "set (pk_columns (empty_table nm m :: 'c table)) \<subseteq> set (m_original_fields m)"
    "m_active_segment_id m \<noteq> - 1"
  shows "table_open E nm [] [] = Inr (remove_stale_pk_index (empty_table nm manifest_new)) \<and>
    table_ok (E :: 'c env) (empty_table nm m) \<and> observed E (empty_table nm m) pk = None"
  using open_empty empty_table_ok [OF refl assms, of E] by simp

theorem empty_directory_opens_witness:
  "table_ok small_env (empty_table ''t'' (manifest_new\<lparr>m_original_fields := [''PK'']\<rparr>))"
  using empty_directory_opens [of "manifest_new\<lparr>m_original_fields := [''PK'']\<rparr>" "''t''" small_env "''1''"]
  by (simp add: manifest_new_def pk_columns_def)

end
