(* ===== verification/Top_K.thy ===== *)
theory Top_K
  imports Types Primary_Index "HOL-Library.Multiset"
begin

text \<open>
  Sorting by a comparison function, and the bounded selection of the first rows in the order of a
  column that \<open>Table::search\<close> runs (the types \<open>SortKey\<close>, \<open>RefSortKey\<close> and \<open>HeapItem\<close> and the
  \<open>fold\<close> and \<open>reduce\<close> of \<^verbatim>\<open>src/core/storage/table.rs\<close>).

  The locale \<open>total_cmp\<close> is what a comparison must satisfy for \<open>sort_by\<close> to mean anything: on the
  valid keys it is a total preorder. Rust's \<open>sort_unstable_by\<close> may order equal items in any way;
  here it is the stable sort, one of the orders it may give.
\<close>

section \<open>Sorting by a comparison\<close>

fun insort_cmp :: "('a \<Rightarrow> 'a \<Rightarrow> ordering) \<Rightarrow> 'a \<Rightarrow> 'a list \<Rightarrow> 'a list" where
  "insort_cmp c x [] = [x]"
| "insort_cmp c x (y # ys) = (if c x y = Less then x # y # ys else y # insort_cmp c x ys)"

definition sort_cmp :: "('a \<Rightarrow> 'a \<Rightarrow> ordering) \<Rightarrow> 'a list \<Rightarrow> 'a list" where
  "sort_cmp c xs = fold (insort_cmp c) xs []"

lemma set_insort [simp]: "set (insort_cmp c x xs) = insert x (set xs)"
  by (induction xs) auto

lemma length_insort [simp]: "length (insort_cmp c x xs) = Suc (length xs)"
  by (induction xs) auto

lemma mset_insort: "mset (insort_cmp c x xs) = add_mset x (mset xs)"
  by (induction xs) auto

lemma fold_insort_mset: "mset (fold (insort_cmp c) xs ys) = mset xs + mset ys"
  by (induction xs arbitrary: ys) (auto simp: mset_insort)

lemma mset_sort [simp]: "mset (sort_cmp c xs) = mset xs"
  by (simp add: sort_cmp_def fold_insort_mset)

lemma set_sort [simp]: "set (sort_cmp c xs) = set xs"
  using mset_sort [of c xs] by (rule mset_eq_setD)

lemma length_sort_cmp [simp]: "length (sort_cmp c xs) = length xs"
  using mset_sort [of c xs] by (rule mset_eq_length)

lemma sort_append: "sort_cmp c (xs @ ys) = fold (insort_cmp c) ys (sort_cmp c xs)"
  by (simp add: sort_cmp_def)

lemma take_insort: "take k (insort_cmp c x ys) = take k (insort_cmp c x (take k ys))"
proof (induction ys arbitrary: k)
  case (Cons y ys)
  then show ?case by (cases k) (auto simp: take_Cons' min_def)
qed simp

lemma take_fold_insort: "take k (fold (insort_cmp c) xs ys) = take k (fold (insort_cmp c) xs (take k ys))"
proof (induction xs arbitrary: ys)
  case (Cons x xs)
  have "take k (fold (insort_cmp c) xs (insort_cmp c x ys)) =
      take k (fold (insort_cmp c) xs (take k (insort_cmp c x (take k ys))))"
    using Cons.IH take_insort by metis
  then show ?case using Cons.IH by simp
qed simp

lemma set_take_insort: "set (take k (insort_cmp c x ys)) \<subseteq> insert x (set (take k ys))"
proof (induction ys arbitrary: k)
  case Nil
  then show ?case by (cases k) auto
next
  case (Cons y ys)
  show ?case
  proof (cases k)
    case (Suc n)
    have "set (take n (y # ys)) \<subseteq> insert y (set (take n ys))" by (cases n) (auto dest: in_set_takeD simp: take_Suc_conv_app_nth intro: set_take_subset_set_take [THEN subsetD, rotated])
    with Cons.IH [of n] Suc show ?thesis by auto
  qed simp
qed

section \<open>The contract of a comparison\<close>

locale total_cmp =
  fixes cmp :: "'k \<Rightarrow> 'k \<Rightarrow> ordering" and valid :: "'k \<Rightarrow> bool"
  assumes cmp_rev: "valid a \<Longrightarrow> valid b \<Longrightarrow> cmp b a = rev_ord (cmp a b)"
    and cmp_trans: "valid a \<Longrightarrow> valid b \<Longrightarrow> valid c \<Longrightarrow> cmp a b \<noteq> Greater \<Longrightarrow> cmp b c \<noteq> Greater \<Longrightarrow> cmp a c \<noteq> Greater"
begin

lemma not_less: "valid a \<Longrightarrow> valid b \<Longrightarrow> cmp a b \<noteq> Less \<longleftrightarrow> cmp b a \<noteq> Greater"
  by (cases "cmp a b") (simp_all add: cmp_rev [of a b])

lemma not_greater: "valid a \<Longrightarrow> valid b \<Longrightarrow> cmp a b = Less \<Longrightarrow> cmp a b \<noteq> Greater"
  by simp

text \<open>Items are compared by their keys.\<close>

definition by_key :: "('i \<Rightarrow> 'k) \<Rightarrow> 'i \<Rightarrow> 'i \<Rightarrow> ordering" where
  "by_key key a b = cmp (key a) (key b)"

definition ordered_by :: "('i \<Rightarrow> 'k) \<Rightarrow> 'i list \<Rightarrow> bool" where
  "ordered_by key xs \<longleftrightarrow> sorted_wrt (\<lambda>a b. cmp (key a) (key b) \<noteq> Greater) xs"

lemma insort_ordered:
  "valid (key x) \<Longrightarrow> \<forall>y\<in>set ys. valid (key y) \<Longrightarrow> ordered_by key ys \<Longrightarrow> ordered_by key (insort_cmp (by_key key) x ys)"
proof (induction ys)
  case (Cons y ys)
  have trans: "cmp (key x) (key z) \<noteq> Greater" if "cmp (key x) (key y) = Less" "z \<in> set ys" for z
    using Cons.prems that cmp_trans [of "key x" "key y" "key z"] by (auto simp: ordered_by_def)
  have "cmp (key y) (key x) \<noteq> Greater" if "cmp (key x) (key y) \<noteq> Less"
    using Cons.prems that not_less by simp
  with Cons trans show ?case by (auto simp: ordered_by_def by_key_def)
qed (simp add: ordered_by_def)

lemma fold_insort_ordered:
  "\<forall>x\<in>set xs \<union> set ys. valid (key x) \<Longrightarrow> ordered_by key ys \<Longrightarrow> ordered_by key (fold (insort_cmp (by_key key)) xs ys)"
  by (induction xs arbitrary: ys) (auto simp: insort_ordered)

lemma sort_ordered: "\<forall>x\<in>set xs. valid (key x) \<Longrightarrow> ordered_by key (sort_cmp (by_key key) xs)"
  unfolding sort_cmp_def by (rule fold_insort_ordered) (auto simp: ordered_by_def)

lemma insort_last:
  "\<forall>y\<in>set ys. cmp (key x) (key y) \<noteq> Less \<Longrightarrow> insort_cmp (by_key key) x ys = ys @ [x]"
  by (induction ys) (auto simp: by_key_def)

lemma sort_of_ordered:
  "\<forall>x\<in>set xs. valid (key x) \<Longrightarrow> ordered_by key xs \<Longrightarrow> sort_cmp (by_key key) xs = xs"
proof (induction xs rule: rev_induct)
  case (snoc x xs)
  then have "\<forall>y\<in>set xs. cmp (key x) (key y) \<noteq> Less"
    using not_less by (auto simp: ordered_by_def sorted_wrt_append)
  with snoc show ?case by (simp add: sort_append insort_last ordered_by_def sorted_wrt_append)
qed (simp add: sort_cmp_def)

lemma sort_take_sort:
  assumes "\<forall>x\<in>set xs. valid (key x)"
  shows "sort_cmp (by_key key) (take k (sort_cmp (by_key key) xs)) = take k (sort_cmp (by_key key) xs)"
proof (rule sort_of_ordered)
  show "\<forall>x\<in>set (take k (sort_cmp (by_key key) xs)). valid (key x)"
    using assms set_take_subset [of k "sort_cmp (by_key key) xs"] by auto
  show "ordered_by key (take k (sort_cmp (by_key key) xs))"
    using sort_ordered [OF assms] by (simp add: ordered_by_def sorted_wrt_take)
qed

text \<open>Only the first \<open>k\<close> of a sorted part matter for the first \<open>k\<close> of the whole.\<close>

lemma take_sort_append:
  assumes "\<forall>x\<in>set xs. valid (key x)"
  shows "take k (sort_cmp (by_key key) (xs @ ys)) =
    take k (sort_cmp (by_key key) (take k (sort_cmp (by_key key) xs) @ ys))"
  unfolding sort_append sort_take_sort [OF assms] by (rule take_fold_insort)

lemma take_sort_cong:
  assumes "\<forall>x\<in>set xs \<union> set xs'. valid (key x)"
    "take k (sort_cmp (by_key key) xs) = take k (sort_cmp (by_key key) xs')"
  shows "take k (sort_cmp (by_key key) (xs @ ys)) = take k (sort_cmp (by_key key) (xs' @ ys))"
  using take_sort_append [of xs key k ys] take_sort_append [of xs' key k ys] assms by simp

text \<open>An item not before any of the first \<open>k\<close> is not among them.\<close>

lemma take_insort_skip:
  assumes "k \<le> length s" "\<forall>y\<in>set (take k s). cmp (key x) (key y) \<noteq> Less"
  shows "take k (insort_cmp (by_key key) x s) = take k s"
  using assms by (subst take_insort) (simp add: insort_last)

text \<open>The accumulator of a bounded selection: \<open>acc\<close> stands for the items \<open>xs\<close> seen so far, and
  what is not before the threshold is not among the first \<open>k\<close>.\<close>

definition selects :: "('i \<Rightarrow> 'k) \<Rightarrow> nat \<Rightarrow> 'i list \<Rightarrow> 'i list \<Rightarrow> 'k option \<Rightarrow> bool" where
  "selects key k xs acc thr \<longleftrightarrow> set acc \<subseteq> set xs \<and>
     take k (sort_cmp (by_key key) acc) = take k (sort_cmp (by_key key) xs) \<and>
     (\<forall>th. thr = Some th \<longrightarrow> valid th \<and> k \<le> length acc \<and>
        (\<forall>y\<in>set (take k (sort_cmp (by_key key) acc)). cmp (key y) th \<noteq> Greater))"

lemma selects_skip:
  assumes "selects key k xs acc (Some th)" "\<forall>y\<in>set (xs @ [x]). valid (key y)" "cmp (key x) th \<noteq> Less"
  shows "selects key k (xs @ [x]) acc (Some th)"
proof -
  let ?s = "sort_cmp (by_key key)"
  have v: "\<forall>y\<in>set acc \<union> set xs. valid (key y)" using assms(1,2) by (auto simp: selects_def)
  have "cmp (key x) (key y) \<noteq> Less" if y: "y \<in> set (take k (?s acc))" for y
  proof -
    have "y \<in> set acc" using y in_set_takeD by fastforce
    with v assms y have "valid (key y)" "valid th" "valid (key x)" "cmp (key y) th \<noteq> Greater"
      by (auto simp: selects_def)
    with assms(3) cmp_trans [of "key y" th "key x"] not_less show ?thesis by simp
  qed
  then have "take k (insort_cmp (by_key key) x (?s acc)) = take k (?s acc)"
    using assms(1) by (intro take_insort_skip) (simp_all add: selects_def)
  moreover have "take k (?s (xs @ [x])) = take k (?s (acc @ [x]))"
    using assms(1) v by (intro take_sort_cong) (auto simp: selects_def)
  ultimately show ?thesis using assms(1) by (auto simp: selects_def sort_append)
qed

lemma selects_push:
  assumes "selects key k xs acc thr" "\<forall>y\<in>set (xs @ [x]). valid (key y)"
    "\<And>th. thr = Some th \<Longrightarrow> cmp (key x) th = Less"
  shows "selects key k (xs @ [x]) (acc @ [x]) thr"
proof -
  let ?s = "sort_cmp (by_key key)"
  have "\<forall>y\<in>set acc \<union> set xs. valid (key y)" using assms(1,2) by (auto simp: selects_def)
  then have "take k (?s (acc @ [x])) = take k (?s (xs @ [x]))"
    using assms(1) by (intro take_sort_cong) (auto simp: selects_def)
  moreover have "set (take k (?s (acc @ [x]))) \<subseteq> insert x (set (take k (?s acc)))"
    by (simp add: sort_append set_take_insort)
  ultimately show ?thesis using assms(1,3) by (fastforce simp: selects_def)
qed

lemma selects_sort:
  assumes "selects key k xs acc thr" "\<forall>y\<in>set xs. valid (key y)"
  shows "selects key k xs (sort_cmp (by_key key) acc) thr"
proof -
  have "\<forall>y\<in>set acc. valid (key y)" using assms by (auto simp: selects_def)
  from sort_of_ordered [OF _ sort_ordered [OF this]] this
  have "sort_cmp (by_key key) (sort_cmp (by_key key) acc) = sort_cmp (by_key key) acc" by simp
  with assms(1) show ?thesis by (auto simp: selects_def)
qed

lemma selects_truncate:
  assumes "selects key k xs acc thr" "\<forall>y\<in>set xs. valid (key y)" "0 < k" "k < length acc"
  shows "selects key k xs (take k (sort_cmp (by_key key) acc)) (Some (key (last (take k (sort_cmp (by_key key) acc)))))"
proof -
  let ?t = "take k (sort_cmp (by_key key) acc)"
  have v: "\<forall>y\<in>set acc. valid (key y)" using assms by (auto simp: selects_def)
  have sub: "set ?t \<subseteq> set acc" using set_take_subset [of k "sort_cmp (by_key key) acc"] by simp
  have "sort_cmp (by_key key) acc \<noteq> []"
    using assms(4) length_sort_cmp [of "by_key key" acc] by (metis list.size(3) not_less_zero)
  with assms(3) have ne: "?t \<noteq> []" by simp
  have o: "ordered_by key ?t" using sort_ordered [OF v] by (simp add: ordered_by_def sorted_wrt_take)
  have le: "cmp (key y) (key (last ?t)) \<noteq> Greater" if "y \<in> set ?t" for y
  proof (cases "y = last ?t")
    case True
    then show ?thesis using v sub ne last_in_set [OF ne] not_less [of "key y" "key y"]
      by (metis cmp_rev ordering.distinct(3) rev_ord.simps(3) subsetD)
  next
    case False
    have "y \<in> set (butlast ?t @ [last ?t])" unfolding append_butlast_last_id [OF ne] by (rule that)
    with False have y: "y \<in> set (butlast ?t)" by simp
    have "ordered_by key (butlast ?t @ [last ?t])" unfolding append_butlast_last_id [OF ne] by (rule o)
    then have "\<forall>y\<in>set (butlast ?t). cmp (key y) (key (last ?t)) \<noteq> Greater"
      unfolding ordered_by_def sorted_wrt_append by simp
    with y show ?thesis by blast
  qed
  have idem: "sort_cmp (by_key key) ?t = ?t" using sort_take_sort [OF v] by simp
  have "valid (key (last ?t))" using v sub last_in_set [OF ne] by blast
  moreover have "k \<le> length ?t" using assms(4) by simp
  moreover have "set ?t \<subseteq> set xs" using assms(1) sub by (auto simp: selects_def)
  moreover have "?t = take k (sort_cmp (by_key key) xs)" using assms(1) unfolding selects_def by blast
  moreover have tk: "take k (sort_cmp (by_key key) ?t) = ?t" by (simp add: idem)
  ultimately show ?thesis using le unfolding selects_def tk by blast
qed

end

text \<open>When equal keys are identical, the sorted list is determined by what it holds.\<close>

locale total_order_cmp = total_cmp +
  assumes cmp_Equal: "valid a \<Longrightarrow> valid b \<Longrightarrow> cmp a b = Equal \<Longrightarrow> a = b"
begin

lemma ordered_unique:
  "\<forall>x\<in>set xs. valid x \<Longrightarrow> ordered_by (\<lambda>x. x) xs \<Longrightarrow> ordered_by (\<lambda>x. x) ys \<Longrightarrow> mset xs = mset ys \<Longrightarrow> xs = ys"
proof (induction xs arbitrary: ys)
  case (Cons x xs)
  obtain y ys' where ys: "ys = y # ys'" using Cons.prems(4) by (cases ys) auto
  have mem: "set (x # xs) = set (y # ys')" using Cons.prems(4) ys by (metis mset_eq_setD)
  have "x = y"
  proof (rule ccontr)
    assume n: "x \<noteq> y"
    with mem have "y \<in> set xs" "x \<in> set ys'" by (metis list.set_intros(1) set_ConsD)+
    with Cons.prems ys have "cmp x y \<noteq> Greater" "cmp y x \<noteq> Greater" "valid x" "valid y"
      by (auto simp: ordered_by_def)
    then show False using n cmp_Equal [of x y] cmp_rev [of x y] by (cases "cmp x y") auto
  qed
  with Cons ys show ?case by (auto simp: ordered_by_def)
qed simp

lemma sort_perm:
  assumes "\<forall>x\<in>set xs. valid x" "mset xs = mset ys"
  shows "sort_cmp cmp xs = sort_cmp cmp ys"
proof -
  have "\<forall>x\<in>set ys. valid x" using assms by (metis mset_eq_setD)
  with assms sort_ordered [of xs "\<lambda>x. x"] sort_ordered [of ys "\<lambda>x. x"] show ?thesis
    by (intro ordered_unique) (simp_all add: by_key_def [abs_def])
qed

end

section \<open>The keys\<close>

datatype sort_key = KNum f64 | KStr string | KNone

text \<open>The derived order of the enumeration; \<open>cmp\<close> turns \<open>None\<close> into \<open>Equal\<close>.\<close>

fun sort_key_cmp :: "sort_key \<Rightarrow> sort_key \<Rightarrow> ordering" where
  "sort_key_cmp (KNum a) (KNum b) = hdefault Equal (partial_cmp a b)"
| "sort_key_cmp (KStr a) (KStr b) = cmp_ord a b"
| "sort_key_cmp KNone KNone = Equal"
| "sort_key_cmp (KNum _) _ = Less"
| "sort_key_cmp (KStr _) (KNum _) = Greater"
| "sort_key_cmp (KStr _) KNone = Less"
| "sort_key_cmp KNone _ = Greater"

text \<open>A borrowed key against an owned one; borrowed keys are the same type here.\<close>

fun compare_ref_owned :: "sort_key \<Rightarrow> sort_key \<Rightarrow> ordering" where
  "compare_ref_owned (KNum a) (KNum b) = hdefault Equal (partial_cmp a b)"
| "compare_ref_owned (KStr a) (KStr b) = cmp_ord a b"
| "compare_ref_owned KNone KNone = Equal"
| "compare_ref_owned (KNum _) _ = Less"
| "compare_ref_owned (KStr _) (KNum _) = Greater"
| "compare_ref_owned (KStr _) KNone = Less"
| "compare_ref_owned KNone _ = Greater"

record heap_item =
  hi_key :: sort_key
  hi_seg_id :: u64
  hi_local_id :: u32

definition heap_item_cmp :: "heap_item \<Rightarrow> heap_item \<Rightarrow> ordering" where
  "heap_item_cmp a b = sort_key_cmp (hi_key a) (hi_key b)"

fun directed :: "sort_direction \<Rightarrow> ordering \<Rightarrow> ordering" where
  "directed Asc o1 = o1"
| "directed Desc o1 = rev_ord o1"

fun key_ok :: "sort_key \<Rightarrow> bool" where
  "key_ok (KNum a) = (a \<noteq> NaN)"
| "key_ok _ = True"

lemma sort_key_cmp_rev: "sort_key_cmp b a = rev_ord (sort_key_cmp a b)"
proof (cases a; cases b)
  fix m n assume "a = KNum m" "b = KNum n"
  then show ?thesis by (cases "partial_cmp m n") (simp_all add: partial_cmp_rev [of n m])
qed (simp_all add: rev_ord_cmp_ord)

lemma num_le: "a \<noteq> NaN \<Longrightarrow> b \<noteq> NaN \<Longrightarrow> hdefault Equal (partial_cmp a b) \<noteq> Greater \<longleftrightarrow> f64_le a b"
  by (cases a; cases b) (auto simp: f64_le_def cmp_ord_def)

lemma sort_key_cmp_trans:
  "key_ok a \<Longrightarrow> key_ok b \<Longrightarrow> key_ok c \<Longrightarrow> sort_key_cmp a b \<noteq> Greater \<Longrightarrow> sort_key_cmp b c \<noteq> Greater \<Longrightarrow>
   sort_key_cmp a c \<noteq> Greater"
  by (cases a; cases b; cases c) (auto simp: num_le not_less intro: f64_le_trans)

lemma sort_key_cmp_Equal: "key_ok a \<Longrightarrow> key_ok b \<Longrightarrow> sort_key_cmp a b = Equal \<Longrightarrow> a = b"
proof (cases a; cases b)
  fix m n assume "a = KNum m" "b = KNum n" "key_ok a" "key_ok b" "sort_key_cmp a b = Equal"
  then show ?thesis by (cases m; cases n) auto
qed auto

lemma directed_le: "rev_ord (sort_key_cmp a b) \<noteq> Greater \<longleftrightarrow> sort_key_cmp b a \<noteq> Greater"
  by (simp add: sort_key_cmp_rev [of b a])

interpretation sk: total_order_cmp "\<lambda>a b. directed dir (sort_key_cmp a b)" key_ok for dir
proof
  fix a b assume "key_ok a" "key_ok b"
  show "directed dir (sort_key_cmp b a) = rev_ord (directed dir (sort_key_cmp a b))"
    by (cases dir) (simp_all add: sort_key_cmp_rev [of b a])
  assume "directed dir (sort_key_cmp a b) = Equal"
  then have "sort_key_cmp a b = Equal" by (cases dir; cases "sort_key_cmp a b") simp_all
  with \<open>key_ok a\<close> \<open>key_ok b\<close> show "a = b" by (rule sort_key_cmp_Equal)
next
  fix a b c assume ok: "key_ok a" "key_ok b" "key_ok c"
  assume "directed dir (sort_key_cmp a b) \<noteq> Greater" "directed dir (sort_key_cmp b c) \<noteq> Greater"
  with ok sort_key_cmp_trans [of a b c] sort_key_cmp_trans [of c b a] directed_le
  show "directed dir (sort_key_cmp a c) \<noteq> Greater" by (cases dir) simp_all
qed

text \<open>The keys of items in the order of the sort.\<close>

definition keys_of :: "sort_direction \<Rightarrow> heap_item list \<Rightarrow> sort_key list" where
  "keys_of dir xs = sort_cmp (\<lambda>a b. directed dir (sort_key_cmp a b)) (map hi_key xs)"

section \<open>The selection\<close>

definition item_cmp :: "sort_direction \<Rightarrow> heap_item \<Rightarrow> heap_item \<Rightarrow> ordering" where
  "item_cmp dir a b = directed dir (heap_item_cmp a b)"

definition skip_item :: "sort_direction \<Rightarrow> sort_key option \<Rightarrow> sort_key \<Rightarrow> bool" where
  "skip_item dir threshold ref_key = (case threshold of None \<Rightarrow> False
     | Some thresh \<Rightarrow> let c = compare_ref_owned ref_key thresh in
         if dir = Desc then c \<noteq> Greater else c \<noteq> Less)"

text \<open>The body of the \<open>fold\<close>.\<close>

definition topk_push :: "sort_direction \<Rightarrow> nat \<Rightarrow> heap_item \<Rightarrow> heap_item list \<times> sort_key option \<Rightarrow> heap_item list \<times> sort_key option" where
  "topk_push dir effective_limit item st =
     (let (acc, threshold) = st in
      if skip_item dir threshold (hi_key item) then st
      else let acc = acc @ [item] in
        if effective_limit * 4 \<le> length acc
        then let acc = sort_cmp (item_cmp dir) acc in
          if effective_limit < length acc
          then let acc = take effective_limit acc in
            (acc, if acc = [] then threshold else Some (hi_key (last acc)))
          else (acc, threshold)
        else (acc, threshold))"

definition topk_job :: "sort_direction \<Rightarrow> nat \<Rightarrow> heap_item list \<Rightarrow> heap_item list" where
  "topk_job dir effective_limit items = fst (fold (topk_push dir effective_limit) items ([], None))"

definition topk_reduce :: "sort_direction \<Rightarrow> nat \<Rightarrow> heap_item list \<Rightarrow> heap_item list \<Rightarrow> heap_item list" where
  "topk_reduce dir effective_limit a b =
     (let a = sort_cmp (item_cmp dir) (a @ b) in
      if effective_limit < length a then take effective_limit a else a)"

text \<open>The jobs are the runs of chunks that \<^verbatim>\<open>rayon\<close> gives to one accumulator each; it reduces
  their results in order, starting with the empty one.\<close>

definition topk :: "sort_direction \<Rightarrow> nat \<Rightarrow> heap_item list list \<Rightarrow> heap_item list" where
  "topk dir effective_limit jobs = foldl (topk_reduce dir effective_limit) [] (map (topk_job dir effective_limit) jobs)"

section \<open>The selection is the start of the sorted list\<close>

lemma item_cmp_key: "item_cmp dir = sk.by_key dir hi_key"
  by (simp add: fun_eq_iff item_cmp_def sk.by_key_def heap_item_cmp_def)

lemma ref_owned: "compare_ref_owned a b = sort_key_cmp a b"
  by (cases a; cases b) simp_all

lemma skip_iff: "skip_item dir (Some th) k \<longleftrightarrow> directed dir (sort_key_cmp k th) \<noteq> Less"
  by (cases dir; cases "sort_key_cmp k th") (simp_all add: skip_item_def ref_owned)

lemma topk_push_selects:
  assumes "sk.selects dir hi_key k xs (fst st) (snd st)" "\<forall>y\<in>set (xs @ [x]). key_ok (hi_key y)" "0 < k"
  shows "sk.selects dir hi_key k (xs @ [x]) (fst (topk_push dir k x st)) (snd (topk_push dir k x st))"
proof -
  obtain acc thr where st: "st = (acc, thr)" by (cases st)
  show ?thesis
  proof (cases "skip_item dir thr (hi_key x)")
    case True
    then obtain th where th: "thr = Some th" by (cases thr) (auto simp: skip_item_def)
    with True have "directed dir (sort_key_cmp (hi_key x) th) \<noteq> Less" by (simp add: skip_iff)
    with sk.selects_skip [of dir hi_key k xs acc th x] assms th st True show ?thesis
      by (simp add: topk_push_def)
  next
    case False
    then have "directed dir (sort_key_cmp (hi_key x) th) = Less" if "thr = Some th" for th
      using that by (simp add: skip_iff)
    from sk.selects_push [OF _ assms(2) this, of k acc] assms(1) st
    have p: "sk.selects dir hi_key k (xs @ [x]) (acc @ [x]) thr" by simp
    let ?s = "sort_cmp (item_cmp dir) (acc @ [x])"
    have tr: "sk.selects dir hi_key k (xs @ [x]) (take k ?s) (Some (hi_key (last (take k ?s))))" if "k < length ?s"
      using sk.selects_truncate [OF p assms(2,3)] that by (simp add: item_cmp_key)
    have so: "sk.selects dir hi_key k (xs @ [x]) ?s thr"
      using sk.selects_sort [OF p assms(2)] by (simp add: item_cmp_key)
    have "?s \<noteq> []" by (metis length_0_conv length_sort_cmp snoc_eq_iff_butlast)
    with False p tr so assms(3) show ?thesis by (simp add: topk_push_def st Let_def)
  qed
qed

lemma topk_fold_selects:
  assumes "sk.selects dir hi_key k xs (fst st) (snd st)" "\<forall>y\<in>set (xs @ ys). key_ok (hi_key y)" "0 < k"
  shows "sk.selects dir hi_key k (xs @ ys) (fst (fold (topk_push dir k) ys st)) (snd (fold (topk_push dir k) ys st))"
  using assms
proof (induction ys arbitrary: xs st)
  case (Cons y ys)
  have "sk.selects dir hi_key k (xs @ [y]) (fst (topk_push dir k y st)) (snd (topk_push dir k y st))"
    using Cons.prems by (intro topk_push_selects) auto
  from Cons.IH [OF this] Cons.prems show ?case by simp
qed simp

lemma topk_job_selects:
  assumes "\<forall>y\<in>set xs. key_ok (hi_key y)" "0 < k"
  shows "take k (sort_cmp (item_cmp dir) (topk_job dir k xs)) = take k (sort_cmp (item_cmp dir) xs)"
    "set (topk_job dir k xs) \<subseteq> set xs"
  using topk_fold_selects [of dir k "[]" "([], None)" xs] assms
  by (simp_all add: topk_job_def sk.selects_def item_cmp_key)

lemma keys_by_key: "sk.by_key dir (\<lambda>x. x) = (\<lambda>a b. directed dir (sort_key_cmp a b))"
  by (simp add: fun_eq_iff sk.by_key_def)

lemma keys_cong:
  assumes "\<forall>y\<in>set (xs @ xs' @ ys). key_ok (hi_key y)"
    "take k (keys_of dir xs) = take k (keys_of dir xs')"
  shows "take k (keys_of dir (xs @ ys)) = take k (keys_of dir (xs' @ ys))"
  using sk.take_sort_cong [of "map hi_key xs" "map hi_key xs'" "\<lambda>x. x" k dir "map hi_key ys"] assms
  by (simp add: keys_of_def keys_by_key ball_Un)

lemma keys_perm:
  "\<forall>y\<in>set xs. key_ok (hi_key y) \<Longrightarrow> mset xs = mset ys \<Longrightarrow> keys_of dir xs = keys_of dir ys"
  unfolding keys_of_def by (rule sk.sort_perm) auto

lemma map_insort: "map hi_key (insort_cmp (item_cmp dir) x xs) =
    insort_cmp (\<lambda>a b. directed dir (sort_key_cmp a b)) (hi_key x) (map hi_key xs)"
  by (induction xs) (simp_all add: item_cmp_def heap_item_cmp_def)

lemma map_sort: "map hi_key (sort_cmp (item_cmp dir) xs) = keys_of dir xs"
proof -
  have "map hi_key (fold (insort_cmp (item_cmp dir)) xs ys) =
      fold (insort_cmp (\<lambda>a b. directed dir (sort_key_cmp a b))) (map hi_key xs) (map hi_key ys)" for ys
    by (induction xs arbitrary: ys) (simp_all add: map_insort)
  then show ?thesis by (simp add: sort_cmp_def keys_of_def)
qed

lemma topk_job_keys:
  assumes "\<forall>y\<in>set xs. key_ok (hi_key y)" "0 < k"
  shows "take k (keys_of dir (topk_job dir k xs)) = take k (keys_of dir xs)"
  using arg_cong [OF topk_job_selects(1) [OF assms, of dir], of "map hi_key"] by (simp add: take_map [symmetric] map_sort)

lemma topk_reduce_eq: "topk_reduce dir k a b = take k (sort_cmp (item_cmp dir) (a @ b))"
  by (simp add: topk_reduce_def Let_def)

lemma topk_reduce_keys:
  assumes "\<forall>y\<in>set (a @ xs @ b @ ys). key_ok (hi_key y)"
    "take k (keys_of dir a) = take k (keys_of dir xs)" "take k (keys_of dir b) = take k (keys_of dir ys)"
  shows "map hi_key (topk_reduce dir k a b) = take k (keys_of dir (xs @ ys))"
proof -
  have "map hi_key (topk_reduce dir k a b) = take k (keys_of dir (a @ b))"
    by (simp add: topk_reduce_eq take_map [symmetric] map_sort)
  also have "\<dots> = take k (keys_of dir (xs @ b))" using assms by (intro keys_cong) auto
  also have "keys_of dir (xs @ b) = keys_of dir (b @ xs)" using assms by (intro keys_perm) auto
  also have "take k (keys_of dir (b @ xs)) = take k (keys_of dir (ys @ xs))" using assms by (intro keys_cong) auto
  also have "keys_of dir (ys @ xs) = keys_of dir (xs @ ys)" using assms by (intro keys_perm) auto
  finally show ?thesis .
qed

lemma take_keys_idem:
  assumes "\<forall>y\<in>set (a @ xs). key_ok (hi_key y)" "map hi_key a = take k (keys_of dir xs)"
  shows "keys_of dir a = take k (keys_of dir xs)"
  using sk.sort_take_sort [of "map hi_key xs" "\<lambda>x. x" dir k] assms
  by (simp add: keys_of_def keys_by_key)

lemma topk_fold_keys:
  assumes "0 < k" "\<forall>y\<in>set (a @ xs @ concat jobs). key_ok (hi_key y)" "map hi_key a = take k (keys_of dir xs)"
  shows "map hi_key (foldl (topk_reduce dir k) a (map (topk_job dir k) jobs)) = take k (keys_of dir (xs @ concat jobs)) \<and>
    set (foldl (topk_reduce dir k) a (map (topk_job dir k) jobs)) \<subseteq> set (a @ concat jobs)"
  using assms(2,3)
proof (induction jobs arbitrary: a xs)
  case (Cons j jobs)
  let ?a = "topk_reduce dir k a (topk_job dir k j)"
  have sub: "set (topk_job dir k j) \<subseteq> set j" using Cons.prems assms(1) by (intro topk_job_selects(2)) auto
  have suba: "set ?a \<subseteq> set a \<union> set (topk_job dir k j)"
    using set_take_subset [of k "sort_cmp (item_cmp dir) (a @ topk_job dir k j)"] by (simp add: topk_reduce_eq)
  have "map hi_key ?a = take k (keys_of dir (xs @ j))"
  proof (rule topk_reduce_keys)
    show "\<forall>y\<in>set (a @ xs @ topk_job dir k j @ j). key_ok (hi_key y)" using Cons.prems(1) sub by auto
    show "take k (keys_of dir a) = take k (keys_of dir xs)"
      using take_keys_idem [of a xs k dir] Cons.prems by (simp add: ball_Un)
    show "take k (keys_of dir (topk_job dir k j)) = take k (keys_of dir j)"
      using Cons.prems assms(1) by (intro topk_job_keys) auto
  qed
  moreover have "\<forall>y\<in>set (?a @ (xs @ j) @ concat jobs). key_ok (hi_key y)"
    using Cons.prems(1) sub suba by fastforce
  ultimately show ?case using Cons.IH [of ?a "xs @ j"] sub suba by fastforce
qed auto

section \<open>Properties\<close>

text \<open>C5: The bounded parallel selection is the start of the full sort: however the rows are divided
  into jobs, the keys it returns are the first \<open>effective_limit\<close> of all keys in the order asked
  for, and the rows are among those given. No key is the number NaN (a numeric key starts with a
  digit, so it is not).\<close>

theorem topk_is_sorted_prefix:
  assumes "0 < k" "\<forall>job\<in>set jobs. \<forall>item\<in>set job. key_ok (hi_key item)"
  shows "map hi_key (topk dir k jobs) = take k (map hi_key (sort_cmp (item_cmp dir) (concat jobs))) \<and>
    set (topk dir k jobs) \<subseteq> set (concat jobs)"
proof -
  have "keys_of dir [] = []" by (simp add: keys_of_def sort_cmp_def)
  with topk_fold_keys [of k "[]" "[]" jobs dir] assms show ?thesis by (simp add: topk_def map_sort)
qed

theorem topk_is_sorted_prefix_witness:
  "map hi_key (topk Desc 1 [[\<lparr>hi_key = KNum (Fin 2), hi_seg_id = 0, hi_local_id = 0\<rparr>],
      [\<lparr>hi_key = KStr ''a'', hi_seg_id = 0, hi_local_id = 1\<rparr>, \<lparr>hi_key = KNum (Fin 3), hi_seg_id = 1, hi_local_id = 0\<rparr>]])
    = [KStr ''a'']"
  using topk_is_sorted_prefix [of 1 "[[\<lparr>hi_key = KNum (Fin 2), hi_seg_id = 0, hi_local_id = 0\<rparr>],
      [\<lparr>hi_key = KStr ''a'', hi_seg_id = 0, hi_local_id = 1\<rparr>, \<lparr>hi_key = KNum (Fin 3), hi_seg_id = 1, hi_local_id = 0\<rparr>]]" Desc]
  by (simp add: sort_cmp_def item_cmp_def heap_item_cmp_def)

end
