(* ===== verification/Json.thy ===== *)
theory Json
  imports Types
begin

text \<open>
  JSON values (\<^verbatim>\<open>serde_json::Value\<close>, built with \<open>preserve_order\<close>): the accessors the program calls, an
  object as the association list of its entries in the order they were inserted, and the compact text of
  a value. A finite number is an integer of 64 bits or a float; the decimal text of a float (the
  \<^verbatim>\<open>ryu\<close> crate) is the parameter \<open>ryu\<close>.
\<close>

datatype json =
    JNull | JBool bool | JInt int | JFloat f64 | JStr string | JArr "json list" | JObj "(string \<times> json) list"

type_synonym jmap = "(string, json) hmap"

fun json_get :: "json \<Rightarrow> string \<Rightarrow> json option" where
  "json_get (JObj m) k = map_of m k"
| "json_get _ k = None"

fun as_str :: "json \<Rightarrow> string option" where
  "as_str (JStr s) = Some s"
| "as_str _ = None"

fun as_u64 :: "json \<Rightarrow> nat option" where
  "as_u64 (JInt i) = (if 0 \<le> i \<and> i < 2 ^ 64 then Some (nat i) else None)"
| "as_u64 _ = None"

fun as_array :: "json \<Rightarrow> json list option" where
  "as_array (JArr vs) = Some vs"
| "as_array _ = None"

fun as_object :: "json \<Rightarrow> jmap option" where
  "as_object (JObj m) = Some m"
| "as_object _ = None"

fun as_f64 :: "json \<Rightarrow> f64 option" where
  "as_f64 (JInt i) = Some (round64 (of_int i))"
| "as_f64 (JFloat f) = Some f"
| "as_f64 _ = None"

text \<open>\<open>Number::from_f64\<close>, and \<open>json!\<close> of a float.\<close>

definition from_f64 :: "f64 \<Rightarrow> json option" where
  "from_f64 f = (if is_finite f then Some (JFloat f) else None)"

definition json_f64 :: "f64 \<Rightarrow> json" where
  "json_f64 f = hdefault JNull (from_f64 f)"

text \<open>\<open>Map::remove\<close>: with \<open>preserve_order\<close> it is the \<open>swap_remove\<close> of the index map, which moves the last
  entry into the place of the one removed.\<close>

fun replace_first :: "string \<Rightarrow> string \<times> json \<Rightarrow> jmap \<Rightarrow> jmap" where
  "replace_first k e [] = []"
| "replace_first k e ((j, v) # m) = (if j = k then e # m else (j, v) # replace_first k e m)"

definition swap_remove :: "string \<Rightarrow> jmap \<Rightarrow> jmap" where
  "swap_remove k m =
     (if k \<notin> fst ` set m then m
      else if fst (last m) = k then butlast m
      else replace_first k (last m) (butlast m))"

section \<open>The text of a value\<close>

definition hex_lower :: "nat \<Rightarrow> char" where
  "hex_lower n = (if n < 10 then byte (48 + n) else byte (87 + n))"

definition json_escape :: "char \<Rightarrow> string" where
  "json_escape c =
     (if c = CHR 0x22 then [CHR 0x5C, CHR 0x22]
      else if c = CHR 0x5C then [CHR 0x5C, CHR 0x5C]
      else if c = CHR 0x08 then [CHR 0x5C, CHR ''b'']
      else if c = CHR 0x0C then [CHR 0x5C, CHR ''f'']
      else if c = CHR 0x0A then [CHR 0x5C, CHR ''n'']
      else if c = CHR 0x0D then [CHR 0x5C, CHR ''r'']
      else if c = CHR 0x09 then [CHR 0x5C, CHR ''t'']
      else if bval c < 32 then [CHR 0x5C, CHR ''u'', CHR ''0'', CHR ''0'', hex_lower (bval c div 16), hex_lower (bval c mod 16)]
      else [c])"

definition json_str :: "string \<Rightarrow> string" where
  "json_str s = CHR 0x22 # concat (map json_escape s) @ [CHR 0x22]"

fun json_text :: "(f64 \<Rightarrow> string) \<Rightarrow> json \<Rightarrow> string" where
  "json_text ryu JNull = ''null''"
| "json_text ryu (JBool b) = (if b then ''true'' else ''false'')"
| "json_text ryu (JInt i) = show_int i"
| "json_text ryu (JFloat f) = ryu f"
| "json_text ryu (JStr s) = json_str s"
| "json_text ryu (JArr vs) = ''['' @ join_with '','' (map (json_text ryu) vs) @ '']''"
| "json_text ryu (JObj m) = ''{'' @ join_with '','' (map (\<lambda>(k, v). json_str k @ '':'' @ json_text ryu v) m) @ ''}''"

section \<open>Lemmas\<close>

lemma replace_first_mem: "hwf (m @ [e]) \<Longrightarrow> k \<in> fst ` set m \<Longrightarrow>
    set (replace_first k e m) = {(j, v) \<in> set (m @ [e]). j \<noteq> k} \<and> hwf (replace_first k e m)"
proof (induction m)
  case (Cons a m)
  obtain j v where a: "a = (j, v)" by (cases a)
  show ?case
  proof (cases "j = k")
    case True
    with Cons.prems a show ?thesis by (auto simp: hwf_def image_iff)
  next
    case False
    with Cons a have IH: "set (replace_first k e m) = {(j, v) \<in> set (m @ [e]). j \<noteq> k}" "hwf (replace_first k e m)"
      by (auto simp: hwf_def)
    with Cons.prems a False show ?thesis by (auto simp: hwf_def image_iff)
  qed
qed simp

lemma swap_remove_snoc: "swap_remove k (m @ [e]) =
    (if fst e = k then m else if k \<in> fst ` set m then replace_first k e m else m @ [e])"
  by (auto simp: swap_remove_def)

lemma swap_remove_mem: "hwf m \<Longrightarrow> set (swap_remove k m) = {(j, v) \<in> set m. j \<noteq> k} \<and> hwf (swap_remove k m)"
proof (cases m rule: rev_cases)
  case (snoc m' e)
  assume "hwf m"
  with snoc have m: "hwf (m' @ [e])" and m': "hwf m'" "fst e \<notin> fst ` set m'" by (auto simp: hwf_def)
  show ?thesis
  proof (cases "fst e = k")
    case True
    with snoc m' show ?thesis by (auto simp: swap_remove_snoc image_iff)
  next
    case False
    show ?thesis
    proof (cases "k \<in> fst ` set m'")
      case True
      with snoc False replace_first_mem [OF m True] show ?thesis by (simp add: swap_remove_snoc)
    next
      case k: False
      then have "{(j, v) \<in> set (m' @ [e]). j \<noteq> k} = set (m' @ [e])" using False by (cases e) (auto simp: image_iff)
      with snoc False k m show ?thesis by (simp add: swap_remove_snoc)
    qed
  qed
qed (simp add: swap_remove_def)

lemma hget_swap_remove: "hwf m \<Longrightarrow> hget (swap_remove k m) j = (if j = k then None else hget m j)"
proof -
  assume m: "hwf m"
  note r = swap_remove_mem [OF m, of k]
  show ?thesis
  proof (cases "j = k")
    case True
    with r show ?thesis by (auto simp: hget_None_iff)
  next
    case False
    show ?thesis
    proof (cases "hget m j")
      case None
      then have "j \<notin> fst ` set m" by (simp add: hget_None_iff)
      with r have "j \<notin> fst ` set (swap_remove k m)" by auto
      with None False show ?thesis by (simp add: hget_None_iff [symmetric])
    next
      case (Some v)
      with m have "(j, v) \<in> set m" by (simp add: hget_Some_iff)
      with r False have "hget (swap_remove k m) j = Some v" by (simp add: hget_Some_iff)
      with Some False show ?thesis by simp
    qed
  qed
qed

section \<open>Texts tell scalars apart\<close>

text \<open>Texts, integers and finite floats: what a cell is as JSON.\<close>

fun scalar :: "json \<Rightarrow> bool" where
  "scalar (JStr s) = True"
| "scalar (JInt i) = True"
| "scalar (JFloat f) = is_finite f"
| "scalar _ = False"

text \<open>What the text of a finite float looks like (the \<^verbatim>\<open>ryu\<close> crate): a sign or a digit first, and a point or an
  exponent, so that it is no integer; different floats have different texts.\<close>

definition float_char :: "char \<Rightarrow> bool" where
  "float_char c \<longleftrightarrow> is_digit c \<or> c \<in> {CHR ''-'', CHR ''+'', CHR ''.'', CHR ''e''}"

definition float_text :: "string \<Rightarrow> bool" where
  "float_text s \<longleftrightarrow> s \<noteq> [] \<and> list_all float_char s \<and> (is_digit (hd s) \<or> hd s = CHR ''-'') \<and> (CHR ''.'' \<in> set s \<or> CHR ''e'' \<in> set s)"

definition ryu_ok :: "(f64 \<Rightarrow> string) \<Rightarrow> bool" where
  "ryu_ok ryu \<longleftrightarrow> inj_on ryu {f. is_finite f} \<and> (\<forall>f. is_finite f \<longrightarrow> float_text (ryu f))"

lemma bval_hex: "n < 16 \<Longrightarrow> bval (hex_lower n) = (if n < 10 then 48 + n else 87 + n)"
  by (simp add: hex_lower_def)

lemma nibbles: "bval c div 16 < 16" "bval c mod 16 < 16"
  by (simp_all add: bval_def less_mult_imp_div_less)

definition short_escapes :: "(char \<times> char) list" where
  "short_escapes = [(CHR 0x22, CHR 0x22), (CHR 0x5C, CHR 0x5C), (CHR 0x08, CHR ''b''), (CHR 0x0C, CHR ''f''), (CHR 0x0A, CHR ''n''),
     (CHR 0x0D, CHR ''r''), (CHR 0x09, CHR ''t'')]"

lemma escape_cases:
  obtains (plain) "json_escape c = [c]" "c \<noteq> CHR 0x5C"
  | (short) k where "json_escape c = [CHR 0x5C, k]" "map_of short_escapes c = Some k"
  | (long) "json_escape c = [CHR 0x5C, CHR ''u'', CHR ''0'', CHR ''0'', hex_lower (bval c div 16), hex_lower (bval c mod 16)]" "bval c < 32"
proof (cases "map_of short_escapes c")
  case None
  then have n: "c \<noteq> CHR 0x22" "c \<noteq> CHR 0x5C" "c \<noteq> CHR 0x08" "c \<noteq> CHR 0x0C" "c \<noteq> CHR 0x0A" "c \<noteq> CHR 0x0D" "c \<noteq> CHR 0x09"
    by (simp_all add: short_escapes_def split: if_splits)
  show ?thesis
  proof (cases "bval c < 32")
    case True
    with n have "json_escape c = [CHR 0x5C, CHR ''u'', CHR ''0'', CHR ''0'', hex_lower (bval c div 16), hex_lower (bval c mod 16)]"
      by (simp add: json_escape_def)
    then show ?thesis using True by (rule long)
  next
    case False
    with n have "json_escape c = [c]" by (simp add: json_escape_def)
    then show ?thesis using n(2) by (rule plain)
  qed
next
  case (Some k)
  then have "json_escape c = [CHR 0x5C, k]"
    by (simp add: short_escapes_def split: if_splits) (simp_all add: json_escape_def)
  then show ?thesis using Some by (rule short)
qed

lemma hex_lower_inj: "hex_lower m = hex_lower n \<Longrightarrow> m < 16 \<Longrightarrow> n < 16 \<Longrightarrow> m = n"
proof -
  assume "hex_lower m = hex_lower n" "m < 16" "n < 16"
  then have "(if m < 10 then 48 + m else 87 + m) = (if n < 10 then 48 + n else 87 + n)" by (metis bval_hex)
  with \<open>m < 16\<close> \<open>n < 16\<close> show "m = n" by (auto split: if_splits)
qed

lemma hex_pair_inj:
  assumes "hex_lower (bval c div 16) = hex_lower (bval d div 16)" "hex_lower (bval c mod 16) = hex_lower (bval d mod 16)"
  shows "c = d"
proof -
  from assms have "bval c div 16 = bval d div 16" "bval c mod 16 = bval d mod 16" using hex_lower_inj nibbles by blast+
  then have "bval c = bval d" by (metis mult_div_mod_eq)
  then show "c = d" by (metis byte_bval)
qed

lemma short_inj: "map_of short_escapes c = Some k \<Longrightarrow> map_of short_escapes d = Some k \<Longrightarrow> c = d"
  by (auto simp: short_escapes_def split: if_splits)

lemma short_not_u: "map_of short_escapes c \<noteq> Some CHR ''u''"
  by (auto simp: short_escapes_def)

lemma escape_append:
  assumes "json_escape c @ x = json_escape d @ y"
  shows "c = d \<and> x = y"
  using assms by (cases c rule: escape_cases; cases d rule: escape_cases) (auto simp: short_not_u dest: short_inj hex_pair_inj)

lemma escape_not_Nil [simp]: "json_escape c \<noteq> []"
  by (cases c rule: escape_cases) simp_all

lemma escape_inj: "concat (map json_escape s) = concat (map json_escape t) \<Longrightarrow> s = t"
proof (induction s arbitrary: t)
  case Nil
  then show ?case by (cases t) simp_all
next
  case (Cons c s)
  then obtain d t' where t: "t = d # t'" by (cases t) simp_all
  with Cons.prems escape_append [of c "concat (map json_escape s)" d "concat (map json_escape t')"] Cons.IH
  show ?case by simp
qed

lemma json_str_inj: "json_str s = json_str t \<longleftrightarrow> s = t"
  using escape_inj by (auto simp: json_str_def)

lemma show_int_chars: "list_all (\<lambda>c. is_digit c \<or> c = CHR ''-'') (show_int i)" "show_int i \<noteq> []"
  using show_nat_digits [of "nat i"] show_nat_digits [of "nat (- i)"] by (auto simp: show_int_def list_all_iff)

lemma int_no_float: "float_text s \<Longrightarrow> s \<noteq> show_int i"
  using show_int_chars(1) [of i] by (auto simp: float_text_def list_all_iff is_digit_def bval_def)

lemma number_head:
  assumes "ryu_ok ryu" "scalar v" "as_f64 v \<noteq> None"
  shows "\<exists>c cs. json_text ryu v = c # cs \<and> (is_digit c \<or> c = CHR ''-'')"
proof (cases v)
  case (JInt i)
  then show ?thesis using show_int_chars [of i] by (cases "show_int i") auto
next
  case (JFloat f)
  with assms show ?thesis by (cases "ryu f") (auto simp: ryu_ok_def float_text_def)
qed (use assms in auto)

lemma text_not_number: "ryu_ok ryu \<Longrightarrow> scalar v \<Longrightarrow> as_f64 v \<noteq> None \<Longrightarrow> json_text ryu v \<noteq> json_str s"
  using number_head [of ryu v] by (auto simp: json_str_def is_digit_def bval_def)

lemma json_text_inj:
  assumes "ryu_ok ryu" "scalar v" "scalar w" "json_text ryu v = json_text ryu w"
  shows "v = w"
proof (cases v)
  case (JStr s)
  with assms text_not_number [of ryu w s] show ?thesis by (cases w) (auto simp: json_str_inj)
next
  case (JInt i)
  with assms text_not_number [of ryu v] int_no_float [of _ i] show ?thesis
    by (cases w) (auto simp: show_int_inj ryu_ok_def)
next
  case (JFloat f)
  with assms text_not_number [of ryu v] int_no_float [of "ryu f"] show ?thesis
    by (cases w) (auto simp: ryu_ok_def inj_on_def)
qed (use assms in auto)

lemma json_text_no_separator: "ryu_ok ryu \<Longrightarrow> scalar v \<Longrightarrow> CHR 0x1F \<notin> set (json_text ryu v)"
proof (cases v)
  case (JStr s)
  have "32 \<le> bval e" if "e \<in> set (json_escape c)" for c e
    using that nibbles [of c] by (auto simp: json_escape_def bval_hex split: if_splits) (auto simp: bval_def)
  then have "CHR 0x1F \<notin> set (json_escape c)" for c by (force simp: bval_def)
  with JStr show ?thesis by (auto simp: json_str_def)
next
  case (JInt i)
  then show ?thesis using show_int_chars(1) [of i] by (auto simp: list_all_iff is_digit_def bval_def)
next
  case (JFloat f)
  assume "ryu_ok ryu" "scalar v"
  with JFloat have "list_all float_char (ryu f)" by (auto simp: ryu_ok_def float_text_def)
  with JFloat show ?thesis by (auto simp: list_all_iff float_char_def is_digit_def bval_def)
qed auto

end
