(* ===== verification/Table_Search.thy ===== *)
theory Table_Search
  imports Table_Life Top_K Expression Json
begin

text \<open>
  \<^verbatim>\<open>src/core/storage/table.rs\<close>, queries: \<open>search\<close> with the row-level security filter, the choice of
  an index, the aggregations, the ordered and the plain page, and \<open>probe_fetch_rows\<close>.

  The parallel sums of floating-point numbers (more than 500 rows) are taken in the order of the
  sequential ones.
\<close>

record order_by =
  ob_field :: string
  ob_direction :: sort_direction

record auth_context =
  ac_user_id :: string
  ac_token :: string
  ac_entity :: string
  ac_filter_col :: string

record aggregation_result =
  ar_headers :: "string list"
  ar_rows :: "string list list"
  ar_summary :: "f64 option"

record query_result =
  q_headers :: "string list"
  q_rows :: "string list list"
  q_row_ids :: "location list option"
  q_total_found :: nat
  q_aggregations :: "aggregation_result list option"

definition str_param :: "json \<Rightarrow> string \<Rightarrow> string option" where
  "str_param params k = Option.bind (json_get params k) as_str"

definition bitmap_ids :: "bitmap \<Rightarrow> u32 list" where
  "bitmap_ids b = sorted_list_of_set b"

definition match_ids :: "segment_matches \<Rightarrow> location list" where
  "match_ids ms = concat (map (\<lambda>(s, b). map (Pair s) (bitmap_ids b)) ms)"

section \<open>The filters\<close>

definition rls_filter :: "auth_context \<Rightarrow> filter_t" where
  "rls_filter ctx = \<lparr>f_field = ac_filter_col ctx, f_op = Eq, f_value = ac_user_id ctx, f_value_to = None,
     f_type = None, f_options = []\<rparr>"

definition inject_rls :: "'c env \<Rightarrow> string \<Rightarrow> auth_context option \<Rightarrow> filter_t list \<Rightarrow> logical_op \<Rightarrow> filter_t list \<times> logical_op" where
  "inject_rls E nm auth fs op = (case auth of
     None \<Rightarrow> (fs, op)
   | Some ctx \<Rightarrow> if nm \<noteq> e_auth_table E \<and> nm \<noteq> ''Users'' \<and> nm \<noteq> ''users''
       then (fs @ [rls_filter ctx], And) else (fs, op))"

definition normalize_filter :: "'c env \<Rightarrow> 'c table \<Rightarrow> filter_t \<Rightarrow> filter_t" where
  "normalize_filter E t f = (let nfc = nfc (e_ext E) in
     if field_is_pk_column t (f_field f)
     then f\<lparr>f_value := nfc (f_value f), f_value_to := map_option nfc (f_value_to f), f_options := map nfc (f_options f)\<rparr>
     else f)"

definition distinct_fields :: "filter_t list \<Rightarrow> string list" where
  "distinct_fields vf = fold (\<lambda>f acc. if f_field f \<in> set acc then acc else acc @ [f_field f]) vf []"

definition candidate_matches_filters :: "'c env \<Rightarrow> location \<Rightarrow> filter_t list \<Rightarrow> logical_op \<Rightarrow> 'c table \<Rightarrow>
    table_error + bool \<times> 'c table" where
  "candidate_matches_filters E candidate fs op t =
     (let vf = valid_filters fs; flds = distinct_fields vf in
      if vf = [] then Inr (True, t)
      else rbind (get_rows_batch flds [candidate] t) (\<lambda>(rows, t).
        case rows of
          [] \<Rightarrow> Inr (False, t)
        | r # _ \<Rightarrow>
            let holds = (\<lambda>f. filter_holds (e_ext E) f (hdefault [] (map_of (zip flds r) (f_field f)))) in
            Inr (case op of And \<Rightarrow> list_all holds vf | Or \<Rightarrow> list_ex holds vf, t)))"

section \<open>Which rows\<close>

definition candidate_match :: "'c env \<Rightarrow> location option \<Rightarrow> filter_t list \<Rightarrow> logical_op \<Rightarrow> 'c table \<Rightarrow>
    table_error + segment_matches \<times> 'c table" where
  "candidate_match E loc fs op t = (case loc of
     None \<Rightarrow> Inr ([], t)
   | Some (seg_id, local_id) \<Rightarrow>
       rbind (candidate_matches_filters E (seg_id, local_id) fs op t) (\<lambda>(ok, t).
         Inr (if ok then [(seg_id, {local_id})] else [], t)))"

text \<open>Exact matches, intersected with a scan for the filters they do not answer.\<close>

definition exact_then_scan :: "'c env \<Rightarrow> string \<Rightarrow> (filter_t \<Rightarrow> bool) \<Rightarrow> filter_t list \<Rightarrow> logical_op \<Rightarrow> 'c table \<Rightarrow>
    table_error + segment_matches \<times> 'c table" where
  "exact_then_scan E pk_field remains fs op t =
     rbind (exact_matches_for_eq_filters E fs pk_field t) (\<lambda>(exact, t). case exact of
       None \<Rightarrow> scan_segments_parallel E fs op t
     | Some exact_matches \<Rightarrow>
         let remaining_filters = filter remains fs in
         if remaining_filters = [] then Inr (exact_matches, t)
         else rbind (scan_segments_parallel E remaining_filters And t) (\<lambda>(scanned, t).
           Inr (intersect_segment_matches exact_matches scanned, t)))"

fun any_candidate :: "'c env \<Rightarrow> u64 \<Rightarrow> u32 list \<Rightarrow> filter_t list \<Rightarrow> logical_op \<Rightarrow> 'c table \<Rightarrow> table_error + bool \<times> 'c table" where
  "any_candidate E seg_id [] fs op t = Inr (False, t)"
| "any_candidate E seg_id (l # ls) fs op t =
     rbind (candidate_matches_filters E (seg_id, l) fs op t) (\<lambda>(ok, t).
       if ok then Inr (True, t) else any_candidate E seg_id ls fs op t)"

fun retain_matches :: "'c env \<Rightarrow> segment_matches \<Rightarrow> filter_t list \<Rightarrow> logical_op \<Rightarrow> 'c table \<Rightarrow>
    table_error + segment_matches \<times> 'c table" where
  "retain_matches E [] fs op t = Inr ([], t)"
| "retain_matches E ((s, b) # ms) fs op t =
     rbind (any_candidate E s (bitmap_ids b) fs op t) (\<lambda>(ok, t).
     rbind (retain_matches E ms fs op t) (\<lambda>(r, t). Inr (if ok then (s, b) # r else r, t)))"

definition pk_in_matches :: "'c env \<Rightarrow> filter_t \<Rightarrow> filter_t list \<Rightarrow> logical_op \<Rightarrow> 'c table \<Rightarrow>
    table_error + segment_matches \<times> 'c table" where
  "pk_in_matches E f fs op t =
     (let by_seg = fold (\<lambda>v m. case pi_get (e_ext E) (t_primary_index t) v of
            None \<Rightarrow> m
          | Some (seg_id, local_id) \<Rightarrow> hput seg_id (hdefault {} (hget m seg_id) \<union> {local_id}) m)
          (list_values (f_value f) (f_options f)) [];
          matches = filter (\<lambda>(_, b). b \<noteq> {}) by_seg in
      if 1 < length fs then retain_matches E matches fs op t else Inr (matches, t))"

definition search_matches :: "'c env \<Rightarrow> filter_t list \<Rightarrow> logical_op \<Rightarrow> 'c table \<Rightarrow> table_error + segment_matches \<times> 'c table" where
  "search_matches E fs op t =
     (let cols = pk_columns t; pk_field = (case cols of [] \<Rightarrow> ''PK'' | c # _ \<Rightarrow> c);
          composite = composite_pk_from_eq_filters (e_ext E) cols fs;
          pk_filter = (if composite = None \<and> length cols = 1
            then find (\<lambda>f. f_field f = pk_field \<and> f_op f = Eq) fs else None);
          pk_in_filter = (if length cols = 1 then find (\<lambda>f. f_field f = pk_field \<and> f_op f = In) fs else None);
          get = pi_get (e_ext E) (t_primary_index t) in
      case composite of
        Some pk \<Rightarrow> candidate_match E (get pk) fs op t
      | None \<Rightarrow>
          (case pk_filter of
             Some f \<Rightarrow>
               if length fs = 1 then candidate_match E (get (f_value f)) fs op t
               else if op = And then
                 exact_then_scan E pk_field
                   (\<lambda>g. (\<not> field_is_pk_column t (f_field g) \<or> f_op g \<noteq> Eq) \<and> f_op g \<noteq> In) fs op t
               else scan_segments_parallel E fs op t
           | None \<Rightarrow>
               (case pk_in_filter of
                  Some f \<Rightarrow> if length fs = 1 \<or> op = And then pk_in_matches E f fs op t
                    else scan_segments_parallel E fs op t
                | None \<Rightarrow>
                    if op = And then
                      exact_then_scan E pk_field
                        (\<lambda>g. \<not> (f_op g = Eq \<and> f_field g \<noteq> pk_field) \<and> f_op g \<noteq> In) fs op t
                    else scan_segments_parallel E fs op t)))"

definition probe_fetch_rows :: "'c env \<Rightarrow> string list \<Rightarrow> filter_t list \<Rightarrow> 'c table \<Rightarrow>
    table_error + string list list option \<times> 'c table" where
  "probe_fetch_rows E flds fs t =
     (if fs = [] then Inr (None, t)
      else let pk_field = (case pk_columns t of [] \<Rightarrow> ''PK'' | c # _ \<Rightarrow> c) in
        rbind (exact_matches_for_eq_filters E fs pk_field t) (\<lambda>(exact, t). case exact of
          None \<Rightarrow> Inr (None, t)
        | Some exact_matches \<Rightarrow>
            let remaining_filters = filter (\<lambda>f. f_op f \<noteq> Eq \<and> f_op f \<noteq> In) fs in
            rbind (if remaining_filters = [] then Inr (exact_matches, t)
              else rbind (scan_segments_parallel E remaining_filters And t) (\<lambda>(scanned, t).
                Inr (intersect_segment_matches exact_matches scanned, t))) (\<lambda>(segment_matches, t).
            let ids = match_ids segment_matches in
            if ids = [] then Inr (Some [], t)
            else rbind (get_rows_batch flds ids t) (\<lambda>(rows, t). Inr (Some rows, t)))))"

section \<open>Maps of one segment\<close>

definition find_segment :: "'c table \<Rightarrow> u64 \<Rightarrow> (files \<times> segment) option" where
  "find_segment t i =
     (let imm = map_option (\<lambda>s. (s_dir s, s)) (find (\<lambda>s. s_id s = i) (t_immutable t)) in
      case t_active t of
        Some w \<Rightarrow> if s_id (w_segment w) = i then Some (writer_dir w, w_segment w) else imm
      | None \<Rightarrow> imm)"

definition put_segment :: "u64 \<Rightarrow> segment \<Rightarrow> 'c table \<Rightarrow> 'c table" where
  "put_segment i s t =
     (let imm = t\<lparr>t_immutable := update_first (\<lambda>s'. s_id s' = i) (\<lambda>_. s) (t_immutable t)\<rparr> in
      case t_active t of
        Some w \<Rightarrow> if s_id (w_segment w) = i then t\<lparr>t_active := Some (w\<lparr>w_segment := s\<rparr>)\<rparr> else imm
      | None \<Rightarrow> imm)"

definition fetch_pair :: "u64 \<Rightarrow> string \<Rightarrow> 'c table \<Rightarrow> mmap_pair option \<times> 'c table" where
  "fetch_pair i field t = (case find_segment t i of
     None \<Rightarrow> (None, t)
   | Some (dir, s) \<Rightarrow> (case get_mmap_pair dir s field of
       Inl _ \<Rightarrow> (None, t) | Inr (p, s) \<Rightarrow> (Some p, put_segment i s t)))"

fun fetch_pairs :: "u64 \<Rightarrow> string list \<Rightarrow> 'c table \<Rightarrow> mmap_pair option list \<times> 'c table" where
  "fetch_pairs i [] t = ([], t)"
| "fetch_pairs i (f # fs) t =
     (let (p, t) = fetch_pair i f t; (ps, t) = fetch_pairs i fs t in (p # ps, t))"

section \<open>Aggregations\<close>

definition seg_counts :: "'c env \<Rightarrow> 'c table \<Rightarrow> string \<Rightarrow> u64 \<times> bitmap \<Rightarrow> table_error + (string, nat) hmap" where
  "seg_counts E t field sb =
     (let imm = (case find (\<lambda>s. s_id s = fst sb) (t_immutable t) of
            None \<Rightarrow> Inl Panic
          | Some s \<Rightarrow> map_err SegErr (get_counts_thread_safe (e_seg E) s field (snd sb))) in
      case t_active t of
        Some w \<Rightarrow> if s_id (w_segment w) = fst sb then Inr (writer_get_counts w field (snd sb)) else imm
      | None \<Rightarrow> imm)"

definition add_counts :: "(string, nat) hmap \<Rightarrow> (string, nat) hmap \<Rightarrow> (string, nat) hmap" where
  "add_counts counts acc = fold (\<lambda>(v, n) acc. hput v (hdefault 0 (hget acc v) + n) acc) counts acc"

definition top_cmp :: "string \<times> nat \<Rightarrow> string \<times> nat \<Rightarrow> ordering" where
  "top_cmp a b = then_ord (cmp_ord (snd b) (snd a)) (cmp_ord (fst a) (fst b))"

definition group_cmp :: "sort_direction \<Rightarrow> string \<times> nat \<Rightarrow> string \<times> nat \<Rightarrow> ordering" where
  "group_cmp dir a b = directed dir (cmp_ord (fst a) (fst b))"

definition sort_groups :: "string \<Rightarrow> json \<Rightarrow> order_by list \<Rightarrow> (string \<times> nat) list \<Rightarrow> (string \<times> nat) list" where
  "sort_groups agg_type params ob results =
     (if agg_type = ''TopN''
      then take (hdefault 10 (Option.bind (json_get params ''n'') as_u64)) (sort_cmp top_cmp results)
      else let field = hdefault ''?'' (str_param params ''field'');
               direction = (case find (\<lambda>o'. ob_field o' = field) ob of None \<Rightarrow> Asc | Some o' \<Rightarrow> ob_direction o') in
        sort_cmp (group_cmp direction) results)"

definition group_aggregation :: "'c env \<Rightarrow> string \<Rightarrow> json \<Rightarrow> order_by list \<Rightarrow> segment_matches \<Rightarrow> 'c table \<Rightarrow>
    table_error + aggregation_result" where
  "group_aggregation E agg_type params ob ms t =
     (let field = hdefault ''?'' (str_param params ''field'') in
      rbind (fold_r (\<lambda>sb acc. rbind (seg_counts E t field sb) (\<lambda>c. Inr (add_counts c acc))) ms []) (\<lambda>global_counts.
        let results = sort_groups agg_type params ob global_counts in
        Inr \<lparr>ar_headers = [field, ''count''], ar_rows = map (\<lambda>(v, c). [v, show_nat c]) results,
             ar_summary = Some (round64 (of_nat (sum_list (map snd results))))\<rparr>))"

definition numbers_context :: "string list \<Rightarrow> f64 list \<Rightarrow> string \<Rightarrow> f64 option" where
  "numbers_context flds nums = hget (fold (\<lambda>(f, v). hput f v) (zip flds nums) [])"

definition position :: "string \<Rightarrow> string list \<Rightarrow> nat option" where
  "position f fs = (case filter (\<lambda>i. fs ! i = f) [0 ..< length fs] of [] \<Rightarrow> None | i # _ \<Rightarrow> Some i)"

text \<open>The value of one row: a plain field is read directly.\<close>

definition row_value :: "expr \<Rightarrow> string list \<Rightarrow> mmap_pair option list \<Rightarrow> u32 \<Rightarrow> f64 sliced" where
  "row_value e required mmaps i = (case e of
     Field f \<Rightarrow> (case position f required of
         None \<Rightarrow> Sliced (Fin 0)
       | Some idx \<Rightarrow> (case get_row_numbers_from_mmaps i [mmaps ! idx] of
           Panicked \<Rightarrow> Panicked | Sliced ns \<Rightarrow> Sliced (if ns = [] then Fin 0 else last ns)))
   | _ \<Rightarrow> (case get_row_numbers_from_mmaps i mmaps of
       Panicked \<Rightarrow> Panicked | Sliced ns \<Rightarrow> Sliced (evaluate e (numbers_context required ns))))"

definition group_value :: "mmap_pair option \<Rightarrow> u32 \<Rightarrow> string sliced" where
  "group_value group_mmap i = (case group_mmap of
     None \<Rightarrow> Sliced ''Unknown''
   | Some m \<Rightarrow> (case get_row_values_from_mmaps i [Some m] of
       Panicked \<Rightarrow> Panicked | Sliced vs \<Rightarrow> Sliced (if vs = [] then ''Unknown'' else last vs)))"

fun sum_rows_grouped :: "(u32 \<Rightarrow> string sliced) \<Rightarrow> (u32 \<Rightarrow> f64 sliced) \<Rightarrow> u32 list \<Rightarrow> (string, f64) hmap \<Rightarrow>
    table_error + (string, f64) hmap" where
  "sum_rows_grouped gv rv [] m = Inr m"
| "sum_rows_grouped gv rv (i # is) m = (case (gv i, rv i) of
     (Sliced g, Sliced v) \<Rightarrow> sum_rows_grouped gv rv is (hput g (f64_add (hdefault (Fin 0) (hget m g)) v) m)
   | _ \<Rightarrow> Inl Panic)"

definition process_seg_sum_grouped :: "string \<Rightarrow> string list \<Rightarrow> expr \<Rightarrow> u64 \<times> bitmap \<Rightarrow> 'c table \<Rightarrow>
    table_error + (string, f64) hmap \<times> 'c table" where
  "process_seg_sum_grouped field_name required e sb t =
     (if find_segment t (fst sb) = None then Inr ([], t)
      else let (group_mmap, t) = fetch_pair (fst sb) field_name t; (mmaps, t) = fetch_pairs (fst sb) required t in
        rbind (sum_rows_grouped (group_value group_mmap) (row_value e required mmaps) (bitmap_ids (snd sb)) []) (\<lambda>m.
          Inr (m, t)))"

fun sum_rows :: "(u32 \<Rightarrow> f64 list sliced) \<Rightarrow> expr \<Rightarrow> string list \<Rightarrow> u32 list \<Rightarrow> f64 \<Rightarrow> table_error + f64" where
  "sum_rows nums e required [] acc = Inr acc"
| "sum_rows nums e required (i # is) acc = (case nums i of
     Panicked \<Rightarrow> Inl Panic
   | Sliced ns \<Rightarrow> sum_rows nums e required is (f64_add acc (evaluate e (numbers_context required ns))))"

definition process_seg_sum_global :: "string list \<Rightarrow> expr \<Rightarrow> u64 \<times> bitmap \<Rightarrow> 'c table \<Rightarrow> table_error + f64 \<times> 'c table" where
  "process_seg_sum_global required e sb t =
     (if find_segment t (fst sb) = None then Inr (Fin 0, t)
      else let (mmaps, t) = fetch_pairs (fst sb) required t in
        rbind (sum_rows (\<lambda>i. get_row_numbers_from_mmaps i mmaps) e required (bitmap_ids (snd sb)) (Fin 0)) (\<lambda>s.
          Inr (s, t)))"

fun map_state :: "('a \<Rightarrow> 's \<Rightarrow> 'e + 'b \<times> 's) \<Rightarrow> 'a list \<Rightarrow> 's \<Rightarrow> 'e + 'b list \<times> 's" where
  "map_state f [] s = Inr ([], s)"
| "map_state f (x # xs) s = rbind (f x s) (\<lambda>(y, s). rbind (map_state f xs s) (\<lambda>(ys, s). Inr (y # ys, s)))"

text \<open>The group column and the expression, from the parameters; a \<open>field\<close> of \<open>?\<close> is none.\<close>

definition sum_params :: "json \<Rightarrow> string option \<times> string" where
  "sum_params params =
     (let field_val = Option.bind (str_param params ''field'') (\<lambda>s. if s \<noteq> ''?'' then Some s else None) in
      case (str_param params ''group_by'', field_val, str_param params ''expression'') of
        (Some gb, Some f, None) \<Rightarrow> (Some gb, f)
      | (Some gb, _, Some e) \<Rightarrow> (Some gb, e)
      | (None, Some f, Some e) \<Rightarrow> (Some f, e)
      | (None, Some f, None) \<Rightarrow> (Some f, ''0'')
      | (None, None, Some e) \<Rightarrow> (None, e)
      | _ \<Rightarrow> (None, ''0''))"

definition sum_cmp :: "string \<times> f64 \<Rightarrow> string \<times> f64 \<Rightarrow> ordering" where
  "sum_cmp a b = hdefault Equal (partial_cmp (snd b) (snd a))"

definition merge_sums :: "(string, f64) hmap list \<Rightarrow> (string, f64) hmap \<times> f64" where
  "merge_sums maps = fold (\<lambda>seg_map st. fold (\<lambda>(k, v) (m, total).
     (hput k (f64_add (hdefault (Fin 0) (hget m k)) v) m, f64_add total v)) seg_map st) maps ([], Fin 0)"

definition sum_aggregation :: "'c env \<Rightarrow> json \<Rightarrow> segment_matches \<Rightarrow> 'c table \<Rightarrow> table_error + aggregation_result \<times> 'c table" where
  "sum_aggregation E params ms t =
     (let (field_name_opt, expression_str) = sum_params params in
      case parse_expression expression_str of
        Inl _ \<Rightarrow> Inr (\<lparr>ar_headers = [''error''], ar_rows = [[''Invalid expression'']], ar_summary = None\<rparr>, t)
      | Inr e \<Rightarrow> let required = extract_fields e in
          (case field_name_opt of
             Some field_name \<Rightarrow>
               rbind (map_state (process_seg_sum_grouped field_name required e) ms t) (\<lambda>(maps, t).
                 let (group_sums, total) = merge_sums maps;
                     results = sort_cmp sum_cmp group_sums;
                     header_sum = (if e_word E expression_str then expression_str @ ''_sum'' else ''sum'') in
                 Inr (\<lparr>ar_headers = [field_name, header_sum], ar_rows = map (\<lambda>(v, s). [v, show_fixed 2 s]) results,
                       ar_summary = Some total\<rparr>, t))
           | None \<Rightarrow>
               rbind (map_state (process_seg_sum_global required e) ms t) (\<lambda>(seg_sums, t).
                 Inr (\<lparr>ar_headers = [], ar_rows = [], ar_summary = Some (f64_sum seg_sums)\<rparr>, t))))"

definition aggregation :: "'c env \<Rightarrow> order_by list \<Rightarrow> segment_matches \<Rightarrow> nat \<Rightarrow> json \<Rightarrow> 'c table \<Rightarrow>
    table_error + aggregation_result \<times> 'c table" where
  "aggregation E ob ms total_found agg t =
     (let none = \<lparr>ar_headers = [], ar_rows = [], ar_summary = None\<rparr> in
      case agg of
        JObj [] \<Rightarrow> Inl Panic
      | JObj ((agg_type, params) # _) \<Rightarrow>
          if agg_type = ''Count'' then Inr (none\<lparr>ar_summary := Some (round64 (of_nat total_found))\<rparr>, t)
          else if agg_type = ''GroupBy'' \<or> agg_type = ''TopN''
            then rbind (group_aggregation E agg_type params ob ms t) (\<lambda>r. Inr (r, t))
          else if agg_type = ''Sum'' then sum_aggregation E params ms t
          else Inr (none, t)
      | _ \<Rightarrow> Inr (none, t))"

section \<open>Which page\<close>

text \<open>The sort key of a row; unlike \<open>cell_bytes\<close> this reads the cell without a bounds check.\<close>

definition sort_key_at :: "mmap_pair option \<Rightarrow> u32 \<Rightarrow> sort_key sliced" where
  "sort_key_at mp local_id = (case mp of
     None \<Rightarrow> Sliced KNone
   | Some (dat, off) \<Rightarrow>
       let start_idx = 8 * unat local_id in
       if start_idx + 8 \<le> length off then
         let start_pos = unat (from_le64 (slice off start_idx (start_idx + 8))) in
         if wrap64 (start_pos + 8) \<le> length dat then
           (case slice_checked dat start_pos (wrap64 (start_pos + 8)) of
              Panicked \<Rightarrow> Panicked
            | Sliced lb \<Rightarrow>
                (case slice_checked dat (start_pos + 8) (wrap64 (start_pos + 8 + unat (from_le64 lb))) of
                   Panicked \<Rightarrow> Panicked
                 | Sliced bs \<Rightarrow> Sliced (case from_utf8 bs of
                     None \<Rightarrow> KNone
                   | Some s \<Rightarrow> if s \<noteq> [] \<and> is_digit (hd s)
                       then (case parse_f64 s of Some n \<Rightarrow> KNum n | None \<Rightarrow> KStr s) else KStr s)))
         else Sliced KNone
       else Sliced KNone)"

definition sort_item :: "(u64 \<Rightarrow> mmap_pair option) \<Rightarrow> location \<Rightarrow> heap_item sliced" where
  "sort_item refs loc = (case sort_key_at (refs (fst loc)) (snd loc) of
     Panicked \<Rightarrow> Panicked | Sliced k \<Rightarrow> Sliced \<lparr>hi_key = k, hi_seg_id = fst loc, hi_local_id = snd loc\<rparr>)"

definition sort_refs :: "string \<Rightarrow> segment_matches \<Rightarrow> 'c table \<Rightarrow> (u64, mmap_pair) hmap \<times> 'c table" where
  "sort_refs field ms t = fold (\<lambda>(s, _) (refs, t). case fetch_pair s field t of
     (Some p, t) \<Rightarrow> (hput s p refs, t) | (None, t) \<Rightarrow> (refs, t)) ms ([], t)"

definition ordered_page :: "'c env \<Rightarrow> order_by \<Rightarrow> nat \<Rightarrow> nat \<Rightarrow> segment_matches \<Rightarrow> 'c table \<Rightarrow>
    table_error + location list \<times> 'c table" where
  "ordered_page E ob limit offset ms t =
     (let effective_limit = offset + (if limit = 0 then 100 else limit);
          (refs, t) = sort_refs (ob_field ob) ms t;
          jobs = map concat (e_jobs E (chunks 4096 (match_ids ms))) in
      case sliced_list (map (\<lambda>job. sliced_list (map (sort_item (hget refs)) job)) jobs) of
        Panicked \<Rightarrow> Inl Panic
      | Sliced items \<Rightarrow>
          Inr (map (\<lambda>item. (hi_seg_id item, hi_local_id item)) (drop offset (topk (ob_direction ob) effective_limit items)), t))"

text \<open>The loops of the plain page; the flag is the \<open>break 'collect\<close>.\<close>

fun page_bitmap :: "nat \<Rightarrow> nat \<Rightarrow> u64 \<Rightarrow> u32 list \<Rightarrow> nat \<times> location list \<Rightarrow> (nat \<times> location list) \<times> bool" where
  "page_bitmap limit offset s [] st = (st, False)"
| "page_bitmap limit offset s (i # is) (skipped, final_ids) =
     (if skipped < offset then page_bitmap limit offset s is (skipped + 1, final_ids)
      else let final_ids = final_ids @ [(s, i)] in
        if limit \<le> length final_ids then ((skipped, final_ids), True)
        else page_bitmap limit offset s is (skipped, final_ids))"

fun page_matches :: "nat \<Rightarrow> nat \<Rightarrow> segment_matches \<Rightarrow> nat \<times> location list \<Rightarrow> location list" where
  "page_matches limit offset [] st = snd st"
| "page_matches limit offset ((s, b) # ms) st =
     (case page_bitmap limit offset s (bitmap_ids b) st of
        (st, True) \<Rightarrow> snd st | (st, False) \<Rightarrow> page_matches limit offset ms st)"

section \<open>The query\<close>

definition table_search :: "'c env \<Rightarrow> string list \<Rightarrow> filter_t list \<Rightarrow> logical_op \<Rightarrow> json list \<Rightarrow> order_by list \<Rightarrow> nat \<Rightarrow> nat \<Rightarrow>
    auth_context option \<Rightarrow> 'c table \<Rightarrow> table_error + query_result \<times> 'c table" where
  "table_search E flds filters filters_op aggs ob limit offset auth t =
     (let limit = min limit 10000;
          (fs, op) = inject_rls E (t_name t) auth filters filters_op;
          fs = map (normalize_filter E t) fs in
      rbind (search_matches E fs op t) (\<lambda>(ms, t).
      let total_found = sum_list (map (card \<circ> snd) ms) in
      rbind (map_state (aggregation E ob ms total_found) aggs t) (\<lambda>(agg_results, t).
      let result = \<lparr>q_headers = flds, q_rows = [], q_row_ids = None, q_total_found = total_found,
            q_aggregations = (if agg_results = [] then None else Some agg_results)\<rparr> in
      if aggs \<noteq> [] \<and> flds = [] then Inr (result, t)
      else if limit = 0 then Inr (result, t)
      else rbind (case ob of
            o' # _ \<Rightarrow> ordered_page E o' limit offset ms t
          | [] \<Rightarrow> Inr (page_matches limit offset ms (0, []), t)) (\<lambda>(final_ids, t).
        rbind (get_rows_batch flds final_ids t) (\<lambda>(rows, t).
          Inr (result\<lparr>q_rows := (if 1000 < length rows then [] else rows), q_row_ids := Some final_ids\<rparr>, t))))))"

end
