(* ===== verification/Table_Query.thy ===== *)
theory Table_Query
  imports Table_Search Table_Store
begin

text \<open>
  What the queries of \<^verbatim>\<open>src/core/storage/table.rs\<close> return: the page of rows, the intersection of
  matches, the counts of a group, and the rows read in a batch. The definitions are those of
  \<open>Table_Index\<close> and \<open>Table_Search\<close>.
\<close>

section \<open>The plain page\<close>

lemma page_bitmap_run:
  assumes "length acc < limit" "skipped \<le> offset" "acc \<noteq> [] \<longrightarrow> skipped = offset"
  shows "let all = acc @ drop (offset - skipped) (map (Pair s) is) in
    page_bitmap limit offset s is (skipped, acc) =
      (if limit \<le> length all then ((min offset (skipped + length is), take limit all), True)
       else ((min offset (skipped + length is), all), False))"
  using assms
proof (induction "is" arbitrary: skipped acc)
  case (Cons i ids)
  show ?case
  proof (cases "skipped < offset")
    case True
    with Cons.prems have a: "acc = []" by auto
    have d: "drop (offset - skipped) (map (Pair s) (i # ids)) = drop (offset - Suc skipped) (map (Pair s) ids)"
      using True by (simp add: Suc_diff_Suc [symmetric])
    show ?thesis unfolding d using Cons.IH [of acc "Suc skipped"] Cons.prems True a by (simp add: Let_def)
  next
    case False
    with Cons.prems have o: "skipped = offset" by simp
    show ?thesis
    proof (cases "limit \<le> length (acc @ [(s, i)])")
      case True
      with Cons.prems(1) have "limit - length acc = 1" by simp
      with True Cons.prems o show ?thesis by (simp add: Let_def)
    next
      case False
      with Cons.IH [of "acc @ [(s, i)]" offset] Cons.prems o show ?thesis by (simp add: Let_def)
    qed
  qed
qed (simp add: Let_def)

lemma page_matches_run:
  assumes "length acc < limit" "skipped \<le> offset" "acc \<noteq> [] \<longrightarrow> skipped = offset"
  shows "page_matches limit offset ms (skipped, acc) = take limit (acc @ drop (offset - skipped) (match_ids ms))"
  using assms
proof (induction ms arbitrary: skipped acc)
  case (Cons m ms)
  obtain s b where m: "m = (s, b)" by (cases m)
  let ?ids = "map (Pair s) (bitmap_ids b)" and ?all = "acc @ drop (offset - skipped) (map (Pair s) (bitmap_ids b))"
  have r: "page_bitmap limit offset s (bitmap_ids b) (skipped, acc) =
      (if limit \<le> length ?all then ((min offset (skipped + length (bitmap_ids b)), take limit ?all), True)
       else ((min offset (skipped + length (bitmap_ids b)), ?all), False))"
    using page_bitmap_run [OF Cons.prems, of s "bitmap_ids b"] by (simp add: Let_def)
  have ids: "match_ids (m # ms) = ?ids @ match_ids ms" by (simp add: match_ids_def m)
  show ?case
  proof (cases "limit \<le> length ?all")
    case True
    then have "take limit (acc @ drop (offset - skipped) (?ids @ match_ids ms)) = take limit ?all" by simp
    with True r ids show ?thesis by (simp add: m)
  next
    case False
    let ?sk = "min offset (skipped + length (bitmap_ids b))"
    have "offset - ?sk = offset - skipped - length ?ids" by simp
    with False r ids Cons.IH [of ?all ?sk] Cons.prems show ?thesis by (auto simp: m)
  qed
qed (simp add: match_ids_def)

section \<open>Intersections\<close>

definition matched :: "segment_matches \<Rightarrow> location set" where
  "matched ms = {(s, l). \<exists>b. (s, b) \<in> set ms \<and> l \<in> b}"

lemma fold_put_get: "distinct (map fst ms) \<Longrightarrow> hget (fold (\<lambda>(s, b). hput s b) ms m) s = (case map_of ms s of Some b \<Rightarrow> Some b | None \<Rightarrow> hget m s)"
proof (induction ms arbitrary: m)
  case (Cons a ms)
  then have "map_of ms (fst a) = None" by (simp add: map_of_eq_None_iff)
  with Cons show ?case by (cases a) (auto split: option.splits)
qed simp

lemma intersect_matched:
  assumes "distinct (map fst right)"
  shows "matched (intersect_segment_matches left right) = matched left \<inter> matched right"
proof -
  let ?m = "fold (\<lambda>(s, b). hput s b) right []"
  have "hget ?m s = map_of right s" for s
    using fold_put_get [OF assms, of "[]" s] by (simp split: option.splits)
  then have g: "hget ?m s = Some b \<longleftrightarrow> (s, b) \<in> set right" for s b using map_of_eq_Some_iff [OF assms] by simp
  have "(s, c) \<in> set (intersect_segment_matches left right) \<longleftrightarrow>
      (\<exists>lb rb. (s, lb) \<in> set left \<and> (s, rb) \<in> set right \<and> c = lb \<inter> rb \<and> c \<noteq> {})" for s c
  proof -
    have "(s, c) \<in> set (intersect_segment_matches left right) \<longleftrightarrow>
        (\<exists>lb. (s, lb) \<in> set left \<and> (\<exists>rb. hget ?m s = Some rb \<and> c = lb \<inter> rb \<and> c \<noteq> {}))"
      by (force simp: intersect_segment_matches_def Let_def split: option.splits if_splits)
    then show ?thesis unfolding g by blast
  qed
  then have "(s, l) \<in> matched (intersect_segment_matches left right) \<longleftrightarrow> (s, l) \<in> matched left \<inter> matched right" for s l
    unfolding matched_def by blast
  then show ?thesis by auto
qed

section \<open>Counts\<close>

lemma top_cmp_alt: "top_cmp a b = (if snd b < snd a then Less else if snd a < snd b then Greater else cmp_ord (fst a) (fst b))"
  by (auto simp: top_cmp_def cmp_ord_def)

lemma top_cmp_le: "top_cmp a b \<noteq> Greater \<longleftrightarrow> snd b < snd a \<or> snd a = snd b \<and> fst a \<le> fst b"
  by (auto simp: top_cmp_alt)

interpretation topn: total_order_cmp top_cmp "\<lambda>_. True"
proof
  fix a b c :: "string \<times> nat"
  show "top_cmp b a = rev_ord (top_cmp a b)" by (auto simp: top_cmp_alt rev_ord_cmp_ord)
  show "top_cmp a b \<noteq> Greater \<Longrightarrow> top_cmp b c \<noteq> Greater \<Longrightarrow> top_cmp a c \<noteq> Greater" by (auto simp: top_cmp_le)
  show "top_cmp a b = Equal \<Longrightarrow> a = b" by (auto simp: top_cmp_alt prod_eq_iff split: if_splits)
qed

lemma topn_sorted: "sorted_wrt (\<lambda>a b. snd b < snd a \<or> snd a = snd b \<and> fst a \<le> fst b) (sort_cmp top_cmp xs)"
proof -
  have "topn.by_key (\<lambda>x. x) = top_cmp" by (simp add: fun_eq_iff topn.by_key_def)
  with topn.sort_ordered [of xs "\<lambda>x. x"] show ?thesis by (simp add: topn.ordered_by_def top_cmp_le)
qed

text \<open>The sum over the segments of the number of matching rows with the value.\<close>

lemma add_counts_get:
  "hdefault 0 (hget (add_counts c acc) v) = hdefault 0 (hget acc v) + (\<Sum>(w, n)\<leftarrow>c. if w = v then n else 0)"
  unfolding add_counts_def by (induction c arbitrary: acc) (auto simp: algebra_simps)

lemma sum_counts: "hwf c \<Longrightarrow> (\<Sum>(w, n)\<leftarrow>c. if w = v then n else 0) = hdefault 0 (hget c v)"
proof (induction c)
  case (Cons a c)
  moreover have "hget c (fst a) = None" using Cons.prems by (cases a) (simp add: hwf_Cons hget_None_iff)
  ultimately show ?case by (cases a) (auto simp: hwf_Cons hget_Cons)
qed simp

lemma counts_of_get:
  assumes "hwf bms"
  shows "hwf (counts_of bms b) \<and> hdefault 0 (hget (counts_of bms b) v) = card (hdefault {} (hget bms v) \<inter> b)"
proof -
  let ?step = "\<lambda>(val, bm) counts. if 0 < card (bm \<inter> b) then hput val (card (bm \<inter> b)) counts else counts"
  have "hwf bms \<Longrightarrow> hwf acc \<Longrightarrow> hwf (fold ?step bms acc) \<and>
    hdefault 0 (hget (fold ?step bms acc) v) =
      (case hget bms v of None \<Rightarrow> hdefault 0 (hget acc v) | Some bm \<Rightarrow> if 0 < card (bm \<inter> b) then card (bm \<inter> b) else hdefault 0 (hget acc v))" for acc
  proof (induction bms arbitrary: acc)
    case (Cons a bms)
    obtain w bm where a: "a = (w, bm)" by (cases a)
    have "w = v \<Longrightarrow> hget bms v = None" using Cons.prems(1) a by (simp add: hwf_Cons hget_None_iff)
    with Cons.IH [of "?step a acc"] Cons.prems a show ?case
      by (cases "w = v") (auto simp: hwf_Cons hget_Cons split: option.splits)
  qed simp
  from this [OF assms, of "[]"] show ?thesis by (auto simp: counts_of_def split: option.splits)
qed

lemma add_counts_wf: "hwf acc \<Longrightarrow> hwf (add_counts c acc)"
  unfolding add_counts_def by (induction c arbitrary: acc) auto

lemma group_fold:
  assumes "\<forall>sb\<in>set ms. hwf (bms sb) \<and> seg_counts E t field sb = Inr (counts_of (bms sb) (snd sb))" "hwf acc"
  shows "\<exists>G. fold_r (\<lambda>sb acc. rbind (seg_counts E t field sb) (\<lambda>c. Inr (add_counts c acc))) ms acc = Inr G \<and> hwf G \<and>
    (\<forall>v. hdefault 0 (hget G v) = hdefault 0 (hget acc v) + (\<Sum>sb\<leftarrow>ms. card (hdefault {} (hget (bms sb) v) \<inter> snd sb)))"
  using assms
proof (induction ms arbitrary: acc)
  case (Cons sb ms)
  let ?c = "counts_of (bms sb) (snd sb)"
  have c: "hwf ?c" "hdefault 0 (hget ?c v) = card (hdefault {} (hget (bms sb) v) \<inter> snd sb)" for v
    using counts_of_get [of "bms sb" "snd sb" v] Cons.prems(1) by simp_all
  have "hdefault 0 (hget (add_counts ?c acc) v) = hdefault 0 (hget acc v) + card (hdefault {} (hget (bms sb) v) \<inter> snd sb)" for v
    using add_counts_get [of ?c acc v] sum_counts [OF c(1), of v] c(2) [of v] by simp
  with Cons.IH [of "add_counts ?c acc"] Cons.prems add_counts_wf show ?case by (simp add: add.assoc)
qed simp

section \<open>Reading a batch\<close>

text \<open>Without the chunks and the columns: each row is read cell by cell.\<close>

lemma get_rows_direct:
  assumes "\<forall>loc\<in>set ids. fst loc \<noteq> - 1"
  shows "get_rows_batch flds ids t =
    (let t' = ensure_needed flds (fst ` set ids) t;
         mms = (\<lambda>i. if i \<in> fst ` set ids then map_option (\<lambda>s. get_mmaps_batch s flds) (segment_of t' i) else None) in
     case sliced_list (map (\<lambda>loc. sliced_list (row_cells mms (length flds) loc)) ids) of
       Panicked \<Rightarrow> Inl Panic | Sliced r \<Rightarrow> Inr (r, t'))"
  unfolding get_rows_batch_def Let_def using rows_of_chunks [OF _ assms, of 512] by (simp add: comp_def)

section \<open>A table with two owners\<close>

text \<open>An immutable segment with the rows \<open>x\<close> of the owner \<open>x\<close> and \<open>y\<close> of the owner \<open>y\<close>.\<close>

definition two_pair :: mmap_pair where
  "two_pair = (col_data ascii_ext [''x'', ''y''], offsets_from ascii_ext 0 [''x'', ''y''])"

definition two_segment :: segment where
  "two_segment = (segment_new 5)\<lparr>s_is_immutable := True, s_record_count := 2,
     s_mmap_cache := [(''id'', two_pair), (''owner'', two_pair)]\<rparr>"

definition two_owners :: "(u128, postings) hmap table" where
  "two_owners = (empty_table ''t'' (manifest_new\<lparr>m_original_fields := [''id'', ''owner''], m_primary_key := ''id''\<rparr>))
     \<lparr>t_active := None, t_immutable := [two_segment],
      t_primary_index := snd (pi_insert ascii_ext ''y'' (5, 1) (snd (pi_insert ascii_ext ''x'' (5, 0) primary_index_new)))\<rparr>"

lemma two_simps:
  "t_active two_owners = None" "t_immutable two_owners = [two_segment]" "pk_columns two_owners = [''id'']" "t_name two_owners = ''t''"
  "s_id two_segment = 5" "hget (s_mmap_cache two_segment) ''id'' = Some two_pair" "hget (s_mmap_cache two_segment) ''owner'' = Some two_pair"
  "e_ext small_env = ascii_ext" "nfc ascii_ext v = v" "e_auth_table small_env = ''auth''"
  by (simp_all add: two_owners_def two_segment_def segment_new_def pk_columns_def manifest_new_def small_env_def ascii_ext_def empty_table_def hget_Cons)

lemma two_read: "read_value_from_mmap two_pair 0 = Sliced ''x''" "read_value_from_mmap two_pair 1 = Sliced ''y''"
proof -
  have c: "length (col_data ascii_ext [''x'', ''y'']) < 2 ^ 63" by (simp add: col_data_def ascii_ext_def)
  have u: "utf8_valid ''x''" "utf8_valid ''y''" by (simp_all add: utf8_valid.simps utf8_head_def bval_def)
  show "read_value_from_mmap two_pair 0 = Sliced ''x''"
    using read_cell [OF ascii_layout _ c, of 0] u by (simp add: read_value_from_mmap_def two_pair_def from_utf8_lossy_valid)
  show "read_value_from_mmap two_pair 1 = Sliced ''y''"
    using read_cell [OF ascii_layout _ c, of 1] u by (simp add: read_value_from_mmap_def two_pair_def from_utf8_lossy_valid)
qed

lemma two_ensure: "set flds \<subseteq> {''id'', ''owner''} \<Longrightarrow> ensure_needed flds n two_owners = two_owners"
proof -
  assume f: "set flds \<subseteq> {''id'', ''owner''}"
  have "filter (\<lambda>f. hget (s_mmap_cache two_segment) f = None) flds = []"
    using f by (auto simp: filter_empty_conv two_simps)
  then have "ensure_mmaps_batch (s_dir two_segment) flds two_segment = two_segment" by (simp add: ensure_mmaps_batch_def)
  then show ?thesis by (simp add: ensure_needed_def two_simps)
qed

lemma two_rows: "set flds \<subseteq> {''id'', ''owner''} \<Longrightarrow>
  get_rows_batch flds [(5, 0)] two_owners = Inr ([map (\<lambda>_. ''x'') flds], two_owners) \<and>
  get_rows_batch flds [(5, 1)] two_owners = Inr ([map (\<lambda>_. ''y'') flds], two_owners)"
proof -
  assume f: "set flds \<subseteq> {''id'', ''owner''}"
  have g: "get_mmaps_batch two_segment flds = map (\<lambda>_. Some two_pair) flds"
    using f two_simps by (auto simp: get_mmaps_batch_def)
  have sg: "segment_of two_owners 5 = Some two_segment" by (simp add: segment_of_def two_simps)
  have m: "map (\<lambda>j. cell_via (map (\<lambda>_. Some two_pair) flds ! j) l) [0 ..< length flds] = map (\<lambda>_. cell_via (Some two_pair) l) flds" for l
    by (rule nth_equalityI) simp_all
  have c: "sliced_list (map (\<lambda>_. Sliced v) flds) = Sliced (map (\<lambda>_. v) flds)" for v :: string
    by (rule sliced_list_map) simp
  have "row_cells (\<lambda>i. if i \<in> fst ` set [(5, l)] then map_option (\<lambda>s. get_mmaps_batch s flds) (segment_of two_owners i) else None)
      (length flds) (5, l) = map (\<lambda>_. read_value_from_mmap two_pair l) flds" for l
    using m [of l] by (simp add: row_cells_def sg g cell_via_def)
  then show ?thesis by (simp add: get_rows_direct Let_def two_ensure [OF f] two_read c)
qed

text \<open>A key \<open>In\<close> list and the filter on the owner.\<close>

definition id_in :: filter_t where
  "id_in = (flt ''id'' In ''x'')\<lparr>f_options := [''x'', ''y'']\<rparr>"

lemma two_candidates:
  "candidate_matches_filters small_env (5, 0) [id_in, flt ''owner'' Eq ''x''] And two_owners = Inr (True, two_owners)"
  "candidate_matches_filters small_env (5, 1) [id_in, flt ''owner'' Eq ''x''] And two_owners = Inr (False, two_owners)"
proof -
  have f: "distinct_fields [id_in, flt ''owner'' Eq ''x''] = [''id'', ''owner'']"
    "valid_filters [id_in, flt ''owner'' Eq ''x''] = [id_in, flt ''owner'' Eq ''x'']"
    by (simp_all add: valid_filters_def distinct_fields_def) (simp_all add: id_in_def flt_def)
  note rows = two_rows [of "[''id'', ''owner'']"]
  have l: "list_values ''x'' [''x'', ''y''] = [''x'', ''y'']" by (simp add: list_values_def trim_letter)
  have h: "filter_holds x id_in ''x''" "filter_holds x id_in ''y''" "filter_holds x (flt ''owner'' Eq ''x'') ''x''"
    "\<not> filter_holds x (flt ''owner'' Eq ''x'') ''y''" "f_field id_in = ''id''" "f_field (flt ''owner'' Eq ''x'') = ''owner''" for x
    by (simp_all add: filter_holds_def id_in_def flt_def l text_letters del: compare_values.simps)
  show "candidate_matches_filters small_env (5, 0) [id_in, flt ''owner'' Eq ''x''] And two_owners = Inr (True, two_owners)"
    "candidate_matches_filters small_env (5, 1) [id_in, flt ''owner'' Eq ''x''] And two_owners = Inr (False, two_owners)"
    unfolding candidate_matches_filters_def Let_def f using rows h by simp_all
qed

text \<open>The answer to the key list, with the owner \<open>x\<close> as the signed-in user.\<close>

lemma two_search:
  "\<exists>r t'. table_search small_env [] [id_in] And [] [] 10 0 (Some \<lparr>ac_user_id = ''x'', ac_token = [], ac_entity = [], ac_filter_col = ''owner''\<rparr>) two_owners = Inr (r, t') \<and>
     q_row_ids r = Some [(5, 0), (5, 1)]"
proof -
  let ?fs = "[id_in, flt ''owner'' Eq ''x'']"
  have fs: "inject_rls small_env ''t'' (Some \<lparr>ac_user_id = ''x'', ac_token = [], ac_entity = [], ac_filter_col = ''owner''\<rparr>) [id_in] And = (?fs, And)"
    by (simp add: inject_rls_def two_simps rls_filter_def flt_def)
  have nf: "map (normalize_filter small_env two_owners) ?fs = ?fs"
    by (simp add: normalize_filter_def field_is_pk_column_def two_simps id_in_def flt_def ascii_ext_def)
  have pk: "pk_in_matches small_env id_in ?fs And two_owners = Inr ([(5, {0, 1})], two_owners)"
  proof -
    have g: "pi_get ascii_ext (t_primary_index two_owners) ''x'' = Some (5, 0)" "pi_get ascii_ext (t_primary_index two_owners) ''y'' = Some (5, 1)"
      by (simp_all add: two_owners_def pi_get_def pi_insert_def pi_hash_def primary_index_new_def canonical_bytes_def two_simps)
        (simp_all add: ascii_ext_def from_le128_def bval_def)
    have v: "list_values (f_value id_in) (f_options id_in) = [''x'', ''y'']" by (simp add: list_values_def id_in_def flt_def)
    have b: "filter (\<lambda>(_, b). b \<noteq> {}) (fold (\<lambda>v m. case pi_get (e_ext small_env) (t_primary_index two_owners) v of None \<Rightarrow> m
        | Some (seg_id, local_id) \<Rightarrow> hput seg_id (hdefault {} (hget m seg_id) \<union> {local_id}) m) [''x'', ''y''] []) = [(5, {0, 1})]"
      by (simp add: g two_simps) (simp add: hput_def insert_commute)
    have i: "bitmap_ids {0, 1} = [0, 1]" by (simp add: bitmap_ids_def)
    show ?thesis unfolding pk_in_matches_def Let_def v b using two_candidates by (simp add: i)
  qed
  have m: "search_matches small_env ?fs And two_owners = Inr ([(5, {0, 1})], two_owners)"
    using pk by (simp add: search_matches_def two_simps composite_pk_from_eq_filters_def) (simp add: id_in_def flt_def)
  have i: "bitmap_ids {0, 1} = [0, 1]" by (simp add: bitmap_ids_def)
  have p: "page_matches 10 0 [(5, {0, 1})] (0, []) = [(5, 0), (5, 1)]" by (simp add: i)
  have rows: "get_rows_batch [] [(5, 0), (5, 1)] two_owners = Inr ([[], []], two_owners)"
    by (simp add: get_rows_direct Let_def two_ensure row_cells_def)
  show ?thesis unfolding table_search_def Let_def two_simps fs using m nf p rows by simp
qed

section \<open>One row in the active segment\<close>

definition one_writer :: segment_writer where
  "one_writer = append_record ascii_ext [(''id'', ''1''), (''v'', ''a'')] (fresh_writer 0)"

definition one_row :: "(u128, postings) hmap table" where
  "one_row = small_table\<lparr>t_active := Some one_writer\<rparr>"

lemma one_simps:
  "t_exact one_row = []" "t_files one_row = []" "t_immutable one_row = []" "pk_columns one_row = [''id'']"
  "t_active one_row = Some one_writer" "hget (w_bitmaps one_writer) ''v'' = Some [(''a'', {0})]"
  "s_deleted (w_segment one_writer) = {}" "s_id (w_segment one_writer) = 0"
  by (simp_all add: one_row_def small_table_def empty_table_def pk_columns_def manifest_new_def one_writer_def)
    (simp_all add: append_record_def append_cell_def fresh_writer_def segment_new_def Let_def split_beta update_metadata_def add_row_def hput_def hget_def)

lemma env_simps: "e_skip_fields small_env = None" "e_ext small_env = ascii_ext" "e_lru small_env = small_lru" "e_codec small_env = plain_codec"
  by (simp_all add: small_env_def)

lemmas index_defs = load_exact_index_def should_skip_exact_index_def field_is_pk_column_def Let_def store_exact_def
  save_patched_def patch_exact_index_missing_segments_def exact_matches_one_value_def exact_index_get_def
  live_bitmap_for_segment_def delta_put_def bind_path_def exact_index_new_def

lemma one_matches: "\<exists>t'. exact_matches_for_field_value small_env (flt ''v'' Eq ''a'') one_row = Inr (Some [(0, {0}), (0, {0})], t')"
proof -
  have b: "build_exact_index small_env one_row ''v'' =
      Inr (delta_put small_lru (ix_hash ascii_ext ''a'') (Replace [(0, {0})]) (exact_index_new small_lru))"
    by (simp add: build_exact_index_def one_simps live_bitmaps_def non_empty_def merge_segment_def merge_value_def Let_def env_simps
        current_bitmaps_def exact_index_new_def)
  show ?thesis
    by (simp add: exact_matches_for_field_value_def index_defs one_simps flt_def b env_simps hget_Cons split: option.splits)
qed

section \<open>Three indexed columns\<close>

definition three_columns :: "(u128, postings) hmap table" where
  "three_columns = two_owners\<lparr>t_exact :=
     [(''a'', exact_index_insert ascii_ext small_lru (exact_index_new small_lru) ''x'' [(5, {0})]),
      (''b'', exact_index_new small_lru),
      (''c'', exact_index_insert ascii_ext small_lru (exact_index_new small_lru) ''x'' [(5, {1})])]\<rparr>"

lemma three_simps:
  "t_active three_columns = None" "t_immutable three_columns = [two_segment]" "pk_columns three_columns = [''id'']"
  "hget (s_dir two_segment) nm = None" "s_deleted two_segment = {}"
  by (simp_all add: three_columns_def two_simps pk_columns_def) (simp_all add: two_owners_def manifest_new_def two_segment_def segment_new_def empty_table_def)

lemma three_matches:
  "exact_matches_for_field_value small_env (flt ''a'' Eq ''x'') three_columns = Inr (Some [(5, {0})], three_columns)"
  "exact_matches_for_in_filter small_env (flt ''b'' In ''y'') three_columns = Inr (None, three_columns)"
  "exact_matches_for_field_value small_env (flt ''c'' Eq ''x'') three_columns = Inr (Some [(5, {1})], three_columns)"
proof -
  let ?i = "exact_index_insert ascii_ext small_lru (exact_index_new small_lru) ''x''"
  have x: "hget (t_exact three_columns) ''a'' = Some (?i [(5, {0})])" "hget (t_exact three_columns) ''b'' = Some (exact_index_new small_lru)"
    "hget (t_exact three_columns) ''c'' = Some (?i [(5, {1})])"
    by (simp_all add: three_columns_def hget_Cons)
  have n: "\<not> exact_index_missing_immutable_segments small_env three_columns f idx" for f idx
    by (simp add: exact_index_missing_immutable_segments_def Let_def three_simps)
  have k: "should_skip_exact_index small_env three_columns f \<longleftrightarrow> f = ''id''" for f
    by (simp add: should_skip_exact_index_def field_is_pk_column_def three_simps env_simps)
  have st: "store_exact f idx three_columns = three_columns" if "hget (t_exact three_columns) f = Some idx" for f idx
  proof -
    have "hput f idx (t_exact three_columns) = t_exact three_columns" using that
      by (auto simp: three_columns_def hget_Cons hput_def split: if_splits)
    then show ?thesis by (simp add: store_exact_def)
  qed
  have l: "load_exact_index small_env f three_columns = Inr (idx, three_columns)"
    if "hget (t_exact three_columns) f = Some idx" "f \<noteq> ''id''" for f idx
    using that by (simp add: load_exact_index_def k n)
  have g: "exact_index_get ascii_ext small_lru plain_codec (?i ps) ''x'' = (Some ps, ?i ps)" for ps
    by (simp add: exact_index_get_def exact_index_insert_def delta_put_def Let_def)
  have e: "exact_index_get ascii_ext small_lru plain_codec (exact_index_new small_lru) v = (None, exact_index_new small_lru)" for v
    by (simp add: exact_index_get_def exact_index_new_def Let_def small_lru_def)
  show "exact_matches_for_field_value small_env (flt ''a'' Eq ''x'') three_columns = Inr (Some [(5, {0})], three_columns)"
    "exact_matches_for_field_value small_env (flt ''c'' Eq ''x'') three_columns = Inr (Some [(5, {1})], three_columns)"
    by (simp_all add: exact_matches_for_field_value_def l x flt_def exact_matches_one_value_def env_simps g k st
        live_bitmap_for_segment_def three_simps two_simps)
  have v: "list_values ''y'' [] = [''y'']" by (simp add: list_values_def trim_letter)
  show "exact_matches_for_in_filter small_env (flt ''b'' In ''y'') three_columns = Inr (None, three_columns)"
    by (simp add: exact_matches_for_in_filter_def flt_def v l x exact_matches_for_values_with_index_def exact_matches_one_value_def
        env_simps e three_simps k st)
qed

section \<open>Properties\<close>

text \<open>Without an order the page is cut out of the matches in segment and row order: the first
  \<open>limit\<close> locations after the first \<open>offset\<close>, whatever the bitmaps are.\<close>

theorem plain_page:
  assumes "0 < limit"
  shows "page_matches limit offset ms (0, []) = take limit (drop offset (match_ids ms))"
  using page_matches_run [of "[]" limit 0 offset ms] assms by simp

theorem plain_page_witness: "page_matches 1 1 [(4, {0}), (5, {2, 3})] (0, []) = take 1 (drop 1 (match_ids [(4, {0}), (5, {2, 3})]))"
  by (rule plain_page) simp



text \<open>Intersecting the matches of two filters keeps exactly the rows in both, provided the right
  list has each segment once.\<close>

theorem intersect_matches_exact:
  assumes "distinct (map fst right)"
  shows "matched (intersect_segment_matches left right) = matched left \<inter> matched right"
  by (rule intersect_matched [OF assms])

theorem intersect_matches_exact_witness:
  "matched (intersect_segment_matches [(1, {0, 2}), (1, {5})] [(2, {0}), (1, {2, 5})]) =
   matched [(1, {0, 2}), (1, {5})] \<inter> matched [(2, {0}), (1, {2, 5})]"
  by (rule intersect_matches_exact) simp

text \<open>A batch read returns, row by row and column by column, the cells at the locations asked
  for: cutting the locations into chunks and keeping the maps of the last segment does not show (no
  segment has the id \<open>2\<^sup>6\<^sup>4 - 1\<close> that the loop starts with).\<close>

theorem get_rows_batch_cells:
  assumes "\<forall>loc\<in>set ids. fst loc \<noteq> - 1"
  shows "get_rows_batch flds ids t =
    (let t' = ensure_needed flds (fst ` set ids) t in
     case sliced_list (map (\<lambda>loc. sliced_list (map (\<lambda>j.
         case map_option (\<lambda>s. get_mmaps_batch s flds ! j) (segment_of t' (fst loc)) of
           Some (Some p) \<Rightarrow> read_value_from_mmap p (snd loc) | _ \<Rightarrow> Sliced []) [0 ..< length flds])) ids) of
       Panicked \<Rightarrow> Inl Panic | Sliced r \<Rightarrow> Inr (r, t'))"
proof -
  let ?t = "ensure_needed flds (fst ` set ids) t"
  let ?mms = "\<lambda>i. if i \<in> fst ` set ids then map_option (\<lambda>s. get_mmaps_batch s flds) (segment_of ?t i) else None"
  have "map (\<lambda>loc. sliced_list (row_cells ?mms (length flds) loc)) ids =
    map (\<lambda>loc. sliced_list (map (\<lambda>j. case map_option (\<lambda>s. get_mmaps_batch s flds ! j) (segment_of ?t (fst loc)) of
           Some (Some p) \<Rightarrow> read_value_from_mmap p (snd loc) | _ \<Rightarrow> Sliced []) [0 ..< length flds])) ids"
    by (auto simp: row_cells_def cell_via_def intro!: arg_cong [of _ _ sliced_list] split: option.splits)
  with get_rows_direct [OF assms, of flds t] show ?thesis by (simp add: Let_def)
qed

theorem get_rows_batch_cells_witness:
  "get_rows_batch [''id'', ''owner''] [(5, 1), (5, 0)] two_owners = Inr ([[''y'', ''y''], [''x'', ''x'']], two_owners)"
  using get_rows_batch_cells [of "[(5, 1), (5, 0)]" "[''id'', ''owner'']" two_owners]
  by (simp add: Let_def two_ensure segment_of_def two_simps get_mmaps_batch_def two_read)

text \<open>Restricting a key list to a user's rows does not restrict it: with the filter on the owner
  \<open>x\<close> added for the signed-in user, the search for the keys \<open>x\<close> and \<open>y\<close> also returns the row at
  (5, 1), although that row does not satisfy the filters, because the candidates of one segment are
  kept or dropped together.\<close>

theorem key_list_ignores_owner:
  "(\<exists>r t'. table_search small_env [] [id_in] And [] [] 10 0 (Some \<lparr>ac_user_id = ''x'', ac_token = [], ac_entity = [], ac_filter_col = ''owner''\<rparr>) two_owners = Inr (r, t') \<and>
     q_row_ids r = Some [(5, 0), (5, 1)]) \<and>
   candidate_matches_filters small_env (5, 1) [id_in, flt ''owner'' Eq ''x''] And two_owners = Inr (False, two_owners)"
  using two_search two_candidates(2) by blast

text \<open>A row of the active segment is counted twice when the index of a column is built while the
  row is in memory: the index holds the active segment's row, and the lookup adds the writer's bitmap
  to it. A table with one row finds two.\<close>

theorem active_rows_counted_twice:
  "\<exists>r t'. table_search small_env [''id''] [flt ''v'' Eq ''a''] And [] [] 0 0 None one_row = Inr (r, t') \<and> q_total_found r = 2"
proof -
  obtain t' where t': "exact_matches_for_field_value small_env (flt ''v'' Eq ''a'') one_row = Inr (Some [(0, {0}), (0, {0})], t')"
    using one_matches by blast
  then show ?thesis
    by (simp add: table_search_def inject_rls_def normalize_filter_def field_is_pk_column_def one_simps search_matches_def
        composite_pk_from_eq_filters_def exact_then_scan_def exact_matches_for_eq_filters_def flt_def Let_def)
qed

text \<open>A list filter without a hit ends the loop over the filters, and the filters after it are
  neither looked up nor scanned: the row at (5, 0) is returned for \<open>a = x\<close>, \<open>b in (y)\<close>, \<open>c = x\<close>
  although the index of \<open>c\<close> has \<open>x\<close> at (5, 1) only.\<close>

theorem missed_list_drops_filters:
  "search_matches small_env [flt ''a'' Eq ''x'', flt ''b'' In ''y'', flt ''c'' Eq ''x''] And three_columns = Inr ([(5, {0})], three_columns) \<and>
   exact_matches_for_field_value small_env (flt ''c'' Eq ''x'') three_columns = Inr (Some [(5, {1})], three_columns)"
  using three_matches
  by (simp add: search_matches_def three_simps composite_pk_from_eq_filters_def exact_then_scan_def exact_matches_for_eq_filters_def
      flt_def Let_def field_is_pk_column_def)

text \<open>A \<open>TopN\<close> aggregation counts, for every value of the column, the matching rows that have it in
  all segments, and returns the \<open>n\<close> values (10 by default) with the highest counts, ties in the order
  of the values; its summary is the number of rows of the values returned.\<close>

theorem topn_counts:
  assumes "field = hdefault ''?'' (str_param params ''field'')"
    "\<forall>sb\<in>set ms. hwf (bms sb) \<and> seg_counts E t field sb = Inr (counts_of (bms sb) (snd sb))"
  shows "\<exists>G S r. group_aggregation E ''TopN'' params ob ms t = Inr r \<and>
    (\<forall>v. hdefault 0 (hget G v) = (\<Sum>sb\<leftarrow>ms. card (hdefault {} (hget (bms sb) v) \<inter> snd sb))) \<and> hwf G \<and> mset S = mset G \<and>
    sorted_wrt (\<lambda>a b. snd b < snd a \<or> snd a = snd b \<and> fst a \<le> fst b) S \<and>
    (let top = take (hdefault 10 (Option.bind (json_get params ''n'') as_u64)) S in
     ar_rows r = map (\<lambda>(v, c). [v, show_nat c]) top \<and> ar_summary r = Some (round64 (of_nat (sum_list (map snd top)))))"
proof -
  obtain G where G: "fold_r (\<lambda>sb acc. rbind (seg_counts E t field sb) (\<lambda>c. Inr (add_counts c acc))) ms [] = Inr G" "hwf G"
    "\<forall>v. hdefault 0 (hget G v) = (\<Sum>sb\<leftarrow>ms. card (hdefault {} (hget (bms sb) v) \<inter> snd sb))"
    using group_fold [OF assms(2), of "[]"] by auto
  show ?thesis
    using G topn_sorted [of G] unfolding assms(1)
    by (intro exI [of _ G] exI [of _ "sort_cmp top_cmp G"]) (simp add: group_aggregation_def Let_def sort_groups_def)
qed

theorem topn_counts_witness:
  "\<exists>G S r. group_aggregation small_env ''TopN'' (JObj [(''field'', JStr ''v'')]) [] [(0, {0})] one_row = Inr r \<and>
    (\<forall>v. hdefault 0 (hget G v) = (\<Sum>sb\<leftarrow>[(0 :: u64, {0 :: u32})]. card (hdefault {} (hget [(''a'', {0})] v) \<inter> snd sb))) \<and> hwf G \<and> mset S = mset G \<and>
    sorted_wrt (\<lambda>a b. snd b < snd a \<or> snd a = snd b \<and> fst a \<le> fst b) S \<and>
    (let top = take (hdefault 10 (Option.bind (json_get (JObj [(''field'', JStr ''v'')]) ''n'') as_u64)) S in
     ar_rows r = map (\<lambda>(v, c). [v, show_nat c]) top \<and> ar_summary r = Some (round64 (of_nat (sum_list (map snd top)))))"
  by (rule topn_counts [where field = "''v''" and bms = "\<lambda>_. [(''a'', {0})]"])
    (simp_all add: str_param_def seg_counts_def one_simps writer_get_counts_def hwf_Cons)

end
