(* ===== verification/Table_Compact.thy ===== *)
theory Table_Compact
  imports Table_Life
begin

text \<open>
  \<^verbatim>\<open>src/core/storage/table.rs\<close>, compaction: the live rows of the immutable segments are copied into
  new segments of at most \<open>e_compact_rows\<close> rows, which replace the old ones, and the primary index
  is rebuilt. The directory into which the new segments are written before they are renamed is that
  of their writers.
\<close>

section \<open>Fields and ghost segments\<close>

text \<open>\<open>trim_end_matches(".dat")\<close> takes the suffix off as often as it is there.\<close>

definition data_field :: "string \<Rightarrow> string option" where
  "data_field nm = (if ends_with nm ''.dat'' \<and> \<not> starts_with nm ''bitmaps_''
     then Some (rev (trim_with [rev ''.dat''] (rev nm))) else None)"

fun discover_fields :: "segment list \<Rightarrow> string list" where
  "discover_fields [] = []"
| "discover_fields (s # ss) =
     (let found = List.map_filter (data_field \<circ> fst) (s_dir s) in
      if found \<noteq> [] then sort found else discover_fields ss)"

definition discover_segment_fields :: "'c table \<Rightarrow> string list" where
  "discover_segment_fields t = discover_fields (t_immutable t)"

definition get_base_fields :: "string list \<Rightarrow> string list" where
  "get_base_fields all_fields = sort (filter (\<lambda>f. \<not> ends_with f ''_day'' \<and> \<not> ends_with f ''_month''
     \<and> \<not> ends_with f ''_year'' \<and> \<not> ends_with f ''_hour_bucket'') all_fields)"

definition compact_purge_ghost_segments :: "'c env \<Rightarrow> nat \<Rightarrow> 'c table \<Rightarrow> nat \<times> 'c table" where
  "compact_purge_ghost_segments E old_count t =
     (let old_ids = map s_id (t_immutable t);
          dirs = fold (\<lambda>i. hdel (seg_name i)) old_ids (t_dirs t);
          m = fold remove_segment old_ids (t_manifest t);
          dirs = hdel (seg_name (m_active_segment_id m)) dirs;
          t = t\<lparr>t_immutable := [], t_primary_index := primary_index_new, t_exact := [],
                t_files := filter (\<lambda>(n, _). \<not> starts_with n ''secondary_exact/'') (t_files t),
                t_active := None, t_dirs := dirs,
                t_manifest := m\<lparr>m_active_segment_id := 0, m_last_sequence_number := m_last_sequence_number m + 1\<rparr>\<rparr>;
          t = table_save_primary_index E (save_manifest E (ensure_active_segment E t)) in
      (old_count, t\<lparr>t_wal := wal_truncate (wal_flush_writes (t_wal t))\<rparr>))"

section \<open>Copying the live rows\<close>

record compact_state =
  k_finished :: "segment_writer list"
  k_current :: "segment_writer option"
  k_count :: u64
  k_next :: u64
  k_index :: primary_index
  k_draws :: nat

definition new_writer :: "'c env \<Rightarrow> u64 \<Rightarrow> segment_writer" where
  "new_writer E i = segment_writer_new (e_seg E) (segment_new i)"

text \<open>A new segment is begun for the first row and when the current one is full.\<close>

definition next_writer :: "'c env \<Rightarrow> compact_state \<Rightarrow> compact_state" where
  "next_writer E k =
     (if k_current k = None \<or> e_compact_rows E \<le> k_count k
      then k\<lparr>k_finished := k_finished k @ (case k_current k of None \<Rightarrow> [] | Some w \<Rightarrow> [w]),
             k_current := Some (new_writer E (k_next k)), k_count := 0, k_next := k_next k + 1\<rparr>
      else k)"

definition row_map :: "string list \<Rightarrow> string list \<Rightarrow> row" where
  "row_map flds vals = fold (\<lambda>(i, f). hput f (if i < length vals then vals ! i else [])) (zip [0 ..< length flds] flds) []"

definition append_copy :: "'c env \<Rightarrow> string list \<Rightarrow> row \<Rightarrow> compact_state \<Rightarrow> compact_state" where
  "append_copy E cols row k =
     (case k_current k of
        None \<Rightarrow> k
      | Some w \<Rightarrow>
          let new_local_id = ucast (s_record_count (w_segment w)); new_seg_id = s_id (w_segment w);
              pk_val = row_pk_value (e_ext E) cols (e_uuid E (k_draws k)) row in
          k\<lparr>k_current := Some (append_record (e_ext E) row w), k_count := k_count k + 1,
            k_index := snd (pi_insert (e_ext E) pk_val (new_seg_id, new_local_id) (k_index k)),
            k_draws := k_draws k + 1\<rparr>)"

fun copy_rows :: "'c env \<Rightarrow> string list \<Rightarrow> string list \<Rightarrow> segment \<Rightarrow> u32 list \<Rightarrow> compact_state \<Rightarrow> table_error + compact_state" where
  "copy_rows E cols flds s [] k = Inr k"
| "copy_rows E cols flds s (l # ls) k =
     (let k = next_writer E k in
      case get_row_values s l flds of
        Panicked \<Rightarrow> Inl Panic
      | Sliced vals \<Rightarrow> copy_rows E cols flds s ls (append_copy E cols (row_map flds vals) k))"

definition copy_segment :: "'c env \<Rightarrow> string list \<Rightarrow> string list \<Rightarrow> location set \<Rightarrow> segment \<Rightarrow> compact_state \<Rightarrow>
    table_error + compact_state" where
  "copy_segment E cols flds alive_positions s k =
     copy_rows E cols flds s (filter (\<lambda>l. (s_id s, l) \<in> alive_positions) (live_ids s)) k"

definition copy_all :: "'c env \<Rightarrow> string list \<Rightarrow> string list \<Rightarrow> location set \<Rightarrow> segment list \<Rightarrow> compact_state \<Rightarrow>
    table_error + compact_state" where
  "copy_all E cols flds alive_positions segs k = fold_r (copy_segment E cols flds alive_positions) segs k"

definition finished_writers :: "compact_state \<Rightarrow> segment_writer list" where
  "finished_writers k = k_finished k @ (case k_current k of None \<Rightarrow> [] | Some w \<Rightarrow> [w])"

section \<open>Putting the new segments in place\<close>

definition seal_writer :: "'c env \<Rightarrow> segment_writer \<Rightarrow> table_error + segment_writer" where
  "seal_writer E w = rbind (map_err SegErr (writer_flush (e_seg E) (e_bitmap_interval E) w)) (\<lambda>w.
     Inr (persist_bitmaps (e_seg E) w))"

definition temp_to_final :: "u64 \<Rightarrow> segment_writer list \<Rightarrow> (u64, u64) hmap" where
  "temp_to_final base ws =
     fold (\<lambda>(i, w). hput (s_id (w_segment w)) (base + of_nat i)) (zip [0 ..< length ws] ws) []"

definition final_segment :: "'c env \<Rightarrow> u64 \<Rightarrow> segment_writer \<Rightarrow> table_error + segment" where
  "final_segment E final_id w =
     rbind (map_err SegErr (segment_load (e_seg E) (seg_name final_id) (writer_dir w)
       (Some \<lparr>sm_id = final_id, sm_min_max = s_min_max (w_segment w),
              sm_record_count = s_record_count (w_segment w), sm_path = seg_name final_id\<rparr>))) (\<lambda>s.
     Inr (s\<lparr>s_is_immutable := True, s_id := final_id\<rparr>))"

definition final_id_of :: "(u64, u64) hmap \<Rightarrow> segment_writer \<Rightarrow> u64" where
  "final_id_of tf w = hdefault 0 (hget tf (s_id (w_segment w)))"

text \<open>Steps 5 to 15 of \<open>compact\<close>.\<close>

definition install_compacted :: "'c env \<Rightarrow> nat \<Rightarrow> compact_state \<Rightarrow> 'c table \<Rightarrow> table_error + nat \<times> 'c table" where
  "install_compacted E old_count k t =
     rbind (map_r (seal_writer E) (finished_writers k)) (\<lambda>ws.
     let old_ids = map s_id (t_immutable t);
         tf = temp_to_final (m_active_segment_id (t_manifest t) + 1) ws;
         final_id_cursor = m_active_segment_id (t_manifest t) + 1 + of_nat (length ws);
         new_index = pi_map_locations (\<lambda>(s, l). (hdefault s (hget tf s), l)) (k_index k) in
     rbind (map_r (\<lambda>w. final_segment E (final_id_of tf w) w) ws) (\<lambda>new_segs.
     let t = fold (\<lambda>w. merge_exact_indexes_for_segment E (final_id_of tf w) (w_bitmaps w)) ws t;
         m = fold (add_segment \<circ> to_meta) new_segs (fold remove_segment old_ids (t_manifest t));
         m = m\<lparr>m_active_segment_id := final_id_cursor, m_last_sequence_number := m_last_sequence_number m + 1\<rparr>;
         dirs = fold (\<lambda>i. hdel (seg_name i)) (old_ids @ map s_id new_segs) (t_dirs t);
         t = t\<lparr>t_manifest := m, t_immutable := new_segs, t_dirs := dirs, t_primary_index := new_index\<rparr> in
     rbind (case persist_loop E (t_exact t) t of (t, None) \<Rightarrow> Inr t | (_, Some e) \<Rightarrow> Inl e) (\<lambda>t.
     rbind (purge_exact_indexes_for_removed_segments E old_ids t) (\<lambda>t.
     let t = table_save_primary_index E (save_manifest E (t\<lparr>t_exact := []\<rparr>));
         t = t\<lparr>t_wal := wal_truncate (wal_flush_writes (t_wal t))\<rparr>;
         dirs = (case t_active t of None \<Rightarrow> t_dirs t
           | Some w \<Rightarrow> hput (s_name (w_segment w)) (writer_dir (flush_writers w)) (t_dirs t));
         t = ensure_active_segment E (t\<lparr>t_active := None, t_dirs := dirs\<rparr>) in
     Inr (old_count - length (t_immutable t), t)))))"

definition div_ceil :: "nat \<Rightarrow> nat \<Rightarrow> nat" where
  "div_ceil a b = (a + b - 1) div b"

definition compact :: "'c env \<Rightarrow> 'c table \<Rightarrow> table_error + nat \<times> 'c table" where
  "compact E t =
     rbind (if 0 < active_segment_row_count t then flush_active_segment E t else Inr t) (\<lambda>t.
     let old_count = length (t_immutable t) in
     if 0 < old_count \<and> live_row_count t = 0 \<and> discover_segment_fields t = []
     then Inr (compact_purge_ghost_segments E old_count t)
     else if old_count < 4 then Inr (0, t)
     else if e_compact_rows E = 0 then Inl Panic
     else
       let total_rows = sum_list (map (\<lambda>s. unat (s_record_count s) - card (s_deleted s)) (t_immutable t));
           ideal_segments = max 1 (div_ceil total_rows (unat (e_compact_rows E))) in
       if old_count \<le> ideal_segments * 2 then Inr (0, t)
       else
         let flds = discover_segment_fields t in
         if flds = [] then
           (if live_row_count t = 0 then Inr (compact_purge_ghost_segments E old_count t) else Inl CompactAborted)
         else
           let t = t\<lparr>t_immutable := map (\<lambda>s. ensure_mmaps_batch (s_dir s) flds s) (t_immutable t)\<rparr>;
               max_existing_id = fold max (map s_id (t_immutable t)) 0;
               k = \<lparr>k_finished = [], k_current = None, k_count = 0, k_next = max_existing_id + 1000000,
                    k_index = primary_index_new, k_draws = t_draws t\<rparr> in
           rbind (copy_all E (pk_columns t) flds (set (map snd (pi_inner (t_primary_index t)))) (t_immutable t) k) (\<lambda>k.
             install_compacted E old_count k (t\<lparr>t_draws := k_draws k\<rparr>)))"

end
