(* ===== verification/Compact_Rows.thy ===== *)
theory Compact_Rows
  imports Table_Compact Table_Store
begin

text \<open>
  Compaction (\<^verbatim>\<open>compact\<close> of \<^verbatim>\<open>src/core/storage/table.rs\<close>) copies exactly the live rows: the new
  writers hold them in order, cut into segments of the target size, and the new primary index finds
  each of them. The definitions are those of \<open>Table_Compact\<close>.
\<close>

section \<open>Chunks of a growing list\<close>

definition add_last :: "nat \<Rightarrow> 'a \<Rightarrow> 'a list list \<Rightarrow> 'a list list" where
  "add_last n x xss = (if xss = [] \<or> n \<le> length (last xss) then xss @ [[x]] else butlast xss @ [last xss @ [x]])"

lemma chunks_nonempty: "0 < n \<Longrightarrow> xs \<noteq> [] \<Longrightarrow> chunks n xs \<noteq> []"
  by (subst chunks.simps) simp

lemma chunks_Nil [simp]: "chunks n [] = []"
  by (subst chunks.simps) simp

lemma chunks_short: "0 < n \<Longrightarrow> xs \<noteq> [] \<Longrightarrow> length xs \<le> n \<Longrightarrow> chunks n xs = [xs]"
  by (subst chunks.simps) simp

lemma chunks_long: "0 < n \<Longrightarrow> n < length xs \<Longrightarrow> chunks n xs = take n xs # chunks n (drop n xs)"
  by (subst chunks.simps) auto

lemma chunks_snoc: "0 < n \<Longrightarrow> chunks n (xs @ [x]) = add_last n x (chunks n xs)"
proof (induction n xs rule: chunks.induct)
  case (1 n xs)
  consider "xs = []" | "xs \<noteq> []" "length xs < n" | "length xs = n" | "n < length xs" by linarith
  then show ?case
  proof cases
    case 1
    then show ?thesis using \<open>0 < n\<close> by (simp add: add_last_def chunks_short)
  next
    case 2
    then show ?thesis using \<open>0 < n\<close> by (simp add: add_last_def chunks_short)
  next
    case 3
    then have "xs \<noteq> []" using \<open>0 < n\<close> by auto
    with 3 have "chunks n xs = [xs]" using \<open>0 < n\<close> by (simp add: chunks_short)
    moreover have "chunks n (xs @ [x]) = xs # chunks n [x]" using 3 \<open>0 < n\<close> by (subst chunks_long) simp_all
    ultimately show ?thesis using 3 \<open>0 < n\<close> by (simp add: add_last_def chunks_short)
  next
    case 4
    then have ne: "chunks n (drop n xs) \<noteq> []" using \<open>0 < n\<close> by (simp add: chunks_nonempty)
    have "chunks n (drop n xs @ [x]) = add_last n x (chunks n (drop n xs))"
    proof (rule "1.IH")
      show "\<not> (xs = [] \<or> n = 0)" using 4 \<open>0 < n\<close> by auto
    qed (rule \<open>0 < n\<close>)
    with 4 ne show ?thesis using \<open>0 < n\<close> by (simp add: chunks_long add_last_def)
  qed
qed

lemma chunks_length: "0 < n \<Longrightarrow> c \<in> set (chunks n xs) \<Longrightarrow> 0 < length c \<and> length c \<le> n"
proof (induction n xs rule: chunks.induct)
  case (1 n xs)
  from "1.prems" show ?case
    using "1.IH" by (cases "xs = []"; cases "n < length xs") (auto simp: chunks_long chunks_short)
qed

section \<open>One row\<close>

text \<open>The rows of the writers with their places.\<close>

definition located :: "u64 list \<Rightarrow> row list list \<Rightarrow> (location \<times> row) list" where
  "located ids Rs = concat (map2 (\<lambda>i rs. map2 (\<lambda>j r. ((i, of_nat j), r)) [0 ..< length rs] rs) ids Rs)"

definition copy_ids :: "u64 \<Rightarrow> 'a list \<Rightarrow> u64 list" where
  "copy_ids base Rs = map (\<lambda>i. base + of_nat i) [0 ..< length Rs]"

definition place_of :: "ext \<Rightarrow> string list \<Rightarrow> (location \<times> row) list \<Rightarrow> string \<Rightarrow> location option" where
  "place_of x cols L q =
     map_option fst (find (\<lambda>(loc, r). pi_hash x (row_pk_value x cols [] r) = pi_hash x q) (rev L))"

text \<open>The writers of a copy hold the rows \<open>Rs\<close>, one list for each.\<close>

definition copied :: "'c env \<Rightarrow> string list \<Rightarrow> string list \<Rightarrow> u64 \<Rightarrow> compact_state \<Rightarrow> row list list \<Rightarrow> bool" where
  "copied E cols flds base k Rs \<longleftrightarrow>
      list_all2 (act_ok (e_ext E) flds) (finished_writers k) Rs \<and>
      (k_current k = None \<longrightarrow> k_finished k = []) \<and>
      (\<forall>w. k_current k = Some w \<longrightarrow> k_count k = s_record_count (w_segment w)) \<and>
      (\<forall>w\<in>set (finished_writers k). s_deleted (w_segment w) = {}) \<and>
      map (s_id \<circ> w_segment) (finished_writers k) = copy_ids base Rs \<and>
      k_next k = base + of_nat (length Rs) \<and> pi_wf (k_index k) \<and>
      pi_get (e_ext E) (k_index k) = place_of (e_ext E) cols (located (copy_ids base Rs) Rs)"

lemma copy_ids_length [simp]: "length (copy_ids base Rs) = length Rs"
  by (simp add: copy_ids_def)

lemma copy_ids_snoc: "copy_ids base (Rs @ [r]) = copy_ids base Rs @ [base + of_nat (length Rs)]"
  by (simp add: copy_ids_def)

lemma located_snoc:
  "length ids = length Rs \<Longrightarrow> located (ids @ [i]) (Rs @ [rs]) = located ids Rs @ map2 (\<lambda>j r. ((i, of_nat j), r)) [0 ..< length rs] rs"
  by (simp add: located_def)

lemma place_of_snoc:
  "place_of x cols (L @ [(loc, r)]) q =
     (if pi_hash x q = pi_hash x (row_pk_value x cols [] r) then Some loc else place_of x cols L q)"
  by (simp add: place_of_def)

lemma chunk_bytes:
  assumes "0 < n" "c \<in> set (chunks n rows)"
  shows "length (col_data x (vals f c)) \<le> length (col_data x (vals f rows))"
proof -
  obtain as bs where "chunks n rows = as @ c # bs" using split_list [OF assms(2)] by blast
  with concat_chunks [OF assms(1), of rows] have "rows = concat as @ c @ concat bs" by (metis concat.simps(2) concat_append)
  then show ?thesis by (simp add: col_data_def vals_def)
qed

lemma act_ok_fresh: "act_ok x flds (new_writer E i) []"
proof -
  have "new_writer E i = fresh_writer i" by (simp add: new_writer_def segment_writer_new_def fresh_writer_def segment_new_def)
  moreover have "act_ok x flds (fresh_writer i) []"
    using fresh_col [of x i]
    by (simp add: act_ok_def vals_def col_data_def clean_def cache_ok_def) (simp add: fresh_writer_def segment_new_def)
  ultimately show ?thesis by simp
qed

lemma list_all2_snoc: "list_all2 P (xs @ [x]) (ys @ [y]) \<longleftrightarrow> list_all2 P xs ys \<and> P x y"
  by (subst list_all2_rev [symmetric]) (simp add: conj_commute)

lemma new_writer_simps [simp]:
  "s_deleted (w_segment (new_writer E i)) = {}" "s_id (w_segment (new_writer E i)) = i"
  "s_record_count (w_segment (new_writer E i)) = 0"
  by (simp_all add: new_writer_def segment_writer_new_def segment_new_def)

text \<open>After \<open>next_writer\<close> there is a writer with fewer than the target's rows.\<close>

definition open_last :: "nat \<Rightarrow> 'a list list \<Rightarrow> 'a list list" where
  "open_last n Rs = (if Rs = [] \<or> n \<le> length (last Rs) then Rs @ [[]] else Rs)"

lemma add_last_open: "0 < n \<Longrightarrow> add_last n x Rs = butlast (open_last n Rs) @ [last (open_last n Rs) @ [x]]"
  by (simp add: add_last_def open_last_def)

lemma finished_snoc: "k_current k = Some w \<Longrightarrow> finished_writers k = k_finished k @ [w]"
  by (simp add: finished_writers_def)

lemma next_writer_copied:
  assumes c: "copied E cols flds base k Rs"
  shows "copied E cols flds base (next_writer E k) (open_last (unat (e_compact_rows E)) Rs)"
    "\<exists>w. k_current (next_writer E k) = Some w"
proof -
  have len: "length (finished_writers k) = length Rs" using c by (auto simp: copied_def dest: list_all2_lengthD)
  have full: "e_compact_rows E \<le> k_count k \<longleftrightarrow> unat (e_compact_rows E) \<le> length (last Rs)" if "k_current k = Some w" for w
  proof -
    have "Rs \<noteq> []" "finished_writers k = k_finished k @ [w]" using len that by (auto simp: finished_writers_def)
    with c that have "act_ok (e_ext E) flds w (last Rs)"
      by (cases Rs rule: rev_cases) (auto simp: copied_def list_all2_append2 list_all2_append1 dest: list_all2_lengthD)
    with c that show ?thesis by (simp add: copied_def act_ok_def word_le_nat_alt unat_of_nat take_bit_nat_eq_self)
  qed
  have none: "k_current k = None \<longleftrightarrow> Rs = []" using len c by (auto simp: finished_writers_def copied_def split: option.splits)
  show "copied E cols flds base (next_writer E k) (open_last (unat (e_compact_rows E)) Rs)"
  proof (cases "k_current k = None \<or> e_compact_rows E \<le> k_count k")
    case True
    with full none have o: "open_last (unat (e_compact_rows E)) Rs = Rs @ [[]]" by (auto simp: open_last_def)
    have f: "finished_writers (next_writer E k) = finished_writers k @ [new_writer E (k_next k)]"
      using True by (auto simp: next_writer_def finished_writers_def)
    have l: "located (copy_ids base (Rs @ [[]])) (Rs @ [[]]) = located (copy_ids base Rs) Rs"
      by (simp add: copy_ids_snoc located_snoc)
    have n: "k_next (next_writer E k) = k_next k + 1" "k_index (next_writer E k) = k_index k"
      "k_current (next_writer E k) = Some (new_writer E (k_next k))" "k_count (next_writer E k) = 0"
      using True by (auto simp: next_writer_def)
    from c show ?thesis unfolding o copied_def f l n
      by (auto simp: act_ok_fresh copy_ids_snoc intro!: list_all2_appendI)
  next
    case False
    with full none have "open_last (unat (e_compact_rows E)) Rs = Rs" by (auto simp: open_last_def)
    moreover have "next_writer E k = k" using False by (auto simp: next_writer_def)
    ultimately show ?thesis using c by simp
  qed
  show "\<exists>w. k_current (next_writer E k) = Some w" by (auto simp: next_writer_def)
qed

lemma append_copy_copied:
  assumes c: "copied E cols flds base k (Qs @ [rs])" and row: "row_over flds row" and cols: "set cols \<subseteq> set flds"
    and n: "length rs + 1 < 2 ^ 32" and b: "\<forall>f\<in>set flds. length (col_data (e_ext E) (vals f (rs @ [row]))) < 2 ^ 63"
  shows "copied E cols flds base (append_copy E cols row k) (Qs @ [rs @ [row]])"
proof -
  let ?x = "e_ext E"
  obtain w where w: "k_current k = Some w"
    using c by (cases "k_current k") (auto simp: copied_def finished_writers_def)
  have f: "finished_writers k = k_finished k @ [w]" by (rule finished_snoc [OF w])
  have a: "list_all2 (act_ok ?x flds) (k_finished k) Qs" "act_ok ?x flds w rs"
    using c by (simp_all add: copied_def f list_all2_snoc)
  have fit: "row_fits ?x flds w row"
    unfolding row_fits_def list_all_iff
  proof (intro conjI ballI)
    show "unat (s_record_count (w_segment w)) + 1 < 2 ^ 32"
      using a(2) n by (simp add: act_ok_def unat_of_nat take_bit_nat_eq_self)
    fix f assume f: "f \<in> set flds"
    with a(2) have "col_holds ?x w f (vals f rs)" "length (col_data ?x (vals f rs)) < 2 ^ 63" by (simp_all add: act_ok_def)
    moreover have "length (col_data ?x (vals f rs)) + length (bincode_str ?x (the (hget row f))) < 2 ^ 63"
      using b f by (simp add: vals_def col_data_snoc)
    ultimately show "case column_of w f of (_, _, n) \<Rightarrow> unat n + length (bincode_str ?x (the (hget row f))) < 2 ^ 63"
      by (auto simp: col_holds_def unat_of_nat take_bit_nat_eq_self)
  qed
  have ap: "act_ok ?x flds (append_record ?x row w) (rs @ [row])" by (rule act_ok_append [OF a(2) row fit])
  have id: "s_id (w_segment w) = base + of_nat (length Qs)"
    using c by (simp add: copied_def f copy_ids_snoc)
  have rc: "s_record_count (w_segment w) = of_nat (length rs)" "k_count k = of_nat (length rs)"
    using a(2) c w by (simp_all add: copied_def act_ok_def)
  have uc: "ucast (of_nat (length rs) :: u64) = (of_nat (length rs) :: u32)"
    using n by (simp add: unsigned_of_nat take_bit_nat_eq_self)
  define u where "u = e_uuid E (k_draws k)"
  have pk: "row_pk_value ?x cols u row = row_pk_value ?x cols [] row"
    using cols row_over_get [OF row] by (intro row_pk_cong) fastforce
  define k' where "k' = append_copy E cols row k"
  have k': "k_finished k' = k_finished k" "k_current k' = Some (append_record ?x row w)" "k_next k' = k_next k"
    "k_count k' = of_nat (length rs) + 1"
    "k_index k' = snd (pi_insert ?x (row_pk_value ?x cols [] row) (base + of_nat (length Qs), of_nat (length rs)) (k_index k))"
    by (simp_all add: k'_def append_copy_def w rc uc id pk [unfolded u_def] del: of_nat_Suc)
  have wf: "pi_wf (k_index k)" using c by (simp add: copied_def)
  have f': "finished_writers k' = k_finished k @ [append_record ?x row w]" using finished_snoc [OF k'(2)] k'(1) by simp
  have l: "located (copy_ids base (Qs @ [rs @ [row]])) (Qs @ [rs @ [row]]) =
      located (copy_ids base (Qs @ [rs])) (Qs @ [rs]) @ [((base + of_nat (length Qs), of_nat (length rs)), row)]"
    by (simp add: copy_ids_snoc located_snoc)
  have g: "pi_get ?x (k_index k') = place_of ?x cols (located (copy_ids base (Qs @ [rs @ [row]])) (Qs @ [rs @ [row]]))"
    using c pidx.get_insert [OF wf] unfolding l by (auto simp: k'(5) place_of_snoc copied_def fun_eq_iff)
  have "copied E cols flds base k' (Qs @ [rs @ [row]])"
    unfolding copied_def g f' using c a(1) ap rc pidx.wf_insert [OF wf, of ?x] k'
    by (simp add: copied_def f copy_ids_snoc list_all2_snoc del: of_nat_Suc)
  then show ?thesis by (simp add: k'_def)
qed

lemma copied_step:
  assumes c: "copied E cols flds base k (chunks (unat (e_compact_rows E)) rows)" and row: "row_over flds row"
    and n: "0 < unat (e_compact_rows E)" "unat (e_compact_rows E) < 2 ^ 32"
    and b: "\<forall>f\<in>set flds. length (col_data (e_ext E) (vals f (rows @ [row]))) < 2 ^ 63"
    and cols: "set cols \<subseteq> set flds"
  shows "copied E cols flds base (append_copy E cols row (next_writer E k)) (chunks (unat (e_compact_rows E)) (rows @ [row]))"
proof -
  let ?n = "unat (e_compact_rows E)" and ?Rs = "chunks (unat (e_compact_rows E)) rows"
  obtain Qs rs where o: "open_last ?n ?Rs = Qs @ [rs]"
    by (cases "open_last ?n ?Rs" rule: rev_cases) (auto simp: open_last_def split: if_splits)
  have ch: "chunks ?n (rows @ [row]) = Qs @ [rs @ [row]]"
    by (simp add: chunks_snoc [OF n(1)] add_last_open [OF n(1)] o)
  have m: "rs @ [row] \<in> set (chunks ?n (rows @ [row]))" by (simp add: ch)
  from chunks_length [OF n(1) m] n(2) have l: "length rs + 1 < 2 ^ 32" by simp
  have "\<forall>f\<in>set flds. length (col_data (e_ext E) (vals f (rs @ [row]))) < 2 ^ 63"
    using chunk_bytes [OF n(1) m, of "e_ext E"] b by (meson le_less_trans)
  with append_copy_copied [OF next_writer_copied(1) [OF c, unfolded o] row cols l] show ?thesis by (simp add: ch)
qed

section \<open>All the rows\<close>

text \<open>The rows of a segment that are copied: those that are not deleted and that the primary index
  still points to.\<close>

definition kept_rows :: "location set \<Rightarrow> segment \<Rightarrow> row list \<Rightarrow> row list" where
  "kept_rows alive s rows = map (\<lambda>l. rows ! unat l) (filter (\<lambda>l. (s_id s, l) \<in> alive) (live_ids s))"

definition reread :: "string list \<Rightarrow> row \<Rightarrow> row" where
  "reread flds row = row_map flds (map (\<lambda>f. the (hget row f)) flds)"

lemma reread_get: "row_over flds row \<Longrightarrow> hget (reread flds row) = hget row"
  by (fastforce simp: fun_eq_iff reread_def row_map_def row_of_vals [simplified] row_over_None dest: row_over_get)

lemma reread_over:
  assumes "row_over flds row"
  shows "row_over flds (reread flds row)"
proof -
  have wf: "hwf (reread flds row)"
  proof -
    have "hwf n \<Longrightarrow> hwf (fold (\<lambda>(i, f). hput f (h i)) xs n)" for h :: "nat \<Rightarrow> string" and xs :: "(nat \<times> string) list" and n
      by (induction xs arbitrary: n) auto
    then show ?thesis by (simp add: reread_def row_map_def)
  qed
  with assms have "set (reread flds row) = set row"
    using hget_Some_iff [OF wf] hget_Some_iff [of row] reread_get [OF assms] by (auto simp: row_over_def)
  with assms wf show ?thesis by (simp add: row_over_def list_all_iff)
qed

lemma copy_rows_copied:
  assumes "copied E cols flds base k (chunks (unat (e_compact_rows E)) rows)"
    and "\<And>l. l \<in> set ls \<Longrightarrow> row_over flds (g l) \<and> get_row_values s l flds = Sliced (map (\<lambda>f. the (hget (g l) f)) flds)"
    and n: "0 < unat (e_compact_rows E)" "unat (e_compact_rows E) < 2 ^ 32"
    and "\<forall>f\<in>set flds. length (col_data (e_ext E) (vals f (rows @ map (reread flds \<circ> g) ls))) < 2 ^ 63"
    and cols: "set cols \<subseteq> set flds"
  shows "\<exists>k'. copy_rows E cols flds s ls k = Inr k' \<and>
    copied E cols flds base k' (chunks (unat (e_compact_rows E)) (rows @ map (reread flds \<circ> g) ls))"
  using assms(1,2,5)
proof (induction ls arbitrary: k rows)
  case (Cons l ls)
  let ?row = "reread flds (g l)"
  have v: "row_over flds (g l)" "get_row_values s l flds = Sliced (map (\<lambda>f. the (hget (g l) f)) flds)"
    using Cons.prems(2) by simp_all
  have "\<forall>f\<in>set flds. length (col_data (e_ext E) (vals f (rows @ [?row]))) < 2 ^ 63"
    using Cons.prems(3) by (auto simp: vals_def col_data_def)
  from copied_step [OF Cons.prems(1) reread_over [OF v(1)] n this cols]
  have st: "copied E cols flds base (append_copy E cols ?row (next_writer E k)) (chunks (unat (e_compact_rows E)) (rows @ [?row]))" .
  show ?case using Cons.IH [OF st] Cons.prems(2,3) by (simp add: v(2) reread_def Let_def)
qed simp

lemma copy_segment_copied:
  assumes "copied E cols flds base k (chunks (unat (e_compact_rows E)) rows)"
    and im: "imm_ok flds s R"
    and n: "0 < unat (e_compact_rows E)" "unat (e_compact_rows E) < 2 ^ 32"
    and b: "\<forall>f\<in>set flds. length (col_data (e_ext E) (vals f (rows @ map (reread flds) (kept_rows alive s R)))) < 2 ^ 63"
    and cols: "set cols \<subseteq> set flds"
  shows "\<exists>k'. copy_segment E cols flds alive (ensure_mmaps_batch (s_dir s) flds s) k = Inr k' \<and>
    copied E cols flds base k' (chunks (unat (e_compact_rows E)) (rows @ map (reread flds) (kept_rows alive s R)))"
proof -
  let ?s = "ensure_mmaps_batch (s_dir s) flds s"
  have same: "s_id ?s = s_id s" "live_ids ?s = live_ids s" by (simp_all add: live_ids_def)
  let ?ls = "filter (\<lambda>l. (s_id s, l) \<in> alive) (live_ids s)"
  have h: "cache_ok flds (s_dir s) s" "holds_rows flds (s_dir s) s R" using im by (simp_all add: imm_ok_def)
  have "row_over flds (R ! unat l) \<and> get_row_values ?s l flds = Sliced (map (\<lambda>f. the (hget (R ! unat l) f)) flds)"
    if "l \<in> set ?ls" for l
  proof -
    have "unat l < length R"
      using that h(2) by (auto simp: live_ids_def holds_rows_def unsigned_of_nat take_bit_nat_eq_self)
    moreover have "get_row_values ?s l flds = Sliced (map (\<lambda>f. the (hget (R ! unat l) f)) flds)"
    proof -
      have "(case m of None \<Rightarrow> Sliced [] | Some p \<Rightarrow> read_value_from_mmap p l) = cell_via m l" for m
        by (simp add: cell_via_def split: option.split)
      moreover have "cell_via (hget (s_mmap_cache ?s) f) l = Sliced (the (hget (R ! unat l) f))" if "f \<in> set flds" for f
        using h(2) that \<open>unat l < length R\<close> [THEN h(2) [unfolded holds_rows_def, THEN conjunct2, THEN conjunct2, THEN conjunct2, rule_format, OF that]]
        by (simp add: ensure_cache [OF h(1) that] cell_at_def cell_via_def)
      ultimately show ?thesis
        by (simp add: get_row_values_def get_row_values_from_mmaps_def get_mmaps_batch_def sliced_list_map comp_def)
    qed
    ultimately show ?thesis using h(2) by (simp add: holds_rows_def)
  qed
  from copy_rows_copied [where ls = ?ls, OF assms(1) this n _ cols] b show ?thesis
    by (simp add: copy_segment_def same kept_rows_def comp_def)
qed

definition all_kept :: "location set \<Rightarrow> segment list \<Rightarrow> row list list \<Rightarrow> row list" where
  "all_kept alive segs A = concat (map2 (kept_rows alive) segs A)"

lemma copy_all_copied:
  assumes "copied E cols flds base k (chunks (unat (e_compact_rows E)) rows)"
    and "list_all2 (imm_ok flds) segs A"
    and n: "0 < unat (e_compact_rows E)" "unat (e_compact_rows E) < 2 ^ 32"
    and "\<forall>f\<in>set flds. length (col_data (e_ext E) (vals f (rows @ map (reread flds) (all_kept alive segs A)))) < 2 ^ 63"
    and cols: "set cols \<subseteq> set flds"
  shows "\<exists>k'. copy_all E cols flds alive (map (\<lambda>s. ensure_mmaps_batch (s_dir s) flds s) segs) k = Inr k' \<and>
    copied E cols flds base k' (chunks (unat (e_compact_rows E)) (rows @ map (reread flds) (all_kept alive segs A)))"
  using assms(2,1,5)
proof (induction arbitrary: k rows rule: list_all2_induct)
  case Nil
  then show ?case by (simp add: copy_all_def all_kept_def)
next
  case (Cons s segs R A)
  have "\<forall>f\<in>set flds. length (col_data (e_ext E) (vals f (rows @ map (reread flds) (kept_rows alive s R)))) < 2 ^ 63"
    using Cons.prems(2) by (auto simp: all_kept_def vals_def col_data_def)
  from copy_segment_copied [OF Cons.prems(1) Cons.hyps(1) n this cols] obtain k' where
    k': "copy_segment E cols flds alive (ensure_mmaps_batch (s_dir s) flds s) k = Inr k'"
      "copied E cols flds base k' (chunks (unat (e_compact_rows E)) (rows @ map (reread flds) (kept_rows alive s R)))"
    by blast
  from Cons.IH [OF k'(2)] Cons.prems(2) k'(1) show ?case by (simp add: copy_all_def all_kept_def)
qed

lemma reread_vals:
  assumes "\<forall>r\<in>set rows. row_over flds r"
  shows "vals f (map (reread flds) rows) = vals f rows"
  using assms by (simp add: vals_def reread_get)

lemma reread_pk:
  assumes "row_over flds r" "set cols \<subseteq> set flds"
  shows "row_pk_value x cols u (reread flds r) = row_pk_value x cols u r"
  using assms by (simp add: row_pk_value_def reread_get)

text \<open>Two segments with the rows \<open>x\<close> and \<open>y\<close>; \<open>y\<close> is deleted in the first.\<close>

definition small_compact_env :: "(u128, postings) hmap env" where
  "small_compact_env = small_env\<lparr>e_compact_rows := 2\<rparr>"

definition xy_rows :: "row list" where
  "xy_rows = [[(''id'', ''x'')], [(''id'', ''y'')]]"

definition xy_segment :: "u64 \<Rightarrow> bitmap \<Rightarrow> segment" where
  "xy_segment i dels = (segment_new i)\<lparr>s_record_count := 2, s_deleted := dels,
     s_dir := [(dat_file ''id'', col_data ascii_ext [''x'', ''y'']), (off_file ''id'', offsets_from ascii_ext 0 [''x'', ''y''])]\<rparr>"

lemma xy_ok: "imm_ok [''id''] (xy_segment i dels) xy_rows"
proof -
  have c: "length (col_data ascii_ext [''x'', ''y'']) < 2 ^ 63" by (simp add: col_data_def ascii_ext_def)
  have u: "utf8_valid ''x''" "utf8_valid ''y''" by (simp_all add: utf8_valid.simps utf8_head_def bval_def)
  have "cell_at (s_dir (xy_segment i dels)) ''id'' (of_nat j) = Sliced ([''x'', ''y''] ! j)" if "j < 2" for j
    using read_cell [OF ascii_layout _ c, of j] u that
    by (auto simp: less_2_cases_iff cell_at_def pair_in_def read_value_from_mmap_def xy_segment_def from_utf8_lossy_valid hget_Cons dat_file_def off_file_def)
  moreover have "[''x'', ''y''] ! j = the (hget (xy_rows ! j) ''id'')" if "j < 2" for j
    using that by (auto simp: less_2_cases_iff xy_rows_def hget_Cons)
  moreover have "\<forall>r\<in>set xy_rows. row_over [''id''] r" "length xy_rows = 2"
    using u by (simp_all add: xy_rows_def row_over_def hwf_Cons)
  moreover have "s_record_count (xy_segment i dels) = 2" "s_mmap_cache (xy_segment i dels) = []"
    by (simp_all add: xy_segment_def segment_new_def)
  ultimately show ?thesis by (simp add: imm_ok_def cache_ok_def holds_rows_def)
qed

lemma xy_kept: "all_kept {(5, 0), (6, 0), (6, 1)} [xy_segment 5 {1}, xy_segment 6 {}] [xy_rows, xy_rows] =
    [[(''id'', ''x'')], [(''id'', ''x'')], [(''id'', ''y'')]]"
proof -
  have "live_ids (xy_segment 5 {1}) = [0]" "live_ids (xy_segment 6 {}) = [0, 1]" by (simp_all add: live_ids_def xy_segment_def upt_rec)
  then show ?thesis by (simp add: all_kept_def kept_rows_def xy_rows_def) (simp add: xy_segment_def segment_new_def)
qed

text \<open>C3: Compaction copies exactly the live rows. The new writers hold, in order, the rows of the
  immutable segments that are not deleted and that the primary index points to, cut into segments of
  the target size (none empty, only the last may be shorter); their temporary ids are consecutive, no
  row of them is deleted, and the new primary index maps a key to the place of the last copied row
  that has it.\<close>

theorem compaction_copies_live_rows:
  fixes E :: "'c env"
  assumes segs: "list_all2 (imm_ok flds) segs A"
    and n: "0 < unat (e_compact_rows E)" "unat (e_compact_rows E) < 2 ^ 32"
    and b: "\<forall>f\<in>set flds. length (col_data (e_ext E) (vals f (all_kept alive segs A))) < 2 ^ 63"
    and cols: "set cols \<subseteq> set flds"
    and k0: "finished_writers k0 = []" "k_index k0 = primary_index_new"
  shows "\<exists>k. copy_all E cols flds alive (map (\<lambda>s. ensure_mmaps_batch (s_dir s) flds s) segs) k0 = Inr k \<and>
    (\<exists>rows. map hget rows = map hget (all_kept alive segs A) \<and>
      (let Rs = chunks (unat (e_compact_rows E)) rows; ids = copy_ids (k_next k0) Rs in
        list_all2 (act_ok (e_ext E) flds) (finished_writers k) Rs \<and>
        map (s_id \<circ> w_segment) (finished_writers k) = ids \<and>
        list_all (\<lambda>w. s_deleted (w_segment w) = {}) (finished_writers k) \<and>
        pi_get (e_ext E) (k_index k) = place_of (e_ext E) cols (located ids Rs)))"
proof -
  have over: "\<forall>r\<in>set (all_kept alive segs A). row_over flds r"
  proof
    fix r assume "r \<in> set (all_kept alive segs A)"
    then obtain s R where sR: "(s, R) \<in> set (zip segs A)" "r \<in> set (kept_rows alive s R)" by (auto simp: all_kept_def)
    then have h: "holds_rows flds (s_dir s) s R" using segs by (auto simp: list_all2_iff imm_ok_def)
    then have "r \<in> set R" using sR(2)
      by (auto simp: kept_rows_def live_ids_def holds_rows_def unsigned_of_nat take_bit_nat_eq_self)
    with h show "row_over flds r" by (simp add: holds_rows_def)
  qed
  have "copied E cols flds (k_next k0) k0 (chunks (unat (e_compact_rows E)) [])"
    using k0 pidx.wf_empty
    by (auto simp: copied_def finished_writers_def copy_ids_def located_def place_of_def pidx.get_empty fun_eq_iff split: option.splits)
  from copy_all_copied [OF this segs n _ cols, of alive] b obtain k where
    k: "copy_all E cols flds alive (map (\<lambda>s. ensure_mmaps_batch (s_dir s) flds s) segs) k0 = Inr k"
      "copied E cols flds (k_next k0) k (chunks (unat (e_compact_rows E)) (map (reread flds) (all_kept alive segs A)))"
    by (auto simp: reread_vals [OF over])
  have "map hget (map (reread flds) (all_kept alive segs A)) = map hget (all_kept alive segs A)"
    using over by (simp add: reread_get)
  with k show ?thesis
    by (intro exI [of _ k] conjI exI [of _ "map (reread flds) (all_kept alive segs A)"])
      (simp_all add: copied_def Let_def list_all_iff)
qed

theorem compaction_copies_live_rows_witness:
  "\<exists>k. copy_all small_compact_env [''id''] [''id''] {(5, 0), (6, 0), (6, 1)}
      (map (\<lambda>s. ensure_mmaps_batch (s_dir s) [''id''] s) [xy_segment 5 {1}, xy_segment 6 {}])
      \<lparr>k_finished = [], k_current = None, k_count = 0, k_next = 1000006, k_index = primary_index_new, k_draws = 0\<rparr> = Inr k \<and>
    map (s_record_count \<circ> w_segment) (finished_writers k) = [2, 1] \<and>
    pi_get ascii_ext (k_index k) ''x'' = Some (1000006, 1)"
proof -
  have e: "unat (e_compact_rows small_compact_env) = 2" "e_ext small_compact_env = ascii_ext"
    by (simp_all add: small_compact_env_def small_env_def)
  let ?k = "\<lparr>k_finished = [], k_current = None, k_count = 0, k_next = 1000006 :: u64, k_index = primary_index_new, k_draws = 0\<rparr>"
  have segs: "list_all2 (imm_ok [''id'']) [xy_segment 5 {1}, xy_segment 6 {}] [xy_rows, xy_rows]" by (simp add: xy_ok)
  have b: "\<forall>f\<in>set [''id'']. length (col_data (e_ext small_compact_env) (vals f
      (all_kept {(5, 0), (6, 0), (6, 1)} [xy_segment 5 {1}, xy_segment 6 {}] [xy_rows, xy_rows]))) < 2 ^ 63"
    unfolding xy_kept by (simp add: e vals_def hget_Cons col_data_def ascii_ext_def)
  have f0: "finished_writers ?k = []" by (simp add: finished_writers_def)
  note h = compaction_copies_live_rows [where ?k0.0 = ?k and cols = "[''id'']", OF segs _ _ b _ f0, unfolded xy_kept Let_def e]
  have "\<exists>k. copy_all small_compact_env [''id''] [''id''] {(5, 0), (6, 0), (6, 1)}
      (map (\<lambda>s. ensure_mmaps_batch (s_dir s) [''id''] s) [xy_segment 5 {1}, xy_segment 6 {}]) ?k = Inr k \<and>
    (\<exists>rows. map hget rows = map hget [[(''id'', ''x'')], [(''id'', ''x'')], [(''id'', ''y'')]] \<and>
      list_all2 (act_ok ascii_ext [''id'']) (finished_writers k) (chunks 2 rows) \<and>
      pi_get ascii_ext (k_index k) = place_of ascii_ext [''id''] (located (copy_ids 1000006 (chunks 2 rows)) (chunks 2 rows)))"
    by (rule ex_forward [OF h]) (simp_all, elim conjE exE, intro exI conjI, assumption+)
  then obtain k rows where k: "copy_all small_compact_env [''id''] [''id''] {(5, 0), (6, 0), (6, 1)}
      (map (\<lambda>s. ensure_mmaps_batch (s_dir s) [''id''] s) [xy_segment 5 {1}, xy_segment 6 {}]) ?k = Inr k"
    "map hget rows = map hget [[(''id'', ''x'')], [(''id'', ''x'')], [(''id'', ''y'')]]"
    "list_all2 (act_ok ascii_ext [''id'']) (finished_writers k) (chunks 2 rows)"
    "pi_get ascii_ext (k_index k) = place_of ascii_ext [''id''] (located (copy_ids 1000006 (chunks 2 rows)) (chunks 2 rows))"
    by (elim exE conjE) (rule that)
  obtain r1 r2 r3 where rows: "rows = [r1, r2, r3]" "hget r1 = hget [(''id'', ''x'')]" "hget r2 = hget [(''id'', ''x'')]"
      "hget r3 = hget [(''id'', ''y'')]"
    using k(2) by (auto simp: map_eq_Cons_conv)
  then have c: "chunks 2 rows = [[r1, r2], [r3]]" by (simp add: chunks_long chunks_short)
  have "map (s_record_count \<circ> w_segment) (finished_writers k) = [2, 1]"
    using k(3) unfolding c by (auto simp: list_all2_Cons2 act_ok_def)
  moreover have "place_of ascii_ext [''id''] (located (copy_ids 1000006 (chunks 2 rows)) (chunks 2 rows)) ''x'' = Some (1000006, 1)"
    unfolding c by (simp add: place_of_def located_def copy_ids_def row_pk_value_def rows hget_Cons pi_hash_def)
      (simp add: ascii_ext_def canonical_bytes_def from_le128_def bval_def)
  ultimately show ?thesis using k(1,4) by auto
qed

end
