(* ===== verification/Table_Update.thy ===== *)
theory Table_Update
  imports Table_Store
begin

text \<open>
  Reconciliation and updates of a table (\<^verbatim>\<open>src/core/storage/table.rs\<close>): on a table whose invariant holds,
  \<^verbatim>\<open>reconcile_orphan_rows\<close> finds nothing to repair, and an update is the deletion of the old key followed by the
  insertion of the new row.
\<close>

section \<open>The keys that reconciliation reads\<close>

lemma read_cells:
  assumes "cache_ok fs dir s" "holds_rows fs dir s R" "unat l < length R" "set cols \<subseteq> set fs"
  shows "get_row_values (ensure_mmaps_batch dir cols s) l cols = Sliced (map (\<lambda>f. the (hget (R ! unat l) f)) cols)"
proof -
  have "cell_at dir f (of_nat (unat l)) = Sliced (the (hget (R ! unat l) f))" if "f \<in> set fs" for f
    using assms(2,3) that unfolding holds_rows_def by blast
  then have c: "cell_via (hget (s_mmap_cache (ensure_mmaps_batch dir cols s)) f) l = Sliced (the (hget (R ! unat l) f))"
    if "f \<in> set cols" for f
    using that assms(4) ensure_cache [OF assms(1), of f cols] by (auto simp: cell_at_def cell_via_def)
  have "(case m of None \<Rightarrow> Sliced [] | Some p \<Rightarrow> read_value_from_mmap p l) = cell_via m l" for m
    by (simp add: cell_via_def split: option.split)
  with c show ?thesis
    by (simp add: get_row_values_def get_row_values_from_mmaps_def get_mmaps_batch_def sliced_list_map comp_def)
qed

lemma zip_put_get:
  "hget (fold (\<lambda>(c, v). hput c v) (zip cols (map g cols)) m) c = (if c \<in> set cols then Some (g c) else hget m c)"
  by (induction cols arbitrary: m) auto

lemma resolve_key:
  assumes "cache_ok fs dir s" "holds_rows fs dir s R" "unat l < length R" "set cols \<subseteq> set fs" "cols \<noteq> []"
  shows "resolve_row_pk_from_segment_row x cols (ensure_mmaps_batch dir cols s) l = Sliced (Some (row_pk_value x cols [] (R ! unat l)))"
proof -
  let ?row = "R ! unat l"
  have ov: "row_over fs ?row" using assms(2,3) by (simp add: holds_rows_def)
  have get: "hget ?row c = Some (the (hget ?row c))" if "c \<in> set cols" for c
    using row_over_get [OF ov, of c] that assms(4) by fastforce
  have "row_pk_value x cols [] (fold (\<lambda>(c, v). hput c v) (zip cols (map (\<lambda>f. the (hget ?row f)) cols)) []) = row_pk_value x cols [] ?row"
    using get by (intro row_pk_cong) (auto simp: zip_put_get)
  moreover have "hd (map (\<lambda>f. the (hget ?row f)) cols) = row_pk_value x cols [] ?row" if "length cols = 1" "cols ! 0 = ''PK''"
    using that get by (cases cols) (auto simp: row_pk_value_def hdefault_def split: option.split)
  ultimately show ?thesis
    using assms(5) by (simp add: resolve_row_pk_from_segment_row_def read_cells [OF assms(1-4)])
qed

section \<open>The locations it collects\<close>

definition note_location :: "string \<times> location \<Rightarrow> (string, location list) hmap \<Rightarrow> (string, location list) hmap" where
  "note_location p m = (if fst p \<noteq> [] then hput (fst p) (hdefault [] (hget m (fst p)) @ [snd p]) m else m)"

lemma collect_ids_noted:
  "(\<And>l. l \<in> set ls \<Longrightarrow> resolve_row_pk_from_segment_row x cols s l = Sliced (Some (key l))) \<Longrightarrow>
   collect_ids x cols s ls m = Inr (fold note_location (map (\<lambda>l. (key l, (s_id s, l))) ls) m)"
  by (induction ls arbitrary: m) (simp_all add: note_location_def)

lemma noted_get:
  "hget (fold note_location ps []) pk =
     (let ls = map snd (filter (\<lambda>p. fst p = pk) ps) in if pk = [] \<or> ls = [] then None else Some ls)"
proof (induction ps rule: rev_induct)
  case (snoc p ps)
  then show ?case by (auto simp: note_location_def Let_def)
qed simp

lemma noted_wf: "hwf (fold note_location ps [])"
proof -
  have "hwf m \<Longrightarrow> hwf (fold note_location ps m)" for m
    by (induction ps arbitrary: m) (auto simp: note_location_def)
  then show ?thesis by simp
qed

text \<open>With one location per key there is nothing to mark and nothing to repoint.\<close>

lemma noted_single:
  assumes "distinct ps" "\<And>p q. p \<in> set ps \<Longrightarrow> q \<in> set ps \<Longrightarrow> fst p = fst q \<Longrightarrow> p = q"
    and "(pk, ls) \<in> set (fold note_location ps [])"
  shows "\<exists>loc. ls = [loc] \<and> (pk, loc) \<in> set ps"
proof -
  from assms(3) have "hget (fold note_location ps []) pk = Some ls" using noted_wf hget_Some_iff by metis
  then have ls: "ls = map snd (filter (\<lambda>p. fst p = pk) ps)" "ls \<noteq> []" by (auto simp: noted_get Let_def split: if_splits)
  let ?f = "filter (\<lambda>p. fst p = pk) ps"
  from ls obtain p r where f: "?f = p # r" by (cases ?f) auto
  have "distinct ?f" using assms(1) by simp
  moreover have "q = p" if "q \<in> set r" for q
  proof -
    have "q \<in> set ?f" "p \<in> set ?f" using that f by simp_all
    then show ?thesis using assms(2) by auto
  qed
  ultimately have "r = []" using f by (cases r) auto
  moreover have "p \<in> set ps \<and> fst p = pk" using f filter_set [of "\<lambda>p. fst p = pk" ps] by auto
  ultimately show ?thesis using ls f by (cases p) auto
qed

lemma no_orphans: "(\<And>pk ls. (pk, ls) \<in> set m \<Longrightarrow> length ls < 2) \<Longrightarrow> find_orphans m = []"
proof -
  assume a: "\<And>pk ls. (pk, ls) \<in> set m \<Longrightarrow> length ls < 2"
  have "fold (\<lambda>(pk, locs) acc. if length locs < 2 then acc
      else fold (\<lambda>(seg, l) acc. if (seg, l) \<noteq> max_loc locs then hput seg (hdefault [] (hget acc seg) @ [l]) acc else acc) locs acc) m acc = acc"
    for acc using a
  proof (induction m arbitrary: acc)
    case (Cons p m)
    obtain pk ls where p: "p = (pk, ls)" by (cases p)
    with Cons.prems [of pk ls] have "length ls < 2" by simp
    moreover have "length l < 2" if "(k, l) \<in> set m" for k l using Cons.prems [of k l] that by auto
    ultimately show ?case using Cons.IH p by simp
  qed simp
  then show ?thesis by (simp add: find_orphans_def)
qed

lemma repoint_same:
  "(\<And>pk loc. (pk, loc) \<in> set ps \<Longrightarrow> pi_get x idx pk = Some loc) \<Longrightarrow> fold (repoint x) ps idx = idx"
  by (induction ps) (auto simp: repoint_def)

section \<open>The live rows of the segments\<close>

definition seg_keys :: "'c env \<Rightarrow> 'c table \<Rightarrow> segment \<Rightarrow> row list \<Rightarrow> (string \<times> location) list" where
  "seg_keys E t s R = map (\<lambda>l. (pk_of E t (R ! unat l), (s_id s, l))) (live_ids s)"

lemma live_ids_rows:
  assumes "s_record_count s = of_nat (length R)" "length R < 2 ^ 32"
  shows "set (live_ids s) = {l. l \<notin> s_deleted s \<and> unat l < length R}" "distinct (live_ids s)"
proof -
  have n: "unat (ucast (s_record_count s) :: u32) = length R"
    using assms(2) by (simp add: assms(1) unsigned_of_nat take_bit_nat_eq_self)
  have "l \<in> of_nat ` {0 ..< length R} \<longleftrightarrow> unat l < length R" for l :: u32
    using assms(2) by (auto simp: image_iff unat_of_nat take_bit_nat_eq_self intro!: bexI [of _ "unat l"])
  then show "set (live_ids s) = {l. l \<notin> s_deleted s \<and> unat l < length R}" by (auto simp: live_ids_def n)
  have "inj_on (of_nat :: nat \<Rightarrow> u32) {0 ..< length R}"
    using assms(2) of_nat_inj32 by (intro inj_onI) auto
  then show "distinct (live_ids s)" by (simp add: live_ids_def n distinct_map)
qed

lemma collect_segment:
  assumes "cache_ok (flds_of t) dir s" "holds_rows (flds_of t) dir s R" "set (pk_columns t) \<subseteq> set (flds_of t)"
  shows "collect_locations (e_ext E) (pk_columns t) (if s_record_count s = 0 then s else ensure_mmaps_batch dir (pk_columns t) s) m =
    Inr (fold note_location (seg_keys E t s R) m)"
proof (cases "s_record_count s = 0")
  case True
  then show ?thesis by (simp add: collect_locations_def seg_keys_def live_ids_def)
next
  case False
  let ?s = "ensure_mmaps_batch dir (pk_columns t) s"
  have s: "s_record_count s = of_nat (length R)" "length R < 2 ^ 32" using assms(2) by (simp_all add: holds_rows_def)
  have same: "live_ids ?s = live_ids s" "s_id ?s = s_id s" "s_record_count ?s = s_record_count s" by (simp_all add: live_ids_def)
  have cols: "pk_columns t \<noteq> []" by (auto simp: pk_columns_def Let_def)
  have "collect_ids (e_ext E) (pk_columns t) ?s (live_ids ?s) m =
      Inr (fold note_location (map (\<lambda>l. (pk_of E t (R ! unat l), (s_id ?s, l))) (live_ids ?s)) m)"
    by (rule collect_ids_noted) (use resolve_key [OF assms(1,2) _ assms(3) cols] live_ids_rows [OF s] same in \<open>simp add: pk_of_def\<close>)
  with False same show ?thesis by (simp add: collect_locations_def seg_keys_def)
qed

text \<open>All live rows: those of the immutable segments, then those of the active one.\<close>

definition all_keys :: "'c env \<Rightarrow> 'c table \<Rightarrow> row list list \<Rightarrow> row list \<Rightarrow> (string \<times> location) list" where
  "all_keys E t A B = concat (map2 (seg_keys E t) (t_immutable t) A) @
     (case t_active t of None \<Rightarrow> [] | Some w \<Rightarrow> seg_keys E t (w_segment w) B)"

lemma collect_immutable:
  assumes "list_all2 (imm_ok (flds_of t)) ss A" "set (pk_columns t) \<subseteq> set (flds_of t)"
  shows "fold_r (collect_locations (e_ext E) (pk_columns t))
      (map (\<lambda>s. if s_record_count s = 0 then s else ensure_mmaps_batch (s_dir s) (pk_columns t) s) ss) m =
    Inr (fold note_location (concat (map2 (seg_keys E t) ss A)) m)"
  using assms(1)
proof (induction arbitrary: m rule: list_all2_induct)
  case (Cons s ss R A)
  then have "cache_ok (flds_of t) (s_dir s) s" "holds_rows (flds_of t) (s_dir s) s R" by (simp_all add: imm_ok_def)
  from collect_segment [OF this assms(2)] Cons.IH show ?case by simp
qed simp

text \<open>Every collected location is that of a live row, under its key, and none comes twice.\<close>

lemma seg_keys_set:
  assumes "s_record_count s = of_nat (length R)" "length R < 2 ^ 32"
  shows "set (seg_keys E t s R) = {(pk_of E t (R ! unat l), (s_id s, l)) | l. l \<notin> s_deleted s \<and> unat l < length R}"
    "distinct (map snd (seg_keys E t s R))"
  using live_ids_rows [OF assms] by (auto simp: seg_keys_def distinct_map inj_on_def comp_def)

lemma rep_counts:
  assumes "rep E t A B" "t_active t = Some w"
  shows "s_record_count (w_segment w) = of_nat (length B)" "length B < 2 ^ 32"
    "\<And>k. k < length A \<Longrightarrow> s_record_count (t_immutable t ! k) = of_nat (length (A ! k)) \<and> length (A ! k) < 2 ^ 32"
    "length (t_immutable t) = length A"
  using active_ok [OF assms] assms(1)
  by (auto simp: act_ok_def rep_def list_all2_conv_all_nth imm_ok_def holds_rows_def)

lemma all_keys_live:
  assumes "rep E t A B" "(pk, loc) \<in> set (all_keys E t A B)"
  shows "\<exists>row. live_at t A B loc row \<and> pk = pk_of E t row"
proof -
  obtain w where w: "t_active t = Some w" and h: "heads t = seg_head (w_segment w) # map seg_head (t_immutable t)"
    using rep_active [OF assms(1)] by blast
  note c = rep_counts [OF assms(1) w]
  from assms(2) w consider "(pk, loc) \<in> set (seg_keys E t (w_segment w) B)"
    | k where "k < length A" "(pk, loc) \<in> set (seg_keys E t (t_immutable t ! k) (A ! k))"
    using c(4) by (auto simp: all_keys_def set_zip)
  then show ?thesis
  proof cases
    case 1
    then obtain l where "pk = pk_of E t (B ! unat l)" "loc = (s_id (w_segment w), l)" "l \<notin> s_deleted (w_segment w)" "unat l < length B"
      unfolding seg_keys_set(1) [OF c(1,2)] by blast
    then show ?thesis by (auto simp: live_at_def h holds_at_Cons seg_head_def)
  next
    case 2
    then obtain l where l: "pk = pk_of E t (A ! k ! unat l)" "loc = (s_id (t_immutable t ! k), l)"
      "l \<notin> s_deleted (t_immutable t ! k)" "unat l < length (A ! k)"
      using seg_keys_set(1) [of "t_immutable t ! k" "A ! k" E t] c(3) [OF 2(1)] by auto
    have "(seg_head (t_immutable t ! k), A ! k) \<in> set (zip (map seg_head (t_immutable t)) A)"
      using 2(1) c(4) by (auto simp: in_set_zip intro!: exI [of _ k])
    with l show ?thesis by (force simp: live_at_def h holds_at_def seg_head_def)
  qed
qed

lemma append_apart:
  "distinct ps \<Longrightarrow> distinct qs \<Longrightarrow> fst ` snd ` set ps \<subseteq> I \<Longrightarrow> fst ` snd ` set qs \<subseteq> J \<Longrightarrow> I \<inter> J = {} \<Longrightarrow>
   distinct (ps @ qs) \<and> fst ` snd ` set (ps @ qs) \<subseteq> I \<union> J"
  for ps qs :: "(string \<times> location) list"
  by (auto simp: image_subset_iff)

lemma seg_keys_apart:
  assumes "s_record_count s = of_nat (length R)" "length R < 2 ^ 32"
  shows "distinct (seg_keys E t s R)" "fst ` snd ` set (seg_keys E t s R) \<subseteq> {s_id s}"
  using seg_keys_set(2) [OF assms, of E t] unfolding distinct_map by (auto simp: seg_keys_def)

lemma concat_apart:
  assumes "length ss = length A" "distinct (map s_id ss)"
    "\<And>k. k < length A \<Longrightarrow> s_record_count (ss ! k) = of_nat (length (A ! k)) \<and> length (A ! k) < 2 ^ 32"
  shows "distinct (concat (map2 (seg_keys E t) ss A)) \<and> fst ` snd ` set (concat (map2 (seg_keys E t) ss A)) \<subseteq> set (map s_id ss)"
  using assms
proof (induction ss A rule: list_induct2)
  case (Cons s ss R A)
  have "distinct (concat (map2 (seg_keys E t) ss A)) \<and> fst ` snd ` set (concat (map2 (seg_keys E t) ss A)) \<subseteq> set (map s_id ss)"
    using Cons.prems(1) Cons.prems(2) [of "Suc _"] by (intro Cons.IH) auto
  moreover have "s_record_count s = of_nat (length R)" "length R < 2 ^ 32" using Cons.prems(2) [of 0] by simp_all
  note seg_keys_apart [OF this, of E t]
  ultimately have "distinct (seg_keys E t s R @ concat (map2 (seg_keys E t) ss A)) \<and>
      fst ` snd ` set (seg_keys E t s R @ concat (map2 (seg_keys E t) ss A)) \<subseteq> {s_id s} \<union> set (map s_id ss)"
    using Cons.prems(1) by (intro append_apart) auto
  then show ?case by simp
qed simp

lemma all_keys_distinct:
  assumes "rep E t A B"
  shows "distinct (all_keys E t A B)"
proof -
  obtain w where w: "t_active t = Some w" "s_id (w_segment w) \<notin> s_id ` set (t_immutable t)" "distinct (map s_id (t_immutable t))"
    using rep_active [OF assms] by blast
  note c = rep_counts [OF assms w(1)]
  have "distinct (concat (map2 (seg_keys E t) (t_immutable t) A) @ seg_keys E t (w_segment w) B)"
    using w(2) by (intro conjunct1 [OF append_apart [OF conjunct1 [OF concat_apart [OF c(4) w(3) c(3)]] seg_keys_apart(1) [OF c(1,2)]
        conjunct2 [OF concat_apart [OF c(4) w(3) c(3)]] seg_keys_apart(2) [OF c(1,2)]]]) auto
  with w(1) show ?thesis by (simp add: all_keys_def)
qed

section \<open>Reconciliation\<close>

text \<open>The table after the reads of reconciliation.\<close>

definition after_reads :: "'c env \<Rightarrow> 'c table \<Rightarrow> 'c table" where
  "after_reads E t = t\<lparr>
     t_immutable := map (\<lambda>s. if s_record_count s = 0 then s else ensure_mmaps_batch (s_dir s) (pk_columns t) s) (t_immutable t),
     t_active := map_option (\<lambda>w. ensure_active_pk (pk_columns t)
       (if s_record_count (w_segment w) \<noteq> 0 \<and> w_dirty w then flush_buffers (e_seg E) w else w)) (t_active t)\<rparr>"

definition flushed_writer :: "'c env \<Rightarrow> segment_writer \<Rightarrow> segment_writer" where
  "flushed_writer E w = (if s_record_count (w_segment w) \<noteq> 0 \<and> w_dirty w then flush_buffers (e_seg E) w else w)"

lemma flushed_writer_ok:
  assumes "act_ok (e_ext E) fs w B"
  shows "act_ok (e_ext E) fs (flushed_writer E w) B" "s_record_count (w_segment w) \<noteq> 0 \<Longrightarrow> clean fs (flushed_writer E w)"
    "seg_head (w_segment (flushed_writer E w)) = seg_head (w_segment w)"
    "s_record_count (w_segment (flushed_writer E w)) = s_record_count (w_segment w)"
  using assms act_ok_flush_buffers [OF assms] by (auto simp: flushed_writer_def act_ok_def seg_head_def)

lemma ensured_writer_ok:
  assumes "act_ok (e_ext E) fs w B"
  shows "act_ok (e_ext E) fs (ensure_active_pk cols (flushed_writer E w)) B"
    "seg_head (w_segment (ensure_active_pk cols (flushed_writer E w))) = seg_head (w_segment w)"
proof -
  note f = flushed_writer_ok [OF assms]
  show "act_ok (e_ext E) fs (ensure_active_pk cols (flushed_writer E w)) B"
    using f act_ok_ensure(1) [OF f(1)] by (simp add: ensure_active_pk_def)
  show "seg_head (w_segment (ensure_active_pk cols (flushed_writer E w))) = seg_head (w_segment w)"
    using f(3) by (simp add: ensure_active_pk_def seg_head_def)
qed

lemma after_reads_rep:
  assumes "rep E t A B"
  shows "rep E (after_reads E t) A B" "heads (after_reads E t) = heads t" "t_manifest (after_reads E t) = t_manifest t"
    "t_primary_index (after_reads E t) = t_primary_index t"
proof -
  obtain w where w: "t_active t = Some w" "act_ok (e_ext E) (flds_of t) w B" using rep_active [OF assms] by blast
  note e = ensured_writer_ok [OF w(2), of "pk_columns t"]
  let ?t = "after_reads E t"
  have a: "t_active ?t = Some (ensure_active_pk (pk_columns t) (flushed_writer E w))"
    using w(1) by (simp add: after_reads_def flushed_writer_def)
  show h: "heads ?t = heads t"
    using w(1) a e(2) by (simp add: heads_def) (simp add: after_reads_def seg_head_def)
  show m: "t_manifest ?t = t_manifest t" "t_primary_index ?t = t_primary_index t" by (simp_all add: after_reads_def)
  have fl: "flds_of ?t = flds_of t" "pk_columns ?t = pk_columns t" using m by (simp_all add: flds_of_def pk_columns_def)
  have "list_all2 (imm_ok (flds_of t)) (t_immutable ?t) A"
    using assms imm_ok_ensure by (auto simp: rep_def after_reads_def list_all2_conv_all_nth)
  with assms a e(1) show "rep E ?t A B" by (simp add: rep_def h fl)
qed

lemma seg_keys_cong:
  "seg_head s' = seg_head s \<Longrightarrow> s_record_count s' = s_record_count s \<Longrightarrow> seg_keys E t s' R = seg_keys E t s R"
  by (simp add: seg_keys_def live_ids_def seg_head_def)

lemma collected:
  assumes x: "str_layout (e_ext E)" and r: "rep E t A B"
  shows "rbind (fold_r (collect_locations (e_ext E) (pk_columns t))
      (map (\<lambda>s. if s_record_count s = 0 then s else ensure_mmaps_batch (s_dir s) (pk_columns t) s) (t_immutable t)) [])
      (\<lambda>locs. case t_active (after_reads E t) of None \<Rightarrow> Inr locs
        | Some w \<Rightarrow> collect_locations (e_ext E) (pk_columns t) (w_segment w) locs) =
    Inr (fold note_location (all_keys E t A B) [])"
proof -
  obtain w where w: "t_active t = Some w" "act_ok (e_ext E) (flds_of t) w B" using rep_active [OF r] by blast
  note f = flushed_writer_ok [OF w(2)]
  let ?w = "flushed_writer E w" and ?cols = "pk_columns t"
  have cols: "set ?cols \<subseteq> set (flds_of t)" and imm: "list_all2 (imm_ok (flds_of t)) (t_immutable t) A" using r by (simp_all add: rep_def)
  have a: "t_active (after_reads E t) = Some (ensure_active_pk ?cols ?w)"
    using w(1) by (simp add: after_reads_def flushed_writer_def)
  have "collect_locations (e_ext E) ?cols (w_segment (ensure_active_pk ?cols ?w)) m = Inr (fold note_location (seg_keys E t (w_segment w) B) m)"
    for m
  proof (cases "s_record_count (w_segment w) = 0")
    case True
    with f(4) show ?thesis
      by (simp add: ensure_active_pk_def collect_locations_def seg_keys_def live_ids_def)
  next
    case False
    with f have c: "clean (flds_of t) ?w" by blast
    have "cache_ok (flds_of t) (writer_dir ?w) (w_segment ?w)" using c by (simp add: clean_def)
    from collect_segment [OF this clean_holds [OF x f(1) c] cols, of E m] False f(4) seg_keys_cong [OF f(3,4), of E t B]
    show ?thesis by (simp add: ensure_active_pk_def)
  qed
  with collect_immutable [OF imm cols] w(1) a show ?thesis by (simp add: all_keys_def)
qed

definition repaired :: "'c env \<Rightarrow> (string, location list) hmap \<Rightarrow> 'c table \<Rightarrow> table_error + 'c table" where
  "repaired E locs t = (let t = fold (mark_orphans E) (find_orphans locs) t in
     Inr (t\<lparr>t_primary_index := fold (repoint (e_ext E)) (latest_per_pk locs) (t_primary_index t)\<rparr>))"

lemma reconcile_two_steps:
  "reconcile_orphan_rows E t = rbind (rbind (fold_r (collect_locations (e_ext E) (pk_columns t))
      (map (\<lambda>s. if s_record_count s = 0 then s else ensure_mmaps_batch (s_dir s) (pk_columns t) s) (t_immutable t)) [])
      (\<lambda>locs. case t_active (after_reads E t) of None \<Rightarrow> Inr locs
        | Some w \<Rightarrow> collect_locations (e_ext E) (pk_columns t) (w_segment w) locs)) (\<lambda>locs. repaired E locs (after_reads E t))"
proof -
  have assoc: "rbind (rbind r f) g = rbind r (\<lambda>x. rbind (f x) g)" for r :: "table_error + (string, location list) hmap" and f g
    by (cases r) simp_all
  show ?thesis
    unfolding assoc reconcile_orphan_rows_def repaired_def after_reads_def Let_def by simp
qed

lemma reconcile_effect:
  assumes x: "str_layout (e_ext E)" and s: "store_rep E t A B"
  shows "reconcile_orphan_rows E t = Inr (after_reads E t) \<and> store_rep E (after_reads E t) A B \<and> unchanged_rows t (after_reads E t)"
proof -
  have r: "rep E t A B" and i: "index_ok E t A B" using s by (simp_all add: store_rep_def)
  let ?ps = "all_keys E t A B" and ?t = "after_reads E t"
  let ?locs = "fold note_location ?ps []"
  have pi: "pi_get (e_ext E) (t_primary_index t) pk = Some loc" if "(pk, loc) \<in> set ?ps" for pk loc
    using all_keys_live [OF r that] index_ok_live [OF i] by blast
  have one: "p = q" if h: "p \<in> set ?ps" "q \<in> set ?ps" "fst p = fst q" for p q
  proof -
    obtain k l l' where k: "p = (k, l)" "q = (k, l')" using h(3) by (cases p, cases q) simp
    have "Some l = Some l'" using pi [of k l] pi [of k l'] h(1,2) k by simp
    then show ?thesis by (simp add: k)
  qed
  have single: "\<exists>loc. ls = [loc] \<and> (pk, loc) \<in> set ?ps" if "(pk, ls) \<in> set ?locs" for pk ls
    by (rule noted_single [OF all_keys_distinct [OF r] _ that]) (rule one)
  have orphans: "find_orphans ?locs = []" 
  proof (rule no_orphans)
    fix pk ls assume "(pk, ls) \<in> set ?locs"
    from single [OF this] show "length ls < 2" by auto
  qed
  have max: "max_loc [loc] = loc" for loc by (simp add: max_loc_def)
  have "fold (repoint (e_ext E)) (latest_per_pk ?locs) (t_primary_index t) = t_primary_index t"
  proof (rule repoint_same)
    fix pk loc assume "(pk, loc) \<in> set (latest_per_pk ?locs)"
    then obtain ls where "(pk, ls) \<in> set ?locs" "loc = max_loc ls" by (auto simp: latest_per_pk_def)
    moreover from single [OF this(1)] obtain l where "ls = [l]" "(pk, l) \<in> set ?ps" by blast
    ultimately show "pi_get (e_ext E) (t_primary_index t) pk = Some loc" using max pi by simp
  qed
  moreover have "t_primary_index ?t = t_primary_index t" by (simp add: after_reads_def)
  moreover have "reconcile_orphan_rows E t = repaired E ?locs ?t"
    unfolding reconcile_two_steps collected [OF x r] by simp
  ultimately have "reconcile_orphan_rows E t = Inr ?t" by (simp add: orphans repaired_def)
  moreover have "store_rep E ?t A B"
    using after_reads_rep [OF r] index_ok_cong [of ?t t] i by (simp add: store_rep_def)
  ultimately show ?thesis using after_reads_rep [OF r] by (simp add: unchanged_rows_def)
qed

section \<open>Updating\<close>

lemma room_for_cong:
  "t_manifest t' = t_manifest t \<Longrightarrow> room_for E t' row = (row_over (flds_of t) (stored_row E t row) \<and>
     (case t_active t' of None \<Rightarrow> False | Some w \<Rightarrow> row_fits (e_ext E) (flds_of t) w (stored_row E t row)))"
proof -
  assume m: "t_manifest t' = t_manifest t"
  then have "flds_of t' = flds_of t" "pk_columns t' = pk_columns t" by (simp_all add: flds_of_def pk_columns_def)
  then show ?thesis using stored_shape [of t' t E] by (simp add: room_for_def split: option.split)
qed

lemma row_fits_mark: "row_fits x fs (w\<lparr>w_segment := mark_and_persist E ls (w_segment w)\<rparr>) row = row_fits x fs w row"
proof -
  have "column_of (w\<lparr>w_segment := mark_and_persist E ls (w_segment w)\<rparr>) f = column_of w f" for f
    by (simp add: column_of_def open_column_def writer_dir_def split: option.split)
  then show ?thesis by (simp add: row_fits_def)
qed

lemma room_after_delete: "room_for E (table_delete E i t) row = room_for E t row"
proof -
  obtain wl where d: "table_delete E i t = (case pi_get (e_ext E) (t_primary_index t) i of None \<Rightarrow> t | Some loc \<Rightarrow> tombstone E loc t)
     \<lparr>t_primary_index := snd (pi_remove (e_ext E) i (t_primary_index t)), t_wal := wl\<rparr>" using delete_form by blast
  have m: "t_manifest (tombstone E loc t) = t_manifest t" for loc by (simp add: tombstone_def split: option.split)
  have "t_manifest (table_delete E i t) = t_manifest t" unfolding d using m by (simp split: option.split)
  from room_for_cong [OF this, of E row] show ?thesis
    unfolding room_for_cong [OF refl, of E t row]
    by (auto simp: d tombstone_def row_fits_mark split: option.splits)
qed

lemma update_effect:
  assumes x: "str_layout (e_ext E)" and ok: "table_ok E t" and room: "room_for E t row"
  shows "\<exists>t'. table_update E i row t = Inr t' \<and> table_ok E t' \<and> flds_of t' = flds_of t \<and> pk_columns t' = pk_columns t \<and>
    (\<forall>q. observed E t' q = (if key_eq E q (stored_key E t row) then Some (hget (stored_row E t row))
       else if pi_hash (e_ext E) q = pi_hash (e_ext E) (stored_key E t row) \<or> pi_hash (e_ext E) q = pi_hash (e_ext E) i then None
       else observed E t q))"
proof -
  let ?d = "table_delete E i t"
  note d = delete_effect [OF x ok, of i]
  have f: "flds_of ?d = flds_of t" "pk_columns ?d = pk_columns t" using d by (simp_all add: flds_of_def pk_columns_def)
  then have sk: "stored_key E ?d = stored_key E t" "stored_row E ?d = stored_row E t" using stored_shape [of ?d t E] by simp_all
  from insert_effect [OF x conjunct1 [OF d] room_after_delete [THEN iffD2, OF room]]
  obtain t1 where t1: "table_insert E row ?d = Inr t1" "table_ok E t1" "flds_of t1 = flds_of t" "pk_columns t1 = pk_columns t"
    and o: "\<And>q. observed E t1 q = (if key_eq E q (stored_key E t row) then Some (hget (stored_row E t row))
       else if pi_hash (e_ext E) q = pi_hash (e_ext E) (stored_key E t row) then None else observed E ?d q)"
    unfolding f sk by blast
  from t1(2) obtain A B where s: "store_rep E t1 A B" by (auto simp: table_ok_def)
  let ?t = "after_reads E t1"
  have r: "reconcile_orphan_rows E t1 = Inr ?t" "store_rep E ?t A B" "unchanged_rows t1 ?t" using reconcile_effect [OF x s] by simp_all
  have "observed E ?t q = observed E t1 q" for q by (rule observed_unchanged [OF x s r(2,3)])
  moreover have "table_ok E ?t" using r(2) by (auto simp: table_ok_def)
  moreover have "flds_of ?t = flds_of t" "pk_columns ?t = pk_columns t"
    using r(3) t1(3,4) by (simp_all add: unchanged_rows_def flds_of_def pk_columns_def)
  moreover have "table_update E i row t = Inr ?t" by (simp add: table_update_def t1(1) r(1))
  ultimately show ?thesis using o d by auto
qed

section \<open>Property\<close>

text \<open>C6: An update is a delete and an insert, and the reconciliation it ends with has nothing to repair.
  On a consistent table (and every insert, delete and rotation keeps a table consistent) no key has two live rows, so
  \<open>reconcile_orphan_rows\<close> succeeds, marks no row and repoints no key: the rows, the manifest and the primary index are what
  they were, only caches and buffers change. Hence \<open>update\<close> succeeds, keeps the table consistent and shows the new row under
  its key and nothing under the old one.\<close>

theorem update_repairs_nothing:
  assumes "str_layout (e_ext E)" "table_ok E t" "room_for E t row"
  shows "(\<exists>t'. reconcile_orphan_rows E t = Inr t' \<and> table_ok E t' \<and> unchanged_rows t t') \<and>
    (\<exists>t'. table_update E i row t = Inr t' \<and> table_ok E t' \<and>
      (\<forall>q. observed E t' q = (if key_eq E q (stored_key E t row) then Some (hget (stored_row E t row))
         else if pi_hash (e_ext E) q = pi_hash (e_ext E) (stored_key E t row) \<or> pi_hash (e_ext E) q = pi_hash (e_ext E) i then None
         else observed E t q)))"
proof
  obtain A B where "store_rep E t A B" using assms(2) by (auto simp: table_ok_def)
  from reconcile_effect [OF assms(1) this] show "\<exists>t'. reconcile_orphan_rows E t = Inr t' \<and> table_ok E t' \<and> unchanged_rows t t'"
    by (auto simp: table_ok_def)
qed (use update_effect [OF assms, of i] in blast)

theorem update_repairs_nothing_witness:
  "\<exists>t'. table_update small_env ''1'' [(''id'', ''2''), (''v'', ''a'')] small_table = Inr t' \<and> table_ok small_env t' \<and>
    observed small_env t' ''2'' = Some (hget [(''id'', ''2''), (''v'', ''a'')])"
proof -
  have r: "room_for small_env small_table [(''id'', ''2''), (''v'', ''a'')]"
    by (rule small_fits) (auto simp: row_over_def hwf_Cons utf8_valid.simps utf8_head_def bval_def)
  have x: "str_layout (e_ext small_env)" using ascii_layout by (simp add: small_env_def)
  from update_repairs_nothing [OF x small_ok(1) r, of "''1''"] show ?thesis by (auto simp: small_shape small_key hget_Cons)
qed

end
