(* ===== verification/Saved_Queries.thy ===== *)
theory Saved_Queries
  imports Table_Search
begin

text \<open>
  \<^verbatim>\<open>src/core/saved_queries.rs\<close>: the operations a user has saved under a name (reads with joins, inserts,
  updates, deletes, batches), the tables they use, and their file with its migration from the two older
  files. The JSON coding of the files (\<^verbatim>\<open>serde_json\<close>) is a parameter.
\<close>

section \<open>The operations\<close>

record saved_filter =
  sf_field :: string
  sf_op :: string
  sf_value :: string
  sf_value_to :: "string option"
  sf_values :: "string list"
  sf_field_type :: "field_type option"

datatype saved_filter_tree_node = Condition saved_filter | Group saved_filter_group
and saved_filter_group = FilterGroup (fg_op: string) (fg_filters: "saved_filter_tree_node list")

record saved_order_by =
  so_field :: string
  so_direction :: string

record saved_join_condition =
  jc_left :: string
  jc_op :: string
  jc_right :: string

record saved_join =
  sj_join_type :: string
  sj_entity :: "string option"
  sj_table :: string
  sj_alias :: "string option"
  sj_on :: "saved_join_condition list"
  sj_count_matches_as :: "string option"
  sj_sum_matches_field :: "string option"
  sj_sum_matches_as :: "string option"

record saved_select_field =
  ss_field :: string
  ss_expression :: "string option"
  ss_output_name :: "string option"

record saved_auth_config =
  sa_enabled :: bool
  sa_table :: string
  sa_token_col :: string
  sa_id_col :: string
  sa_filter_col :: string
  sa_scheme :: "string option"

datatype saved_response_grouping =
  ResponseGrouping (rg_field: "string option") (rg_fields: "string list") (rg_items_as: string)
    (rg_include_group_fields_in_items: bool) (rg_children: "saved_response_grouping list")
    (rg_limit_grouping: "nat option") (rg_offset_grouping: "nat option")

record saved_collect_aggregation =
  ca_group_by :: "string option"
  ca_group_by_fields :: "string list"
  ca_items_as :: string
  ca_item_fields :: "string list"
  ca_order_by :: "saved_order_by list"
  ca_include_group_fields_in_items :: bool

record saved_split_additive_field =
  ad_target_field :: string
  ad_source_field :: string

datatype saved_query =
  SavedQuery (sq_name: string) (sq_entity: string) (sq_table: string) (sq_table_alias: "string option")
    (sq_joins: "saved_join list") (sq_filters: "saved_filter list") (sq_filter_tree: "saved_filter_tree_node option")
    (sq_filters_op: string) (sq_aggregations: "json list") (sq_order_by: "saved_order_by list")
    (sq_limit: "nat option") (sq_limit_param: "string option") (sq_selected_fields: "string list")
    (sq_select: "saved_select_field list") (sq_response_grouping: "saved_response_grouping option")
    (sq_auth_config: "saved_auth_config option") (sq_execution_profile: "saved_execution_profile option")
and saved_execution_profile = ProfileName string | Split saved_split_execution_profile
and saved_split_execution_profile =
  SplitProfile (sp_mode: string) (sp_key_field: string) (sp_ids_param: string) (sp_enrichment_key_field: "string option")
    (sp_base_join_aliases: "string list") (sp_base_select_aliases: "string list") (sp_enrichment_query: saved_query)
    (sp_merge_fields: "string list") (sp_additive_fields: "saved_split_additive_field list")
    (sp_defaults: "(string \<times> json) list") (sp_debug_label: "string option")

record saved_insert =
  si_name :: string
  si_entity :: string
  si_table :: string
  si_expected_fields :: "string list"

record saved_update =
  su_name :: string
  su_entity :: string
  su_table :: string
  su_filters :: "saved_filter list"
  su_allowed_fields :: "string list"

record saved_delete =
  sd_name :: string
  sd_entity :: string
  sd_table :: string
  sd_filters :: "saved_filter list"

record saved_batch_computed_field =
  bc_name :: string
  bc_inputs :: "(string, string) hmap"
  bc_expression :: string

record saved_batch =
  sb_name :: string
  sb_operations :: "string list"
  sb_computed_fields :: "saved_batch_computed_field list"
  sb_response_mode :: "string option"

datatype saved_operation =
    Read saved_query | Insert saved_insert | Update saved_update | Delete saved_delete | Batch saved_batch

fun op_name :: "saved_operation \<Rightarrow> string" where
  "op_name (Read q) = sq_name q"
| "op_name (Insert i) = si_name i"
| "op_name (Update u) = su_name u"
| "op_name (Delete d) = sd_name d"
| "op_name (Batch b) = sb_name b"

definition is_multi_table :: "saved_query \<Rightarrow> bool" where
  "is_multi_table q \<longleftrightarrow> sq_joins q \<noteq> []"

text \<open>\<open>as_ref().map(trim).filter(non-empty)\<close>, used for every optional name.\<close>

definition trimmed_name :: "string option \<Rightarrow> string option" where
  "trimmed_name v = (case v of None \<Rightarrow> None | Some s \<Rightarrow> if trim s = [] then None else Some (trim s))"

definition base_alias_of :: "saved_query \<Rightarrow> string" where
  "base_alias_of q = hdefault (sq_table q) (trimmed_name (sq_table_alias q))"

definition grouping_fields :: "saved_response_grouping \<Rightarrow> string list" where
  "grouping_fields g = (if rg_fields g \<noteq> [] then rg_fields g else case rg_field g of None \<Rightarrow> [] | Some f \<Rightarrow> [f])"

definition collect_fields :: "saved_collect_aggregation \<Rightarrow> string list" where
  "collect_fields c =
     (if ca_group_by_fields c \<noteq> [] then ca_group_by_fields c else case ca_group_by c of None \<Rightarrow> [] | Some f \<Rightarrow> [f])"

definition uses_api_key_sha256 :: "saved_auth_config \<Rightarrow> bool" where
  "uses_api_key_sha256 a = (case sa_scheme a of None \<Rightarrow> False | Some s \<Rightarrow> eq_ignore_ascii_case s ''api_key_sha256'')"

definition filter_to_saved :: "filter_t \<Rightarrow> saved_filter" where
  "filter_to_saved f = \<lparr>sf_field = f_field f, sf_op = op_as_str (f_op f), sf_value = f_value f, sf_value_to = f_value_to f,
     sf_values = f_options f, sf_field_type = f_type f\<rparr>"

definition order_to_saved :: "order_by \<Rightarrow> saved_order_by" where
  "order_to_saved ob = \<lparr>so_field = ob_field ob, so_direction = sort_direction_as_str (ob_direction ob)\<rparr>"

section \<open>The tables of the operations\<close>

definition ops_table_key :: "string \<Rightarrow> string \<Rightarrow> string" where
  "ops_table_key entity tbl = entity @ ''/'' @ tbl"

text \<open>The tables of a read, with those of the query a split profile runs after it.\<close>

primrec collect_read_query_tables :: "saved_query \<Rightarrow> string set"
  and profile_tables :: "saved_execution_profile \<Rightarrow> string set"
  and split_tables :: "saved_split_execution_profile \<Rightarrow> string set" where
  "collect_read_query_tables (SavedQuery nm entity tbl al joins flts tree fop aggs ob lmt lmtp sel slct grp auth prof) =
     {ops_table_key entity tbl} \<union>
     set (map (\<lambda>j. ops_table_key (hdefault entity (sj_entity j)) (sj_table j)) joins) \<union>
     (case auth of None \<Rightarrow> {} | Some a \<Rightarrow> if sa_enabled a then {ops_table_key entity (sa_table a)} else {}) \<union>
     (case map_option profile_tables prof of None \<Rightarrow> {} | Some s \<Rightarrow> s)"
| "profile_tables (ProfileName s) = {}"
| "profile_tables (Split s) = split_tables s"
| "split_tables (SplitProfile m k i e ja sa eq mf af d l) = collect_read_query_tables eq"

text \<open>The operations are visited depth first; \<open>todo\<close> holds the calls that are still to be made. A batch
  that was visited before is not expanded again.\<close>

fun batch_names :: "saved_operation list \<Rightarrow> string list" where
  "batch_names [] = []"
| "batch_names (Batch b # ops) = sb_name b # batch_names ops"
| "batch_names (_ # ops) = batch_names ops"

definition lookup_ops :: "(string, saved_operation) hmap \<Rightarrow> string list \<Rightarrow> saved_operation list" where
  "lookup_ops by_name names = List.map_filter (hget by_name) names"

lemma batch_names_set: "n \<in> set (batch_names ops) \<longleftrightarrow> (\<exists>b. Batch b \<in> set ops \<and> sb_name b = n)"
  by (induction ops rule: batch_names.induct) auto

lemma lookup_ops_set: "set (lookup_ops by_name names) \<subseteq> snd ` set by_name"
  by (auto simp: lookup_ops_def List.map_filter_def hget_def dest: map_of_SomeD)
    (metis imageI map_of_SomeD option.sel snd_conv weak_map_of_SomeI)

lemma lookup_batch_names: "set (batch_names (lookup_ops by_name names)) \<subseteq> set (batch_names (map snd by_name))"
  using lookup_ops_set [of by_name names] by (auto simp: batch_names_set) blast

lemma batch_names_append [simp]: "batch_names (xs @ ys) = batch_names xs @ batch_names ys"
  by (induction xs rule: batch_names.induct) auto

function collect_op_tables ::
    "(string, saved_operation) hmap \<Rightarrow> saved_operation list \<Rightarrow> string set \<Rightarrow> string set \<Rightarrow> string set" where
  "collect_op_tables by_name [] visited out = out"
| "collect_op_tables by_name (Read q # todo) visited out =
     collect_op_tables by_name todo visited (out \<union> collect_read_query_tables q)"
| "collect_op_tables by_name (Insert i # todo) visited out =
     collect_op_tables by_name todo visited (insert (ops_table_key (si_entity i) (si_table i)) out)"
| "collect_op_tables by_name (Update u # todo) visited out =
     collect_op_tables by_name todo visited (insert (ops_table_key (su_entity u) (su_table u)) out)"
| "collect_op_tables by_name (Delete d # todo) visited out =
     collect_op_tables by_name todo visited (insert (ops_table_key (sd_entity d) (sd_table d)) out)"
| "collect_op_tables by_name (Batch b # todo) visited out =
     (if sb_name b \<in> visited then collect_op_tables by_name todo visited out
      else collect_op_tables by_name (lookup_ops by_name (sb_operations b) @ todo) (insert (sb_name b) visited) out)"
  by pat_completeness auto
termination
proof (relation "measures [\<lambda>(by_name, todo, visited, out). card (set (batch_names (map snd by_name @ todo)) - visited),
    \<lambda>(by_name, todo, visited, out). length todo]", goal_cases)
  case (7 by_name b todo visited out)
  have "set (batch_names (map snd by_name @ lookup_ops by_name (sb_operations b) @ todo)) - insert (sb_name b) visited
      \<subset> set (batch_names (map snd by_name @ Batch b # todo)) - visited"
    using 7 lookup_batch_names [of by_name "sb_operations b"] by auto
  then have "card (set (batch_names (map snd by_name @ lookup_ops by_name (sb_operations b) @ todo)) - insert (sb_name b) visited)
      < card (set (batch_names (map snd by_name @ Batch b # todo)) - visited)"
    by (intro psubset_card_mono) auto
  then show ?case by (simp add: Un_assoc)
qed (auto intro!: card_mono)

definition collect_ops_query_table_keys :: "saved_operation list \<Rightarrow> string set" where
  "collect_ops_query_table_keys ops =
     (let by_name = fold (\<lambda>op m. hput (op_name op) op m) ops [] in collect_op_tables by_name ops {} {})"

section \<open>The file\<close>

record ops_files =
  of_ops :: "bytes option"
  of_root_ops :: "bytes option"
  of_queries :: "bytes option"

record ops_codec =
  enc_ops :: "saved_operation list \<Rightarrow> bytes"
  dec_ops :: "bytes \<Rightarrow> saved_operation list option"
  dec_queries :: "bytes \<Rightarrow> saved_query list option"

definition save_operations :: "ops_codec \<Rightarrow> saved_operation list \<Rightarrow> ops_files \<Rightarrow> ops_files" where
  "save_operations cd ops fs = fs\<lparr>of_ops := Some (enc_ops cd ops)\<rparr>"

text \<open>\<open>read_to_string\<close> fails on a file that is not UTF-8; a file that does not parse counts as empty.\<close>

datatype ops_error = InvalidUtf8

definition read_ops :: "bytes \<Rightarrow> ops_error + string" where
  "read_ops bs = (case from_utf8 bs of None \<Rightarrow> Inl InvalidUtf8 | Some s \<Rightarrow> Inr s)"

fun op_entity :: "saved_operation \<Rightarrow> string" where
  "op_entity (Read q) = sq_entity q"
| "op_entity (Insert i) = si_entity i"
| "op_entity (Update u) = su_entity u"
| "op_entity (Delete d) = sd_entity d"
| "op_entity (Batch b) = []"

definition load_operations_with_filter :: "ext \<Rightarrow> ops_codec \<Rightarrow> string option \<Rightarrow> ops_files \<Rightarrow>
    ops_error + saved_operation list \<times> ops_files" where
  "load_operations_with_filter x cd entity_filter fs =
     rbind (case (of_ops fs, of_root_ops fs, of_queries fs) of
         (Some c, _, _) \<Rightarrow> rbind (read_ops c) (\<lambda>s. Inr (hdefault [] (dec_ops cd s), fs))
       | (None, Some c, _) \<Rightarrow> rbind (read_ops c) (\<lambda>s. let all_ops = hdefault [] (dec_ops cd s) in
           Inr (all_ops, (save_operations cd all_ops fs)\<lparr>of_root_ops := None\<rparr>))
       | (None, None, Some c) \<Rightarrow> rbind (read_ops c) (\<lambda>s. case dec_queries cd s of
             None \<Rightarrow> Inr ([], fs)
           | Some qs \<Rightarrow> Inr (map Read qs, save_operations cd (map Read qs) fs))
       | (None, None, None) \<Rightarrow> Inr ([], fs)) (\<lambda>(all_ops, fs).
     Inr (case entity_filter of None \<Rightarrow> all_ops
       | Some ent \<Rightarrow> filter (\<lambda>op. op_entity op = [] \<or> to_lowercase x (op_entity op) = to_lowercase x ent) all_ops, fs))"

section \<open>Properties\<close>

fun direct_tables :: "saved_operation \<Rightarrow> string set" where
  "direct_tables (Read q) = collect_read_query_tables q"
| "direct_tables (Insert i) = {ops_table_key (si_entity i) (si_table i)}"
| "direct_tables (Update u) = {ops_table_key (su_entity u) (su_table u)}"
| "direct_tables (Delete d) = {ops_table_key (sd_entity d) (sd_table d)}"
| "direct_tables (Batch b) = {}"

lemma collect_lower: "out \<subseteq> collect_op_tables by_name todo visited out \<and>
    (\<forall>op\<in>set todo. direct_tables op \<subseteq> collect_op_tables by_name todo visited out)"
proof (induction by_name todo visited out rule: collect_op_tables.induct)
  case (6 by_name b todo visited out)
  then show ?case by (cases "sb_name b \<in> visited") simp_all
qed simp_all

lemma collect_upper:
  "(\<forall>op\<in>set todo \<union> snd ` set by_name. direct_tables op \<subseteq> K) \<Longrightarrow> out \<subseteq> K \<Longrightarrow> collect_op_tables by_name todo visited out \<subseteq> K"
proof (induction by_name todo visited out rule: collect_op_tables.induct)
  case (6 by_name b todo visited out)
  have "\<forall>op\<in>set (lookup_ops by_name (sb_operations b) @ todo) \<union> snd ` set by_name. direct_tables op \<subseteq> K"
    using 6(3) subsetD [OF lookup_ops_set [of by_name "sb_operations b"]] by (metis UnCI UnE list.set_intros(2) set_append)
  with 6 show ?case by (cases "sb_name b \<in> visited") simp_all
qed simp_all

lemma hput_subset: "set (hput k v m) \<subseteq> insert (k, v) (set m)"
  by (induction m) (auto simp: hput_def)

lemma by_name_values: "snd ` set (fold (\<lambda>op m. hput (op_name op) op m) ops m) \<subseteq> set ops \<union> snd ` set m"
proof (induction ops arbitrary: m)
  case (Cons op ops)
  have "snd ` set (hput (op_name op) op m) \<subseteq> insert op (snd ` set m)"
    using hput_subset [of "op_name op" op m] by auto
  with Cons.IH [of "hput (op_name op) op m"] show ?case by auto
qed simp

text \<open>The tables the saved operations use are those each operation names itself: following the
  operations of a batch adds nothing, and no table is missed because a name occurs twice or batches
  contain each other.\<close>

theorem collect_ops_all_tables: "collect_ops_query_table_keys ops = \<Union> (direct_tables ` set ops)"
proof -
  let ?m = "fold (\<lambda>op m. hput (op_name op) op m) ops []"
  have m: "snd ` set ?m \<subseteq> set ops" using by_name_values [of ops "[]"] by simp
  have "collect_op_tables ?m ops {} {} \<subseteq> \<Union> (direct_tables ` set ops)"
    by (rule collect_upper) (use m in auto)
  moreover have "\<Union> (direct_tables ` set ops) \<subseteq> collect_op_tables ?m ops {} {}"
    using collect_lower [of "{}" ?m ops "{}"] by (simp add: UN_subset_iff)
  ultimately show ?thesis by (simp add: collect_ops_query_table_keys_def Let_def)
qed

text \<open>A file in the old place that does not parse is replaced by an empty one and deleted.\<close>

lemma migration_drops_unreadable:
  assumes "of_ops fs = None" "of_root_ops fs = Some c" "from_utf8 c = Some s" "dec_ops cd s = None"
  shows "load_operations_with_filter x cd None fs = Inr ([], fs\<lparr>of_ops := Some (enc_ops cd []), of_root_ops := None\<rparr>)"
  using assms by (simp add: load_operations_with_filter_def read_ops_def save_operations_def)

end
