(* ===== verification/Table_Manager.thy ===== *)
theory Table_Manager
  imports Saved_Queries Table_Store
begin

text \<open>
  \<^verbatim>\<open>src/server/table_manager.rs\<close> and \<^verbatim>\<open>src/core/warm_config.rs\<close>: the cache of opened tables, with its bound
  on how many are open, the order in which tables are closed to make room, and the tables that wait for
  their periodic flush. A table that is not open is its files on the disk. The broadcast of row events
  and the locks are not modelled: the operations run one after the other.
\<close>

section \<open>Environment flags\<close>

definition flag_on :: "string \<Rightarrow> bool" where
  "flag_on v \<longleftrightarrow> map ascii_lower (trim v) \<in> {''1'', ''true'', ''yes'', ''on''}"

definition flag_off :: "string \<Rightarrow> bool" where
  "flag_off v \<longleftrightarrow> map ascii_lower (trim v) \<in> {''0'', ''false'', ''no'', ''off''}"

definition warm_indices_only_enabled :: "string option \<Rightarrow> bool" where
  "warm_indices_only_enabled v = (case v of None \<Rightarrow> False | Some v \<Rightarrow> flag_on v)"

definition warm_prefetch_enabled :: "string option \<Rightarrow> string option \<Rightarrow> bool" where
  "warm_prefetch_enabled only v = (if warm_indices_only_enabled only then (case v of None \<Rightarrow> False | Some v \<Rightarrow> flag_on v) else True)"

definition query_open_lazy_enabled :: "string option \<Rightarrow> bool" where
  "query_open_lazy_enabled v = (case v of None \<Rightarrow> False | Some v \<Rightarrow> flag_on v)"

definition ops_table_cache_priority_enabled :: "string option \<Rightarrow> bool" where
  "ops_table_cache_priority_enabled v = (case v of None \<Rightarrow> True | Some v \<Rightarrow> \<not> flag_off v)"

definition usize_or :: "nat \<Rightarrow> string option \<Rightarrow> nat" where
  "usize_or d v = hdefault d (Option.bind v (\<lambda>v. parse_unsigned 64 (trim v)))"

section \<open>The state\<close>

type_synonym disk = "(string, files \<times> (string, files) hmap) hmap"

datatype table_access_mode = Full | Query

record 'c manager =
  mg_tables :: "(string, 'c table) hmap"
  mg_max_open_hard :: nat
  mg_max_open :: nat
  mg_open_count :: nat
  mg_dirty_tables :: "string list"
  mg_query_priority_keys :: "string set option"
  mg_cdc_active_tables :: "string set"
  mg_disk :: disk

definition DEFAULT_MAX_OPEN_TABLES :: nat where "DEFAULT_MAX_OPEN_TABLES = 50"

definition manager_new :: "string option \<Rightarrow> disk \<Rightarrow> 'c manager" where
  "manager_new max_open_tables disk =
     (let max_open_hard = usize_or DEFAULT_MAX_OPEN_TABLES max_open_tables in
      \<lparr>mg_tables = [], mg_max_open_hard = max_open_hard, mg_max_open = max_open_hard, mg_open_count = 0,
       mg_dirty_tables = [], mg_query_priority_keys = None, mg_cdc_active_tables = {}, mg_disk = disk\<rparr>)"

definition table_key :: "string \<Rightarrow> string \<Rightarrow> string" where
  "table_key entity table_name = entity @ ''/'' @ table_name"

definition mark_cdc_active :: "string \<Rightarrow> string \<Rightarrow> 'c manager \<Rightarrow> 'c manager" where
  "mark_cdc_active entity table_name mg =
     mg\<lparr>mg_cdc_active_tables := insert (table_key entity table_name) (mg_cdc_active_tables mg)\<rparr>"

definition is_query_priority_table :: "'c manager \<Rightarrow> string \<Rightarrow> string \<Rightarrow> bool" where
  "is_query_priority_table mg entity table_name =
     (case mg_query_priority_keys mg of None \<Rightarrow> False | Some hot \<Rightarrow> table_key entity table_name \<in> hot)"

definition is_table_open :: "'c manager \<Rightarrow> string \<Rightarrow> string \<Rightarrow> bool" where
  "is_table_open mg entity table_name \<longleftrightarrow> hget (mg_tables mg) (table_key entity table_name) \<noteq> None"

definition set_query_priority_keys :: "string option \<Rightarrow> string set option \<Rightarrow> 'c manager \<Rightarrow> 'c manager" where
  "set_query_priority_keys ops_cache_buffer keys mg =
     (let buffer = usize_or 10 ops_cache_buffer;
          new_limit = (case keys of
              Some k \<Rightarrow> if k \<noteq> {} then min (min (card k + buffer) (2 ^ 64 - 1)) (mg_max_open_hard mg) else mg_max_open_hard mg
            | None \<Rightarrow> mg_max_open_hard mg) in
      mg\<lparr>mg_max_open := new_limit, mg_query_priority_keys := keys\<rparr>)"

definition refresh_query_priority_keys_from_ops ::
    "string option \<Rightarrow> string option \<Rightarrow> ops_error + saved_operation list \<Rightarrow> 'c manager \<Rightarrow> 'c manager" where
  "refresh_query_priority_keys_from_ops cache_priority ops_cache_buffer loaded mg =
     (if \<not> ops_table_cache_priority_enabled cache_priority then set_query_priority_keys ops_cache_buffer None mg
      else case loaded of
        Inr ops \<Rightarrow> let keys = collect_ops_query_table_keys ops in
          set_query_priority_keys ops_cache_buffer (if keys = {} then None else Some keys) mg
      | Inl e \<Rightarrow> mg)"

definition mark_dirty :: "string \<Rightarrow> string \<Rightarrow> 'c manager \<Rightarrow> 'c manager" where
  "mark_dirty entity table_name mg = mg\<lparr>mg_dirty_tables := List.insert (table_key entity table_name) (mg_dirty_tables mg)\<rparr>"

definition open_table_count :: "'c manager \<Rightarrow> nat" where
  "open_table_count mg = mg_open_count mg"

section \<open>Closing tables\<close>

text \<open>A table leaves the cache: it is closed, and closed again when it is dropped; its files stay.\<close>

definition shelve :: "'c env \<Rightarrow> string \<Rightarrow> 'c table \<Rightarrow> 'c manager \<Rightarrow> table_error + 'c manager" where
  "shelve E key t mg = rbind (table_close E t) (\<lambda>t. rbind (table_close E t) (\<lambda>t.
     Inr (mg\<lparr>mg_disk := hput key (hput ''wal.log'' (wal_file (t_wal t)) (t_files t), release_dirs E t) (mg_disk mg)\<rparr>)))"

definition close_key :: "'c env \<Rightarrow> string \<Rightarrow> 'c manager \<Rightarrow> table_error + 'c manager" where
  "close_key E key mg = (case hget (mg_tables mg) key of
     None \<Rightarrow> Inr mg
   | Some t \<Rightarrow> shelve E key t (mg\<lparr>mg_tables := hdel key (mg_tables mg), mg_open_count := mg_open_count mg - 1\<rparr>))"

definition close_table :: "'c env \<Rightarrow> string \<Rightarrow> string \<Rightarrow> 'c manager \<Rightarrow> table_error + 'c manager" where
  "close_table E entity table_name mg = close_key E (table_key entity table_name) mg"

text \<open>The order of eviction: tables that are neither queried nor written to, then those written to that
  no saved operation uses, then those queried only, last those queried and written to.\<close>

definition in_query :: "'c manager \<Rightarrow> string \<Rightarrow> bool" where
  "in_query mg k = (case mg_query_priority_keys mg of None \<Rightarrow> False | Some h \<Rightarrow> k \<in> h)"

definition eviction_order :: "'c manager \<Rightarrow> string list" where
  "eviction_order mg =
     (let keys = map fst (mg_tables mg); cdc = mg_cdc_active_tables mg; has_ops = mg_query_priority_keys mg \<noteq> None;
          (cold, rest) = List.partition (\<lambda>k. \<not> in_query mg k \<and> k \<notin> cdc) keys;
          (cdc_non_ops, rest2) = List.partition (\<lambda>k. has_ops \<and> \<not> in_query mg k \<and> k \<in> cdc) rest;
          (warm, hot) = List.partition (\<lambda>k. k \<notin> cdc) rest2 in
      cold @ cdc_non_ops @ warm @ hot)"

definition evict_lru :: "'c env \<Rightarrow> 'c manager \<Rightarrow> table_error + 'c manager" where
  "evict_lru E mg =
     (let max_open = mg_max_open mg;
          target = (if 50 < max_open then max_open div 2 else max_open - 1);
          to_evict = mg_open_count mg - target in
      if to_evict = 0 \<or> mg_tables mg = [] then Inr mg
      else let keys = eviction_order mg in
        fold_r (close_key E) (take (min to_evict (length keys)) keys) mg)"

section \<open>Opening tables\<close>

definition open_by_mode :: "'c env \<Rightarrow> table_access_mode \<Rightarrow> string \<Rightarrow> files \<times> (string, files) hmap \<Rightarrow> table_error + 'c table" where
  "open_by_mode E mode nm d = (case mode of Full \<Rightarrow> table_open E nm (fst d) (snd d) | Query \<Rightarrow> open_for_query E nm (fst d) (snd d))"

definition get_table_with_mode :: "'c env \<Rightarrow> string \<Rightarrow> string \<Rightarrow> table_access_mode \<Rightarrow> 'c manager \<Rightarrow>
    table_error + 'c table \<times> 'c manager" where
  "get_table_with_mode E entity table_name mode mg =
     (let key = table_key entity table_name in
      case hget (mg_tables mg) key of
        Some t \<Rightarrow> Inr (t, mg)
      | None \<Rightarrow>
          rbind (if mg_max_open mg \<le> mg_open_count mg then evict_lru E mg else Inr mg) (\<lambda>mg.
          rbind (open_by_mode E mode table_name (hdefault ([], []) (hget (mg_disk mg) key))) (\<lambda>t.
            Inr (t, mg\<lparr>mg_open_count := mg_open_count mg + 1, mg_tables := hput key t (mg_tables mg),
                       mg_disk := hdel key (mg_disk mg)\<rparr>))))"

definition get_table :: "'c env \<Rightarrow> string \<Rightarrow> string \<Rightarrow> 'c manager \<Rightarrow> table_error + 'c table \<times> 'c manager" where
  "get_table E entity table_name mg = get_table_with_mode E entity table_name Full mg"

definition get_table_for_query :: "'c env \<Rightarrow> string option \<Rightarrow> string \<Rightarrow> string \<Rightarrow> 'c manager \<Rightarrow>
    table_error + 'c table \<times> 'c manager" where
  "get_table_for_query E lazy entity table_name mg =
     get_table_with_mode E entity table_name (if query_open_lazy_enabled lazy then Query else Full) mg"

text \<open>The table behind an \<open>Arc\<close>: what its holder leaves in it.\<close>

definition put_table :: "string \<Rightarrow> string \<Rightarrow> 'c table \<Rightarrow> 'c manager \<Rightarrow> 'c manager" where
  "put_table entity table_name t mg = mg\<lparr>mg_tables := hput (table_key entity table_name) t (mg_tables mg)\<rparr>"

definition flush_dirty_tables :: "'c env \<Rightarrow> 'c manager \<Rightarrow> 'c manager" where
  "flush_dirty_tables E mg =
     fold (\<lambda>key mg. case hget (mg_tables mg) key of
         None \<Rightarrow> mg
       | Some t \<Rightarrow> mg\<lparr>mg_tables := hput key (flush_active_segment_buffers E t) (mg_tables mg)\<rparr>)
       (mg_dirty_tables mg) (mg\<lparr>mg_dirty_tables := []\<rparr>)"

section \<open>The bound on the open tables\<close>

definition manager_ok :: "'c manager \<Rightarrow> bool" where
  "manager_ok mg \<longleftrightarrow> hwf (mg_tables mg) \<and> mg_open_count mg = length (mg_tables mg) \<and> mg_max_open mg \<le> mg_max_open_hard mg"

lemma hput_length: "length (hput k v m) = (if hget m k = None then Suc (length m) else length m)"
  by (induction m) (auto simp: hput_def hget_def)

lemma hdel_length: "hwf m \<Longrightarrow> length (hdel k m) = (if hget m k = None then length m else length m - 1)"
proof (induction m)
  case (Cons kv m)
  have "k \<notin> fst ` set m \<Longrightarrow> AList.delete k m = m" by (simp add: delete_id)
  moreover have "hget m k \<noteq> None \<Longrightarrow> m \<noteq> []" by auto
  ultimately show ?case using Cons by (cases kv) (auto simp: hdel_def hget_def hwf_Cons)
qed (simp add: hdel_def)

lemma shelve_simps:
  assumes "shelve E key t mg = Inr mg'"
  shows "mg_tables mg' = mg_tables mg" "mg_open_count mg' = mg_open_count mg" "mg_max_open mg' = mg_max_open mg"
    "mg_max_open_hard mg' = mg_max_open_hard mg" "mg_query_priority_keys mg' = mg_query_priority_keys mg"
    "mg_cdc_active_tables mg' = mg_cdc_active_tables mg"
  using assms by (auto simp: shelve_def rbind_Inr_iff)

lemma close_key_ok:
  assumes "manager_ok mg" "close_key E key mg = Inr mg'"
  shows "manager_ok mg'" "mg_tables mg' = hdel key (mg_tables mg)" "mg_max_open mg' = mg_max_open mg"
    "mg_query_priority_keys mg' = mg_query_priority_keys mg" "mg_cdc_active_tables mg' = mg_cdc_active_tables mg"
proof -
  have h: "hwf (mg_tables mg)" "mg_open_count mg = length (mg_tables mg)" "mg_max_open mg \<le> mg_max_open_hard mg"
    using assms(1) by (simp_all add: manager_ok_def)
  have "manager_ok mg' \<and> mg_tables mg' = hdel key (mg_tables mg) \<and> mg_max_open mg' = mg_max_open mg \<and>
    mg_query_priority_keys mg' = mg_query_priority_keys mg \<and> mg_cdc_active_tables mg' = mg_cdc_active_tables mg"
  proof (cases "hget (mg_tables mg) key")
    case None
    then have "hdel key (mg_tables mg) = mg_tables mg" by (simp add: hdel_def delete_id hget_None_iff)
    with None assms show ?thesis by (simp add: close_key_def)
  next
    case (Some t)
    then have "shelve E key t (mg\<lparr>mg_tables := hdel key (mg_tables mg), mg_open_count := mg_open_count mg - 1\<rparr>) = Inr mg'"
      using assms(2) by (simp add: close_key_def)
    note s = shelve_simps [OF this]
    show ?thesis using h Some hdel_length [OF h(1), of key] by (simp add: s manager_ok_def)
  qed
  then show "manager_ok mg'" "mg_tables mg' = hdel key (mg_tables mg)" "mg_max_open mg' = mg_max_open mg"
    "mg_query_priority_keys mg' = mg_query_priority_keys mg" "mg_cdc_active_tables mg' = mg_cdc_active_tables mg"
    by simp_all
qed

lemma close_keys_ok:
  assumes "manager_ok mg" "fold_r (close_key E) ks mg = Inr mg'"
  shows "manager_ok mg' \<and> mg_tables mg' = fold hdel ks (mg_tables mg) \<and> mg_max_open mg' = mg_max_open mg"
  using assms
proof (induction ks arbitrary: mg)
  case (Cons k ks)
  then obtain m where m: "close_key E k mg = Inr m" "fold_r (close_key E) ks m = Inr mg'" by (auto simp: rbind_Inr_iff)
  note c = close_key_ok [OF Cons.prems(1) m(1)]
  from Cons.IH [OF c(1) m(2)] c show ?case by simp
qed simp

text \<open>The order lists every open table once.\<close>

lemma partition_mset: "List.partition P xs = (ys, zs) \<Longrightarrow> mset ys + mset zs = mset xs"
  by (induction xs arbitrary: ys zs) (auto split: prod.splits if_splits)

lemma eviction_mset: "mset (eviction_order mg) = mset (map fst (mg_tables mg))"
  by (rule multiset_eqI) (auto simp: eviction_order_def Let_def)

lemma fold_hdel_filter: "fold hdel ks m = filter (\<lambda>(k, v). k \<notin> set ks) m"
proof (induction ks arbitrary: m)
  case (Cons k ks)
  have "hdel k m = filter (\<lambda>(j, v). j \<noteq> k) m" by (simp add: hdel_def AList.delete_eq case_prod_unfold neq_commute)
  with Cons show ?case by (simp add: filter_filter) (auto intro!: filter_cong)
qed (auto simp: filter_True)

lemma fold_hdel_length:
  assumes "hwf m" "distinct ks" "set ks \<subseteq> fst ` set m"
  shows "length (fold hdel ks m) = length m - length ks"
  using assms
proof (induction ks arbitrary: m)
  case (Cons k ks)
  have "hget m k \<noteq> None" using Cons.prems(3) by (simp add: hget_None_iff)
  moreover have "length m \<noteq> 0" using Cons.prems(3) by auto
  moreover have "set ks \<subseteq> fst ` set (hdel k m)"
    using Cons.prems by (auto simp: hdel_def AList.delete_eq image_iff) force
  ultimately show ?case using Cons by (auto simp: hdel_length)
qed simp

lemma evict_lru_ok:
  assumes ok: "manager_ok mg" and e: "evict_lru E mg = Inr mg'"
  shows "manager_ok mg'" "mg_max_open mg' = mg_max_open mg"
    "length (mg_tables mg') = min (length (mg_tables mg)) (if 50 < mg_max_open mg then mg_max_open mg div 2 else mg_max_open mg - 1)"
proof -
  let ?target = "if 50 < mg_max_open mg then mg_max_open mg div 2 else mg_max_open mg - 1"
  have h: "hwf (mg_tables mg)" "mg_open_count mg = length (mg_tables mg)" using ok by (simp_all add: manager_ok_def)
  have "manager_ok mg' \<and> mg_max_open mg' = mg_max_open mg \<and> length (mg_tables mg') = min (length (mg_tables mg)) ?target"
  proof (cases "mg_open_count mg - ?target = 0 \<or> mg_tables mg = []")
    case True
    then show ?thesis using ok e h by (auto simp: evict_lru_def Let_def)
  next
    case False
    let ?ks = "take (min (mg_open_count mg - ?target) (length (eviction_order mg))) (eviction_order mg)"
    have m: "mset (eviction_order mg) = mset (map fst (mg_tables mg))" by (rule eviction_mset)
    then have len: "length (eviction_order mg) = length (mg_tables mg)" by (metis length_map size_mset)
    have d: "distinct (eviction_order mg)" using m h(1) by (metis hwf_def mset_eq_imp_distinct_iff)
    have s: "set (eviction_order mg) = fst ` set (mg_tables mg)" using m by (metis list.set_map mset_eq_setD)
    have f: "fold_r (close_key E) ?ks mg = Inr mg'" using e False by (simp add: evict_lru_def Let_def)
    note c = close_keys_ok [OF ok f]
    have "length (mg_tables mg') = length (mg_tables mg) - length ?ks"
      using c fold_hdel_length [OF h(1), of ?ks] d s by (metis distinct_take set_take_subset)
    with c len h(2) False show ?thesis by auto
  qed
  then show "manager_ok mg'" "mg_max_open mg' = mg_max_open mg"
    "length (mg_tables mg') = min (length (mg_tables mg)) ?target" by simp_all
qed

lemma evict_lru_tables:
  assumes "manager_ok mg" "evict_lru E mg = Inr mg'"
  shows "\<exists>n. mg_tables mg' = filter (\<lambda>(k, v). k \<notin> set (take n (eviction_order mg))) (mg_tables mg)"
proof -
  let ?target = "if 50 < mg_max_open mg then mg_max_open mg div 2 else mg_max_open mg - 1"
  show ?thesis
  proof (cases "mg_open_count mg - ?target = 0 \<or> mg_tables mg = []")
    case True
    then have "mg' = mg" using assms(2) by (auto simp: evict_lru_def Let_def)
    then show ?thesis by (intro exI [of _ 0]) (simp add: case_prod_unfold)
  next
    case False
    let ?n = "min (mg_open_count mg - ?target) (length (eviction_order mg))"
    have "fold_r (close_key E) (take ?n (eviction_order mg)) mg = Inr mg'" using assms(2) False by (simp add: evict_lru_def Let_def)
    from close_keys_ok [OF assms(1) this] show ?thesis by (simp add: fold_hdel_filter) blast
  qed
qed

lemma evict_lru_subset: "manager_ok mg \<Longrightarrow> evict_lru E mg = Inr mg' \<Longrightarrow> set (mg_tables mg') \<subseteq> set (mg_tables mg)"
  using evict_lru_tables [of mg E mg'] by auto

section \<open>Properties\<close>

text \<open>C31: The number of open tables stays within the limit. Getting a table keeps the count equal to the
  number of cached tables and returns the table that is in the cache afterwards; when it had to be
  opened, no more than the limit (and no more than one for a limit of zero) are open, however many
  were open before the limit was lowered.\<close>

theorem open_tables_bounded:
  assumes "manager_ok mg" "get_table_with_mode E entity table_name mode mg = Inr (t, mg')"
  shows "manager_ok mg' \<and> hget (mg_tables mg') (table_key entity table_name) = Some t \<and> mg_max_open mg' = mg_max_open mg \<and>
    (if is_table_open mg entity table_name then mg' = mg else open_table_count mg' \<le> max 1 (mg_max_open mg))"
proof (cases "hget (mg_tables mg) (table_key entity table_name)")
  case (Some t0)
  with assms show ?thesis by (simp add: get_table_with_mode_def Let_def is_table_open_def)
next
  case None
  let ?key = "table_key entity table_name"
  obtain m where m: "(if mg_max_open mg \<le> mg_open_count mg then evict_lru E mg else Inr mg) = Inr m"
      "mg' = m\<lparr>mg_open_count := mg_open_count m + 1, mg_tables := hput ?key t (mg_tables m), mg_disk := hdel ?key (mg_disk m)\<rparr>"
    using assms(2) None by (auto simp: get_table_with_mode_def Let_def rbind_Inr_iff)
  have "manager_ok m \<and> mg_max_open m = mg_max_open mg \<and> mg_open_count m + 1 \<le> max 1 (mg_max_open mg) \<and> hget (mg_tables m) ?key = None"
  proof (cases "mg_max_open mg \<le> mg_open_count mg")
    case True
    then have e: "evict_lru E mg = Inr m" using m(1) by simp
    note v = evict_lru_ok [OF assms(1) e]
    have sub: "set (mg_tables m) \<subseteq> set (mg_tables mg)" using evict_lru_subset [OF assms(1) e] .
    then have "hget (mg_tables m) ?key = None" using None by (auto simp: hget_None_iff)
    with v show ?thesis by (auto simp: manager_ok_def)
  next
    case False
    with m(1) None assms(1) show ?thesis by simp
  qed
  then show ?thesis using None m(2) by (simp add: manager_ok_def hput_length is_table_open_def open_table_count_def)
qed

theorem open_tables_bounded_witness:
  "\<exists>t mg'. get_table_with_mode small_env ''db'' ''t'' Full (manager_new (Some ''3'') []) = Inr (t, mg') \<and>
    open_table_count mg' \<le> 3"
proof -
  have n: "usize_or DEFAULT_MAX_OPEN_TABLES (Some ''3'') = 3"
    using parse_show_nat [of 3 64] by (simp add: usize_or_def show_nat.simps [of 3]) (simp add: trim_def trim_start_def trim_end_def white_space_def trim_with.simps)
  let ?mg = "manager_new (Some ''3'') [] :: (u128, postings) hmap manager"
  have ok: "manager_ok ?mg" "mg_max_open ?mg = 3" "hget (mg_tables ?mg) k = None" for k
    by (simp_all add: manager_ok_def manager_new_def Let_def n)
  obtain t mg' where g: "get_table_with_mode small_env ''db'' ''t'' Full ?mg = Inr (t, mg')"
    by (simp add: get_table_with_mode_def manager_new_def Let_def n open_by_mode_def open_empty)
  from open_tables_bounded [OF ok(1) g] g ok show ?thesis by (auto simp: is_table_open_def)
qed

definition keep_rank :: "'c manager \<Rightarrow> string \<Rightarrow> nat" where
  "keep_rank mg k = (if in_query mg k then (if k \<in> mg_cdc_active_tables mg then 3 else 2)
     else if k \<notin> mg_cdc_active_tables mg then 0 else if mg_query_priority_keys mg = None then 3 else 1)"

lemma order_ranked: "sorted_wrt (\<lambda>e k. keep_rank mg e \<le> keep_rank mg k) (eviction_order mg)"
proof -
  let ?ord = "\<lambda>e k. keep_rank mg e \<le> keep_rank mg k"
  have c: "sorted_wrt ?ord xs" if "\<forall>x\<in>set xs. keep_rank mg x = r" for xs r
    using that by (induction xs) auto
  have j: "sorted_wrt ?ord (xs @ ys)" if "sorted_wrt ?ord ys" "\<forall>x\<in>set xs. keep_rank mg x = r" "\<forall>y\<in>set ys. r \<le> keep_rank mg y" for xs ys r
    using that c [of xs r] by (auto simp: sorted_wrt_append)
  have k: "\<And>k. in_query mg k \<Longrightarrow> mg_query_priority_keys mg \<noteq> None" by (auto simp: in_query_def split: option.splits)
  define cdc where "cdc = mg_cdc_active_tables mg"
  let ?has = "mg_query_priority_keys mg \<noteq> None" and ?keys = "map fst (mg_tables mg)"
  define cold where "cold = filter (\<lambda>k. \<not> in_query mg k \<and> k \<notin> cdc) ?keys"
  define non2 where "non2 = filter (\<lambda>k. (in_query mg k \<or> k \<in> cdc) \<and> ?has \<and> \<not> in_query mg k \<and> k \<in> cdc) ?keys"
  define warm where "warm = filter (\<lambda>k. (in_query mg k \<or> k \<in> cdc) \<and> (?has \<longrightarrow> in_query mg k \<or> k \<notin> cdc) \<and> k \<notin> cdc) ?keys"
  define hot where "hot = filter (\<lambda>k. (in_query mg k \<or> k \<in> cdc) \<and> (?has \<longrightarrow> in_query mg k \<or> k \<notin> cdc) \<and> k \<in> cdc) ?keys"
  have o: "eviction_order mg = cold @ non2 @ warm @ hot"
    by (simp add: eviction_order_def Let_def cdc_def cold_def non2_def warm_def hot_def)
  have r: "\<forall>x\<in>set cold. keep_rank mg x = 0" "\<forall>x\<in>set non2. keep_rank mg x = 1" "\<forall>x\<in>set warm. keep_rank mg x = 2"
      "\<forall>x\<in>set hot. keep_rank mg x = 3"
  proof -
    show "\<forall>x\<in>set cold. keep_rank mg x = 0" by (simp add: cold_def keep_rank_def cdc_def)
    show "\<forall>x\<in>set non2. keep_rank mg x = 1" by (simp add: non2_def keep_rank_def cdc_def)
    show "\<forall>x\<in>set warm. keep_rank mg x = 2" by (auto simp: warm_def keep_rank_def cdc_def)
    show "\<forall>x\<in>set hot. keep_rank mg x = 3" using k by (auto simp: hot_def keep_rank_def cdc_def)
  qed
  have s2: "sorted_wrt ?ord (warm @ hot)" by (rule j [OF c [OF r(4)] r(3)]) (simp add: r)
  have s1: "sorted_wrt ?ord (non2 @ warm @ hot)" by (rule j [OF s2 r(2)]) (use r in force)
  show ?thesis unfolding o by (rule j [OF s1 r(1)]) simp
qed

lemma rbind_total: "\<exists>a. r = Inr a \<Longrightarrow> (\<And>a. \<exists>b. f a = Inr b) \<Longrightarrow> \<exists>b. rbind r f = Inr b"
  by auto

lemma writer_flush_total: "e_bitmap_interval E \<noteq> 0 \<Longrightarrow>
    \<exists>w'. map_err SegErr (writer_flush (e_seg E) (e_bitmap_interval E) w) = (Inr w' :: table_error + segment_writer)"
  by (cases "w_dirty w") (simp_all add: writer_flush_def Let_def)

lemma table_close_total:
  assumes "e_bitmap_interval E \<noteq> 0"
  shows "\<exists>t'. table_close E t = Inr t'"
proof (cases "t_discarded t")
  case False
  show ?thesis
    unfolding table_close_def if_not_P [OF False]
  proof (rule rbind_total)
    show "\<exists>a. (case t_active t of None \<Rightarrow> Inr t
        | Some w \<Rightarrow> rbind (map_err SegErr (writer_flush (e_seg E) (e_bitmap_interval E) w)) (\<lambda>w.
            let w = persist_bitmaps (e_seg E) w in
            Inr (t\<lparr>t_active := None, t_dirs := hput (s_name (w_segment w)) (writer_dir w) (t_dirs t)\<rparr>))) = Inr a"
    proof (cases "t_active t")
      case (Some w)
      show ?thesis unfolding Some option.case
        by (rule rbind_total [OF writer_flush_total [OF assms]]) (unfold Let_def, rule exI, rule refl)
    qed simp
  qed (unfold Let_def, rule exI, rule refl)
qed (simp add: table_close_def)

lemma close_keys_total: "e_bitmap_interval E \<noteq> 0 \<Longrightarrow> \<exists>mg'. fold_r (close_key E) ks mg = Inr mg'"
proof (induction ks arbitrary: mg)
  case (Cons k ks)
  have "\<exists>m. shelve E k t mg = Inr m" for t mg
    unfolding shelve_def by (intro rbind_total table_close_total [OF Cons.prems]) blast
  then obtain m where "close_key E k mg = Inr m"
    unfolding close_key_def by (cases "hget (mg_tables mg) k") (force, force)
  with Cons show ?case by simp
qed simp

definition two_tables :: "(u128, postings) hmap manager" where
  "two_tables = \<lparr>mg_tables = [(''db/b'', small_table), (''db/a'', small_table)], mg_max_open_hard = 2, mg_max_open = 2,
     mg_open_count = 2, mg_dirty_tables = [], mg_query_priority_keys = Some {''db/b''}, mg_cdc_active_tables = {''db/a''}, mg_disk = []\<rparr>"

text \<open>Eviction closes the tables of least value first: no table that stays open ranks below one that
  was closed, where tables neither queried nor written to rank lowest, then those only written to that
  no saved operation uses, then those only queried, then those queried and written to.\<close>

theorem eviction_by_rank:
  assumes "manager_ok mg" "evict_lru E mg = Inr mg'"
    and "k \<in> fst ` set (mg_tables mg')" "e \<in> fst ` set (mg_tables mg)" "e \<notin> fst ` set (mg_tables mg')"
  shows "keep_rank mg e \<le> keep_rank mg k"
proof -
  obtain n where n: "mg_tables mg' = filter (\<lambda>(k, v). k \<notin> set (take n (eviction_order mg))) (mg_tables mg)"
    using evict_lru_tables [OF assms(1,2)] by blast
  have "e \<in> set (take n (eviction_order mg))" using assms(4,5) by (auto simp: n)
  moreover have "k \<in> set (drop n (eviction_order mg))"
  proof -
    have "k \<in> fst ` set (mg_tables mg)" "k \<notin> set (take n (eviction_order mg))" using assms(3) by (auto simp: n)
    moreover have "set (eviction_order mg) = fst ` set (mg_tables mg)"
      using eviction_mset [of mg] by (metis list.set_map mset_eq_setD)
    ultimately show ?thesis by (metis UnE append_take_drop_id set_append)
  qed
  ultimately show ?thesis using order_ranked [of mg] by (metis append_take_drop_id sorted_wrt_append)
qed

theorem eviction_by_rank_witness:
  "\<exists>mg'. evict_lru small_env two_tables = Inr mg' \<and> mg_tables mg' = [(''db/b'', small_table)] \<and>
    keep_rank two_tables ''db/a'' \<le> keep_rank two_tables ''db/b''"
proof -
  have i: "e_bitmap_interval small_env \<noteq> 0" by (simp add: small_env_def)
  have o: "eviction_order two_tables = [''db/a'', ''db/b'']"
    by (simp add: eviction_order_def two_tables_def in_query_def)
  have f: "mg_tables two_tables = [(''db/b'', small_table), (''db/a'', small_table)]" "mg_max_open two_tables = 2"
      "mg_open_count two_tables = 2"
    by (simp_all add: two_tables_def)
  have v: "evict_lru small_env two_tables = fold_r (close_key small_env) [''db/a''] two_tables"
    by (simp add: evict_lru_def Let_def f o del: fold_r.simps)
  obtain mg' where e: "evict_lru small_env two_tables = Inr mg'"
    using close_keys_total [OF i] unfolding v by blast
  have ok: "manager_ok two_tables" by (simp add: manager_ok_def two_tables_def hwf_Cons)
  have t: "mg_tables mg' = [(''db/b'', small_table)]"
    using close_keys_ok [OF ok e [unfolded v]] by (simp add: f hdel_def)
  from eviction_by_rank [OF ok e, of "''db/b''" "''db/a''"] e t show ?thesis by (simp add: f)
qed

end
