(* ===== verification/Join_Resolve.thy ===== *)
theory Join_Resolve
  imports Saved_Queries Expression
begin

text \<open>
  \<^verbatim>\<open>src/core/join_query.rs\<close>, first part: a saved query over several tables is resolved, with the parameters
  of the call, into qualified fields, filters, orders, joins and aggregations, and into the fields and
  filters each table is read with.
\<close>

section \<open>Data\<close>

record qualified_field =
  qf_alias :: string
  qf_field :: string
  qf_qualified :: string

datatype projection_kind =
    Source qualified_field
  | Computed string expr "qualified_field list"

record projection =
  pr_header :: string
  pr_kind :: projection_kind

record resolved_filter =
  rf_field :: qualified_field
  rf_op :: comparison_op
  rf_value :: string
  rf_value_to :: "string option"
  rf_value_options :: "string list"
  rf_field_type :: "field_type option"

datatype resolved_filter_tree_node =
    RCondition resolved_filter
  | RGroup logical_op "resolved_filter_tree_node list"

record resolved_having =
  rh_op :: comparison_op
  rh_value :: string
  rh_value_to :: "string option"
  rh_value_options :: "string list"

record resolved_order_by =
  ro_field :: qualified_field
  ro_direction :: sort_direction

record resolved_join_condition =
  cd_existing_side :: qualified_field
  cd_joining_side :: qualified_field

datatype join_kind = Inner | Left

record resolved_join =
  rj_entity :: string
  rj_table :: string
  rj_alias :: string
  rj_kind :: join_kind
  rj_conditions :: "resolved_join_condition list"
  rj_count_matches_as :: "string option"
  rj_sum_matches_field :: "string option"
  rj_sum_matches_as :: "string option"

type_synonym flat_row = "(string, string) hmap"

datatype join_error =
    EmptyField | WildcardField | MissingParam | EmptyDelimiter | MissingIndex | BadIndex | SplitOutOfBounds
  | UnsupportedTransform | DuplicateAlias | NoOnCondition | UnsupportedJoinType | UnsupportedJoinOp | UnboundCondition
  | CountNameQualified | SumIncomplete | SumFieldQualified | SumNameQualified | SumNamesEqual | NoFields | NotMultiTable
  | NothingSelected | BadExpression parse_error | MissingAggField | UnsupportedAgg | ResultLimit | TableFailed table_error

definition JOIN_SEPARATOR :: char where "JOIN_SEPARATOR = CHR 0x1F"

section \<open>Fields and parameters\<close>

definition qualify :: "string \<Rightarrow> string \<Rightarrow> string" where
  "qualify alias field = alias @ ''.'' @ field"

definition computed_qualified :: "string \<Rightarrow> string" where
  "computed_qualified header = ''__computed.'' @ header"

definition parse_qualified_field :: "string \<Rightarrow> string \<Rightarrow> join_error + qualified_field" where
  "parse_qualified_field value base_alias =
     (let trimmed = trim value in
      if trimmed = [] then Inl EmptyField
      else if trimmed = ''*'' then Inl WildcardField
      else
        let (first, second) = (case split_once CHR ''.'' trimmed of
                None \<Rightarrow> (trim trimmed, None)
              | Some (a, b) \<Rightarrow> (trim a, Some (trim b)));
            (alias, field) = (case second of
                Some field \<Rightarrow> if field \<noteq> [] then (first, field) else (base_alias, first)
              | None \<Rightarrow> (base_alias, first)) in
        Inr \<lparr>qf_alias = alias, qf_field = field, qf_qualified = qualify alias field\<rparr>)"

text \<open>One transform of a parameter reference \<open>$key|transform|...\<close>.\<close>

definition split_transform :: "string \<Rightarrow> string \<Rightarrow> join_error + string" where
  "split_transform split_spec value =
     (let (delimiter, index_raw) = (case split_once CHR '':'' split_spec of None \<Rightarrow> (split_spec, None) | Some (a, b) \<Rightarrow> (a, Some b)) in
      if delimiter = [] then Inl EmptyDelimiter
      else case index_raw of
        None \<Rightarrow> Inl MissingIndex
      | Some index_raw \<Rightarrow> (case parse_unsigned 64 index_raw of
          None \<Rightarrow> Inl BadIndex
        | Some index \<Rightarrow> let segments = split_str delimiter value in
            if index < length segments then Inr (segments ! index) else Inl SplitOutOfBounds))"

definition apply_transform :: "ext \<Rightarrow> string \<Rightarrow> string \<Rightarrow> join_error + string" where
  "apply_transform x transform value =
     (if eq_ignore_ascii_case transform ''trim'' then Inr (trim value)
      else if eq_ignore_ascii_case transform ''lowercase'' then Inr (to_lowercase x value)
      else if eq_ignore_ascii_case transform ''uppercase'' then Inr (to_uppercase x value)
      else case strip_prefix ''split:'' transform of
        Some split_spec \<Rightarrow> split_transform split_spec value
      | None \<Rightarrow> Inl UnsupportedTransform)"

type_synonym params = "(string, string) hmap"

definition resolve_param :: "ext \<Rightarrow> params \<Rightarrow> string \<Rightarrow> join_error + string" where
  "resolve_param x params_map raw =
     (case strip_prefix ''$'' raw of
        None \<Rightarrow> Inr raw
      | Some spec \<Rightarrow>
          (case split_pred (\<lambda>c. c = CHR ''|'') spec of
             [] \<Rightarrow> Inl MissingParam
           | key # parts \<Rightarrow> rbind (ok_or MissingParam (hget params_map key)) (fold_r (apply_transform x) parts)))"

definition resolve_optional_param :: "ext \<Rightarrow> params \<Rightarrow> string option \<Rightarrow> join_error + string option" where
  "resolve_optional_param x params_map raw =
     (case raw of None \<Rightarrow> Inr None | Some value \<Rightarrow> rbind (resolve_param x params_map value) (\<lambda>v. Inr (Some v)))"

definition resolve_param_list :: "params \<Rightarrow> string list \<Rightarrow> string list" where
  "resolve_param_list params_map values =
     map (\<lambda>raw. case strip_prefix ''$'' raw of None \<Rightarrow> raw | Some key \<Rightarrow> hdefault raw (hget params_map key)) values"

definition parse_logical_op :: "string \<Rightarrow> logical_op" where
  "parse_logical_op value = (if eq_ignore_ascii_case value ''Or'' then Or else And)"

section \<open>Projections, filters, orders\<close>

definition source_projection :: "string \<Rightarrow> string \<Rightarrow> join_error + projection" where
  "source_projection base_alias field =
     rbind (parse_qualified_field field base_alias) (\<lambda>q. Inr \<lparr>pr_header = field, pr_kind = Source q\<rparr>)"

definition projection_from_select :: "string \<Rightarrow> saved_select_field \<Rightarrow> join_error + projection" where
  "projection_from_select base_alias select =
     (let header = hdefault (hdefault (ss_field select) (ss_expression select)) (ss_output_name select) in
      case ss_expression select of
        Some expression \<Rightarrow>
          rbind (map_err BadExpression (parse_expression expression)) (\<lambda>e.
          rbind (map_r (\<lambda>field. parse_qualified_field field base_alias) (extract_fields e)) (\<lambda>flds.
            Inr \<lparr>pr_header = header, pr_kind = Computed (computed_qualified header) e flds\<rparr>))
      | None \<Rightarrow> rbind (parse_qualified_field (ss_field select) base_alias) (\<lambda>q. Inr \<lparr>pr_header = header, pr_kind = Source q\<rparr>))"

definition resolve_projections :: "saved_query \<Rightarrow> string list option \<Rightarrow> string \<Rightarrow> join_error + projection list" where
  "resolve_projections query selected_fields_override base_alias =
     (case selected_fields_override of
        Some flds \<Rightarrow> map_r (source_projection base_alias) flds
      | None \<Rightarrow>
          if sq_select query \<noteq> [] then map_r (projection_from_select base_alias) (sq_select query)
          else map_r (source_projection base_alias) (sq_selected_fields query))"

definition resolve_filter :: "ext \<Rightarrow> params \<Rightarrow> string \<Rightarrow> saved_filter \<Rightarrow> join_error + resolved_filter" where
  "resolve_filter x params_map base_alias f =
     rbind (parse_qualified_field (sf_field f) base_alias) (\<lambda>field.
     rbind (resolve_param x params_map (sf_value f)) (\<lambda>value.
     rbind (resolve_optional_param x params_map (sf_value_to f)) (\<lambda>value_to.
       Inr \<lparr>rf_field = field, rf_op = op_from_str (sf_op f), rf_value = value, rf_value_to = value_to,
            rf_value_options = resolve_param_list params_map (sf_values f), rf_field_type = sf_field_type f\<rparr>)))"

definition resolve_filters :: "ext \<Rightarrow> saved_query \<Rightarrow> params \<Rightarrow> string \<Rightarrow> join_error + resolved_filter list" where
  "resolve_filters x query params_map base_alias = map_r (resolve_filter x params_map base_alias) (sq_filters query)"

fun resolve_filter_tree_node :: "ext \<Rightarrow> params \<Rightarrow> string \<Rightarrow> saved_filter_tree_node \<Rightarrow> join_error + resolved_filter_tree_node" where
  "resolve_filter_tree_node x params_map base_alias (Condition f) =
     rbind (resolve_filter x params_map base_alias f) (\<lambda>r. Inr (RCondition r))"
| "resolve_filter_tree_node x params_map base_alias (Group (FilterGroup op nodes)) =
     rbind (map_r (resolve_filter_tree_node x params_map base_alias) nodes) (\<lambda>rs. Inr (RGroup (parse_logical_op op) rs))"

definition resolve_filter_tree :: "ext \<Rightarrow> saved_filter_tree_node option \<Rightarrow> params \<Rightarrow> string \<Rightarrow>
    join_error + resolved_filter_tree_node option" where
  "resolve_filter_tree x filter_tree params_map base_alias =
     (case filter_tree of None \<Rightarrow> Inr None
      | Some node \<Rightarrow> rbind (resolve_filter_tree_node x params_map base_alias node) (\<lambda>r. Inr (Some r)))"

definition resolve_order_by :: "saved_order_by list \<Rightarrow> string \<Rightarrow> string list \<Rightarrow> join_error + resolved_order_by list" where
  "resolve_order_by ob base_alias computed_headers =
     map_r (\<lambda>order. rbind (if so_field order \<in> set computed_headers
           then Inr \<lparr>qf_alias = ''__computed'', qf_field = so_field order, qf_qualified = computed_qualified (so_field order)\<rparr>
           else parse_qualified_field (so_field order) base_alias) (\<lambda>field.
         Inr \<lparr>ro_field = field, ro_direction = (if so_direction order = ''Desc'' then Desc else Asc)\<rparr>)) ob"

text \<open>Only the parameters of the first entry of an aggregation are resolved.\<close>

definition resolve_json_param :: "ext \<Rightarrow> params \<Rightarrow> json \<Rightarrow> join_error + json" where
  "resolve_json_param x params_map value =
     (case value of
        JStr raw \<Rightarrow> if starts_with raw ''$''
          then rbind (resolve_param x params_map raw) (\<lambda>param.
            Inr (case parse_unsigned 64 param of Some number \<Rightarrow> JInt (int number) | None \<Rightarrow> JStr param))
          else Inr value
      | _ \<Rightarrow> Inr value)"

definition resolve_aggregation :: "ext \<Rightarrow> params \<Rightarrow> json \<Rightarrow> join_error + json" where
  "resolve_aggregation x params_map agg =
     (case agg of
        JObj ((k, JObj ps) # rest) \<Rightarrow>
          rbind (map_r (\<lambda>(n, v). rbind (resolve_json_param x params_map v) (\<lambda>v. Inr (n, v))) ps) (\<lambda>ps. Inr (JObj ((k, JObj ps) # rest)))
      | _ \<Rightarrow> Inr agg)"

definition resolve_aggregations :: "ext \<Rightarrow> json list \<Rightarrow> params \<Rightarrow> join_error + json list" where
  "resolve_aggregations x aggregations params_map = map_r (resolve_aggregation x params_map) aggregations"

section \<open>Joins\<close>

definition resolve_condition :: "string \<Rightarrow> string \<Rightarrow> string set \<Rightarrow> saved_join_condition \<Rightarrow> join_error + resolved_join_condition" where
  "resolve_condition base_alias alias bound_aliases condition =
     (if \<not> eq_ignore_ascii_case (jc_op condition) ''Eq'' then Inl UnsupportedJoinOp
      else rbind (parse_qualified_field (jc_left condition) base_alias) (\<lambda>left.
           rbind (parse_qualified_field (jc_right condition) base_alias) (\<lambda>right.
             if qf_alias left = alias \<and> qf_alias right \<in> bound_aliases
             then Inr \<lparr>cd_existing_side = right, cd_joining_side = left\<rparr>
             else if qf_alias right = alias \<and> qf_alias left \<in> bound_aliases
             then Inr \<lparr>cd_existing_side = left, cd_joining_side = right\<rparr>
             else Inl UnboundCondition)))"

definition has_dot :: "string \<Rightarrow> bool" where
  "has_dot s \<longleftrightarrow> CHR ''.'' \<in> set s"

definition is_qualified :: "string option \<Rightarrow> bool" where
  "is_qualified v = (case v of None \<Rightarrow> False | Some s \<Rightarrow> has_dot s)"

definition resolve_join :: "ext \<Rightarrow> string \<Rightarrow> string \<Rightarrow> saved_join \<Rightarrow> string set \<Rightarrow> join_error + resolved_join \<times> string set" where
  "resolve_join x base_alias base_entity join bound_aliases =
     (let alias = hdefault (sj_table join) (trimmed_name (sj_alias join)); join_type = to_lowercase x (sj_join_type join);
          count_as = trimmed_name (sj_count_matches_as join); sum_field = trimmed_name (sj_sum_matches_field join);
          sum_as = trimmed_name (sj_sum_matches_as join) in
      if alias \<in> bound_aliases then Inl DuplicateAlias
      else if sj_on join = [] then Inl NoOnCondition
      else rbind (if join_type = ''inner'' then Inr Inner else if join_type = ''left'' then Inr Left else Inl UnsupportedJoinType) (\<lambda>kind.
      rbind (map_r (resolve_condition base_alias alias bound_aliases) (sj_on join)) (\<lambda>conditions.
      if is_qualified count_as then Inl CountNameQualified
      else if (sum_field \<noteq> None) \<noteq> (sum_as \<noteq> None) then Inl SumIncomplete
      else if is_qualified sum_field then Inl SumFieldQualified
      else if is_qualified sum_as then Inl SumNameQualified
      else if (case (sum_field, sum_as) of (Some f, Some a) \<Rightarrow> eq_ignore_ascii_case f a | _ \<Rightarrow> False) then Inl SumNamesEqual
      else Inr (\<lparr>rj_entity = hdefault base_entity (sj_entity join), rj_table = sj_table join, rj_alias = alias, rj_kind = kind,
                 rj_conditions = conditions, rj_count_matches_as = count_as, rj_sum_matches_field = sum_field,
                 rj_sum_matches_as = sum_as\<rparr>, insert alias bound_aliases))))"

fun resolve_joins_from :: "ext \<Rightarrow> string \<Rightarrow> string \<Rightarrow> saved_join list \<Rightarrow> string set \<Rightarrow> join_error + resolved_join list" where
  "resolve_joins_from x base_alias base_entity [] bound = Inr []"
| "resolve_joins_from x base_alias base_entity (j # js) bound =
     rbind (resolve_join x base_alias base_entity j bound) (\<lambda>(r, bound).
     rbind (resolve_joins_from x base_alias base_entity js bound) (\<lambda>rs. Inr (r # rs)))"

definition resolve_joins :: "ext \<Rightarrow> saved_query \<Rightarrow> string \<Rightarrow> join_error + resolved_join list" where
  "resolve_joins x query base_alias = resolve_joins_from x base_alias (sq_entity query) (sq_joins query) {base_alias}"

section \<open>Fields and filters of a table\<close>

type_synonym needed = "(string, string set) hmap"

definition ensure_required_field :: "string \<Rightarrow> string \<Rightarrow> needed \<Rightarrow> needed" where
  "ensure_required_field alias field needed = hput alias (insert field (hdefault {} (hget needed alias))) needed"

definition need_field :: "qualified_field \<Rightarrow> needed \<Rightarrow> needed" where
  "need_field q = ensure_required_field (qf_alias q) (qf_field q)"

definition need_named :: "string \<Rightarrow> string option \<Rightarrow> needed \<Rightarrow> needed" where
  "need_named base_alias name needed = (case name of None \<Rightarrow> needed
     | Some field \<Rightarrow> (case parse_qualified_field field base_alias of Inl e \<Rightarrow> needed | Inr q \<Rightarrow> need_field q needed))"

fun collect_filter_tree_fields :: "resolved_filter_tree_node \<Rightarrow> needed \<Rightarrow> needed" where
  "collect_filter_tree_fields (RCondition f) needed = need_field (rf_field f) needed"
| "collect_filter_tree_fields (RGroup op nodes) needed = fold collect_filter_tree_fields nodes needed"

definition need_expression :: "string \<Rightarrow> string option \<Rightarrow> needed \<Rightarrow> needed" where
  "need_expression base_alias expression needed = (case expression of None \<Rightarrow> needed
     | Some s \<Rightarrow> (case parse_expression s of Inl e \<Rightarrow> needed
        | Inr e \<Rightarrow> fold (\<lambda>f. need_named base_alias (Some f)) (extract_fields e) needed))"

definition aggregation_entry_fields :: "string \<Rightarrow> string \<times> json \<Rightarrow> needed \<Rightarrow> needed" where
  "aggregation_entry_fields base_alias entry needed =
     (let (agg_type, params) = entry in
      if agg_type = ''GroupBy'' \<or> agg_type = ''TopN'' then need_named base_alias (str_param params ''field'') needed
      else if agg_type \<in> {''Sum'', ''Avg'', ''Min'', ''Max''} then
        need_expression base_alias (str_param params ''expression'')
          (need_named base_alias (str_param params ''field'') (need_named base_alias (str_param params ''group_by'') needed))
      else if agg_type = ''CountDistinct'' then
        need_named base_alias (str_param params ''field'') (need_named base_alias (str_param params ''group_by'') needed)
      else needed)"

definition collect_aggregation_fields :: "json list \<Rightarrow> string \<Rightarrow> needed \<Rightarrow> needed" where
  "collect_aggregation_fields aggregations base_alias needed =
     fold (\<lambda>agg needed. case agg of
         JObj entries \<Rightarrow> fold (aggregation_entry_fields base_alias) entries needed | _ \<Rightarrow> needed) aggregations needed"

definition join_fields :: "resolved_join \<Rightarrow> needed \<Rightarrow> needed" where
  "join_fields join needed =
     (let needed = fold (\<lambda>c n. need_field (cd_joining_side c) (need_field (cd_existing_side c) n)) (rj_conditions join)
            (ensure_required_field (rj_alias join) ''PK'' needed) in
      case rj_sum_matches_field join of None \<Rightarrow> needed | Some f \<Rightarrow> ensure_required_field (rj_alias join) f needed)"

definition projection_fields :: "projection \<Rightarrow> needed \<Rightarrow> needed" where
  "projection_fields p needed = (case pr_kind p of Source s \<Rightarrow> need_field s needed | Computed q e fs \<Rightarrow> fold need_field fs needed)"

definition collect_needed_fields :: "string \<Rightarrow> projection list \<Rightarrow> resolved_filter list \<Rightarrow> resolved_filter_tree_node option \<Rightarrow>
    resolved_order_by list \<Rightarrow> resolved_join list \<Rightarrow> json list \<Rightarrow> needed" where
  "collect_needed_fields base_alias projections filters filter_tree ob joins aggregations =
     (let needed = hput base_alias {} [];
          needed = fold projection_fields projections needed;
          needed = fold (need_field \<circ> rf_field) filters needed;
          needed = (case filter_tree of None \<Rightarrow> needed | Some t \<Rightarrow> collect_filter_tree_fields t needed);
          needed = fold (need_field \<circ> ro_field) ob needed;
          needed = fold join_fields joins needed in
      collect_aggregation_fields aggregations base_alias needed)"

definition sorted_fields :: "string set option \<Rightarrow> join_error + string list" where
  "sorted_fields flds = (let sorted = sorted_list_of_set (hdefault {} flds) in if sorted = [] then Inl NoFields else Inr sorted)"

definition sorted_join_fetch_fields :: "string set option \<Rightarrow> resolved_join \<Rightarrow> join_error + string list" where
  "sorted_join_fetch_fields flds join =
     (case flds of None \<Rightarrow> Inl NoFields
      | Some fs \<Rightarrow> sorted_fields (Some {f \<in> fs. rj_count_matches_as join \<noteq> Some f \<and> rj_sum_matches_as join \<noteq> Some f}))"

definition pushdown_filter :: "resolved_filter \<Rightarrow> filter_t" where
  "pushdown_filter f = \<lparr>f_field = qf_field (rf_field f), f_op = rf_op f, f_value = rf_value f, f_value_to = rf_value_to f,
     f_type = rf_field_type f, f_options = rf_value_options f\<rparr>"

definition collect_pushdown_filters :: "resolved_filter list \<Rightarrow> resolved_filter_tree_node option \<Rightarrow> string \<Rightarrow> filter_t list" where
  "collect_pushdown_filters fs filter_tree alias =
     (if filter_tree \<noteq> None then [] else map pushdown_filter (filter (\<lambda>f. qf_alias (rf_field f) = alias) fs))"

end
