(* ===== verification/Join_Exec.thy ===== *)
theory Join_Exec
  imports Join_Resolve Table_Manager
begin

text \<open>
  \<^verbatim>\<open>src/core/join_query.rs\<close>, second part: the rows of each table are fetched (by the keys of the rows found
  so far), indexed by their join key, joined, filtered, ordered, aggregated and cut to a page. A row is
  a map from qualified names to values. The semaphore of \<^verbatim>\<open>join_concurrency.rs\<close> admits the calls one by
  one here.
\<close>

section \<open>Numbers as text\<close>

text \<open>\<open>f64\<close>'s \<open>Display\<close>: the shortest decimal that reads back as the value, without an exponent.\<close>

fun leading_zeros :: "nat \<Rightarrow> rat \<Rightarrow> nat" where
  "leading_zeros 0 q = 0"
| "leading_zeros (Suc n) q = (if 1 \<le> q then 0 else Suc (leading_zeros n (10 * q)))"

definition exp10_of :: "rat \<Rightarrow> int" where
  "exp10_of q = (if 1 \<le> q then int (length (show_nat (nat \<lfloor>q\<rfloor>))) - 1 else - int (leading_zeros 400 q))"

definition digits_at :: "rat \<Rightarrow> nat \<Rightarrow> (nat \<times> int) option" where
  "digits_at q n =
     (let k = exp10_of q - int n + 1; lo = nat \<lfloor>q / scale10 k\<rfloor>;
          near = (if q / scale10 k - of_nat lo < 1/2 then [lo, lo + 1] else [lo + 1, lo]) in
      case filter (\<lambda>d. round64 (of_nat d * scale10 k) = Fin q) near of [] \<Rightarrow> None | d # _ \<Rightarrow> Some (d, k))"

definition shortest_decimal :: "rat \<Rightarrow> nat \<times> int" where
  "shortest_decimal q = (case List.map_filter (digits_at q) [1 ..< 18] of r # _ \<Rightarrow> r | [] \<Rightarrow> (0, 0))"

definition show_decimal :: "nat \<Rightarrow> int \<Rightarrow> string" where
  "show_decimal d k =
     (if 0 \<le> k then show_nat (d * 10 ^ nat k)
      else let m = nat (- k) in show_nat (d div 10 ^ m) @ ''.'' @ pad_left m (show_nat (d mod 10 ^ m)))"

fun show_f64 :: "f64 \<Rightarrow> string" where
  "show_f64 (Fin q) = (if q = 0 then ''0''
     else (if q < 0 then ''-'' else []) @ (case shortest_decimal \<bar>q\<bar> of (d, k) \<Rightarrow> show_decimal d k))"
| "show_f64 PInf = ''inf''"
| "show_f64 NInf = ''-inf''"
| "show_f64 NaN = ''NaN''"

definition whole :: "f64 \<Rightarrow> bool" where
  "whole v \<longleftrightarrow> f64_lt (f64_abs (f64_fract v)) epsilon"

definition trim_end_char :: "char \<Rightarrow> string \<Rightarrow> string" where
  "trim_end_char c s = rev (dropWhile (\<lambda>d. d = c) (rev s))"

definition format_computed_value :: "f64 \<Rightarrow> string" where
  "format_computed_value value =
     (if whole value then show_int (as_i64 value)
      else trim_end_char CHR ''.'' (trim_end_char CHR ''0'' (show_fixed 6 value)))"

definition format_metric_value :: "f64 \<Rightarrow> string" where
  "format_metric_value value = (if whole value then show_int (as_i64 value) else show_fixed 2 value)"

section \<open>Join keys\<close>

definition normalize_join_key_fragment :: "string \<Rightarrow> string" where
  "normalize_join_key_fragment value =
     (let t = trim value in
      if t = [] then []
      else case parse_f64 t of
        Some n \<Rightarrow> if whole n \<and> is_finite n then show_int (as_i64 n) else t
      | None \<Rightarrow> t)"

fun key_values :: "flat_row \<Rightarrow> qualified_field list \<Rightarrow> string list option" where
  "key_values row [] = Some []"
| "key_values row (f # fs) = (case hget row (qf_qualified f) of
     None \<Rightarrow> None
   | Some raw \<Rightarrow> map_option ((#) (normalize_join_key_fragment raw)) (key_values row fs))"

definition compose_key :: "flat_row \<Rightarrow> qualified_field list \<Rightarrow> string option" where
  "compose_key row flds = map_option (join_with [JOIN_SEPARATOR]) (key_values row flds)"

definition flat_row_fingerprint :: "flat_row \<Rightarrow> string" where
  "flat_row_fingerprint row =
     join_with [JOIN_SEPARATOR] (map (\<lambda>key. key @ ''='' @ hdefault [] (hget row key)) (sort (map fst row)))"

section \<open>Fetching\<close>

definition flat_row_from_batch :: "string \<Rightarrow> string list \<Rightarrow> string list \<Rightarrow> flat_row" where
  "flat_row_from_batch alias flds batch_row =
     fold (\<lambda>(i, f). hput (qualify alias f) (if i < length batch_row then batch_row ! i else [])) (zip [0 ..< length flds] flds) []"

definition FETCH_PAGE_SIZE :: nat where "FETCH_PAGE_SIZE = 100"

text \<open>The rows of the page at \<open>offset\<close>, with the number of rows in all.\<close>

definition fetch_page :: "'c env \<Rightarrow> string list \<Rightarrow> filter_t list \<Rightarrow> auth_context option \<Rightarrow> nat \<Rightarrow> 'c table \<Rightarrow>
    table_error + (string list list \<times> nat) \<times> 'c table" where
  "fetch_page E flds fs auth offset t =
     rbind (table_search E flds fs And [] [] FETCH_PAGE_SIZE offset auth t) (\<lambda>(result, t).
     rbind (if q_rows result = []
         then (case q_row_ids result of Some row_ids \<Rightarrow> get_rows_batch flds row_ids t | None \<Rightarrow> Inr ([], t))
         else Inr (q_rows result, t)) (\<lambda>(rows, t).
       Inr ((rows, q_total_found result), t)))"

text \<open>\<open>offset += batch_rows.len()\<close>: an offset that does not fit in 64 bits is a panic.\<close>

function fetch_pages :: "'c env \<Rightarrow> string list \<Rightarrow> filter_t list \<Rightarrow> auth_context option \<Rightarrow> nat \<Rightarrow> string list list \<Rightarrow> 'c table \<Rightarrow>
    table_error + string list list \<times> 'c table" where
  "fetch_pages E flds fs auth offset rows t =
     (case fetch_page E flds fs auth offset t of
        Inl e \<Rightarrow> Inl e
      | Inr ((batch_rows, total_found), t) \<Rightarrow>
          if batch_rows = [] then Inr (rows, t)
          else if 2 ^ 64 \<le> offset + length batch_rows then Inl Panic
          else if total_found \<le> offset + length batch_rows then Inr (rows @ batch_rows, t)
          else fetch_pages E flds fs auth (offset + length batch_rows) (rows @ batch_rows) t)"
  by pat_completeness auto
termination
  by (relation "measure (\<lambda>(E, flds, fs, auth, offset, rows, t). 2 ^ 64 - offset)") (auto simp: neq_Nil_conv)

declare fetch_pages.simps [simp del]

definition fetch_rows_from_table :: "'c env \<Rightarrow> string \<Rightarrow> string list \<Rightarrow> filter_t list \<Rightarrow> auth_context option \<Rightarrow> 'c table \<Rightarrow>
    table_error + flat_row list \<times> 'c table" where
  "fetch_rows_from_table E alias flds fs auth t =
     rbind (probe_fetch_rows E flds fs t) (\<lambda>(probed, t).
     rbind (case probed of Some probe_rows \<Rightarrow> Inr (probe_rows, t) | None \<Rightarrow> fetch_pages E flds fs auth 0 [] t) (\<lambda>(rows, t).
       Inr (map (flat_row_from_batch alias flds) rows, t)))"

definition fetch_table_rows :: "'c env \<Rightarrow> string option \<Rightarrow> string \<Rightarrow> string \<Rightarrow> string \<Rightarrow> string list \<Rightarrow> filter_t list \<Rightarrow> auth_context option \<Rightarrow>
    'c manager \<Rightarrow> table_error + flat_row list \<times> 'c manager" where
  "fetch_table_rows E lazy entity table_name alias flds fs auth mg =
     rbind (get_table_for_query E lazy entity table_name mg) (\<lambda>(t, mg).
     rbind (fetch_rows_from_table E alias flds fs auth t) (\<lambda>(rows, t).
       Inr (rows, put_table entity table_name t mg)))"

text \<open>One lookup for every key of the rows found so far; a row without the other side is skipped.\<close>

definition key_filter :: "resolved_join_condition \<Rightarrow> string \<Rightarrow> filter_t" where
  "key_filter c raw = \<lparr>f_field = qf_field (cd_joining_side c), f_op = Eq, f_value = normalize_join_key_fragment raw,
     f_value_to = None, f_type = None, f_options = []\<rparr>"

fun lookup_key :: "flat_row \<Rightarrow> resolved_join_condition list \<Rightarrow> filter_t list option" where
  "lookup_key row [] = Some []"
| "lookup_key row (c # cs) = (case hget row (qf_qualified (cd_existing_side c)) of
     None \<Rightarrow> None
   | Some raw \<Rightarrow> map_option ((#) (key_filter c raw)) (lookup_key row cs))"

definition dedupe_key :: "filter_t list \<Rightarrow> string" where
  "dedupe_key ks = join_with [CHR 0x1F] (map (\<lambda>f. f_field f @ ''='' @ f_value f) ks)"

definition lookup_step :: "resolved_join_condition list \<Rightarrow> filter_t list \<Rightarrow> flat_row \<Rightarrow> string list \<times> filter_t list list \<Rightarrow>
    string list \<times> filter_t list list" where
  "lookup_step conditions pushdown row st =
     (case lookup_key row conditions of
        None \<Rightarrow> st
      | Some ks \<Rightarrow> let (seen, filter_sets) = st; key = dedupe_key ks in
          if key \<in> set seen then st else (key # seen, filter_sets @ [ks @ pushdown]))"

definition build_join_lookup_filters :: "flat_row list \<Rightarrow> resolved_join \<Rightarrow> filter_t list \<Rightarrow> filter_t list list option" where
  "build_join_lookup_filters current_rows join pushdown =
     (if rj_conditions join = [] then None
      else Some (snd (fold (lookup_step (rj_conditions join) pushdown) current_rows ([], []))))"

text \<open>Lookups that differ in one \<open>Eq\<close> filter only become one with an \<open>In\<close> filter.\<close>

definition same_but :: "nat \<Rightarrow> filter_t list \<Rightarrow> filter_t list \<Rightarrow> bool" where
  "same_but vary_idx template fs \<longleftrightarrow> length fs = length template \<and>
     list_all (\<lambda>i. if i = vary_idx then f_field (fs ! i) = f_field (template ! vary_idx) \<and> f_op (fs ! i) = Eq
       else f_field (fs ! i) = f_field (template ! i) \<and> f_op (fs ! i) = f_op (template ! i) \<and>
            f_value (fs ! i) = f_value (template ! i) \<and> f_value_to (fs ! i) = f_value_to (template ! i)) [0 ..< length fs]"

definition merged_lookup :: "filter_t list list \<Rightarrow> nat \<Rightarrow> filter_t list option" where
  "merged_lookup filter_sets vary_idx =
     (let template = hd filter_sets; vary = template ! vary_idx in
      if f_op vary \<noteq> Eq \<or> \<not> list_all (same_but vary_idx template) filter_sets then None
      else let values = rev (remdups (rev (map (\<lambda>fs. f_value (fs ! vary_idx)) filter_sets))) in
        Some (template[vary_idx := \<lparr>f_field = f_field vary, f_op = In, f_value = hd values, f_value_to = None,
          f_type = f_type vary, f_options = values\<rparr>]))"

definition coalesce_join_lookup_filters :: "filter_t list list \<Rightarrow> filter_t list list" where
  "coalesce_join_lookup_filters filter_sets =
     (if length filter_sets \<le> 1 then filter_sets
      else case List.map_filter (merged_lookup filter_sets) [0 ..< length (hd filter_sets)] of
        merged # _ \<Rightarrow> [merged] | [] \<Rightarrow> filter_sets)"

text \<open>Rows with a fingerprint that was seen before are dropped.\<close>

definition add_unseen :: "flat_row \<Rightarrow> string list \<times> flat_row list \<Rightarrow> string list \<times> flat_row list" where
  "add_unseen row st = (let (seen, rows) = st; fp = flat_row_fingerprint row in
     if fp \<in> set seen then st else (fp # seen, rows @ [row]))"

fun fetch_lookups :: "'c env \<Rightarrow> string \<Rightarrow> string list \<Rightarrow> filter_t list list \<Rightarrow> string list \<times> flat_row list \<Rightarrow> 'c table \<Rightarrow>
    table_error + flat_row list \<times> 'c table" where
  "fetch_lookups E alias flds [] st t = Inr (snd st, t)"
| "fetch_lookups E alias flds (fs # fss) st t =
     rbind (fetch_rows_from_table E alias flds fs None t) (\<lambda>(batch, t).
       fetch_lookups E alias flds fss (fold add_unseen batch st) t)"

definition fetch_join_rows :: "'c env \<Rightarrow> string option \<Rightarrow> resolved_join \<Rightarrow> string list \<Rightarrow> flat_row list \<Rightarrow> filter_t list \<Rightarrow> 'c manager \<Rightarrow>
    table_error + flat_row list \<times> 'c manager" where
  "fetch_join_rows E lazy join flds current_rows pushdown mg =
     (case build_join_lookup_filters current_rows join pushdown of
        Some filter_sets \<Rightarrow>
          rbind (get_table_for_query E lazy (rj_entity join) (rj_table join) mg) (\<lambda>(t, mg).
          rbind (fetch_lookups E (rj_alias join) flds (coalesce_join_lookup_filters filter_sets) ([], []) t) (\<lambda>(rows, t).
            Inr (rows, put_table (rj_entity join) (rj_table join) t mg)))
      | None \<Rightarrow> fetch_table_rows E lazy (rj_entity join) (rj_table join) (rj_alias join) flds pushdown None mg)"

section \<open>Joining\<close>

type_synonym join_index = "(string, flat_row list) hmap"

definition build_join_index :: "flat_row list \<Rightarrow> resolved_join_condition list \<Rightarrow> join_index" where
  "build_join_index rows conditions =
     fold (\<lambda>row index. case compose_key row (map cd_joining_side conditions) of
         None \<Rightarrow> index
       | Some key \<Rightarrow> hput key (hdefault [] (hget index key) @ [row]) index) rows []"

definition is_aggregate_join :: "resolved_join \<Rightarrow> bool" where
  "is_aggregate_join join \<longleftrightarrow> rj_count_matches_as join \<noteq> None \<or>
     rj_sum_matches_field join \<noteq> None \<and> rj_sum_matches_as join \<noteq> None"

definition put_opt :: "string option \<Rightarrow> string \<Rightarrow> flat_row \<Rightarrow> flat_row" where
  "put_opt name v row = (case name of None \<Rightarrow> row | Some n \<Rightarrow> hput n v row)"

definition no_match_row :: "resolved_join \<Rightarrow> flat_row \<Rightarrow> flat_row list" where
  "no_match_row join row =
     (let q = map_option (qualify (rj_alias join)) in
      if rj_kind join = Left
      then [put_opt (q (rj_sum_matches_as join)) (format_computed_value (Fin 0)) (put_opt (q (rj_count_matches_as join)) ''0'' row)]
      else [])"

definition aggregate_row :: "resolved_join \<Rightarrow> join_index \<Rightarrow> flat_row \<Rightarrow> flat_row list" where
  "aggregate_row join join_index row =
     (let q = map_option (qualify (rj_alias join)) in
      case Option.bind (compose_key row (map cd_existing_side (rj_conditions join))) (hget join_index) of
        None \<Rightarrow> no_match_row join row
      | Some matches \<Rightarrow>
          if matches = [] then no_match_row join row
          else let merged = put_opt (q (rj_count_matches_as join)) (show_nat (length matches)) row in
            [case (q (rj_sum_matches_field join), q (rj_sum_matches_as join)) of
               (Some qin, Some qout) \<Rightarrow>
                 hput qout (format_computed_value (f64_sum (List.map_filter (\<lambda>m. Option.bind (hget m qin) parse_f64) matches))) merged
             | _ \<Rightarrow> merged])"

definition merge_rows :: "flat_row \<Rightarrow> flat_row \<Rightarrow> flat_row" where
  "merge_rows row matched_row = fold (\<lambda>(field, value). hput field value) matched_row row"

definition joined_rows :: "resolved_join \<Rightarrow> join_index \<Rightarrow> flat_row \<Rightarrow> flat_row list" where
  "joined_rows join join_index row =
     (case Option.bind (compose_key row (map cd_existing_side (rj_conditions join))) (hget join_index) of
        Some matches \<Rightarrow> map (merge_rows row) matches
      | None \<Rightarrow> if rj_kind join = Left then [row] else [])"

definition JOIN_RESULT_LIMIT :: nat where "JOIN_RESULT_LIMIT = 200000"

definition join_step :: "(flat_row \<Rightarrow> flat_row list) \<Rightarrow> flat_row \<Rightarrow> flat_row list \<Rightarrow> join_error + flat_row list" where
  "join_step f row acc = (let acc = acc @ f row in if JOIN_RESULT_LIMIT < length acc then Inl ResultLimit else Inr acc)"

definition apply_join :: "flat_row list \<Rightarrow> resolved_join \<Rightarrow> join_index \<Rightarrow> join_error + flat_row list" where
  "apply_join current_rows join join_index =
     fold_r (join_step (if is_aggregate_join join then aggregate_row join join_index else joined_rows join join_index))
       current_rows []"

section \<open>Filters and order\<close>

definition evaluate_filter :: "ext \<Rightarrow> flat_row \<Rightarrow> resolved_filter \<Rightarrow> bool" where
  "evaluate_filter x row f = (case hget row (qf_qualified (rf_field f)) of
     None \<Rightarrow> False
   | Some actual \<Rightarrow> compare_filter_value x actual (rf_op f) (rf_value f) (rf_value_to f) (rf_value_options f) (rf_field_type f))"

definition apply_filters :: "ext \<Rightarrow> resolved_filter list \<Rightarrow> logical_op \<Rightarrow> flat_row list \<Rightarrow> flat_row list" where
  "apply_filters x fs op rows =
     (if fs = [] then rows
      else filter (\<lambda>row. if op = And then list_all (evaluate_filter x row) fs else list_ex (evaluate_filter x row) fs) rows)"

definition can_apply_early_window :: "resolved_filter list \<Rightarrow> resolved_filter_tree_node option \<Rightarrow> resolved_order_by list \<Rightarrow> json list \<Rightarrow>
    string set \<Rightarrow> resolved_join list \<Rightarrow> bool" where
  "can_apply_early_window fs filter_tree ob aggregations available_aliases remaining_joins \<longleftrightarrow>
     ob \<noteq> [] \<and> filter_tree = None \<and> aggregations = [] \<and>
     list_all (\<lambda>f. qf_alias (rf_field f) \<in> available_aliases) fs \<and>
     list_all (\<lambda>o'. qf_alias (ro_field o') \<in> available_aliases) ob \<and>
     list_all (\<lambda>j. rj_kind j = Left) remaining_joins"

fun evaluate_filter_tree :: "ext \<Rightarrow> flat_row \<Rightarrow> resolved_filter_tree_node \<Rightarrow> bool" where
  "evaluate_filter_tree x row (RCondition f) = evaluate_filter x row f"
| "evaluate_filter_tree x row (RGroup op nodes) =
     (if op = And then list_all (evaluate_filter_tree x row) nodes else list_ex (evaluate_filter_tree x row) nodes)"

definition apply_filter_tree :: "ext \<Rightarrow> resolved_filter_tree_node \<Rightarrow> flat_row list \<Rightarrow> flat_row list" where
  "apply_filter_tree x node rows = filter (\<lambda>row. evaluate_filter_tree x row node) rows"

fun compare_rows :: "resolved_order_by list \<Rightarrow> flat_row \<Rightarrow> flat_row \<Rightarrow> ordering" where
  "compare_rows [] left right = Equal"
| "compare_rows (order # os) left right =
     (let left_value = hdefault [] (hget left (qf_qualified (ro_field order)));
          right_value = hdefault [] (hget right (qf_qualified (ro_field order)));
          c = hdefault (cmp_ord left_value right_value) (compare_values left_value right_value None) in
      if c \<noteq> Equal then (if ro_direction order = Desc then rev_ord c else c) else compare_rows os left right)"

section \<open>Computed fields\<close>

text \<open>An unqualified name stands for the first qualified one in the order of the map.\<close>

definition numeric_context_from_row :: "flat_row \<Rightarrow> (string, f64) hmap" where
  "numeric_context_from_row row =
     fold (\<lambda>(field, value) context. case parse_f64 value of
         None \<Rightarrow> context
       | Some number \<Rightarrow>
           let context = hput field number context in
           (case split_once CHR ''.'' field of
              None \<Rightarrow> context
            | Some (_, unqualified) \<Rightarrow> if hget context unqualified = None then hput unqualified number context else context)) row []"

definition enrich_row :: "projection list \<Rightarrow> flat_row \<Rightarrow> flat_row" where
  "enrich_row projections row =
     (let context = hget (numeric_context_from_row row) in
      fold (\<lambda>p row. case pr_kind p of
          Computed qualified e _ \<Rightarrow> hput qualified (format_computed_value (evaluate e context)) row
        | Source _ \<Rightarrow> row) projections row)"

section \<open>Aggregations\<close>

definition aggregate_numeric_values :: "string \<Rightarrow> f64 list \<Rightarrow> f64" where
  "aggregate_numeric_values kind values =
     (if values = [] then Fin 0
      else if kind = ''Avg'' then f64_div (f64_sum values) (round64 (of_nat (length values)))
      else if kind = ''Min'' then foldl f64_min (hd values) (tl values)
      else if kind = ''Max'' then foldl f64_max (hd values) (tl values)
      else Fin 0)"

definition resolve_having :: "json \<Rightarrow> resolved_having option" where
  "resolve_having params = (case json_get params ''having'' of
     Some (JObj entries) \<Rightarrow> let h = JObj entries in
       Some \<lparr>rh_op = (case str_param h ''op'' of None \<Rightarrow> Eq | Some s \<Rightarrow> op_from_str s),
             rh_value = hdefault [] (str_param h ''value''), rh_value_to = str_param h ''value_to'',
             rh_value_options = (case json_get h ''values'' of Some (JArr items) \<Rightarrow> List.map_filter as_str items | _ \<Rightarrow> [])\<rparr>
   | _ \<Rightarrow> None)"

definition apply_having :: "ext \<Rightarrow> resolved_having option \<Rightarrow> (string \<times> f64) list \<Rightarrow> (string \<times> f64) list" where
  "apply_having x having entries = (case having of
     None \<Rightarrow> entries
   | Some h \<Rightarrow> filter (\<lambda>(_, metric). compare_filter_value x (show_f64 metric) (rh_op h) (rh_value h) (rh_value_to h)
       (rh_value_options h) (Some FFloat)) entries)"

definition row_text :: "flat_row \<Rightarrow> qualified_field \<Rightarrow> string" where
  "row_text row q = hdefault [] (hget row (qf_qualified q))"

definition group_fold :: "(flat_row \<Rightarrow> string) \<Rightarrow> 'v \<Rightarrow> (flat_row \<Rightarrow> 'v \<Rightarrow> 'v) \<Rightarrow> flat_row list \<Rightarrow> (string, 'v) hmap" where
  "group_fold g z f rows = fold (\<lambda>row m. hput (g row) (f row (hdefault z (hget m (g row)))) m) rows []"

definition metric_rows :: "(string \<times> f64) list \<Rightarrow> string list list" where
  "metric_rows entries = map (\<lambda>(value, metric). [value, format_metric_value metric]) entries"

definition plain_result :: "f64 \<Rightarrow> aggregation_result" where
  "plain_result v = \<lparr>ar_headers = [], ar_rows = [], ar_summary = Some v\<rparr>"

definition count_f64 :: "nat \<Rightarrow> f64" where
  "count_f64 n = round64 (of_nat n)"

definition count_aggregation :: "flat_row list \<Rightarrow> string \<Rightarrow> json \<Rightarrow> join_error + aggregation_result" where
  "count_aggregation rows base_alias params = (case str_param params ''field'' of
     Some field \<Rightarrow> rbind (parse_qualified_field field base_alias) (\<lambda>q.
       let count = length (filter (\<lambda>row. hget row (qf_qualified q) \<noteq> None) rows) in
       Inr \<lparr>ar_headers = [field, ''count''], ar_rows = [[field, show_nat count]], ar_summary = Some (count_f64 count)\<rparr>)
   | None \<Rightarrow> Inr (plain_result (count_f64 (length rows))))"

definition group_by_aggregation :: "ext \<Rightarrow> flat_row list \<Rightarrow> string \<Rightarrow> string \<Rightarrow> json \<Rightarrow> join_error + aggregation_result" where
  "group_by_aggregation x rows base_alias agg_type params =
     rbind (ok_or MissingAggField (str_param params ''field'')) (\<lambda>field.
     rbind (parse_qualified_field field base_alias) (\<lambda>q.
       let counts = group_fold (\<lambda>row. row_text row q) 0 (\<lambda>_ n. n + 1) rows;
           entries = sort_cmp top_cmp counts;
           entries = (if agg_type = ''TopN'' then take (hdefault 10 (Option.bind (json_get params ''n'') as_u64)) entries else entries);
           summary = count_f64 (sum_list (map snd entries)) in
       Inr \<lparr>ar_headers = [field, ''count''],
            ar_rows = metric_rows (apply_having x (resolve_having params) (map (\<lambda>(v, c). (v, count_f64 c)) entries)),
            ar_summary = Some summary\<rparr>))"

fun sum_step :: "expr \<Rightarrow> string option \<Rightarrow> string \<Rightarrow> flat_row \<Rightarrow> (string, f64) hmap \<times> f64 \<Rightarrow> join_error + (string, f64) hmap \<times> f64" where
  "sum_step e group_by base_alias row (grouped, sum_total) =
     (let value = evaluate e (hget (numeric_context_from_row row)); sum_total = f64_add sum_total value in
      case group_by of
        None \<Rightarrow> Inr (grouped, sum_total)
      | Some group_field \<Rightarrow> rbind (parse_qualified_field group_field base_alias) (\<lambda>g.
          let v = row_text row g in Inr (hput v (f64_add (hdefault (Fin 0) (hget grouped v)) value) grouped, sum_total)))"

definition expression_param :: "json \<Rightarrow> string option" where
  "expression_param params = (case str_param params ''expression'' of Some e \<Rightarrow> Some e | None \<Rightarrow> str_param params ''field'')"

definition sum_join_aggregation :: "ext \<Rightarrow> flat_row list \<Rightarrow> string \<Rightarrow> json \<Rightarrow> join_error + aggregation_result" where
  "sum_join_aggregation x rows base_alias params =
     (let group_by = str_param params ''group_by'' in
      rbind (map_err BadExpression (parse_expression (hdefault ''0'' (expression_param params)))) (\<lambda>e.
      rbind (fold_r (sum_step e group_by base_alias) rows ([], Fin 0)) (\<lambda>(grouped, sum_total).
      Inr (case group_by of
          Some group_field \<Rightarrow> \<lparr>ar_headers = [group_field, ''sum''],
            ar_rows = metric_rows (apply_having x (resolve_having params) (sort_cmp sum_cmp grouped)), ar_summary = Some sum_total\<rparr>
        | None \<Rightarrow> plain_result sum_total))))"

definition numeric_aggregation :: "ext \<Rightarrow> flat_row list \<Rightarrow> string \<Rightarrow> string \<Rightarrow> json \<Rightarrow> join_error + aggregation_result" where
  "numeric_aggregation x rows base_alias agg_type params =
     rbind (ok_or MissingAggField (expression_param params)) (\<lambda>expression.
     rbind (map_err BadExpression (parse_expression expression)) (\<lambda>e.
     let value_of = (\<lambda>row. evaluate e (hget (numeric_context_from_row row))) in
     case str_param params ''group_by'' of
       Some group_field \<Rightarrow> rbind (parse_qualified_field group_field base_alias) (\<lambda>g.
         let grouped = group_fold (\<lambda>row. row_text row g) [] (\<lambda>row vs. vs @ [value_of row]) rows;
             entries = sort_cmp sum_cmp (map (\<lambda>(v, vs). (v, aggregate_numeric_values agg_type vs)) grouped) in
         Inr \<lparr>ar_headers = [group_field, to_lowercase x agg_type], ar_rows = metric_rows (apply_having x (resolve_having params) entries),
              ar_summary = Some (aggregate_numeric_values agg_type (map value_of rows))\<rparr>)
     | None \<Rightarrow> Inr (plain_result (aggregate_numeric_values agg_type (map value_of rows)))))"

definition count_distinct_aggregation :: "ext \<Rightarrow> flat_row list \<Rightarrow> string \<Rightarrow> json \<Rightarrow> join_error + aggregation_result" where
  "count_distinct_aggregation x rows base_alias params =
     rbind (ok_or MissingAggField (str_param params ''field'')) (\<lambda>field.
     rbind (parse_qualified_field field base_alias) (\<lambda>q.
     case str_param params ''group_by'' of
       Some group_field \<Rightarrow> rbind (parse_qualified_field group_field base_alias) (\<lambda>g.
         let grouped = group_fold (\<lambda>row. row_text row g) [] (\<lambda>row vs. List.insert (row_text row q) vs) rows;
             entries = sort_cmp sum_cmp (map (\<lambda>(v, vs). (v, count_f64 (length vs))) grouped) in
         Inr \<lparr>ar_headers = [group_field, ''count_distinct''], ar_rows = metric_rows (apply_having x (resolve_having params) entries),
              ar_summary = Some (f64_sum (map snd entries))\<rparr>)
     | None \<Rightarrow> Inr (plain_result (count_f64 (length (remdups (List.map_filter (\<lambda>row. hget row (qf_qualified q)) rows)))))))"

definition run_aggregation :: "ext \<Rightarrow> flat_row list \<Rightarrow> string \<Rightarrow> string \<Rightarrow> json \<Rightarrow> join_error + aggregation_result" where
  "run_aggregation x rows base_alias agg_type params =
     (if agg_type = ''Count'' then count_aggregation rows base_alias params
      else if agg_type = ''GroupBy'' \<or> agg_type = ''TopN'' then group_by_aggregation x rows base_alias agg_type params
      else if agg_type = ''Sum'' then sum_join_aggregation x rows base_alias params
      else if agg_type \<in> {''Avg'', ''Min'', ''Max''} then numeric_aggregation x rows base_alias agg_type params
      else if agg_type = ''CountDistinct'' then count_distinct_aggregation x rows base_alias params
      else Inl UnsupportedAgg)"

fun run_aggregations :: "ext \<Rightarrow> flat_row list \<Rightarrow> string \<Rightarrow> json list \<Rightarrow> join_error + aggregation_result list" where
  "run_aggregations x rows base_alias [] = Inr []"
| "run_aggregations x rows base_alias (agg # aggs) = (case agg of
     JObj ((agg_type, params) # _) \<Rightarrow> rbind (run_aggregation x rows base_alias agg_type params) (\<lambda>r.
       rbind (run_aggregations x rows base_alias aggs) (\<lambda>rs. Inr (r # rs)))
   | _ \<Rightarrow> run_aggregations x rows base_alias aggs)"

section \<open>The query\<close>

record 'c join_state =
  js_rows :: "flat_row list"
  js_available :: "string set"
  js_early :: bool
  js_total_found :: nat
  js_manager :: "'c manager"

text \<open>What is resolved before the first table is read.\<close>

record plan =
  pl_base_alias :: string
  pl_filters_op :: logical_op
  pl_projections :: "projection list"
  pl_filters :: "resolved_filter list"
  pl_filter_tree :: "resolved_filter_tree_node option"
  pl_order_by :: "resolved_order_by list"
  pl_aggregations :: "json list"
  pl_joins :: "resolved_join list"
  pl_post_join_filters :: "resolved_filter list"
  pl_needed :: needed

definition make_plan :: "ext \<Rightarrow> saved_query \<Rightarrow> params \<Rightarrow> string list option \<Rightarrow> join_error + plan" where
  "make_plan x query params_map selected_fields_override =
     (if \<not> is_multi_table query then Inl NotMultiTable
      else let base_alias = base_alias_of query; filters_op = (if sq_filters_op query = ''Or'' then Or else And) in
      rbind (resolve_projections query selected_fields_override base_alias) (\<lambda>projections.
      rbind (resolve_filters x query params_map base_alias) (\<lambda>resolved_filters.
      rbind (resolve_filter_tree x (sq_filter_tree query) params_map base_alias) (\<lambda>filter_tree.
      let computed_headers = List.map_filter (\<lambda>p. case pr_kind p of Computed _ _ _ \<Rightarrow> Some (pr_header p) | Source _ \<Rightarrow> None) projections in
      rbind (resolve_order_by (sq_order_by query) base_alias computed_headers) (\<lambda>ob.
      rbind (resolve_aggregations x (sq_aggregations query) params_map) (\<lambda>aggregations.
      rbind (resolve_joins x query base_alias) (\<lambda>joins.
      let left_join_aliases = set (map rj_alias (filter (\<lambda>j. rj_kind j = Left) joins));
          post_join_filters = filter (\<lambda>f. qf_alias (rf_field f) \<notin> left_join_aliases) resolved_filters;
          needed = ensure_required_field base_alias ''PK''
            (collect_needed_fields base_alias projections resolved_filters filter_tree ob joins aggregations) in
      if projections = [] \<and> aggregations = [] then Inl NothingSelected
      else Inr \<lparr>pl_base_alias = base_alias, pl_filters_op = filters_op, pl_projections = projections, pl_filters = resolved_filters,
             pl_filter_tree = filter_tree, pl_order_by = ob, pl_aggregations = aggregations, pl_joins = joins,
             pl_post_join_filters = post_join_filters, pl_needed = needed\<rparr>)))))))"

definition early_window :: "ext \<Rightarrow> plan \<Rightarrow> nat \<Rightarrow> nat \<Rightarrow> resolved_join list \<Rightarrow> 'c join_state \<Rightarrow> 'c join_state" where
  "early_window x pl limit offset remaining st =
     (if \<not> js_early st \<and> can_apply_early_window (pl_post_join_filters pl) (pl_filter_tree pl) (pl_order_by pl) (pl_aggregations pl)
           (js_available st) remaining
      then let rows = apply_filters x (pl_post_join_filters pl) (pl_filters_op pl) (js_rows st); st = st\<lparr>js_early := True\<rparr> in
        if pl_order_by pl \<noteq> []
        then let rows = sort_cmp (compare_rows (pl_order_by pl)) rows; window = min (offset + limit) (2 ^ 64 - 1) in
          st\<lparr>js_total_found := length rows, js_rows := (if 0 < window \<and> window < length rows then take window rows else rows)\<rparr>
        else st\<lparr>js_rows := rows\<rparr>
      else st)"

definition run_join :: "'c env \<Rightarrow> string option \<Rightarrow> plan \<Rightarrow> resolved_join \<Rightarrow> 'c join_state \<Rightarrow> join_error + 'c join_state" where
  "run_join E lazy pl join st =
     rbind (sorted_join_fetch_fields (hget (pl_needed pl) (rj_alias join)) join) (\<lambda>flds.
     rbind (map_err TableFailed (fetch_join_rows E lazy join flds (js_rows st)
         (collect_pushdown_filters (pl_filters pl) (pl_filter_tree pl) (rj_alias join)) (js_manager st))) (\<lambda>(join_rows, mg).
     rbind (apply_join (js_rows st) join (build_join_index join_rows (rj_conditions join))) (\<lambda>rows.
       Inr (st\<lparr>js_rows := rows, js_manager := mg, js_available := insert (rj_alias join) (js_available st)\<rparr>))))"

fun run_joins :: "'c env \<Rightarrow> string option \<Rightarrow> plan \<Rightarrow> nat \<Rightarrow> nat \<Rightarrow> resolved_join list \<Rightarrow> 'c join_state \<Rightarrow> join_error + 'c join_state" where
  "run_joins E lazy pl limit offset [] st = Inr st"
| "run_joins E lazy pl limit offset (join # joins) st =
     rbind (run_join E lazy pl join st) (\<lambda>st. run_joins E lazy pl limit offset joins (early_window (e_ext E) pl limit offset joins st))"

definition projected :: "projection list \<Rightarrow> flat_row \<Rightarrow> string list" where
  "projected projections row = map (\<lambda>p. hdefault [] (hget row (case pr_kind p of
     Source source \<Rightarrow> qf_qualified source | Computed qualified _ _ \<Rightarrow> qualified))) projections"

definition finish_query :: "ext \<Rightarrow> plan \<Rightarrow> nat \<Rightarrow> nat \<Rightarrow> 'c join_state \<Rightarrow> join_error + query_result" where
  "finish_query x pl limit offset st =
     (let rows = js_rows st;
          rows = (if js_early st then rows else apply_filters x (pl_post_join_filters pl) (pl_filters_op pl) rows);
          rows = (case pl_filter_tree pl of None \<Rightarrow> rows | Some t \<Rightarrow> apply_filter_tree x t rows);
          rows = (if list_ex (\<lambda>p. case pr_kind p of Computed _ _ _ \<Rightarrow> True | Source _ \<Rightarrow> False) (pl_projections pl)
            then map (enrich_row (pl_projections pl)) rows else rows);
          total_found = (if js_total_found st = 0 then length rows else js_total_found st) in
      rbind (if pl_aggregations pl = [] then Inr None
        else rbind (run_aggregations x rows (pl_base_alias pl) (pl_aggregations pl)) (\<lambda>rs. Inr (Some rs))) (\<lambda>aggregation_results.
      let rows = (if pl_order_by pl \<noteq> [] then sort_cmp (compare_rows (pl_order_by pl)) rows else rows);
          paged_rows = (if limit = 0 then [] else take limit (drop offset rows)) in
      Inr \<lparr>q_headers = map pr_header (pl_projections pl), q_rows = map (projected (pl_projections pl)) paged_rows,
           q_row_ids = None, q_total_found = total_found, q_aggregations = aggregation_results\<rparr>))"

definition execute_join_query :: "'c env \<Rightarrow> string option \<Rightarrow> saved_query \<Rightarrow> params \<Rightarrow> string list option \<Rightarrow> nat \<Rightarrow> nat \<Rightarrow>
    auth_context option \<Rightarrow> 'c manager \<Rightarrow> join_error + query_result \<times> 'c manager" where
  "execute_join_query E lazy query params_map selected_fields_override limit offset auth mg =
     rbind (make_plan (e_ext E) query params_map selected_fields_override) (\<lambda>pl.
     rbind (sorted_fields (hget (pl_needed pl) (pl_base_alias pl))) (\<lambda>base_fields.
     rbind (map_err TableFailed (fetch_table_rows E lazy (sq_entity query) (sq_table query) (pl_base_alias pl) base_fields
         (collect_pushdown_filters (pl_filters pl) (pl_filter_tree pl) (pl_base_alias pl)) auth mg)) (\<lambda>(rows, mg).
     rbind (run_joins E lazy pl limit offset (pl_joins pl)
         \<lparr>js_rows = rows, js_available = {pl_base_alias pl}, js_early = False, js_total_found = 0, js_manager = mg\<rparr>) (\<lambda>st.
     rbind (finish_query (e_ext E) pl limit offset st) (\<lambda>result. Inr (result, js_manager st))))))"

end
