(* ===== verification/Join_Rows.thy ===== *)
theory Join_Rows
  imports Join_Exec
begin

text \<open>
  What the joins of \<^verbatim>\<open>src/core/join_query.rs\<close> compute: the hash join against the nested loop, the window
  that is cut before the last joins against the one that is cut after them, the merged lookups against
  the single ones, and the shape of the resolved joins.
\<close>

section \<open>The hash join is the nested loop\<close>

text \<open>The rows of the joined table with the key of a row; a row without a key has none.\<close>

definition matches_of :: "resolved_join \<Rightarrow> flat_row list \<Rightarrow> flat_row \<Rightarrow> flat_row list" where
  "matches_of join join_rows row =
     filter (\<lambda>m. compose_key row (map cd_existing_side (rj_conditions join)) \<noteq> None \<and>
       compose_key m (map cd_joining_side (rj_conditions join)) = compose_key row (map cd_existing_side (rj_conditions join))) join_rows"

definition nested_loop_row :: "resolved_join \<Rightarrow> flat_row list \<Rightarrow> flat_row \<Rightarrow> flat_row list" where
  "nested_loop_row join join_rows row =
     (let ms = matches_of join join_rows row; name = map_option (qualify (rj_alias join)) in
      if \<not> is_aggregate_join join then if ms = [] \<and> rj_kind join = Left then [row] else map (merge_rows row) ms
      else if ms = [] then no_match_row join row
      else let counted = put_opt (name (rj_count_matches_as join)) (show_nat (length ms)) row in
        [case (name (rj_sum_matches_field join), name (rj_sum_matches_as join)) of
           (Some field, Some out) \<Rightarrow> hput out (format_computed_value
             (f64_sum (List.map_filter (\<lambda>m. Option.bind (hget m field) parse_f64) ms))) counted
         | _ \<Rightarrow> counted])"

lemma hget_build_index:
  "hget (build_join_index join_rows conditions) key =
     (let ms = filter (\<lambda>m. compose_key m (map cd_joining_side conditions) = Some key) join_rows in if ms = [] then None else Some ms)"
proof (induction join_rows rule: rev_induct)
  case (snoc m ms)
  then show ?case by (simp add: build_join_index_def Let_def split: option.split)
qed (simp add: build_join_index_def)

lemma lookup_index:
  "Option.bind (compose_key row (map cd_existing_side (rj_conditions join))) (hget (build_join_index join_rows (rj_conditions join))) =
     (let ms = matches_of join join_rows row in if ms = [] then None else Some ms)"
  by (cases "compose_key row (map cd_existing_side (rj_conditions join))")
     (simp_all add: hget_build_index matches_of_def)

lemma aggregate_row_nested:
  "is_aggregate_join join \<Longrightarrow> aggregate_row join (build_join_index join_rows (rj_conditions join)) row = nested_loop_row join join_rows row"
  by (simp add: aggregate_row_def lookup_index nested_loop_row_def Let_def)

lemma joined_rows_nested:
  "\<not> is_aggregate_join join \<Longrightarrow> joined_rows join (build_join_index join_rows (rj_conditions join)) row = nested_loop_row join join_rows row"
  by (auto simp: joined_rows_def lookup_index nested_loop_row_def Let_def)

lemma fold_join_step:
  "length acc \<le> JOIN_RESULT_LIMIT \<Longrightarrow> fold_r (join_step f) rows acc =
     (let out = acc @ concat (map f rows) in if JOIN_RESULT_LIMIT < length out then Inl ResultLimit else Inr out)"
  by (induction rows arbitrary: acc) (auto simp: join_step_def Let_def)

lemma join_nested:
  "apply_join rows join (build_join_index join_rows (rj_conditions join)) =
     (let out = concat (map (nested_loop_row join join_rows) rows) in
      if JOIN_RESULT_LIMIT < length out then Inl ResultLimit else Inr out)"
proof -
  have "(if is_aggregate_join join then aggregate_row join (build_join_index join_rows (rj_conditions join))
      else joined_rows join (build_join_index join_rows (rj_conditions join))) = nested_loop_row join join_rows"
    using aggregate_row_nested joined_rows_nested by (auto simp: fun_eq_iff)
  with fold_join_step [of "[]" "nested_loop_row join join_rows" rows] show ?thesis by (simp add: apply_join_def)
qed

text \<open>C7: The hash join computes the nested loop: for any rows and any join, indexing the rows of the joined
  table by their composed key and looking up every row gives, in order, each row merged with each row
  of the joined table that has the same (normalized) key, or, when matches are counted or summed, once
  with the number and the sum of all its matches; a row without a match is kept by a left join (with
  a count and sum of zero) and dropped by an inner one. The result is an error exactly when it would have more
  rows than the limit of 200,000.\<close>

theorem join_is_nested_loop:
  "apply_join rows join (build_join_index join_rows (rj_conditions join)) =
     (let out = concat (map (nested_loop_row join join_rows) rows) in
      if JOIN_RESULT_LIMIT < length out then Inl ResultLimit else Inr out)"
  by (rule join_nested)

section \<open>The window before left joins\<close>

definition same_on :: "string set \<Rightarrow> flat_row \<Rightarrow> flat_row \<Rightarrow> bool" where
  "same_on N a b \<longleftrightarrow> (\<forall>n\<in>N. hget a n = hget b n)"

definition order_names :: "resolved_order_by list \<Rightarrow> string set" where
  "order_names ob = set (map (\<lambda>w. qf_qualified (ro_field w)) ob)"

lemma compare_rows_same:
  "same_on N a a' \<Longrightarrow> same_on N b b' \<Longrightarrow> order_names ob \<subseteq> N \<Longrightarrow> compare_rows ob a b = compare_rows ob a' b'"
  by (induction ob) (simp_all add: same_on_def order_names_def Let_def del: compare_values.simps)

lemma compare_rows_refl: "compare_rows ob a a = Equal"
  using compare_values_refl [of None] by (induction ob) (simp_all add: Let_def untyped_def del: compare_values.simps)

lemma directed_value_rev:
  "hdefault (cmp_ord b a) (compare_values b a None) = rev_ord (hdefault (cmp_ord a b) (compare_values a b None))"
  using compare_values_total [of None a b] by (auto simp: compare_values_rev [of b a] untyped_def simp del: compare_values.simps)

lemma compare_rows_rev: "compare_rows ob b a = rev_ord (compare_rows ob a b)"
proof (induction ob)
  case (Cons w ob)
  let ?v = "\<lambda>r. hdefault [] (hget r (qf_qualified (ro_field w)))"
  have "hdefault (cmp_ord (?v b) (?v a)) (compare_values (?v b) (?v a) None) =
      rev_ord (hdefault (cmp_ord (?v a) (?v b)) (compare_values (?v a) (?v b) None))" by (rule directed_value_rev)
  with Cons show ?case
    by (cases "hdefault (cmp_ord (?v a) (?v b)) (compare_values (?v a) (?v b) None)") (simp_all add: Let_def del: compare_values.simps)
qed simp

text \<open>Each row is replaced by a block of rows that hold its values of the fields \<open>N\<close>.\<close>

definition block_map :: "string set \<Rightarrow> (flat_row \<Rightarrow> flat_row list) \<Rightarrow> flat_row set \<Rightarrow> bool" where
  "block_map N f R \<longleftrightarrow> (\<forall>r\<in>R. f r \<noteq> [] \<and> (\<forall>r'\<in>set (f r). same_on N r' r))"

lemma insort_past:
  "\<forall>y\<in>set ys. c x y \<noteq> Less \<Longrightarrow> insort_cmp c x (ys @ zs) = ys @ insort_cmp c x zs"
  by (induction ys) auto

lemma insort_before: "(case zs of [] \<Rightarrow> True | z # _ \<Rightarrow> c x z = Less) \<Longrightarrow> insort_cmp c x zs = x # zs"
  by (cases zs) auto

lemma fold_insort_block:
  assumes "\<forall>x\<in>set (bs' @ bs). \<forall>y\<in>set (bs' @ bs). c x y \<noteq> Less" "\<forall>x\<in>set bs. \<forall>y\<in>set ys. c x y \<noteq> Less"
    "\<forall>x\<in>set bs. case zs of [] \<Rightarrow> True | z # _ \<Rightarrow> c x z = Less"
  shows "fold (insort_cmp c) bs (ys @ bs' @ zs) = ys @ bs' @ bs @ zs"
  using assms
proof (induction bs arbitrary: bs')
  case (Cons x bs)
  have "insort_cmp c x (ys @ bs' @ zs) = ys @ bs' @ x # zs"
    using Cons.prems insort_past [of "ys @ bs'" c x zs] insort_before [where zs = zs and c = c and x = x] by (simp add: ball_Un)
  then have "fold (insort_cmp c) (x # bs) (ys @ bs' @ zs) = fold (insort_cmp c) bs (ys @ (bs' @ [x]) @ zs)" by simp
  also have "\<dots> = ys @ (bs' @ [x]) @ bs @ zs" by (rule Cons.IH) (use Cons.prems in auto)
  finally show ?case by simp
qed simp

lemma insort_split:
  "\<exists>ys zs. xs = ys @ zs \<and> insort_cmp c x xs = ys @ x # zs \<and> (\<forall>y\<in>set ys. c x y \<noteq> Less) \<and>
     (case zs of [] \<Rightarrow> True | z # _ \<Rightarrow> c x z = Less)"
proof (induction xs)
  case (Cons y xs)
  then obtain ys zs where IH: "xs = ys @ zs" "insort_cmp c x xs = ys @ x # zs" "\<forall>y\<in>set ys. c x y \<noteq> Less"
    "case zs of [] \<Rightarrow> True | z # _ \<Rightarrow> c x z = Less" by blast
  show ?case
  proof (cases "c x y = Less")
    case True
    then show ?thesis by (intro exI [of _ "[]"] exI [of _ "y # xs"]) simp
  next
    case False
    with IH show ?thesis by (intro exI [of _ "y # ys"] exI [of _ zs]) simp
  qed
qed simp

lemma insort_block:
  assumes "block_map N f (insert r (set xs))" "order_names ob \<subseteq> N"
  shows "fold (insort_cmp (compare_rows ob)) (f r) (concat (map f xs)) = concat (map f (insort_cmp (compare_rows ob) r xs))"
proof -
  obtain ys zs where s: "xs = ys @ zs" "insort_cmp (compare_rows ob) r xs = ys @ r # zs"
    "\<forall>y\<in>set ys. compare_rows ob r y \<noteq> Less" "case zs of [] \<Rightarrow> True | z # _ \<Rightarrow> compare_rows ob r z = Less"
    using insort_split [of xs "compare_rows ob" r] by blast
  have b: "same_on N b a" if "a \<in> insert r (set xs)" "b \<in> set (f a)" for a b
    using assms(1) that unfolding block_map_def by blast
  have cmp: "compare_rows ob b b' = compare_rows ob r a" if "b \<in> set (f r)" "a \<in> insert r (set xs)" "b' \<in> set (f a)" for b b' a
    using that b [of r b] b [of a b'] by (intro compare_rows_same [OF _ _ assms(2)]) auto
  have "fold (insort_cmp (compare_rows ob)) (f r) (concat (map f ys) @ [] @ concat (map f zs)) =
      concat (map f ys) @ [] @ f r @ concat (map f zs)"
  proof (rule fold_insort_block)
    show "\<forall>x\<in>set ([] @ f r). \<forall>y\<in>set ([] @ f r). compare_rows ob x y \<noteq> Less"
      using cmp [of _ r] by (simp add: compare_rows_refl)
    show "\<forall>x\<in>set (f r). \<forall>y\<in>set (concat (map f ys)). compare_rows ob x y \<noteq> Less"
      using cmp s by fastforce
    show "\<forall>x\<in>set (f r). case concat (map f zs) of [] \<Rightarrow> True | z # _ \<Rightarrow> compare_rows ob x z = Less"
    proof (cases zs)
      case (Cons z zs')
      with assms(1) s have "f z \<noteq> []" by (simp add: block_map_def)
      then obtain w ws where "f z = w # ws" by (cases "f z") auto
      with cmp [of _ z w] s Cons show ?thesis by auto
    qed simp
  qed
  with s show ?thesis by simp
qed

lemma sort_blocks:
  "block_map N f (set rows) \<Longrightarrow> order_names ob \<subseteq> N \<Longrightarrow>
   sort_cmp (compare_rows ob) (concat (map f rows)) = concat (map f (sort_cmp (compare_rows ob) rows))"
proof (induction rows rule: rev_induct)
  case (snoc r rows)
  then have "block_map N f (set rows)" "block_map N f (insert r (set (sort_cmp (compare_rows ob) rows)))"
    by (simp_all add: block_map_def)
  with snoc insort_block [of N f r] show ?case by (simp add: sort_append)
qed (simp add: sort_cmp_def)

lemma take_concat_blocks:
  "(\<forall>y\<in>set ys. f y \<noteq> []) \<Longrightarrow> take n (concat (map f (take n ys))) = take n (concat (map f ys))"
proof (induction ys arbitrary: n)
  case (Cons y ys)
  show ?case
  proof (cases n)
    case (Suc m)
    from Cons.prems obtain k where k: "length (f y) = Suc k" by (cases "f y") auto
    have "take (m - k) (concat (map f (take m ys))) = take (m - k) (take m (concat (map f (take m ys))))" by (simp add: min_def)
    also have "\<dots> = take (m - k) (take m (concat (map f ys)))" using Cons by simp
    also have "\<dots> = take (m - k) (concat (map f ys))" by (simp add: min_def)
    finally show ?thesis by (simp add: Suc k)
  qed simp
qed simp

text \<open>The comparison of \<open>sort_by\<close> must be a total order; on the given rows it is when it is transitive.\<close>

definition transitive_on :: "resolved_order_by list \<Rightarrow> flat_row set \<Rightarrow> bool" where
  "transitive_on ob R \<longleftrightarrow> (\<forall>a\<in>R. \<forall>b\<in>R. \<forall>c\<in>R. compare_rows ob a b \<noteq> Greater \<longrightarrow> compare_rows ob b c \<noteq> Greater \<longrightarrow>
     compare_rows ob a c \<noteq> Greater)"

lemma total_cmp_rows: "transitive_on ob R \<Longrightarrow> total_cmp (compare_rows ob) (\<lambda>r. r \<in> R)"
  by unfold_locales (rule compare_rows_rev, unfold transitive_on_def, blast)

lemma sort_window:
  assumes "transitive_on ob (set rows)"
  shows "sort_cmp (compare_rows ob) (take n (sort_cmp (compare_rows ob) rows)) = take n (sort_cmp (compare_rows ob) rows)"
proof -
  have "total_cmp.by_key (compare_rows ob) (\<lambda>r. r) = compare_rows ob"
    by (simp add: total_cmp.by_key_def [OF total_cmp_rows [OF assms]] fun_eq_iff)
  with total_cmp.sort_take_sort [OF total_cmp_rows [OF assms], of rows "\<lambda>r. r" n] show ?thesis by simp
qed

lemma page_of_blocks:
  assumes "block_map N f (set rows)" "order_names ob \<subseteq> N" "transitive_on ob (set rows)"
  shows "take n (sort_cmp (compare_rows ob) (concat (map f (take n (sort_cmp (compare_rows ob) rows))))) =
    take n (sort_cmp (compare_rows ob) (concat (map f rows)))"
proof -
  let ?s = "sort_cmp (compare_rows ob) rows"
  have "block_map N f (set (take n ?s))" using assms(1) set_take_subset [of n ?s] by (auto simp: block_map_def)
  moreover have "\<forall>y\<in>set ?s. f y \<noteq> []" using assms(1) by (simp add: block_map_def)
  ultimately show ?thesis using assms by (simp add: sort_blocks sort_window take_concat_blocks)
qed

text \<open>The joins one after the other, each with the rows of its table.\<close>

definition join_all :: "(resolved_join \<times> flat_row list) list \<Rightarrow> flat_row list \<Rightarrow> join_error + flat_row list" where
  "join_all = fold_r (\<lambda>(join, join_rows) rows. apply_join rows join (build_join_index join_rows (rj_conditions join)))"

fun nested_loops :: "(resolved_join \<times> flat_row list) list \<Rightarrow> flat_row \<Rightarrow> flat_row list" where
  "nested_loops [] row = [row]"
| "nested_loops ((join, join_rows) # js) row = concat (map (nested_loops js) (nested_loop_row join join_rows row))"

lemma concat_nested:
  "concat (map (nested_loops []) rows) = rows"
  "concat (map (nested_loops ((join, ms) # js)) rows) = concat (map (nested_loops js) (concat (map (nested_loop_row join ms) rows)))"
  by (induction rows) simp_all

lemma join_all_simps:
  "join_all [] rows = Inr rows"
  "join_all ((join, ms) # js) rows = (let out = concat (map (nested_loop_row join ms) rows) in
     if JOIN_RESULT_LIMIT < length out then Inl ResultLimit else join_all js out)"
  by (simp_all add: join_all_def join_nested Let_def)

lemma join_all_nested: "join_all js rows = Inr out \<Longrightarrow> out = concat (map (nested_loops js) rows)"
proof (induction js arbitrary: rows)
  case (Cons j js)
  obtain join ms where j: "j = (join, ms)" by (cases j)
  from Cons show ?case by (simp add: j join_all_simps Let_def concat_nested split: if_splits del: nested_loops.simps)
qed (simp add: join_all_simps concat_nested del: nested_loops.simps)

lemma mset_concat_map: "mset (concat (map f xs)) = (\<Sum>x\<in>#mset xs. mset (f x))"
  by (induction xs) simp_all

lemma mset_blocks:
  "mset xs \<subseteq># mset ys \<Longrightarrow> mset (concat (map f xs)) \<subseteq># mset (concat (map f ys))"
proof -
  assume "mset xs \<subseteq># mset ys"
  then obtain zs where "mset ys = mset (xs @ zs)"
    by (metis ex_mset mset_append mset_subset_eq_exists_conv)
  then have "mset (concat (map f ys)) = mset (concat (map f (xs @ zs)))" by (simp only: mset_concat_map)
  then show ?thesis by simp
qed

lemma join_all_fewer:
  "join_all js rows = Inr out \<Longrightarrow> mset sub \<subseteq># mset rows \<Longrightarrow> join_all js sub = Inr (concat (map (nested_loops js) sub))"
proof (induction js arbitrary: rows sub)
  case (Cons j js)
  obtain join ms where j: "j = (join, ms)" by (cases j)
  let ?f = "nested_loop_row join ms"
  have sub: "mset (concat (map ?f sub)) \<subseteq># mset (concat (map ?f rows))" using Cons.prems(2) by (rule mset_blocks)
  from Cons.prems(1) have lim: "length (concat (map ?f rows)) \<le> JOIN_RESULT_LIMIT"
    and rest: "join_all js (concat (map ?f rows)) = Inr out"
    by (auto simp: j join_all_simps Let_def split: if_splits)
  from size_mset_mono [OF sub] lim have "length (concat (map ?f sub)) \<le> JOIN_RESULT_LIMIT" by simp
  with Cons.IH [OF rest sub] show ?case by (simp add: j join_all_simps Let_def concat_nested del: nested_loops.simps)
qed (simp add: join_all_simps concat_nested del: nested_loops.simps)

text \<open>The join writes none of the fields \<open>N\<close>.\<close>

definition keeps_fields :: "string set \<Rightarrow> resolved_join \<Rightarrow> flat_row list \<Rightarrow> bool" where
  "keeps_fields N join join_rows \<longleftrightarrow> (\<forall>n\<in>N. (\<forall>m\<in>set join_rows. hget m n = None) \<and>
     map_option (qualify (rj_alias join)) (rj_count_matches_as join) \<noteq> Some n \<and>
     map_option (qualify (rj_alias join)) (rj_sum_matches_as join) \<noteq> Some n)"

lemma hget_merge_other: "hget m n = None \<Longrightarrow> hget (merge_rows row m) n = hget row n"
  by (induction m arbitrary: row) (auto simp: merge_rows_def hget_Cons split: if_splits)

lemma hget_put_opt: "name \<noteq> Some n \<Longrightarrow> hget (put_opt name v row) n = hget row n"
  by (auto simp: put_opt_def split: option.split)

lemma nested_loop_row_block:
  assumes "keeps_fields N join ms" "rj_kind join = Left"
  shows "nested_loop_row join ms row \<noteq> [] \<and> (\<forall>r\<in>set (nested_loop_row join ms row). same_on N r row)"
proof -
  have "set (matches_of join ms row) \<subseteq> set ms" by (auto simp: matches_of_def)
  with assms show ?thesis
    by (auto simp: nested_loop_row_def Let_def no_match_row_def keeps_fields_def same_on_def hget_merge_other hget_put_opt
        split: option.split)
qed

lemma nested_loops_block:
  "\<forall>(join, ms)\<in>set js. keeps_fields N join ms \<and> rj_kind join = Left \<Longrightarrow>
   nested_loops js row \<noteq> [] \<and> (\<forall>r\<in>set (nested_loops js row). same_on N r row)"
proof (induction js arbitrary: row)
  case (Cons j js)
  obtain join ms where j: "j = (join, ms)" by (cases j)
  with Cons.prems have first: "nested_loop_row join ms row \<noteq> []" "\<forall>r\<in>set (nested_loop_row join ms row). same_on N r row"
    and IH: "\<And>r. nested_loops js r \<noteq> []" "\<And>r. \<forall>r'\<in>set (nested_loops js r). same_on N r' r"
    using nested_loop_row_block [of N join ms row] Cons.IH by auto
  from first(1) IH(1) have "nested_loops (j # js) row \<noteq> []" by (cases "nested_loop_row join ms row") (simp_all add: j)
  moreover have "same_on N r row" if r: "r \<in> set (nested_loops (j # js) row)" for r
  proof -
    from r obtain r0 where "r0 \<in> set (nested_loop_row join ms row)" "r \<in> set (nested_loops js r0)" by (auto simp: j)
    with first(2) IH(2) [of r0] show ?thesis unfolding same_on_def by metis
  qed
  ultimately show ?case by blast
qed (simp add: same_on_def)

lemma evaluate_filter_same:
  "same_on N a b \<Longrightarrow> qf_qualified (rf_field f) \<in> N \<Longrightarrow> evaluate_filter x a f = evaluate_filter x b f"
  by (simp add: evaluate_filter_def same_on_def)

lemma filter_blocks:
  assumes "block_map N g (set rows)" "\<And>a b. same_on N a b \<Longrightarrow> P a = P b"
  shows "filter P (concat (map g rows)) = concat (map g (filter P rows))"
  using assms(1)
proof (induction rows)
  case (Cons r rows)
  then have "\<forall>r'\<in>set (g r). P r' = P r" using assms(2) by (auto simp: block_map_def)
  then have "filter P (g r) = (if P r then g r else [])" by (auto simp: filter_True filter_False)
  with Cons show ?case by (simp add: block_map_def)
qed simp

lemma apply_filters_blocks:
  assumes "block_map N g (set rows)" "\<forall>f\<in>set fs. qf_qualified (rf_field f) \<in> N"
  shows "apply_filters x fs op (concat (map g rows)) = concat (map g (apply_filters x fs op rows))"
proof -
  have "list_all (evaluate_filter x a) fs = list_all (evaluate_filter x b) fs"
    "list_ex (evaluate_filter x a) fs = list_ex (evaluate_filter x b) fs" if "same_on N a b" for a b
    using evaluate_filter_same [OF that, of _ x] assms(2) by (simp_all add: list_all_iff list_ex_iff)
  then show ?thesis using filter_blocks [OF assms(1)] by (simp add: apply_filters_def)
qed

lemma set_apply_filters: "set (apply_filters x fs op rows) \<subseteq> set rows"
  "mset (apply_filters x fs op rows) \<subseteq># mset rows"
  by (auto simp: apply_filters_def)

lemma page_take: "take limit (drop offset xs) = drop offset (take (offset + limit) xs)"
  by (simp add: drop_take)

text \<open>The fields that order and filter the rows.\<close>

definition window_fields :: "plan \<Rightarrow> string set" where
  "window_fields pl = order_names (pl_order_by pl) \<union> (\<lambda>f. qf_qualified (rf_field f)) ` set (pl_post_join_filters pl)"

definition page_of :: "plan \<Rightarrow> nat \<Rightarrow> nat \<Rightarrow> flat_row list \<Rightarrow> flat_row list" where
  "page_of pl limit offset rows = take limit (drop offset (sort_cmp (compare_rows (pl_order_by pl)) rows))"


definition qfield :: "string \<Rightarrow> string \<Rightarrow> qualified_field" where
  "qfield alias field = \<lparr>qf_alias = alias, qf_field = field, qf_qualified = qualify alias field\<rparr>"

definition small_join :: "join_kind \<Rightarrow> resolved_join" where
  "small_join kind = \<lparr>rj_entity = ''db'', rj_table = ''b'', rj_alias = ''b'', rj_kind = kind,
     rj_conditions = [\<lparr>cd_existing_side = qfield ''a'' ''k'', cd_joining_side = qfield ''b'' ''k''\<rparr>],
     rj_count_matches_as = None, rj_sum_matches_field = None, rj_sum_matches_as = None\<rparr>"

definition small_plan :: plan where
  "small_plan = \<lparr>pl_base_alias = ''a'', pl_filters_op = And, pl_projections = [], pl_filters = [], pl_filter_tree = None,
     pl_order_by = [\<lparr>ro_field = qfield ''a'' ''v'', ro_direction = Desc\<rparr>], pl_aggregations = [], pl_joins = [small_join Left],
     pl_post_join_filters = [], pl_needed = []\<rparr>"

definition small_state :: "(u128, postings) hmap join_state" where
  "small_state = \<lparr>js_rows = [[(''a.v'', ''x'')], [(''a.v'', ''y'')]], js_available = {''a''}, js_early = False, js_total_found = 0,
     js_manager = manager_new None []\<rparr>"


section \<open>Resolved joins\<close>

text \<open>The joins after the aliases \<open>bound\<close>.\<close>

fun joins_ok :: "string set \<Rightarrow> resolved_join list \<Rightarrow> bool" where
  "joins_ok bound [] = True"
| "joins_ok bound (j # js) \<longleftrightarrow> rj_alias j \<notin> bound \<and> rj_conditions j \<noteq> [] \<and>
     (\<forall>c\<in>set (rj_conditions j). qf_alias (cd_joining_side c) = rj_alias j \<and> qf_alias (cd_existing_side c) \<in> bound) \<and>
     (rj_sum_matches_field j = None \<longleftrightarrow> rj_sum_matches_as j = None) \<and> joins_ok (insert (rj_alias j) bound) js"

lemma resolve_condition_sides:
  "resolve_condition base alias bound c = Inr r \<Longrightarrow>
   qf_alias (cd_joining_side r) = alias \<and> qf_alias (cd_existing_side r) \<in> bound"
  by (auto simp: resolve_condition_def rbind_Inr_iff split: if_splits)

lemma map_r_elem: "map_r f xs = Inr ys \<Longrightarrow> y \<in> set ys \<Longrightarrow> \<exists>x\<in>set xs. f x = Inr y"
  by (induction xs arbitrary: ys) (auto simp: rbind_Inr_iff)

lemma resolve_join_ok:
  assumes "resolve_join x base entity j bound = Inr (r, bound')"
  shows "bound' = insert (rj_alias r) bound \<and> rj_alias r \<notin> bound \<and> rj_conditions r \<noteq> [] \<and>
    (\<forall>c\<in>set (rj_conditions r). qf_alias (cd_joining_side c) = rj_alias r \<and> qf_alias (cd_existing_side c) \<in> bound) \<and>
    (rj_sum_matches_field r = None \<longleftrightarrow> rj_sum_matches_as r = None)"
proof -
  let ?al = "hdefault (sj_table j) (trimmed_name (sj_alias j))"
  have r: "map_r (resolve_condition base ?al bound) (sj_on j) = Inr (rj_conditions r) \<and> rj_alias r = ?al \<and>
      ?al \<notin> bound \<and> sj_on j \<noteq> [] \<and> bound' = insert ?al bound \<and> (rj_sum_matches_field r = None \<longleftrightarrow> rj_sum_matches_as r = None)"
    using assms by (auto simp: resolve_join_def Let_def rbind_Inr_iff split: if_splits)
  then have cs: "map_r (resolve_condition base ?al bound) (sj_on j) = Inr (rj_conditions r)" by (rule conjunct1)
  have "rj_conditions r \<noteq> []" using map_r_length [OF cs] r by auto
  moreover have "\<forall>c\<in>set (rj_conditions r). qf_alias (cd_joining_side c) = ?al \<and> qf_alias (cd_existing_side c) \<in> bound"
    using map_r_elem [OF cs] resolve_condition_sides by metis
  ultimately show ?thesis using r by simp
qed

lemma resolve_joins_ok: "resolve_joins_from x base entity js bound = Inr rs \<Longrightarrow> joins_ok bound rs"
proof (induction js arbitrary: bound rs)
  case (Cons j js)
  then obtain r bound' rs' where "resolve_join x base entity j bound = Inr (r, bound')"
    "resolve_joins_from x base entity js bound' = Inr rs'" "rs = r # rs'" by (auto simp: rbind_Inr_iff)
  with Cons.IH [of bound' rs'] resolve_join_ok [of x base entity j bound r bound'] show ?case by auto
qed simp

lemma joins_ok_distinct: "joins_ok bound js \<Longrightarrow> distinct (map rj_alias js) \<and> set (map rj_alias js) \<inter> bound = {}"
  by (induction js arbitrary: bound) auto

lemma joins_ok_nth:
  "joins_ok bound js \<Longrightarrow> i < length js \<Longrightarrow> rj_conditions (js ! i) \<noteq> [] \<and>
   (rj_sum_matches_field (js ! i) = None \<longleftrightarrow> rj_sum_matches_as (js ! i) = None) \<and>
   (\<forall>c\<in>set (rj_conditions (js ! i)). qf_alias (cd_joining_side c) = rj_alias (js ! i) \<and>
      qf_alias (cd_existing_side c) \<in> bound \<union> set (map rj_alias (take i js)))"
proof (induction js arbitrary: bound i)
  case (Cons j js)
  show ?case
  proof (cases i)
    case (Suc k)
    with Cons.IH [of "insert (rj_alias j) bound" k] Cons.prems show ?thesis by auto
  qed (use Cons.prems in auto)
qed simp

text \<open>C33: The joins of a query that resolve are well formed, whatever the saved query holds: the base table and
  the joins have different aliases, each join has a condition, each condition compares a field of the
  join's own alias with a field of the base table or of an earlier join, and a sum has both its field and its name.\<close>

theorem resolve_joins_well_formed:
  assumes "resolve_joins x query base_alias = Inr joins"
  shows "distinct (base_alias # map rj_alias joins) \<and>
    (\<forall>i<length joins. rj_conditions (joins ! i) \<noteq> [] \<and>
       (rj_sum_matches_field (joins ! i) = None \<longleftrightarrow> rj_sum_matches_as (joins ! i) = None) \<and>
       (\<forall>c\<in>set (rj_conditions (joins ! i)). qf_alias (cd_joining_side c) = rj_alias (joins ! i) \<and>
          qf_alias (cd_existing_side c) \<in> set (base_alias # map rj_alias (take i joins))))"
  using joins_ok_nth joins_ok_distinct resolve_joins_ok [OF assms [unfolded resolve_joins_def]] by fastforce

definition small_query :: saved_query where
  "small_query = SavedQuery ''q'' ''db'' ''a'' None [\<lparr>sj_join_type = ''inner'', sj_entity = None, sj_table = ''b'', sj_alias = None,
     sj_on = [\<lparr>jc_left = ''a.k'', jc_op = ''Eq'', jc_right = ''b.k''\<rparr>], sj_count_matches_as = None, sj_sum_matches_field = None,
     sj_sum_matches_as = None\<rparr>] [] None ''And'' [] [] None None [] [] None None None"

theorem resolve_joins_well_formed_witness:
  "\<exists>joins. resolve_joins ascii_ext small_query ''a'' = Inr joins \<and> distinct (''a'' # map rj_alias joins) \<and> length joins = 1"
proof -
  have p: "parse_qualified_field ''a.k'' ''a'' = Inr (qfield ''a'' ''k'')" "parse_qualified_field ''b.k'' ''a'' = Inr (qfield ''b'' ''k'')"
    by (simp_all add: parse_qualified_field_def qfield_def trim_def trim_start_def trim_end_def white_space_def trim_with.simps
        Let_def)
  have "\<exists>j. resolve_joins ascii_ext small_query ''a'' = Inr [j]"
    by (simp add: resolve_joins_def small_query_def resolve_join_def resolve_condition_def p qfield_def trimmed_name_def
        is_qualified_def eq_ignore_ascii_case_def ascii_ext_def ascii_lower_def bval_def Let_def)
  with resolve_joins_well_formed [of ascii_ext small_query "''a''"] show ?thesis by auto
qed

section \<open>The lookups of a join\<close>

text \<open>A row whose cells are \<open>cell\<close> passes all filters of a lookup.\<close>

definition passes :: "ext \<Rightarrow> filter_t list \<Rightarrow> (string \<Rightarrow> string) \<Rightarrow> bool" where
  "passes x fs cell \<longleftrightarrow> (\<forall>f\<in>set fs. filter_holds x f (cell (f_field f)))"

definition eq_key :: "resolved_join_condition \<Rightarrow> string \<Rightarrow> filter_t" where
  "eq_key c v = \<lparr>f_field = qf_field (cd_joining_side c), f_op = Eq, f_value = v, f_value_to = None, f_type = None, f_options = []\<rparr>"

text \<open>The lookup for the key values \<open>vs\<close>.\<close>

definition lookup_of :: "resolved_join_condition list \<Rightarrow> filter_t list \<Rightarrow> string list \<Rightarrow> filter_t list" where
  "lookup_of cs pushdown vs = map2 eq_key cs vs @ pushdown"

lemma lookup_key_values:
  "lookup_key row cs = map_option (map2 eq_key cs) (key_values row (map cd_existing_side cs))"
  by (induction cs) (simp_all add: key_filter_def eq_key_def option.map_comp comp_def split: option.split)

lemma key_values_length: "key_values row fs = Some vs \<Longrightarrow> length vs = length fs"
  by (induction fs arbitrary: vs) (auto split: option.splits)

lemma passes_nth: "passes x fs cell \<longleftrightarrow> (\<forall>i<length fs. filter_holds x (fs ! i) (cell (f_field (fs ! i))))"
  by (simp add: passes_def all_set_conv_all_nth)

lemma lookup_same_but:
  assumes "length vs = length cs" "length ws = length cs" "i < length (lookup_of cs pd vs)"
    and "same_but i (lookup_of cs pd vs) (lookup_of cs pd ws)"
  shows "lookup_of cs pd ws = (lookup_of cs pd vs)[i := (lookup_of cs pd vs ! i)\<lparr>f_value := f_value (lookup_of cs pd ws ! i)\<rparr>]"
proof (rule nth_equalityI)
  fix j assume j: "j < length (lookup_of cs pd ws)"
  show "lookup_of cs pd ws ! j = (lookup_of cs pd vs)[i := (lookup_of cs pd vs ! i)\<lparr>f_value := f_value (lookup_of cs pd ws ! i)\<rparr>] ! j"
  proof (cases "j < length cs")
    case True
    with assms j have "f_value (lookup_of cs pd ws ! j) = f_value (lookup_of cs pd vs ! j)" if "j \<noteq> i"
      using that by (auto simp: same_but_def list_all_iff)
    with True assms j show ?thesis by (cases "j = i") (simp_all add: lookup_of_def nth_append eq_key_def)
  next
    case False
    with assms j show ?thesis by (cases "j = i") (simp_all add: lookup_of_def nth_append)
  qed
qed (use assms in \<open>simp add: lookup_of_def\<close>)

lemma merged_lookup_passes:
  assumes m: "merged_lookup sets i = Some m" and ne: "sets \<noteq> []" and i: "i < length (hd sets)"
    and shape: "\<forall>fs\<in>set sets. \<exists>vs. length vs = length cs \<and> fs = lookup_of cs pd vs"
  shows "passes x m cell \<longleftrightarrow> (\<exists>fs\<in>set sets. passes x fs cell)"
proof -
  let ?t = "hd sets"
  let ?v = "?t ! i"
  define vlist where "vlist = rev (remdups (rev (map (\<lambda>fs. f_value (fs ! i)) sets)))"
  have op: "f_op ?v = Eq" and same: "\<forall>fs\<in>set sets. same_but i ?t fs"
    and M: "m = ?t[i := \<lparr>f_field = f_field ?v, f_op = In, f_value = hd vlist, f_value_to = None, f_type = f_type ?v, f_options = vlist\<rparr>]"
    using m by (simp_all add: merged_lookup_def Let_def list_all_iff vlist_def split: if_splits)
  have vals: "set vlist = (\<lambda>fs. f_value (fs ! i)) ` set sets" by (simp add: vlist_def)
  with ne have "vlist \<noteq> []" by (metis image_is_empty set_empty)
  then have lv: "list_values (hd vlist) vlist = vlist" by (simp add: list_values_def)
  from shape ne obtain vs where vs: "length vs = length cs" "?t = lookup_of cs pd vs" by (meson hd_in_set)
  have rep: "fs = ?t[i := ?v\<lparr>f_value := f_value (fs ! i)\<rparr>]" if "fs \<in> set sets" for fs
  proof -
    from shape that obtain ws where "length ws = length cs" "fs = lookup_of cs pd ws" by blast
    with lookup_same_but [of vs cs ws i pd] vs i same that show ?thesis by simp
  qed
  let ?rest = "\<forall>j<length ?t. j \<noteq> i \<longrightarrow> filter_holds x (?t ! j) (cell (f_field (?t ! j)))"
  have split: "passes x (?t[i := f]) cell \<longleftrightarrow> ?rest \<and> filter_holds x f (cell (f_field f))" for f
    using i by (auto simp: passes_nth nth_list_update)
  have "passes x fs cell \<longleftrightarrow> ?rest \<and> compare_values (cell (f_field ?v)) (f_value (fs ! i)) (f_type ?v) = Some Equal"
    if "fs \<in> set sets" for fs
    using split [of "?v\<lparr>f_value := f_value (fs ! i)\<rparr>"] rep [OF that] op by (simp add: filter_holds_def)
  moreover have "passes x m cell \<longleftrightarrow> ?rest \<and> (\<exists>v\<in>set vlist. compare_values (cell (f_field ?v)) v (f_type ?v) = Some Equal)"
    using split by (simp add: M filter_holds_def lv list_ex_iff)
  ultimately show ?thesis by (auto simp: vals)
qed

lemma coalesce_passes:
  assumes "\<forall>fs\<in>set sets. \<exists>vs. length vs = length cs \<and> fs = lookup_of cs pd vs"
  shows "(\<exists>fs\<in>set (coalesce_join_lookup_filters sets). passes x fs cell) \<longleftrightarrow> (\<exists>fs\<in>set sets. passes x fs cell)"
proof (cases "length sets \<le> 1")
  case False
  then have ne: "sets \<noteq> []" by auto
  show ?thesis
  proof (cases "List.map_filter (merged_lookup sets) [0 ..< length (hd sets)]")
    case (Cons m ms)
    then have "m \<in> set (List.map_filter (merged_lookup sets) [0 ..< length (hd sets)])" by simp
    then obtain i where "i < length (hd sets)" "merged_lookup sets i = Some m" by (auto simp: map_filter_def)
    with merged_lookup_passes [OF _ ne _ assms, of i m x cell] False Cons show ?thesis
      by (simp add: coalesce_join_lookup_filters_def)
  qed (use False in \<open>simp add: coalesce_join_lookup_filters_def\<close>)
qed (simp add: coalesce_join_lookup_filters_def)

text \<open>No key has the separator in it.\<close>

definition plain_keys :: "qualified_field list \<Rightarrow> flat_row \<Rightarrow> bool" where
  "plain_keys fs row \<longleftrightarrow> (\<forall>vs. key_values row fs = Some vs \<longrightarrow> (\<forall>v\<in>set vs. JOIN_SEPARATOR \<notin> set v))"

lemma dedupe_key_inj:
  assumes "dedupe_key (map2 eq_key cs vs) = dedupe_key (map2 eq_key cs ws)" "length vs = length cs" "length ws = length cs"
    and "\<forall>c\<in>set cs. JOIN_SEPARATOR \<notin> set (qf_field (cd_joining_side c))" "\<forall>v\<in>set vs \<union> set ws. JOIN_SEPARATOR \<notin> set v"
  shows "vs = ws"
proof -
  let ?k = "\<lambda>us. map2 (\<lambda>c v. qf_field (cd_joining_side c) @ ''='' @ v) cs us"
  have k: "dedupe_key (map2 eq_key cs us) = join_with [JOIN_SEPARATOR] (?k us)" for us
    by (simp add: dedupe_key_def JOIN_SEPARATOR_def eq_key_def comp_def case_prod_beta')
  have S: "\<forall>s\<in>set (?k us). JOIN_SEPARATOR \<notin> set s" if "set us \<subseteq> set vs \<union> set ws" for us
    using assms(4,5) that by (auto simp: JOIN_SEPARATOR_def) (meson set_zip_leftD, meson set_zip_rightD subsetD UnE Un_iff)
  have "?k vs = ?k ws"
  proof (rule join_with_inj)
    show "\<forall>s\<in>set (?k vs). JOIN_SEPARATOR \<notin> set s" "\<forall>s\<in>set (?k ws). JOIN_SEPARATOR \<notin> set s" using S by blast+
    show "join_with [JOIN_SEPARATOR] (?k vs) = join_with [JOIN_SEPARATOR] (?k ws)" using assms(1) by (simp only: k)
  qed (use assms(2,3) in simp)
  then have "?k vs ! i = ?k ws ! i" if "i < length cs" for i by simp
  with assms(2,3) have "vs ! i = ws ! i" if "i < length cs" for i using that by fastforce
  with assms(2,3) show ?thesis by (intro nth_equalityI) auto
qed

definition looked_up :: "resolved_join_condition list \<Rightarrow> filter_t list \<Rightarrow> flat_row list \<Rightarrow> string list \<times> filter_t list list \<Rightarrow> bool" where
  "looked_up cs pd rows st \<longleftrightarrow>
     (\<forall>fs\<in>set (snd st). \<exists>vs. length vs = length cs \<and> fs = lookup_of cs pd vs) \<and>
     (\<forall>k\<in>set (fst st). \<exists>row\<in>set rows. \<exists>vs. key_values row (map cd_existing_side cs) = Some vs \<and>
        dedupe_key (map2 eq_key cs vs) = k \<and> lookup_of cs pd vs \<in> set (snd st)) \<and>
     (\<forall>row\<in>set rows. \<forall>vs. key_values row (map cd_existing_side cs) = Some vs \<longrightarrow> dedupe_key (map2 eq_key cs vs) \<in> set (fst st))"

lemma lookup_step_looked_up:
  assumes "looked_up cs pd rows st"
  shows "looked_up cs pd (rows @ [row]) (lookup_step cs pd row st)"
proof (cases "key_values row (map cd_existing_side cs)")
  case None
  with assms show ?thesis unfolding looked_up_def by (simp add: lookup_step_def lookup_key_values)
next
  case (Some vs)
  obtain seen sets where st: "st = (seen, sets)" by (cases st)
  show ?thesis
  proof (cases "dedupe_key (map2 eq_key cs vs) \<in> set seen")
    case True
    with assms Some show ?thesis unfolding looked_up_def st by (simp add: lookup_step_def lookup_key_values)
  next
    case False
    with key_values_length [OF Some] assms Some show ?thesis
      unfolding looked_up_def st by (simp add: lookup_step_def lookup_key_values lookup_of_def) blast
  qed
qed

lemma build_lookups:
  "build_join_lookup_filters rows join pd = Some sets \<Longrightarrow> \<exists>seen. looked_up (rj_conditions join) pd rows (seen, sets)"
proof -
  assume a: "build_join_lookup_filters rows join pd = Some sets"
  let ?cs = "rj_conditions join"
  have "looked_up ?cs pd rows (fold (lookup_step ?cs pd) rows ([], []))" for rows
    by (induction rows rule: rev_induct) (simp_all add: lookup_step_looked_up, simp add: looked_up_def)
  from this [of rows] a show ?thesis by (metis build_join_lookup_filters_def option.distinct(1) option.inject prod.collapse)
qed

lemma key_values_nth:
  "key_values row fs = Some vs \<Longrightarrow> i < length fs \<Longrightarrow>
   \<exists>raw. hget row (qf_qualified (fs ! i)) = Some raw \<and> vs ! i = normalize_join_key_fragment raw"
  by (induction fs arbitrary: vs i) (auto simp: nth_Cons split: option.splits nat.splits)

text \<open>A cell of the joined table is equal to its own join key.\<close>

definition regular_cells :: "resolved_join_condition list \<Rightarrow> (string \<Rightarrow> string) \<Rightarrow> bool" where
  "regular_cells cs cell \<longleftrightarrow> (\<forall>c\<in>set cs. compare_values (cell (qf_field (cd_joining_side c)))
     (normalize_join_key_fragment (cell (qf_field (cd_joining_side c)))) None = Some Equal)"


lemma normalize_letter: "normalize_join_key_fragment ''x'' = ''x''" "normalize_join_key_fragment ''y'' = ''y''"
  by (simp_all add: normalize_join_key_fragment_def trim_letter parse_letter_None)


section \<open>Keys and rows that are confused\<close>

text \<open>A cell with a blank before its text has the join key of the text, but no lookup for that key finds it.\<close>

lemma padded_key_missed:
  "normalize_join_key_fragment '' x'' = normalize_join_key_fragment ''x'' \<and>
   \<not> filter_holds x (eq_key c (normalize_join_key_fragment ''x'')) '' x''"
proof -
  have t: "trim '' x'' = ''x''" by (simp add: trim_def trim_start_def trim_end_def white_space_def trim_with.simps)
  then have "compare_numeric '' x'' ''x'' = None" "compare_dates '' x'' ''x'' = None"
    by (simp_all add: compare_numeric_def compare_dates_def parse_letter_None trim_letter no_date_letter Let_def)
  then show ?thesis
    by (simp add: filter_holds_def eq_key_def normalize_letter normalize_join_key_fragment_def t trim_letter parse_letter_None cmp_ord_def)
qed

text \<open>Join keys pass through a binary64 number: two neighbouring large integers are one key.\<close>

lemma large_keys_conflated:
  "normalize_join_key_fragment (show_nat (2 ^ 53 + 1)) = normalize_join_key_fragment (show_nat (2 ^ 53)) \<and>
   show_nat (2 ^ 53 + 1) \<noteq> show_nat (2 ^ 53)"
proof -
  have p: "parse_f64 (show_nat (2 ^ 53 + 1)) = Some (Fin (2 ^ 53))" "parse_f64 (show_nat (2 ^ 53)) = Some (Fin (2 ^ 53))"
    using parse_f64_show_nat [of "2 ^ 53"] by (simp_all only: parse_f64_show_nat_round round64_inexact) simp
  have "show_nat n \<noteq> []" for n using show_nat_digits by blast
  moreover have "whole (Fin (2 ^ 53))" by (simp add: whole_def f64_lt_def epsilon_def)
  moreover have "show_nat (2 ^ 53 + 1) \<noteq> show_nat (2 ^ 53)" using show_nat_digits by (metis add_cancel_left_right one_neq_zero)
  ultimately show ?thesis by (simp only: normalize_join_key_fragment_def Let_def trim_show_nat p) simp
qed

text \<open>Two rows of a table that agree on the fields a join reads are one row to it: a count of matches
  counts them once.\<close>

lemma equal_rows_collapse: "snd (fold add_unseen [row, row] ([], [])) = [row]"
  by (simp add: add_unseen_def Let_def)

end
