(* ===== verification/Join_Gate.thy ===== *)
theory Join_Gate
  imports Table_Manager
begin

text \<open>
  \<^verbatim>\<open>src/core/join_concurrency.rs\<close>: the gate that bounds how many join queries run at once, as a step relation
  over the calls that hold a permit, sleep on the condition variable, or were woken and have not looked at
  the counter again. Each step is one critical section of the mutex. \<open>notify_one\<close> wakes any one sleeper.
\<close>

section \<open>The gate\<close>

record join_gate =
  jg_active :: nat
  jg_max :: nat
  jg_holding :: "nat set"
  jg_sleeping :: "nat set"
  jg_awake :: "nat set"

definition gate_new :: "string option \<Rightarrow> join_gate" where
  "gate_new max_concurrent = \<lparr>jg_active = 0, jg_max = usize_or 2 max_concurrent, jg_holding = {}, jg_sleeping = {}, jg_awake = {}\<rparr>"

text \<open>One look at the counter: take a permit or wait.\<close>

definition try_acquire :: "nat \<Rightarrow> join_gate \<Rightarrow> join_gate" where
  "try_acquire c g =
     (if jg_max g \<le> jg_active g then g\<lparr>jg_sleeping := insert c (jg_sleeping g)\<rparr>
      else g\<lparr>jg_active := jg_active g + 1, jg_holding := insert c (jg_holding g)\<rparr>)"

definition drop_permit :: "nat \<Rightarrow> join_gate \<Rightarrow> join_gate" where
  "drop_permit c g = g\<lparr>jg_active := jg_active g - 1, jg_holding := jg_holding g - {c}\<rparr>"

definition notify :: "nat \<Rightarrow> join_gate \<Rightarrow> join_gate" where
  "notify d g = g\<lparr>jg_sleeping := jg_sleeping g - {d}, jg_awake := insert d (jg_awake g)\<rparr>"

inductive gate_step :: "join_gate \<Rightarrow> join_gate \<Rightarrow> bool" where
  arrive: "c \<notin> jg_holding g \<union> jg_sleeping g \<union> jg_awake g \<Longrightarrow> gate_step g (try_acquire c g)"
| retry: "c \<in> jg_awake g \<Longrightarrow> gate_step g (try_acquire c (g\<lparr>jg_awake := jg_awake g - {c}\<rparr>))"
| release: "c \<in> jg_holding g \<Longrightarrow> jg_sleeping g = {} \<Longrightarrow> gate_step g (drop_permit c g)"
| release_wake: "c \<in> jg_holding g \<Longrightarrow> d \<in> jg_sleeping g \<Longrightarrow> gate_step g (notify d (drop_permit c g))"

section \<open>The invariant\<close>

text \<open>The counter is the number of holders, and no wake-up is lost: while a call sleeps, a call that is awake
  stands for every free slot.\<close>

definition gate_ok :: "join_gate \<Rightarrow> bool" where
  "gate_ok g \<longleftrightarrow> finite (jg_holding g) \<and> finite (jg_sleeping g) \<and> finite (jg_awake g) \<and>
     jg_holding g \<inter> jg_sleeping g = {} \<and> jg_holding g \<inter> jg_awake g = {} \<and> jg_sleeping g \<inter> jg_awake g = {} \<and>
     jg_active g = card (jg_holding g) \<and> jg_active g \<le> jg_max g \<and>
     (jg_sleeping g \<noteq> {} \<longrightarrow> jg_max g \<le> jg_active g + card (jg_awake g))"

lemma gate_okD:
  assumes "gate_ok g"
  shows "finite (jg_holding g)" "finite (jg_sleeping g)" "finite (jg_awake g)"
    "jg_active g = card (jg_holding g)" "jg_active g \<le> jg_max g"
    "jg_sleeping g \<noteq> {} \<Longrightarrow> jg_max g \<le> jg_active g + card (jg_awake g)"
  using assms by (simp_all add: gate_ok_def)

lemma gate_step_max: "gate_step g g' \<Longrightarrow> jg_max g' = jg_max g"
  by (induction rule: gate_step.induct) (simp_all add: try_acquire_def drop_permit_def notify_def)

lemma gate_step_ok:
  assumes "gate_step g g'" "gate_ok g"
  shows "gate_ok g'"
  using assms
proof (cases rule: gate_step.cases)
  case (arrive c)
  then show ?thesis using assms(2) by (auto simp: gate_ok_def try_acquire_def)
next
  case (retry c)
  then have "0 < card (jg_awake g)" using gate_okD(3) [OF assms(2)] card_gt_0_iff by blast
  moreover have "c \<notin> jg_holding g" using retry assms(2) by (auto simp: gate_ok_def)
  ultimately show ?thesis using retry assms(2) by (auto simp: gate_ok_def try_acquire_def)
next
  case (release c)
  then show ?thesis using assms(2) by (auto simp: gate_ok_def drop_permit_def)
next
  case (release_wake c d)
  then have "0 < card (jg_holding g)" using gate_okD(1) [OF assms(2)] card_gt_0_iff by blast
  moreover have "d \<notin> jg_awake g" using release_wake assms(2) by (auto simp: gate_ok_def)
  ultimately show ?thesis using release_wake assms(2) by (auto simp: gate_ok_def drop_permit_def notify_def)
qed

lemma gate_reachable: "gate_step\<^sup>*\<^sup>* (gate_new v) g \<Longrightarrow> gate_ok g \<and> jg_max g = usize_or 2 v"
proof (induction rule: rtranclp_induct)
  case (step y z)
  then show ?case using gate_step_ok [of y z] gate_step_max [of y z] by simp
qed (simp add: gate_new_def gate_ok_def)

section \<open>Waiting calls\<close>

lemma retry_admits:
  "c \<in> jg_awake g \<Longrightarrow> jg_active g < jg_max g \<Longrightarrow> \<exists>g'. gate_step g g' \<and> c \<in> jg_holding g' \<and> jg_sleeping g' = jg_sleeping g"
  using gate_step.retry [of c g] by (intro exI [of _ "try_acquire c (g\<lparr>jg_awake := jg_awake g - {c}\<rparr>)"]) (simp add: try_acquire_def)

lemma holder_lets_in:
  assumes "gate_ok g" "h \<in> jg_holding g" "c \<in> jg_sleeping g \<union> jg_awake g"
  shows "\<exists>g'. gate_step\<^sup>*\<^sup>* g g' \<and> c \<in> jg_holding g'"
proof -
  have "0 < card (jg_holding g)" using gate_okD(1) [OF assms(1)] assms(2) card_gt_0_iff by blast
  with gate_okD(4,5) [OF assms(1)] have less: "jg_active g - 1 < jg_max g" by simp
  have "\<exists>g1. gate_step g g1 \<and> c \<in> jg_awake g1 \<and> jg_active g1 < jg_max g1"
  proof (cases "jg_sleeping g = {}")
    case True
    with gate_step.release [OF assms(2)] assms(3) less show ?thesis by (intro exI [of _ "drop_permit h g"]) (simp add: drop_permit_def)
  next
    case False
    then obtain d where "d \<in> jg_sleeping g" "c \<in> jg_sleeping g \<longrightarrow> d = c" by blast
    with gate_step.release_wake [OF assms(2)] assms(3) less show ?thesis
      by (intro exI [of _ "notify d (drop_permit h g)"]) (auto simp: drop_permit_def notify_def)
  qed
  then obtain g1 where "gate_step g g1" "c \<in> jg_awake g1" "jg_active g1 < jg_max g1" by blast
  with retry_admits [of c g1] show ?thesis by (meson rtranclp.rtrancl_into_rtrancl rtranclp.rtrancl_refl)
qed

lemma waiting_admitted:
  assumes "gate_ok g" "0 < jg_max g" "c \<in> jg_sleeping g \<union> jg_awake g"
  shows "\<exists>g'. gate_step\<^sup>*\<^sup>* g g' \<and> c \<in> jg_holding g'"
proof (cases "jg_holding g = {}")
  case False
  with holder_lets_in assms show ?thesis by blast
next
  case True
  with gate_okD(4) [OF assms(1)] assms(2) have free: "jg_active g < jg_max g" by simp
  show ?thesis
  proof (cases "c \<in> jg_awake g")
    case True
    with retry_admits free show ?thesis by blast
  next
    case False
    with assms(3) have c: "c \<in> jg_sleeping g" by simp
    with gate_okD(6) [OF assms(1)] free have "card (jg_awake g) \<noteq> 0" by fastforce
    then obtain a where "a \<in> jg_awake g" by (metis card.empty ex_in_conv)
    with retry_admits free obtain g1 where g1: "gate_step g g1" "a \<in> jg_holding g1" "jg_sleeping g1 = jg_sleeping g" by metis
    with holder_lets_in [of g1 a c] gate_step_ok assms(1) c obtain g' where "gate_step\<^sup>*\<^sup>* g1 g'" "c \<in> jg_holding g'" by auto
    with g1(1) show ?thesis by (meson converse_rtranclp_into_rtranclp)
  qed
qed

text \<open>C32: The gate never lets more join queries run than its maximum, and with a positive maximum no wake-up
  is lost: in every state the gate can reach, each call that waits can still be admitted, whatever
  happened before.\<close>

theorem join_gate_admits:
  assumes "0 < usize_or 2 max_concurrent" "gate_step\<^sup>*\<^sup>* (gate_new max_concurrent) g"
  shows "card (jg_holding g) \<le> usize_or 2 max_concurrent \<and>
    (\<forall>c\<in>jg_sleeping g \<union> jg_awake g. \<exists>g'. gate_step\<^sup>*\<^sup>* g g' \<and> c \<in> jg_holding g')"
  using gate_reachable [OF assms(2)] waiting_admitted gate_okD(4,5) assms(1) by metis

theorem join_gate_admits_witness:
  "\<exists>g. gate_step\<^sup>*\<^sup>* (gate_new None) g \<and> 7 \<in> jg_sleeping g \<and> (\<exists>g'. gate_step\<^sup>*\<^sup>* g g' \<and> 7 \<in> jg_holding g')"
proof -
  let ?g = "try_acquire 7 (try_acquire 6 (try_acquire 5 (gate_new None)))"
  have d: "usize_or 2 None = 2" by (simp add: usize_or_def)
  have "gate_step (gate_new None) (try_acquire 5 (gate_new None))"
    "gate_step (try_acquire 5 (gate_new None)) (try_acquire 6 (try_acquire 5 (gate_new None)))"
    "gate_step (try_acquire 6 (try_acquire 5 (gate_new None))) ?g"
    by (rule gate_step.arrive; simp add: gate_new_def try_acquire_def d)+
  then have r: "gate_step\<^sup>*\<^sup>* (gate_new None) ?g" by (meson rtranclp.rtrancl_into_rtrancl rtranclp.rtrancl_refl)
  have "7 \<in> jg_sleeping ?g" by (simp add: gate_new_def try_acquire_def d)
  with r join_gate_admits [of None ?g] d show ?thesis by auto
qed

text \<open>With a maximum of zero no join query ever runs.\<close>

lemma gate_zero_blocks: "gate_step\<^sup>*\<^sup>* (gate_new v) g \<Longrightarrow> usize_or 2 v = 0 \<Longrightarrow> jg_holding g = {}"
  using gate_reachable [of v g] gate_okD(1,4,5) [of g] by auto

end
