(* ===== verification/Cdc_Gtid.thy ===== *)
theory Cdc_Gtid
  imports Rust_Std
begin

text \<open>
  The set of executed transactions in \<^verbatim>\<open>src/core/cdc/mod.rs\<close>: a text \<open>uuid:1-5:7,uuid:3\<close>, per source server the
  intervals of its transaction numbers, kept half-open, sorted and merged. The functions parse such a text, add
  one transaction and print the set again.

  The \<^verbatim>\<open>uuid\<close> crate is a parameter: \<open>uuid_parse\<close> for \<^verbatim>\<open>Uuid::parse_str\<close> and \<open>uuid_show\<close> for \<^verbatim>\<open>to_string\<close>; the
  sixteen bytes of an identifier are the number they denote. So is \<open>sid_valid\<close>, the test of \<^verbatim>\<open>Sid::from_str\<close> in
  \<^verbatim>\<open>mysql_common\<close>.
\<close>

record uuid_crate =
  uuid_parse :: "string \<Rightarrow> u128 option"
  uuid_show :: "u128 \<Rightarrow> string"
  sid_valid :: "string \<Rightarrow> bool"

datatype gtid_error =
    BadFragment string | NoFragments | MissingColon | BadUuid | BadStart | BadEnd | Inverted string | BadGno
  | BadInterval "u64 \<times> u64" | NoIntervals

type_synonym interval_map = "(u128, (u64 \<times> u64) list) hmap"

definition sat_add :: "u64 \<Rightarrow> u64 \<Rightarrow> u64" where
  "sat_add a b = (if a + b < a then - 1 else a + b)"

definition sat_sub :: "u64 \<Rightarrow> u64 \<Rightarrow> u64" where
  "sat_sub a b = (if a < b then 0 else a - b)"

definition parse_u64 :: "string \<Rightarrow> u64 option" where
  "parse_u64 s = map_option of_nat (parse_unsigned 64 s)"

definition show_u64 :: "u64 \<Rightarrow> string" where
  "show_u64 n = show_nat (unat n)"

definition split_on :: "char \<Rightarrow> string \<Rightarrow> string list" where
  "split_on d s = split_pred (\<lambda>c. c = d) s"

section \<open>Fragments of a set\<close>

fun gtid_chunks :: "uuid_crate \<Rightarrow> string list \<Rightarrow> gtid_error + string list" where
  "gtid_chunks U [] = Inr []"
| "gtid_chunks U (part # parts) =
     (let p = trim part in
      if p = [] then gtid_chunks U parts
      else if \<not> sid_valid U p then Inl (BadFragment p)
      else rbind (gtid_chunks U parts) (\<lambda>ps. Inr (p # ps)))"

definition split_gtid_executed_chunks :: "uuid_crate \<Rightarrow> string \<Rightarrow> gtid_error + string list" where
  "split_gtid_executed_chunks U gtids =
     rbind (gtid_chunks U (split_on CHR '','' gtids)) (\<lambda>ps. if ps = [] then Inl NoFragments else Inr ps)"

section \<open>Parsing\<close>

definition parse_gtid_interval :: "string \<Rightarrow> gtid_error + u64 \<times> u64" where
  "parse_gtid_interval seg =
     rbind
       (case split_once CHR ''-'' seg of
          Some (a, b) \<Rightarrow>
            rbind (ok_or BadStart (parse_u64 (trim a))) (\<lambda>start.
            rbind (ok_or BadEnd (parse_u64 (trim b))) (\<lambda>end_inclusive.
              if start \<le> end_inclusive then Inr (start, sat_add end_inclusive 1) else Inl (Inverted seg)))
        | None \<Rightarrow> rbind (ok_or BadGno (parse_u64 seg)) (\<lambda>n. Inr (n, sat_add n 1)))
       (\<lambda>iv. if 0 < fst iv \<and> fst iv < snd iv then Inr iv else Inl (BadInterval iv))"

fun parse_gtid_intervals :: "string list \<Rightarrow> gtid_error + (u64 \<times> u64) list" where
  "parse_gtid_intervals [] = Inr []"
| "parse_gtid_intervals (seg # segs) =
     (let seg = trim seg in
      if seg = [] then parse_gtid_intervals segs
      else rbind (parse_gtid_interval seg) (\<lambda>iv. rbind (parse_gtid_intervals segs) (\<lambda>ivs. Inr (iv # ivs))))"

definition parse_gtid_sid_block :: "uuid_crate \<Rightarrow> string \<Rightarrow> gtid_error + u128 \<times> (u64 \<times> u64) list" where
  "parse_gtid_sid_block U block =
     (case split_once CHR '':'' block of
        None \<Rightarrow> Inl MissingColon
      | Some (uuid_part, rest) \<Rightarrow>
          rbind (ok_or BadUuid (uuid_parse U (trim uuid_part))) (\<lambda>uuid.
          rbind (parse_gtid_intervals (split_on CHR '':'' rest)) (\<lambda>intervals.
            if intervals = [] then Inl NoIntervals else Inr (uuid, intervals))))"

text \<open>The loop of \<^verbatim>\<open>merge_half_open_intervals\<close>: the interval being extended, and the rest.\<close>

fun merge_loop :: "u64 \<times> u64 \<Rightarrow> (u64 \<times> u64) list \<Rightarrow> (u64 \<times> u64) list" where
  "merge_loop cur [] = [cur]"
| "merge_loop cur ((s, e) # ivs) =
     (if s \<le> snd cur then merge_loop (fst cur, max (snd cur) e) ivs else cur # merge_loop (s, e) ivs)"

definition merge_half_open_intervals :: "(u64 \<times> u64) list \<Rightarrow> (u64 \<times> u64) list" where
  "merge_half_open_intervals ivs =
     (case sort_key fst ivs of [] \<Rightarrow> [] | cur # rest \<Rightarrow> merge_loop cur rest)"

fun gtid_fragments :: "uuid_crate \<Rightarrow> string list \<Rightarrow> interval_map \<Rightarrow> gtid_error + interval_map" where
  "gtid_fragments U [] m = Inr m"
| "gtid_fragments U (part # parts) m =
     (let p = trim part in
      if p = [] then gtid_fragments U parts m
      else rbind (parse_gtid_sid_block U p) (\<lambda>(uuid, intervals).
        gtid_fragments U parts (hput uuid (hdefault [] (hget m uuid) @ intervals) m)))"

definition parse_gtid_executed_interval_map :: "uuid_crate \<Rightarrow> string \<Rightarrow> gtid_error + interval_map" where
  "parse_gtid_executed_interval_map U s =
     rbind (gtid_fragments U (split_on CHR '','' s) []) (\<lambda>m. Inr (map (\<lambda>(k, ivs). (k, merge_half_open_intervals ivs)) m))"

section \<open>Printing\<close>

definition show_interval :: "u64 \<times> u64 \<Rightarrow> string" where
  "show_interval iv = (case iv of (s, e) \<Rightarrow>
     CHR '':'' # (if e = sat_add s 1 then show_u64 s else show_u64 s @ ''-'' @ show_u64 (sat_sub e 1)))"

definition show_block :: "uuid_crate \<Rightarrow> interval_map \<Rightarrow> u128 \<Rightarrow> string option" where
  "show_block U m k =
     (case hget m k of
        None \<Rightarrow> None
      | Some intervals \<Rightarrow>
          if intervals = [] then None else Some (uuid_show U k @ concat (map show_interval intervals)))"

definition format_gtid_executed_interval_map :: "uuid_crate \<Rightarrow> interval_map \<Rightarrow> string" where
  "format_gtid_executed_interval_map U m =
     join_with '','' (List.map_filter (show_block U m) (sort (map fst m)))"

definition merge_gtid_executed_increment :: "uuid_crate \<Rightarrow> string \<Rightarrow> u128 \<Rightarrow> u64 \<Rightarrow> string" where
  "merge_gtid_executed_increment U existing sid gno =
     (if gno = 0 then existing
      else let m = (case parse_gtid_executed_interval_map U (trim existing) of Inr m \<Rightarrow> m | Inl _ \<Rightarrow> []);
               ivs = hdefault [] (hget m sid) @ [(gno, sat_add gno 1)] in
        format_gtid_executed_interval_map U (hput sid (merge_half_open_intervals ivs) m))"

section \<open>Merging intervals\<close>

text \<open>The numbers of a list of intervals, and the lists that merging leaves: no interval is empty, and between two of
  them at least one number is missing.\<close>

definition gnos :: "(u64 \<times> u64) list \<Rightarrow> u64 set" where
  "gnos ivs = (\<Union>iv\<in>set ivs. {fst iv..<snd iv})"

definition separated :: "(u64 \<times> u64) list \<Rightarrow> bool" where
  "separated ivs \<longleftrightarrow> sorted_wrt (\<lambda>p q. snd p < fst q) ivs \<and> list_all (\<lambda>iv. fst iv < snd iv) ivs"

lemma gnos_simps [simp]: "gnos [] = {}" "gnos (iv # ivs) = {fst iv..<snd iv} \<union> gnos ivs" "gnos (xs @ ys) = gnos xs \<union> gnos ys"
  by (auto simp: gnos_def)

lemma separated_simps [simp]:
  "separated []" "separated (iv # ivs) \<longleftrightarrow> fst iv < snd iv \<and> list_all (\<lambda>q. snd iv < fst q) ivs \<and> separated ivs"
  by (auto simp: separated_def list_all_iff)

lemma atLeastLessThan_join: "a \<le> s \<Longrightarrow> s \<le> b \<Longrightarrow> {a..<b} \<union> {s..<e} = {a..<max b (e::u64)}"
  by (auto simp: max_def)

lemma merge_loop_gnos:
  "list_all (\<lambda>iv. fst cur \<le> fst iv) ivs \<Longrightarrow> sorted (map fst ivs) \<Longrightarrow>
   gnos (merge_loop cur ivs) = {fst cur..<snd cur} \<union> gnos ivs"
proof (induction cur ivs rule: merge_loop.induct)
  case (2 cur s e ivs)
  show ?case
  proof (cases "s \<le> snd cur")
    case True
    then have "gnos (merge_loop (fst cur, max (snd cur) e) ivs) = {fst cur..<max (snd cur) e} \<union> gnos ivs"
      using 2 by simp
    moreover have "{fst cur..<snd cur} \<union> {s..<e} = {fst cur..<max (snd cur) e}"
      using True 2 by (intro atLeastLessThan_join) simp_all
    ultimately show ?thesis using True by (simp add: Un_assoc [symmetric])
  next
    case False
    with 2 show ?thesis by (auto simp: list_all_iff)
  qed
qed simp

lemma merge_loop_starts: "list_all (\<lambda>iv. lo < fst iv) ivs \<Longrightarrow> lo < fst cur \<Longrightarrow> list_all (\<lambda>iv. lo < fst iv) (merge_loop cur ivs)"
  by (induction cur ivs rule: merge_loop.induct) auto

lemma merge_loop_separated:
  "fst cur < snd cur \<Longrightarrow> list_all (\<lambda>iv. fst iv < snd iv) ivs \<Longrightarrow> list_all (\<lambda>iv. fst cur \<le> fst iv) ivs \<Longrightarrow>
   sorted (map fst ivs) \<Longrightarrow> separated (merge_loop cur ivs)"
proof (induction cur ivs rule: merge_loop.induct)
  case (2 cur s e ivs)
  show ?case
  proof (cases "s \<le> snd cur")
    case True
    with 2 show ?thesis by (simp add: less_max_iff_disj)
  next
    case False
    with 2 have "separated (merge_loop (s, e) ivs)" by (simp add: list_all_iff)
    moreover have "list_all (\<lambda>q. snd cur < fst q) (merge_loop (s, e) ivs)"
      using False 2 by (intro merge_loop_starts) (auto simp: list_all_iff)
    ultimately show ?thesis using False 2 by simp
  qed
qed simp

lemma merge_loop_same: "separated (cur # ivs) \<Longrightarrow> merge_loop cur ivs = cur # ivs"
  by (induction cur ivs rule: merge_loop.induct) auto

lemma merge_head:
  assumes "sort_key fst ivs = cur # rest"
  shows "list_all (\<lambda>iv. fst cur \<le> fst iv) rest" "sorted (map fst rest)"
  using sorted_sort_key [of fst ivs] assms by (simp_all add: list_all_iff)

lemma gnos_merge: "gnos (merge_half_open_intervals ivs) = gnos ivs"
proof -
  have "gnos (sort_key fst ivs) = gnos ivs" by (simp add: gnos_def)
  then show ?thesis
    using merge_head [of ivs] merge_loop_gnos by (auto simp: merge_half_open_intervals_def split: list.split)
qed

lemma separated_merge: "list_all (\<lambda>iv. fst iv < snd iv) ivs \<Longrightarrow> separated (merge_half_open_intervals ivs)"
proof (cases "sort_key fst ivs")
  case (Cons cur rest)
  assume "list_all (\<lambda>iv. fst iv < snd iv) ivs"
  then have "list_all (\<lambda>iv. fst iv < snd iv) (sort_key fst ivs)" by (simp add: list_all_iff)
  with Cons merge_head [OF Cons] merge_loop_separated show ?thesis by (simp add: merge_half_open_intervals_def)
qed (simp add: merge_half_open_intervals_def)

lemma separated_sorted: "separated ivs \<Longrightarrow> sorted (map fst ivs)"
  by (induction ivs) (force simp: list_all_iff)+

lemma merge_same: "separated ivs \<Longrightarrow> merge_half_open_intervals ivs = ivs"
proof (cases ivs)
  case (Cons iv rest)
  assume s: "separated ivs"
  have "sort_key fst ivs = ivs" using separated_sorted [OF s] by (rule sort_key_id_if_sorted)
  with s Cons show ?thesis using merge_loop_same [of iv rest] by (simp add: merge_half_open_intervals_def)
qed (simp add: merge_half_open_intervals_def)

lemma merge_Nil_iff: "merge_half_open_intervals ivs = [] \<longleftrightarrow> ivs = []"
proof -
  have "merge_loop cur rest \<noteq> []" for cur rest by (induction cur rest rule: merge_loop.induct) auto
  moreover have "sort_key fst ivs = [] \<longleftrightarrow> ivs = []" by (metis set_empty set_sort)
  ultimately show ?thesis by (auto simp: merge_half_open_intervals_def split: list.split)
qed

section \<open>Texts\<close>

lemma split_on_none: "d \<notin> set s \<Longrightarrow> split_on d s = [s]"
  unfolding split_on_def by (induction s) auto

lemma split_on_append: "d \<notin> set a \<Longrightarrow> split_on d (a @ d # b) = a # split_on d b"
  unfolding split_on_def by (induction a) auto

lemma split_on_join:
  "ps \<noteq> [] \<Longrightarrow> \<forall>p\<in>set ps. d \<notin> set p \<Longrightarrow> split_on d (join_with [d] ps) = ps"
proof (induction ps)
  case (Cons p ps)
  show ?case
  proof (cases "ps = []")
    case False
    with Cons show ?thesis by (simp add: join_with_Cons split_on_append)
  qed (use Cons split_on_none in simp)
qed simp

lemma join_chars: "set (join_with [d] ps) \<subseteq> insert d (\<Union>p\<in>set ps. set p)"
  by (induction "[d]" ps rule: join_with.induct) auto

lemma digit_graphic: "is_digit c \<Longrightarrow> graphic c \<and> c \<notin> {CHR '','', CHR '':'', CHR ''-''}"
  by (auto simp: is_digit_def graphic_def bval_def)

lemma show_u64_chars: "c \<in> set (show_u64 n) \<Longrightarrow> graphic c \<and> c \<notin> {CHR '','', CHR '':'', CHR ''-''}"
  using show_nat_digits [of "unat n"] digit_graphic by (auto simp: show_u64_def list_all_iff)

lemma show_u64_trim [simp]: "trim (show_u64 n) = show_u64 n"
  using show_u64_chars by (intro trim_graphic) (auto simp: list_all_iff)

lemma parse_show_u64 [simp]: "parse_u64 (show_u64 n) = Some n"
proof -
  have "unat n < 2 ^ 64" using unsigned_less [of n, where ?'a = nat] by simp
  from parse_show_nat [OF this] show ?thesis by (simp add: parse_u64_def show_u64_def)
qed

section \<open>Round trip\<close>

text \<open>What the documentation of \<^verbatim>\<open>uuid\<close> says of the hyphenated form: it is parsed back, and is made of hexadecimal
  digits and hyphens.\<close>

definition uuid_ok :: "uuid_crate \<Rightarrow> bool" where
  "uuid_ok U \<longleftrightarrow> (\<forall>k. uuid_parse U (uuid_show U k) = Some k \<and>
     list_all (\<lambda>c. graphic c \<and> c \<noteq> CHR '','' \<and> c \<noteq> CHR '':'') (uuid_show U k))"

definition gtid_map_ok :: "interval_map \<Rightarrow> bool" where
  "gtid_map_ok m \<longleftrightarrow> hwf m \<and>
     list_all (\<lambda>(k, ivs). ivs \<noteq> [] \<and> separated ivs \<and> list_all (\<lambda>iv. 0 < fst iv) ivs) m"

text \<open>The transaction numbers of a source server.\<close>

definition gnos_of :: "interval_map \<Rightarrow> u128 \<Rightarrow> u64 set" where
  "gnos_of m k = gnos (hdefault [] (hget m k))"

definition interval_body :: "u64 \<times> u64 \<Rightarrow> string" where
  "interval_body iv = tl (show_interval iv)"

lemma show_interval_body: "show_interval iv = CHR '':'' # interval_body iv"
  by (simp add: interval_body_def show_interval_def split: prod.split)

lemma interval_body_chars: "c \<in> set (interval_body iv) \<Longrightarrow> graphic c \<and> c \<notin> {CHR '','', CHR '':''}"
proof -
  have "graphic CHR ''-''" by (simp add: graphic_def bval_def)
  then show "c \<in> set (interval_body iv) \<Longrightarrow> graphic c \<and> c \<notin> {CHR '','', CHR '':''}"
    using show_u64_chars by (cases iv) (auto simp: interval_body_def show_interval_def split: if_splits)
qed

lemma interval_body_trim: "trim (interval_body iv) = interval_body iv" "interval_body iv \<noteq> []"
proof -
  show "trim (interval_body iv) = interval_body iv"
    using interval_body_chars by (intro trim_graphic) (auto simp: list_all_iff)
  show "interval_body iv \<noteq> []"
    using show_nat_digits by (cases iv) (simp add: interval_body_def show_interval_def show_u64_def)
qed

lemma sat_steps:
  fixes s e :: u64
  assumes "s < e"
  shows "sat_add (e - 1) 1 = e" "sat_sub e 1 = e - 1" "s \<le> e - 1"
proof -
  have "unat s < unat e" using assms by (simp add: word_less_nat_alt)
  then have e: "1 \<le> e" by (simp add: word_le_nat_alt)
  show "sat_sub e 1 = e - 1" using e by (simp add: sat_sub_def not_less [symmetric])
  have d: "unat (e - 1) = unat e - 1" using unat_sub [OF e] by (simp only: unsigned_1)
  with \<open>unat s < unat e\<close> have "e - 1 < e" unfolding word_less_nat_alt by linarith
  then have "\<not> e < e - 1" by simp
  then show "sat_add (e - 1) 1 = e" by (simp only: sat_add_def diff_add_cancel if_False)
  show "s \<le> e - 1" using d \<open>unat s < unat e\<close> unfolding word_le_nat_alt by linarith
qed

lemma parse_interval_body:
  assumes "0 < fst iv" "fst iv < snd iv"
  shows "parse_gtid_interval (interval_body iv) = Inr iv"
proof -
  obtain s e where iv: "iv = (s, e)" by (cases iv)
  note st = sat_steps [OF assms(2), unfolded iv snd_conv fst_conv]
  have n: "CHR ''-'' \<notin> set (show_u64 k)" for k using show_u64_chars by blast
  show ?thesis
  proof (cases "e = sat_add s 1")
    case True
    then have b: "interval_body iv = show_u64 s" by (simp add: iv interval_body_def show_interval_def)
    have "split_once CHR ''-'' (show_u64 s) = None" using n by (simp add: split_once_None)
    with True assms show ?thesis unfolding parse_gtid_interval_def b by (simp add: iv)
  next
    case False
    then have b: "interval_body iv = show_u64 s @ CHR ''-'' # show_u64 (e - 1)"
      by (simp add: iv interval_body_def show_interval_def st)
    have "split_once CHR ''-'' (show_u64 s @ CHR ''-'' # show_u64 (e - 1)) = Some (show_u64 s, show_u64 (e - 1))"
      using n by (simp add: split_once_Some)
    with False assms st show ?thesis unfolding parse_gtid_interval_def b by (simp add: iv)
  qed
qed

lemma parse_bodies:
  "list_all (\<lambda>iv. 0 < fst iv \<and> fst iv < snd iv) ivs \<Longrightarrow> parse_gtid_intervals (map interval_body ivs) = Inr ivs"
  by (induction ivs) (simp_all add: interval_body_trim parse_interval_body)

lemma concat_show_interval: "ivs \<noteq> [] \<Longrightarrow> concat (map show_interval ivs) = CHR '':'' # join_with '':'' (map interval_body ivs)"
  by (induction ivs rule: induct_list012) (simp_all add: show_interval_body)

lemma parse_block:
  assumes U: "uuid_ok U" and ivs: "ivs \<noteq> []" "list_all (\<lambda>iv. 0 < fst iv \<and> fst iv < snd iv) ivs"
  shows "parse_gtid_sid_block U (uuid_show U k @ concat (map show_interval ivs)) = Inr (k, ivs)"
    "list_all (\<lambda>c. graphic c \<and> c \<noteq> CHR '','') (uuid_show U k @ concat (map show_interval ivs))"
    "uuid_show U k @ concat (map show_interval ivs) \<noteq> []"
proof -
  have u: "uuid_parse U (uuid_show U k) = Some k" "list_all (\<lambda>c. graphic c \<and> c \<noteq> CHR '','' \<and> c \<noteq> CHR '':'') (uuid_show U k)"
    using U by (simp_all add: uuid_ok_def)
  have t: "trim (uuid_show U k) = uuid_show U k" using u(2) by (intro trim_graphic) (simp add: list_all_iff)
  have "split_once CHR '':'' (uuid_show U k @ CHR '':'' # join_with '':'' (map interval_body ivs)) =
      Some (uuid_show U k, join_with '':'' (map interval_body ivs))"
    using u(2) by (auto simp: split_once_Some list_all_iff)
  moreover have "split_on CHR '':'' (join_with '':'' (map interval_body ivs)) = map interval_body ivs"
    using ivs(1) interval_body_chars by (intro split_on_join) auto
  ultimately show "parse_gtid_sid_block U (uuid_show U k @ concat (map show_interval ivs)) = Inr (k, ivs)"
    using u(1) t parse_bodies [OF ivs(2)] ivs(1) by (simp add: parse_gtid_sid_block_def concat_show_interval)
  have "graphic CHR '':''" by (simp add: graphic_def bval_def)
  then show "list_all (\<lambda>c. graphic c \<and> c \<noteq> CHR '','') (uuid_show U k @ concat (map show_interval ivs))"
    using u(2) interval_body_chars by (auto simp: list_all_iff show_interval_body)
  show "uuid_show U k @ concat (map show_interval ivs) \<noteq> []" using ivs(1) by (simp add: concat_show_interval)
qed

text \<open>A printed map parses back: the fragments of its keys, then their fold.\<close>

definition block_of :: "uuid_crate \<Rightarrow> interval_map \<Rightarrow> u128 \<Rightarrow> string" where
  "block_of U m k = uuid_show U k @ concat (map show_interval (the (hget m k)))"

lemma gtid_map_at:
  assumes "gtid_map_ok m" "k \<in> fst ` set m"
  obtains ivs where "hget m k = Some ivs" "ivs \<noteq> []" "separated ivs" "list_all (\<lambda>iv. 0 < fst iv \<and> fst iv < snd iv) ivs"
proof -
  from assms(2) obtain ivs where i: "(k, ivs) \<in> set m" by auto
  with assms(1) have "hget m k = Some ivs" "ivs \<noteq> []" "separated ivs" "list_all (\<lambda>iv. 0 < fst iv) ivs"
    by (auto simp: gtid_map_ok_def hget_Some_iff list_all_iff)
  with that show thesis by (auto simp: separated_def list_all_iff)
qed

lemma format_blocks:
  assumes "gtid_map_ok m"
  shows "format_gtid_executed_interval_map U m = join_with '','' (map (block_of U m) (sort (map fst m)))"
proof -
  have "show_block U m k = Some (block_of U m k)" if k: "k \<in> fst ` set m" for k
  proof -
    obtain ivs where "hget m k = Some ivs" "ivs \<noteq> []" using gtid_map_at [OF assms k] by blast
    then show ?thesis by (simp add: show_block_def block_of_def)
  qed
  then have "List.map_filter (show_block U m) ks = map (block_of U m) ks" if "set ks \<subseteq> fst ` set m" for ks
    using that by (induction ks) (auto simp: List.map_filter_def)
  then show ?thesis by (simp add: format_gtid_executed_interval_map_def)
qed

lemma parse_fragments:
  assumes U: "uuid_ok U" and m: "gtid_map_ok m" and ks: "set ks \<subseteq> fst ` set m"
  shows "gtid_fragments U (map (block_of U m) ks) acc =
    Inr (fold (\<lambda>k acc. hput k (hdefault [] (hget acc k) @ the (hget m k)) acc) ks acc)"
  using ks
proof (induction ks arbitrary: acc)
  case (Cons k ks)
  then have k: "k \<in> fst ` set m" by simp
  obtain ivs where i: "hget m k = Some ivs" "ivs \<noteq> []" "list_all (\<lambda>iv. 0 < fst iv \<and> fst iv < snd iv) ivs"
    using gtid_map_at [OF m k] by blast
  note b = parse_block [OF U i(2,3), of k]
  have "trim (block_of U m k) = block_of U m k" using b(2) i(1) by (intro trim_graphic) (simp add: block_of_def list_all_iff)
  moreover have "parse_gtid_sid_block U (block_of U m k) = Inr (k, ivs)" "block_of U m k \<noteq> []"
    using b(1,3) by (simp_all only: block_of_def option.sel i(1) not_False_eq_True)
  ultimately show ?case using i(1) Cons by simp
qed simp

lemma fold_blocks:
  assumes "distinct ks"
  shows "hget (fold (\<lambda>k acc. hput k (hdefault [] (hget acc k) @ f k) acc) ks acc) j =
      (if j \<in> set ks then Some (hdefault [] (hget acc j) @ f j) else hget acc j)"
    "hwf acc \<Longrightarrow> hwf (fold (\<lambda>k acc. hput k (hdefault [] (hget acc k) @ f k) acc) ks acc)"
  using assms by (induction ks arbitrary: acc) auto

lemma hget_map_merge: "hget (map (\<lambda>(k, ivs). (k, merge_half_open_intervals ivs)) m) k = map_option merge_half_open_intervals (hget m k)"
  using hget_map_val [of "\<lambda>_. merge_half_open_intervals" m k] by simp

theorem parse_format_map:
  assumes U: "uuid_ok U" and m: "gtid_map_ok m"
  shows "\<exists>m'. parse_gtid_executed_interval_map U (format_gtid_executed_interval_map U m) = Inr m' \<and> hget m' = hget m \<and> hwf m'"
proof (cases "m = []")
  case True
  have "trim [] = []" by (rule trim_graphic) simp
  then show ?thesis using True
    by (simp add: parse_gtid_executed_interval_map_def format_gtid_executed_interval_map_def split_on_none)
next
  case False
  let ?ks = "sort (map fst m)" and ?f = "\<lambda>k. the (hget m k)"
  let ?m = "fold (\<lambda>k acc. hput k (hdefault [] (hget acc k) @ ?f k) acc) ?ks []"
  have d: "distinct ?ks" using m by (simp add: gtid_map_ok_def hwf_def)
  have "split_on CHR '','' (join_with '','' (map (block_of U m) ?ks)) = map (block_of U m) ?ks"
  proof (rule split_on_join)
    show "map (block_of U m) ?ks \<noteq> []" using False by simp (metis length_0_conv length_map length_sort)
    show "\<forall>p\<in>set (map (block_of U m) ?ks). CHR '','' \<notin> set p"
    proof
      fix p assume "p \<in> set (map (block_of U m) ?ks)"
      then obtain k where k: "k \<in> fst ` set m" "p = block_of U m k" by auto
      obtain ivs where i: "hget m k = Some ivs" "ivs \<noteq> []" "list_all (\<lambda>iv. 0 < fst iv \<and> fst iv < snd iv) ivs"
        using gtid_map_at [OF m k(1)] by blast
      from parse_block(2) [OF U i(2,3), of k] i(1) show "CHR '','' \<notin> set p" by (auto simp: k(2) block_of_def list_all_iff)
    qed
  qed
  then have "parse_gtid_executed_interval_map U (format_gtid_executed_interval_map U m) =
      Inr (map (\<lambda>(k, ivs). (k, merge_half_open_intervals ivs)) ?m)"
    using parse_fragments [OF U m, of ?ks "[]"] by (simp add: parse_gtid_executed_interval_map_def format_blocks [OF m])
  moreover have "hget (map (\<lambda>(k, ivs). (k, merge_half_open_intervals ivs)) ?m) k = hget m k" for k
  proof (cases "k \<in> fst ` set m")
    case True
    obtain ivs where "hget m k = Some ivs" "separated ivs" using gtid_map_at [OF m True] by blast
    with True show ?thesis by (simp add: hget_map_merge fold_blocks(1) [OF d] merge_same)
  next
    case False
    then have "hget m k = None" by (simp add: hget_None_iff)
    with False show ?thesis by (auto simp: hget_map_merge fold_blocks(1) [OF d])
  qed
  moreover have "hwf (map (\<lambda>(k, ivs). (k, merge_half_open_intervals ivs)) ?m)"
    using fold_blocks(2) [OF d, of "[]"] hwf_map_val [of "\<lambda>_. merge_half_open_intervals" ?m] by simp
  ultimately show ?thesis by blast
qed

text \<open>What parsing returns is such a map.\<close>

lemma parse_interval_ok: "parse_gtid_interval seg = Inr iv \<Longrightarrow> 0 < fst iv \<and> fst iv < snd iv"
  by (auto simp: parse_gtid_interval_def rbind_Inr_iff split: if_splits)

lemma parse_intervals_ok: "parse_gtid_intervals segs = Inr ivs \<Longrightarrow> list_all (\<lambda>iv. 0 < fst iv \<and> fst iv < snd iv) ivs"
  by (induction segs arbitrary: ivs) (auto simp: rbind_Inr_iff Let_def parse_interval_ok split: if_splits dest: parse_interval_ok)

lemma parse_block_ok: "parse_gtid_sid_block U p = Inr (k, ivs) \<Longrightarrow> ivs \<noteq> [] \<and> list_all (\<lambda>iv. 0 < fst iv \<and> fst iv < snd iv) ivs"
  by (auto simp: parse_gtid_sid_block_def rbind_Inr_iff split: option.splits if_splits dest: parse_intervals_ok)

definition fragments_ok :: "interval_map \<Rightarrow> bool" where
  "fragments_ok m \<longleftrightarrow> hwf m \<and> (\<forall>k ivs. hget m k = Some ivs \<longrightarrow> ivs \<noteq> [] \<and> list_all (\<lambda>iv. 0 < fst iv \<and> fst iv < snd iv) ivs)"

lemma fragments_ok_put:
  "fragments_ok m \<Longrightarrow> ivs \<noteq> [] \<Longrightarrow> list_all (\<lambda>iv. 0 < fst iv \<and> fst iv < snd iv) ivs \<Longrightarrow>
   fragments_ok (hput k (hdefault [] (hget m k) @ ivs) m)"
  by (cases "hget m k") (auto simp: fragments_ok_def)

lemma parse_fragments_ok: "gtid_fragments U parts m = Inr m' \<Longrightarrow> fragments_ok m \<Longrightarrow> fragments_ok m'"
proof (induction parts arbitrary: m)
  case (Cons part parts)
  show ?case
  proof (cases "trim part = []")
    case False
    with Cons.prems obtain k ivs where b: "parse_gtid_sid_block U (trim part) = Inr (k, ivs)"
      and r: "gtid_fragments U parts (hput k (hdefault [] (hget m k) @ ivs) m) = Inr m'" by (auto simp: rbind_Inr_iff)
    from Cons.IH [OF r fragments_ok_put [OF Cons.prems(2)]] parse_block_ok [OF b] show ?thesis by blast
  qed (use Cons in simp)
qed simp

lemma positive_merge: "list_all (\<lambda>iv. 0 < fst iv) ivs \<Longrightarrow> list_all (\<lambda>iv. 0 < fst iv) (merge_half_open_intervals ivs)"
proof (cases "sort_key fst ivs")
  case (Cons cur rest)
  assume "list_all (\<lambda>iv. 0 < fst iv) ivs"
  then have "list_all (\<lambda>iv. 0 < fst iv) (sort_key fst ivs)" by (simp add: list_all_iff)
  with Cons merge_loop_starts [of 0 rest cur] show ?thesis by (simp add: merge_half_open_intervals_def)
qed (simp add: merge_half_open_intervals_def)

lemma gtid_map_okI:
  assumes "hwf m" "\<And>k ivs. hget m k = Some ivs \<Longrightarrow> ivs \<noteq> [] \<and> separated ivs \<and> list_all (\<lambda>iv. 0 < fst iv) ivs"
  shows "gtid_map_ok m"
  using assms by (auto simp: gtid_map_ok_def list_all_iff hget_Some_iff)

lemma parsed_map_ok:
  assumes "parse_gtid_executed_interval_map U s = Inr m"
  shows "gtid_map_ok m"
proof -
  from assms obtain m0 where p: "gtid_fragments U (split_on CHR '','' s) [] = Inr m0"
    and m: "m = map (\<lambda>(k, ivs). (k, merge_half_open_intervals ivs)) m0"
    by (auto simp: parse_gtid_executed_interval_map_def rbind_Inr_iff)
  have f: "fragments_ok m0" by (rule parse_fragments_ok [OF p]) (simp add: fragments_ok_def)
  show ?thesis
  proof (rule gtid_map_okI)
    show "hwf m" unfolding m using f hwf_map_val [of "\<lambda>_. merge_half_open_intervals" m0] by (simp add: fragments_ok_def)
    fix k ivs assume "hget m k = Some ivs"
    then obtain jvs where "hget m0 k = Some jvs" and i: "ivs = merge_half_open_intervals jvs"
      unfolding m hget_map_merge by auto
    then have j: "jvs \<noteq> []" "list_all (\<lambda>iv. 0 < fst iv \<and> fst iv < snd iv) jvs" using f by (auto simp: fragments_ok_def)
    then have "list_all (\<lambda>iv. fst iv < snd iv) jvs" "list_all (\<lambda>iv. 0 < fst iv) jvs" by (simp_all add: list_all_iff)
    with j(1) show "ivs \<noteq> [] \<and> separated ivs \<and> list_all (\<lambda>iv. 0 < fst iv) ivs"
      by (simp add: i merge_Nil_iff separated_merge positive_merge)
  qed
qed

section \<open>Adding a transaction\<close>

lemma format_trim:
  assumes U: "uuid_ok U" and m: "gtid_map_ok m"
  shows "trim (format_gtid_executed_interval_map U m) = format_gtid_executed_interval_map U m"
proof (rule trim_graphic)
  have "list_all graphic (block_of U m k)" if k: "k \<in> fst ` set m" for k
  proof -
    obtain ivs where i: "hget m k = Some ivs" "ivs \<noteq> []" "list_all (\<lambda>iv. 0 < fst iv \<and> fst iv < snd iv) ivs"
      using gtid_map_at [OF m k] by blast
    from parse_block(2) [OF U i(2,3), of k] i(1) show ?thesis by (simp add: block_of_def list_all_iff)
  qed
  moreover have "graphic CHR '',''" by (simp add: graphic_def bval_def)
  ultimately show "list_all graphic (format_gtid_executed_interval_map U m)"
    unfolding format_blocks [OF m] list_all_iff using join_chars [of "CHR '',''" "map (block_of U m) (sort (map fst m))"]
    by (fastforce simp: list_all_iff)
qed

lemma single_interval:
  fixes g :: u64
  assumes "g \<noteq> - 1"
  shows "g < sat_add g 1" "{g..<sat_add g 1} = {g}"
proof -
  have "unat g \<noteq> 2 ^ 64 - 1"
  proof
    assume "unat g = 2 ^ 64 - 1"
    then have "(of_nat (unat g) :: u64) = of_nat (2 ^ 64 - 1)" by (rule arg_cong)
    with assms show False by simp
  qed
  moreover have "unat g < 2 ^ 64" using unsigned_less [of g, where ?'a = nat] by simp
  ultimately have u: "unat (g + 1) = unat g + 1" by (simp add: unat_word_ariths)
  then have s: "sat_add g 1 = g + 1" "g < g + 1" by (simp_all add: sat_add_def word_less_nat_alt)
  show "g < sat_add g 1" using s by simp
  show "{g..<sat_add g 1} = {g}"
    unfolding s(1) using u by (auto simp: word_less_nat_alt word_le_nat_alt word_unat_eq_iff)
qed

lemma increment_one:
  assumes U: "uuid_ok U" and p: "parse_gtid_executed_interval_map U (trim existing) = Inr m" and g: "gno \<noteq> - 1"
  shows "\<exists>m'. parse_gtid_executed_interval_map U (trim (merge_gtid_executed_increment U existing sid gno)) = Inr m' \<and>
    (\<forall>k. gnos_of m' k = gnos_of m k \<union> (if k = sid \<and> gno \<noteq> 0 then {gno} else {}))"
proof (cases "gno = 0")
  case True
  with p show ?thesis by (simp add: merge_gtid_executed_increment_def)
next
  case False
  let ?ivs = "hdefault [] (hget m sid) @ [(gno, sat_add gno 1)]"
  let ?m = "hput sid (merge_half_open_intervals ?ivs) m"
  have m: "gtid_map_ok m" by (rule parsed_map_ok [OF p])
  then have old: "list_all (\<lambda>iv. 0 < fst iv) ivs \<and> list_all (\<lambda>iv. fst iv < snd iv) ivs \<and> ivs \<noteq> [] \<and> separated ivs"
    if "hget m k = Some ivs" for k ivs
    using that by (auto simp: gtid_map_ok_def hget_Some_iff separated_def list_all_iff)
  have new: "list_all (\<lambda>iv. 0 < fst iv) ?ivs" "list_all (\<lambda>iv. fst iv < snd iv) ?ivs"
    using old [of sid] False single_interval(1) [OF g] by (auto simp: hdefault_def word_neq_0_conv split: option.split)
  have ok: "gtid_map_ok ?m"
  proof (rule gtid_map_okI)
    show "hwf ?m" using m by (simp add: gtid_map_ok_def)
    fix k ivs assume "hget ?m k = Some ivs"
    then show "ivs \<noteq> [] \<and> separated ivs \<and> list_all (\<lambda>iv. 0 < fst iv) ivs"
      using old [of k ivs] separated_merge [OF new(2)] positive_merge [OF new(1)] by (auto simp: merge_Nil_iff split: if_splits)
  qed
  have inc: "merge_gtid_executed_increment U existing sid gno = format_gtid_executed_interval_map U ?m"
    using False p by (simp add: merge_gtid_executed_increment_def)
  obtain m' where m': "parse_gtid_executed_interval_map U (format_gtid_executed_interval_map U ?m) = Inr m'" "hget m' = hget ?m"
    using parse_format_map [OF U ok] by blast
  have "gnos_of m' k = gnos_of m k \<union> (if k = sid \<and> gno \<noteq> 0 then {gno} else {})" for k
    using False by (simp add: gnos_of_def m'(2) gnos_merge single_interval(2) [OF g])
  with m'(1) show ?thesis unfolding inc format_trim [OF U ok] by blast
qed

text \<open>Identifiers in decimal, and the empty set.\<close>

definition plain_uuid :: uuid_crate where
  "plain_uuid = \<lparr>uuid_parse = (\<lambda>s. map_option of_nat (parse_unsigned 128 s)), uuid_show = (\<lambda>k. show_nat (unat k)),
     sid_valid = (\<lambda>s. True)\<rparr>"

lemma plain_uuid_ok: "uuid_ok plain_uuid"
proof -
  have "unat k < 2 ^ 128" for k :: u128 using unsigned_less [of k, where ?'a = nat] by simp
  then have "parse_unsigned 128 (show_nat (unat k)) = Some (unat k)" for k :: u128 by (rule parse_show_nat)
  then show ?thesis
    using show_nat_digits digit_graphic by (fastforce simp: uuid_ok_def plain_uuid_def list_all_iff)
qed

lemma parse_empty_set: "parse_gtid_executed_interval_map U (trim []) = Inr []"
proof -
  have "trim [] = []" by (rule trim_graphic) simp
  then show ?thesis by (simp add: parse_gtid_executed_interval_map_def split_on_none)
qed

text \<open>C20: The stored set of executed transactions is exactly the set of those seen. Whatever sequence of transactions is
  merged into a set that parses, the text stored in the end parses again, and holds for every source server the
  numbers of the set at the start and those merged since (number 0 is ignored), as sorted intervals of which no two touch.\<close>

theorem gtid_set_exact:
  assumes "uuid_ok U" "parse_gtid_executed_interval_map U (trim existing) = Inr m" "- 1 \<notin> snd ` set gs"
  shows "\<exists>m'. parse_gtid_executed_interval_map U (trim (fold (\<lambda>(sid, gno) s. merge_gtid_executed_increment U s sid gno) gs existing)) = Inr m' \<and>
    (\<forall>k. gnos_of m' k = gnos_of m k \<union> {gno. (k, gno) \<in> set gs \<and> gno \<noteq> 0}) \<and>
    (\<forall>k ivs. hget m' k = Some ivs \<longrightarrow> separated ivs)"
  using assms(2,3)
proof (induction gs arbitrary: existing m)
  case Nil
  then show ?case using parsed_map_ok [OF Nil(1)] by (auto simp: gtid_map_ok_def hget_Some_iff list_all_iff)
next
  case (Cons x gs)
  obtain sid gno where x: "x = (sid, gno)" by (cases x)
  have g: "gno \<noteq> - 1" using Cons.prems(2) by (auto simp: x)
  obtain m1 where m1: "parse_gtid_executed_interval_map U (trim (merge_gtid_executed_increment U existing sid gno)) = Inr m1"
    and n: "\<And>k. gnos_of m1 k = gnos_of m k \<union> (if k = sid \<and> gno \<noteq> 0 then {gno} else {})"
    using increment_one [OF assms(1) Cons.prems(1) g] by blast
  have "- 1 \<notin> snd ` set gs" using Cons.prems(2) by auto
  from Cons.IH [OF m1 this] n show ?case by (simp add: x) (fastforce split: if_splits)
qed

theorem gtid_set_exact_witness:
  "\<exists>m'. parse_gtid_executed_interval_map plain_uuid
      (trim (fold (\<lambda>(sid, gno) s. merge_gtid_executed_increment plain_uuid s sid gno) [(7, 1), (7, 2), (9, 5), (7, 4)] [])) = Inr m' \<and>
    gnos_of m' 7 = {1, 2, 4} \<and> gnos_of m' 9 = {5}"
proof -
  have "- 1 \<notin> snd ` set [(7 :: u128, 1 :: u64), (7, 2), (9, 5), (7, 4)]" by simp
  from gtid_set_exact [OF plain_uuid_ok parse_empty_set this] show ?thesis by (force simp: gnos_of_def)
qed

text \<open>A set that does not parse (a tagged identifier of MySQL 8.3, for one) is replaced by the one transaction merged.\<close>

theorem gtid_set_forgotten:
  assumes "parse_gtid_executed_interval_map U (trim existing) = Inl e" "gno \<noteq> 0"
  shows "merge_gtid_executed_increment U existing sid gno = uuid_show U sid @ CHR '':'' # show_u64 gno"
  using assms by (simp add: merge_gtid_executed_increment_def format_gtid_executed_interval_map_def show_block_def
      merge_half_open_intervals_def show_interval_def hput_def hget_def List.map_filter_def)

end
