(* ===== verification/Cdc_Scope.thy ===== *)
theory Cdc_Scope
  imports Table_Manager Cdc_Gtid
begin

text \<open>
  Change data capture (\<^verbatim>\<open>src/core/cdc/mod.rs\<close>), first part: the state of a worker and its checkpoint, the tables that
  are in its scope, the names of tables and columns, the quoting of SQL, the reading of column types, and
  the environment of \<^verbatim>\<open>cdc_durability.rs\<close>. \<open>vars\<close> is the process environment (\<^verbatim>\<open>std::env::var\<close>); a profile's
  \<^verbatim>\<open>cdc_config.json\<close> is the \<^verbatim>\<open>serde_json\<close> value it parses to, or \<open>None\<close>.
\<close>

section \<open>The state\<close>

record cdc_state =
  cs_binlog_file :: string
  cs_binlog_pos :: u32
  cs_bootstrapped_tables :: "string list"
  cs_pk_map :: "(string, string) hmap"
  cs_gtid_executed :: string
  cs_mvcc_snapshot_catchup_pending :: bool
  cs_observed_binlog_format_global :: "string option"
  cs_observed_binlog_format_session :: "string option"
  cs_last_mirror_batch_unix_ms :: "u64 option"
  cs_last_mirror_batch :: "string option"

text \<open>A table map event: the table identifier of the row events, with its schema and name.\<close>

record table_map =
  tm_table_id :: u64
  tm_schema :: string
  tm_table :: string

text \<open>The mirror flush times are in seconds on the clock of the process.\<close>

record worker =
  wk_entity :: string
  wk_database :: string
  wk_sync_all :: bool
  wk_column_maps :: "(string, string list) hmap"
  wk_date_columns :: "(string, string set) hmap"
  wk_enum_maps :: "(string, (string, string list) hmap) hmap"
  wk_table_map_events :: "(u64, table_map) hmap"
  wk_flush_ticks :: "(string, u32) hmap"
  wk_flush_last :: "(string, nat) hmap"
  wk_table_allowlist :: "string set option"
  wk_schema_allowlist :: "string set option"
  wk_table_allowlist_source :: "string option"

definition empty_cdc_state :: cdc_state where
  "empty_cdc_state =
     \<lparr>cs_binlog_file = [], cs_binlog_pos = 4, cs_bootstrapped_tables = [], cs_pk_map = [], cs_gtid_executed = [],
      cs_mvcc_snapshot_catchup_pending = False, cs_observed_binlog_format_global = None,
      cs_observed_binlog_format_session = None, cs_last_mirror_batch_unix_ms = None, cs_last_mirror_batch = None\<rparr>"

text \<open>\<open>dec\<close> is \<^verbatim>\<open>serde_json::from_reader\<close>.\<close>

definition load_state :: "(bytes \<Rightarrow> cdc_state option) \<Rightarrow> bytes option \<Rightarrow> cdc_state" where
  "load_state dec state_file =
     (case state_file of
        Some content \<Rightarrow> (case dec content of Some s \<Rightarrow> s | None \<Rightarrow> empty_cdc_state)
      | None \<Rightarrow> empty_cdc_state)"

section \<open>The environment\<close>

type_synonym vars = "string \<Rightarrow> string option"

definition env_truthy :: "vars \<Rightarrow> string \<Rightarrow> bool" where
  "env_truthy vars var_name =
     (case vars var_name of
        Some v \<Rightarrow> map ascii_lower (trim v) \<in> {''1'', ''true'', ''yes'', ''on''}
      | None \<Rightarrow> False)"

definition cdc_update_hydrate_enabled :: "vars \<Rightarrow> bool" where
  "cdc_update_hydrate_enabled vars \<longleftrightarrow> \<not> env_truthy vars ''BITTICE_CDC_SKIP_UPDATE_HYDRATE''"

definition cdc_mirror_resync_on_binlog_gap_enabled :: "vars \<Rightarrow> bool" where
  "cdc_mirror_resync_on_binlog_gap_enabled vars \<longleftrightarrow> \<not> env_truthy vars ''BITTICE_CDC_SKIP_MIRROR_RESYNC_ON_GAP''"

datatype cdc_durability = Strict | Balanced | Throughput

definition parse_durability_env :: "vars \<Rightarrow> cdc_durability" where
  "parse_durability_env vars =
     (case vars ''BITTICE_CDC_DURABILITY'' of
        Some s \<Rightarrow>
          let s = map ascii_lower (trim s) in
          if s = ''strict'' then Strict
          else if s = ''throughput'' \<or> s = ''fast'' then Throughput
          else Balanced
      | None \<Rightarrow> Balanced)"

text \<open>The profile is resolved once per process; the other variables are read on every call.\<close>

definition mirror_flush_every_n_batches :: "vars \<Rightarrow> cdc_durability \<Rightarrow> nat" where
  "mirror_flush_every_n_batches vars d =
     (case Option.bind (vars ''BITTICE_CDC_MIRROR_FLUSH_EVERY_N'') (\<lambda>s. parse_unsigned 32 (trim s)) of
        Some n \<Rightarrow> if 0 < n then n else (case d of Strict \<Rightarrow> 1 | Balanced \<Rightarrow> 32 | Throughput \<Rightarrow> 128)
      | None \<Rightarrow> (case d of Strict \<Rightarrow> 1 | Balanced \<Rightarrow> 32 | Throughput \<Rightarrow> 128))"

definition wal_sync_each_append :: "vars \<Rightarrow> cdc_durability \<Rightarrow> bool" where
  "wal_sync_each_append vars d =
     (if env_truthy vars ''BITTICE_CDC_WAL_FSYNC_EACH_OP'' then True else d = Strict)"

section \<open>Checkpoints\<close>

definition is_stale_saved_binlog_error :: "ext \<Rightarrow> string \<Rightarrow> bool" where
  "is_stale_saved_binlog_error x msg =
     (let m = to_lowercase x msg in
      contains_str m ''(1236)'' \<or> contains_str m '' 1236:'' \<or> contains_str m ''error 1236'' \<or>
      contains_str m ''could not open log file'' \<or> contains_str m ''could not find first log file'')"

definition apply_binlog_file_pos :: "u32 \<Rightarrow> cdc_state \<Rightarrow> cdc_state" where
  "apply_binlog_file_pos next_pos state = (if 0 < next_pos then state\<lparr>cs_binlog_pos := next_pos\<rparr> else state)"

text \<open>File names are compared as texts.\<close>

definition cdc_replication_caught_up_to_tip :: "cdc_state \<Rightarrow> string \<Rightarrow> u32 \<Rightarrow> bool" where
  "cdc_replication_caught_up_to_tip state tip_file tip_pos =
     (if cs_binlog_file state = [] \<or> tip_file = [] then False
      else case cmp_ord (cs_binlog_file state) tip_file of
        Less \<Rightarrow> False
      | Greater \<Rightarrow> True
      | Equal \<Rightarrow> tip_pos \<le> cs_binlog_pos state)"

text \<open>The first \<open>n\<close> characters of a text.\<close>

fun take_chars :: "nat \<Rightarrow> string \<Rightarrow> string" where
  "take_chars 0 s = []"
| "take_chars (Suc n) s = (if s = [] then [] else take (snd (utf8_head s)) s @ take_chars n (drop (snd (utf8_head s)) s))"

definition query_is_structural_ddl :: "ext \<Rightarrow> string \<Rightarrow> bool" where
  "query_is_structural_ddl x query =
     (let trimmed = trim_start query;
          after_comment =
            (case strip_prefix ''/*'' trimmed of
               Some rest \<Rightarrow> (case find_str ''*/'' rest of Some (_, after) \<Rightarrow> trim_start after | None \<Rightarrow> trimmed)
             | None \<Rightarrow> trimmed);
          head = to_uppercase x (take_chars 24 after_comment) in
      starts_with head ''ALTER TABLE'' \<or> starts_with head ''DROP TABLE'' \<or> starts_with head ''CREATE TABLE'' \<or>
      starts_with head ''RENAME TABLE'' \<or> starts_with head ''TRUNCATE TABLE'' \<or> starts_with head ''TRUNCATE '')"

section \<open>The profile\<close>

definition trimmed_names :: "json list \<Rightarrow> string list" where
  "trimmed_names arr = filter (\<lambda>s. s \<noteq> []) (List.map_filter (\<lambda>v. map_option trim (as_str v)) arr)"

definition load_config_table_names :: "json option \<Rightarrow> string list option" where
  "load_config_table_names config =
     Option.bind config (\<lambda>json.
     Option.bind (json_get json ''tables'') (\<lambda>v.
     Option.bind (as_array v) (\<lambda>arr.
       let names = trimmed_names arr in if names = [] then None else Some names)))"

definition load_config_scoped_sync :: "json option \<Rightarrow> (string, string list) hmap option" where
  "load_config_scoped_sync config =
     Option.bind config (\<lambda>json.
     Option.bind (json_get json ''scoped_sync'') (\<lambda>v.
     Option.bind (as_object v) (\<lambda>obj.
       let out = fold (\<lambda>(schema, tables_val) out.
             let schema = trim schema in
             if schema = [] then out
             else case as_array tables_val of
                 None \<Rightarrow> out
               | Some arr \<Rightarrow> let tables = trimmed_names arr in if tables = [] then out else hput schema tables out) obj []
       in if out = [] then None else Some out)))"

section \<open>The tables in scope\<close>

definition dotted :: "string \<Rightarrow> string \<Rightarrow> string" where
  "dotted a b = a @ ''.'' @ b"

text \<open>\<open>ops\<close> is what \<^verbatim>\<open>saved_queries::load_operations\<close> returns.\<close>

definition build_ops_table_allowlist :: "ext \<Rightarrow> vars \<Rightarrow> saved_operation list option \<Rightarrow> string set option" where
  "build_ops_table_allowlist x vars ops =
     (if \<not> env_truthy vars ''BITTICE_CDC_SYNC_ONLY_OPS'' then None
      else case ops of
          None \<Rightarrow> None
        | Some ops \<Rightarrow>
            let raw_keys = collect_ops_query_table_keys ops in
            if raw_keys = {} then None
            else Some ((\<lambda>k. to_lowercase x (map (\<lambda>c. if c = CHR ''/'' then CHR ''.'' else c) k)) ` raw_keys))"

definition scoped_allowlists :: "ext \<Rightarrow> (string, string list) hmap \<Rightarrow> string set \<times> string set" where
  "scoped_allowlists x scoped =
     (\<Union>(schema, ts)\<in>set scoped. (\<lambda>t. dotted (to_lowercase x schema) (to_lowercase x t)) ` set ts,
      (\<lambda>(schema, _). to_lowercase x schema) ` set scoped)"

definition names_allowlist :: "ext \<Rightarrow> string \<Rightarrow> string \<Rightarrow> string list \<Rightarrow> string set" where
  "names_allowlist x entity database names =
     (let schema = to_lowercase x database; entity_key = to_lowercase x entity in
      \<Union>t\<in>set names. case split_once CHR ''.'' t of
          Some (s, tbl) \<Rightarrow> {dotted (to_lowercase x s) (to_lowercase x tbl)}
        | None \<Rightarrow> {dotted schema (to_lowercase x t)} \<union> (if entity_key \<noteq> schema then {dotted entity_key (to_lowercase x t)} else {}))"

definition build_sync_allowlists_raw ::
  "ext \<Rightarrow> vars \<Rightarrow> json option \<Rightarrow> saved_operation list option \<Rightarrow> string \<Rightarrow> string \<Rightarrow> string set option \<times> string set option \<times> string option" where
  "build_sync_allowlists_raw x vars config ops entity database =
     (let by_ops = (let ops = build_ops_table_allowlist x vars ops in
            (ops, None, if ops \<noteq> None then Some ''BITTICE_CDC_SYNC_ONLY_OPS'' else None));
          by_names = (case load_config_table_names config of
              Some names \<Rightarrow> if names \<noteq> [] then (Some (names_allowlist x entity database names), None, Some ''profile config'') else by_ops
            | None \<Rightarrow> by_ops) in
      case load_config_scoped_sync config of
        Some scoped \<Rightarrow>
          if scoped \<noteq> [] then
            (let (tables, schemas) = scoped_allowlists x scoped in
             (Some tables, Some schemas, Some ''profile config (scoped_sync)''))
          else by_names
      | None \<Rightarrow> by_names)"

definition intersect_table_allowlists :: "string set \<Rightarrow> string set \<Rightarrow> string set" where
  "intersect_table_allowlists profile ops = (let inter = profile \<inter> ops in if inter = {} then ops else inter)"

definition apply_ops_sync_table_filter ::
  "ext \<Rightarrow> vars \<Rightarrow> saved_operation list option \<Rightarrow> string set option \<times> string set option \<times> string option \<Rightarrow>
   string set option \<times> string set option \<times> string option" where
  "apply_ops_sync_table_filter x vars ops als =
     (case als of (table_allowlist, schema_allowlist, source) \<Rightarrow>
        if \<not> env_truthy vars ''BITTICE_CDC_SYNC_ONLY_OPS'' then (table_allowlist, schema_allowlist, source)
        else case build_ops_table_allowlist x vars ops of
            None \<Rightarrow> (table_allowlist, schema_allowlist, source)
          | Some ops \<Rightarrow>
              let filtered = (case table_allowlist of
                  Some profile \<Rightarrow> intersect_table_allowlists profile ops | None \<Rightarrow> ops) in
              (Some filtered, schema_allowlist, Some ''BITTICE_CDC_SYNC_ONLY_OPS''))"

definition build_sync_allowlists ::
  "ext \<Rightarrow> vars \<Rightarrow> json option \<Rightarrow> saved_operation list option \<Rightarrow> string \<Rightarrow> string \<Rightarrow> string set option \<times> string set option \<times> string option" where
  "build_sync_allowlists x vars config ops entity database =
     apply_ops_sync_table_filter x vars ops (build_sync_allowlists_raw x vars config ops entity database)"

definition allowlist_log_label :: "worker \<Rightarrow> string" where
  "allowlist_log_label w = hdefault ''table allowlist'' (wk_table_allowlist_source w)"

definition has_table_allowlist :: "worker \<Rightarrow> bool" where
  "has_table_allowlist w \<longleftrightarrow> wk_table_allowlist w \<noteq> None"

definition is_table_in_scope_filter :: "ext \<Rightarrow> worker \<Rightarrow> string \<Rightarrow> string \<Rightarrow> bool" where
  "is_table_in_scope_filter x w schema tbl =
     (case wk_table_allowlist w of
        None \<Rightarrow> True
      | Some allowed \<Rightarrow> dotted (to_lowercase x schema) (to_lowercase x tbl) \<in> allowed)"

definition is_system_schema :: "ext \<Rightarrow> string \<Rightarrow> bool" where
  "is_system_schema x name \<longleftrightarrow> to_lowercase x name \<in>
     {''information_schema'', ''mysql'', ''performance_schema'', ''sys'', ''ndbinfo'', ''mysql_innodb_cluster_metadata''}"

definition is_out_of_scope_binlog_schema :: "ext \<Rightarrow> worker \<Rightarrow> string \<Rightarrow> bool" where
  "is_out_of_scope_binlog_schema x w schema =
     (if \<not> wk_sync_all w then \<not> eq_ignore_ascii_case schema (wk_database w)
      else case wk_schema_allowlist w of
          Some allowed \<Rightarrow> to_lowercase x schema \<notin> allowed
        | None \<Rightarrow> False)"

text \<open>The tables of a schema that the snapshot copies; with a single database the profile's own name counts as its
  schema as well.\<close>

definition tables_to_copy :: "ext \<Rightarrow> worker \<Rightarrow> string \<Rightarrow> string list \<Rightarrow> string list" where
  "tables_to_copy x w schema ts =
     (if wk_table_allowlist w = None then ts
      else if wk_sync_all w then filter (is_table_in_scope_filter x w schema) ts
      else filter (\<lambda>t. is_table_in_scope_filter x w (wk_database w) t \<or> is_table_in_scope_filter x w (wk_entity w) t) ts)"

section \<open>Names\<close>

definition replace_char :: "char \<Rightarrow> string \<Rightarrow> string \<Rightarrow> string" where
  "replace_char c r s = concat (map (\<lambda>d. if d = c then r else [d]) s)"

definition mysql_ident :: "string \<Rightarrow> string" where
  "mysql_ident ident = ''`'' @ replace_char CHR ''`'' ''``'' ident @ ''`''"

definition mysql_string_literal :: "string \<Rightarrow> string" where
  "mysql_string_literal s =
     [CHR 0x27] @ replace_char CHR 0x27 [CHR 0x27, CHR 0x27] (replace_char CHR 0x5C [CHR 0x5C, CHR 0x5C] s) @ [CHR 0x27]"

definition qualified_schema_table :: "string \<Rightarrow> string \<Rightarrow> string" where
  "qualified_schema_table schema tbl = mysql_ident schema @ ''.'' @ mysql_ident tbl"

definition row_query :: "string \<Rightarrow> string \<Rightarrow> string \<Rightarrow> string \<Rightarrow> string" where
  "row_query schema tbl pk_field pk_val =
     ''SELECT * FROM '' @ qualified_schema_table schema tbl @ '' WHERE '' @ mysql_ident pk_field @
     '' = '' @ mysql_string_literal (trim pk_val) @ '' LIMIT 1''"

definition qualified_table_key :: "ext \<Rightarrow> bool \<Rightarrow> string \<Rightarrow> string \<Rightarrow> string" where
  "qualified_table_key x sync_all schema tbl = (if sync_all then dotted (to_lowercase x schema) tbl else tbl)"

text \<open>The keys of the map are tried in the order of the hash map.\<close>

definition resolve_cdc_table_keys :: "ext \<Rightarrow> bool \<Rightarrow> string \<Rightarrow> string \<Rightarrow> (string, 'v) hmap \<Rightarrow> string option" where
  "resolve_cdc_table_keys x sync_all schema binlog_table maps =
     (let bt_lower = to_lowercase x binlog_table; keys = map fst maps in
      if sync_all then
        let schema_l = to_lowercase x schema; cand_a = dotted schema_l binlog_table; cand_b = dotted schema_l bt_lower in
        if cand_a \<in> set keys then Some cand_a
        else if cand_b \<in> set keys then Some cand_b
        else find (\<lambda>key. case split_once CHR ''.'' key of
              None \<Rightarrow> False
            | Some (s, t) \<Rightarrow> to_lowercase x s = schema_l \<and> to_lowercase x t = bt_lower) keys
      else if binlog_table \<in> set keys then Some binlog_table
      else if bt_lower \<in> set keys then Some bt_lower
      else find (\<lambda>key. to_lowercase x key = bt_lower) keys)"

text \<open>\<open>dirs\<close> are the directories under \<^verbatim>\<open>data/mirror/<entity>/\<close>, in the order they are listed.\<close>

definition resolve_mirror_table_dir :: "ext \<Rightarrow> string list \<Rightarrow> string \<Rightarrow> string" where
  "resolve_mirror_table_dir x dirs binlog_table =
     (if binlog_table \<in> set dirs then binlog_table
      else case find (\<lambda>name. to_lowercase x name = to_lowercase x binlog_table) dirs of
          Some name \<Rightarrow> name
        | None \<Rightarrow> binlog_table)"

definition disk_entity :: "ext \<Rightarrow> worker \<Rightarrow> string \<Rightarrow> string" where
  "disk_entity x w schema = (if wk_sync_all w then to_lowercase x schema else wk_entity w)"

text \<open>The schema and table of a key; \<open>None\<close> for a malformed key.\<close>

definition split_qkey :: "worker \<Rightarrow> string \<Rightarrow> (string \<times> string) option" where
  "split_qkey w qkey = (if wk_sync_all w then split_once CHR ''.'' qkey else Some (wk_database w, qkey))"

definition pk_columns_from_state :: "(string, string) hmap \<Rightarrow> string \<Rightarrow> string list" where
  "pk_columns_from_state pk_map qkey =
     (case hget pk_map qkey of
        Some s \<Rightarrow> filter (\<lambda>c. c \<noteq> []) (map trim (split_on CHR '','' s))
      | None \<Rightarrow> [''PK''])"

section \<open>Columns\<close>

definition parse_enum_column_type :: "ext \<Rightarrow> string \<Rightarrow> string list option" where
  "parse_enum_column_type x col_type =
     (if \<not> starts_with (to_lowercase x col_type) ''enum('' then None
      else
        let values_str = rev (dropWhile (\<lambda>c. c = CHR '')'') (rev (dropWhile (\<lambda>c. c = CHR ''('')
              (dropWhile (\<lambda>c. c \<noteq> CHR ''('') col_type)))) in
        Some (map (\<lambda>v. rev (dropWhile (\<lambda>c. c = CHR 0x27) (rev (dropWhile (\<lambda>c. c = CHR 0x27) v))))
          (split_on CHR '','' values_str)))"

record column_info =
  ci_columns :: "string list"
  ci_dates :: "string set"
  ci_enums :: "(string, string list) hmap"

definition no_columns :: column_info where
  "no_columns = \<lparr>ci_columns = [], ci_dates = {}, ci_enums = []\<rparr>"

definition add_column :: "ext \<Rightarrow> bool \<Rightarrow> string \<Rightarrow> string \<Rightarrow> column_info \<Rightarrow> column_info" where
  "add_column x is_date col_name col_type ci =
     \<lparr>ci_columns = ci_columns ci @ [col_name],
      ci_dates = (if is_date then insert col_name (ci_dates ci) else ci_dates ci),
      ci_enums = (case parse_enum_column_type x col_type of
          Some vs \<Rightarrow> hput col_name vs (ci_enums ci) | None \<Rightarrow> ci_enums ci)\<rparr>"

text \<open>The rows \<open>(table, column, data type, column type)\<close> of \<^verbatim>\<open>information_schema.COLUMNS\<close>; \<open>None\<close> when the query fails.\<close>

definition fetch_schema_columns_bulk :: "ext \<Rightarrow> (string \<times> string \<times> string \<times> string) list option \<Rightarrow> (string, column_info) hmap" where
  "fetch_schema_columns_bulk x reply =
     (case reply of
        None \<Rightarrow> []
      | Some rows \<Rightarrow>
          fold (\<lambda>(tbl, col_name, data_type, col_type) result.
            let dt = to_lowercase x data_type;
                is_date = contains_str dt ''date'' \<or> contains_str dt ''timestamp'' \<or> contains_str dt ''time'' in
            hput tbl (add_column x is_date col_name col_type (hdefault no_columns (hget result tbl))) result) rows [])"

text \<open>The rows \<open>(column, type)\<close> of \<^verbatim>\<open>DESCRIBE\<close>. The enums are kept in the worker.\<close>

definition fetch_column_info :: "ext \<Rightarrow> string \<Rightarrow> (string \<times> string) list \<Rightarrow> worker \<Rightarrow> (string list \<times> string set) \<times> worker" where
  "fetch_column_info x qkey rows w =
     (let ci = fold (\<lambda>(col_name, col_type) ci.
            let lower = to_lowercase x col_type in
            add_column x (contains_str lower ''date'' \<or> contains_str lower ''timestamp'') col_name col_type ci) rows no_columns in
      ((ci_columns ci, ci_dates ci),
       if ci_enums ci \<noteq> [] then w\<lparr>wk_enum_maps := hput qkey (ci_enums ci) (wk_enum_maps w)\<rparr> else w))"

end
