(* ===== verification/Cdc_Names.thy ===== *)
theory Cdc_Names
  imports Cdc_Scope
begin

text \<open>
  The SQL that change data capture sends is read back by a scanner of MySQL's literals and quoted names
  (in the default \<^verbatim>\<open>sql_mode\<close>, where a backslash escapes), whatever the names and values are; and the labels of
  an \<^verbatim>\<open>ENUM\<close> are read from the text of its type.
\<close>

section \<open>A scanner of quoted names and literals\<close>

text \<open>The escapes of the manual's table of string literals: a percent or underscore keeps its backslash.\<close>

definition unescape :: "char \<Rightarrow> string" where
  "unescape c =
     (if c = CHR ''0'' then [CHR 0x00] else if c = CHR ''b'' then [CHR 0x08] else if c = CHR ''n'' then [CHR 0x0A]
      else if c = CHR ''r'' then [CHR 0x0D] else if c = CHR ''t'' then [CHR 0x09] else if c = CHR ''Z'' then [CHR 0x1A]
      else if c = CHR ''%'' \<or> c = CHR ''_'' then [CHR 0x5C, c] else [c])"

text \<open>The value of what follows an opening quote, with the text after the closing one. A quote is doubled in the value.\<close>

fun scan_quoted :: "bool \<Rightarrow> char \<Rightarrow> string \<Rightarrow> (string \<times> string) option" where
  "scan_quoted esc q [] = None"
| "scan_quoted esc q [c] = (if c = q then Some ([], []) else None)"
| "scan_quoted esc q (c # d # cs) =
     (if c = q then (if d = q then map_option (apfst ((#) q)) (scan_quoted esc q cs) else Some ([], d # cs))
      else if esc \<and> c = CHR 0x5C then map_option (apfst ((@) (unescape d))) (scan_quoted esc q cs)
      else map_option (apfst ((#) c)) (scan_quoted esc q (d # cs)))"

definition scan_name :: "string \<Rightarrow> (string \<times> string) option" where
  "scan_name s = (case s of c # cs \<Rightarrow> if c = CHR ''`'' then scan_quoted False CHR ''`'' cs else None | [] \<Rightarrow> None)"

definition scan_literal :: "string \<Rightarrow> (string \<times> string) option" where
  "scan_literal s = (case s of c # cs \<Rightarrow> if c = CHR 0x27 then scan_quoted True CHR 0x27 cs else None | [] \<Rightarrow> None)"

lemma replace_char_simps [simp]:
  "replace_char c r [] = []"
  "replace_char c r (d # s) = (if d = c then r else [d]) @ replace_char c r s"
  "replace_char c r (s @ t) = replace_char c r s @ replace_char c r t"
  by (simp_all add: replace_char_def)

lemma scan_name_back: "scan_quoted False q (replace_char q [q, q] s @ q # d # rest) = Some (s, d # rest)" if "d \<noteq> q"
proof (induction s)
  case (Cons c s)
  then show ?case by (cases "replace_char q [q, q] s @ q # d # rest") auto
qed (use that in simp)

lemma scan_literal_back:
  assumes "q \<noteq> CHR 0x5C" "d \<noteq> q" "unescape (CHR 0x5C) = [CHR 0x5C]"
  shows "scan_quoted True q (replace_char q [q, q] (replace_char (CHR 0x5C) [CHR 0x5C, CHR 0x5C] s) @ q # d # rest) = Some (s, d # rest)"
proof (induction s)
  case (Cons c s)
  then show ?case
    by (cases "replace_char q [q, q] (replace_char (CHR 0x5C) [CHR 0x5C, CHR 0x5C] s) @ q # d # rest") (use assms in auto)
qed (use assms in simp)

lemma mysql_ident_back: "scan_name (mysql_ident s @ d # rest) = Some (s, d # rest)" if "d \<noteq> CHR ''`''"
  using scan_name_back [OF that, of s rest] by (simp add: scan_name_def mysql_ident_def)

lemma mysql_string_literal_back: "scan_literal (mysql_string_literal s @ d # rest) = Some (s, d # rest)" if "d \<noteq> CHR 0x27"
  using scan_literal_back [of "CHR 0x27" d s rest] that by (simp add: scan_literal_def mysql_string_literal_def unescape_def)

section \<open>The query for a row\<close>

text \<open>The reading of \<^verbatim>\<open>SELECT * FROM a.b WHERE c = 'v' LIMIT 1\<close>.\<close>

definition scan_row_query :: "string \<Rightarrow> (string \<times> string \<times> string \<times> string) option" where
  "scan_row_query s =
     Option.bind (strip_prefix ''SELECT * FROM '' s) (\<lambda>s.
     Option.bind (scan_name s) (\<lambda>(schema, s).
     Option.bind (strip_prefix ''.'' s) (\<lambda>s.
     Option.bind (scan_name s) (\<lambda>(tbl, s).
     Option.bind (strip_prefix '' WHERE '' s) (\<lambda>s.
     Option.bind (scan_name s) (\<lambda>(field, s).
     Option.bind (strip_prefix '' = '' s) (\<lambda>s.
     Option.bind (scan_literal s) (\<lambda>(v, s). if s = '' LIMIT 1'' then Some (schema, tbl, field, v) else None))))))))"

lemma strip_prefix_append [simp]: "strip_prefix p (p @ s) = Some s"
  by (simp add: strip_prefix_Some)

text \<open>C22: The query with which change data capture fetches a row means what it is meant to: whatever characters the
  names and the key hold, quotes, backticks and backslashes among them, the server reads exactly the schema, table, column
  and trimmed key the query was made from, and nothing of a value becomes SQL.\<close>

theorem row_query_read_back:
  "scan_row_query (row_query schema tbl pk_field pk_val) = Some (schema, tbl, pk_field, trim pk_val)"
proof -
  have 1: "strip_prefix ''SELECT * FROM '' (row_query schema tbl pk_field pk_val) =
      Some (mysql_ident schema @ CHR ''.'' # mysql_ident tbl @ '' WHERE '' @ mysql_ident pk_field @
        '' = '' @ mysql_string_literal (trim pk_val) @ '' LIMIT 1'')" (is "_ = Some (_ @ _ # ?rest)")
    by (simp add: strip_prefix_Some row_query_def qualified_schema_table_def)
  have 2: "scan_name ?rest = Some (tbl, '' WHERE '' @ mysql_ident pk_field @ '' = '' @ mysql_string_literal (trim pk_val) @ '' LIMIT 1'')"
    using mysql_ident_back [of "CHR '' ''" tbl] by simp
  have 3: "scan_name (mysql_ident pk_field @ '' = '' @ mysql_string_literal (trim pk_val) @ '' LIMIT 1'') =
      Some (pk_field, '' = '' @ mysql_string_literal (trim pk_val) @ '' LIMIT 1'')"
    using mysql_ident_back [of "CHR '' ''" pk_field] by simp
  have 4: "scan_literal (mysql_string_literal (trim pk_val) @ '' LIMIT 1'') = Some (trim pk_val, '' LIMIT 1'')"
    using mysql_string_literal_back [of "CHR '' ''" "trim pk_val"] by simp
  show ?thesis
    unfolding scan_row_query_def 1 using mysql_ident_back [of "CHR ''.''" schema ?rest] 2 3 4 by simp
qed

section \<open>Enum labels\<close>

definition show_enum :: "string list \<Rightarrow> string" where
  "show_enum labels = ''enum('' @ join_with '','' (map (\<lambda>l. CHR 0x27 # l @ [CHR 0x27]) labels) @ '')''"

lemma dropWhile_stop: "xs \<noteq> [] \<Longrightarrow> \<not> P (hd xs) \<Longrightarrow> dropWhile P xs = xs"
  by (cases xs) auto

lemma join_with_ends:
  assumes "ls \<noteq> []" "\<forall>l\<in>set ls. l \<noteq> [] \<and> hd l = c \<and> last l = c"
  shows "join_with sep ls \<noteq> [] \<and> hd (join_with sep ls) = c \<and> last (join_with sep ls) = c"
  using assms by (induction sep ls rule: join_with.induct) auto

text \<open>The labels of an enum are read from its type when they hold no comma and no quote. The text of the type
  is as the server prints it; \<open>to_lowercase\<close> keeps its first letters, which are lower-case ASCII letters already.\<close>

theorem enum_labels_read_back:
  assumes labels: "labels \<noteq> []" "\<forall>l\<in>set labels. CHR '','' \<notin> set l \<and> CHR 0x27 \<notin> set l"
    and lower: "starts_with (to_lowercase x (show_enum labels)) ''enum(''"
  shows "parse_enum_column_type x (show_enum labels) = Some labels"
proof -
  let ?qs = "map (\<lambda>l. CHR 0x27 # l @ [CHR 0x27]) labels" and ?j = "join_with '','' (map (\<lambda>l. CHR 0x27 # l @ [CHR 0x27]) labels)"
  have ends: "?j \<noteq> [] \<and> hd ?j = CHR 0x27 \<and> last ?j = CHR 0x27" by (rule join_with_ends) (use labels in auto)
  have head: "dropWhile (\<lambda>c. c = CHR ''('') (dropWhile (\<lambda>c. c \<noteq> CHR ''('') (show_enum labels)) = ?j @ '')''"
    using ends by (cases ?j) (simp_all add: show_enum_def)
  have tail: "rev (dropWhile (\<lambda>c. c = CHR '')'') (rev (?j @ '')''))) = ?j"
    using ends by (simp add: dropWhile_stop hd_rev)
  have unquote: "rev (dropWhile (\<lambda>c. c = CHR 0x27) (rev (dropWhile (\<lambda>c. c = CHR 0x27) (CHR 0x27 # l @ [CHR 0x27])))) = l"
    if "CHR 0x27 \<notin> set l" for l
  proof (cases "l = []")
    case False
    then have "dropWhile (\<lambda>c. c = CHR 0x27) (l @ [CHR 0x27]) = l @ [CHR 0x27]" using that by (cases l) auto
    moreover have "dropWhile (\<lambda>c. c = CHR 0x27) (rev l) = rev l"
      using that False by (cases "rev l") (auto simp: dropWhile_eq_self_iff)
    ultimately show ?thesis by simp
  qed simp
  have parts: "split_on CHR '','' ?j = ?qs" by (rule split_on_join) (use labels in auto)
  have "map (\<lambda>v. rev (dropWhile (\<lambda>c. c = CHR 0x27) (rev (dropWhile (\<lambda>c. c = CHR 0x27) v)))) ?qs = labels" (is "?labels = labels")
    unfolding map_map comp_def by (rule map_idI) (use labels unquote in blast)
  then show ?thesis
    unfolding parse_enum_column_type_def head tail parts Let_def using lower by (simp only: if_False not_True_eq_False simp_thms)
qed

text \<open>A label with a comma becomes two, and the labels after it get the wrong numbers.\<close>

theorem enum_comma_shifts:
  "starts_with (to_lowercase x (show_enum [''a,b'', ''c''])) ''enum('' \<Longrightarrow>
   parse_enum_column_type x (show_enum [''a,b'', ''c'']) = Some [''a'', ''b'', ''c'']"
  by (simp add: parse_enum_column_type_def show_enum_def split_on_def)

section \<open>File names\<close>

text \<open>File names are compared as texts, so after the millionth binlog file a worker far behind is taken to have caught up.\<close>

theorem rollover_looks_caught_up:
  assumes "cs_binlog_file st = ''mysql-bin.999999''"
  shows "cdc_replication_caught_up_to_tip st ''mysql-bin.1000000'' tip_pos"
  using assms by (simp add: cdc_replication_caught_up_to_tip_def cmp_ord_def)

end
