(* ===== verification/Cdc_Rows.thy ===== *)
theory Cdc_Rows
  imports Cdc_Scope Table_Update Join_Exec
begin

text \<open>
  Change data capture (\<^verbatim>\<open>src/core/cdc/mod.rs\<close>), second part: a row of MySQL becomes a row of the mirror
  (\<^verbatim>\<open>parse_row\<close>), and the row events of the binlog are applied to the mirror's table.

  The \<^verbatim>\<open>mysql_common\<close> crate is represented by its values: \<open>mysql_value\<close> for \<^verbatim>\<open>Value\<close>, \<open>mysql_row\<close> for \<^verbatim>\<open>Row\<close> with the
  names of its metadata and its cells (\<open>None\<close> for a cell that is not there). The pairs of images of a rows
  event are what the event's iterator yields: \<open>None\<close> for an error, else the images before and after, each with
  the outcome of its conversion to a row. The replies of the server are parameters (\<open>mysql\<close>), as are the calendar of the
  \<^verbatim>\<open>chrono\<close> crate and the clock (\<open>cx_now\<close>, in milliseconds).
\<close>

section \<open>Values\<close>

text \<open>A date has its microseconds last, a time its sign first and its microseconds last.\<close>

datatype mysql_value =
    VNull | VBytes bytes | VInt "64 word" | VUInt u64 | VFloat f64 | VDouble f64
  | VDate nat nat nat nat nat nat nat
  | VTime bool u32 nat nat nat nat

record mysql_row =
  mr_columns :: "string list"
  mr_values :: "mysql_value option list"

text \<open>\<open>f32\<close>'s \<open>Display\<close>: a finite \<open>f32\<close> is the rational number it denotes.\<close>

definition round32 :: "rat \<Rightarrow> f64" where
  "round32 q = (if q = 0 then Fin 0 else
     (let a = \<bar>q\<bar>; e = max (exp_of a - 23) (- 149);
          r = of_int (round_half_even (a / pow2 e)) * pow2 e in
      if pow2 128 \<le> r then (if 0 < q then PInf else NInf) else Fin (sgn q * r)))"

definition digits_at32 :: "rat \<Rightarrow> nat \<Rightarrow> (nat \<times> int) option" where
  "digits_at32 q n =
     (let k = exp10_of q - int n + 1; lo = nat \<lfloor>q / scale10 k\<rfloor>;
          near = (if q / scale10 k - of_nat lo < 1/2 then [lo, lo + 1] else [lo + 1, lo]) in
      case filter (\<lambda>d. round32 (of_nat d * scale10 k) = Fin q) near of [] \<Rightarrow> None | d # _ \<Rightarrow> Some (d, k))"

definition show_f32 :: "f64 \<Rightarrow> string" where
  "show_f32 v = (case v of
       Fin q \<Rightarrow> if q = 0 then ''0''
         else (if q < 0 then ''-'' else []) @
           (case List.map_filter (digits_at32 \<bar>q\<bar>) [1 ..< 10] of (d, k) # _ \<Rightarrow> show_decimal d k | [] \<Rightarrow> [])
     | _ \<Rightarrow> show_f64 v)"

definition pad :: "nat \<Rightarrow> nat \<Rightarrow> string" where
  "pad n k = pad_left n (show_nat k)"

definition cell_text :: "mysql_value option \<Rightarrow> string" where
  "cell_text c = (case c of
       Some VNull \<Rightarrow> []
     | Some (VBytes b) \<Rightarrow> from_utf8_lossy b
     | Some (VInt n) \<Rightarrow> show_int (sint n)
     | Some (VUInt n) \<Rightarrow> show_nat (unat n)
     | Some (VFloat f) \<Rightarrow> show_f32 f
     | Some (VDouble d) \<Rightarrow> show_f64 d
     | Some (VDate y m d h mi s ms) \<Rightarrow>
         show_nat y @ ''-'' @ pad 2 m @ ''-'' @ pad 2 d @ '' '' @ pad 2 h @ '':'' @ pad 2 mi @ '':'' @ pad 2 s @ ''.'' @ pad 3 ms
     | Some (VTime neg days h m s us) \<Rightarrow>
         (let total_hours = days * 24 + of_nat h in
          (if neg then ''-'' else []) @ pad 2 (unat total_hours) @ '':'' @ pad 2 m @ '':'' @ pad 2 s)
     | None \<Rightarrow> [])"

section \<open>Rows\<close>

datatype cdc_error = NoColumnMap string | MissingTableMap u64 | BadRow | TableErr table_error | Query | Halted

text \<open>The replies of the server, \<open>None\<close> where the query fails: the schemas with a name and the tables with a schema and
  name (up to case), the row a query returns, the columns with their types (\<^verbatim>\<open>DESCRIBE\<close>) and those of
  \<^verbatim>\<open>information_schema\<close>, the primary key, all rows; and how the crate prints a value for debugging.\<close>

record mysql =
  my_schema_names :: "string \<Rightarrow> string list option"
  my_tables_like :: "string \<Rightarrow> string \<Rightarrow> (string \<times> string) list option"
  my_select_row :: "string \<Rightarrow> mysql_row option option"
  my_describe :: "string \<Rightarrow> (string \<times> string) list option"
  my_columns :: "string \<Rightarrow> string \<Rightarrow> string list option"
  my_primary_key :: "string \<Rightarrow> string \<Rightarrow> string list option"
  my_select_all :: "string \<Rightarrow> mysql_value option list list option"
  my_debug :: "mysql_value \<Rightarrow> string"

record 'c cdc_ctx =
  cx_env :: "'c env"
  cx_vars :: vars
  cx_durability :: cdc_durability
  cx_utc :: "int \<Rightarrow> string option"
  cx_mysql :: mysql
  cx_dirs :: "string \<Rightarrow> string list"
  cx_now :: nat
  cx_uuid :: uuid_crate
  cx_master_gtid :: bool
  cx_unix_ms :: u64

definition binlog_column_display_name :: "string \<Rightarrow> string list \<Rightarrow> string" where
  "binlog_column_display_name r bootstrap_order =
     (case strip_prefix ''@'' r of
        Some rest \<Rightarrow> (case parse_unsigned 64 rest of
            Some idx \<Rightarrow> if idx < length bootstrap_order then bootstrap_order ! idx else r
          | None \<Rightarrow> r)
      | None \<Rightarrow> r)"

definition translate_enum :: "(string, string list) hmap option \<Rightarrow> string \<Rightarrow> string \<Rightarrow> string" where
  "translate_enum table_enums col_name val_str =
     (case Option.bind table_enums (\<lambda>enums. hget enums col_name) of
        Some labels \<Rightarrow> (case parse_unsigned 64 val_str of
            Some idx \<Rightarrow> if 0 < idx \<and> idx \<le> length labels then labels ! (idx - 1) else val_str
          | None \<Rightarrow> val_str)
      | None \<Rightarrow> val_str)"

text \<open>\<open>utc\<close> is \<^verbatim>\<open>Utc.timestamp_opt(timestamp, 0).single()\<close> printed with \<^verbatim>\<open>%Y-%m-%d %H:%M:%S\<close>.\<close>

definition translate_timestamp :: "(int \<Rightarrow> string option) \<Rightarrow> bool \<Rightarrow> string \<Rightarrow> string" where
  "translate_timestamp utc is_date_col val_str =
     (if is_date_col \<and> val_str \<noteq> [] then
        (case parse_i64 val_str of
           Some timestamp \<Rightarrow> if 946684800 < timestamp then hdefault val_str (utc timestamp) else val_str
         | None \<Rightarrow> val_str)
      else val_str)"

definition put_sliced :: "string \<Rightarrow> string sliced option \<Rightarrow> row \<Rightarrow> cdc_error + row" where
  "put_sliced key v m = (case v of
       None \<Rightarrow> Inr m
     | Some Panicked \<Rightarrow> Inl (TableErr Panic)
     | Some (Sliced d) \<Rightarrow> Inr (hput key d m))"

definition add_date_parts :: "bool \<Rightarrow> string \<Rightarrow> string \<Rightarrow> row \<Rightarrow> cdc_error + row" where
  "add_date_parts is_date_col col_name val_str m =
     (if is_date_col \<and> is_date_format val_str then
        rbind (put_sliced (col_name @ ''_day'') (extract_day val_str) m) (\<lambda>m.
        rbind (put_sliced (col_name @ ''_month'') (extract_month val_str) m) (\<lambda>m.
          if has_time_component val_str then
            (case extract_hour_bucket val_str of
               Some h \<Rightarrow> Inr (hput (col_name @ ''_hour_bucket'') h m) | None \<Rightarrow> Inr m)
          else Inr m))
      else Inr m)"

definition parse_cell ::
  "(int \<Rightarrow> string option) \<Rightarrow> worker \<Rightarrow> string list \<Rightarrow> string \<Rightarrow> mysql_row \<Rightarrow> nat \<Rightarrow> row \<Rightarrow> cdc_error + row" where
  "parse_cell utc w columns_names qkey r i m =
     (let row_len = length (mr_values r);
          use_binlog_names = (length (mr_columns r) = row_len \<and> length (mr_columns r) \<noteq> length columns_names);
          col_name = (if use_binlog_names then binlog_column_display_name (mr_columns r ! i) columns_names
                      else if i < length columns_names then columns_names ! i else ''col_'' @ show_nat i);
          val_str = translate_enum (hget (wk_enum_maps w) qkey) col_name (cell_text (mr_values r ! i));
          is_date_col = (case hget (wk_date_columns w) qkey of Some s \<Rightarrow> col_name \<in> s | None \<Rightarrow> False);
          val_str = translate_timestamp utc is_date_col val_str in
      rbind (add_date_parts is_date_col col_name val_str m) (\<lambda>m. Inr (hput col_name val_str m)))"

definition parse_row :: "(int \<Rightarrow> string option) \<Rightarrow> worker \<Rightarrow> mysql_row \<Rightarrow> string \<Rightarrow> cdc_error + row" where
  "parse_row utc w r qkey =
     (case hget (wk_column_maps w) qkey of
        None \<Rightarrow> Inl (NoColumnMap qkey)
      | Some columns_names \<Rightarrow> fold_r (parse_cell utc w columns_names qkey r) [0 ..< length (mr_values r)] [])"

text \<open>The key of a parsed row; \<open>None\<close> when a part is absent or blank.\<close>

fun pk_parts :: "row \<Rightarrow> string list \<Rightarrow> string list option" where
  "pk_parts data [] = Some []"
| "pk_parts data (col # cols) =
     (case hget data col of
        None \<Rightarrow> None
      | Some v \<Rightarrow> if trim v = [] then None else map_option ((#) (trim v)) (pk_parts data cols))"

definition row_pk_from_parsed_row :: "row \<Rightarrow> string list \<Rightarrow> string option" where
  "row_pk_from_parsed_row data pk_cols =
     (if length pk_cols = 1 \<and> pk_cols ! 0 = ''PK'' then
        Option.bind (hget data ''PK'') (\<lambda>s. if trim s = [] then None else Some (trim s))
      else map_option (join_with [CHR 0x1F]) (pk_parts data pk_cols))"

section \<open>Events sent to subscribers\<close>

record update_event =
  ue_entity :: string
  ue_table :: string
  ue_type :: string
  ue_pk :: string
  ue_columns :: "string list"
  ue_values :: "string list"

definition subscribe_update_event :: "string \<Rightarrow> string \<Rightarrow> string \<Rightarrow> string \<Rightarrow> row \<Rightarrow> update_event" where
  "subscribe_update_event entity table_name event_type pk flds =
     \<lparr>ue_entity = entity, ue_table = table_name, ue_type = event_type, ue_pk = pk,
      ue_columns = map fst flds, ue_values = map snd flds\<rparr>"

section \<open>Row events\<close>

text \<open>An image is \<open>None\<close> where its conversion to a row fails.\<close>

type_synonym image = "mysql_row option"
type_synonym row_pair = "(image option \<times> image option) option"

text \<open>The table a batch writes to, with the events sent so far and the count of the rows applied.\<close>

record 'c batch =
  b_table :: "'c table"
  b_events :: "update_event list"
  b_applied :: nat

definition table_err :: "table_error + 'a \<Rightarrow> cdc_error + 'a" where
  "table_err r = map_err TableErr r"

definition parse_image :: "'c cdc_ctx \<Rightarrow> worker \<Rightarrow> string \<Rightarrow> image \<Rightarrow> cdc_error + row" where
  "parse_image cx w qkey im = (case im of None \<Rightarrow> Inl BadRow | Some r \<Rightarrow> parse_row (cx_utc cx) w r qkey)"

definition emitted :: "string \<Rightarrow> string \<Rightarrow> string \<Rightarrow> string \<Rightarrow> row \<Rightarrow> 'c table \<Rightarrow> 'c batch \<Rightarrow> 'c batch" where
  "emitted entity table_name event_type pk flds t b =
     \<lparr>b_table = t, b_events = b_events b @ [subscribe_update_event entity table_name event_type pk flds],
      b_applied = b_applied b + 1\<rparr>"

text \<open>A row that is written under an existing key is an update. The type of the event comes with the table.\<close>

definition write_data :: "'c env \<Rightarrow> string \<Rightarrow> row \<Rightarrow> 'c table \<Rightarrow> table_error + string \<times> 'c table" where
  "write_data E pk_val data t =
     rbind (get_row_as_map E pk_val t) (\<lambda>(existing, t).
       if existing \<noteq> None then rbind (table_update E pk_val data t) (\<lambda>t. Inr (''UPDATE'', t))
       else rbind (table_insert E data t) (\<lambda>t. Inr (''INSERT'', t)))"

definition write_row ::
  "'c cdc_ctx \<Rightarrow> worker \<Rightarrow> string \<Rightarrow> string \<Rightarrow> string \<Rightarrow> string list \<Rightarrow> row_pair \<Rightarrow> 'c batch \<Rightarrow> cdc_error + 'c batch" where
  "write_row cx w qkey entity table_name pk_cols pair b =
     (case pair of
        None \<Rightarrow> Inr b
      | Some (before, after) \<Rightarrow>
          (case (case after of Some im \<Rightarrow> Some im | None \<Rightarrow> before) of
             None \<Rightarrow> Inr b
           | Some im \<Rightarrow>
               rbind (parse_image cx w qkey im) (\<lambda>data.
               case row_pk_from_parsed_row data pk_cols of
                 None \<Rightarrow> Inr b
               | Some pk_val \<Rightarrow>
                   rbind (table_err (write_data (cx_env cx) pk_val data (b_table b))) (\<lambda>(event_type, t).
                     Inr (emitted entity table_name event_type pk_val data t b)))))"

text \<open>A failure of the reconciliation is only reported; a panic is not caught.\<close>

definition reconcile_reported :: "'c env \<Rightarrow> 'c table \<Rightarrow> cdc_error + 'c table" where
  "reconcile_reported E t = (case reconcile_orphan_rows E t of
       Inr t \<Rightarrow> Inr t
     | Inl e \<Rightarrow> if e = Panic then Inl (TableErr e) else Inr t)"

definition apply_binlog_write_rows ::
  "'c cdc_ctx \<Rightarrow> worker \<Rightarrow> row_pair list \<Rightarrow> string \<Rightarrow> string \<Rightarrow> string \<Rightarrow> string list \<Rightarrow> 'c table \<Rightarrow> cdc_error + 'c batch" where
  "apply_binlog_write_rows cx w rows qkey entity table_name pk_cols t =
     rbind (fold_r (write_row cx w qkey entity table_name pk_cols) rows \<lparr>b_table = t, b_events = [], b_applied = 0\<rparr>) (\<lambda>b.
       if 0 < b_applied b
       then rbind (reconcile_reported (cx_env cx) (b_table b)) (\<lambda>t. Inr (b\<lparr>b_table := t\<rparr>))
       else Inr b)"

text \<open>The columns of the key that the image after the change does not show are taken from the one before.\<close>

definition fill_key :: "row \<Rightarrow> string list \<Rightarrow> row \<Rightarrow> row" where
  "fill_key before_map pk_cols delta =
     fold (\<lambda>col delta.
       let missing = (case hget delta col of Some v \<Rightarrow> trim v = [] | None \<Rightarrow> True) in
       if missing then
         (case hget before_map col of
            Some v \<Rightarrow> if trim v = [] then delta else hput col v delta
          | None \<Rightarrow> delta)
       else delta) pk_cols delta"

fun extract_binlog_update_deltas ::
  "'c cdc_ctx \<Rightarrow> worker \<Rightarrow> string \<Rightarrow> string list \<Rightarrow> row_pair list \<Rightarrow> cdc_error + (string \<times> row) list" where
  "extract_binlog_update_deltas cx w qkey pk_cols [] = Inr []"
| "extract_binlog_update_deltas cx w qkey pk_cols (pair # rows) =
     (let rest = extract_binlog_update_deltas cx w qkey pk_cols rows in
      case pair of
        Some (before, Some after) \<Rightarrow>
          rbind (parse_image cx w qkey after) (\<lambda>delta.
          rbind (case before of
                   None \<Rightarrow> Inr delta
                 | Some im \<Rightarrow> rbind (parse_image cx w qkey im) (\<lambda>before_map. Inr (fill_key before_map pk_cols delta))) (\<lambda>delta.
            case row_pk_from_parsed_row delta pk_cols of
              None \<Rightarrow> rest
            | Some pk_val \<Rightarrow> rbind rest (\<lambda>ds. Inr ((pk_val, delta) # ds))))
      | _ \<Rightarrow> rest)"

text \<open>The row of the server under a key: the reply to the query, parsed.\<close>

definition resolve_mysql_schema_folder_name :: "mysql \<Rightarrow> string \<Rightarrow> cdc_error + string" where
  "resolve_mysql_schema_folder_name my schema_hint =
     (case my_schema_names my schema_hint of Some [s] \<Rightarrow> Inr s | _ \<Rightarrow> Inl Query)"

definition fetch_full_row_mysql ::
  "'c cdc_ctx \<Rightarrow> worker \<Rightarrow> string \<Rightarrow> string \<Rightarrow> string \<Rightarrow> string \<Rightarrow> string \<Rightarrow> cdc_error + row option" where
  "fetch_full_row_mysql cx w schema mysql_table qkey pk_field pk_val =
     rbind (if wk_sync_all w then resolve_mysql_schema_folder_name (cx_mysql cx) schema else Inr schema) (\<lambda>schema_mysql.
     case my_select_row (cx_mysql cx) (row_query schema_mysql mysql_table pk_field pk_val) of
       None \<Rightarrow> Inl Query
     | Some None \<Rightarrow> Inr None
     | Some (Some r) \<Rightarrow> rbind (parse_row (cx_utc cx) w r qkey) (\<lambda>m. Inr (Some m)))"

definition lookup_candidates :: "string \<Rightarrow> string list" where
  "lookup_candidates pk_trim = remdups (sort
     ([pk_trim, pk_trim] @ (case parse_i64 pk_trim of Some n \<Rightarrow> [show_int n] | None \<Rightarrow> []) @
      (case parse_unsigned 64 pk_trim of Some n \<Rightarrow> [show_nat n] | None \<Rightarrow> [])))"

text \<open>The first candidate under which the mirror has a row. Errors of the lookup are skipped, a panic is not.\<close>

fun first_found :: "'c env \<Rightarrow> string list \<Rightarrow> 'c table \<Rightarrow> cdc_error + (row \<times> string) option \<times> 'c table" where
  "first_found E [] t = Inr (None, t)"
| "first_found E (cand # cands) t =
     (if cand = [] then first_found E cands t
      else case get_row_as_map E cand t of
          Inr (Some m, t) \<Rightarrow> Inr (Some (m, cand), t)
        | Inr (None, t) \<Rightarrow> first_found E cands t
        | Inl e \<Rightarrow> if e = Panic then Inl (TableErr e) else first_found E cands t)"

text \<open>One change of an update event; \<open>cache\<close> holds the rows fetched from the server.\<close>

definition update_row ::
  "'c cdc_ctx \<Rightarrow> worker \<Rightarrow> string \<Rightarrow> string \<Rightarrow> string \<Rightarrow> string \<Rightarrow> string \<Rightarrow> string list \<Rightarrow> string \<times> row \<Rightarrow>
   'c batch \<times> (string, row) hmap \<Rightarrow> cdc_error + 'c batch \<times> (string, row) hmap" where
  "update_row cx w schema mysql_table qkey entity mirror_table pk_cols change st =
     (case (change, st) of ((pk_trim, delta), (b, cache)) \<Rightarrow>
        rbind (first_found (cx_env cx) (lookup_candidates pk_trim) (b_table b)) (\<lambda>(found, t).
          let (found, cache) = (case found of
                Some x \<Rightarrow> (Some x, cache)
              | None \<Rightarrow>
                  if cdc_update_hydrate_enabled (cx_vars cx) then
                    (case hget cache pk_trim of
                       Some m \<Rightarrow> (Some (m, pk_trim), cache)
                     | None \<Rightarrow>
                         (case fetch_full_row_mysql cx w schema mysql_table qkey
                             (case pk_cols of c # _ \<Rightarrow> c | [] \<Rightarrow> ''PK'') pk_trim of
                            Inr (Some m) \<Rightarrow> (Some (m, pk_trim), hput pk_trim m cache)
                          | _ \<Rightarrow> (None, cache)))
                  else (None, cache)) in
          case found of
            None \<Rightarrow> Inr (b\<lparr>b_table := t\<rparr>, cache)
          | Some (base, storage_pk) \<Rightarrow>
              let merged = fold (\<lambda>(k, v). hput k v) delta base in
              rbind (table_err (table_update (cx_env cx) storage_pk merged t)) (\<lambda>t.
                Inr (emitted entity mirror_table ''UPDATE'' storage_pk delta t b, cache))))"

definition apply_binlog_update_deltas ::
  "'c cdc_ctx \<Rightarrow> worker \<Rightarrow> string \<Rightarrow> string \<Rightarrow> (string \<times> row) list \<Rightarrow> string \<Rightarrow> string \<Rightarrow> string \<Rightarrow> string list \<Rightarrow> 'c table \<Rightarrow>
   cdc_error + 'c batch" where
  "apply_binlog_update_deltas cx w schema mysql_table deltas qkey entity mirror_table pk_cols t =
     rbind (fold_r (update_row cx w schema mysql_table qkey entity mirror_table pk_cols) deltas
         (\<lparr>b_table = t, b_events = [], b_applied = 0\<rparr>, [])) (\<lambda>(b, _). Inr b)"

definition delete_row ::
  "'c cdc_ctx \<Rightarrow> worker \<Rightarrow> string \<Rightarrow> string \<Rightarrow> string \<Rightarrow> string list \<Rightarrow> row_pair \<Rightarrow> 'c batch \<Rightarrow> cdc_error + 'c batch" where
  "delete_row cx w qkey entity table_name pk_cols pair b =
     (case pair of
        Some (Some im, _) \<Rightarrow>
          rbind (parse_image cx w qkey im) (\<lambda>data.
          case row_pk_from_parsed_row data pk_cols of
            None \<Rightarrow> Inr b
          | Some pk_val \<Rightarrow>
              Inr (emitted entity table_name ''DELETE'' pk_val [] (table_delete (cx_env cx) pk_val (b_table b)) b))
      | _ \<Rightarrow> Inr b)"

definition apply_binlog_delete_rows ::
  "'c cdc_ctx \<Rightarrow> worker \<Rightarrow> row_pair list \<Rightarrow> string \<Rightarrow> string \<Rightarrow> string \<Rightarrow> string list \<Rightarrow> 'c table \<Rightarrow> cdc_error + 'c batch" where
  "apply_binlog_delete_rows cx w rows qkey entity table_name pk_cols t =
     fold_r (delete_row cx w qkey entity table_name pk_cols) rows \<lparr>b_table = t, b_events = [], b_applied = 0\<rparr>"

text \<open>The version 1 events and partial updates take the same paths.\<close>

datatype rows_kind = WriteRows | UpdateRows | DeleteRows

text \<open>\<open>re_tme\<close> is the table map the stream itself remembers for the table.\<close>

record rows_event =
  re_kind :: rows_kind
  re_table_id :: u64
  re_tme :: "table_map option"
  re_rows :: "row_pair list"

definition apply_rows ::
  "'c cdc_ctx \<Rightarrow> worker \<Rightarrow> rows_event \<Rightarrow> string \<Rightarrow> string \<Rightarrow> string \<Rightarrow> string \<Rightarrow> string \<Rightarrow> string list \<Rightarrow> 'c table \<Rightarrow> cdc_error + 'c batch" where
  "apply_rows cx w ev schema table_name qkey entity mirror_table pk_cols t =
     (case re_kind ev of
        WriteRows \<Rightarrow> apply_binlog_write_rows cx w (re_rows ev) qkey entity mirror_table pk_cols t
      | UpdateRows \<Rightarrow>
          rbind (extract_binlog_update_deltas cx w qkey pk_cols (re_rows ev)) (\<lambda>deltas.
            apply_binlog_update_deltas cx w schema table_name deltas qkey entity mirror_table pk_cols t)
      | DeleteRows \<Rightarrow> apply_binlog_delete_rows cx w (re_rows ev) qkey entity mirror_table pk_cols t)"

end
