(* ===== verification/Cdc_Apply.thy ===== *)
theory Cdc_Apply
  imports Cdc_Rows
begin

text \<open>
  The rows events of \<^verbatim>\<open>src/core/cdc/mod.rs\<close> on a table whose invariant holds: writes and deletions are those of a map
  from keys to rows (the contract \<open>keyed_store\<close> of \<^verbatim>\<open>Table_Store\<close>, interpreted on the operations of a batch), and what
  an update does to the rows of other keys.
\<close>

section \<open>Reading before writing\<close>

lemma get_row_effect:
  assumes x: "str_layout (e_ext E)" and s: "store_rep E t A B"
  obtains m t' where "get_row_as_map E pk t = Inr (m, t')" "store_rep E t' A B" "unchanged t t'"
    "map_option hget m = observed E t pk" "\<And>r. m = Some r \<Longrightarrow> hwf r"
proof (cases "pi_get (e_ext E) (t_primary_index t) pk")
  case None
  have "unchanged t t" by (simp add: unchanged_def)
  with None s show thesis by (intro that [of None t]) (simp_all add: get_row_as_map_def observed_None)
next
  case (Some loc)
  have "index_ok E t A B" using s by (simp add: store_rep_def)
  from index_ok_get [OF this Some] obtain row where row: "live_at t A B loc row" by blast
  from get_row_Some [OF x s Some row] obtain m t' where g: "hget m = hget row" "store_rep E t' A B" "unchanged t t'" "hwf m"
    "get_row_as_map E pk t =
      Inr (if canonical_bytes (e_ext E) (pk_of E t row) = canonical_bytes (e_ext E) pk then Some m else None, t')" by blast
  show thesis by (rule that [OF g(5) g(2,3)]) (use g(4) in \<open>auto simp: observed_Some [OF x s Some row] g(1) split: if_splits\<close>)
qed

lemma room_same:
  assumes "store_rep E t A B" "store_rep E t' A B" "t_manifest t' = t_manifest t"
  shows "room_for E t' row = room_for E t row"
proof -
  have r: "rep E t A B" "rep E t' A B" using assms by (simp_all add: store_rep_def)
  obtain w where w: "t_active t = Some w" using r(1) by (auto simp: rep_def)
  obtain w' where w': "t_active t' = Some w'" using r(2) by (auto simp: rep_def)
  have f: "flds_of t' = flds_of t" using assms(3) by (simp add: flds_of_def)
  have "row_fits (e_ext E) (flds_of t) w' rw = row_fits (e_ext E) (flds_of t) w rw" for rw
    unfolding row_fits_iff [OF active_ok [OF r(1) w]] row_fits_iff [OF active_ok [OF r(2) w', unfolded f]] ..
  then show ?thesis unfolding room_for_cong [OF assms(3)] room_for_cong [OF refl, of E t] by (simp add: w w')
qed

lemma unchanged_shape: "unchanged t t' \<Longrightarrow> t_manifest t' = t_manifest t \<and> unchanged_rows t t'"
  by (simp add: unchanged_def unchanged_rows_def)

lemma manifest_shape:
  "t_manifest t' = t_manifest t \<Longrightarrow> flds_of t' = flds_of t \<and> pk_columns t' = pk_columns t \<and>
     stored_key E t' = stored_key E t \<and> stored_row E t' = stored_row E t"
proof -
  assume m: "t_manifest t' = t_manifest t"
  then have "flds_of t' = flds_of t" "pk_columns t' = pk_columns t" by (simp_all add: flds_of_def pk_columns_def)
  with stored_shape [of t' t E] show ?thesis by simp
qed

lemma write_data_effect:
  assumes x: "str_layout (e_ext E)" and ok: "table_ok E t" and room: "room_for E t data"
    and same: "key_eq E pk (stored_key E t data)"
  shows "\<exists>ty t'. write_data E pk data t = Inr (ty, t') \<and> table_ok E t' \<and> flds_of t' = flds_of t \<and> pk_columns t' = pk_columns t \<and>
    (\<forall>q. observed E t' q = (if key_eq E q (stored_key E t data) then Some (hget (stored_row E t data))
       else if pi_hash (e_ext E) q = pi_hash (e_ext E) (stored_key E t data) then None else observed E t q))"
proof -
  from ok obtain A B where s: "store_rep E t A B" by (auto simp: table_ok_def)
  from get_row_effect [OF x s, of pk] obtain m t1 where g: "get_row_as_map E pk t = Inr (m, t1)" "store_rep E t1 A B" "unchanged t t1"
    by blast
  note u = unchanged_shape [OF g(3)]
  note sh = manifest_shape [OF conjunct1 [OF u], of E]
  have ok1: "table_ok E t1" using g(2) by (auto simp: table_ok_def)
  have room1: "room_for E t1 data" using room_same [OF s g(2) conjunct1 [OF u]] room by simp
  have o: "observed E t1 q = observed E t q" for q by (rule observed_unchanged [OF x s g(2) conjunct2 [OF u]])
  have h: "pi_hash (e_ext E) pk = pi_hash (e_ext E) (stored_key E t data)" by (rule key_eq_hash [OF same])
  show ?thesis
  proof (cases m)
    case None
    with insert_effect [OF x ok1 room1] show ?thesis by (auto simp: write_data_def g(1) sh o)
  next
    case (Some r)
    with update_effect [OF x ok1 room1, of pk] show ?thesis by (auto simp: write_data_def g(1) sh o h)
  qed
qed

section \<open>Batches as operations of a store\<close>

text \<open>Writing a row under its key, deleting a key, and the reconciliation as the step nobody sees.\<close>

definition cdc_op :: "'c env \<Rightarrow> (string \<times> row, string) store_op \<Rightarrow> 'c table \<Rightarrow> table_error + 'c table" where
  "cdc_op E = do_op (\<lambda>(pk, data) t. rbind (write_data E pk data t) (\<lambda>(_, t). Inr t)) (table_delete E) (reconcile_orphan_rows E)"

definition cdc_ready :: "'c env \<Rightarrow> string set \<Rightarrow> 'c table \<Rightarrow> (string \<times> row, string) store_op \<Rightarrow> bool" where
  "cdc_ready E K t p \<longleftrightarrow> (case p of
       Put (pk, data) \<Rightarrow> room_for E t data \<and> stored_key E t data \<in> K \<and> key_eq E pk (stored_key E t data)
     | Del j \<Rightarrow> j \<in> K
     | Turn \<Rightarrow> True)"

lemma reconcile_keeps:
  assumes x: "str_layout (e_ext E)" and ok: "table_ok E t"
  shows "\<exists>t'. reconcile_orphan_rows E t = Inr t' \<and> table_ok E t' \<and> flds_of t' = flds_of t \<and> pk_columns t' = pk_columns t \<and>
    (\<forall>q. observed E t' q = observed E t q)"
proof -
  from ok obtain A B where s: "store_rep E t A B" by (auto simp: table_ok_def)
  from reconcile_effect [OF x s] have r: "reconcile_orphan_rows E t = Inr (after_reads E t)"
    "store_rep E (after_reads E t) A B" "unchanged_rows t (after_reads E t)" by simp_all
  have m: "t_manifest (after_reads E t) = t_manifest t" using r(3) by (simp add: unchanged_rows_def)
  have "table_ok E (after_reads E t)" using r(2) by (auto simp: table_ok_def)
  with r(1) observed_unchanged [OF x s r(2,3)] manifest_shape [OF m, of E] show ?thesis by simp
qed

interpretation cstore: keyed_store "store_ok E K" "\<lambda>t. (flds_of t, pk_columns t)" "cdc_ready E K" "cdc_op E"
  "\<lambda>t (pk, data). stored_key E t data" "\<lambda>t (pk, data). hget (stored_row E t data)" "observed E" "key_eq E" K for E K
proof unfold_locales
  fix t :: "'a table" and p assume ok: "store_ok E K t" and rd: "cdc_ready E K t p"
  then have t: "str_layout (e_ext E)" "table_ok E t" by (simp_all add: store_ok_def)
  have hash: "pi_hash (e_ext E) k = pi_hash (e_ext E) j \<longleftrightarrow> key_eq E k j" if "k \<in> K" "j \<in> K" for k j
    using ok that key_eq_hash by (auto simp: store_ok_def collision_free_def)
  have "\<exists>t'. cdc_op E p t = Inr t' \<and> table_ok E t' \<and> flds_of t' = flds_of t \<and> pk_columns t' = pk_columns t \<and>
    (\<forall>k\<in>K. observed E t' k =
      apply_op (\<lambda>(pk, data). stored_key E t data) (\<lambda>(pk, data). hget (stored_row E t data)) (key_eq E) p (observed E t) k)"
  proof (cases p)
    case (Put r)
    obtain pk data where r: "r = (pk, data)" by (cases r)
    from rd have d: "room_for E t data" "key_eq E pk (stored_key E t data)" "stored_key E t data \<in> K"
      by (simp_all add: cdc_ready_def Put r)
    from write_data_effect [OF t d(1,2)] hash [OF _ d(3)] show ?thesis by (auto simp: Put r cdc_op_def)
  next
    case (Del j)
    with delete_effect [OF t, of j] rd hash show ?thesis
      by (auto simp: cdc_op_def cdc_ready_def flds_of_def pk_columns_def)
  next
    case Turn
    with reconcile_keeps [OF t] show ?thesis by (auto simp: cdc_op_def)
  qed
  then show "\<exists>t'. cdc_op E p t = Inr t' \<and> store_ok E K t' \<and> (flds_of t', pk_columns t') = (flds_of t, pk_columns t)"
    "\<And>t' k. cdc_op E p t = Inr t' \<Longrightarrow> k \<in> K \<Longrightarrow>
      observed E t' k = apply_op (\<lambda>(pk, data). stored_key E t data) (\<lambda>(pk, data). hget (stored_row E t data)) (key_eq E) p (observed E t) k"
    using ok by (auto simp: store_ok_def)
qed (use stored_shape in \<open>metis+\<close>)

text \<open>The operations of a rows event that writes or deletes: the images that are there, parsed, without those that have no
  key. After a batch of writes the table is reconciled.\<close>

fun image_ops ::
  "(image \<Rightarrow> cdc_error + row) \<Rightarrow> string list \<Rightarrow> (string \<Rightarrow> row \<Rightarrow> (string \<times> row, string) store_op) \<Rightarrow> image list \<Rightarrow>
   cdc_error + (string \<times> row, string) store_op list" where
  "image_ops parse pk_cols mk [] = Inr []"
| "image_ops parse pk_cols mk (im # ims) =
     rbind (parse im) (\<lambda>data. rbind (image_ops parse pk_cols mk ims) (\<lambda>ops.
       Inr ((case row_pk_from_parsed_row data pk_cols of None \<Rightarrow> [] | Some pk \<Rightarrow> [mk pk data]) @ ops)))"

fun written_image :: "row_pair \<Rightarrow> image option" where
  "written_image None = None"
| "written_image (Some (before, after)) = (case after of Some im \<Rightarrow> Some im | None \<Rightarrow> before)"

fun deleted_image :: "row_pair \<Rightarrow> image option" where
  "deleted_image None = None"
| "deleted_image (Some (before, after)) = before"

definition event_ops :: "'c cdc_ctx \<Rightarrow> worker \<Rightarrow> string \<Rightarrow> string list \<Rightarrow> rows_event \<Rightarrow> cdc_error + (string \<times> row, string) store_op list" where
  "event_ops cx w qkey pk_cols ev =
     (case re_kind ev of
        WriteRows \<Rightarrow> rbind (image_ops (parse_image cx w qkey) pk_cols (\<lambda>pk data. Put (pk, data))
            (List.map_filter written_image (re_rows ev))) (\<lambda>ops. Inr (ops @ (if ops = [] then [] else [Turn])))
      | _ \<Rightarrow> image_ops (parse_image cx w qkey) pk_cols (\<lambda>pk data. Del pk) (List.map_filter deleted_image (re_rows ev)))"

text \<open>The key an operation names.\<close>

fun op_pk :: "(string \<times> row, string) store_op \<Rightarrow> string" where
  "op_pk (Put (pk, data)) = pk"
| "op_pk (Del pk) = pk"
| "op_pk Turn = []"

lemma written_row:
  "written_image pair = None \<Longrightarrow> write_row cx w qkey entity tbl pk_cols pair b = Inr b"
  "written_image pair = Some im \<Longrightarrow> write_row cx w qkey entity tbl pk_cols pair b =
     rbind (parse_image cx w qkey im) (\<lambda>data. case row_pk_from_parsed_row data pk_cols of
        None \<Rightarrow> Inr b
      | Some pk_val \<Rightarrow> rbind (table_err (write_data (cx_env cx) pk_val data (b_table b))) (\<lambda>(event_type, t).
          Inr (emitted entity tbl event_type pk_val data t b)))"
  by (cases pair rule: written_image.cases; simp add: write_row_def split: option.splits)+

lemma deleted_row:
  "deleted_image pair = None \<Longrightarrow> delete_row cx w qkey entity tbl pk_cols pair b = Inr b"
  "deleted_image pair = Some im \<Longrightarrow> delete_row cx w qkey entity tbl pk_cols pair b =
     rbind (parse_image cx w qkey im) (\<lambda>data. case row_pk_from_parsed_row data pk_cols of
        None \<Rightarrow> Inr b
      | Some pk_val \<Rightarrow> Inr (emitted entity tbl ''DELETE'' pk_val [] (table_delete (cx_env cx) pk_val (b_table b)) b))"
  by (cases pair rule: deleted_image.cases; simp add: delete_row_def split: option.splits)+

lemma map_filter_Cons: "List.map_filter f (p # ps) = (case f p of None \<Rightarrow> List.map_filter f ps | Some y \<Rightarrow> y # List.map_filter f ps)"
  by (simp add: List.map_filter_def split: option.split)

definition batch_to :: "'c batch \<Rightarrow> (string \<times> row, string) store_op list \<Rightarrow> 'c table \<Rightarrow> 'c batch \<Rightarrow> bool" where
  "batch_to b ops t b' \<longleftrightarrow> b_table b' = t \<and> b_applied b' = b_applied b + length ops \<and>
     (\<exists>evs. b_events b' = b_events b @ evs \<and> map ue_pk evs = map op_pk ops)"

lemma batch_to_Nil [simp]: "batch_to b [] t b' \<longleftrightarrow> b_table b' = t \<and> b_applied b' = b_applied b \<and> b_events b' = b_events b"
  by (auto simp: batch_to_def)

lemma batch_to_step:
  "batch_to (emitted entity tbl ty (op_pk p) data t1 b) ops t b' \<Longrightarrow> batch_to b (p # ops) t b'"
  by (auto simp: batch_to_def emitted_def subscribe_update_event_def)

text \<open>A loop over the pairs is the sequence of their operations, if each pair with an image does its operation.\<close>

lemma batch_runs:
  assumes skip: "\<And>pair b. pick pair = None \<Longrightarrow> step pair b = Inr b"
    and one: "\<And>pair im b. pick pair = Some im \<Longrightarrow> step pair b = rbind (parse im) (\<lambda>data. case row_pk_from_parsed_row data pk_cols of
        None \<Rightarrow> Inr b
      | Some pk \<Rightarrow> rbind (table_err (act pk data (b_table b))) (\<lambda>(ty, t). Inr (emitted entity tbl ty pk (ed data) t b)))"
    and mk: "\<And>pk data t. cdc_op E (mk pk data) t = rbind (act pk data t) (\<lambda>(_, t). Inr t)" "\<And>pk data. op_pk (mk pk data) = pk"
    and ops: "image_ops parse pk_cols mk (List.map_filter pick pairs) = Inr ops" "fold_r (cdc_op E) ops (b_table b) = Inr t"
  shows "\<exists>b'. fold_r step pairs b = Inr b' \<and> batch_to b ops t b'"
  using ops
proof (induction pairs arbitrary: b ops)
  case Nil
  then show ?case by (simp add: List.map_filter_def)
next
  case (Cons pair pairs)
  show ?case
  proof (cases "pick pair")
    case None
    with Cons skip [OF None] show ?thesis by (simp add: map_filter_Cons)
  next
    case (Some im)
    with Cons.prems(1) obtain data ops' where d: "parse im = Inr data" and o: "image_ops parse pk_cols mk (List.map_filter pick pairs) = Inr ops'"
      and ops: "ops = (case row_pk_from_parsed_row data pk_cols of None \<Rightarrow> [] | Some pk \<Rightarrow> [mk pk data]) @ ops'"
      by (auto simp: map_filter_Cons rbind_Inr_iff)
    show ?thesis
    proof (cases "row_pk_from_parsed_row data pk_cols")
      case None
      with Cons.IH [OF o] Cons.prems(2) ops show ?thesis by (simp add: one [OF Some] d)
    next
      case pk: (Some pk)
      with Cons.prems(2) ops obtain ty t1 where t1: "act pk data (b_table b) = Inr (ty, t1)" "fold_r (cdc_op E) ops' t1 = Inr t"
        by (auto simp: mk rbind_Inr_iff)
      let ?b = "emitted entity tbl ty pk (ed data) t1 b"
      have "b_table ?b = t1" by (simp add: emitted_def)
      with Cons.IH [OF o, of ?b] t1(2) obtain b' where b': "fold_r step pairs ?b = Inr b'" "batch_to ?b ops' t b'" by auto
      have "step pair b = Inr ?b" by (simp add: one [OF Some] d pk t1(1) table_err_def map_err_def)
      with b' batch_to_step [of entity tbl ty "mk pk data" "ed data" t1 b ops' t b'] show ?thesis
        by (simp add: ops pk mk(2))
    qed
  qed
qed

lemma image_ops_kind:
  "image_ops parse pk_cols mk ims = Inr ops \<Longrightarrow> (\<And>pk data. mk pk data \<noteq> Turn) \<Longrightarrow> filter (\<lambda>p. p \<noteq> Turn) ops = ops"
  by (induction ims arbitrary: ops) (auto simp: rbind_Inr_iff split: option.splits)

lemma written_runs:
  assumes "image_ops (parse_image cx w qkey) pk_cols (\<lambda>pk data. Put (pk, data)) (List.map_filter written_image pairs) = Inr ops"
    and "fold_r (cdc_op (cx_env cx)) ops (b_table b) = Inr t"
  shows "\<exists>b'. fold_r (write_row cx w qkey entity tbl pk_cols) pairs b = Inr b' \<and> batch_to b ops t b'"
  by (rule batch_runs [where pick = written_image and act = "write_data (cx_env cx)" and ed = "\<lambda>d. d", OF _ _ _ _ assms])
    (simp_all add: written_row cdc_op_def)

lemma deleted_runs:
  assumes "image_ops (parse_image cx w qkey) pk_cols (\<lambda>pk data. Del pk) (List.map_filter deleted_image pairs) = Inr ops"
    and "fold_r (cdc_op (cx_env cx)) ops (b_table b) = Inr t"
  shows "\<exists>b'. fold_r (delete_row cx w qkey entity tbl pk_cols) pairs b = Inr b' \<and> batch_to b ops t b'"
  by (rule batch_runs [where pick = deleted_image and entity = entity and tbl = tbl and act = "\<lambda>pk data t. Inr (''DELETE'', table_delete (cx_env cx) pk t)"
        and ed = "\<lambda>_. []", OF _ _ _ _ assms])
    (auto simp: deleted_row cdc_op_def table_err_def cong: option.case_cong)

lemma batch_applied: "batch_to \<lparr>b_table = t0, b_events = [], b_applied = 0\<rparr> ops t b \<Longrightarrow>
   b_table b = t \<and> b_applied b = length (b_events b) \<and> map ue_pk (b_events b) = map op_pk ops"
  by (auto simp: batch_to_def dest: map_eq_imp_length_eq)

lemma write_batch_runs:
  assumes i: "image_ops (parse_image cx w qkey) pk_cols (\<lambda>pk data. Put (pk, data)) (List.map_filter written_image rows) = Inr ops"
    and t': "fold_r (cdc_op (cx_env cx)) (ops @ (if ops = [] then [] else [Turn])) t = Inr t'"
  shows "\<exists>b. apply_binlog_write_rows cx w rows qkey entity tbl pk_cols t = Inr b \<and> b_table b = t' \<and>
    b_applied b = length (b_events b) \<and> map ue_pk (b_events b) = map op_pk ops"
proof -
  let ?b = "\<lparr>b_table = t, b_events = [], b_applied = 0\<rparr>"
  obtain t1 where t1: "fold_r (cdc_op (cx_env cx)) ops (b_table ?b) = Inr t1"
    "ops \<noteq> [] \<Longrightarrow> reconcile_orphan_rows (cx_env cx) t1 = Inr t'" "ops = [] \<Longrightarrow> t' = t1"
  proof (cases "ops = []")
    case False
    with t' obtain t1 where "fold_r (cdc_op (cx_env cx)) ops t = Inr t1" "cdc_op (cx_env cx) Turn t1 = Inr t'"
      by (auto simp: fold_r_append rbind_Inr_iff)
    with False show thesis by (intro that [of t1]) (simp_all add: cdc_op_def)
  qed (use t' in \<open>auto intro: that\<close>)
  from written_runs [OF i t1(1)] obtain b where b: "fold_r (write_row cx w qkey entity tbl pk_cols) rows ?b = Inr b" "batch_to ?b ops t1 b"
    by blast
  note ba = batch_applied [OF b(2)]
  have "length (b_events b) = length ops" using ba by (metis length_map)
  then show ?thesis
    using b(1) ba t1(2,3) by (cases "ops = []") (auto simp: apply_binlog_write_rows_def reconcile_reported_def)
qed

section \<open>Updates\<close>

text \<open>The lookup of the row to change returns a row the table shows under one of the candidates.\<close>

lemma first_found_effect:
  assumes x: "str_layout (e_ext E)"
  shows "store_rep E t A B \<Longrightarrow> \<exists>r t'. first_found E cands t = Inr (r, t') \<and> store_rep E t' A B \<and> unchanged t t' \<and>
    (case r of Some (m, c) \<Rightarrow> c \<in> set cands \<and> hwf m \<and> observed E t c = Some (hget m)
     | None \<Rightarrow> \<forall>c\<in>set cands. c = [] \<or> observed E t c = None)"
proof (induction cands arbitrary: t)
  case Nil
  then show ?case by (simp add: unchanged_def)
next
  case (Cons c cands)
  show ?case
  proof (cases "c = []")
    case True
    from Cons.IH [OF Cons.prems] obtain r t' where "first_found E cands t = Inr (r, t')" "store_rep E t' A B" "unchanged t t'"
      "case r of Some (m, c) \<Rightarrow> c \<in> set cands \<and> hwf m \<and> observed E t c = Some (hget m)
       | None \<Rightarrow> \<forall>c\<in>set cands. c = [] \<or> observed E t c = None" by blast
    with True show ?thesis by (cases r) auto
  next
    case False
    from get_row_effect [OF x Cons.prems, of c] obtain m t1 where g: "get_row_as_map E c t = Inr (m, t1)" "store_rep E t1 A B"
      "unchanged t t1" "map_option hget m = observed E t c" "\<And>r. m = Some r \<Longrightarrow> hwf r" by blast
    have o: "observed E t1 q = observed E t q" for q
      by (rule observed_unchanged [OF x Cons.prems g(2) conjunct2 [OF unchanged_shape [OF g(3)]]])
    show ?thesis
    proof (cases m)
      case (Some r)
      with False g show ?thesis by (intro exI [of _ "Some (r, c)"] exI [of _ t1]) auto
    next
      case None
      from Cons.IH [OF g(2)] obtain r t' where f: "first_found E cands t1 = Inr (r, t')" "store_rep E t' A B" "unchanged t1 t'"
        "case r of Some (m, c) \<Rightarrow> c \<in> set cands \<and> hwf m \<and> observed E t1 c = Some (hget m)
         | None \<Rightarrow> \<forall>c\<in>set cands. c = [] \<or> observed E t1 c = None" by blast
      have "unchanged t t'" using g(3) f(3) by (simp add: unchanged_def)
      with None False g f show ?thesis by (intro exI [of _ r] exI [of _ t']) (auto simp: o split: option.splits)
    qed
  qed
qed

definition merged_row :: "row \<Rightarrow> row \<Rightarrow> row" where
  "merged_row base delta = fold (\<lambda>(k, v). hput k v) delta base"

text \<open>The row from the server, when the mirror has none under the key.\<close>

definition hydrated :: "'c cdc_ctx \<Rightarrow> worker \<Rightarrow> string \<Rightarrow> string \<Rightarrow> string \<Rightarrow> string list \<Rightarrow> string \<Rightarrow> row option" where
  "hydrated cx w schema mysql_table qkey pk_cols pk =
     (if cdc_update_hydrate_enabled (cx_vars cx)
      then (case fetch_full_row_mysql cx w schema mysql_table qkey (case pk_cols of c # _ \<Rightarrow> c | [] \<Rightarrow> ''PK'') pk of
          Inr r \<Rightarrow> r | Inl _ \<Rightarrow> None)
      else None)"

lemma update_row_found:
  assumes "first_found (cx_env cx) (lookup_candidates pk) (b_table b) = Inr (Some (m, c), t)"
  shows "update_row cx w schema mysql_table qkey entity tbl pk_cols (pk, delta) (b, cache) =
    rbind (table_err (table_update (cx_env cx) c (merged_row m delta) t)) (\<lambda>t. Inr (emitted entity tbl ''UPDATE'' c delta t b, cache))"
  using assms by (simp add: update_row_def merged_row_def)

lemma update_row_missing:
  assumes "first_found (cx_env cx) (lookup_candidates pk) (b_table b) = Inr (None, t)"
  shows "update_row cx w schema mysql_table qkey entity tbl pk_cols (pk, delta) (b, []) =
    (case hydrated cx w schema mysql_table qkey pk_cols pk of
       None \<Rightarrow> Inr (b\<lparr>b_table := t\<rparr>, [])
     | Some m \<Rightarrow> rbind (table_err (table_update (cx_env cx) pk (merged_row m delta) t)) (\<lambda>t.
         Inr (emitted entity tbl ''UPDATE'' pk delta t b, hput pk m [])))"
  using assms by (simp add: update_row_def hydrated_def merged_row_def split: option.split sum.split)

text \<open>A change whose row the mirror has under some candidate \<open>c\<close>: the merged row replaces that of \<open>c\<close>.\<close>

lemma update_found_effect:
  assumes x: "str_layout (e_ext (cx_env cx))" and ok: "table_ok (cx_env cx) (b_table b)"
    and found: "\<And>c. c \<in> set (lookup_candidates pk) \<Longrightarrow> c \<noteq> [] \<Longrightarrow> observed (cx_env cx) (b_table b) c \<noteq> None \<longleftrightarrow> c = c0"
    and c0: "c0 \<in> set (lookup_candidates pk)" "c0 \<noteq> []"
    and room: "\<And>m. hwf m \<Longrightarrow> observed (cx_env cx) (b_table b) c0 = Some (hget m) \<Longrightarrow> room_for (cx_env cx) (b_table b) (merged_row m delta)"
  shows "\<exists>m b'. update_row cx w schema mysql_table qkey entity tbl pk_cols (pk, delta) (b, cache) = Inr (b', cache) \<and>
    observed (cx_env cx) (b_table b) c0 = Some (hget m) \<and> hwf m \<and> table_ok (cx_env cx) (b_table b') \<and> b_applied b' = b_applied b + 1 \<and>
    (\<forall>q. observed (cx_env cx) (b_table b') q =
      (if key_eq (cx_env cx) q (stored_key (cx_env cx) (b_table b) (merged_row m delta))
       then Some (hget (stored_row (cx_env cx) (b_table b) (merged_row m delta)))
       else if pi_hash (e_ext (cx_env cx)) q = pi_hash (e_ext (cx_env cx)) (stored_key (cx_env cx) (b_table b) (merged_row m delta)) \<or>
         pi_hash (e_ext (cx_env cx)) q = pi_hash (e_ext (cx_env cx)) c0 then None
       else observed (cx_env cx) (b_table b) q))"
proof -
  let ?E = "cx_env cx" and ?t = "b_table b"
  from ok obtain A B where s: "store_rep ?E ?t A B" by (auto simp: table_ok_def)
  from first_found_effect [OF x s, of "lookup_candidates pk"] obtain r t' where f: "first_found ?E (lookup_candidates pk) ?t = Inr (r, t')"
    "store_rep ?E t' A B" "unchanged ?t t'"
    "case r of Some (m, c) \<Rightarrow> c \<in> set (lookup_candidates pk) \<and> hwf m \<and> observed ?E ?t c = Some (hget m)
     | None \<Rightarrow> \<forall>c\<in>set (lookup_candidates pk). c = [] \<or> observed ?E ?t c = None" by blast
  have "r \<noteq> None"
  proof
    assume "r = None"
    with f(4) c0 have "observed ?E ?t c0 = None" by auto
    with found [OF c0] show False by simp
  qed
  then obtain m c where r: "r = Some (m, c)" by (cases r) auto
  have c: "c = c0" "observed ?E ?t c0 = Some (hget m)" "hwf m"
  proof -
    have o: "c \<in> set (lookup_candidates pk)" "observed ?E ?t c = Some (hget m)" "hwf m" using f(4) by (simp_all add: r)
    show "hwf m" by (rule o(3))
    have "c \<noteq> []"
    proof
      assume e: "c = []"
      have "first_found ?E cs t = Inr (Some (m, c), t') \<Longrightarrow> c \<noteq> []" for cs t
        by (induction cs arbitrary: t) (auto split: if_splits sum.splits option.splits)
      with f(1) e r show False by blast
    qed
    with found [of c] o show "c = c0" by simp
    with o show "observed ?E ?t c0 = Some (hget m)" by simp
  qed
  note sh = manifest_shape [OF conjunct1 [OF unchanged_shape [OF f(3)]], of ?E]
  have ok': "table_ok ?E t'" using f(2) by (auto simp: table_ok_def)
  have room': "room_for ?E t' (merged_row m delta)"
    using room [OF c(3,2)] room_same [OF s f(2) conjunct1 [OF unchanged_shape [OF f(3)]]] by simp
  have o: "observed ?E t' q = observed ?E ?t q" for q
    by (rule observed_unchanged [OF x s f(2) conjunct2 [OF unchanged_shape [OF f(3)]]])
  from update_effect [OF x ok' room', of c0] obtain t2 where t2: "table_update ?E c0 (merged_row m delta) t' = Inr t2" "table_ok ?E t2"
    "\<And>q. observed ?E t2 q = (if key_eq ?E q (stored_key ?E t' (merged_row m delta)) then Some (hget (stored_row ?E t' (merged_row m delta)))
       else if pi_hash (e_ext ?E) q = pi_hash (e_ext ?E) (stored_key ?E t' (merged_row m delta)) \<or> pi_hash (e_ext ?E) q = pi_hash (e_ext ?E) c0
         then None else observed ?E t' q)" by blast
  let ?b = "emitted entity tbl ''UPDATE'' c0 delta t2 b"
  have "update_row cx w schema mysql_table qkey entity tbl pk_cols (pk, delta) (b, cache) = Inr (?b, cache)"
    using update_row_found [OF f(1) [unfolded r c(1)]] t2(1) by (simp add: table_err_def)
  moreover have "b_table ?b = t2" "b_applied ?b = b_applied b + 1" by (simp_all add: emitted_def)
  ultimately show ?thesis using c(2,3) t2(2,3) by (intro exI [of _ m] exI [of _ ?b]) (simp add: sh o)
qed

section \<open>A small mirror\<close>

definition short_row :: "row \<Rightarrow> bool" where
  "short_row row \<longleftrightarrow> row_over [''id'', ''v''] row \<and> list_all (\<lambda>(_, v). length v < 1000) row"

lemma short_row_get:
  assumes "short_row row" "f \<in> {''id'', ''v''}"
  obtains v where "hget row f = Some v" "length v < 1000" "hwf row"
proof -
  have h: "hwf row" using assms(1) by (simp add: short_row_def row_over_def)
  obtain v where v: "hget row f = Some v" using row_over_get [of "[''id'', ''v'']" row f] assms by (auto simp: short_row_def)
  then have "(f, v) \<in> set row" using h by (simp add: hget_Some_iff)
  with assms(1) have "length v < 1000" by (auto simp: short_row_def list_all_iff)
  with v h that show thesis by blast
qed

text \<open>A table of one row, with room for another.\<close>

lemma one_row_table:
  assumes "short_row row"
  shows "\<exists>t. table_insert small_env row small_table = Inr t \<and> table_ok small_env t \<and> flds_of t = [''id'', ''v''] \<and>
    pk_columns t = [''id''] \<and> (\<forall>q. observed small_env t q = (if q = hdefault [] (hget row ''id'') then Some (hget row) else None)) \<and>
    (\<forall>row2. short_row row2 \<longrightarrow> room_for small_env t row2)"
proof -
  have x: "str_layout (e_ext small_env)" using ascii_layout by (simp add: small_env_def)
  have fits: "row_over [''id'', ''v''] row" "list_all (\<lambda>(_, v). length v < 1000) row" using assms by (simp_all add: short_row_def)
  from insert_effect [OF x small_ok(1) small_fits [OF fits]] obtain t where
    t: "table_insert small_env row small_table = Inr t" "table_ok small_env t" "flds_of t = [''id'', ''v'']" "pk_columns t = [''id'']"
    "\<And>q. observed small_env t q = (if key_eq small_env q (hdefault [] (hget row ''id'')) then Some (hget row)
       else if pi_hash (e_ext small_env) q = pi_hash (e_ext small_env) (hdefault [] (hget row ''id'')) then None else None)"
    by (auto simp: small_shape small_cols small_ok(2))
  have a: "t_active small_table = Some (fresh_writer 0)" by (simp add: small_table_def manifest_new_def)
  have "t_active t = Some (append_record (e_ext small_env) row (fresh_writer 0))"
    using t(1) a small_shape(1) [of row]
    by (auto simp: table_insert_def Let_def stored_row_def draw_pk_def append_row_def small_table_def pidx.get_empty)
  moreover have "row_fits (e_ext small_env) [''id'', ''v''] (append_record (e_ext small_env) row (fresh_writer 0)) row2" if r2: "short_row row2" for row2
  proof -
    have "unat (s_record_count (w_segment (append_record (e_ext small_env) row (fresh_writer 0)))) = 1"
      by (simp add: fresh_writer_def segment_new_def)
    moreover have "case column_of (append_record (e_ext small_env) row (fresh_writer 0)) f of
        (_, _, n) \<Rightarrow> unat n + length (bincode_str (e_ext small_env) (the (hget row2 f))) < 2 ^ 63" if f: "f \<in> {''id'', ''v''}" for f
    proof -
      obtain v where v: "hget row f = Some v" "length v < 1000" "hwf row" by (rule short_row_get [OF assms f])
      obtain v2 where v2: "hget row2 f = Some v2" "length v2 < 1000" by (rule short_row_get [OF r2 f])
      from append_record_col [OF v(3,1) fresh_col, of "e_ext small_env" 0]
      have "col_holds (e_ext small_env) (append_record (e_ext small_env) row (fresh_writer 0)) f [v]" by simp
      then obtain a b n where c: "column_of (append_record (e_ext small_env) row (fresh_writer 0)) f = (a, b, n)"
        and n: "n = of_nat (length (col_data (e_ext small_env) [v]))"
        by (cases "column_of (append_record (e_ext small_env) row (fresh_writer 0)) f") (auto simp: col_holds_def)
      have l: "length (bincode_str (e_ext small_env) u) = 8 + length u" for u by (simp add: small_env_def ascii_ext_def)
      have "n = of_nat (8 + length v)" unfolding n by (simp add: col_data_def l)
      then have "unat n = 8 + length v" using v(2) by (simp only: unat_of_nat) (simp add: take_bit_nat_eq_self)
      with v(2) v2 show ?thesis by (simp add: c l)
    qed
    ultimately show ?thesis by (simp add: row_fits_def)
  qed
  ultimately have "room_for small_env t row2" if "short_row row2" for row2
    using that t(3,4) stored_shape [of t small_table small_env] by (simp add: room_for_def short_row_def small_shape small_cols)
  with t show ?thesis by (auto simp: small_key)
qed

definition small_worker :: worker where
  "small_worker = \<lparr>wk_entity = ''shop'', wk_database = ''shop'', wk_sync_all = False,
     wk_column_maps = [(''t'', [''id'', ''v''])], wk_date_columns = [], wk_enum_maps = [], wk_table_map_events = [],
     wk_flush_ticks = [], wk_flush_last = [], wk_table_allowlist = None, wk_schema_allowlist = None,
     wk_table_allowlist_source = None\<rparr>"

text \<open>Hydration is off: the server answers no query.\<close>

definition small_cx :: "(u128, postings) hmap cdc_ctx" where
  "small_cx = \<lparr>cx_env = small_env, cx_vars = (\<lambda>v. if v = ''BITTICE_CDC_SKIP_UPDATE_HYDRATE'' then Some ''1'' else None),
     cx_durability = Balanced, cx_utc = (\<lambda>_. None),
     cx_mysql = \<lparr>my_schema_names = (\<lambda>_. None), my_tables_like = (\<lambda>_ _. None), my_select_row = (\<lambda>_. None),
       my_describe = (\<lambda>_. None), my_columns = (\<lambda>_ _. None), my_primary_key = (\<lambda>_ _. None), my_select_all = (\<lambda>_. None),
       my_debug = (\<lambda>_. [])\<rparr>,
     cx_dirs = (\<lambda>_. []), cx_now = 0, cx_uuid = plain_uuid, cx_master_gtid = False, cx_unix_ms = 0\<rparr>"

definition small_image :: "string \<Rightarrow> string \<Rightarrow> image" where
  "small_image k v = Some \<lparr>mr_columns = [''id'', ''v''], mr_values = [Some (VBytes k), Some (VBytes v)]\<rparr>"

definition ascii_text :: "string \<Rightarrow> bool" where
  "ascii_text s \<longleftrightarrow> list_all graphic s"

lemma ascii_lossy: "ascii_text s \<Longrightarrow> from_utf8_lossy s = s"
proof -
  have "list_all graphic s \<Longrightarrow> utf8_valid s"
  proof (induction s)
    case (Cons c s)
    then show ?case by (simp add: utf8_valid.simps [of "c # s"] utf8_head_def graphic_def)
  qed (simp add: utf8_valid.simps)
  then show "ascii_text s \<Longrightarrow> from_utf8_lossy s = s" by (simp add: ascii_text_def from_utf8_lossy_valid)
qed

lemma small_parse:
  assumes "ascii_text k" "ascii_text v" "k \<noteq> []"
  shows "parse_image small_cx small_worker ''t'' (small_image k v) = Inr [(''id'', k), (''v'', v)]"
    "row_pk_from_parsed_row [(''id'', k), (''v'', v)] [''id''] = Some k"
  using assms trim_graphic [of k]
  by (simp_all add: parse_image_def small_cx_def small_image_def parse_row_def small_worker_def hget_Cons parse_cell_def Let_def
      upt_rec ascii_lossy cell_text_def translate_enum_def translate_timestamp_def add_date_parts_def hput_def
      row_pk_from_parsed_row_def ascii_text_def)

lemma short_pair: "length k < 1000 \<Longrightarrow> length v < 1000 \<Longrightarrow> utf8_valid k \<Longrightarrow> utf8_valid v \<Longrightarrow> short_row [(''id'', k), (''v'', v)]"
  by (auto simp: short_row_def row_over_def hwf_Cons)

lemma short_row_cong: "hwf row \<Longrightarrow> hget row = hget row' \<Longrightarrow> short_row row' \<Longrightarrow> short_row row"
proof -
  assume h: "hwf row" "hget row = hget row'" "short_row row'"
  then have h': "hwf row'" by (simp add: short_row_def row_over_def)
  have "set row = set row'"
  proof (intro set_eqI)
    fix p show "p \<in> set row \<longleftrightarrow> p \<in> set row'"
      using h(2) hget_Some_iff [OF h(1), of "fst p" "snd p"] hget_Some_iff [OF h', of "fst p" "snd p"] by simp
  qed
  with h show "short_row row" by (simp add: short_row_def row_over_def list_all_iff)
qed

section \<open>Rows of an update\<close>

lemma put_sliced_hwf: "put_sliced k v m = Inr m' \<Longrightarrow> hwf m \<Longrightarrow> hwf m'"
  by (auto simp: put_sliced_def split: option.splits sliced.splits)

lemma add_date_parts_hwf: "add_date_parts d c v m = Inr m' \<Longrightarrow> hwf m \<Longrightarrow> hwf m'"
  by (auto simp: add_date_parts_def rbind_Inr_iff split: if_splits option.splits dest!: put_sliced_hwf)

lemma parse_row_hwf:
  assumes "parse_row utc w r qkey = Inr m"
  shows "hwf m"
proof -
  have "hwf m'" if "fold_r (parse_cell utc w cols qkey r) is m0 = Inr m'" "hwf m0" for cols "is" m0 m'
    using that by (induction "is" arbitrary: m0) (auto simp: rbind_Inr_iff parse_cell_def Let_def dest!: add_date_parts_hwf)
  then show ?thesis using assms by (auto simp: parse_row_def split: option.splits)
qed

lemma parse_image_hwf: "parse_image cx w qkey im = Inr m \<Longrightarrow> hwf m"
  by (auto simp: parse_image_def parse_row_hwf split: option.splits)

lemma fill_key_hwf: "hwf delta \<Longrightarrow> hwf (fill_key before_map cols delta)"
  unfolding fill_key_def by (induction cols arbitrary: delta) (auto simp: Let_def split: option.splits)

lemma deltas_hwf:
  "extract_binlog_update_deltas cx w qkey pk_cols rows = Inr ds \<Longrightarrow> (pk, delta) \<in> set ds \<Longrightarrow> hwf delta"
proof (induction cx w qkey pk_cols rows arbitrary: ds rule: extract_binlog_update_deltas.induct)
  case (2 cx w qkey pk_cols pair rows)
  show ?case
  proof (cases "\<exists>before after. pair = Some (before, Some after)")
    case False
    with 2 show ?thesis by (cases pair) (auto split: option.splits)
  next
    case True
    then obtain before after where p: "pair = Some (before, Some after)" by blast
    with 2(2) obtain d1 d where d1: "parse_image cx w qkey after = Inr d1"
      and d: "(case before of None \<Rightarrow> Inr d1
        | Some im \<Rightarrow> rbind (parse_image cx w qkey im) (\<lambda>before_map. Inr (fill_key before_map pk_cols d1))) = Inr d"
      and r: "(case row_pk_from_parsed_row d pk_cols of None \<Rightarrow> extract_binlog_update_deltas cx w qkey pk_cols rows
        | Some pk_val \<Rightarrow> rbind (extract_binlog_update_deltas cx w qkey pk_cols rows) (\<lambda>ds. Inr ((pk_val, d) # ds))) = Inr ds"
      by (auto simp: rbind_Inr_iff Let_def)
    have "hwf d1" by (rule parse_image_hwf [OF d1])
    then have "hwf d" using d fill_key_hwf by (auto simp: rbind_Inr_iff split: option.splits)
    with r 2(1) 2(3) show ?thesis by (auto simp: rbind_Inr_iff split: option.splits)
  qed
qed simp

lemma hget_merged: "hwf delta \<Longrightarrow> hget (merged_row m delta) k = (case hget delta k of Some v \<Rightarrow> Some v | None \<Rightarrow> hget m k)"
proof -
  have "hwf delta \<Longrightarrow> hget (fold (\<lambda>(k, v). hput k v) delta m) k = (case hget delta k of Some v \<Rightarrow> Some v | None \<Rightarrow> hget m k)"
  proof (induction delta arbitrary: m)
    case (Cons kv delta)
    obtain a b where kv: "kv = (a, b)" by (cases kv)
    with Cons.prems have d: "hwf delta" "hget delta a = None" by (simp_all add: hwf_Cons hget_None_iff)
    from Cons.IH [OF d(1), of "hput a b m"] d(2) show ?case by (simp add: kv hget_Cons split: option.split)
  qed simp
  then show "hwf delta \<Longrightarrow> ?thesis" by (simp add: merged_row_def)
qed

text \<open>An image that shows the whole key is not changed by the one before.\<close>

lemma pk_parts_col: "pk_parts data cols = Some ps \<Longrightarrow> c \<in> set cols \<Longrightarrow> \<exists>v. hget data c = Some v \<and> trim v \<noteq> []"
  by (induction cols arbitrary: ps) (auto split: option.splits if_splits)

lemma fill_key_whole:
  assumes "row_pk_from_parsed_row data cols = Some pk"
  shows "fill_key before_map cols data = data"
proof -
  have "\<exists>v. hget data c = Some v \<and> trim v \<noteq> []" if "c \<in> set cols" for c
    using assms that pk_parts_col [of data cols]
    by (cases "length cols = 1 \<and> cols ! 0 = ''PK''")
      (auto simp: row_pk_from_parsed_row_def bind_eq_Some_conv length_Suc_conv split: if_splits)
  then show ?thesis
    unfolding fill_key_def
  proof (induction cols)
    case (Cons a cols)
    from Cons.prems [of a] obtain v where "hget data a = Some v" "trim v \<noteq> []" by auto
    with Cons show ?case by simp
  qed simp
qed

lemma one_delta:
  assumes "re_rows ev = [Some (Some before, Some after)]" "parse_image cx w qkey before = Inr old" "parse_image cx w qkey after = Inr new"
    and "row_pk_from_parsed_row new pk_cols = Some pk"
  shows "extract_binlog_update_deltas cx w qkey pk_cols (re_rows ev) = Inr [(pk, new)]"
  using assms fill_key_whole [OF assms(4)] by simp

lemma update_batch:
  assumes "re_kind ev = UpdateRows" "extract_binlog_update_deltas cx w qkey pk_cols (re_rows ev) = Inr [(pk, delta)]"
    and "update_row cx w schema table_name qkey entity mirror_table pk_cols (pk, delta) (\<lparr>b_table = t, b_events = [], b_applied = 0\<rparr>, []) = Inr (b, cache)"
  shows "apply_rows cx w ev schema table_name qkey entity mirror_table pk_cols t = Inr b"
  using assms by (simp add: apply_rows_def apply_binlog_update_deltas_def)

section \<open>Properties\<close>

text \<open>C16: The mirror of a table follows the binlog. A batch of row events that writes or deletes is a sequence of
  operations on the map from keys to rows: a written row replaces whatever the key had, whether the row was there (a
  replayed event, a \<open>REPLACE\<close>) or not, a deleted key has no row, rows without a key are skipped. On a consistent table
  with room for the rows the batch succeeds, the table stays consistent, \<open>get_row_as_map\<close> answers what the sequence
  means on the map, and exactly one event is sent to the subscribers for each operation, with its key.\<close>

theorem cdc_batch_refines_map:
  assumes "store_ok (cx_env cx) K t" "re_kind ev \<noteq> UpdateRows" "event_ops cx w qkey pk_cols ev = Inr ops"
    "all_ready (cdc_op (cx_env cx)) (cdc_ready (cx_env cx) K) ops t"
  shows "\<exists>b. apply_rows cx w ev schema table_name qkey entity mirror_table pk_cols t = Inr b \<and> store_ok (cx_env cx) K (b_table b) \<and>
    b_applied b = length (b_events b) \<and> map ue_pk (b_events b) = map op_pk (filter (\<lambda>p. p \<noteq> Turn) ops) \<and>
    (\<forall>k\<in>K. observed (cx_env cx) (b_table b) k =
      fold (apply_op (\<lambda>(pk, data). stored_key (cx_env cx) t data) (\<lambda>(pk, data). hget (stored_row (cx_env cx) t data))
        (key_eq (cx_env cx))) ops (observed (cx_env cx) t) k)"
proof -
  from cstore.run_obs [OF assms(1,4), of "observed (cx_env cx) t"] obtain t' where
    t': "fold_r (cdc_op (cx_env cx)) ops t = Inr t'" "store_ok (cx_env cx) K t'"
    "\<forall>k\<in>K. observed (cx_env cx) t' k =
      fold (apply_op (\<lambda>(pk, data). stored_key (cx_env cx) t data) (\<lambda>(pk, data). hget (stored_row (cx_env cx) t data))
        (key_eq (cx_env cx))) ops (observed (cx_env cx) t) k" by auto
  have "\<exists>b. apply_rows cx w ev schema table_name qkey entity mirror_table pk_cols t = Inr b \<and> b_table b = t' \<and>
    b_applied b = length (b_events b) \<and> map ue_pk (b_events b) = map op_pk (filter (\<lambda>p. p \<noteq> Turn) ops)"
  proof (cases "re_kind ev")
    case WriteRows
    with assms(3) obtain os where o: "image_ops (parse_image cx w qkey) pk_cols (\<lambda>pk data. Put (pk, data))
        (List.map_filter written_image (re_rows ev)) = Inr os" "ops = os @ (if os = [] then [] else [Turn])"
      by (auto simp: event_ops_def rbind_Inr_iff)
    have "filter (\<lambda>p. p \<noteq> Turn) os = os" by (rule image_ops_kind [OF o(1)]) simp
    with write_batch_runs [OF o(1) t'(1) [unfolded o(2)], of entity mirror_table] WriteRows o(2) show ?thesis
      by (auto simp: apply_rows_def)
  next
    case DeleteRows
    with assms(3) have o: "image_ops (parse_image cx w qkey) pk_cols (\<lambda>pk data. Del pk)
        (List.map_filter deleted_image (re_rows ev)) = Inr ops" by (simp add: event_ops_def)
    let ?b = "\<lparr>b_table = t, b_events = [], b_applied = 0\<rparr>"
    have "fold_r (cdc_op (cx_env cx)) ops (b_table ?b) = Inr t'" using t'(1) by simp
    from deleted_runs [OF o this] obtain b where b: "fold_r (delete_row cx w qkey entity mirror_table pk_cols) (re_rows ev) ?b = Inr b"
      "batch_to ?b ops t' b" by blast
    have "filter (\<lambda>p. p \<noteq> Turn) ops = ops" by (rule image_ops_kind [OF o]) simp
    with b batch_applied [OF b(2)] DeleteRows show ?thesis by (simp add: apply_rows_def apply_binlog_delete_rows_def)
  qed (use assms(2) in simp)
  with t' show ?thesis by blast
qed

theorem cdc_batch_refines_map_witness:
  "\<exists>b. apply_rows small_cx small_worker \<lparr>re_kind = WriteRows, re_table_id = 1, re_tme = None,
      re_rows = [Some (None, Some (small_image ''1'' ''a'')), None]\<rparr> ''shop'' ''t'' ''t'' ''shop'' ''t'' [''id''] small_table = Inr b \<and>
    b_applied b = 1 \<and> map ue_pk (b_events b) = [''1''] \<and> observed small_env (b_table b) ''1'' = Some (hget [(''id'', ''1''), (''v'', ''a'')])"
proof -
  have g: "ascii_text ''1''" "ascii_text ''a''" by (simp_all add: ascii_text_def graphic_def bval_def)
  let ?ev = "\<lparr>re_kind = WriteRows, re_table_id = 1, re_tme = None, re_rows = [Some (None, Some (small_image ''1'' ''a'')), None]\<rparr>"
  have e: "event_ops small_cx small_worker ''t'' [''id''] ?ev = Inr [Put (''1'', [(''id'', ''1''), (''v'', ''a'')]), Turn]"
    using small_parse [OF g] by (simp add: event_ops_def map_filter_Cons)
  have E: "cx_env small_cx = small_env" by (simp add: small_cx_def)
  have c: "collision_free small_env {''1''}" by (simp add: collision_free_def small_key)
  have r: "room_for small_env small_table [(''id'', ''1''), (''v'', ''a'')]"
    by (rule small_fits) (auto simp: row_over_def hwf_Cons utf8_valid.simps utf8_head_def bval_def)
  have a: "all_ready (cdc_op (cx_env small_cx)) (cdc_ready (cx_env small_cx) {''1''})
      [Put (''1'', [(''id'', ''1''), (''v'', ''a'')]), Turn] small_table"
    unfolding E using r by (simp add: cdc_ready_def small_shape small_key hget_Cons split: sum.split)
  from cdc_batch_refines_map [OF small_store [OF c, folded E] _ e a] show ?thesis
    unfolding E by (fastforce simp: small_shape small_key hget_Cons)
qed



text \<open>An update that changes the key of a row leaves the row under its old key. The mirror looks for the row under the new key;
  if it has none there, the row is fetched from the server or, without hydration, the update is skipped: in both cases the
  mirror still shows the row under the old key, which the server no longer has.\<close>

theorem key_change_leaves_old_row:
  assumes "str_layout (e_ext (cx_env cx))" "table_ok (cx_env cx) t" "re_kind ev = UpdateRows" "re_rows ev = [Some (Some before, Some after)]"
    and "parse_image cx w qkey before = Inr old" "parse_image cx w qkey after = Inr new"
    and "row_pk_from_parsed_row old pk_cols = Some old_pk" "row_pk_from_parsed_row new pk_cols = Some new_pk"
    and "pi_hash (e_ext (cx_env cx)) old_pk \<noteq> pi_hash (e_ext (cx_env cx)) new_pk"
    and "\<forall>c\<in>set (lookup_candidates new_pk). c = [] \<or> observed (cx_env cx) t c = None"
    and "\<forall>m. hydrated cx w schema table_name qkey pk_cols new_pk = Some m \<longrightarrow> room_for (cx_env cx) t (merged_row m new) \<and>
      key_eq (cx_env cx) new_pk (stored_key (cx_env cx) t (merged_row m new))"
  shows "\<exists>b. apply_rows cx w ev schema table_name qkey entity mirror_table pk_cols t = Inr b \<and> table_ok (cx_env cx) (b_table b) \<and>
    observed (cx_env cx) (b_table b) old_pk = observed (cx_env cx) t old_pk \<and>
    (hydrated cx w schema table_name qkey pk_cols new_pk = None \<longrightarrow> b_applied b = 0)"
proof -
  let ?E = "cx_env cx" and ?b = "\<lparr>b_table = t, b_events = [], b_applied = 0\<rparr>"
  note x = assms(1)
  from assms(2) obtain A B where s: "store_rep ?E t A B" by (auto simp: table_ok_def)
  from first_found_effect [OF x s, of "lookup_candidates new_pk"] obtain r t' where f: "first_found ?E (lookup_candidates new_pk) t = Inr (r, t')"
    "store_rep ?E t' A B" "unchanged t t'"
    "case r of Some (m, c) \<Rightarrow> c \<in> set (lookup_candidates new_pk) \<and> hwf m \<and> observed ?E t c = Some (hget m)
     | None \<Rightarrow> \<forall>c\<in>set (lookup_candidates new_pk). c = [] \<or> observed ?E t c = None" by blast
  have skip: "first_found ?E cs u = Inr (Some (m, c), u') \<Longrightarrow> c \<noteq> []" for cs u m c u'
    by (induction cs arbitrary: u) (auto split: if_splits sum.splits option.splits)
  have "r = None"
  proof (cases r)
    case (Some mc)
    obtain m c where "mc = (m, c)" by (cases mc)
    with Some f(1,4) skip assms(10) show ?thesis by fastforce
  qed
  then have f': "first_found ?E (lookup_candidates new_pk) (b_table ?b) = Inr (None, t')" using f(1) by simp
  note sh = manifest_shape [OF conjunct1 [OF unchanged_shape [OF f(3)]], of ?E]
  have o: "observed ?E t' q = observed ?E t q" for q
    by (rule observed_unchanged [OF x s f(2) conjunct2 [OF unchanged_shape [OF f(3)]]])
  have ok': "table_ok ?E t'" using f(2) by (auto simp: table_ok_def)
  note batch = update_batch [OF assms(3) one_delta [OF assms(4-6,8)]]
  show ?thesis
  proof (cases "hydrated cx w schema table_name qkey pk_cols new_pk")
    case None
    then have "update_row cx w schema table_name qkey entity mirror_table pk_cols (new_pk, new) (?b, []) = Inr (?b\<lparr>b_table := t'\<rparr>, [])"
      by (simp add: update_row_missing [OF f'])
    from batch [OF this] ok' o None show ?thesis by simp
  next
    case (Some m)
    with assms(11) have k: "room_for ?E t (merged_row m new)" "key_eq ?E new_pk (stored_key ?E t (merged_row m new))" by simp_all
    have room': "room_for ?E t' (merged_row m new)"
      using k(1) room_same [OF s f(2) conjunct1 [OF unchanged_shape [OF f(3)]]] by simp
    from update_effect [OF x ok' room', of new_pk] obtain t2 where t2: "table_update ?E new_pk (merged_row m new) t' = Inr t2" "table_ok ?E t2"
      "\<And>q. observed ?E t2 q = (if key_eq ?E q (stored_key ?E t' (merged_row m new)) then Some (hget (stored_row ?E t' (merged_row m new)))
         else if pi_hash (e_ext ?E) q = pi_hash (e_ext ?E) (stored_key ?E t' (merged_row m new)) \<or> pi_hash (e_ext ?E) q = pi_hash (e_ext ?E) new_pk
           then None else observed ?E t' q)" by blast
    let ?b2 = "emitted entity mirror_table ''UPDATE'' new_pk new t2 ?b"
    have "update_row cx w schema table_name qkey entity mirror_table pk_cols (new_pk, new) (?b, []) = Inr (?b2, hput new_pk m [])"
      using Some t2(1) by (simp add: update_row_missing [OF f'] table_err_def)
    moreover have "observed ?E t2 old_pk = observed ?E t old_pk"
      using t2(3) [of old_pk] assms(9) key_eq_hash [OF k(2)] key_eq_hash [of ?E old_pk "stored_key ?E t (merged_row m new)"]
      by (auto simp: sh o)
    ultimately show ?thesis using batch t2(2) Some by (intro exI [of _ ?b2]) (simp add: emitted_def)
  qed
qed

theorem key_change_leaves_old_row_witness:
  "\<exists>t b. table_insert small_env [(''id'', ''1''), (''v'', ''a'')] small_table = Inr t \<and>
    apply_rows small_cx small_worker \<lparr>re_kind = UpdateRows, re_table_id = 1, re_tme = None,
      re_rows = [Some (Some (small_image ''1'' ''a''), Some (small_image ''2'' ''a''))]\<rparr> ''shop'' ''t'' ''t'' ''shop'' ''t'' [''id''] t = Inr b \<and>
    b_applied b = 0 \<and> observed small_env (b_table b) ''1'' = Some (hget [(''id'', ''1''), (''v'', ''a'')])"
proof -
  have g: "ascii_text ''1''" "ascii_text ''a''" "ascii_text ''2''" by (simp_all add: ascii_text_def graphic_def bval_def)
  let ?ev = "\<lparr>re_kind = UpdateRows, re_table_id = 1, re_tme = None,
      re_rows = [Some (Some (small_image ''1'' ''a''), Some (small_image ''2'' ''a''))]\<rparr>"
  have E: "cx_env small_cx = small_env" by (simp add: small_cx_def)
  have x: "str_layout (e_ext (cx_env small_cx))" unfolding E using ascii_layout by (simp add: small_env_def)
  have sh: "short_row [(''id'', ''1''), (''v'', ''a'')]" by (rule short_pair) (simp_all add: utf8_valid.simps utf8_head_def bval_def)
  from one_row_table [OF sh] obtain t where t: "table_insert small_env [(''id'', ''1''), (''v'', ''a'')] small_table = Inr t"
    "table_ok small_env t" "\<And>q. observed small_env t q = (if q = ''1'' then Some (hget [(''id'', ''1''), (''v'', ''a'')]) else None)"
    by (auto simp: hget_Cons)
  have ok: "table_ok (cx_env small_cx) t" unfolding E by (rule t(2))
  have k: "re_kind ?ev = UpdateRows" "re_rows ?ev = [Some (Some (small_image ''1'' ''a''), Some (small_image ''2'' ''a''))]" by simp_all
  have hash: "pi_hash (e_ext (cx_env small_cx)) ''1'' \<noteq> pi_hash (e_ext (cx_env small_cx)) ''2''"
    unfolding E by (simp add: pi_hash_def small_env_def ascii_ext_def canonical_bytes_def from_le128_def bval_def)
  have c: "lookup_candidates ''2'' = [''2'']"
    by (simp add: lookup_candidates_def parse_i64_def parse_unsigned_def is_digit_def bval_def digits_val_def digit_val_def show_int_def
        show_nat.simps [of 2])
  have none: "\<forall>c\<in>set (lookup_candidates ''2''). c = [] \<or> observed (cx_env small_cx) t c = None" unfolding E c by (simp add: t(3))
  have "trim ''1'' = ''1''" by (rule trim_graphic) (use g(1) in \<open>simp add: ascii_text_def\<close>)
  then have h: "hydrated small_cx small_worker ''shop'' ''t'' ''t'' [''id''] ''2'' = None"
    by (simp add: hydrated_def cdc_update_hydrate_enabled_def env_truthy_def small_cx_def ascii_lower_def bval_def)
  from key_change_leaves_old_row [OF x ok k small_parse(1) [OF g(1,2)] small_parse(1) [OF g(3,2)] small_parse(2) [OF g(1,2)]
      small_parse(2) [OF g(3,2)] hash none, of "''shop''" "''t''" "''shop''" "''t''"] h t(1,3)
  show ?thesis unfolding E by auto
qed

end
