(* ===== verification/Cdc_Stream.thy ===== *)
theory Cdc_Stream
  imports Cdc_Rows Table_Compact
begin

text \<open>
  Change data capture (\<^verbatim>\<open>src/core/cdc/mod.rs\<close>), third part: the handling of a rows event over the table manager,
  the copy of a table from the server, and the loop over the events of the binlog with its checkpoints.
\<close>

text \<open>\<open>cr_saved\<close> is the content of the checkpoint file, \<open>cr_since_save\<close> counts the events since it was written at the
  time \<open>cr_saved_at\<close> (milliseconds); \<open>cr_last_compact\<close> is the time of the last compaction of a table.\<close>

record 'c cdc_run =
  cr_worker :: worker
  cr_manager :: "'c manager"
  cr_state :: cdc_state
  cr_events :: "update_event list"
  cr_last_compact :: "(string, nat) hmap"
  cr_saved :: "cdc_state option"
  cr_since_save :: u32
  cr_saved_at :: nat

section \<open>Rows events\<close>

definition resolve_rows_table_map :: "worker \<Rightarrow> rows_event \<Rightarrow> cdc_error + table_map" where
  "resolve_rows_table_map w ev =
     (case re_tme ev of
        Some tm \<Rightarrow> Inr tm
      | None \<Rightarrow> ok_or (MissingTableMap (re_table_id ev)) (hget (wk_table_map_events w) (re_table_id ev)))"

text \<open>At most one automatic compaction of a table in 15 minutes. A failure is only reported; the table is then as
  the flush of its active segment left it.\<close>

definition maybe_auto_compact_after_update ::
  "'c cdc_ctx \<Rightarrow> string \<Rightarrow> 'c table \<Rightarrow> (string, nat) hmap \<Rightarrow> cdc_error + 'c table \<times> (string, nat) hmap" where
  "maybe_auto_compact_after_update cx key t last_run =
     (let E = cx_env cx; segs = immutable_segment_count t in
      if segs < 20 then Inr (t, last_run)
      else if segs \<le> min (live_row_count t * 4) (2 ^ 64 - 1) then Inr (t, last_run)
      else if (case hget last_run key of Some prev \<Rightarrow> cx_now cx - prev < 900000 | None \<Rightarrow> False) then Inr (t, last_run)
      else let last_run = hput key (cx_now cx) last_run in
        case compact E t of
          Inr (removed, t) \<Rightarrow> Inr (t, last_run)
        | Inl e \<Rightarrow>
            if e = Panic then Inl (TableErr Panic)
            else Inr (case (if 0 < active_segment_row_count t then flush_active_segment E t else Inr t) of
                Inr t \<Rightarrow> t | Inl _ \<Rightarrow> t, last_run))"

definition env_u64 :: "vars \<Rightarrow> string \<Rightarrow> nat \<Rightarrow> nat" where
  "env_u64 vars v d = usize_or d (vars v)"

text \<open>Whether the buffers of a table are flushed after a batch: every \<open>n_flush\<close> batches, after a large batch, and when
  the last flush is too long ago.\<close>

definition buffer_flush_due :: "'c cdc_ctx \<Rightarrow> nat \<Rightarrow> string \<Rightarrow> worker \<Rightarrow> bool \<times> worker" where
  "buffer_flush_due cx applied k w =
     (let n_flush = mirror_flush_every_n_batches (cx_vars cx) (cx_durability cx);
          max_interval = max (env_u64 (cx_vars cx) ''BITTICE_CDC_FLUSH_MAX_INTERVAL_SECS'' 30) 1 in
      if n_flush \<le> 1 then (True, w)
      else
        let t = hdefault 0 (hget (wk_flush_ticks w) k); t = (if t = - 1 then t else t + 1);
            batch_trigger = (n_flush \<le> unat t \<or> 10000 \<le> applied);
            prev = hdefault (cx_now cx) (hget (wk_flush_last w) k);
            time_trigger = (max_interval * 1000 \<le> cx_now cx - prev);
            w = w\<lparr>wk_flush_last := hput k prev (wk_flush_last w)\<rparr> in
        if batch_trigger \<or> time_trigger then (True, w\<lparr>wk_flush_ticks := hput k 0 (wk_flush_ticks w)\<rparr>)
        else (False, w\<lparr>wk_flush_ticks := hput k t (wk_flush_ticks w)\<rparr>))"

text \<open>After a batch that applied rows: the segment is rotated when it is full, else its buffers are flushed when due.\<close>

definition flush_after_batch :: "'c cdc_ctx \<Rightarrow> string \<Rightarrow> nat \<Rightarrow> 'c table \<Rightarrow> worker \<Rightarrow> cdc_error + 'c table \<times> worker" where
  "flush_after_batch cx k applied t w =
     (let cdc_seg_max = env_u64 (cx_vars cx) ''BITTICE_CDC_SEGMENT_MAX_ROWS'' 50000 in
      if cdc_seg_max \<le> unat (active_segment_row_count t)
      then rbind (table_err (flush_active_segment (cx_env cx) t)) (\<lambda>t. Inr (t, w))
      else
        let (due, w) = buffer_flush_due cx applied k w in
        if due then Inr (flush_active_segment_buffers (cx_env cx) t, w\<lparr>wk_flush_last := hput k (cx_now cx) (wk_flush_last w)\<rparr>)
        else Inr (t, w))"

fun op_label :: "rows_kind \<Rightarrow> string" where
  "op_label WriteRows = ''INSERT''"
| "op_label UpdateRows = ''UPDATE''"
| "op_label DeleteRows = ''DELETE''"

text \<open>The key columns of the checkpoint replace those of the manifest.\<close>

definition set_key_columns :: "string list \<Rightarrow> 'c table \<Rightarrow> 'c table" where
  "set_key_columns pk_cols t =
     t\<lparr>t_manifest := (t_manifest t)\<lparr>m_primary_key_columns := pk_cols,
        m_primary_key := (case pk_cols of c # _ \<Rightarrow> c | [] \<Rightarrow> ''PK'')\<rparr>\<rparr>"

definition batch_summary :: "rows_event \<Rightarrow> string \<Rightarrow> string \<Rightarrow> string \<Rightarrow> nat \<Rightarrow> cdc_state \<Rightarrow> string" where
  "batch_summary ev schema table_name qkey applied st =
     op_label (re_kind ev) @ '' '' @ schema @ ''.'' @ table_name @ '' qkey='' @ qkey @ '' rows='' @ show_nat applied @
     '' @ '' @ cs_binlog_file st @ '':'' @ show_nat (unat (cs_binlog_pos st))"

definition after_batch ::
  "'c cdc_ctx \<Rightarrow> rows_event \<Rightarrow> string \<Rightarrow> string \<Rightarrow> nat \<Rightarrow> 'c table \<Rightarrow> 'c cdc_run \<Rightarrow> cdc_error + 'c table \<times> 'c cdc_run" where
  "after_batch cx ev entity mirror_table applied t r =
     (let mg = mark_dirty entity mirror_table (cr_manager r);
          is_ops_table = (mg_query_priority_keys mg = None \<or> is_query_priority_table mg entity mirror_table);
          mg = (if is_ops_table then mark_cdc_active entity mirror_table mg else mg);
          k = table_key entity mirror_table in
      rbind (flush_after_batch cx k applied t (cr_worker r)) (\<lambda>(t, w).
      rbind (if re_kind ev = UpdateRows then maybe_auto_compact_after_update cx k t (cr_last_compact r)
             else Inr (t, cr_last_compact r)) (\<lambda>(t, last_compact).
        Inr (t, r\<lparr>cr_manager := mg, cr_worker := w, cr_last_compact := last_compact\<rparr>))))"

definition handle_rows_event :: "'c cdc_ctx \<Rightarrow> rows_event \<Rightarrow> 'c cdc_run \<Rightarrow> cdc_error + 'c cdc_run" where
  "handle_rows_event cx ev r =
     (let x = e_ext (cx_env cx); w = cr_worker r in
      rbind (resolve_rows_table_map w ev) (\<lambda>tm.
      let schema = tm_schema tm; table_name = tm_table tm in
      if wk_sync_all w \<and> is_system_schema x schema then Inr r
      else if is_out_of_scope_binlog_schema x w schema then Inr r
      else
        let entity = disk_entity x w schema in
        case resolve_cdc_table_keys x (wk_sync_all w) schema table_name (wk_column_maps w) of
          None \<Rightarrow> Inr r
        | Some qkey \<Rightarrow>
            let mirror_table = resolve_mirror_table_dir x (cx_dirs cx entity) table_name in
            case get_table (cx_env cx) entity mirror_table (cr_manager r) of
              Inl e \<Rightarrow> if e = Panic then Inl (TableErr Panic) else Inr r
            | Inr (t, mg) \<Rightarrow>
                let pk_cols = pk_columns_from_state (cs_pk_map (cr_state r)) qkey; t = set_key_columns pk_cols t in
                rbind (apply_rows cx w ev schema table_name qkey entity mirror_table pk_cols t) (\<lambda>b.
                let r = r\<lparr>cr_manager := mg, cr_events := cr_events r @ b_events b\<rparr>; applied = b_applied b in
                rbind (if 0 < applied then after_batch cx ev entity mirror_table applied (b_table b) r else Inr (b_table b, r)) (\<lambda>(t, r).
                  let st = (if 0 < applied then
                      (cr_state r)\<lparr>cs_last_mirror_batch_unix_ms := Some (cx_unix_ms cx),
                        cs_last_mirror_batch := Some (batch_summary ev schema table_name qkey applied (cr_state r))\<rparr>
                    else cr_state r) in
                  Inr (r\<lparr>cr_manager := put_table entity mirror_table t (cr_manager r), cr_state := st\<rparr>)))))"

section \<open>Copying a table\<close>

datatype bootstrap_mode = FullSnapshot | SchemaOnly

text \<open>The text of a cell of \<^verbatim>\<open>SELECT *\<close>. Of a number printed for debugging only what is between the parentheses is kept.\<close>

definition inside_parens :: "string \<Rightarrow> string" where
  "inside_parens s =
     (if starts_with s ''Int('' \<or> starts_with s ''UInt('' then
        (case split_once CHR ''('' s of
           Some (_, rest) \<Rightarrow> (case split_once CHR '')'' rest of Some (a, _) \<Rightarrow> a | None \<Rightarrow> s)
         | None \<Rightarrow> s)
      else s)"

definition snapshot_text :: "mysql \<Rightarrow> mysql_value option \<Rightarrow> string" where
  "snapshot_text my c = inside_parens (case hdefault VNull c of
       VNull \<Rightarrow> []
     | VBytes b \<Rightarrow> from_utf8_lossy b
     | VDate y m d h mi s ms \<Rightarrow> cell_text (Some (VDate y m d h mi s ms))
     | v \<Rightarrow> my_debug my v)"

definition snapshot_cell :: "mysql \<Rightarrow> string set \<Rightarrow> mysql_value option list \<Rightarrow> nat \<times> string \<Rightarrow> row \<Rightarrow> cdc_error + row" where
  "snapshot_cell my dates r ic data =
     (case ic of (i, col_name) \<Rightarrow>
        let val_str = snapshot_text my (if i < length r then r ! i else None) in
        rbind (add_date_parts (col_name \<in> dates) col_name val_str data) (\<lambda>data. Inr (hput col_name val_str data)))"

text \<open>The rows are inserted, and the active segment is rotated after every \<open>n\<close>th; \<open>n = 0\<close> is a division by zero.\<close>

fun copy_snapshot_rows ::
  "'c cdc_ctx \<Rightarrow> string list \<Rightarrow> string set \<Rightarrow> nat \<Rightarrow> nat \<Rightarrow> mysql_value option list list \<Rightarrow> 'c table \<Rightarrow> cdc_error + 'c table" where
  "copy_snapshot_rows cx cols dates n k [] t = Inr t"
| "copy_snapshot_rows cx cols dates n k (r # rs) t =
     rbind (fold_r (snapshot_cell (cx_mysql cx) dates r) (zip [0 ..< length cols] cols) []) (\<lambda>data.
     rbind (table_err (table_insert (cx_env cx) data t)) (\<lambda>t.
     let k = k + 1 in
     if n = 0 then Inl (TableErr Panic)
     else rbind (if k mod n = 0 then table_err (flush_active_segment (cx_env cx) t) else Inr t) (\<lambda>t.
       copy_snapshot_rows cx cols dates n k rs t)))"

text \<open>The key of a table: the primary key of the server, else the first column that looks like an identifier.\<close>

definition choose_key :: "string list \<Rightarrow> string list \<Rightarrow> string list" where
  "choose_key pk_cols cols =
     (if pk_cols \<noteq> [] then pk_cols
      else case find (\<lambda>c. ends_with c ''_id'' \<or> c = ''id'') cols of Some c \<Rightarrow> [c] | None \<Rightarrow> [])"

definition bootstrap_rows ::
  "'c cdc_ctx \<Rightarrow> string \<Rightarrow> string \<Rightarrow> bootstrap_mode \<Rightarrow> string list \<Rightarrow> string set \<Rightarrow> 'c table \<Rightarrow> cdc_error + 'c table" where
  "bootstrap_rows cx schema_mysql table_name mode cols dates t =
     rbind (case mode of
         FullSnapshot \<Rightarrow>
           let segment_max_rows = env_u64 (cx_vars cx) ''BITTICE_BOOTSTRAP_SEGMENT_MAX_ROWS'' 50000 in
           rbind (ok_or Query (my_select_all (cx_mysql cx) (''SELECT * FROM '' @ qualified_schema_table schema_mysql table_name))) (\<lambda>rows.
             copy_snapshot_rows cx cols dates segment_max_rows 0 rows (prepare_for_full_snapshot (cx_env cx) t))
       | SchemaOnly \<Rightarrow> Inr t) (\<lambda>t. table_err (flush_active_segment (cx_env cx) t))"

text \<open>A failure to close a table is ignored: the table leaves the cache, and nothing more is known of its files.\<close>

definition close_quietly :: "'c env \<Rightarrow> string \<Rightarrow> string \<Rightarrow> 'c manager \<Rightarrow> cdc_error + 'c manager" where
  "close_quietly E entity table_name mg =
     (case close_table E entity table_name mg of
        Inr mg \<Rightarrow> Inr mg
      | Inl e \<Rightarrow>
          if e = Panic then Inl (TableErr Panic)
          else Inr (mg\<lparr>mg_tables := hdel (table_key entity table_name) (mg_tables mg), mg_open_count := mg_open_count mg - 1\<rparr>))"

definition bootstrap_table ::
  "'c cdc_ctx \<Rightarrow> string \<Rightarrow> string \<Rightarrow> bootstrap_mode \<Rightarrow> 'c cdc_run \<Rightarrow> cdc_error + 'c cdc_run" where
  "bootstrap_table cx schema table_name mode r =
     (let E = cx_env cx; x = e_ext E; w = cr_worker r;
          qkey = qualified_table_key x (wk_sync_all w) schema table_name; entity = disk_entity x w schema in
      rbind (if wk_sync_all w then resolve_mysql_schema_folder_name (cx_mysql cx) schema else Inr schema) (\<lambda>schema_mysql.
      rbind (ok_or Query (my_describe (cx_mysql cx) (''DESCRIBE '' @ qualified_schema_table schema_mysql table_name))) (\<lambda>rows.
      let ((cols, dates), w) = fetch_column_info x qkey rows w;
          w = w\<lparr>wk_column_maps := hput qkey cols (wk_column_maps w), wk_date_columns := hput qkey dates (wk_date_columns w)\<rparr> in
      rbind (table_err (get_table E entity table_name (cr_manager r))) (\<lambda>(t, mg).
      let pk_cols = choose_key (hdefault [] (my_primary_key (cx_mysql cx) schema_mysql table_name)) cols;
          t = set_original_fields E cols t;
          t = (if pk_cols = [] then t else set_key_columns pk_cols t);
          st = (if pk_cols = [] then cr_state r
            else (cr_state r)\<lparr>cs_pk_map := hput qkey (join_with '','' pk_cols) (cs_pk_map (cr_state r))\<rparr>) in
      rbind (bootstrap_rows cx schema_mysql table_name mode cols dates (save_manifest E t)) (\<lambda>t.
      rbind (close_quietly E entity table_name (put_table entity table_name t mg)) (\<lambda>mg.
        Inr (r\<lparr>cr_worker := w, cr_state := st, cr_manager := mg\<rparr>)))))))"

definition save_state :: "'c cdc_run \<Rightarrow> 'c cdc_run" where
  "save_state r = r\<lparr>cr_saved := Some (cr_state r)\<rparr>"

text \<open>A table that appears in the binlog first is registered without a copy of its rows.\<close>

definition ensure_local_mirror_for_binlog_table ::
  "'c cdc_ctx \<Rightarrow> string \<Rightarrow> string \<Rightarrow> 'c cdc_run \<Rightarrow> cdc_error + 'c cdc_run" where
  "ensure_local_mirror_for_binlog_table cx schema_binlog table_binlog r =
     (let x = e_ext (cx_env cx); w = cr_worker r in
      if resolve_cdc_table_keys x (wk_sync_all w) schema_binlog table_binlog (wk_column_maps w) \<noteq> None then Inr r
      else case my_tables_like (cx_mysql cx) schema_binlog table_binlog of
          None \<Rightarrow> Inl Query
        | Some [] \<Rightarrow> Inr r
        | Some ((sch, tbl) # _) \<Rightarrow>
            let qkey = qualified_table_key x (wk_sync_all w) sch tbl in
            if hget (wk_column_maps w) qkey \<noteq> None then Inr r
            else rbind (bootstrap_table cx sch tbl SchemaOnly r) (\<lambda>r.
              let st = cr_state r; ts = cs_bootstrapped_tables st in
              Inr (save_state (r\<lparr>cr_state := (if qkey \<in> set ts then st else st\<lparr>cs_bootstrapped_tables := ts @ [qkey]\<rparr>)\<rparr>))))"

definition wipe_table :: "'c cdc_ctx \<Rightarrow> worker \<Rightarrow> string \<Rightarrow> 'c manager \<Rightarrow> cdc_error + 'c manager" where
  "wipe_table cx w qkey mg =
     (case (if wk_sync_all w then map_option (\<lambda>(s, t). (t, to_lowercase (e_ext (cx_env cx)) s)) (split_once CHR ''.'' qkey)
            else Some (qkey, wk_entity w)) of
        None \<Rightarrow> Inr mg
      | Some (table_sql_name, entity) \<Rightarrow>
          let mirror_table = resolve_mirror_table_dir (e_ext (cx_env cx)) (cx_dirs cx entity) table_sql_name in
          (case get_table (cx_env cx) entity mirror_table mg of
             Inl e \<Rightarrow> if e = Panic then Inl (TableErr Panic) else Inr mg
           | Inr (t, mg) \<Rightarrow> rbind (table_err (delete_all_rows (cx_env cx) t)) (\<lambda>t. Inr (put_table entity mirror_table t mg))))"

definition wipe_bootstrapped_mirror_tables :: "'c cdc_ctx \<Rightarrow> 'c cdc_run \<Rightarrow> cdc_error + 'c cdc_run" where
  "wipe_bootstrapped_mirror_tables cx r =
     rbind (fold_r (wipe_table cx (cr_worker r)) (cs_bootstrapped_tables (cr_state r)) (cr_manager r)) (\<lambda>mg.
       Inr (r\<lparr>cr_manager := mg\<rparr>))"

text \<open>After the loss of the checkpoint all tables are copied again; \<open>coords\<close> are the coordinates inside the snapshot.\<close>

definition resync_mirror_after_checkpoint_loss_mvcc ::
  "'c cdc_ctx \<Rightarrow> (string \<times> u32) option \<Rightarrow> 'c cdc_run \<Rightarrow> cdc_error + 'c cdc_run" where
  "resync_mirror_after_checkpoint_loss_mvcc cx coords r =
     rbind (wipe_bootstrapped_mirror_tables cx r) (\<lambda>r.
     case coords of
       None \<Rightarrow> Inl Query
     | Some (f, p) \<Rightarrow>
         if f = [] then Inl Query
         else rbind (fold_r (\<lambda>qkey r. case split_qkey (cr_worker r) qkey of
               None \<Rightarrow> Inr r
             | Some (schema, table_name) \<Rightarrow> bootstrap_table cx schema table_name FullSnapshot r)
             (cs_bootstrapped_tables (cr_state r)) r) (\<lambda>r.
           Inr (r\<lparr>cr_state := (cr_state r)\<lparr>cs_binlog_file := f, cs_binlog_pos := p, cs_gtid_executed := [],
             cs_mvcc_snapshot_catchup_pending := True\<rparr>\<rparr>)))"

section \<open>The loop over the binlog\<close>

datatype binlog_data =
    GtidEvent u128 u64 | TableMapEvent table_map | RowsEvent rows_event | RotateEvent bool string u64
  | QueryEvent string | OtherEvent

record binlog_event =
  be_next_pos :: u32
  be_data :: binlog_data

definition set_pos :: "binlog_event \<Rightarrow> 'c cdc_run \<Rightarrow> 'c cdc_run" where
  "set_pos ev r = r\<lparr>cr_state := apply_binlog_file_pos (be_next_pos ev) (cr_state r)\<rparr>"

text \<open>Registration of an unknown table; its failure is only reported.\<close>

definition register_unknown :: "'c cdc_ctx \<Rightarrow> table_map \<Rightarrow> 'c cdc_run \<Rightarrow> cdc_error + 'c cdc_run" where
  "register_unknown cx tm r =
     (let x = e_ext (cx_env cx); w = cr_worker r in
      if \<not> (wk_sync_all w \<and> is_system_schema x (tm_schema tm)) \<and> \<not> is_out_of_scope_binlog_schema x w (tm_schema tm) \<and>
         resolve_cdc_table_keys x (wk_sync_all w) (tm_schema tm) (tm_table tm) (wk_column_maps w) = None
      then (case ensure_local_mirror_for_binlog_table cx (tm_schema tm) (tm_table tm) r of
          Inr r \<Rightarrow> Inr r
        | Inl e \<Rightarrow> if e = TableErr Panic then Inl e else Inr r)
      else Inr r)"

text \<open>An event whose table map is not known is skipped.\<close>

definition skip_missing_map :: "'c cdc_ctx \<Rightarrow> rows_event \<Rightarrow> 'c cdc_run \<Rightarrow> cdc_error + 'c cdc_run" where
  "skip_missing_map cx ev r = (case handle_rows_event cx ev r of
       Inr r \<Rightarrow> Inr r
     | Inl e \<Rightarrow> (case e of MissingTableMap _ \<Rightarrow> Inr r | _ \<Rightarrow> Inl e))"

definition stream_rows :: "'c cdc_ctx \<Rightarrow> rows_event \<Rightarrow> 'c cdc_run \<Rightarrow> cdc_error + 'c cdc_run" where
  "stream_rows cx ev r =
     (case resolve_rows_table_map (cr_worker r) ev of
        Inl _ \<Rightarrow> skip_missing_map cx ev r
      | Inr tm \<Rightarrow>
          if has_table_allowlist (cr_worker r) \<and>
             \<not> is_table_in_scope_filter (e_ext (cx_env cx)) (cr_worker r) (tm_schema tm) (tm_table tm)
          then Inr r
          else rbind (register_unknown cx tm r) (skip_missing_map cx ev))"

definition fast_exit_flush :: "'c env \<Rightarrow> 'c manager \<Rightarrow> 'c manager" where
  "fast_exit_flush E mg =
     fold (\<lambda>key mg. case hget (mg_tables mg) key of
         None \<Rightarrow> mg
       | Some t \<Rightarrow> mg\<lparr>mg_tables := hput key (flush_wal_only E t) (mg_tables mg)\<rparr>)
       (mg_dirty_tables mg) (mg\<lparr>mg_dirty_tables := []\<rparr>)"

text \<open>Whether the loop goes on after an event: a change of the schema ends the process after a flush and a checkpoint.\<close>

datatype 'a outcome = Continue 'a | Exits 'a

definition apply_event :: "'c cdc_ctx \<Rightarrow> binlog_event \<Rightarrow> 'c cdc_run \<Rightarrow> cdc_error + 'c cdc_run outcome" where
  "apply_event cx ev r =
     (case be_data ev of
        GtidEvent sid gno \<Rightarrow>
          let st = cr_state r;
              st = (if cx_master_gtid cx
                then st\<lparr>cs_gtid_executed := merge_gtid_executed_increment (cx_uuid cx) (cs_gtid_executed st) sid gno\<rparr> else st) in
          Inr (Continue (set_pos ev (r\<lparr>cr_state := st\<rparr>)))
      | TableMapEvent tm \<Rightarrow>
          let w = cr_worker r in
          Inr (Continue (set_pos ev (r\<lparr>cr_worker := w\<lparr>wk_table_map_events := hput (tm_table_id tm) tm (wk_table_map_events w)\<rparr>\<rparr>)))
      | RowsEvent rows \<Rightarrow> rbind (stream_rows cx rows r) (\<lambda>r. Inr (Continue (set_pos ev r)))
      | RotateEvent fake name pos \<Rightarrow>
          let w = cr_worker r in
          Inr (Continue (r\<lparr>cr_worker := (if fake then w else w\<lparr>wk_table_map_events := []\<rparr>),
            cr_state := (cr_state r)\<lparr>cs_binlog_file := name, cs_binlog_pos := ucast pos\<rparr>\<rparr>))
      | QueryEvent query \<Rightarrow>
          if query_is_structural_ddl (e_ext (cx_env cx)) query
          then let r = set_pos ev r in
            Inr (Exits (save_state (r\<lparr>cr_manager := fast_exit_flush (cx_env cx) (cr_manager r)\<rparr>)))
          else Inr (Continue (set_pos ev r))
      | OtherEvent \<Rightarrow> Inr (Continue (set_pos ev r)))"

definition CDC_STATE_SAVE_EVENT_BURST :: u32 where "CDC_STATE_SAVE_EVENT_BURST = 1024"

definition CDC_STATE_SAVE_INTERVAL :: nat where "CDC_STATE_SAVE_INTERVAL = 2000"

definition checkpoint_if_due :: "'c cdc_ctx \<Rightarrow> binlog_event \<Rightarrow> 'c cdc_run \<Rightarrow> 'c cdc_run" where
  "checkpoint_if_due cx ev r =
     (let n = (if cr_since_save r = - 1 then - 1 else cr_since_save r + 1);
          checkpoint_rotate = (case be_data ev of RotateEvent _ _ _ \<Rightarrow> True | _ \<Rightarrow> False);
          periodic_save = (CDC_STATE_SAVE_INTERVAL \<le> cx_now cx - cr_saved_at r \<or> CDC_STATE_SAVE_EVENT_BURST \<le> n) in
      if checkpoint_rotate \<or> periodic_save
      then (save_state (r\<lparr>cr_manager := flush_dirty_tables (cx_env cx) (cr_manager r)\<rparr>))
        \<lparr>cr_since_save := 0, cr_saved_at := cx_now cx\<rparr>
      else r\<lparr>cr_since_save := n\<rparr>)"

definition stream_step :: "'c cdc_ctx \<Rightarrow> binlog_event \<Rightarrow> 'c cdc_run \<Rightarrow> cdc_error + 'c cdc_run outcome" where
  "stream_step cx ev r =
     rbind (apply_event cx ev r) (\<lambda>res. case res of
       Exits r \<Rightarrow> Inr (Exits r)
     | Continue r \<Rightarrow> Inr (Continue (checkpoint_if_due cx ev r)))"

text \<open>The events of a stream, each with the surroundings it meets; the end of the stream writes a checkpoint.\<close>

fun stream_loop :: "('c cdc_ctx \<times> binlog_event) list \<Rightarrow> 'c cdc_run \<Rightarrow> cdc_error + 'c cdc_run outcome" where
  "stream_loop [] r = Inr (Continue (save_state r))"
| "stream_loop ((cx, ev) # evs) r =
     rbind (stream_step cx ev r) (\<lambda>res. case res of Exits r \<Rightarrow> Inr (Exits r) | Continue r \<Rightarrow> stream_loop evs r)"

section \<open>Validation at the start\<close>

record manifest_stub =
  ms_original_fields :: "string list"
  ms_primary_key :: string
  ms_primary_key_columns :: "string list"

definition same_names :: "string list \<Rightarrow> string list \<Rightarrow> bool" where
  "same_names recorded live \<longleftrightarrow>
     length recorded = length live \<and> list_all (\<lambda>(a, b). eq_ignore_ascii_case a b) (zip recorded live)"

definition recorded_key :: "(string, string) hmap \<Rightarrow> string \<Rightarrow> manifest_stub \<Rightarrow> string list" where
  "recorded_key pk_map qkey stub =
     (let cols = (if ms_primary_key_columns stub \<noteq> [] then ms_primary_key_columns stub
            else if ms_primary_key stub \<noteq> [] \<and> ms_primary_key stub \<noteq> ''PK'' then [ms_primary_key stub]
            else []) in
      if cols = []
      then (case hget pk_map qkey of
          Some entry \<Rightarrow> filter (\<lambda>s. s \<noteq> []) (map trim (split_on CHR '','' entry)) | None \<Rightarrow> [])
      else cols)"

text \<open>\<open>stub\<close> reads the manifest of a mirror directory; \<open>None\<close> when it is missing or not readable. A query that fails leaves
  the table as it is.\<close>

definition table_drifted :: "'c cdc_ctx \<Rightarrow> (string \<Rightarrow> manifest_stub option) \<Rightarrow> 'c cdc_run \<Rightarrow> string \<Rightarrow> bool" where
  "table_drifted cx stub r qkey =
     (let w = cr_worker r in
      case split_qkey w qkey of
        None \<Rightarrow> False
      | Some (schema_name, table_name) \<Rightarrow>
          (case stub qkey of
             None \<Rightarrow> True
           | Some ms \<Rightarrow>
               (case (if wk_sync_all w then resolve_mysql_schema_folder_name (cx_mysql cx) schema_name else Inr schema_name) of
                  Inl _ \<Rightarrow> False
                | Inr schema_mysql \<Rightarrow>
                    (case my_columns (cx_mysql cx) schema_mysql table_name of
                       None \<Rightarrow> False
                     | Some live \<Rightarrow>
                         if live = [] \<or> \<not> same_names (ms_original_fields ms) live then True
                         else (case my_primary_key (cx_mysql cx) schema_mysql table_name of
                             None \<Rightarrow> False
                           | Some live_pk \<Rightarrow>
                               let rec = recorded_key (cs_pk_map (cr_state r)) qkey ms in
                               live_pk \<noteq> [] \<and> \<not> (rec \<noteq> [] \<and> same_names rec live_pk))))))"

definition invalidate_table :: "'c cdc_ctx \<Rightarrow> string \<Rightarrow> 'c cdc_run \<Rightarrow> cdc_error + 'c cdc_run" where
  "invalidate_table cx qkey r =
     (let x = e_ext (cx_env cx); w = cr_worker r; st = cr_state r in
      case split_qkey w qkey of
        None \<Rightarrow> Inr r
      | Some (schema_name, table_name) \<Rightarrow>
          let entity = disk_entity x w schema_name;
              mirror_table = resolve_mirror_table_dir x (cx_dirs cx entity) table_name in
          rbind (close_quietly (cx_env cx) entity mirror_table (cr_manager r)) (\<lambda>mg.
            Inr (r\<lparr>cr_manager := mg\<lparr>mg_disk := hdel (table_key entity mirror_table) (mg_disk mg)\<rparr>,
              cr_worker := w\<lparr>wk_column_maps := hdel qkey (wk_column_maps w), wk_date_columns := hdel qkey (wk_date_columns w),
                wk_enum_maps := hdel qkey (wk_enum_maps w)\<rparr>,
              cr_state := st\<lparr>cs_bootstrapped_tables := filter (\<lambda>k. k \<noteq> qkey) (cs_bootstrapped_tables st),
                cs_pk_map := hdel qkey (cs_pk_map st)\<rparr>\<rparr>)))"

definition validate_bootstrapped_schemas ::
  "'c cdc_ctx \<Rightarrow> (string \<Rightarrow> manifest_stub option) \<Rightarrow> 'c cdc_run \<Rightarrow> cdc_error + 'c cdc_run" where
  "validate_bootstrapped_schemas cx stub r =
     (let to_invalidate = filter (table_drifted cx stub r) (cs_bootstrapped_tables (cr_state r)) in
      if to_invalidate = [] then Inr r
      else rbind (fold_r (invalidate_table cx) to_invalidate r) (\<lambda>r. Inr (save_state r)))"

end
