(* ===== verification/Cdc_Start.thy ===== *)
theory Cdc_Start
  imports Cdc_Stream
begin

text \<open>
  Change data capture (\<^verbatim>\<open>src/core/cdc/mod.rs\<close>, with \<^verbatim>\<open>mysql_host_cache.rs\<close>), fourth part: connecting, the copy of the
  tables at the start, the choice of the position from which the binlog is read, and what happens when the position
  is lost. Messages and waiting are left out; the server's replies are arguments.
\<close>

section \<open>Connecting\<close>

definition lower_ascii :: "string \<Rightarrow> string" where
  "lower_ascii s = map ascii_lower s"

definition contains_any :: "string \<Rightarrow> string list \<Rightarrow> bool" where
  "contains_any s ps \<longleftrightarrow> list_ex (contains_str s) ps"

definition is_mysql_host_blocked_error :: "string \<Rightarrow> bool" where
  "is_mysql_host_blocked_error msg = contains_any (lower_ascii msg)
     [''(1129)'', ''error 1129'', ''blocked because of many connection errors'', ''flush-hosts'', ''flush hosts'']"

definition is_transient_mysql_connect_error :: "string \<Rightarrow> bool" where
  "is_transient_mysql_connect_error msg =
     (if is_mysql_host_blocked_error msg then True
      else contains_any (lower_ascii msg)
        [''connection timed out'', ''connection timeout'', ''timed out'', ''connection refused'', ''broken pipe'',
         ''connection reset'', ''server has gone away'', ''too many connections'', ''os error 22'', ''invalid argument'',
         ''network is unreachable'', ''dns''])"

definition connect_backoff_secs :: "u32 \<Rightarrow> bool \<Rightarrow> nat" where
  "connect_backoff_secs attempt host_blocked =
     (let steps = (if host_blocked then [30, 60, 120, 180, 300, 300, 600, 600, 900, 900, 1200, 1200]
            else [2, 5, 10, 15, 30, 45, 60, 90, 120, 180, 300, 300]) in
      steps ! min (unat attempt - 1) (length steps - 1))"

definition default_connect_attempt_limit :: "vars \<Rightarrow> nat option" where
  "default_connect_attempt_limit vars =
     (case Option.bind (vars ''BITTICE_CDC_CONNECT_MAX_ATTEMPTS'')
        (\<lambda>v. if eq_ignore_ascii_case v ''infinite'' \<or> v = ''0'' then None else parse_unsigned 32 v) of
        Some n \<Rightarrow> Some n
      | None \<Rightarrow> Some 5)"

definition connect_limit :: "vars \<Rightarrow> bool \<Rightarrow> nat option \<Rightarrow> nat option" where
  "connect_limit vars retry_forever limit =
     (if retry_forever then None else case limit of Some n \<Rightarrow> Some n | None \<Rightarrow> default_connect_attempt_limit vars)"

text \<open>The attempts with their outcomes: an error message or a connection. The waiting times are collected. \<open>None\<close> when the
  attempts listed do not suffice.\<close>

datatype 'c connected = Connected 'c | Gave_Up string

fun connect_loop :: "nat option \<Rightarrow> u32 \<Rightarrow> (string + 'c) list \<Rightarrow> ('c connected \<times> nat list) option" where
  "connect_loop limit attempt [] = None"
| "connect_loop limit attempt (Inr c # tries) = Some (Connected c, [])"
| "connect_loop limit attempt (Inl msg # tries) =
     (let attempt = (if attempt = - 1 then attempt else attempt + 1);
          blocked = is_mysql_host_blocked_error msg in
      if \<not> blocked \<and> \<not> is_transient_mysql_connect_error msg then Some (Gave_Up msg, [])
      else if (case limit of Some n \<Rightarrow> n \<le> unat attempt | None \<Rightarrow> False) then Some (Gave_Up msg, [])
      else map_option (apsnd ((#) (connect_backoff_secs attempt blocked))) (connect_loop limit attempt tries))"

section \<open>What the server is\<close>

definition detect_mariadb_server :: "ext \<Rightarrow> string option \<Rightarrow> bool" where
  "detect_mariadb_server x version = (case version of Some v \<Rightarrow> contains_str (to_lowercase x v) ''mariadb'' | None \<Rightarrow> False)"

definition global_gtid_mode_on :: "string option \<Rightarrow> bool" where
  "global_gtid_mode_on reply =
     (case reply of
        Some mode \<Rightarrow> let m = trim mode in eq_ignore_ascii_case m ''ON'' \<or> starts_with m ''ON_PERMISSIVE''
      | None \<Rightarrow> False)"

text \<open>The first row of \<^verbatim>\<open>SHOW BINARY LOG STATUS\<close>, else of \<^verbatim>\<open>SHOW MASTER STATUS\<close>.\<close>

definition query_master_coordinates ::
  "(string option \<times> u32 option) option \<Rightarrow> (string option \<times> u32 option) option \<Rightarrow> (string \<times> u32) option" where
  "query_master_coordinates binary_log_status master_status =
     (case (case binary_log_status of Some r \<Rightarrow> Some r | None \<Rightarrow> master_status) of
        Some (f, p) \<Rightarrow> let f = hdefault [] f in if f \<noteq> [] then Some (f, hdefault 4 p) else None
      | None \<Rightarrow> None)"

definition list_user_schemas :: "ext \<Rightarrow> string list \<Rightarrow> string list" where
  "list_user_schemas x rows = filter (\<lambda>s. \<not> is_system_schema x s) rows"

text \<open>Keys without a schema are from a run that copied a single database.\<close>

definition reset_simple_keys :: "bool \<Rightarrow> cdc_state \<Rightarrow> cdc_state" where
  "reset_simple_keys sync_all st =
     (if sync_all \<and> cs_bootstrapped_tables st \<noteq> [] \<and> list_all (\<lambda>k. CHR ''.'' \<notin> set k) (cs_bootstrapped_tables st)
      then st\<lparr>cs_bootstrapped_tables := [], cs_pk_map := []\<rparr> else st)"

definition observe_formats :: "string option \<Rightarrow> string option \<Rightarrow> cdc_state \<Rightarrow> cdc_state" where
  "observe_formats format_global format_session st =
     (let st = (case format_global of Some f \<Rightarrow> st\<lparr>cs_observed_binlog_format_global := Some (trim f)\<rparr> | None \<Rightarrow> st) in
      case format_session of Some f \<Rightarrow> st\<lparr>cs_observed_binlog_format_session := Some (trim f)\<rparr> | None \<Rightarrow> st)"

section \<open>The copy of the tables\<close>

text \<open>\<open>Stops\<close>: the engine halts or the worker goes static, after the flush of the tables.\<close>

datatype 'a phase = Goes 'a | Stops 'a

fun pbind :: "cdc_error + 'a phase \<Rightarrow> ('a \<Rightarrow> cdc_error + 'a phase) \<Rightarrow> cdc_error + 'a phase" where
  "pbind (Inl e) f = Inl e"
| "pbind (Inr (Stops r)) f = Inr (Stops r)"
| "pbind (Inr (Goes r)) f = f r"

definition halt_flush :: "'c env \<Rightarrow> 'c cdc_run \<Rightarrow> 'c cdc_run" where
  "halt_flush E r = save_state (r\<lparr>cr_manager := fast_exit_flush E (cr_manager r)\<rparr>)"

text \<open>The columns of a table that is mirrored already come from the bulk query, else from \<^verbatim>\<open>DESCRIBE\<close>.\<close>

definition refresh_columns ::
  "'c cdc_ctx \<Rightarrow> (string, column_info) hmap \<Rightarrow> string \<Rightarrow> string \<Rightarrow> string \<Rightarrow> 'c cdc_run \<Rightarrow> cdc_error + 'c cdc_run" where
  "refresh_columns cx bulk_cols schema table_name qkey r =
     (let x = e_ext (cx_env cx) in
      rbind (case (case hget bulk_cols table_name of Some ci \<Rightarrow> Some ci | None \<Rightarrow> hget bulk_cols (to_lowercase x table_name)) of
          Some ci \<Rightarrow> Inr ((ci_columns ci, ci_dates ci, ci_enums ci), cr_worker r)
        | None \<Rightarrow>
            rbind (ok_or Query (my_describe (cx_mysql cx) (''DESCRIBE '' @ qualified_schema_table schema table_name))) (\<lambda>rows.
              let ((cols, dates), w) = fetch_column_info x qkey rows (cr_worker r) in Inr ((cols, dates, []), w)))
        (\<lambda>((cols, dates, enums), w).
          let w = w\<lparr>wk_column_maps := hput qkey cols (wk_column_maps w), wk_date_columns := hput qkey dates (wk_date_columns w)\<rparr> in
          Inr (r\<lparr>cr_worker := (if enums \<noteq> [] then w\<lparr>wk_enum_maps := hput qkey enums (wk_enum_maps w)\<rparr> else w)\<rparr>)))"

text \<open>\<open>halted\<close> tells whether the shutdown is requested before the table. A failure of the copy makes the worker static.\<close>

definition copy_table ::
  "'c cdc_ctx \<Rightarrow> (string \<Rightarrow> bool) \<Rightarrow> (string, column_info) hmap \<Rightarrow> string \<Rightarrow> string \<Rightarrow> 'c cdc_run \<Rightarrow> cdc_error + 'c cdc_run phase" where
  "copy_table cx halted bulk_cols schema table_name r =
     (let qkey = qualified_table_key (e_ext (cx_env cx)) (wk_sync_all (cr_worker r)) schema table_name in
      if halted qkey then Inr (Stops (halt_flush (cx_env cx) r))
      else if qkey \<notin> set (cs_bootstrapped_tables (cr_state r)) then
        rbind (bootstrap_table cx schema table_name FullSnapshot r) (\<lambda>r.
          Inr (Goes (save_state (r\<lparr>cr_state := (cr_state r)
            \<lparr>cs_bootstrapped_tables := cs_bootstrapped_tables (cr_state r) @ [qkey]\<rparr>\<rparr>))))
      else rbind (refresh_columns cx bulk_cols schema table_name qkey r) (\<lambda>r. Inr (Goes r)))"

fun copy_tables ::
  "'c cdc_ctx \<Rightarrow> (string \<Rightarrow> bool) \<Rightarrow> (string, column_info) hmap \<Rightarrow> string \<Rightarrow> string list \<Rightarrow> 'c cdc_run \<Rightarrow> cdc_error + 'c cdc_run phase" where
  "copy_tables cx halted bulk_cols schema [] r = Inr (Goes r)"
| "copy_tables cx halted bulk_cols schema (t # ts) r =
     pbind (copy_table cx halted bulk_cols schema t r) (copy_tables cx halted bulk_cols schema ts)"

text \<open>The tables of a schema, and the rows of the bulk query of its columns; \<open>None\<close> where the query fails.\<close>

record listing =
  li_tables :: "string \<Rightarrow> string list option"
  li_columns :: "string \<Rightarrow> (string \<times> string \<times> string \<times> string) list option"

definition copy_schema ::
  "'c cdc_ctx \<Rightarrow> (string \<Rightarrow> bool) \<Rightarrow> listing \<Rightarrow> string \<Rightarrow> 'c cdc_run \<Rightarrow> cdc_error + 'c cdc_run phase" where
  "copy_schema cx halted li schema r =
     (let x = e_ext (cx_env cx) in
      if halted schema then Inr (Stops (halt_flush (cx_env cx) r))
      else case li_tables li schema of
          None \<Rightarrow> Inr (Goes r)
        | Some ts \<Rightarrow>
            copy_tables cx halted (fetch_schema_columns_bulk x (li_columns li schema)) schema (tables_to_copy x (cr_worker r) schema ts) r)"

fun copy_schemas ::
  "'c cdc_ctx \<Rightarrow> (string \<Rightarrow> bool) \<Rightarrow> listing \<Rightarrow> string list \<Rightarrow> 'c cdc_run \<Rightarrow> cdc_error + 'c cdc_run phase" where
  "copy_schemas cx halted li [] r = Inr (Goes r)"
| "copy_schemas cx halted li (s # ss) r = pbind (copy_schema cx halted li s r) (copy_schemas cx halted li ss)"

definition initial_copy ::
  "'c cdc_ctx \<Rightarrow> (string \<Rightarrow> bool) \<Rightarrow> listing \<Rightarrow> string list \<Rightarrow> 'c cdc_run \<Rightarrow> cdc_error + 'c cdc_run phase" where
  "initial_copy cx halted li databases r =
     (let x = e_ext (cx_env cx); w = cr_worker r in
      if wk_sync_all w then
        (let schemas = list_user_schemas x databases;
             schemas = (case wk_schema_allowlist w of Some allowed \<Rightarrow> filter (\<lambda>s. to_lowercase x s \<in> allowed) schemas | None \<Rightarrow> schemas) in
         copy_schemas cx halted li schemas r)
      else case li_tables li (wk_database w) of
          None \<Rightarrow> Inl Query
        | Some ts \<Rightarrow>
            copy_tables cx halted (fetch_schema_columns_bulk x (li_columns li (wk_database w))) (wk_database w)
              (tables_to_copy x w (wk_database w) ts) r)"

section \<open>The position to read from\<close>

definition maybe_capture_gtid_executed :: "bool \<Rightarrow> string option \<Rightarrow> cdc_state \<Rightarrow> cdc_state" where
  "maybe_capture_gtid_executed master_gtid reply st =
     (if \<not> master_gtid then st
      else case reply of
          Some gs \<Rightarrow> if trim gs \<noteq> [] then st\<lparr>cs_gtid_executed := trim gs\<rparr> else st
        | None \<Rightarrow> st)"

definition resolve_binlog_position :: "bool \<Rightarrow> (string \<times> u32) option \<Rightarrow> string option \<Rightarrow> cdc_state \<Rightarrow> cdc_state" where
  "resolve_binlog_position master_gtid coords gtid_reply st =
     (if cs_binlog_file st \<noteq> [] then st
      else case coords of
          Some (file, pos) \<Rightarrow>
            maybe_capture_gtid_executed master_gtid gtid_reply (st\<lparr>cs_binlog_file := file, cs_binlog_pos := pos\<rparr>)
        | None \<Rightarrow> st)"

text \<open>A first copy needs a snapshot with the coordinates read inside it; without them the worker is static.\<close>

definition lossless_start :: "cdc_state \<Rightarrow> bool \<Rightarrow> (string \<times> u32) option \<Rightarrow> bool" where
  "lossless_start st snapshot_active coords \<longleftrightarrow> cs_binlog_file st = [] \<longrightarrow> snapshot_active \<and> coords \<noteq> None"

text \<open>The position after the copy. \<open>coords\<close> were read inside the snapshot, \<open>tip\<close> after it, \<open>gtid_reply\<close> as well; the
  second component tells that the writes since the snapshot are read again.\<close>

definition seed_checkpoint ::
  "vars \<Rightarrow> bool \<Rightarrow> bool \<Rightarrow> (string \<times> u32) option \<Rightarrow> (string \<times> u32) option \<Rightarrow> string option \<Rightarrow> cdc_state \<Rightarrow> cdc_state \<times> bool" where
  "seed_checkpoint vars master_gtid snapshot_active coords tip gtid_reply st =
     (let st = (if \<not> snapshot_active \<and> cs_mvcc_snapshot_catchup_pending st
            then st\<lparr>cs_mvcc_snapshot_catchup_pending := False\<rparr> else st);
          replay = (snapshot_active \<and> coords \<noteq> None);
          skip = (replay \<and> env_truthy vars ''BITTICE_CDC_SKIP_BINLOG_BACKLOG'' \<and>
            env_truthy vars ''BITTICE_CDC_ACCEPT_SNAPSHOT_GAP'' \<and> tip \<noteq> None);
          replay = (replay \<and> \<not> skip);
          coords = (if skip then tip else coords) in
      case coords of
        None \<Rightarrow> (st, replay)
      | Some (f, p) \<Rightarrow>
          let st = st\<lparr>cs_binlog_file := f, cs_binlog_pos := p\<rparr> in
          if replay then (st\<lparr>cs_gtid_executed := [], cs_mvcc_snapshot_catchup_pending := True\<rparr>, True)
          else (maybe_capture_gtid_executed master_gtid gtid_reply (st\<lparr>cs_mvcc_snapshot_catchup_pending := False\<rparr>), False))"

text \<open>The checkpoint from which the stream is opened. \<open>None\<close>: the server keeps no binlog, the worker is static.\<close>

definition checkpoint_phase ::
  "vars \<Rightarrow> bool \<Rightarrow> bool \<Rightarrow> bool \<Rightarrow> (string \<times> u32) option \<Rightarrow> (string \<times> u32) option \<Rightarrow> string option \<Rightarrow> cdc_state \<Rightarrow> cdc_state option" where
  "checkpoint_phase vars master_gtid had_checkpoint snapshot_active coords tip gtid_reply st =
     (let (st, replay) = seed_checkpoint vars master_gtid snapshot_active coords tip gtid_reply st;
          st = resolve_binlog_position master_gtid tip gtid_reply st in
      if cs_binlog_file st = [] then None
      else Some (if master_gtid \<and> trim (cs_gtid_executed st) = [] \<and> \<not> replay \<and> \<not> had_checkpoint
        then maybe_capture_gtid_executed master_gtid gtid_reply st else st))"

text \<open>The interval at which the idle server is to send a sign of life.\<close>

definition heartbeat_secs :: "vars \<Rightarrow> nat" where
  "heartbeat_secs vars =
     (case Option.bind (vars ''BITTICE_CDC_HEARTBEAT_SECS'') (parse_unsigned 64) of
        Some n \<Rightarrow> if 1 \<le> n \<and> n \<le> 3600 then n else 15
      | None \<Rightarrow> 15)"

text \<open>A replica identifier of five digits from the name of the profile.\<close>

definition server_id :: "string \<Rightarrow> u32" where
  "server_id entity =
     fold (\<lambda>b h. xor (h * 0x01000193) (word_of_nat (bval b))) entity 0x811c9dc5 mod 90000 + 10000"

datatype stream_request = ByPosition string u32 | ByGtid "string list" string u32

definition open_request :: "uuid_crate \<Rightarrow> bool \<Rightarrow> cdc_state \<Rightarrow> stream_request" where
  "open_request U master_gtid st =
     (let file = cs_binlog_file st; pos = cs_binlog_pos st in
      if master_gtid \<and> trim (cs_gtid_executed st) \<noteq> [] then
        (case split_gtid_executed_chunks U (trim (cs_gtid_executed st)) of
           Inr ps \<Rightarrow> ByGtid ps file pos
         | Inl _ \<Rightarrow> ByPosition file pos)
      else ByPosition file pos)"

text \<open>Events missed while the worker was off are waited for only when asked to.\<close>

definition resume_gap :: "vars \<Rightarrow> bool \<Rightarrow> bool \<Rightarrow> (string \<times> u32) option \<Rightarrow> cdc_state \<Rightarrow> cdc_state" where
  "resume_gap vars had_checkpoint first_copy tip st =
     (if \<not> cs_mvcc_snapshot_catchup_pending st \<and> had_checkpoint \<and> \<not> first_copy then
        (case tip of
           Some (f, p) \<Rightarrow>
             if f \<noteq> [] \<and> \<not> cdc_replication_caught_up_to_tip st f p \<and> env_truthy vars ''BITTICE_STAGED_WAIT_FOR_RESUME_CATCHUP''
             then st\<lparr>cs_mvcc_snapshot_catchup_pending := True\<rparr> else st
         | None \<Rightarrow> st)
      else st)"

section \<open>While the stream is open\<close>

text \<open>A poll of the idle stream while the catch-up is pending: two in a row at the tip of the server end it. The last component
  tells that the worker leaves (the setup wizard) or reports that it is live.\<close>

definition catchup_poll ::
  "'c env \<Rightarrow> bool \<Rightarrow> bool \<Rightarrow> (string \<times> u32) option \<Rightarrow> u32 \<Rightarrow> 'c cdc_run \<Rightarrow> u32 \<times> 'c cdc_run \<times> bool" where
  "catchup_poll E exit_after live_reported tip streak r =
     (if exit_after \<or> cs_mvcc_snapshot_catchup_pending (cr_state r) then
        (case tip of
           Some (f, p) \<Rightarrow>
             if f = [] then (streak, r, False)
             else if cdc_replication_caught_up_to_tip (cr_state r) f p then
               (let streak = (if streak = - 1 then streak else streak + 1) in
                if 2 \<le> streak then
                  let r = save_state (r\<lparr>cr_state := (cr_state r)\<lparr>cs_mvcc_snapshot_catchup_pending := False\<rparr>\<rparr>);
                      report = (exit_after \<or> \<not> live_reported) in
                  (0, (if report then r\<lparr>cr_manager := flush_dirty_tables E (cr_manager r)\<rparr> else r), report)
                else (streak, r, False))
             else (0, r, False)
         | None \<Rightarrow> (streak, r, False))
      else (streak, r, False))"

text \<open>A check of the route to the server: \<open>None\<close> when the worker gives up and goes static.\<close>

definition health_check :: "u32 \<Rightarrow> bool \<Rightarrow> u32 \<Rightarrow> u32 option" where
  "health_check max_failures reachable failures =
     (if reachable then Some 0
      else let failures = (if failures = - 1 then failures else failures + 1) in
        if max_failures = 0 \<or> failures < max_failures then Some failures else None)"

definition discard_checkpoint :: "cdc_state \<Rightarrow> cdc_state" where
  "discard_checkpoint st = st\<lparr>cs_binlog_file := [], cs_binlog_pos := 0, cs_gtid_executed := []\<rparr>"

definition fall_back :: "'c cdc_run \<Rightarrow> 'c cdc_run" where
  "fall_back r = save_state (r\<lparr>cr_state := discard_checkpoint (cr_state r)\<rparr>)"

text \<open>The stream is refused or interrupted. A position the server no longer has is given up: the mirrors are
  copied again when that is enabled, and the stream is opened at the coordinates of the copy. Where it is not, or the copy
  fails (on whatever it left), the worker starts from the tip (\<open>fall_back\<close>), and its rows may be stale. Any other error makes the worker static.\<close>

datatype 'a recovery = Retry 'a | Copy_Failed cdc_error | Goes_Static

definition stream_error :: "'c cdc_ctx \<Rightarrow> string \<Rightarrow> (string \<times> u32) option \<Rightarrow> 'c cdc_run \<Rightarrow> 'c cdc_run recovery" where
  "stream_error cx msg coords r =
     (if \<not> is_stale_saved_binlog_error (e_ext (cx_env cx)) msg then Goes_Static
      else if cdc_mirror_resync_on_binlog_gap_enabled (cx_vars cx) \<and> cs_bootstrapped_tables (cr_state r) \<noteq> []
      then (case resync_mirror_after_checkpoint_loss_mvcc cx coords r of
          Inr r \<Rightarrow> Retry (save_state r)
        | Inl e \<Rightarrow> Copy_Failed e)
      else Retry (fall_back r))"

end
