(* ===== verification/Cdc_Resume.thy ===== *)
theory Cdc_Resume
  imports Cdc_Start Cdc_Apply
begin

text \<open>
  What a restart of change data capture relies on: the checkpoint follows the data to disk, the stream starts where the
  mirror stands, connecting ends within its limit, and a copy that was interrupted goes on where it stopped.
\<close>

section \<open>Checkpoints\<close>

definition log_on_disk :: "'c table \<Rightarrow> bool" where
  "log_on_disk t \<longleftrightarrow> bw_buf (wal_writer (t_wal t)) = []"

lemma flushed_on_disk: "log_on_disk (flush_active_segment_buffers E t)"
  by (simp add: log_on_disk_def flush_active_segment_buffers_def count_flush_def Let_def wal_truncate_def wal_flush_writes_def
      table_save_primary_index_def)

definition flush_one :: "'c env \<Rightarrow> string \<Rightarrow> 'c manager \<Rightarrow> 'c manager" where
  "flush_one E key mg = (case hget (mg_tables mg) key of
     None \<Rightarrow> mg
   | Some t \<Rightarrow> mg\<lparr>mg_tables := hput key (flush_active_segment_buffers E t) (mg_tables mg)\<rparr>)"

lemma flush_dirty_fold: "flush_dirty_tables E mg = fold (flush_one E) (mg_dirty_tables mg) (mg\<lparr>mg_dirty_tables := []\<rparr>)"
  by (simp add: flush_dirty_tables_def flush_one_def [abs_def])

lemma flush_one_simps [simp]:
  "mg_dirty_tables (flush_one E key mg) = mg_dirty_tables mg"
  "hget (mg_tables (flush_one E key mg)) k =
     (if k = key then map_option (flush_active_segment_buffers E) (hget (mg_tables mg) k) else hget (mg_tables mg) k)"
  by (auto simp: flush_one_def split: option.splits)

lemma fold_flush_clean: "mg_dirty_tables (fold (flush_one E) ks mg) = mg_dirty_tables mg"
  by (induction ks arbitrary: mg) auto

lemma fold_flush_on_disk:
  assumes "\<forall>t'. hget (mg_tables mg) k = Some t' \<longrightarrow> log_on_disk t' \<or> k \<in> set ks"
    "hget (mg_tables (fold (flush_one E) ks mg)) k = Some t"
  shows "log_on_disk t"
  using assms
proof (induction ks arbitrary: mg)
  case (Cons key ks)
  have "\<forall>t'. hget (mg_tables (flush_one E key mg)) k = Some t' \<longrightarrow> log_on_disk t' \<or> k \<in> set ks"
    using Cons.prems(1) by (auto simp: flushed_on_disk)
  from Cons.IH [OF this] Cons.prems(2) show ?case by simp
qed simp

lemma flush_dirty_on_disk:
  "k \<in> set (mg_dirty_tables mg) \<Longrightarrow> hget (mg_tables (flush_dirty_tables E mg)) k = Some t \<Longrightarrow> log_on_disk t"
  unfolding flush_dirty_fold by (rule fold_flush_on_disk [where k = k and ks = "mg_dirty_tables mg"]) auto

lemma flush_dirty_clean: "mg_dirty_tables (flush_dirty_tables E mg) = []"
  by (simp add: flush_dirty_fold fold_flush_clean)


definition small_run :: "(u128, postings) hmap cdc_run" where
  "small_run = \<lparr>cr_worker = small_worker, cr_manager = manager_new None [], cr_state = empty_cdc_state, cr_events = [],
     cr_last_compact = [], cr_saved = None, cr_since_save = 1023, cr_saved_at = 0\<rparr>"


text \<open>The transaction of a \<^verbatim>\<open>GtidEvent\<close> is entered in the set before its rows arrive: the checkpoint that the burst limit
  writes at this event already holds it, although no table has changed. A worker that restarts from that checkpoint asks for the
  transactions after the set, and the server leaves this one out.\<close>

theorem gtid_checkpoint_before_rows:
  assumes "cx_master_gtid cx" "cr_since_save r = 1023" "be_data ev = GtidEvent sid gno"
  shows "\<exists>r'. stream_step cx ev r = Inr (Continue r') \<and>
    cr_manager r' = flush_dirty_tables (cx_env cx) (cr_manager r) \<and>
    map_option cs_gtid_executed (cr_saved r') =
      Some (merge_gtid_executed_increment (cx_uuid cx) (cs_gtid_executed (cr_state r)) sid gno)"
  using assms by (simp add: stream_step_def apply_event_def checkpoint_if_due_def Let_def set_pos_def save_state_def
      CDC_STATE_SAVE_EVENT_BURST_def apply_binlog_file_pos_def)

section \<open>The start of the stream\<close>

lemma blank_trim: "trim [] = []"
  by (rule trim_graphic) simp



section \<open>Connecting\<close>

lemma server_id_bounds: "10000 \<le> server_id entity \<and> server_id entity < 100000"
proof -
  let ?h = "fold (\<lambda>b h. xor (h * 0x01000193) (word_of_nat (bval b))) entity (0x811c9dc5 :: u32)"
  have r: "unat (?h mod 90000) < 90000" by (simp add: unat_mod)
  then have "unat (?h mod 90000 + 10000) = unat (?h mod 90000) + 10000"
    by (simp add: unat_word_ariths)
  with r show ?thesis by (simp add: server_id_def word_le_nat_alt word_less_nat_alt)
qed

text \<open>The comment says that two profiles never collide; these two do.\<close>

theorem server_ids_collide: "server_id ''iga'' = server_id ''axh''"
  by (simp add: server_id_def bval_def)

text \<open>With a limit, connecting ends: attempts that all fail with an error worth another try are given up after exactly
  as many as the limit says, with the last message, and one wait fewer.\<close>

theorem connect_gives_up:
  assumes "msgs \<noteq> []" "\<forall>m\<in>set msgs. is_transient_mysql_connect_error m" "unat a + length msgs = n" "n < 2 ^ 32"
  shows "\<exists>ws. connect_loop (Some n) a (map Inl msgs @ rest) = Some (Gave_Up (List.last msgs), ws) \<and> length ws + 1 = length msgs"
  using assms
proof (induction msgs arbitrary: a)
  case (Cons m ms)
  have a1: "unat (a + 1) = unat a + 1" using Cons.prems(3,4) by (simp add: unat_word_ariths)
  then have a: "a \<noteq> - 1" by auto
  show ?case
  proof (cases "ms = []")
    case True
    with Cons.prems a a1 show ?thesis by (simp add: Let_def)
  next
    case False
    with Cons.prems a1 Cons.IH [of "a + 1"] obtain ws where
      "connect_loop (Some n) (a + 1) (map Inl ms @ rest) = Some (Gave_Up (List.last ms), ws) \<and> length ws + 1 = length ms" by auto
    with Cons.prems a a1 False show ?thesis by (cases ms) (auto simp: Let_def)
  qed
qed simp

text \<open>The values that ask for no limit give the default of five attempts.\<close>

theorem no_limit_is_five:
  assumes "vars ''BITTICE_CDC_CONNECT_MAX_ATTEMPTS'' = Some v" "v = ''infinite'' \<or> v = ''0''"
  shows "default_connect_attempt_limit vars = Some 5"
  using assms by (auto simp: default_connect_attempt_limit_def eq_ignore_ascii_case_def)

section \<open>The initial copy\<close>

lemma fetch_column_info_worker [simp]:
  "wk_column_maps (snd (fetch_column_info x q rows w)) = wk_column_maps w"
  "wk_sync_all (snd (fetch_column_info x q rows w)) = wk_sync_all w"
  by (simp_all add: fetch_column_info_def Let_def)

lemma bootstrap_table_keys:
  assumes "bootstrap_table cx schema t mode r = Inr r'"
  shows "cs_bootstrapped_tables (cr_state r') = cs_bootstrapped_tables (cr_state r) \<and>
    wk_sync_all (cr_worker r') = wk_sync_all (cr_worker r) \<and>
    (\<exists>cols. wk_column_maps (cr_worker r') =
       hput (qualified_table_key (e_ext (cx_env cx)) (wk_sync_all (cr_worker r)) schema t) cols (wk_column_maps (cr_worker r)))"
  using assms by (auto simp: bootstrap_table_def Let_def rbind_Inr_iff case_prod_beta)

lemma refresh_columns_keys:
  assumes "refresh_columns cx bulk schema t q r = Inr r'"
  shows "cr_state r' = cr_state r \<and> cr_saved r' = cr_saved r \<and> wk_sync_all (cr_worker r') = wk_sync_all (cr_worker r) \<and>
    (\<exists>cols. wk_column_maps (cr_worker r') = hput q cols (wk_column_maps (cr_worker r)))"
  using assms by (auto simp: refresh_columns_def Let_def rbind_Inr_iff case_prod_beta split: option.splits if_splits)

text \<open>The keys of the tables mirrored, and those whose columns the worker knows.\<close>

definition mirrored :: "'c cdc_run \<Rightarrow> string list" where
  "mirrored r = cs_bootstrapped_tables (cr_state r)"

definition known :: "'c cdc_run \<Rightarrow> string set" where
  "known r = {q. hget (wk_column_maps (cr_worker r)) q \<noteq> None}"

lemma copy_table_keys:
  assumes "copy_table cx halted bulk schema t r = Inr (Goes r')" "q = qualified_table_key (e_ext (cx_env cx)) (wk_sync_all (cr_worker r)) schema t"
  shows "mirrored r' = (if q \<in> set (mirrored r) then mirrored r else mirrored r @ [q]) \<and> known r' = insert q (known r) \<and>
    wk_sync_all (cr_worker r') = wk_sync_all (cr_worker r)"
  using assms
  by (auto simp: copy_table_def mirrored_def known_def Let_def rbind_Inr_iff save_state_def split: if_splits
      dest!: bootstrap_table_keys refresh_columns_keys)

lemma copy_table_stops: "copy_table cx halted bulk schema t r = Inr (Stops r') \<Longrightarrow> mirrored r' = mirrored r \<and> cr_saved r' = Some (cr_state r')"
  by (auto simp: copy_table_def Let_def rbind_Inr_iff halt_flush_def save_state_def mirrored_def split: if_splits)

lemma copy_tables_Cons:
  assumes "copy_tables cx halted bulk schema (t # ts) r = Inr res"
  obtains r1 where "copy_table cx halted bulk schema t r = Inr (Goes r1)" "copy_tables cx halted bulk schema ts r1 = Inr res"
  | r1 where "copy_table cx halted bulk schema t r = Inr (Stops r1)" "res = Stops r1"
  using assms by (cases "copy_table cx halted bulk schema t r" rule: sum.exhaust; cases "projr (copy_table cx halted bulk schema t r)") auto

lemma copy_tables_goes:
  assumes "copy_tables cx halted bulk schema ts r = Inr (Goes r')" "wk_sync_all (cr_worker r) = all" "distinct (mirrored r)"
  shows "\<exists>new. mirrored r' = mirrored r @ new \<and> distinct (mirrored r') \<and>
    set (mirrored r') = set (mirrored r) \<union> qualified_table_key (e_ext (cx_env cx)) all schema ` set ts \<and>
    known r' = known r \<union> qualified_table_key (e_ext (cx_env cx)) all schema ` set ts"
  using assms
proof (induction ts arbitrary: r)
  case (Cons t ts)
  from Cons.prems(1) show ?case
  proof (cases rule: copy_tables_Cons)
    case (1 r1)
    note keys = copy_table_keys [OF 1(1) refl, unfolded Cons.prems(2)]
    with Cons.prems(3) have "distinct (mirrored r1)" by simp
    from Cons.IH [OF 1(2) _ this] keys obtain new where "mirrored r' = mirrored r1 @ new" "distinct (mirrored r')"
      "set (mirrored r') = set (mirrored r1) \<union> qualified_table_key (e_ext (cx_env cx)) all schema ` set ts"
      "known r' = known r1 \<union> qualified_table_key (e_ext (cx_env cx)) all schema ` set ts" by blast
    with keys show ?thesis by (auto split: if_splits)
  qed simp
qed simp

lemma copy_tables_stops:
  assumes "copy_tables cx halted bulk schema ts r = Inr (Stops r')" "wk_sync_all (cr_worker r) = all" "distinct (mirrored r)"
  shows "cr_saved r' = Some (cr_state r') \<and> (\<exists>new. mirrored r' = mirrored r @ new \<and> distinct (mirrored r') \<and>
    set new \<subseteq> qualified_table_key (e_ext (cx_env cx)) all schema ` set ts)"
  using assms
proof (induction ts arbitrary: r)
  case (Cons t ts)
  from Cons.prems(1) show ?case
  proof (cases rule: copy_tables_Cons)
    case (1 r1)
    note keys = copy_table_keys [OF 1(1) refl, unfolded Cons.prems(2)]
    with Cons.prems(3) have "distinct (mirrored r1)" by simp
    from Cons.IH [OF 1(2) _ this] keys obtain new where "cr_saved r' = Some (cr_state r')" "mirrored r' = mirrored r1 @ new"
      "distinct (mirrored r')" "set new \<subseteq> qualified_table_key (e_ext (cx_env cx)) all schema ` set ts" by blast
    with keys show ?thesis by (auto split: if_splits)
  next
    case (2 r1)
    with copy_table_stops [OF 2(1)] Cons.prems(3) show ?thesis by simp
  qed
qed simp


definition copying_run :: "(u128, postings) hmap cdc_run" where
  "copying_run = small_run\<lparr>cr_state := empty_cdc_state\<lparr>cs_bootstrapped_tables := [''t'']\<rparr>,
     cr_worker := small_worker\<lparr>wk_sync_all := False\<rparr>\<rparr>"


end
