(* ===== verification/Auth.thy ===== *)
theory Auth
  imports Table_Manager Table_Query
begin

text \<open>
  \<^verbatim>\<open>src/core/auth.rs\<close>: the credential of a request, and the user it belongs to. A saved read may name an auth
  table; its scheme says whether a credential is an API key, found by its first twelve bytes and compared
  by its SHA-256, or a legacy token, looked up as it is and by the claims of a JWT payload.

  Hashing, base64, the reading of JSON and of dates are the libraries' (\<open>auth_lib\<close>); \<open>now\<close> is the clock in
  their unit of time. \<open>mirror_fs\<close> is the mirror directory of an entity as the file system shows it: whether
  a path below it is a directory, and its subdirectories with the content of their \<^verbatim>\<open>manifest.json\<close>. The
  headers of a request map a name to the bytes of its first value.
\<close>

record auth_lib =
  al_sha256 :: "bytes \<Rightarrow> bytes"
  al_base64 :: "string \<Rightarrow> bytes option"
  al_json :: "bytes \<Rightarrow> json option"
  al_datetime :: "string \<Rightarrow> string \<Rightarrow> nat option"

record mirror_fs =
  fs_is_dir :: "string \<Rightarrow> string \<Rightarrow> bool"
  fs_subdirs :: "string \<Rightarrow> (string \<times> string option) list"

type_synonym headers = "string \<Rightarrow> bytes option"

section \<open>The credential of a request\<close>

text \<open>\<open>HeaderValue::to_str\<close>: visible ASCII and tabs.\<close>

definition header_str :: "bytes \<Rightarrow> string option" where
  "header_str bs = (if list_all (\<lambda>c. 32 \<le> bval c \<and> bval c < 127 \<or> bval c = 9) bs then Some bs else None)"

definition parse_authorization_value :: "string \<Rightarrow> string option" where
  "parse_authorization_value v =
     (let trimmed = trim v in
      if trimmed = [] then None
      else case strip_prefix ''Bearer '' trimmed of
        Some rest \<Rightarrow> let token = trim rest in if token \<noteq> [] then Some token else None
      | None \<Rightarrow> if starts_with trimmed ''Bearer'' then None else Some trimmed)"

definition api_key_header :: "headers \<Rightarrow> string option" where
  "api_key_header h =
     Option.bind (Option.bind (h ''x-api-key'') header_str) (\<lambda>s. if trim s = [] then None else Some (trim s))"

definition extract_credential_from_headers :: "headers \<Rightarrow> string option" where
  "extract_credential_from_headers h =
     (case Option.bind (Option.bind (h ''authorization'') header_str) parse_authorization_value of
        Some token \<Rightarrow> Some token
      | None \<Rightarrow> api_key_header h)"

definition extract_credential_from_metadata :: "headers \<Rightarrow> string option" where
  "extract_credential_from_metadata metadata =
     (case Option.bind (Option.bind (metadata ''authorization'') header_str) parse_authorization_value of
        Some token \<Rightarrow> Some token
      | None \<Rightarrow> api_key_header metadata)"

section \<open>API keys\<close>

definition API_KEY_PREFIX :: string where "API_KEY_PREFIX = ''bk_live_''"
definition API_KEY_LOOKUP_PREFIX_LEN :: nat where "API_KEY_LOOKUP_PREFIX_LEN = 12"

text \<open>\<open>Some Panicked\<close> is the slice that ends inside a character.\<close>

definition api_key_lookup_prefix :: "string \<Rightarrow> string sliced option" where
  "api_key_lookup_prefix token =
     (if length token < API_KEY_LOOKUP_PREFIX_LEN then None
      else if \<not> starts_with token API_KEY_PREFIX then None
      else Some (str_prefix token API_KEY_LOOKUP_PREFIX_LEN))"

definition parse_mirror_datetime :: "auth_lib \<Rightarrow> string \<Rightarrow> nat option" where
  "parse_mirror_datetime L raw =
     (case al_datetime L ''%Y-%m-%d %H:%M:%S%.f'' raw of
        Some t \<Rightarrow> Some t
      | None \<Rightarrow> al_datetime L ''%Y-%m-%d %H:%M:%S'' raw)"

definition api_key_row_active :: "auth_lib \<Rightarrow> nat \<Rightarrow> string \<Rightarrow> string \<Rightarrow> bool" where
  "api_key_row_active L now revoked_at expires_at =
     (if trim revoked_at \<noteq> [] then False
      else let expires = trim expires_at in
        if expires = [] then True
        else case parse_mirror_datetime L expires of Some dt \<Rightarrow> now < dt | None \<Rightarrow> False)"

definition hex_digest :: "bytes \<Rightarrow> string" where
  "hex_digest bs = concat (map (\<lambda>c. [hex_lower (bval c div 16), hex_lower (bval c mod 16)]) bs)"

definition eq_filter :: "string \<Rightarrow> string \<Rightarrow> filter_t" where
  "eq_filter field v =
     \<lparr>f_field = field, f_op = Eq, f_value = v, f_value_to = None, f_type = None, f_options = []\<rparr>"

definition cell_or_empty :: "string list \<Rightarrow> nat \<Rightarrow> string" where
  "cell_or_empty r i = (if i < length r then r ! i else [])"

text \<open>The position of the first column of that name.\<close>

fun header_index :: "string \<Rightarrow> string list \<Rightarrow> nat option" where
  "header_index nm [] = None"
| "header_index nm (h # hs) = (if h = nm then Some 0 else map_option Suc (header_index nm hs))"

fun key_scan :: "auth_lib \<Rightarrow> nat \<Rightarrow> string \<Rightarrow> nat \<Rightarrow> nat \<Rightarrow> nat \<Rightarrow> nat \<Rightarrow> string list list \<Rightarrow> string option" where
  "key_scan L now expected_hex id_idx sha_idx revoked_idx expires_idx [] = None"
| "key_scan L now expected_hex id_idx sha_idx revoked_idx expires_idx (r # rows) =
     (if length r \<le> id_idx then None
      else let user_id = r ! id_idx; stored = cell_or_empty r sha_idx in
        if trim stored = [] then key_scan L now expected_hex id_idx sha_idx revoked_idx expires_idx rows
        else if \<not> api_key_row_active L now (cell_or_empty r revoked_idx) (cell_or_empty r expires_idx)
        then key_scan L now expected_hex id_idx sha_idx revoked_idx expires_idx rows
        else if stored = expected_hex then Some user_id
        else key_scan L now expected_hex id_idx sha_idx revoked_idx expires_idx rows)"

definition api_key_fields :: "string \<Rightarrow> string list" where
  "api_key_fields id_col = [id_col, ''key_sha256'', ''prefix'', ''revoked_at'', ''expires_at'']"

definition scan_result :: "auth_lib \<Rightarrow> nat \<Rightarrow> string \<Rightarrow> string \<Rightarrow> query_result \<Rightarrow> string option" where
  "scan_result L now token id_col results =
     Option.bind (header_index id_col (q_headers results)) (\<lambda>id_idx.
     Option.bind (header_index ''key_sha256'' (q_headers results)) (\<lambda>sha_idx.
     Option.bind (header_index ''revoked_at'' (q_headers results)) (\<lambda>revoked_idx.
     Option.bind (header_index ''expires_at'' (q_headers results)) (\<lambda>expires_idx.
       key_scan L now (hex_digest (al_sha256 L token)) id_idx sha_idx revoked_idx expires_idx (q_rows results)))))"

definition lookup_api_key_user_id_sha256 :: "'c env \<Rightarrow> auth_lib \<Rightarrow> nat \<Rightarrow> string \<Rightarrow> string \<Rightarrow> string \<Rightarrow> string \<Rightarrow> string \<Rightarrow>
    'c manager \<Rightarrow> string option \<times> 'c manager" where
  "lookup_api_key_user_id_sha256 E L now entity table_name lookup_prefix token id_col mg =
     (case get_table E entity table_name mg of
        Inl e \<Rightarrow> (None, mg)
      | Inr (t, mg) \<Rightarrow>
          (case table_search E (api_key_fields id_col) [eq_filter ''prefix'' lookup_prefix] And [] [] 32 0 None t of
             Inl e \<Rightarrow> (None, mg)
           | Inr (results, t) \<Rightarrow> (scan_result L now token id_col results, put_table entity table_name t mg)))"

section \<open>The auth table\<close>

definition read_table_record_count :: "auth_lib \<Rightarrow> string option \<Rightarrow> nat" where
  "read_table_record_count L manifest_json =
     (case Option.bind (Option.bind manifest_json from_utf8) (al_json L) of
        None \<Rightarrow> 0
      | Some j \<Rightarrow> (case Option.bind (json_get j ''segments'') as_array of
          None \<Rightarrow> 0
        | Some segments \<Rightarrow>
            sum_list (map (\<lambda>s. hdefault 0 (Option.bind (json_get s ''record_count'') as_u64)) segments) mod 2 ^ 64))"

definition resolve_table_name_case_insensitive ::
    "ext \<Rightarrow> auth_lib \<Rightarrow> mirror_fs \<Rightarrow> string \<Rightarrow> string \<Rightarrow> string option" where
  "resolve_table_name_case_insensitive x L D entity configured_table =
     (let configured_lower = to_lowercase x configured_table in
      if fs_is_dir D entity configured_table then Some configured_table
      else let candidates = map (\<lambda>(nm, m). (nm, read_table_record_count L m))
             (filter (\<lambda>(nm, m). to_lowercase x nm = configured_lower) (fs_subdirs D entity)) in
        if candidates = [] then None
        else case List.find (\<lambda>(nm, n). nm = configured_table) candidates of
          Some (exact, _) \<Rightarrow> Some exact
        | None \<Rightarrow> Some (fst (hd (sort_cmp top_cmp candidates))))"

section \<open>Legacy tokens\<close>

definition jwt_claims :: "string list" where
  "jwt_claims = [''sub'', ''username'', ''email'', ''user_id'', ''id'']"

definition claim_candidates :: "json \<Rightarrow> string list" where
  "claim_candidates j =
     List.map_filter (\<lambda>key. Option.bind (Option.bind (json_get j key) as_str) (\<lambda>v. if trim v \<noteq> [] then Some v else None))
       jwt_claims"

definition build_token_candidates :: "auth_lib \<Rightarrow> string \<Rightarrow> string list" where
  "build_token_candidates L token =
     (let own = (if trim token \<noteq> [] then [token] else []);
          parts = split_pred (\<lambda>c. c = CHR ''.'') token;
          claimed =
            (if CHR ''.'' \<in> set token \<and> 1 < length parts
             then case Option.bind (al_base64 L (parts ! 1)) (al_json L) of Some j \<Rightarrow> claim_candidates j | None \<Rightarrow> []
             else []) in
      remdups_adj (sort (own @ claimed)))"

text \<open>The candidates in turn, until one has a row; an error of the search ends it.\<close>

fun legacy_scan :: "'c env \<Rightarrow> string \<Rightarrow> string \<Rightarrow> string list \<Rightarrow> 'c table \<Rightarrow> string option \<times> 'c table" where
  "legacy_scan E t_col i_col [] t = (None, t)"
| "legacy_scan E t_col i_col (v # vs) t =
     (case table_search E [i_col] [eq_filter t_col v] And [] [] 1 0 None t of
        Inl e \<Rightarrow> (None, t)
      | Inr (results, t) \<Rightarrow>
          (case q_rows results of
             [] \<Rightarrow> legacy_scan E t_col i_col vs t
           | r # _ \<Rightarrow> (case r of [] \<Rightarrow> None | user_id # _ \<Rightarrow> Some user_id, t)))"

section \<open>The service\<close>


text \<open>The context, or the panic of the slice, with the manager.\<close>

definition login :: "string \<Rightarrow> string \<Rightarrow> saved_auth_config \<Rightarrow> string \<Rightarrow> auth_context" where
  "login entity token c user_id =
     \<lparr>ac_user_id = user_id, ac_token = token, ac_entity = entity, ac_filter_col = sa_filter_col c\<rparr>"

definition resolve_api_key_sha256 :: "'c env \<Rightarrow> auth_lib \<Rightarrow> mirror_fs \<Rightarrow> nat \<Rightarrow> string \<Rightarrow> string \<Rightarrow> saved_auth_config \<Rightarrow>
    'c manager \<Rightarrow> auth_context option sliced \<times> 'c manager" where
  "resolve_api_key_sha256 E L D now entity token c mg =
     (case api_key_lookup_prefix token of
        None \<Rightarrow> (Sliced None, mg)
      | Some Panicked \<Rightarrow> (Panicked, mg)
      | Some (Sliced lookup_prefix) \<Rightarrow>
          (case resolve_table_name_case_insensitive (e_ext E) L D entity (sa_table c) of
             None \<Rightarrow> (Sliced None, mg)
           | Some table_name \<Rightarrow>
               (case lookup_api_key_user_id_sha256 E L now entity table_name lookup_prefix token (sa_id_col c) mg of
                  (user_id, mg) \<Rightarrow> (Sliced (map_option (login entity token c) user_id), mg))))"

definition resolve_legacy_token :: "'c env \<Rightarrow> auth_lib \<Rightarrow> mirror_fs \<Rightarrow> string \<Rightarrow> string \<Rightarrow> saved_auth_config \<Rightarrow>
    'c manager \<Rightarrow> auth_context option \<times> 'c manager" where
  "resolve_legacy_token E L D entity token c mg =
     (let candidates = build_token_candidates L token in
      if candidates = [] then (None, mg)
      else case resolve_table_name_case_insensitive (e_ext E) L D entity (sa_table c) of
        None \<Rightarrow> (None, mg)
      | Some table_name \<Rightarrow>
          (case get_table E entity table_name mg of
             Inl e \<Rightarrow> (None, mg)
           | Inr (t, mg) \<Rightarrow>
               (case legacy_scan E (sa_token_col c) (sa_id_col c) candidates t of
                  (user_id, t) \<Rightarrow> (map_option (login entity token c) user_id, put_table entity table_name t mg))))"

definition resolve_token :: "'c env \<Rightarrow> auth_lib \<Rightarrow> mirror_fs \<Rightarrow> nat \<Rightarrow> string \<Rightarrow> string \<Rightarrow> saved_auth_config option \<Rightarrow>
    'c manager \<Rightarrow> auth_context option sliced \<times> 'c manager" where
  "resolve_token E L D now entity token config mg =
     (case config of
        None \<Rightarrow> (Sliced None, mg)
      | Some c \<Rightarrow>
          if \<not> sa_enabled c then (Sliced None, mg)
          else let token = trim token in
            if token = [] then (Sliced None, mg)
            else if uses_api_key_sha256 c then resolve_api_key_sha256 E L D now entity token c mg
            else case resolve_legacy_token E L D entity token c mg of (r, mg) \<Rightarrow> (Sliced r, mg))"

section \<open>Credentials are ASCII\<close>

lemma first_strip_suffix: "first_strip ws s = Some r \<Longrightarrow> \<exists>w. s = w @ r"
  by (induction ws) (auto simp: strip_prefix_Some split: option.splits if_splits)

lemma trim_with_suffix: "\<exists>w. s = w @ trim_with ws s"
proof (induction ws s rule: trim_with.induct)
  case (1 ws s)
  show ?case
  proof (cases "first_strip ws s")
    case None
    then show ?thesis by (simp add: trim_with.simps [of ws s])
  next
    case (Some r)
    with first_strip_suffix obtain w where "s = w @ r" by blast
    moreover from 1 Some obtain w' where "r = w' @ trim_with ws r" by blast
    moreover have "trim_with ws s = trim_with ws r" using Some by (simp add: trim_with.simps [of ws s])
    ultimately have "s = (w @ w') @ trim_with ws s" by simp
    then show ?thesis by blast
  qed
qed

lemma trim_subset: "set (trim s) \<subseteq> set s"
proof -
  obtain w where "s = w @ trim_start s" using trim_with_suffix unfolding trim_start_def by metis
  moreover obtain v where "rev (trim_start s) = v @ rev (trim s)"
    using trim_with_suffix unfolding trim_def trim_end_def by (metis rev_rev_ident)
  ultimately have "set (trim_start s) \<subseteq> set s" "set (rev (trim s)) \<subseteq> set (rev (trim_start s))"
    by (metis Un_upper2 set_append)+
  then show ?thesis by auto
qed

definition ascii :: "string \<Rightarrow> bool" where
  "ascii s \<longleftrightarrow> (\<forall>c\<in>set s. bval c < 128)"

lemma ascii_trim: "ascii s \<Longrightarrow> ascii (trim s)"
  using trim_subset by (auto simp: ascii_def)

lemma header_ascii: "header_str bs = Some s \<Longrightarrow> ascii s"
  by (auto simp: header_str_def ascii_def list_all_iff split: if_splits)

lemma authorization_ascii: "ascii s \<Longrightarrow> parse_authorization_value s = Some token \<Longrightarrow> ascii token"
proof -
  assume s: "ascii s" and p: "parse_authorization_value s = Some token"
  have "ascii r" if "strip_prefix ''Bearer '' (trim s) = Some r" for r
    using that ascii_trim [OF s] by (auto simp: strip_prefix_Some ascii_def)
  with p ascii_trim [OF s] show ?thesis
    by (auto simp: parse_authorization_value_def Let_def ascii_trim split: option.splits if_splits simp del: strip_prefix.simps)
qed

lemma credential_ascii: "extract_credential_from_headers h = Some token \<Longrightarrow> ascii token"
  using header_ascii authorization_ascii ascii_trim
  by (auto simp: extract_credential_from_headers_def api_key_header_def bind_eq_Some_conv split: option.splits if_splits)

lemma prefix_of_ascii: "ascii token \<Longrightarrow> api_key_lookup_prefix token \<noteq> Some Panicked"
proof -
  assume a: "ascii token"
  have "char_boundary token n" if "n \<le> length token" for n
  proof (cases "n = length token")
    case False
    with a that have "bval (token ! n) < 128" by (auto simp: ascii_def)
    with that False show ?thesis by (simp add: char_boundary_def)
  qed (simp add: char_boundary_def)
  then show ?thesis by (auto simp: api_key_lookup_prefix_def str_prefix_def API_KEY_LOOKUP_PREFIX_LEN_def)
qed

lemma resolve_no_panic: "api_key_lookup_prefix (trim token) \<noteq> Some Panicked \<Longrightarrow>
    fst (resolve_token E L D now entity token config mg) \<noteq> Panicked"
  by (auto simp: resolve_token_def resolve_api_key_sha256_def Let_def split: option.splits sliced.splits prod.splits)

section \<open>Who is let in\<close>

definition column :: "query_result \<Rightarrow> string list \<Rightarrow> string \<Rightarrow> string option" where
  "column results r nm =
     Option.bind (header_index nm (q_headers results)) (\<lambda>i. if i < length r then Some (r ! i) else None)"

lemma key_scan_Some:
  "key_scan L now hex a b c d rows = Some u \<Longrightarrow>
     \<exists>r\<in>set rows. a < length r \<and> u = r ! a \<and> trim (cell_or_empty r b) \<noteq> [] \<and> cell_or_empty r b = hex \<and>
       api_key_row_active L now (cell_or_empty r c) (cell_or_empty r d)"
  by (induction rows) (auto simp: Let_def split: if_splits)

lemma scan_result_Some:
  "scan_result L now token id_col results = Some u \<Longrightarrow>
     \<exists>r\<in>set (q_rows results). column results r id_col = Some u \<and>
       column results r ''key_sha256'' = Some (hex_digest (al_sha256 L token)) \<and>
       api_key_row_active L now (hdefault [] (column results r ''revoked_at'')) (hdefault [] (column results r ''expires_at''))"
proof -
  assume "scan_result L now token id_col results = Some u"
  then obtain a b c d where idx: "header_index id_col (q_headers results) = Some a" "header_index ''key_sha256'' (q_headers results) = Some b"
      "header_index ''revoked_at'' (q_headers results) = Some c" "header_index ''expires_at'' (q_headers results) = Some d"
    and "key_scan L now (hex_digest (al_sha256 L token)) a b c d (q_rows results) = Some u"
    by (auto simp: scan_result_def bind_eq_Some_conv)
  with key_scan_Some obtain r where r: "r \<in> set (q_rows results)" "a < length r" "u = r ! a" "trim (cell_or_empty r b) \<noteq> []"
      "cell_or_empty r b = hex_digest (al_sha256 L token)" "api_key_row_active L now (cell_or_empty r c) (cell_or_empty r d)"
    by blast
  from r(4) have "b < length r" by (auto simp: cell_or_empty_def trim_graphic split: if_splits)
  with r idx show ?thesis by (intro bexI [of _ r]) (auto simp: column_def cell_or_empty_def)
qed

lemma hex_digest_inj: "hex_digest a = hex_digest b \<Longrightarrow> a = b"
proof (induction a arbitrary: b)
  case (Cons c a)
  then obtain d b' where b: "b = d # b'" by (cases b) (auto simp: hex_digest_def)
  with Cons.prems have "hex_lower (bval c div 16) = hex_lower (bval d div 16)" "hex_lower (bval c mod 16) = hex_lower (bval d mod 16)"
    "hex_digest a = hex_digest b'"
    by (simp_all add: hex_digest_def)
  then have "c = d" "a = b'" using hex_pair_inj Cons.IH by blast+
  with b \<open>a = b'\<close> show ?case by simp
qed (cases b; simp add: hex_digest_def)

lemma candidates_hold: "sort_cmp top_cmp cs = m # ms \<Longrightarrow> c \<in> set cs \<Longrightarrow> snd c < snd m \<or> snd c = snd m \<and> fst m \<le> fst c"
proof -
  assume m: "sort_cmp top_cmp cs = m # ms" and c: "c \<in> set cs"
  then have "c = m \<or> c \<in> set ms" by (metis set_ConsD set_sort)
  with m topn_sorted [of cs] show ?thesis by auto
qed

section \<open>A table with one key\<close>

definition one_cell :: "string \<Rightarrow> mmap_pair" where
  "one_cell v = (col_data ascii_ext [v], offsets_from ascii_ext 0 [v])"

definition key_row :: "(string \<times> string) list" where
  "key_row = [(''user_id'', ''x''), (''key_sha256'', ''61''), (''prefix'', ''bk_live_abcd''), (''revoked_at'', []), (''expires_at'', [])]"

definition key_segment :: segment where
  "key_segment = (segment_new 5)\<lparr>s_is_immutable := True, s_record_count := 1, s_mmap_cache := map (\<lambda>(c, v). (c, one_cell v)) key_row\<rparr>"

definition key_table :: "(u128, postings) hmap table" where
  "key_table = (empty_table ''keys'' (manifest_new\<lparr>m_original_fields := map fst key_row, m_primary_key := ''id''\<rparr>))
     \<lparr>t_active := None, t_immutable := [key_segment],
      t_exact := [(''prefix'', exact_index_insert ascii_ext small_lru (exact_index_new small_lru) ''bk_live_abcd'' [(5, {0})])]\<rparr>"

definition key_manager :: "(u128, postings) hmap manager" where
  "key_manager = (manager_new None [])\<lparr>mg_tables := [(''e/keys'', key_table)], mg_open_count := 1\<rparr>"

definition key_config :: saved_auth_config where
  "key_config = \<lparr>sa_enabled = True, sa_table = ''keys'', sa_token_col = ''prefix'', sa_id_col = ''user_id'',
     sa_filter_col = ''owner'', sa_scheme = Some ''api_key_sha256''\<rparr>"

text \<open>A hash whose digest is one byte, \<open>a\<close>, in hexadecimal \<open>61\<close>.\<close>

definition small_lib :: auth_lib where
  "small_lib = \<lparr>al_sha256 = (\<lambda>_. ''a''), al_base64 = (\<lambda>_. None), al_json = (\<lambda>_. None), al_datetime = (\<lambda>_ _. None)\<rparr>"

definition all_dirs :: mirror_fs where
  "all_dirs = \<lparr>fs_is_dir = (\<lambda>_ _. True), fs_subdirs = (\<lambda>_. [])\<rparr>"

lemma key_simps:
  "t_active key_table = None" "t_immutable key_table = [key_segment]" "pk_columns key_table = [''id'']" "t_name key_table = ''keys''"
  "s_id key_segment = 5" "hget (s_dir key_segment) nm = None" "s_deleted key_segment = {}"
  "hget (s_mmap_cache key_segment) f = map_option one_cell (map_of key_row f)"
  by (simp_all add: key_table_def key_segment_def segment_new_def pk_columns_def manifest_new_def empty_table_def hget_def map_of_map)

lemma ascii_read: "list_all (\<lambda>c. bval c < 128) v \<Longrightarrow> length v < 100 \<Longrightarrow> read_value_from_mmap (one_cell v) 0 = Sliced v"
proof -
  assume a: "list_all (\<lambda>c. bval c < 128) v" "length v < 100"
  have "utf8_valid v" using a(1) by (induction v) (simp_all add: utf8_valid.simps utf8_head_def)
  moreover have "length (col_data ascii_ext [v]) < 2 ^ 63" using a(2) by (simp add: col_data_def ascii_ext_def)
  ultimately show ?thesis
    using read_cell [OF ascii_layout, of 0 "[v]"] by (simp add: read_value_from_mmap_def one_cell_def from_utf8_lossy_valid)
qed

lemma key_rows: "get_rows_batch (map fst key_row) [(5, 0)] key_table = Inr ([map snd key_row], key_table)"
proof -
  have "filter (\<lambda>f. hget (s_mmap_cache key_segment) f = None) (map fst key_row) = []"
    by (auto simp: filter_empty_conv key_simps map_of_eq_None_iff image_iff)
  then have "ensure_mmaps_batch (s_dir key_segment) (map fst key_row) key_segment = key_segment" by (simp add: ensure_mmaps_batch_def)
  then have e: "ensure_needed (map fst key_row) n key_table = key_table" for n
    by (simp add: ensure_needed_def key_simps)
  have sg: "segment_of key_table 5 = Some key_segment" by (simp add: segment_of_def key_simps)
  have g: "get_mmaps_batch key_segment (map fst key_row) = map (\<lambda>(c, v). Some (one_cell v)) key_row"
    by (simp add: get_mmaps_batch_def key_simps) (simp add: key_row_def)
  have "row_cells (\<lambda>i. if i \<in> fst ` set [(5, 0)] then map_option (\<lambda>s. get_mmaps_batch s (map fst key_row)) (segment_of key_table i) else None)
      (length (map fst key_row)) (5, 0) = map (\<lambda>(c, v). read_value_from_mmap (one_cell v) 0) key_row"
    by (simp add: row_cells_def sg g) (simp add: key_row_def cell_via_def)
  moreover have "sliced_list (map (\<lambda>(c, v). read_value_from_mmap (one_cell v) 0) key_row) = Sliced (map snd key_row)"
    by (simp add: key_row_def ascii_read bval_def)
  ultimately show ?thesis by (simp add: get_rows_direct Let_def e)
qed

lemma key_match: "exact_matches_for_field_value small_env (eq_filter ''prefix'' ''bk_live_abcd'') key_table = Inr (Some [(5, {0})], key_table)"
proof -
  let ?i = "exact_index_insert ascii_ext small_lru (exact_index_new small_lru) ''bk_live_abcd'' [(5, {0})]"
  have x: "hget (t_exact key_table) ''prefix'' = Some ?i" by (simp add: key_table_def hget_Cons)
  have n: "\<not> exact_index_missing_immutable_segments small_env key_table f idx" for f idx
    by (simp add: exact_index_missing_immutable_segments_def Let_def key_simps)
  have k: "should_skip_exact_index small_env key_table f \<longleftrightarrow> f = ''id''" for f
    by (simp add: should_skip_exact_index_def field_is_pk_column_def key_simps env_simps)
  have st: "store_exact ''prefix'' ?i key_table = key_table"
    by (simp add: store_exact_def key_table_def hput_def)
  have g: "exact_index_get ascii_ext small_lru plain_codec ?i ''bk_live_abcd'' = (Some [(5, {0})], ?i)"
    by (simp add: exact_index_get_def exact_index_insert_def delta_put_def Let_def)
  show ?thesis
    by (simp add: exact_matches_for_field_value_def load_exact_index_def eq_filter_def x k n exact_matches_one_value_def env_simps g st
        live_bitmap_for_segment_def key_simps)
qed

lemma key_search:
  "table_search small_env (api_key_fields ''user_id'') [eq_filter ''prefix'' ''bk_live_abcd''] And [] [] 32 0 None key_table =
    Inr (\<lparr>q_headers = map fst key_row, q_rows = [map snd key_row], q_row_ids = Some [(5, 0)], q_total_found = 1, q_aggregations = None\<rparr>, key_table)"
proof -
  have nf: "normalize_filter small_env key_table (eq_filter ''prefix'' v) = eq_filter ''prefix'' v" for v
    by (simp add: normalize_filter_def field_is_pk_column_def key_simps eq_filter_def two_simps)
  have m: "search_matches small_env [eq_filter ''prefix'' ''bk_live_abcd''] And key_table = Inr ([(5, {0})], key_table)"
    using key_match
    by (simp add: search_matches_def key_simps composite_pk_from_eq_filters_def exact_then_scan_def exact_matches_for_eq_filters_def
        eq_filter_def Let_def field_is_pk_column_def)
  have "api_key_fields ''user_id'' = map fst key_row" by (simp add: api_key_fields_def key_row_def)
  then show ?thesis
    using key_rows by (simp add: table_search_def inject_rls_def nf m Let_def bitmap_ids_def)
qed

lemma key_login: "\<exists>mg'. resolve_token small_env small_lib all_dirs now ''e'' ''bk_live_abcdefgh'' (Some key_config) key_manager =
    (Sliced (Some (login ''e'' ''bk_live_abcdefgh'' key_config ''x'')), mg')"
proof -
  have p: "api_key_lookup_prefix ''bk_live_abcdefgh'' = Some (Sliced ''bk_live_abcd'')"
    by (simp add: api_key_lookup_prefix_def API_KEY_LOOKUP_PREFIX_LEN_def API_KEY_PREFIX_def starts_with_def str_prefix_def char_boundary_def bval_def)
  have t: "trim ''bk_live_abcdefgh'' = ''bk_live_abcdefgh''" "trim ''61'' = ''61''" "trim [] = []"
    by (simp_all add: trim_graphic graphic_def bval_def)
  have g: "get_table small_env ''e'' ''keys'' key_manager = Inr (key_table, key_manager)"
    by (simp add: get_table_def get_table_with_mode_def table_key_def key_manager_def hget_Cons)
  have c: "uses_api_key_sha256 key_config" "sa_enabled key_config" "sa_table key_config = ''keys''" "sa_id_col key_config = ''user_id''"
    by (simp_all add: uses_api_key_sha256_def key_config_def eq_ignore_ascii_case_def)
  have d: "hex_digest (al_sha256 small_lib v) = ''61''" for v
    by (simp add: hex_digest_def small_lib_def hex_lower_def bval_def)
  have r: "scan_result small_lib now v ''user_id'' \<lparr>q_headers = map fst key_row, q_rows = [map snd key_row], q_row_ids = ids, q_total_found = n, q_aggregations = None\<rparr> = Some ''x''" for v ids n
    by (simp add: scan_result_def d) (simp add: key_row_def cell_or_empty_def t api_key_row_active_def)
  show ?thesis
    by (simp add: resolve_token_def resolve_api_key_sha256_def resolve_table_name_case_insensitive_def all_dirs_def Let_def t c p
        lookup_api_key_user_id_sha256_def g key_search r)
qed

section \<open>Properties\<close>

text \<open>C12: Who is let in by an API key: the configuration is enabled, the key starts with \<open>bk_live_\<close>, and among
  the rows of the auth table the search for its first twelve bytes returned there is one, not revoked and not
  expired, that holds the hexadecimal SHA-256 of the whole key, and the identity is the id of that row.\<close>

theorem api_key_login:
  assumes "resolve_token E L D now entity token (Some c) mg = (Sliced (Some ctx), mg')" "uses_api_key_sha256 c"
  shows "\<exists>table_name t mg1 results t' r. sa_enabled c \<and> starts_with (trim token) API_KEY_PREFIX \<and>
    resolve_table_name_case_insensitive (e_ext E) L D entity (sa_table c) = Some table_name \<and>
    get_table E entity table_name mg = Inr (t, mg1) \<and>
    table_search E (api_key_fields (sa_id_col c)) [eq_filter ''prefix'' (take API_KEY_LOOKUP_PREFIX_LEN (trim token))] And [] [] 32 0 None t
      = Inr (results, t') \<and>
    r \<in> set (q_rows results) \<and> column results r (sa_id_col c) = Some (ac_user_id ctx) \<and>
    column results r ''key_sha256'' = Some (hex_digest (al_sha256 L (trim token))) \<and>
    api_key_row_active L now (hdefault [] (column results r ''revoked_at'')) (hdefault [] (column results r ''expires_at'')) \<and>
    ctx = login entity (trim token) c (ac_user_id ctx)"
proof -
  from assms obtain p table_name user where sa: "sa_enabled c" and p: "api_key_lookup_prefix (trim token) = Some (Sliced p)"
    and tn: "resolve_table_name_case_insensitive (e_ext E) L D entity (sa_table c) = Some table_name"
    and lk: "lookup_api_key_user_id_sha256 E L now entity table_name p (trim token) (sa_id_col c) mg = (Some user, mg')"
    and ctx: "ctx = login entity (trim token) c user"
    by (auto simp: resolve_token_def resolve_api_key_sha256_def Let_def split: if_splits option.splits sliced.splits prod.splits)
  from p have pr: "starts_with (trim token) API_KEY_PREFIX" "p = take API_KEY_LOOKUP_PREFIX_LEN (trim token)"
    by (auto simp: api_key_lookup_prefix_def str_prefix_def split: if_splits)
  from lk obtain t mg1 results t' where g: "get_table E entity table_name mg = Inr (t, mg1)"
      "table_search E (api_key_fields (sa_id_col c)) [eq_filter ''prefix'' p] And [] [] 32 0 None t = Inr (results, t')"
    and "scan_result L now (trim token) (sa_id_col c) results = Some user"
    by (auto simp: lookup_api_key_user_id_sha256_def split: sum.splits prod.splits)
  moreover have "ac_user_id ctx = user" using ctx by (simp add: login_def)
  ultimately show ?thesis using sa pr tn ctx scan_result_Some by metis
qed

theorem api_key_login_witness:
  "\<exists>mg' r. resolve_token small_env small_lib all_dirs 0 ''e'' ''bk_live_abcdefgh'' (Some key_config) key_manager =
    (Sliced (Some (login ''e'' ''bk_live_abcdefgh'' key_config ''x'')), mg') \<and> r \<in> {map snd key_row} \<and> r ! 1 = ''61''"
proof -
  obtain mg' where k: "resolve_token small_env small_lib all_dirs 0 ''e'' ''bk_live_abcdefgh'' (Some key_config) key_manager =
    (Sliced (Some (login ''e'' ''bk_live_abcdefgh'' key_config ''x'')), mg')" using key_login by blast
  have "uses_api_key_sha256 key_config" by (simp add: uses_api_key_sha256_def key_config_def eq_ignore_ascii_case_def)
  from api_key_login [OF k this] k show ?thesis by (auto simp: key_row_def)
qed

text \<open>A credential taken from the headers of a request or from gRPC metadata is ASCII, so the slice of its
  first twelve bytes never ends inside a character: resolving it does not panic, whatever the configuration.\<close>

theorem credential_never_panics:
  assumes "extract_credential_from_headers h = Some token \<or> extract_credential_from_metadata h = Some token"
  shows "fst (resolve_token E L D now entity token config mg) \<noteq> Panicked"
proof -
  have "ascii token"
    using assms credential_ascii [of h token]
    by (auto simp: extract_credential_from_metadata_def extract_credential_from_headers_def)
  then show ?thesis by (intro resolve_no_panic prefix_of_ascii ascii_trim)
qed

theorem credential_never_panics_witness:
  "extract_credential_from_headers (\<lambda>n. if n = ''x-api-key'' then Some ''bk_live_abcdefgh'' else None) = Some ''bk_live_abcdefgh'' \<and>
   fst (resolve_token small_env small_lib all_dirs 0 ''e'' ''bk_live_abcdefgh'' (Some key_config) key_manager) \<noteq> Panicked"
proof -
  let ?h = "\<lambda>n. if n = ''x-api-key'' then Some ''bk_live_abcdefgh'' else None"
  have "extract_credential_from_headers ?h = Some ''bk_live_abcdefgh''"
    by (simp add: extract_credential_from_headers_def api_key_header_def header_str_def trim_graphic graphic_def bval_def)
  with credential_never_panics [of ?h "''bk_live_abcdefgh''" small_env small_lib all_dirs 0 "''e''" "Some key_config" key_manager]
  show ?thesis by blast
qed

text \<open>Outside those two ways of obtaining it, a key can end the lookup in a panic.\<close>

theorem split_character_panics: "api_key_lookup_prefix (''bk_live_abc'' @ [CHR 0xC3, CHR 0xA9]) = Some Panicked"
  by (simp add: api_key_lookup_prefix_def API_KEY_LOOKUP_PREFIX_LEN_def API_KEY_PREFIX_def starts_with_def str_prefix_def
      char_boundary_def bval_def)

text \<open>A legacy token is looked up by the claims of its payload, whatever its header and its signature are: the
  claimed user is a candidate without any check.\<close>

theorem claims_need_no_signature:
  assumes "al_base64 L payload = Some b" "al_json L b = Some j" "claim \<in> set jwt_claims" "json_get j claim = Some (JStr user)"
    "trim user \<noteq> []" "CHR ''.'' \<notin> set header" "CHR ''.'' \<notin> set payload"
  shows "user \<in> set (build_token_candidates L (header @ ''.'' @ payload @ ''.'' @ signature))"
proof -
  have s: "split_pred (\<lambda>c. c = CHR ''.'') (a @ CHR ''.'' # r) = a # split_pred (\<lambda>c. c = CHR ''.'') r" if "CHR ''.'' \<notin> set a" for a r
    using that by (induction a) fastforce+
  have parts: "split_pred (\<lambda>c. c = CHR ''.'') (header @ CHR ''.'' # payload @ CHR ''.'' # signature) = header # payload # split_pred (\<lambda>c. c = CHR ''.'') signature"
    using assms(6,7) by (simp add: s)
  have "user \<in> set (claim_candidates j)"
    using assms(3-5) by (force simp: claim_candidates_def List.map_filter_def)
  with assms(1,2) show ?thesis
    by (simp add: build_token_candidates_def Let_def parts)
qed

text \<open>The auth table is the directory of the configured name when there is one; otherwise one whose name
  agrees up to case, with the most records, the first by name among those with as many.\<close>

theorem auth_table_choice:
  assumes "resolve_table_name_case_insensitive x L D entity c = Some n" "\<not> fs_is_dir D entity c"
  shows "to_lowercase x n = to_lowercase x c \<and> (\<exists>m. (n, m) \<in> set (fs_subdirs D entity) \<and>
    (n = c \<or> (\<forall>(n', m') \<in> set (fs_subdirs D entity). to_lowercase x n' = to_lowercase x c \<longrightarrow>
       read_table_record_count L m' < read_table_record_count L m \<or>
       read_table_record_count L m' = read_table_record_count L m \<and> n \<le> n')))"
proof -
  define cs where "cs = map (\<lambda>(nm, m). (nm, read_table_record_count L m))
    (filter (\<lambda>(nm, m). to_lowercase x nm = to_lowercase x c) (fs_subdirs D entity))"
  have mem: "(nm, k) \<in> set cs \<longleftrightarrow> (\<exists>m. (nm, m) \<in> set (fs_subdirs D entity) \<and> to_lowercase x nm = to_lowercase x c \<and> k = read_table_record_count L m)" for nm k
    by (force simp: cs_def)
  have r: "(case List.find (\<lambda>(nm, n). nm = c) cs of Some (exact, _) \<Rightarrow> Some exact | None \<Rightarrow> Some (fst (hd (sort_cmp top_cmp cs)))) = Some n" "cs \<noteq> []"
    using assms unfolding cs_def by (simp_all add: resolve_table_name_case_insensitive_def Let_def cong: option.case_cong split: if_splits)
  show ?thesis
  proof (cases "List.find (\<lambda>(nm, n). nm = c) cs")
    case None
    obtain a k ms where so: "sort_cmp top_cmp cs = (a, k) # ms" using r(2) by (metis list.exhaust length_sort_cmp length_0_conv surj_pair)
    with r None have n: "n = a" by simp
    have "(a, k) \<in> set cs" using so by (metis list.set_intros(1) set_sort)
    then obtain m where m: "(n, m) \<in> set (fs_subdirs D entity)" "to_lowercase x n = to_lowercase x c" "k = read_table_record_count L m"
      using mem n by blast
    have "read_table_record_count L m' < k \<or> read_table_record_count L m' = k \<and> n \<le> n'"
      if "(n', m') \<in> set (fs_subdirs D entity)" "to_lowercase x n' = to_lowercase x c" for n' m'
      using candidates_hold [OF so, of "(n', read_table_record_count L m')"] mem that n by auto
    with m show ?thesis by auto
  next
    case (Some p)
    with r have n: "n = c" "fst p = c" "p \<in> set cs" by (auto simp: find_Some_iff split: prod.splits)
    with mem [of "fst p" "snd p"] show ?thesis by auto
  qed
qed

end
