(* ===== verification/Server_Shape.thy ===== *)
theory Server_Shape
  imports Table_Manager
begin

text \<open>
  The shaping of a read's response (\<^verbatim>\<open>src/server/mod.rs\<close>): rows as JSON objects, their grouping by
  fields with the pages of the groups, and the \<open>Collect\<close> aggregation. A row of a response is a \<open>jmap\<close>.

  \<open>SavedCollectAggregation::from_aggregation\<close> is derived by the JSON library: what it reads from an
  aggregation is the parameter \<open>from_aggregation\<close> (an error text, or nothing for another aggregation).
\<close>

datatype shape_error =
    NoGroupField | GroupFieldMissing string | BadGroupState | BadGroupItem
  | InvalidCollect string | NoItemFields | ItemFieldMissing string | OrderFieldMissing string

section \<open>Rows as JSON\<close>

definition json_cell :: "string \<Rightarrow> json" where
  "json_cell v = (case v of
       [] \<Rightarrow> JStr v
     | c # _ \<Rightarrow>
         if is_digit c \<or> c = CHR ''-'' then
           (case parse_i64 v of
              Some n \<Rightarrow> JInt n
            | None \<Rightarrow> (case parse_f64 v of Some f \<Rightarrow> hdefault (JStr v) (from_f64 f) | None \<Rightarrow> JStr v))
         else JStr v)"

definition row_to_json :: "string list \<Rightarrow> string list \<Rightarrow> jmap" where
  "row_to_json h r = fold (\<lambda>(head, v) m. hput head (json_cell v) m) (zip h r) []"

section \<open>Grouping\<close>

fun group_values :: "string list \<Rightarrow> jmap \<Rightarrow> shape_error + (string \<times> json) list" where
  "group_values [] r = Inr []"
| "group_values (f # fs) r =
     rbind (ok_or (GroupFieldMissing f) (hget r f)) (\<lambda>v. rbind (group_values fs r) (\<lambda>vs. Inr ((f, v) # vs)))"

definition group_key :: "(f64 \<Rightarrow> string) \<Rightarrow> (string \<times> json) list \<Rightarrow> string" where
  "group_key ryu parent_fields = join_with [CHR 0x1F] (map (json_text ryu \<circ> snd) parent_fields)"

definition empty_value :: "json \<Rightarrow> bool" where
  "empty_value v \<longleftrightarrow> as_str v = Some [] \<or> v = JNull"

definition item_row :: "string list \<Rightarrow> bool \<Rightarrow> jmap \<Rightarrow> jmap" where
  "item_row group_fields incl r = (if incl then r else fold swap_remove group_fields r)"

type_synonym groups = "jmap list \<times> (string, nat) hmap"

definition push_item :: "string \<Rightarrow> json \<Rightarrow> jmap \<Rightarrow> shape_error + jmap" where
  "push_item items_as item g =
     (case Option.bind (hget g items_as) as_array of
        None \<Rightarrow> Inl BadGroupState
      | Some items \<Rightarrow> Inr (hput items_as (JArr (items @ [item])) g))"

definition new_group :: "(string \<times> json) list \<Rightarrow> string \<Rightarrow> json list \<Rightarrow> jmap" where
  "new_group parent_fields items_as items =
     hput items_as (JArr items) (fold (\<lambda>(f, v) g. hput f v g) parent_fields [])"

definition add_item :: "string \<Rightarrow> string \<Rightarrow> (string \<times> json) list \<Rightarrow> json option \<Rightarrow> groups \<Rightarrow> shape_error + groups" where
  "add_item key items_as parent_fields item st =
     (case st of (grouped, index) \<Rightarrow>
        (case hget index key of
           Some i \<Rightarrow> (case item of
               None \<Rightarrow> Inr (grouped, index)
             | Some v \<Rightarrow> rbind (push_item items_as v (grouped ! i)) (\<lambda>g. Inr (grouped[i := g], index)))
         | None \<Rightarrow> Inr (grouped @ [new_group parent_fields items_as (case item of None \<Rightarrow> [] | Some v \<Rightarrow> [v])],
                       hput key (length grouped) index)))"

definition group_row :: "(f64 \<Rightarrow> string) \<Rightarrow> string list \<Rightarrow> string \<Rightarrow> bool \<Rightarrow> jmap \<Rightarrow> groups \<Rightarrow> shape_error + groups" where
  "group_row ryu group_fields items_as incl r st =
     rbind (group_values group_fields r) (\<lambda>parent_fields.
       let item = item_row group_fields incl r; is_empty = list_all empty_value (map snd item) in
       add_item (group_key ryu parent_fields) items_as parent_fields (if is_empty then None else Some (JObj item)) st)"

definition page_meta :: "nat \<Rightarrow> nat \<Rightarrow> nat \<Rightarrow> nat \<Rightarrow> json" where
  "page_meta page per_page total_pages total_items =
     JObj [(''page'', JInt (int page)), (''per_page'', JInt (int per_page)), (''total_pages'', JInt (int total_pages)),
           (''total_items'', JInt (int total_items))]"

definition ceil_div :: "nat \<Rightarrow> nat \<Rightarrow> nat" where
  "ceil_div n d = (n + d - 1) div d"

definition page_group :: "string \<Rightarrow> nat \<Rightarrow> nat \<Rightarrow> nat option \<Rightarrow> jmap \<Rightarrow> jmap" where
  "page_group items_as limit offset override g =
     (case Option.bind (hget g items_as) as_array of
        None \<Rightarrow> g
      | Some items \<Rightarrow>
          let total_items = hdefault (length items) override;
              paged = (if limit = 0 then [] else take limit (drop offset items));
              page = (if limit = 0 then 1 else offset div limit + 1);
              total_pages = (if limit = 0 then 1 else ceil_div total_items limit) in
          hput (items_as @ ''_pagination'') (page_meta page limit total_pages total_items) (hput items_as (JArr paged) g))"

definition child_rows :: "string \<Rightarrow> jmap \<Rightarrow> shape_error + jmap list" where
  "child_rows items_as g =
     rbind (ok_or BadGroupState (Option.bind (hget g items_as) as_array)) (map_r (\<lambda>v. ok_or BadGroupItem (as_object v)))"

fun group_rows_by_field :: "(f64 \<Rightarrow> string) \<Rightarrow> saved_response_grouping \<Rightarrow> nat option \<Rightarrow> jmap list \<Rightarrow> shape_error + json" where
  "group_rows_by_field ryu (ResponseGrouping fld flds items_as incl children lmt off) source_total_override data =
     (let group_fields = grouping_fields (ResponseGrouping fld flds items_as incl children lmt off) in
      if group_fields = [] then Inl NoGroupField
      else rbind (fold_r (group_row ryu group_fields items_as incl) data ([], [])) (\<lambda>(grouped, index).
        let override = (if length grouped = 1 then source_total_override else None);
            paged = map (page_group items_as (min (hdefault 100 lmt) 100) (hdefault 0 off) override) grouped in
        case children of
          [] \<Rightarrow> Inr (JArr (map JObj paged))
        | child # _ \<Rightarrow>
            rbind (map_r (\<lambda>g. rbind (child_rows items_as g) (\<lambda>rows.
                rbind (group_rows_by_field ryu child None rows) (\<lambda>v. Inr (hput items_as v g)))) paged)
              (\<lambda>gs. Inr (JArr (map JObj gs)))))"

section \<open>Collect aggregations\<close>

text \<open>The engine's aggregations, and those collected from the response.\<close>

fun split_rest_collect_aggregations :: "(json \<Rightarrow> string + saved_collect_aggregation option) \<Rightarrow> json list \<Rightarrow>
    shape_error + json list \<times> saved_collect_aggregation list" where
  "split_rest_collect_aggregations from_aggregation [] = Inr ([], [])"
| "split_rest_collect_aggregations from_aggregation (a # as) =
     (case from_aggregation a of
        Inl e \<Rightarrow> Inl (InvalidCollect e)
      | Inr c \<Rightarrow> rbind (split_rest_collect_aggregations from_aggregation as) (\<lambda>(engine, collect).
          case c of Some c \<Rightarrow> Inr (engine, c # collect) | None \<Rightarrow> Inr (a # engine, collect)))"

definition resolve_collect_item_fields :: "jmap list \<Rightarrow> saved_collect_aggregation \<Rightarrow> string list \<Rightarrow> shape_error + string list" where
  "resolve_collect_item_fields data collect group_fields =
     (let available_fields = (case data of [] \<Rightarrow> [] | r # _ \<Rightarrow> map fst r);
          item_fields = (if ca_item_fields collect = []
            then filter (\<lambda>f. ca_include_group_fields_in_items collect \<or> f \<notin> set group_fields) available_fields
            else ca_item_fields collect) in
      if item_fields = [] then Inl NoItemFields
      else case List.find (\<lambda>f. \<not> list_all (\<lambda>r. hget r f \<noteq> None) data) item_fields of
        Some f \<Rightarrow> Inl (ItemFieldMissing f)
      | None \<Rightarrow>
          (case List.find (\<lambda>o1. so_field o1 \<notin> set item_fields) (ca_order_by collect) of
             Some o1 \<Rightarrow> Inl (OrderFieldMissing (so_field o1))
           | None \<Rightarrow> Inr item_fields))"

definition build_collect_item :: "jmap \<Rightarrow> string list \<Rightarrow> bool \<Rightarrow> shape_error + json" where
  "build_collect_item r item_fields incl =
     rbind (fold_r (\<lambda>f item. rbind (ok_or (ItemFieldMissing f) (hget r f)) (\<lambda>v. Inr (hput f v item))) item_fields []) (\<lambda>item.
       Inr (JObj (if incl then fold (\<lambda>(f, v) m. if hget m f = None then hput f v m else m) r item else item)))"

fun compare_collect_scalar :: "(f64 \<Rightarrow> string) \<Rightarrow> json option \<Rightarrow> json option \<Rightarrow> ordering" where
  "compare_collect_scalar ryu (Some l) (Some r) =
     (case (as_f64 l, as_f64 r) of
        (Some x, Some y) \<Rightarrow> hdefault Equal (partial_cmp x y)
      | _ \<Rightarrow> (case (as_str l, as_str r) of
          (Some s, Some t) \<Rightarrow> cmp_ord s t
        | _ \<Rightarrow> cmp_ord (json_text ryu l) (json_text ryu r)))"
| "compare_collect_scalar ryu (Some _) None = Greater"
| "compare_collect_scalar ryu None (Some _) = Less"
| "compare_collect_scalar ryu None None = Equal"

fun compare_collect_values :: "(f64 \<Rightarrow> string) \<Rightarrow> saved_order_by list \<Rightarrow> json \<Rightarrow> json \<Rightarrow> ordering" where
  "compare_collect_values ryu [] l r = Equal"
| "compare_collect_values ryu (o1 # os) l r =
     (let ord = compare_collect_scalar ryu (json_get l (so_field o1)) (json_get r (so_field o1)) in
      if ord \<noteq> Equal then (if so_direction o1 = ''Desc'' then rev_ord ord else ord)
      else compare_collect_values ryu os l r)"

definition collect_row :: "(f64 \<Rightarrow> string) \<Rightarrow> saved_collect_aggregation \<Rightarrow> string list \<Rightarrow> string list \<Rightarrow> jmap \<Rightarrow> groups \<times> nat \<Rightarrow>
    shape_error + groups \<times> nat" where
  "collect_row ryu collect group_fields item_fields r st =
     (case st of (groups, total_items) \<Rightarrow>
        rbind (group_values group_fields r) (\<lambda>parent_fields.
        rbind (build_collect_item r item_fields (ca_include_group_fields_in_items collect)) (\<lambda>item.
        rbind (add_item (group_key ryu parent_fields) (ca_items_as collect) parent_fields (Some item) groups) (\<lambda>groups.
          Inr (groups, total_items + 1)))))"

definition sort_items :: "(f64 \<Rightarrow> string) \<Rightarrow> saved_collect_aggregation \<Rightarrow> jmap \<Rightarrow> jmap" where
  "sort_items ryu collect g =
     (case Option.bind (hget g (ca_items_as collect)) as_array of
        None \<Rightarrow> g
      | Some items \<Rightarrow> hput (ca_items_as collect) (JArr (sort_cmp (compare_collect_values ryu (ca_order_by collect)) items)) g)"

definition collect_json :: "saved_collect_aggregation \<Rightarrow> json list \<Rightarrow> nat \<Rightarrow> json" where
  "collect_json collect data n =
     JObj [(''kind'', JStr ''Collect''), (''items_as'', JStr (ca_items_as collect)), (''data'', JArr data), (''summary'', JInt (int n))]"

definition build_collect_aggregation :: "(f64 \<Rightarrow> string) \<Rightarrow> jmap list \<Rightarrow> saved_collect_aggregation \<Rightarrow> shape_error + json" where
  "build_collect_aggregation ryu data collect =
     (let group_fields = collect_fields collect in
      if group_fields = [] then Inl NoGroupField
      else if data = [] then Inr (collect_json collect [] 0)
      else rbind (resolve_collect_item_fields data collect group_fields) (\<lambda>item_fields.
        rbind (fold_r (collect_row ryu collect group_fields item_fields) data (([], []), 0)) (\<lambda>((grouped, index), total_items).
          let sorted = (if ca_order_by collect \<noteq> [] then map (sort_items ryu collect) grouped else grouped) in
          Inr (collect_json collect (map JObj sorted) total_items))))"

end
