(* ===== verification/Server_Group.thy ===== *)
theory Server_Group
  imports Server_Shape
begin

text \<open>
  What the shaping of a response computes: the groups are those of the rows with equal values in the
  grouping fields, in the order of their first rows, although the code tells them apart by a text key; no
  cell of a row is lost, and the items of a \<open>Collect\<close> are ordered by its columns.
\<close>

lemma group_key_inj:
  assumes "ryu_ok ryu" "length p = length q" "\<forall>v\<in>snd ` set p. scalar v" "\<forall>v\<in>snd ` set q. scalar v"
  shows "group_key ryu p = group_key ryu q \<longleftrightarrow> map snd p = map snd q"
proof
  assume "group_key ryu p = group_key ryu q"
  then have "map (json_text ryu \<circ> snd) p = map (json_text ryu \<circ> snd) q"
    unfolding group_key_def using assms json_text_no_separator [OF assms(1)]
    by (intro join_with_inj [where d = "CHR 0x1F"]) auto
  then have "map (json_text ryu) (map snd p) = map (json_text ryu) (map snd q)" by simp
  then show "map snd p = map snd q"
  proof (rule map_inj_on)
    show "inj_on (json_text ryu) (set (map snd p) \<union> set (map snd q))"
      using assms(3,4) json_text_inj [OF assms(1)] by (intro inj_onI) (metis Un_iff list.set_map)
  qed
qed (simp add: group_key_def flip: map_map)

section \<open>Association lists and first occurrences\<close>

lemma hput_hput [simp]: "hput k v (hput k w m) = hput k v m"
  by (simp add: hput_def)

lemma hput_commute: "a \<noteq> b \<Longrightarrow> hget m a \<noteq> None \<Longrightarrow> hput a v (hput b w m) = hput b w (hput a v m)"
  by (induction m) (auto simp: hput_def hget_def)

definition firsts :: "'a list \<Rightarrow> 'a list" where
  "firsts xs = rev (remdups (rev xs))"

lemma firsts_simps [simp]: "firsts [] = []" "firsts (xs @ [x]) = (if x \<in> set xs then firsts xs else firsts xs @ [x])"
  by (simp_all add: firsts_def)

lemma set_firsts [simp]: "set (firsts xs) = set xs"
  by (simp add: firsts_def)

lemma distinct_firsts [simp]: "distinct (firsts xs)"
  by (simp add: firsts_def)

lemma map_filter_snoc: "List.map_filter f (xs @ [x]) = List.map_filter f xs @ (case f x of None \<Rightarrow> [] | Some v \<Rightarrow> [v])"
  by (induction xs) (auto simp: List.map_filter_simps split: option.splits)

section \<open>The loop over the rows\<close>

text \<open>Rows are added under a key; two rows have the same key exactly when they have the same values. The
  groups are those of the values, in the order of their first rows.\<close>

definition groups_of :: "string list \<Rightarrow> string \<Rightarrow> (jmap \<Rightarrow> json list) \<Rightarrow> (jmap \<Rightarrow> json option) \<Rightarrow> jmap list \<Rightarrow> jmap list" where
  "groups_of fs items_as V I data =
     map (\<lambda>vs. new_group (zip fs vs) items_as (List.map_filter I (filter (\<lambda>r. V r = vs) data))) (firsts (map V data))"

lemma push_new_group: "push_item items_as v (new_group p items_as xs) = Inr (new_group p items_as (xs @ [v]))"
  by (simp add: push_item_def new_group_def)

lemma add_items:
  assumes "\<forall>r\<in>D. \<forall>r'\<in>D. K r = K r' \<longleftrightarrow> V r = V r'" "set data \<subseteq> D"
  shows "\<exists>index. fold_r (\<lambda>r. add_item (K r) items_as (zip fs (V r)) (I r)) data ([], []) = Inr (groups_of fs items_as V I data, index) \<and>
    (\<forall>r\<in>D. (V r \<notin> V ` set data \<longrightarrow> hget index (K r) = None) \<and>
      (\<forall>i < length (firsts (map V data)). firsts (map V data) ! i = V r \<longrightarrow> hget index (K r) = Some i))"
  using assms(2)
proof (induction data rule: rev_induct)
  case Nil
  then show ?case by (auto simp: groups_of_def)
next
  case (snoc r data)
  let ?ks = "firsts (map V data)"
  from snoc obtain index where run: "fold_r (\<lambda>r. add_item (K r) items_as (zip fs (V r)) (I r)) data ([], []) =
      Inr (groups_of fs items_as V I data, index)"
    and ix: "\<forall>r\<in>D. (V r \<notin> V ` set data \<longrightarrow> hget index (K r) = None) \<and>
      (\<forall>i < length ?ks. ?ks ! i = V r \<longrightarrow> hget index (K r) = Some i)" by auto
  have r: "r \<in> D" using snoc.prems by simp
  show ?case
  proof (cases "V r \<in> V ` set data")
    case True
    then obtain i where i: "i < length ?ks" "?ks ! i = V r"
      by (metis in_set_conv_nth set_firsts list.set_map)
    with ix r have h: "hget index (K r) = Some i" by blast
    have ks: "firsts (map V (data @ [r])) = ?ks" using True by auto
    have other: "j \<noteq> i \<Longrightarrow> j < length ?ks \<Longrightarrow> ?ks ! j \<noteq> V r" for j
      using i distinct_firsts nth_eq_iff_index_eq by metis
    have "add_item (K r) items_as (zip fs (V r)) (I r) (groups_of fs items_as V I data, index) =
        Inr (groups_of fs items_as V I (data @ [r]), index)"
    proof (cases "I r")
      case None
      then show ?thesis using h ks by (simp add: add_item_def groups_of_def map_filter_snoc)
    next
      case (Some v)
      have g: "groups_of fs items_as V I data ! i = new_group (zip fs (V r)) items_as (List.map_filter I (filter (\<lambda>r'. V r' = V r) data))"
        using i by (simp add: groups_of_def)
      have "(groups_of fs items_as V I data)[i := new_group (zip fs (V r)) items_as (List.map_filter I (filter (\<lambda>r'. V r' = V r) data) @ [v])]
        = groups_of fs items_as V I (data @ [r])"
      proof (rule nth_equalityI)
        fix j assume "j < length ((groups_of fs items_as V I data)[i := new_group (zip fs (V r)) items_as (List.map_filter I (filter (\<lambda>r'. V r' = V r) data) @ [v])])"
        then have j: "j < length ?ks" by (simp add: groups_of_def)
        show "(groups_of fs items_as V I data)[i := new_group (zip fs (V r)) items_as (List.map_filter I (filter (\<lambda>r'. V r' = V r) data) @ [v])] ! j
          = groups_of fs items_as V I (data @ [r]) ! j"
          using j i other [of j] Some True
          by (cases "j = i") (auto simp: groups_of_def nth_list_update map_filter_snoc)
      qed (use ks in \<open>simp add: groups_of_def\<close>)
      then show ?thesis using h Some by (simp add: add_item_def g push_new_group)
    qed
    with run ix True show ?thesis by (auto simp: fold_r_append)
  next
    case False
    with ix r have h: "hget index (K r) = None" by blast
    have len: "length (groups_of fs items_as V I data) = length ?ks" by (simp add: groups_of_def)
    have ks: "firsts (map V (data @ [r])) = ?ks @ [V r]" using False by auto
    have no: "filter (\<lambda>r'. V r' = V r) data = []" using False by (force simp: filter_empty_conv image_iff)
    have old: "filter (\<lambda>r'. V r' = vs) (data @ [r]) = filter (\<lambda>r'. V r' = vs) data" if "vs \<in> set ?ks" for vs
      using that False by auto
    have "groups_of fs items_as V I (data @ [r]) =
        groups_of fs items_as V I data @ [new_group (zip fs (V r)) items_as (case I r of None \<Rightarrow> [] | Some v \<Rightarrow> [v])]"
      unfolding groups_of_def ks using old no by (auto simp: List.map_filter_simps split: option.splits)
    then have "add_item (K r) items_as (zip fs (V r)) (I r) (groups_of fs items_as V I data, index) =
        Inr (groups_of fs items_as V I (data @ [r]), hput (K r) (length ?ks) index)"
      using h len by (simp add: add_item_def)
    moreover have "(V r' \<notin> V ` set (data @ [r]) \<longrightarrow> hget (hput (K r) (length ?ks) index) (K r') = None) \<and>
      (\<forall>i < length (?ks @ [V r]). (?ks @ [V r]) ! i = V r' \<longrightarrow> hget (hput (K r) (length ?ks) index) (K r') = Some i)" if r': "r' \<in> D" for r'
    proof (cases "V r' = V r")
      case True
      then have "K r' = K r" using assms(1) r r' by blast
      moreover have "?ks ! i \<noteq> V r" if "i < length ?ks" for i using that False by (metis nth_mem set_firsts list.set_map)
      ultimately show ?thesis using True by (auto simp: nth_append less_Suc_eq)
    next
      case ne: False
      then have "K r' \<noteq> K r" using assms(1) r r' by blast
      with ix r' ne show ?thesis by (auto simp: nth_append less_Suc_eq)
    qed
    ultimately show ?thesis using run ks by (intro exI [of _ "hput (K r) (length ?ks) index"]) (simp add: fold_r_append)
  qed
qed

section \<open>The response by values\<close>

definition cell_values :: "string list \<Rightarrow> jmap \<Rightarrow> json list" where
  "cell_values fs r = map (\<lambda>f. hdefault JNull (hget r f)) fs"

definition has_fields :: "string list \<Rightarrow> jmap \<Rightarrow> bool" where
  "has_fields fs r \<longleftrightarrow> (\<forall>f\<in>set fs. hget r f \<noteq> None)"

definition scalars :: "jmap \<Rightarrow> bool" where
  "scalars r \<longleftrightarrow> hwf r \<and> (\<forall>v\<in>snd ` set r. scalar v)"

text \<open>The first field that is missing, of the first row that misses one.\<close>

definition missing_field :: "string list \<Rightarrow> jmap list \<Rightarrow> string option" where
  "missing_field fs data =
     Option.bind (List.find (\<lambda>r. \<not> has_fields fs r) data) (\<lambda>r. List.find (\<lambda>f. hget r f = None) fs)"

text \<open>The items of a group: its rows without the grouping fields, blank ones left out.\<close>

definition items_with :: "string list \<Rightarrow> bool \<Rightarrow> json list \<Rightarrow> jmap list \<Rightarrow> jmap list" where
  "items_with fs incl vs data =
     filter (\<lambda>item. \<not> list_all empty_value (map snd item)) (map (item_row fs incl) (filter (\<lambda>r. cell_values fs r = vs) data))"

definition cut_page :: "nat \<Rightarrow> nat \<Rightarrow> 'a list \<Rightarrow> 'a list" where
  "cut_page limit offset xs = take limit (drop offset xs)"

definition items_meta :: "nat \<Rightarrow> nat \<Rightarrow> nat \<Rightarrow> json" where
  "items_meta limit offset n =
     (if limit = 0 then page_meta 1 0 1 n else page_meta (offset div limit + 1) limit (ceil_div n limit) n)"

fun grouping_spec :: "saved_response_grouping \<Rightarrow> nat option \<Rightarrow> jmap list \<Rightarrow> shape_error + json" where
  "grouping_spec (ResponseGrouping fld flds items_as incl children lmt off) override data =
     (let fs = grouping_fields (ResponseGrouping fld flds items_as incl children lmt off);
          limit = min (hdefault 100 lmt) 100; offset = hdefault 0 off;
          groups = firsts (map (cell_values fs) data) in
      if fs = [] then Inl NoGroupField
      else case missing_field fs data of
        Some f \<Rightarrow> Inl (GroupFieldMissing f)
      | None \<Rightarrow>
          rbind (map_r (\<lambda>vs.
            let items = items_with fs incl vs data; page = cut_page limit offset items;
                n = (if length groups = 1 then hdefault (length items) override else length items) in
            rbind (case children of [] \<Rightarrow> Inr (JArr (map JObj page)) | child # _ \<Rightarrow> grouping_spec child None page) (\<lambda>content.
              Inr (JObj (hput (items_as @ ''_pagination'') (items_meta limit offset n)
                (hput items_as content (fold (\<lambda>(f, v) g. hput f v g) (zip fs vs) [])))))) groups)
            (\<lambda>gs. Inr (JArr gs)))"

section \<open>Lemmas on the rows\<close>

lemma group_values_complete: "has_fields fs r \<Longrightarrow> group_values fs r = Inr (zip fs (cell_values fs r))"
  by (induction fs) (auto simp: has_fields_def cell_values_def)

lemma group_values_missing: "List.find (\<lambda>f. hget r f = None) fs = Some f \<Longrightarrow> group_values fs r = Inl (GroupFieldMissing f)"
  by (induction fs) (auto split: if_splits)

lemma cell_values_length [simp]: "length (cell_values fs r) = length fs"
  by (simp add: cell_values_def)

lemma scalar_values: "scalars r \<Longrightarrow> has_fields fs r \<Longrightarrow> v \<in> set (cell_values fs r) \<Longrightarrow> scalar v"
proof -
  assume s: "scalars r" and c: "has_fields fs r" and v: "v \<in> set (cell_values fs r)"
  then obtain f where f: "f \<in> set fs" "v = hdefault JNull (hget r f)" by (auto simp: cell_values_def)
  with c obtain w where w: "hget r f = Some w" by (auto simp: has_fields_def)
  with s have "(f, w) \<in> set r" by (simp add: scalars_def hget_Some_iff)
  with s f w show ?thesis by (force simp: scalars_def)
qed

lemma key_of_values:
  assumes "ryu_ok ryu" "scalars r" "scalars r'" "has_fields fs r" "has_fields fs r'"
  shows "group_key ryu (zip fs (cell_values fs r)) = group_key ryu (zip fs (cell_values fs r')) \<longleftrightarrow> cell_values fs r = cell_values fs r'"
proof -
  have s: "\<forall>v\<in>snd ` set (zip fs (cell_values fs q)). scalar v" if "scalars q" "has_fields fs q" for q
    using scalar_values [OF that] by (auto dest: set_zip_rightD)
  have m: "map snd (zip fs (cell_values fs q)) = cell_values fs q" for q by simp
  show ?thesis using group_key_inj [OF assms(1) _ s [OF assms(2,4)] s [OF assms(3,5)]] by (simp add: m)
qed

lemma item_row_mem: "hwf r \<Longrightarrow> hwf (item_row fs incl r) \<and> set (item_row fs incl r) = {(k, v) \<in> set r. incl \<or> k \<notin> set fs}"
proof (cases incl)
  case False
  assume "hwf r"
  then have "hwf (fold swap_remove fs r) \<and> set (fold swap_remove fs r) = {(k, v) \<in> set r. k \<notin> set fs}"
  proof (induction fs arbitrary: r)
    case (Cons f fs)
    with swap_remove_mem [of r f] show ?case by auto
  qed auto
  with False show ?thesis by (simp add: item_row_def)
qed (auto simp: item_row_def)

lemma item_row_scalars: "scalars r \<Longrightarrow> scalars (item_row fs incl r)"
  using item_row_mem [of r fs incl] by (auto simp: scalars_def)

lemma map_r_map: "map_r f (map g xs) = map_r (\<lambda>x. f (g x)) xs"
  by (induction xs) simp_all

lemma rbind_assoc: "rbind (rbind r f) g = rbind r (\<lambda>x. rbind (f x) g)"
  by (cases r) simp_all

lemma map_r_objects: "rbind (map_r f xs) (\<lambda>ys. Inr (JArr (map JObj ys))) = rbind (map_r (\<lambda>x. rbind (f x) (\<lambda>y. Inr (JObj y))) xs) (\<lambda>vs. Inr (JArr vs))"
proof -
  have "map_r (\<lambda>x. rbind (f x) (\<lambda>y. Inr (JObj y))) xs = rbind (map_r f xs) (\<lambda>ys. Inr (map JObj ys))"
  proof (induction xs)
    case (Cons x xs)
    then show ?case by (cases "f x"; cases "map_r f xs") simp_all
  qed simp
  then show ?thesis by (simp add: rbind_assoc)
qed

lemma page_new_group:
  "page_group items_as limit offset override (new_group p items_as xs) =
    hput (items_as @ ''_pagination'') (items_meta limit offset (hdefault (length xs) override))
      (hput items_as (JArr (cut_page limit offset xs)) (fold (\<lambda>(f, v) g. hput f v g) p []))"
  by (simp add: page_group_def new_group_def items_meta_def cut_page_def Let_def)

lemma child_rows_page:
  "child_rows items_as (hput (items_as @ ''_pagination'') m (hput items_as (JArr (map JObj rows)) g)) = Inr rows"
proof -
  have "map_r (\<lambda>v. ok_or BadGroupItem (as_object v)) (map JObj rows) = Inr rows" by (induction rows) simp_all
  then show ?thesis by (simp add: child_rows_def)
qed

lemma put_content:
  "hput items_as v (hput (items_as @ ''_pagination'') m (hput items_as w g)) = hput (items_as @ ''_pagination'') m (hput items_as v g)"
  using hput_commute [of items_as "items_as @ ''_pagination''" "hput items_as w g" v m] by simp

definition item_option :: "string list \<Rightarrow> bool \<Rightarrow> jmap \<Rightarrow> json option" where
  "item_option fs incl r =
     (if list_all empty_value (map snd (item_row fs incl r)) then None else Some (JObj (item_row fs incl r)))"

lemma group_row_complete: "has_fields fs r \<Longrightarrow>
    group_row ryu fs items_as incl r = add_item (group_key ryu (zip fs (cell_values fs r))) items_as (zip fs (cell_values fs r)) (item_option fs incl r)"
  by (simp add: fun_eq_iff group_row_def group_values_complete item_option_def Let_def)

lemma items_with_filter: "List.map_filter (item_option fs incl) (filter (\<lambda>r. cell_values fs r = vs) data) = map JObj (items_with fs incl vs data)"
  by (induction data) (auto simp: items_with_def item_option_def List.map_filter_simps)

lemma items_with_scalars: "\<forall>r\<in>set data. scalars r \<Longrightarrow> r \<in> set (cut_page limit offset (items_with fs incl vs data)) \<Longrightarrow> scalars r"
  using item_row_scalars by (auto simp: cut_page_def items_with_def dest!: in_set_takeD in_set_dropD)

lemma group_rows_run:
  assumes "ryu_ok ryu" "\<forall>r\<in>set data. scalars r \<and> has_fields fs r"
  shows "\<exists>index. fold_r (group_row ryu fs items_as incl) data ([], []) =
    Inr (map (\<lambda>vs. new_group (zip fs vs) items_as (map JObj (items_with fs incl vs data))) (firsts (map (cell_values fs) data)), index)"
proof -
  have cong: "fold_r f data s = fold_r g data s" if "\<And>r. r \<in> set data \<Longrightarrow> f r = g r" for f g and s :: groups
    using that
  proof (induction data arbitrary: s)
    case (Cons r data)
    then have "fold_r f data = fold_r g data" by (simp add: fun_eq_iff)
    with Cons.prems show ?case by simp
  qed simp
  have "fold_r (group_row ryu fs items_as incl) data ([], []) =
      fold_r (\<lambda>r. add_item (group_key ryu (zip fs (cell_values fs r))) items_as (zip fs (cell_values fs r)) (item_option fs incl r)) data ([], [])"
    using assms(2) by (intro cong) (simp add: group_row_complete)
  moreover obtain index where "fold_r (\<lambda>r. add_item (group_key ryu (zip fs (cell_values fs r))) items_as (zip fs (cell_values fs r)) (item_option fs incl r)) data ([], []) =
      Inr (groups_of fs items_as (cell_values fs) (item_option fs incl) data, index)"
    using add_items [of "set data" "\<lambda>r. group_key ryu (zip fs (cell_values fs r))" "cell_values fs" data items_as fs "item_option fs incl"]
      key_of_values [OF assms(1)] assms(2) by auto
  ultimately show ?thesis by (simp add: groups_of_def items_with_filter)
qed

lemma group_rows_fail:
  assumes "ryu_ok ryu" "\<forall>r\<in>set data. scalars r" "missing_field fs data = Some f"
  shows "fold_r (group_row ryu fs items_as incl) data ([], []) = Inl (GroupFieldMissing f)"
proof -
  from assms(3) obtain r where r: "List.find (\<lambda>r. \<not> has_fields fs r) data = Some r" "List.find (\<lambda>f. hget r f = None) fs = Some f"
    by (auto simp: missing_field_def bind_eq_Some_conv)
  then obtain i where i: "i < length data" "data ! i = r" "\<forall>j<i. has_fields fs (data ! j)" by (auto simp: find_Some_iff)
  then have d: "data = take i data @ r # drop (Suc i) data" using id_take_nth_drop [of i data] by simp
  have "\<forall>q\<in>set (take i data). scalars q \<and> has_fields fs q"
  proof
    fix q assume q: "q \<in> set (take i data)"
    then obtain j where "j < i" "q = data ! j" by (auto simp: in_set_conv_nth)
    with i(3) have "has_fields fs q" by simp
    moreover have "q \<in> set data" using q by (rule in_set_takeD)
    ultimately show "scalars q \<and> has_fields fs q" using assms(2) by simp
  qed
  from group_rows_run [OF assms(1) this] obtain st where st: "fold_r (group_row ryu fs items_as incl) (take i data) ([], []) = Inr st" by blast
  have "group_row ryu fs items_as incl r st = Inl (GroupFieldMissing f)" using r(2) by (simp add: group_row_def group_values_missing)
  with st show ?thesis by (subst d) (simp add: fold_r_append)
qed

lemma missing_None: "missing_field fs data = None \<longleftrightarrow> (\<forall>r\<in>set data. has_fields fs r)"
proof -
  have m: "\<exists>f. List.find (\<lambda>f. hget r f = None) fs = Some f" if "\<not> has_fields fs r" for r
    using that find_None_iff [of "\<lambda>f. hget r f = None" fs] by (auto simp: has_fields_def)
  show ?thesis
  proof (cases "List.find (\<lambda>r. \<not> has_fields fs r) data")
    case None
    then have "\<forall>r\<in>set data. has_fields fs r" by (auto simp: find_None_iff)
    with None show ?thesis by (simp add: missing_field_def)
  next
    case (Some r)
    then have "r \<in> set data" "\<not> has_fields fs r" by (auto simp: find_Some_iff)
    with Some m [of r] show ?thesis by (auto simp: missing_field_def)
  qed
qed

section \<open>A text for floats\<close>

text \<open>One text of the required shape: the numerator and the denominator of the number.\<close>

fun small_ryu :: "f64 \<Rightarrow> string" where
  "small_ryu (Fin q) = (case quotient_of q of (a, b) \<Rightarrow> show_int a @ ''.'' @ show_int b)"
| "small_ryu _ = []"

lemma point_split: "show_int a @ CHR ''.'' # x = show_int b @ CHR ''.'' # y \<Longrightarrow> show_int a = show_int b \<and> x = y"
proof -
  have "CHR ''.'' \<notin> set (show_int i)" for i
    using show_int_chars(1) [of i] by (auto simp: list_all_iff is_digit_def bval_def)
  then have "split_once CHR ''.'' (show_int i @ CHR ''.'' # z) = Some (show_int i, z)" for i z
    by (simp add: split_once_Some)
  then show "show_int a @ CHR ''.'' # x = show_int b @ CHR ''.'' # y \<Longrightarrow> show_int a = show_int b \<and> x = y" by (metis option.inject prod.inject)
qed

lemma small_ryu_ok: "ryu_ok small_ryu"
proof -
  have "f = g" if fin: "is_finite f" "is_finite g" and eq: "small_ryu f = small_ryu g" for f g
  proof -
    from fin obtain p q where pq: "f = Fin p" "g = Fin q" by (cases f; cases g) auto
    obtain a b c d where ab: "quotient_of p = (a, b)" "quotient_of q = (c, d)" by fastforce
    from eq pq ab have "show_int a = show_int c \<and> show_int b = show_int d" by (auto dest: point_split)
    then have "quotient_of p = quotient_of q" using ab by (simp add: show_int_inj)
    then show ?thesis using pq by (simp add: quotient_of_inject)
  qed
  moreover have "float_text (small_ryu f)" if "is_finite f" for f
  proof -
    from that obtain q where f: "f = Fin q" by (cases f) auto
    obtain a b where ab: "quotient_of q = (a, b)" by fastforce
    have "hd (show_int a @ z) = hd (show_int a)" for z using show_int_chars(2) by simp
    moreover have "is_digit (hd (show_int a)) \<or> hd (show_int a) = CHR ''-''"
      using show_int_chars [of a] by (cases "show_int a") auto
    ultimately show ?thesis
      using f ab show_int_chars [of a] show_int_chars [of b] by (auto simp: float_text_def float_char_def list_all_iff)
  qed
  ultimately show ?thesis by (auto simp: ryu_ok_def inj_on_def)
qed

section \<open>The order of collected items\<close>

text \<open>A cell is compared as a text or as a number, texts before numbers.\<close>

definition cell_key :: "json \<Rightarrow> string + f64" where
  "cell_key v = (case as_str v of Some s \<Rightarrow> Inl s | None \<Rightarrow> Inr (hdefault NaN (as_f64 v)))"

fun key_cmp :: "string + f64 \<Rightarrow> string + f64 \<Rightarrow> ordering" where
  "key_cmp (Inl s) (Inl t) = cmp_ord s t"
| "key_cmp (Inl s) (Inr y) = Less"
| "key_cmp (Inr x) (Inl t) = Greater"
| "key_cmp (Inr x) (Inr y) = hdefault Equal (partial_cmp x y)"

lemma round64_number: "round64 q \<noteq> NaN"
  by (simp add: round64_def Let_def)

lemma scalar_key: "scalar v \<Longrightarrow> cell_key v \<noteq> Inr NaN"
  by (cases v) (auto simp: cell_key_def round64_number)

lemma quote_before_number: "ryu_ok ryu \<Longrightarrow> scalar v \<Longrightarrow> as_f64 v \<noteq> None \<Longrightarrow> json_str s < json_text ryu v"
proof -
  assume "ryu_ok ryu" "scalar v" "as_f64 v \<noteq> None"
  then obtain c cs where c: "json_text ryu v = c # cs" "is_digit c \<or> c = CHR ''-''" using number_head by blast
  then have "CHR 0x22 < c" by (auto simp: is_digit_def bval_def less_char_def)
  with c show ?thesis by (simp add: json_str_def)
qed

lemma compare_scalar_key:
  assumes "ryu_ok ryu" "scalar l" "scalar r"
  shows "compare_collect_scalar ryu (Some l) (Some r) = key_cmp (cell_key l) (cell_key r)"
  using assms quote_before_number [OF assms(1,2)] quote_before_number [OF assms(1,3)]
    text_not_number [OF assms(1,2)] text_not_number [OF assms(1,3)]
  by (cases l; cases r) (auto simp: cell_key_def cmp_ord_def not_less_iff_gr_or_eq)

lemma key_cmp_rev: "key_cmp b a = rev_ord (key_cmp a b)"
proof (cases a; cases b)
  fix m n assume "a = Inr m" "b = Inr n"
  then show ?thesis by (cases "partial_cmp m n") (simp_all add: partial_cmp_rev [of n m])
qed (simp_all add: rev_ord_cmp_ord)

lemma key_cmp_trans:
  "a \<noteq> Inr NaN \<Longrightarrow> b \<noteq> Inr NaN \<Longrightarrow> c \<noteq> Inr NaN \<Longrightarrow> key_cmp a b \<noteq> Greater \<Longrightarrow> key_cmp b c \<noteq> Greater \<Longrightarrow> key_cmp a c \<noteq> Greater"
  by (cases a; cases b; cases c) (auto simp: num_le intro: f64_le_trans)

definition sortable :: "(f64 \<Rightarrow> string) \<Rightarrow> saved_order_by list \<Rightarrow> json \<Rightarrow> bool" where
  "sortable ryu os v \<longleftrightarrow> ryu_ok ryu \<and> (\<forall>o1\<in>set os. \<exists>x. json_get v (so_field o1) = Some x \<and> scalar x)"

definition order_cmp :: "(f64 \<Rightarrow> string) \<Rightarrow> saved_order_by \<Rightarrow> json \<Rightarrow> json \<Rightarrow> ordering" where
  "order_cmp ryu o1 l r = (let c = compare_collect_scalar ryu (json_get l (so_field o1)) (json_get r (so_field o1)) in
     if so_direction o1 = ''Desc'' then rev_ord c else c)"

lemma compare_values_Cons: "compare_collect_values ryu (o1 # os) l r =
    (if order_cmp ryu o1 l r \<noteq> Equal then order_cmp ryu o1 l r else compare_collect_values ryu os l r)"
  by (cases "compare_collect_scalar ryu (json_get l (so_field o1)) (json_get r (so_field o1))")
    (auto simp: order_cmp_def Let_def)

definition order_key :: "saved_order_by \<Rightarrow> json \<Rightarrow> string + f64" where
  "order_key o1 v = cell_key (the (json_get v (so_field o1)))"

lemma order_key_ok: "sortable ryu (o1 # os) v \<Longrightarrow> order_key o1 v \<noteq> Inr NaN"
  using scalar_key by (auto simp: sortable_def order_key_def)

lemma order_cmp_key:
  assumes "sortable ryu (o1 # os) l" "sortable ryu (o1 # os) r"
  shows "order_cmp ryu o1 l r =
    (if so_direction o1 = ''Desc'' then key_cmp (order_key o1 r) (order_key o1 l) else key_cmp (order_key o1 l) (order_key o1 r))"
proof -
  from assms obtain x y where "json_get l (so_field o1) = Some x" "json_get r (so_field o1) = Some y" "scalar x" "scalar y" "ryu_ok ryu"
    by (auto simp: sortable_def)
  then show ?thesis
    by (simp add: order_cmp_def order_key_def Let_def compare_scalar_key key_cmp_rev [of "cell_key y" "cell_key x"] del: compare_collect_scalar.simps)
qed

lemma order_cmp_trans:
  assumes "sortable ryu (o1 # os) a" "sortable ryu (o1 # os) b" "sortable ryu (o1 # os) c"
    "order_cmp ryu o1 a b \<noteq> Greater" "order_cmp ryu o1 b c \<noteq> Greater"
  shows "order_cmp ryu o1 a c \<noteq> Greater"
proof (cases "so_direction o1 = ''Desc''")
  case True
  with assms order_cmp_key show ?thesis
    using key_cmp_trans [OF order_key_ok [OF assms(3)] order_key_ok [OF assms(2)] order_key_ok [OF assms(1)]] by metis
next
  case False
  with assms order_cmp_key show ?thesis
    using key_cmp_trans [OF order_key_ok [OF assms(1)] order_key_ok [OF assms(2)] order_key_ok [OF assms(3)]] by metis
qed

lemma order_cmp_rev:
  assumes "sortable ryu (o1 # os) a" "sortable ryu (o1 # os) b"
  shows "order_cmp ryu o1 b a = rev_ord (order_cmp ryu o1 a b)"
  using order_cmp_key [OF assms] order_cmp_key [OF assms(2,1)] key_cmp_rev by metis

lemma sortable_Cons: "sortable ryu (o1 # os) v \<Longrightarrow> sortable ryu os v"
  by (simp add: sortable_def)

interpretation collect: total_cmp "compare_collect_values ryu os" "sortable ryu os" for ryu os
proof
  fix a b c
  show "sortable ryu os a \<Longrightarrow> sortable ryu os b \<Longrightarrow> compare_collect_values ryu os b a = rev_ord (compare_collect_values ryu os a b)"
  proof (induction os)
    case (Cons o1 os)
    then have "order_cmp ryu o1 b a = rev_ord (order_cmp ryu o1 a b)" using order_cmp_rev by blast
    with Cons sortable_Cons show ?case by (cases "order_cmp ryu o1 a b") (auto simp: compare_values_Cons simp del: compare_collect_values.simps(2))
  qed simp
  show "sortable ryu os a \<Longrightarrow> sortable ryu os b \<Longrightarrow> sortable ryu os c \<Longrightarrow> compare_collect_values ryu os a b \<noteq> Greater \<Longrightarrow>
    compare_collect_values ryu os b c \<noteq> Greater \<Longrightarrow> compare_collect_values ryu os a c \<noteq> Greater"
  proof (induction os)
    case (Cons o1 os)
    note v = Cons.prems(1-3)
    note tr = order_cmp_trans [of ryu o1 os] and rv = order_cmp_rev [of ryu o1 os]
    have le: "order_cmp ryu o1 a b \<noteq> Greater" "order_cmp ryu o1 b c \<noteq> Greater"
      using Cons.prems(4,5) by (auto simp: compare_values_Cons simp del: compare_collect_values.simps(2) split: if_splits)
    then have ac: "order_cmp ryu o1 a c \<noteq> Greater" using tr v by blast
    show ?case
    proof (cases "order_cmp ryu o1 a c")
      case Equal
      then have "order_cmp ryu o1 c a = Equal" using rv [OF v(1,3)] by simp
      then have "order_cmp ryu o1 b a \<noteq> Greater" "order_cmp ryu o1 c b \<noteq> Greater"
        using tr [OF v(2,3,1)] tr [OF v(3,1,2)] le by simp_all
      then have "order_cmp ryu o1 a b = Equal \<and> order_cmp ryu o1 b c = Equal"
        using rv [OF v(1,2)] rv [OF v(2,3)] le by (cases "order_cmp ryu o1 a b"; cases "order_cmp ryu o1 b c"; simp)
      with Equal Cons sortable_Cons show ?thesis by (auto simp: compare_values_Cons simp del: compare_collect_values.simps(2))
    qed (use ac in \<open>auto simp: compare_values_Cons simp del: compare_collect_values.simps(2)\<close>)
  qed simp
qed

section \<open>The groups of a collection\<close>

definition collect_item :: "string list \<Rightarrow> bool \<Rightarrow> jmap \<Rightarrow> json" where
  "collect_item fs incl r =
     (let item = fold (\<lambda>f. hput f (hdefault JNull (hget r f))) fs [] in
      JObj (if incl then fold (\<lambda>(f, v) m. if hget m f = None then hput f v m else m) r item else item))"

lemma build_collect_complete: "has_fields fs r \<Longrightarrow> build_collect_item r fs incl = Inr (collect_item fs incl r)"
proof -
  assume c: "has_fields fs r"
  have "fold_r (\<lambda>f item. rbind (ok_or (ItemFieldMissing f) (hget r f)) (\<lambda>v. Inr (hput f v item))) fs m =
      Inr (fold (\<lambda>f. hput f (hdefault JNull (hget r f))) fs m)" for m
    using c by (induction fs arbitrary: m) (auto simp: has_fields_def)
  then show ?thesis by (simp add: build_collect_item_def collect_item_def Let_def)
qed

lemma hget_fold_hput: "hget (fold (\<lambda>f. hput f (F f)) fs m) k = (if k \<in> set fs then Some (F k) else hget m k)"
  by (induction fs arbitrary: m) auto

lemma hget_fold_missing: "hget m k \<noteq> None \<Longrightarrow> hget (fold (\<lambda>(f, v) m. if hget m f = None then hput f v m else m) r m) k = hget m k"
proof (induction r arbitrary: m)
  case (Cons e r)
  obtain f v where e: "e = (f, v)" by (cases e)
  show ?case using Cons.prems Cons.IH [of "if hget m f = None then hput f v m else m"] by (auto simp: e)
qed simp

lemma collect_item_get: "f \<in> set fs \<Longrightarrow> json_get (collect_item fs incl r) f = Some (hdefault JNull (hget r f))"
  using hget_fold_missing [of "fold (\<lambda>f. hput f (hdefault JNull (hget r f))) fs []" f r]
  by (simp add: collect_item_def Let_def hget_fold_hput flip: hget_def)

lemma resolved_fields: "resolve_collect_item_fields data collect gf = Inr fs \<Longrightarrow>
    (\<forall>r\<in>set data. has_fields fs r) \<and> (\<forall>o1\<in>set (ca_order_by collect). so_field o1 \<in> set fs)"
proof -
  define A where "A = (if ca_item_fields collect = []
    then filter (\<lambda>f. ca_include_group_fields_in_items collect \<or> f \<notin> set gf) (case data of [] \<Rightarrow> [] | r # _ \<Rightarrow> map fst r)
    else ca_item_fields collect)"
  assume "resolve_collect_item_fields data collect gf = Inr fs"
  then have "fs = A" "List.find (\<lambda>f. \<not> list_all (\<lambda>r. hget r f \<noteq> None) data) A = None"
      "List.find (\<lambda>o1. so_field o1 \<notin> set A) (ca_order_by collect) = None"
    unfolding resolve_collect_item_fields_def Let_def A_def [symmetric] by (auto split: if_splits option.splits)
  then show ?thesis by (auto simp: find_None_iff list_all_iff has_fields_def)
qed

lemma collect_sortable:
  assumes "ryu_ok ryu" "scalars r" "has_fields fs r" "\<forall>o1\<in>set os. so_field o1 \<in> set fs"
  shows "sortable ryu os (collect_item fs incl r)"
proof -
  have "\<exists>x. json_get (collect_item fs incl r) (so_field o1) = Some x \<and> scalar x" if "o1 \<in> set os" for o1
  proof -
    have f: "so_field o1 \<in> set fs" using assms(4) that by blast
    then have "hdefault JNull (hget r (so_field o1)) \<in> set (cell_values fs r)" by (simp add: cell_values_def)
    with f scalar_values [OF assms(2,3)] show ?thesis by (simp add: collect_item_get)
  qed
  with assms(1) show ?thesis by (simp add: sortable_def)
qed

lemma collect_run:
  assumes "\<forall>r\<in>set data. has_fields gf r \<and> has_fields fs r"
  shows "fold_r (collect_row ryu collect gf fs) data (st, n) =
    rbind (fold_r (\<lambda>r. add_item (group_key ryu (zip gf (cell_values gf r))) (ca_items_as collect) (zip gf (cell_values gf r))
      (Some (collect_item fs (ca_include_group_fields_in_items collect) r))) data st) (\<lambda>st. Inr (st, n + length data))"
  using assms
proof (induction data arbitrary: st n)
  case (Cons r data)
  let ?a = "add_item (group_key ryu (zip gf (cell_values gf r))) (ca_items_as collect) (zip gf (cell_values gf r))
      (Some (collect_item fs (ca_include_group_fields_in_items collect) r)) st"
  have row: "collect_row ryu collect gf fs r (st, n) = rbind ?a (\<lambda>st. Inr (st, n + 1))"
    using Cons.prems by (simp add: collect_row_def group_values_complete build_collect_complete)
  show ?case
  proof (cases ?a)
    case (Inr st')
    with Cons.IH [of st' "n + 1"] Cons.prems row show ?thesis by simp
  qed (simp add: row)
qed simp

lemma sort_new_group: "sort_items ryu collect (new_group p (ca_items_as collect) xs) =
    new_group p (ca_items_as collect) (sort_cmp (compare_collect_values ryu (ca_order_by collect)) xs)"
  by (simp add: sort_items_def new_group_def)

section \<open>The loop computes the groups\<close>

lemma grouping_by_value_lemma:
  assumes "ryu_ok ryu" "\<forall>r\<in>set data. scalars r"
  shows "group_rows_by_field ryu g override data = grouping_spec g override data"
  using assms(2)
proof (induction g arbitrary: override data)
  case (ResponseGrouping fld flds items_as incl children lmt off)
  let ?g = "ResponseGrouping fld flds items_as incl children lmt off"
  let ?fs = "grouping_fields ?g" and ?limit = "min (hdefault 100 lmt) 100" and ?off = "hdefault 0 off"
  show ?case
  proof (cases "?fs = [] \<or> missing_field ?fs data \<noteq> None")
    case True
    then show ?thesis using group_rows_fail [OF assms(1) ResponseGrouping.prems, of ?fs] by (auto simp: Let_def)
  next
    case False
    then have "\<forall>r\<in>set data. scalars r \<and> has_fields ?fs r" using ResponseGrouping.prems missing_None by blast
    from group_rows_run [OF assms(1) this] obtain index where run: "fold_r (group_row ryu ?fs items_as incl) data ([], []) =
      Inr (map (\<lambda>vs. new_group (zip ?fs vs) items_as (map JObj (items_with ?fs incl vs data))) (firsts (map (cell_values ?fs) data)), index)"
      by blast
    have pg: "cut_page l o1 (map JObj xs) = map JObj (cut_page l o1 xs)" for l o1 xs
      by (simp add: cut_page_def take_map drop_map)
    show ?thesis
    proof (cases children)
      case Nil
      with False run show ?thesis
        by (simp add: Let_def page_new_group pg map_r_Inr comp_def)
    next
      case (Cons child rest)
      have IH: "group_rows_by_field ryu child None (cut_page l n (items_with fs incl vs data)) =
          grouping_spec child None (cut_page l n (items_with fs incl vs data))" for l n fs vs
        using Cons items_with_scalars [OF ResponseGrouping.prems] by (intro ResponseGrouping.IH) auto
      from Cons False run show ?thesis
        by (simp add: Let_def page_new_group pg map_r_map child_rows_page IH put_content map_r_objects rbind_assoc)
    qed
  qed
qed

section \<open>Properties\<close>

text \<open>C13: The grouping of a response is by value: the result of the hash index over text keys is that of
  collecting, for every combination of values of the grouping fields in the order of its first row, the rows
  with these values, each without the grouping fields, blank ones left out, cut to the page of the group,
  grouped in turn by the child grouping. A row without a grouping field is the error.\<close>

theorem grouping_by_value:
  assumes "ryu_ok ryu" "\<forall>r\<in>set data. scalars r"
  shows "group_rows_by_field ryu g override data = grouping_spec g override data"
  using assms by (rule grouping_by_value_lemma)

definition small_rows :: "jmap list" where
  "small_rows = [[(''c'', JStr ''x''), (''n'', JInt 1)], [(''c'', JStr ''y''), (''n'', JInt 2)], [(''c'', JStr ''x''), (''n'', JInt 3)]]"

theorem grouping_by_value_witness:
  "group_rows_by_field small_ryu (ResponseGrouping (Some ''c'') [] ''items'' False [] None None) None small_rows =
    Inr (JArr
      [JObj [(''c'', JStr ''x''), (''items'', JArr [JObj [(''n'', JInt 1)], JObj [(''n'', JInt 3)]]), (''items_pagination'', page_meta 1 100 1 2)],
       JObj [(''c'', JStr ''y''), (''items'', JArr [JObj [(''n'', JInt 2)]]), (''items_pagination'', page_meta 1 100 1 1)]])"
proof -
  have "\<forall>r\<in>set small_rows. scalars r" by (auto simp: small_rows_def scalars_def hwf_def)
  note eq = grouping_by_value [OF small_ryu_ok this]
  have spec: "grouping_spec (ResponseGrouping (Some ''c'') [] ''items'' False [] None None) None small_rows =
    Inr (JArr
      [JObj [(''c'', JStr ''x''), (''items'', JArr [JObj [(''n'', JInt 1)], JObj [(''n'', JInt 3)]]), (''items_pagination'', page_meta 1 100 1 2)],
       JObj [(''c'', JStr ''y''), (''items'', JArr [JObj [(''n'', JInt 2)]]), (''items_pagination'', page_meta 1 100 1 1)]])"
    by (simp add: Let_def grouping_fields_def missing_None small_rows_def)
      (simp add: missing_field_def has_fields_def cell_values_def items_with_def item_row_def swap_remove_def empty_value_def
        items_meta_def ceil_div_def cut_page_def hput_def hget_def firsts_def numeral_2_eq_2)
  show ?thesis unfolding eq by (rule spec)
qed

text \<open>Its only errors are a grouping without fields and a row without a grouping field.\<close>

theorem grouping_errors:
  assumes "ryu_ok ryu" "\<forall>r\<in>set data. scalars r" "group_rows_by_field ryu g override data = Inl e"
  shows "e = NoGroupField \<or> (\<exists>f. e = GroupFieldMissing f)"
proof -
  have m: "map_r h xs = Inl e \<Longrightarrow> \<exists>x\<in>set xs. h x = Inl e" for h :: "json list \<Rightarrow> shape_error + json" and xs e
  proof (induction xs)
    case (Cons x xs)
    then show ?case by (cases "h x"; cases "map_r h xs") auto
  qed simp
  have "grouping_spec g override data = Inl e \<Longrightarrow> e = NoGroupField \<or> (\<exists>f. e = GroupFieldMissing f)"
  proof (induction g arbitrary: override data)
    case (ResponseGrouping fld flds items_as incl children lmt off)
    have r: "rbind r (\<lambda>x. Inr (k x)) = Inl e \<longleftrightarrow> r = Inl e" for r :: "shape_error + 'b" and k :: "'b \<Rightarrow> json" by (cases r) auto
    show ?case
    proof (cases children)
      case Nil
      with ResponseGrouping.prems show ?thesis
        by (auto simp: Let_def r dest!: m split: option.splits if_splits)
    next
      case (Cons child rest)
      with ResponseGrouping.prems ResponseGrouping.IH [of child] show ?thesis
        by (auto simp: Let_def r dest!: m split: option.splits if_splits)
    qed
  qed
  with grouping_by_value_lemma [OF assms(1,2)] assms(3) show ?thesis by simp
qed

text \<open>Removing a grouping field moves the last column of a row into its place.\<close>

theorem grouping_moves_columns:
  "item_row [''c''] False (row_to_json [''c'', ''a'', ''b''] [''x'', ''y'', ''z'']) = [(''b'', JStr ''z''), (''a'', JStr ''y'')]"
  by (simp add: item_row_def row_to_json_def json_cell_def is_digit_def bval_def hput_def swap_remove_def)

text \<open>C24: A \<open>Collect\<close> aggregation puts every row of the response into the group of its values, in the order of
  their first rows, and counts them all: the items of a group are those of its rows in the order of the
  \<open>order_by\<close> columns, numbers as numbers and texts as texts, equal ones in the order of the rows.\<close>

theorem collect_by_value:
  assumes "ryu_ok ryu" "data \<noteq> []" "collect_fields c \<noteq> []" "\<forall>r\<in>set data. scalars r \<and> has_fields (collect_fields c) r"
    "resolve_collect_item_fields data c (collect_fields c) = Inr fs"
  shows "let items = (\<lambda>vs. sort_cmp (compare_collect_values ryu (ca_order_by c))
        (map (collect_item fs (ca_include_group_fields_in_items c)) (filter (\<lambda>r. cell_values (collect_fields c) r = vs) data))) in
    build_collect_aggregation ryu data c =
      Inr (collect_json c (map (\<lambda>vs. JObj (new_group (zip (collect_fields c) vs) (ca_items_as c) (items vs)))
        (firsts (map (cell_values (collect_fields c)) data))) (length data)) \<and>
    (\<forall>vs. sorted_wrt (\<lambda>a b. compare_collect_values ryu (ca_order_by c) a b \<noteq> Greater) (items vs))"
proof -
  let ?gf = "collect_fields c" and ?cmp = "compare_collect_values ryu (ca_order_by c)"
  let ?item = "collect_item fs (ca_include_group_fields_in_items c)"
  let ?raw = "\<lambda>vs. map ?item (filter (\<lambda>r. cell_values ?gf r = vs) data)"
  have f: "\<forall>r\<in>set data. has_fields fs r" "\<forall>o1\<in>set (ca_order_by c). so_field o1 \<in> set fs"
    using resolved_fields [OF assms(5)] by auto
  have ok: "\<forall>x\<in>set (?raw vs). sortable ryu (ca_order_by c) x" for vs
    using collect_sortable [OF assms(1)] assms(4) f by auto
  have bk: "collect.by_key ryu (ca_order_by c) (\<lambda>x. x) = ?cmp" by (simp add: fun_eq_iff collect.by_key_def)
  have sorted: "sorted_wrt (\<lambda>a b. ?cmp a b \<noteq> Greater) (sort_cmp ?cmp (?raw vs))" for vs
    using collect.sort_ordered [of "?raw vs" ryu "ca_order_by c" "\<lambda>x. x"] ok by (simp add: bk collect.ordered_by_def)
  have unsorted: "sort_cmp ?cmp (?raw vs) = ?raw vs" if "ca_order_by c = []" for vs
    using collect.sort_of_ordered [of "?raw vs" ryu "ca_order_by c" "\<lambda>x. x"] ok [of vs] that
    by (simp add: bk [unfolded that] collect.ordered_by_def sorted_wrt_iff_nth_less)
  have mf: "List.map_filter (\<lambda>r. Some (?item r)) rs = map ?item rs" for rs
    by (induction rs) (simp_all add: List.map_filter_simps)
  obtain index where "fold_r (\<lambda>r. add_item (group_key ryu (zip ?gf (cell_values ?gf r))) (ca_items_as c) (zip ?gf (cell_values ?gf r)) (Some (?item r))) data ([], []) =
      Inr (groups_of ?gf (ca_items_as c) (cell_values ?gf) (\<lambda>r. Some (?item r)) data, index)"
    using add_items [of "set data" "\<lambda>r. group_key ryu (zip ?gf (cell_values ?gf r))" "cell_values ?gf" data "ca_items_as c" ?gf "\<lambda>r. Some (?item r)"]
      key_of_values [OF assms(1)] assms(4) by auto
  then have run: "fold_r (collect_row ryu c ?gf fs) data (([], []), 0) =
      Inr ((map (\<lambda>vs. new_group (zip ?gf vs) (ca_items_as c) (?raw vs)) (firsts (map (cell_values ?gf) data)), index), length data)"
    using collect_run [of data ?gf fs ryu c "([], [])" 0] assms(4) f(1) by (simp add: groups_of_def mf)
  show ?thesis
    unfolding Let_def using sorted run assms(2,3,5) unsorted
    by (cases "ca_order_by c = []") (simp_all add: build_collect_aggregation_def sort_new_group comp_def Let_def)
qed

definition small_collect :: saved_collect_aggregation where
  "small_collect = \<lparr>ca_group_by = Some ''c'', ca_group_by_fields = [], ca_items_as = ''items'', ca_item_fields = [''n''],
     ca_order_by = [\<lparr>so_field = ''n'', so_direction = ''Desc''\<rparr>], ca_include_group_fields_in_items = False\<rparr>"

theorem collect_by_value_witness:
  "build_collect_aggregation small_ryu small_rows small_collect =
    Inr (collect_json small_collect
      [JObj [(''c'', JStr ''x''), (''items'', JArr [JObj [(''n'', JInt 3)], JObj [(''n'', JInt 1)]])],
       JObj [(''c'', JStr ''y''), (''items'', JArr [JObj [(''n'', JInt 2)]])]] 3)"
proof -
  have r: "small_rows \<noteq> []" "collect_fields small_collect \<noteq> []"
    "\<forall>r\<in>set small_rows. scalars r \<and> has_fields (collect_fields small_collect) r"
    "resolve_collect_item_fields small_rows small_collect (collect_fields small_collect) = Inr [''n'']"
    by (auto simp: small_rows_def small_collect_def scalars_def hwf_def has_fields_def collect_fields_def hget_def resolve_collect_item_fields_def)
  have n: "round64 1 = Fin 1" "round64 2 = Fin 2" "round64 3 = Fin 3" using round64_of_nat [of 1] round64_of_nat [of 2] round64_of_nat [of 3] by simp_all
  show ?thesis
    unfolding collect_by_value [OF small_ryu_ok r, unfolded Let_def, THEN conjunct1]
    by (simp add: small_rows_def small_collect_def collect_fields_def cell_values_def firsts_def hget_def new_group_def hput_def
      collect_item_def sort_cmp_def n cmp_ord_def numeral_3_eq_3)
qed

end
