(* ===== verification/Server_Read.thy ===== *)
theory Server_Read
  imports Server_Shape Join_Exec Table_Compact
begin

text \<open>
  The read operations of the HTTP server (\<^verbatim>\<open>src/server/mod.rs\<close>): the parameters of a request put into a
  saved query, the page of the engine, the rows that shaping needs beyond it, and the response; and the
  two queries of a split profile. A request ends in a response, a refusal with its status, or a panic
  that the server turns into an error (\<open>Crashed\<close>). \<open>err_text\<close> is the text of an error, \<open>clock\<close> the
  reading of the timer for a field of the response, \<open>debug\<close> its debug text. Arithmetic on page numbers
  wraps at 64 bits as in a release build.
\<close>

datatype read_failure = Refused nat json | Crashed

datatype read_error = JoinFailed join_error | ReadFailed table_error

text \<open>What the server takes from outside: the coder of aggregations, float texts, error texts, the timer.\<close>

record server_lib =
  sl_from_aggregation :: "json \<Rightarrow> string + saved_collect_aggregation option"
  sl_ryu :: "f64 \<Rightarrow> string"
  sl_err_text :: "read_error \<Rightarrow> string"
  sl_shape_text :: "shape_error \<Rightarrow> string"
  sl_clock :: "string \<Rightarrow> f64"
  sl_debug :: json

definition parse_usize :: "string \<Rightarrow> nat option" where
  "parse_usize s = parse_unsigned 64 s"

section \<open>Parameters\<close>

definition param_key :: "string \<Rightarrow> string option" where
  "param_key raw =
     Option.bind (strip_prefix ''$'' raw) (\<lambda>spec.
       let key = trim (hd (split_pred (\<lambda>c. c = CHR ''|'') spec)) in if key = [] then None else Some key)"

text \<open>The value of a filter, with the name of a parameter that is missing.\<close>

definition param_value :: "params \<Rightarrow> string \<Rightarrow> string \<times> string list" where
  "param_value ps raw =
     (case param_key raw of
        None \<Rightarrow> (raw, [])
      | Some key \<Rightarrow> (case hget ps key of Some v \<Rightarrow> (v, []) | None \<Rightarrow> (raw, [key])))"

definition param_or_raw :: "params \<Rightarrow> string \<Rightarrow> string" where
  "param_or_raw ps raw = (case param_key raw of Some key \<Rightarrow> hdefault raw (hget ps key) | None \<Rightarrow> raw)"

definition read_filter :: "params \<Rightarrow> saved_filter \<Rightarrow> filter_t \<times> string list" where
  "read_filter ps sf =
     (case param_value ps (sf_value sf) of (v, missing) \<Rightarrow>
       (\<lparr>f_field = sf_field sf, f_op = op_from_str (sf_op sf), f_value = v, f_value_to = map_option (param_or_raw ps) (sf_value_to sf),
         f_type = sf_field_type sf, f_options = map (param_or_raw ps) (sf_values sf)\<rparr>, missing))"

definition json_param :: "params \<Rightarrow> json \<Rightarrow> json \<times> string list" where
  "json_param ps v =
     (case Option.bind (as_str v) param_key of
        None \<Rightarrow> (v, [])
      | Some key \<Rightarrow> (case hget ps key of
          Some p \<Rightarrow> (case parse_unsigned 64 p of Some n \<Rightarrow> JInt (int n) | None \<Rightarrow> JStr p, [])
        | None \<Rightarrow> (v, [key])))"

definition read_aggregation :: "params \<Rightarrow> json \<Rightarrow> json \<times> string list" where
  "read_aggregation ps agg =
     (case agg of
        JObj ((k, JObj obj) # rest) \<Rightarrow>
          let rs = map (\<lambda>(f, v). (f, json_param ps v)) obj in
          (JObj ((k, JObj (map (\<lambda>(f, v, m). (f, v)) rs)) # rest), concat (map (\<lambda>(f, v, m). m) rs))
      | _ \<Rightarrow> (agg, []))"

definition error_json :: "string \<Rightarrow> json" where
  "error_json text = JObj [(''error'', JStr text)]"

definition missing_json :: "string list \<Rightarrow> json" where
  "missing_json missing = JObj [(''error'', JStr ''Missing params''), (''missing'', JArr (map JStr missing))]"

section \<open>Pages\<close>

definition HARD_MAX_LIMIT :: nat where "HARD_MAX_LIMIT = 10000"
definition MAX_GROUPED_RESPONSE_ROWS :: nat where "MAX_GROUPED_RESPONSE_ROWS = 10000"

text \<open>Where the groups of a response are cut.\<close>

definition runtime_grouping :: "params \<Rightarrow> saved_response_grouping \<Rightarrow> saved_response_grouping" where
  "runtime_grouping ps g =
     (let grouping_limit = min (hdefault 100 (case Option.bind (hget ps ''grouping_limit'') parse_usize of
            Some n \<Rightarrow> Some n | None \<Rightarrow> rg_limit_grouping g)) 100;
          grouping_page = max (hdefault 1 (Option.bind (case hget ps ''grouping_page'' of
            Some s \<Rightarrow> Some s | None \<Rightarrow> hget ps (rg_items_as g @ ''_pagination'')) parse_usize)) 1;
          grouping_offset = hdefault (wrap64 ((grouping_page - 1) * grouping_limit)) (Option.bind (hget ps ''grouping_offset'') parse_usize) in
      ResponseGrouping (rg_field g) (rg_fields g) (rg_items_as g) (rg_include_group_fields_in_items g) (rg_children g)
        (Some grouping_limit) (Some grouping_offset))"

definition read_limit :: "params \<Rightarrow> saved_query \<Rightarrow> nat" where
  "read_limit ps q =
     min (hdefault 100 (case sq_limit_param q of
         Some param \<Rightarrow> (case Option.bind (hget ps (hdefault param (param_key param))) parse_usize of Some n \<Rightarrow> Some n | None \<Rightarrow> sq_limit q)
       | None \<Rightarrow> sq_limit q)) HARD_MAX_LIMIT"

definition read_page :: "params \<Rightarrow> nat" where
  "read_page ps =
     max (hdefault 1 (Option.bind (case hget ps ''page'' of Some s \<Rightarrow> Some s | None \<Rightarrow> hget ps ''pagination'') parse_usize)) 1"

definition param_fields :: "params \<Rightarrow> string list" where
  "param_fields ps =
     (case hget ps ''fields'' of
        None \<Rightarrow> []
      | Some s \<Rightarrow> filter (\<lambda>f. f \<noteq> []) (map trim (split_pred (\<lambda>c. c = CHR '','') s)))"

section \<open>A page of the engine\<close>

text \<open>The columns that have a data file in a segment of the table.\<close>

definition get_indexed_fields :: "'c env \<Rightarrow> 'c table \<Rightarrow> string list" where
  "get_indexed_fields E t =
     sort (remdups (concat (map (\<lambda>(n, files). List.map_filter (data_field \<circ> fst) files) (release_dirs E t))))"

definition is_base_column :: "string \<Rightarrow> bool" where
  "is_base_column f \<longleftrightarrow> \<not> ends_with f ''_day'' \<and> \<not> ends_with f ''_month'' \<and> \<not> ends_with f ''_hour_bucket''"

text \<open>The columns \<open>*\<close> stands for; those found on disk are recorded when the manifest has none.\<close>

definition star_columns :: "'c env \<Rightarrow> 'c table \<Rightarrow> string list \<times> 'c table" where
  "star_columns E t =
     (if m_original_fields (t_manifest t) = [] then
        (let cols = filter is_base_column (get_indexed_fields E t) in
         (cols, if cols \<noteq> [] then set_original_fields E cols t else t))
      else (m_original_fields (t_manifest t), t))"

definition searched_fields :: "'c env \<Rightarrow> json list \<Rightarrow> string list \<Rightarrow> string list \<Rightarrow> 'c table \<Rightarrow> string list \<times> 'c table" where
  "searched_fields E aggs pf sel_fields t =
     (let f_search = (if pf \<noteq> [] then pf
            else if sel_fields = [] \<and> aggs = [] then get_base_fields (get_indexed_fields E t) else sel_fields) in
      if ''*'' \<in> set f_search then
        (case star_columns E t of (all_cols, t) \<Rightarrow>
           (rev (remdups (rev (concat (map (\<lambda>f. if f = ''*'' then all_cols else [f]) f_search)))), t))
      else (f_search, t))"

definition run_query_page :: "'c env \<Rightarrow> string option \<Rightarrow> saved_query \<Rightarrow> params \<Rightarrow> auth_context option \<Rightarrow> filter_t list \<Rightarrow> logical_op \<Rightarrow>
    order_by list \<Rightarrow> json list \<Rightarrow> string list \<Rightarrow> string list \<Rightarrow> nat \<Rightarrow> nat \<Rightarrow> 'c manager \<Rightarrow> read_error + query_result \<times> 'c manager" where
  "run_query_page E lazy q ps auth filters filters_op ob aggs pf sel_fields limit offset mg =
     (if is_multi_table q then
        map_err JoinFailed (execute_join_query E lazy q ps (if pf = [] then None else Some pf) limit offset auth mg)
      else map_err ReadFailed (rbind (get_table_for_query E lazy (sq_entity q) (sq_table q) mg) (\<lambda>(t, mg).
        case searched_fields E aggs pf sel_fields t of (f_search, t) \<Rightarrow>
        rbind (table_search E f_search filters filters_op aggs ob limit offset auth t) (\<lambda>(r, t).
          Inr (r, put_table (sq_entity q) (sq_table q) t mg)))))"

definition read_failed :: "server_lib \<Rightarrow> read_error \<Rightarrow> read_failure" where
  "read_failed S e =
     (if e \<in> {ReadFailed Panic, JoinFailed (TableFailed Panic)} then Crashed else Refused 500 (error_json (sl_err_text S e)))"

text \<open>The rows of a page, read by their locations when the search only returned those.\<close>

definition materialize_query_rows :: "'c env \<Rightarrow> string option \<Rightarrow> saved_query \<Rightarrow> string list \<Rightarrow> query_result \<Rightarrow> 'c manager \<Rightarrow>
    read_failure + string list list \<times> 'c manager" where
  "materialize_query_rows E lazy q headers r mg =
     (case (q_rows r, q_row_ids r) of
        ([], Some ids) \<Rightarrow>
          (case get_table_for_query E lazy (sq_entity q) (sq_table q) mg of
             Inl e \<Rightarrow> Inl Crashed
           | Inr (t, mg) \<Rightarrow> (case get_rows_batch headers ids t of
               Inl e \<Rightarrow> if e = Panic then Inl Crashed else Inr ([], mg)
             | Inr (rows, t) \<Rightarrow> Inr (rows, put_table (sq_entity q) (sq_table q) t mg)))
      | (rows, _) \<Rightarrow> Inr (rows, mg))"

section \<open>All rows of a shaped response\<close>

definition too_large :: read_failure where
  "too_large = Refused 400 (JObj [(''error'', JStr ''Shaped response too large''),
     (''details'', JStr (''REST response shaping is limited to '' @ show_nat MAX_GROUPED_RESPONSE_ROWS @ '' source rows''))])"

text \<open>The pages after the first, until all rows found are there; \<open>page\<close> is the page at an offset.\<close>

function more_rows :: "(nat \<Rightarrow> 'm \<Rightarrow> read_failure + 'r list \<times> 'm) \<Rightarrow> nat \<Rightarrow> nat \<Rightarrow> 'r list \<Rightarrow> 'm \<Rightarrow> read_failure + 'r list \<times> 'm" where
  "more_rows page total_found next_offset all_rows mg =
     (if next_offset < total_found then
        (case page next_offset mg of
           Inl e \<Rightarrow> Inl e
         | Inr (page_rows, mg) \<Rightarrow>
             if page_rows = [] then Inr (all_rows, mg)
             else if MAX_GROUPED_RESPONSE_ROWS < length (all_rows @ page_rows) then Inl too_large
             else more_rows page total_found (next_offset + length page_rows) (all_rows @ page_rows) mg)
      else Inr (all_rows, mg))"
  by pat_completeness auto
termination
  by (relation "measure (\<lambda>(page, total_found, next_offset, all_rows, mg). total_found - next_offset)") (auto simp: neq_Nil_conv)

declare more_rows.simps [simp del]

definition source_rows :: "(nat \<Rightarrow> 'm \<Rightarrow> read_failure + 'r list \<times> 'm) \<Rightarrow> nat \<Rightarrow> nat \<Rightarrow> 'r list \<Rightarrow> 'm \<Rightarrow> read_failure + 'r list \<times> 'm" where
  "source_rows page total_found engine_offset rows mg =
     (if length rows < total_found then
        (if MAX_GROUPED_RESPONSE_ROWS < total_found then Inl too_large
         else more_rows page total_found (engine_offset + length rows) rows mg)
      else Inr (rows, mg))"

section \<open>The response\<close>

definition meta_json :: "server_lib \<Rightarrow> nat \<Rightarrow> nat \<Rightarrow> json" where
  "meta_json S total_found fields_count =
     JObj (map (\<lambda>k. (k, json_f64 (sl_clock S k)))
         [''engine_time_ms'', ''engine_total_ms'', ''ops_load_ms'', ''setup_ms'', ''mapping_ms'', ''total_server_ms''] @
       [(''total_found'', JInt (int total_found)), (''fields_count'', JInt (int fields_count)), (''debug_info'', sl_debug S)])"

definition aggregation_json :: "aggregation_result \<Rightarrow> json" where
  "aggregation_json a = JObj [(''data'', JArr (map (JObj \<circ> row_to_json (ar_headers a)) (ar_rows a))),
     (''summary'', case ar_summary a of None \<Rightarrow> JNull | Some f \<Rightarrow> json_f64 f)]"

definition bad_shape :: "server_lib \<Rightarrow> shape_error + 'a \<Rightarrow> read_failure + 'a" where
  "bad_shape S r = map_err (\<lambda>e. Refused 400 (error_json (sl_shape_text S e))) r"

text \<open>The total number of pages divides by the limit, which may be 0.\<close>

definition pagination_json :: "nat \<Rightarrow> nat \<Rightarrow> nat \<Rightarrow> read_failure + json" where
  "pagination_json page limit total_items =
     (if total_items = 0 then Inr (page_meta page limit 1 0)
      else if limit = 0 then Inl Crashed
      else Inr (page_meta page limit (ceil_div total_items limit) total_items))"

definition read_response :: "server_lib \<Rightarrow> saved_response_grouping option \<Rightarrow> saved_collect_aggregation list \<Rightarrow> nat \<Rightarrow> nat \<Rightarrow> nat \<Rightarrow>
    query_result \<Rightarrow> string list list \<Rightarrow> string list list \<Rightarrow> read_failure + json" where
  "read_response S grouping collects page limit offset r rows all_rows =
     (let headers = q_headers r;
          data = map (row_to_json headers) rows;
          source_data = map (row_to_json headers) all_rows in
      rbind (case grouping of
          None \<Rightarrow> Inr None
        | Some g \<Rightarrow> rbind (bad_shape S (group_rows_by_field (sl_ryu S) g (Some (q_total_found r)) source_data)) (\<lambda>v. Inr (as_array v)))
        (\<lambda>grouped.
      rbind (bad_shape S (map_r (build_collect_aggregation (sl_ryu S) source_data) collects)) (\<lambda>collected.
      let aggregations = map aggregation_json (hdefault [] (q_aggregations r)) @ collected;
          body = [(''data'', case grouped of
                Some items \<Rightarrow> JArr (take limit (drop offset items)) | None \<Rightarrow> JArr (map JObj data))] @
            (if aggregations \<noteq> [] then [(''aggregations'', JArr aggregations)] else []) @
            [(''meta'', meta_json S (q_total_found r) (length headers))] in
      if 0 < q_total_found r \<and> headers \<noteq> [] then
        rbind (pagination_json page limit (case grouped of Some items \<Rightarrow> length items | None \<Rightarrow> q_total_found r)) (\<lambda>pg.
          Inr (JObj (body @ [(''pagination'', pg)])))
      else Inr (JObj body))))"

definition execute_read_operation :: "server_lib \<Rightarrow> 'c env \<Rightarrow> string option \<Rightarrow> saved_query \<Rightarrow> params \<Rightarrow> auth_context option \<Rightarrow> 'c manager \<Rightarrow>
    read_failure + json \<times> 'c manager" where
  "execute_read_operation S E lazy q ps auth mg =
     (let fs = map (read_filter ps) (sq_filters q); filters = map fst fs;
          ags = map (read_aggregation ps) (sq_aggregations q);
          missing = concat (map snd fs) @ concat (map snd ags) in
      if missing \<noteq> [] then Inl (Refused 400 (missing_json (remdups_adj (sort missing))))
      else rbind (bad_shape S (split_rest_collect_aggregations (sl_from_aggregation S) (map fst ags))) (\<lambda>(engine_aggs, collects).
      let grouping = map_option (runtime_grouping ps) (sq_response_grouping q);
          filters_op = (if sq_filters_op q = ''Or'' then Or else And);
          ob = map (\<lambda>so. \<lparr>ob_field = so_field so, ob_direction = (if so_direction so = ''Desc'' then Desc else Asc)\<rparr>) (sq_order_by q);
          pf = param_fields ps; limit = read_limit ps q; page = read_page ps; offset = wrap64 ((page - 1) * limit);
          engine_limit = (if grouping \<noteq> None then 100 else limit);
          engine_offset = (if grouping \<noteq> None then 0 else offset);
          run = (\<lambda>o1 mg. map_err (read_failed S)
            (run_query_page E lazy q ps auth filters filters_op ob engine_aggs pf (sq_selected_fields q) engine_limit o1 mg)) in
      rbind (run engine_offset mg) (\<lambda>(r, mg).
      rbind (materialize_query_rows E lazy q (q_headers r) r mg) (\<lambda>(rows, mg).
      rbind (if collects \<noteq> [] \<or> grouping \<noteq> None
        then source_rows (\<lambda>o1 mg. rbind (run o1 mg) (\<lambda>(r2, mg). materialize_query_rows E lazy q (q_headers r) r2 mg))
               (q_total_found r) engine_offset rows mg
        else Inr (rows, mg)) (\<lambda>(all_rows, mg).
      rbind (read_response S grouping collects page limit offset r rows all_rows) (\<lambda>v. Inr (v, mg)))))))"

end
