(* ===== verification/Server_Page.thy ===== *)
theory Server_Page
  imports Server_Group Server_Read
begin

text \<open>
  What a read operation answers: which parameters it asks for, which rows reach the shaping of the
  response, and how the groups come out of the rows of the engine.
\<close>

section \<open>Cells are scalars\<close>

lemma json_cell_scalar: "scalar (json_cell v)"
proof (cases v)
  case (Cons c cs)
  have "scalar (hdefault (JStr v) (from_f64 f))" for f by (simp add: from_f64_def)
  with Cons show ?thesis by (auto simp: json_cell_def split: option.splits)
qed (simp add: json_cell_def)

lemma row_to_json_scalars: "scalars (row_to_json h r)"
proof -
  have "scalars m \<Longrightarrow> scalars (fold (\<lambda>(head, v) m. hput head (json_cell v) m) es m)" for es m
  proof (induction es arbitrary: m)
    case (Cons e es)
    obtain head v where e: "e = (head, v)" by (cases e)
    have sub: "set (hput head (json_cell v) m) \<subseteq> insert (head, json_cell v) (set m)" by (rule hput_subset)
    have "scalars (hput head (json_cell v) m)"
      using Cons.prems sub json_cell_scalar by (force simp: scalars_def)
    with Cons.IH e show ?case by simp
  qed simp
  moreover have "scalars []" by (simp add: scalars_def)
  ultimately show ?thesis by (simp add: row_to_json_def)
qed

text \<open>An integer cell keeps its value.\<close>

lemma json_cell_int: "- (2 ^ 63) \<le> i \<Longrightarrow> i < 2 ^ 63 \<Longrightarrow> json_cell (show_int i) = JInt i"
  using show_int_chars [of i] parse_show_int [of i] by (cases "show_int i") (auto simp: json_cell_def)

section \<open>All rows\<close>

lemma cut_then_rest: "cut_page l n xs @ drop (n + length (cut_page l n xs)) xs = drop n xs"
proof -
  have "drop (n + length (take l (drop n xs))) xs = drop (length (take l (drop n xs))) (drop n xs)" by (simp only: drop_drop add.commute)
  moreover have "take l (drop n xs) = take (length (take l (drop n xs))) (drop n xs)" by (simp add: min_def)
  ultimately show ?thesis unfolding cut_page_def by (metis append_take_drop_id)
qed

lemma more_rows_cut:
  assumes "0 < limit" "\<forall>o1 mg. I mg \<longrightarrow> (\<exists>mg'. page o1 mg = Inr (cut_page limit o1 rows, mg') \<and> I mg')"
    "I mg" "length acc + (length rows - o1) \<le> MAX_GROUPED_RESPONSE_ROWS"
  shows "\<exists>mg'. more_rows page (length rows) o1 acc mg = Inr (acc @ drop o1 rows, mg') \<and> I mg'"
  using assms(3,4)
proof (induction "length rows - o1" arbitrary: o1 acc mg rule: less_induct)
  case less
  show ?case
  proof (cases "o1 < length rows")
    case True
    obtain mg' where p: "page o1 mg = Inr (cut_page limit o1 rows, mg')" and i: "I mg'" using assms(2) less.prems(1) by blast
    let ?c = "cut_page limit o1 rows"
    have ne: "?c \<noteq> []" using True assms(1) by (simp add: cut_page_def)
    have len: "length ?c \<le> length rows - o1" by (simp add: cut_page_def)
    have small: "length (acc @ ?c) \<le> MAX_GROUPED_RESPONSE_ROWS" using len less.prems(2) by simp
    have "length (acc @ ?c) + (length rows - (o1 + length ?c)) \<le> MAX_GROUPED_RESPONSE_ROWS" using len less.prems(2) by simp
    moreover have "length rows - (o1 + length ?c) < length rows - o1" using ne True len by (cases ?c) auto
    ultimately obtain mg'' where "more_rows page (length rows) (o1 + length ?c) (acc @ ?c) mg' =
        Inr ((acc @ ?c) @ drop (o1 + length ?c) rows, mg'')" "I mg''" using less.hyps i by blast
    moreover have "?c @ drop (o1 + length ?c) rows = drop o1 rows" by (rule cut_then_rest)
    ultimately show ?thesis using True p ne small by (simp add: more_rows.simps [of page "length rows" o1])
  next
    case False
    with less.prems(1) show ?thesis by (simp add: more_rows.simps [of page "length rows" o1])
  qed
qed

section \<open>Properties\<close>


definition five_rows :: "string list" where
  "five_rows = [''a'', ''b'', ''c'', ''d'', ''e'']"


text \<open>A \<open>Collect\<close> aggregation on a later page leaves out the rows of the pages before it.\<close>

theorem collect_skips_earlier_pages:
  "source_rows (\<lambda>n mg. Inr (cut_page 2 n five_rows, mg)) (length five_rows) 2 (cut_page 2 2 five_rows) () = Inr ([''c'', ''d'', ''e''], ())"
proof -
  have "length five_rows \<le> MAX_GROUPED_RESPONSE_ROWS" "drop 2 five_rows = [''c'', ''d'', ''e'']"
    by (simp_all add: five_rows_def MAX_GROUPED_RESPONSE_ROWS_def)
  then show ?thesis
    using more_rows_cut [of 2 "\<lambda>_. True" "\<lambda>n mg. Inr (cut_page 2 n five_rows, mg)" five_rows "()" "cut_page 2 2 five_rows" "2 + length (cut_page 2 2 five_rows)"]
      cut_then_rest [of 2 2 five_rows]
    by (simp add: source_rows_def) (simp add: cut_page_def five_rows_def MAX_GROUPED_RESPONSE_ROWS_def)
qed

text \<open>The names of the parameters a query uses as the value of a filter or in an aggregation.\<close>

definition aggregation_params :: "json \<Rightarrow> string set" where
  "aggregation_params a = (case a of
       JObj ((_, JObj obj) # _) \<Rightarrow> {k. \<exists>e\<in>set obj. Option.bind (as_str (snd e)) param_key = Some k}
     | _ \<Rightarrow> {})"

definition value_params :: "saved_query \<Rightarrow> string set" where
  "value_params q = {k. \<exists>f\<in>set (sq_filters q). param_key (sf_value f) = Some k} \<union> \<Union> (aggregation_params ` set (sq_aggregations q))"

lemma filter_missing: "k \<in> set (snd (read_filter ps f)) \<longleftrightarrow> param_key (sf_value f) = Some k \<and> hget ps k = None"
  by (auto simp: read_filter_def param_value_def split: option.splits)

lemma json_missing: "k \<in> set (snd (json_param ps v)) \<longleftrightarrow> Option.bind (as_str v) param_key = Some k \<and> hget ps k = None"
  by (auto simp: json_param_def split: option.splits)

lemma aggregation_missing: "k \<in> set (snd (read_aggregation ps a)) \<longleftrightarrow> k \<in> aggregation_params a \<and> hget ps k = None"
proof (cases "\<exists>kind obj rest. a = JObj ((kind, JObj obj) # rest)")
  case True
  then obtain kind obj rest where a: "a = JObj ((kind, JObj obj) # rest)" by blast
  have "k \<in> set (snd (read_aggregation ps a)) \<longleftrightarrow> (\<exists>e\<in>set obj. k \<in> set (snd (json_param ps (snd e))))"
    by (simp add: a read_aggregation_def Let_def split_beta)
  then show ?thesis by (auto simp: a json_missing aggregation_params_def)
next
  case False
  then have "read_aggregation ps a = (a, [])" "aggregation_params a = {}"
    by (auto simp: read_aggregation_def aggregation_params_def split: json.splits list.splits)
  then show ?thesis by simp
qed

lemma distinct_remdups_adj: "sorted xs \<Longrightarrow> distinct (remdups_adj (xs :: 'a :: linorder list))"
proof (induction xs rule: remdups_adj.induct)
  case (3 x y xs)
  show ?case
  proof (cases "x = y")
    case False
    with 3(3) have "\<forall>z\<in>set (y # xs). x < z" by fastforce
    with 3 False show ?thesis by (auto simp del: remdups_adj.simps(3) simp: remdups_adj.simps(3) [of x y])
  qed (use 3 in simp)
qed simp_all


definition small_server_lib :: server_lib where
  "small_server_lib = \<lparr>sl_from_aggregation = (\<lambda>_. Inr None), sl_ryu = small_ryu, sl_err_text = (\<lambda>_. []), sl_shape_text = (\<lambda>_. []),
     sl_clock = (\<lambda>_. Fin 0), sl_debug = JNull\<rparr>"

definition filtered_query :: saved_query where
  "filtered_query = SavedQuery ''q'' ''e'' ''keys'' None []
     [\<lparr>sf_field = ''a'', sf_op = ''Eq'', sf_value = ''$b'', sf_value_to = None, sf_values = [], sf_field_type = None\<rparr>]
     None ''And'' [] [] None None [] [] None None None"


text \<open>The groups of a response are those of its rows, whatever the rows hold: the cells become texts, integers
  and finite numbers, which the text keys of the hash index tell apart.\<close>

theorem response_groups:
  assumes "ryu_ok (sl_ryu S)" "q_headers r \<noteq> []" "0 < q_total_found r" "0 < limit"
  shows "read_response S (Some g) [] page limit offset r rows all_rows =
    (case grouping_spec g (Some (q_total_found r)) (map (row_to_json (q_headers r)) all_rows) of
       Inl e \<Rightarrow> Inl (Refused 400 (error_json (sl_shape_text S e)))
     | Inr v \<Rightarrow>
         let items = hdefault [] (as_array v) in
         Inr (JObj ([(''data'', JArr (cut_page limit offset items))] @
           (case q_aggregations r of None \<Rightarrow> [] | Some as \<Rightarrow> if as = [] then [] else [(''aggregations'', JArr (map aggregation_json as))]) @
           [(''meta'', meta_json S (q_total_found r) (length (q_headers r))),
            (''pagination'', page_meta page limit (if items = [] then 1 else ceil_div (length items) limit) (length items))])))"
proof -
  let ?data = "map (row_to_json (q_headers r)) all_rows"
  have g: "group_rows_by_field (sl_ryu S) g (Some (q_total_found r)) ?data = grouping_spec g (Some (q_total_found r)) ?data"
    using row_to_json_scalars by (intro grouping_by_value_lemma assms(1)) auto
  have arr: "grouping_spec h o1 d = Inr v \<Longrightarrow> \<exists>vs. v = JArr vs" for h o1 d v
    by (cases h) (auto simp: Let_def rbind_Inr_iff split: if_splits option.splits)
  show ?thesis
  proof (cases "grouping_spec g (Some (q_total_found r)) ?data")
    case (Inl e)
    then show ?thesis by (simp add: read_response_def g bad_shape_def map_err_def Let_def)
  next
    case (Inr v)
    then obtain vs where "v = JArr vs" using arr by blast
    with Inr assms(2-4) show ?thesis
      by (auto simp: read_response_def g bad_shape_def map_err_def Let_def cut_page_def pagination_json_def split: option.split)
  qed
qed

theorem response_groups_witness:
  "\<exists>v. read_response small_server_lib (Some (ResponseGrouping (Some ''c'') [] ''items'' False [] None None)) [] 1 10 0
     \<lparr>q_headers = [''c'', ''n''], q_rows = [[''x'', ''1'']], q_row_ids = None, q_total_found = 1, q_aggregations = None\<rparr>
     [[''x'', ''1'']] [[''x'', ''1'']] = Inr v \<and>
   json_get v ''data'' = Some (JArr [JObj [(''c'', JStr ''x''), (''items'', JArr [JObj [(''n'', JInt 1)]]), (''items_pagination'', page_meta 1 100 1 1)]])"
proof -
  let ?r = "\<lparr>q_headers = [''c'', ''n''], q_rows = [[''x'', ''1'']], q_row_ids = None, q_total_found = 1, q_aggregations = None\<rparr>"
  have i: "json_cell ''1'' = JInt 1" using json_cell_int [of 1] by (simp add: show_int_def show_nat.simps)
  have ry: "ryu_ok (sl_ryu small_server_lib)" using small_ryu_ok by (simp add: small_server_lib_def)
  have spec: "grouping_spec (ResponseGrouping (Some ''c'') [] ''items'' False [] None None) (Some 1) (map (row_to_json [''c'', ''n'']) [[''x'', ''1'']]) =
    Inr (JArr [JObj [(''c'', JStr ''x''), (''items'', JArr [JObj [(''n'', JInt 1)]]), (''items_pagination'', page_meta 1 100 1 1)]])"
    by (simp add: Let_def grouping_fields_def row_to_json_def i)
      (simp add: json_cell_def is_digit_def bval_def missing_field_def has_fields_def cell_values_def items_with_def item_row_def swap_remove_def
        empty_value_def items_meta_def ceil_div_def cut_page_def hput_def hget_def firsts_def)
  show ?thesis
    using response_groups [OF ry, of ?r 10 "ResponseGrouping (Some ''c'') [] ''items'' False [] None None" 1 0 "[[''x'', ''1'']]" "[[''x'', ''1'']]"] spec
    by (simp add: Let_def cut_page_def del: grouping_spec.simps)
qed

text \<open>A limit of 0, which a request can set through the limit parameter, ends in a division by zero.\<close>

theorem zero_limit_crashes:
  assumes "q_headers r \<noteq> []" "0 < q_total_found r"
  shows "read_response S None [] page 0 offset r rows all_rows = Inl Crashed"
  using assms by (simp add: read_response_def bad_shape_def map_err_def pagination_json_def Let_def)

end
