(* ===== verification/Server_Batch.thy ===== *)
theory Server_Batch
  imports Server_Read
begin

text \<open>
  Reads composed of several queries (\<^verbatim>\<open>src/server/mod.rs\<close>): a split profile runs a base query and
  enriches its rows by a second one, a batch runs several reads and computes fields from their summaries.
  A \<open>HashMap\<close> is iterated in the order of its association list.
\<close>

section \<open>Split enrichment\<close>

text \<open>The name of the list of keys is put into the parameters of the second query.\<close>

definition value_to_id_token :: "(f64 \<Rightarrow> string) \<Rightarrow> json \<Rightarrow> string option" where
  "value_to_id_token ryu v =
     (case v of
        JStr s \<Rightarrow> (let t = trim s in if t = [] then None else Some t)
      | JInt i \<Rightarrow> Some (json_text ryu v)
      | JFloat f \<Rightarrow> Some (json_text ryu v)
      | _ \<Rightarrow> None)"

definition value_to_f64 :: "json \<Rightarrow> f64 option" where
  "value_to_f64 v = (case v of JStr s \<Rightarrow> parse_f64 (trim s) | _ \<Rightarrow> as_f64 v)"

text \<open>The base query: the joins and the selected columns the profile keeps, without the profile.\<close>

definition join_alias :: "saved_join \<Rightarrow> string" where
  "join_alias j = hdefault (sj_table j) (sj_alias j)"

definition split_base_query :: "string list \<Rightarrow> string list \<Rightarrow> saved_query \<Rightarrow> saved_query" where
  "split_base_query base_join_aliases base_select_aliases q =
     (case q of SavedQuery nm entity tbl al joins flts tree fop aggs ob lmt lmtp sel slct grp auth prof \<Rightarrow>
        SavedQuery nm entity tbl al
          (if base_join_aliases \<noteq> [] then filter (\<lambda>j. join_alias j \<in> set base_join_aliases) joins else joins)
          flts tree fop aggs ob lmt lmtp sel
          (if base_select_aliases \<noteq> []
           then filter (\<lambda>f. case ss_output_name f of Some nm \<Rightarrow> nm \<in> set base_select_aliases | None \<Rightarrow> False) slct else slct)
          grp auth None)"

definition without_profile :: "saved_query \<Rightarrow> saved_query" where
  "without_profile q = split_base_query [] [] q"

definition enrichment_rows :: "json \<Rightarrow> json list" where
  "enrichment_rows result = hdefault [] (Option.bind (json_get result ''data'') as_array)"

definition enrich_by_key :: "(f64 \<Rightarrow> string) \<Rightarrow> string \<Rightarrow> json list \<Rightarrow> (string, json) hmap" where
  "enrich_by_key ryu key_field rows =
     fold (\<lambda>r m. case Option.bind (json_get r key_field) (value_to_id_token ryu) of Some k \<Rightarrow> hput k r m | None \<Rightarrow> m) rows []"

definition on_object :: "(jmap \<Rightarrow> jmap) \<Rightarrow> json \<Rightarrow> json" where
  "on_object f v = (case v of JObj m \<Rightarrow> JObj (f m) | _ \<Rightarrow> v)"

definition put_missing :: "string \<times> json \<Rightarrow> jmap \<Rightarrow> jmap" where
  "put_missing e m = (case e of (k, v) \<Rightarrow> if hget m k = None then hput k v m else m)"

definition merge_enriched_field :: "json \<Rightarrow> string \<Rightarrow> json \<Rightarrow> json" where
  "merge_enriched_field enriched f row = (case json_get enriched f of Some v \<Rightarrow> on_object (hput f v) row | None \<Rightarrow> row)"

definition add_field :: "json \<Rightarrow> saved_split_additive_field \<Rightarrow> json \<Rightarrow> json" where
  "add_field enriched a row =
     (let base = hdefault (Fin 0) (Option.bind (json_get row (ad_target_field a)) value_to_f64);
          bonus = hdefault (Fin 0) (Option.bind (json_get enriched (ad_source_field a)) value_to_f64) in
      case from_f64 (f64_add base bonus) of Some n \<Rightarrow> on_object (hput (ad_target_field a) n) row | None \<Rightarrow> row)"

definition enrich_base_row :: "(f64 \<Rightarrow> string) \<Rightarrow> saved_split_execution_profile \<Rightarrow> (string, json) hmap \<Rightarrow> json \<Rightarrow> json" where
  "enrich_base_row ryu p by_key row =
     (let row = on_object (fold put_missing (sp_defaults p)) row in
      case Option.bind (Option.bind (json_get row (sp_key_field p)) (value_to_id_token ryu)) (hget by_key) of
        None \<Rightarrow> row
      | Some enriched \<Rightarrow>
          fold (add_field enriched) (sp_additive_fields p) (fold (merge_enriched_field enriched) (sp_merge_fields p) row))"

definition split_meta :: "nat \<Rightarrow> string option \<Rightarrow> jmap \<Rightarrow> jmap" where
  "split_meta fields_count debug_label meta =
     (let meta = hput ''fields_count'' (JInt (int fields_count)) meta in
      case Option.bind (hget meta ''debug_info'') as_str of
        None \<Rightarrow> meta
      | Some debug \<Rightarrow> hput ''debug_info'' (JStr (debug @ ''; '' @ hdefault ''split_mode: profile(split_enrichment)'' debug_label)) meta)"

definition on_field :: "string \<Rightarrow> (json \<Rightarrow> json) \<Rightarrow> json \<Rightarrow> json" where
  "on_field k f v = (case v of JObj m \<Rightarrow> (case hget m k of Some x \<Rightarrow> JObj (hput k (f x) m) | None \<Rightarrow> v) | _ \<Rightarrow> v)"

definition execute_split_enrichment_read :: "server_lib \<Rightarrow> 'c env \<Rightarrow> string option \<Rightarrow> saved_query \<Rightarrow> saved_split_execution_profile \<Rightarrow>
    params \<Rightarrow> auth_context option \<Rightarrow> 'c manager \<Rightarrow> read_failure + json \<times> 'c manager" where
  "execute_split_enrichment_read S E lazy q p ps auth mg =
     (if sp_mode p \<noteq> ''split_enrichment'' then execute_read_operation S E lazy q ps auth mg
      else let base_query = split_base_query (sp_base_join_aliases p) (sp_base_select_aliases p) q in
        rbind (execute_read_operation S E lazy base_query ps auth mg) (\<lambda>(base_result, mg).
        case Option.bind (json_get base_result ''data'') as_array of
          None \<Rightarrow> Inr (base_result, mg)
        | Some base_data \<Rightarrow>
            let ids = List.map_filter (\<lambda>item. Option.bind (json_get item (sp_key_field p)) (value_to_id_token (sl_ryu S))) base_data in
            if base_data = [] \<or> ids = [] then Inr (base_result, mg)
            else rbind (execute_read_operation S E lazy (without_profile (sp_enrichment_query p))
                   (hput (sp_ids_param p) (join_with '','' ids) ps) auth mg) (\<lambda>(enrichment_result, mg).
              let by_key = enrich_by_key (sl_ryu S) (hdefault (sp_key_field p) (sp_enrichment_key_field p)) (enrichment_rows enrichment_result);
                  result = on_field ''data'' (\<lambda>d. JArr (map (enrich_base_row (sl_ryu S) p by_key) base_data)) base_result in
              Inr (on_field ''meta'' (on_object (split_meta (length (sq_select base_query)) (sp_debug_label p))) result, mg))))"

section \<open>Computed fields of a batch\<close>

datatype batch_error =
    NotObject | NoData | DataNotArray | ItemsNotObjects | BadComputed string parse_error | BadSource string | NoResult string
  | BadIndexText string | UnsupportedPath string | NoSummary nat

definition extract_aggregation_summary :: "json \<Rightarrow> nat \<Rightarrow> batch_error + f64" where
  "extract_aggregation_summary result index =
     ok_or (NoSummary index)
       (Option.bind (Option.bind (json_get result ''aggregations'') as_array) (\<lambda>items.
        Option.bind (if index < length items then Some (items ! index) else None) (\<lambda>v.
        Option.bind (json_get v ''summary'') as_f64)))"

definition resolve_batch_input :: "jmap \<Rightarrow> string \<Rightarrow> batch_error + f64" where
  "resolve_batch_input results source =
     (case split_once CHR ''.'' source of
        None \<Rightarrow> Inl (BadSource source)
      | Some (nm, path) \<Rightarrow>
          rbind (ok_or (NoResult nm) (hget results nm)) (\<lambda>result.
            if path = ''summary'' then extract_aggregation_summary result 0
            else if starts_with path ''summary['' \<and> ends_with path '']'' then
              rbind (ok_or (BadIndexText source) (parse_usize (take (length path - 9) (drop 8 path)))) (extract_aggregation_summary result)
            else Inl (UnsupportedPath path)))"

definition computed_context :: "jmap \<Rightarrow> (string, string) hmap \<Rightarrow> batch_error + (string, f64) hmap" where
  "computed_context results inputs =
     fold_r (\<lambda>(nm, source) ctx. rbind (resolve_batch_input results source) (\<lambda>v. Inr (hput nm v ctx))) inputs []"

definition build_batch_computed_fields :: "jmap \<Rightarrow> saved_batch_computed_field list \<Rightarrow> batch_error + jmap" where
  "build_batch_computed_fields results flds =
     fold_r (\<lambda>c computed.
       case parse_expression (bc_expression c) of
         Inl e \<Rightarrow> Inl (BadComputed (bc_name c) e)
       | Inr parsed \<Rightarrow> rbind (computed_context results (bc_inputs c)) (\<lambda>ctx.
           Inr (hput (bc_name c) (json_f64 (evaluate parsed (hget ctx))) computed))) flds []"

text \<open>Each item is rebuilt with the computed fields before \<open>categoria\<close>, or at its end.\<close>

definition put_all :: "jmap \<Rightarrow> jmap \<Rightarrow> jmap" where
  "put_all computed m = fold (\<lambda>(k, v). hput k v) computed m"

definition merge_step :: "jmap \<Rightarrow> string \<times> json \<Rightarrow> jmap \<times> bool \<Rightarrow> jmap \<times> bool" where
  "merge_step computed e st =
     (case (e, st) of ((key, v), (reordered, inserted)) \<Rightarrow>
        if key = ''categoria'' \<and> \<not> inserted then (hput key v (put_all computed reordered), True)
        else (hput key v reordered, inserted))"

definition merge_item :: "jmap \<Rightarrow> jmap \<Rightarrow> jmap" where
  "merge_item computed original =
     (case fold (merge_step computed) original ([], False) of
        (reordered, inserted) \<Rightarrow> if inserted then reordered else put_all computed reordered)"

definition merge_computed_into_result :: "json \<Rightarrow> jmap \<Rightarrow> batch_error + json" where
  "merge_computed_into_result source_result computed =
     (case source_result of
        JObj obj \<Rightarrow> rbind (ok_or NoData (hget obj ''data'')) (\<lambda>data.
          rbind (ok_or DataNotArray (as_array data)) (\<lambda>items.
          rbind (map_r (\<lambda>item. rbind (ok_or ItemsNotObjects (as_object item)) (\<lambda>m. Inr (JObj (merge_item computed m)))) items) (\<lambda>items.
            Inr (JObj (hput ''data'' (JArr items) obj)))))
      | _ \<Rightarrow> Inl NotObject)"

section \<open>Batches\<close>

record batch_totals =
  bt_max_pages :: nat
  bt_total_items :: nat
  bt_time :: f64

definition batch_params :: "string \<Rightarrow> params \<Rightarrow> params" where
  "batch_params op_nm ps =
     fold (\<lambda>(k, v) m. case strip_prefix (op_nm @ '':'') k of Some stripped \<Rightarrow> hput stripped v m | None \<Rightarrow> m) ps ps"

definition count_result :: "json \<Rightarrow> batch_totals \<Rightarrow> batch_totals" where
  "count_result res b =
     (let b = (case Option.bind (json_get res ''pagination'') as_object of
            None \<Rightarrow> b
          | Some pg \<Rightarrow>
              let pages = hdefault 0 (Option.bind (hget pg ''total_pages'') as_u64);
                  items = hdefault 0 (Option.bind (hget pg ''total_items'') as_u64) in
              b\<lparr>bt_max_pages := max (bt_max_pages b) pages, bt_total_items := wrap64 (bt_total_items b + items)\<rparr>) in
      case Option.bind (json_get res ''meta'') as_object of
        None \<Rightarrow> b
      | Some meta \<Rightarrow> b\<lparr>bt_time := f64_add (bt_time b) (hdefault (Fin 0) (Option.bind (hget meta ''engine_time_ms'') as_f64))\<rparr>)"

definition find_op :: "saved_operation list \<Rightarrow> string \<Rightarrow> saved_operation option" where
  "find_op ops nm = List.find (\<lambda>o1. op_name o1 = nm) ops"

definition query_failed :: "nat \<Rightarrow> json \<Rightarrow> json" where
  "query_failed status details = JObj [(''error'', JStr ''Query failed''), (''status'', JInt (int status)), (''details'', details)]"

type_synonym 'c batch_state = "(jmap \<times> batch_totals) \<times> 'c manager"

text \<open>One operation of a batch: a read without a user; another kind is an error in the results, and a name
  without an operation is left out.\<close>

definition batch_step :: "server_lib \<Rightarrow> 'c env \<Rightarrow> string option \<Rightarrow> saved_operation list \<Rightarrow> params \<Rightarrow> string \<Rightarrow> 'c batch_state \<Rightarrow>
    read_failure + 'c batch_state" where
  "batch_step S E lazy ops ps nm st =
     (case st of ((results, totals), mg) \<Rightarrow>
        (case find_op ops nm of
           None \<Rightarrow> Inr st
         | Some (Read q) \<Rightarrow>
             (case execute_read_operation S E lazy q (batch_params nm ps) None mg of
                Inr (res, mg) \<Rightarrow> Inr ((hput nm res results, count_result res totals), mg)
              | Inl (Refused status details) \<Rightarrow> Inr ((hput nm (query_failed status details) results, totals), mg)
              | Inl Crashed \<Rightarrow> Inl Crashed)
         | Some _ \<Rightarrow> Inr ((hput nm (error_json ''Only Read supported in Batch'') results, totals), mg)))"

definition batch_meta :: "saved_batch \<Rightarrow> batch_totals \<Rightarrow> json" where
  "batch_meta b t = JObj [(''max_pages'', JInt (int (bt_max_pages t))), (''total_items_combined'', JInt (int (bt_total_items t))),
     (''total_engine_time_ms'', json_f64 (bt_time t)), (''queries_count'', JInt (int (length (sb_operations b))))]"

text \<open>The response of a batch, and whether it goes into the response cache.\<close>

definition batch_response :: "(batch_error \<Rightarrow> string) \<Rightarrow> saved_batch \<Rightarrow> jmap \<Rightarrow> batch_totals \<Rightarrow> json \<times> bool" where
  "batch_response text b results totals =
     (case build_batch_computed_fields results (sb_computed_fields b) of
        Inl e \<Rightarrow> (JObj [(''error'', JStr (text e)), (''results'', JObj results), (''batch_meta'', batch_meta b totals)], False)
      | Inr computed \<Rightarrow>
          if sb_response_mode b = Some ''computed_only'' then (JObj computed, False)
          else if sb_response_mode b = Some ''merge_first_data'' then
            (case sb_operations b of
               [] \<Rightarrow> (error_json ''batch has no operations'', False)
             | first # _ \<Rightarrow>
                 (case hget results first of
                    None \<Rightarrow> (error_json (''batch result '' @ [CHR 0x27] @ first @ [CHR 0x27] @ '' not found''), False)
                  | Some source_result \<Rightarrow>
                      (case merge_computed_into_result source_result computed of
                         Inl e \<Rightarrow> (error_json (text e), False)
                       | Inr merged \<Rightarrow> (merged, True))))
          else (JObj [(''results'', JObj results), (''computed'', JObj computed), (''batch_meta'', batch_meta b totals)], False))"

definition run_batch :: "server_lib \<Rightarrow> (batch_error \<Rightarrow> string) \<Rightarrow> 'c env \<Rightarrow> string option \<Rightarrow> saved_operation list \<Rightarrow> saved_batch \<Rightarrow> params \<Rightarrow>
    'c manager \<Rightarrow> read_failure + (json \<times> bool) \<times> 'c manager" where
  "run_batch S text E lazy ops b ps mg =
     rbind (fold_r (batch_step S E lazy ops ps) (sb_operations b)
         (([], \<lparr>bt_max_pages = 0, bt_total_items = 0, bt_time = Fin 0\<rparr>), mg)) (\<lambda>((results, totals), mg).
       Inr (batch_response text b results totals, mg))"

end
