(* ===== verification/Server_Http.thy ===== *)
theory Server_Http
  imports Server_Batch Auth
begin

text \<open>
  The HTTP handlers (\<^verbatim>\<open>src/server/mod.rs\<close>): the saved operations and their cache, the configuration
  endpoints, the check of the identity for a read, the response cache (\<^verbatim>\<open>response_cache.rs\<close>), reads,
  batches and inserts; and the public router, which hides the paths of the administration and counts
  what is billed.

  Times are in nanoseconds. What the server takes from outside is in \<open>http\<close>: the libraries, the coder of
  operations and payloads, the mirror directories and the environment. A request carries the time it
  arrives and the time its response is ready; of its headers the first value of each name. Writing the
  operations file does not fail.
\<close>

section \<open>The response cache\<close>

record response_cache =
  rc_ttl :: nat
  rc_ops :: "string set"
  rc_max_entries :: nat
  rc_store :: "(string, json \<times> nat) hmap"

definition nanos :: nat where "nanos = 10 ^ 9"

definition cache_from_env :: "(string \<Rightarrow> string option) \<Rightarrow> response_cache" where
  "cache_from_env vars =
     \<lparr>rc_ttl = hdefault 0 (Option.bind (vars ''BITTICE_RESPONSE_CACHE_TTL_SECS'') (\<lambda>v. parse_unsigned 64 (trim v))) * nanos,
      rc_ops = (case vars ''BITTICE_RESPONSE_CACHE_OPS'' of
          None \<Rightarrow> {}
        | Some l \<Rightarrow> set (filter (\<lambda>s. s \<noteq> []) (map trim (split_pred (\<lambda>c. c = CHR '','') l)))),
      rc_max_entries = hdefault 256 (Option.bind (vars ''BITTICE_RESPONSE_CACHE_MAX_ENTRIES'') (\<lambda>v. parse_usize (trim v))),
      rc_store = []\<rparr>"

definition cache_enabled :: "response_cache \<Rightarrow> bool" where
  "cache_enabled rc \<longleftrightarrow> rc_ttl rc \<noteq> 0 \<and> rc_ops rc \<noteq> {}"

definition is_cacheable_op :: "response_cache \<Rightarrow> string \<Rightarrow> bool" where
  "is_cacheable_op rc op_nm \<longleftrightarrow> cache_enabled rc \<and> op_nm \<in> rc_ops rc"

definition cache_key :: "string \<Rightarrow> params \<Rightarrow> string" where
  "cache_key op_nm ps = op_nm @ ''?'' @ join_with ''&'' (map (\<lambda>(k, v). k @ ''='' @ v) (sort_key fst ps))"

definition cache_get :: "nat \<Rightarrow> string \<Rightarrow> params \<Rightarrow> response_cache \<Rightarrow> json option \<times> response_cache" where
  "cache_get now op_nm ps rc =
     (if \<not> is_cacheable_op rc op_nm then (None, rc)
      else let key = cache_key op_nm ps in
        case hget (rc_store rc) key of
          None \<Rightarrow> (None, rc)
        | Some (body, inserted) \<Rightarrow>
            if rc_ttl rc < now - inserted then (None, rc\<lparr>rc_store := hdel key (rc_store rc)\<rparr>) else (Some body, rc))"

text \<open>The first of the entries with the least time.\<close>

fun oldest :: "(string, json \<times> nat) hmap \<Rightarrow> (string \<times> nat) option" where
  "oldest [] = None"
| "oldest ((k, b, t) # m) = (case oldest m of None \<Rightarrow> Some (k, t) | Some (k', t') \<Rightarrow> if t' < t then Some (k', t') else Some (k, t))"

definition cache_put :: "nat \<Rightarrow> string \<Rightarrow> params \<Rightarrow> json \<Rightarrow> response_cache \<Rightarrow> response_cache" where
  "cache_put now op_nm ps body rc =
     (if \<not> is_cacheable_op rc op_nm then rc
      else let store = rc_store rc;
               store = (if rc_max_entries rc \<le> length store
                 then (case oldest store of None \<Rightarrow> store | Some (k, t) \<Rightarrow> hdel k store) else store) in
        rc\<lparr>rc_store := hput (cache_key op_nm ps) (body, now) store\<rparr>)"

definition cache_clear :: "response_cache \<Rightarrow> response_cache" where
  "cache_clear rc = rc\<lparr>rc_store := []\<rparr>"

section \<open>The server\<close>

record 'c http =
  ht_env :: "'c env"
  ht_lazy :: "string option"
  ht_lib :: server_lib
  ht_batch_text :: "batch_error \<Rightarrow> string"
  ht_auth :: auth_lib
  ht_fs :: mirror_fs
  ht_entities :: "string list"
  ht_codec :: ops_codec
  ht_dec_op :: "bytes \<Rightarrow> string + saved_operation"
  ht_op_json :: "saved_operation \<Rightarrow> json"
  ht_dec_payload :: "bytes \<Rightarrow> row option"
  ht_vars :: "string \<Rightarrow> string option"

record 'c server =
  sv_manager :: "'c manager"
  sv_ops_cache :: "(nat \<times> saved_operation list) option"
  sv_response_cache :: response_cache
  sv_ops_files :: ops_files
  sv_entity_filter :: "string option"

datatype http_method = GET | POST | PUT | DELETE | OTHER

record request =
  rq_now :: nat
  rq_done :: nat
  rq_method :: http_method
  rq_path :: string
  rq_params :: params
  rq_headers :: headers
  rq_body :: bytes

type_synonym response = "nat \<times> json"

text \<open>A panic leaves no response of the handler.\<close>

datatype http_outcome = Responded response | Panics

section \<open>The saved operations\<close>

definition load_ops :: "'c http \<Rightarrow> string option \<Rightarrow> ops_files \<Rightarrow> saved_operation list \<times> ops_files" where
  "load_ops H entity_filter files =
     (case load_operations_with_filter (e_ext (ht_env H)) (ht_codec H) entity_filter files of Inl e \<Rightarrow> ([], files) | Inr r \<Rightarrow> r)"

definition reload_ops :: "'c http \<Rightarrow> nat \<Rightarrow> 'c server \<Rightarrow> saved_operation list \<times> 'c server" where
  "reload_ops H now sv =
     (case load_ops H (sv_entity_filter sv) (sv_ops_files sv) of
        (ops, files) \<Rightarrow> (ops, sv\<lparr>sv_ops_files := files, sv_ops_cache := Some (now, ops)\<rparr>))"

definition current_ops :: "'c http \<Rightarrow> nat \<Rightarrow> 'c server \<Rightarrow> saved_operation list \<times> 'c server" where
  "current_ops H now sv =
     (case sv_ops_cache sv of
        None \<Rightarrow> reload_ops H now sv
      | Some (ts, ops) \<Rightarrow> if 60 < (now - ts) div nanos then reload_ops H now sv else (ops, sv))"

text \<open>The table manager takes its preferred tables from the operations of the file.\<close>

definition refresh_priority :: "'c http \<Rightarrow> 'c server \<Rightarrow> 'c server" where
  "refresh_priority H sv =
     (let loaded = load_operations_with_filter (e_ext (ht_env H)) (ht_codec H) (sv_entity_filter sv) (sv_ops_files sv);
          priority = ht_vars H ''BITTICE_OPS_TABLE_CACHE_PRIORITY'' in
      sv\<lparr>sv_manager := refresh_query_priority_keys_from_ops priority (ht_vars H ''BITTICE_OPS_CACHE_BUFFER'') (map_sum id fst loaded)
           (sv_manager sv),
         sv_ops_files := (case loaded of
             Inr (ops, files) \<Rightarrow> if ops_table_cache_priority_enabled priority then files else sv_ops_files sv
           | Inl e \<Rightarrow> sv_ops_files sv)\<rparr>)"

definition store_ops :: "'c http \<Rightarrow> saved_operation list \<Rightarrow> 'c server \<Rightarrow> 'c server" where
  "store_ops H ops sv =
     refresh_priority H (sv\<lparr>sv_ops_files := save_operations (ht_codec H) ops (sv_ops_files sv), sv_ops_cache := None\<rparr>)"

definition quoted :: "string \<Rightarrow> string" where
  "quoted nm = [CHR 0x27] @ nm @ [CHR 0x27]"

definition status_json :: "string \<Rightarrow> string \<Rightarrow> json" where
  "status_json status nm = JObj [(''status'', JStr status), (''name'', JStr nm)]"

definition invalid_format :: "string \<Rightarrow> response" where
  "invalid_format e = (400, JObj [(''error'', JStr ''Invalid format''), (''details'', JStr e)])"

definition op_position :: "string \<Rightarrow> saved_operation list \<Rightarrow> nat option" where
  "op_position nm ops = header_index nm (map op_name ops)"

definition all_ops :: "'c http \<Rightarrow> 'c server \<Rightarrow> saved_operation list \<times> 'c server" where
  "all_ops H sv = (case load_ops H None (sv_ops_files sv) of (ops, files) \<Rightarrow> (ops, sv\<lparr>sv_ops_files := files\<rparr>))"

definition config_post :: "'c http \<Rightarrow> bytes \<Rightarrow> 'c server \<Rightarrow> response \<times> 'c server" where
  "config_post H body sv =
     (case ht_dec_op H body of
        Inl e \<Rightarrow> (invalid_format e, sv)
      | Inr new_op \<Rightarrow>
          (case all_ops H sv of (ops, sv) \<Rightarrow>
             if op_position (op_name new_op) ops \<noteq> None
             then ((409, error_json (''Operation '' @ quoted (op_name new_op) @ '' already exists. Use PUT to update.'')), sv)
             else ((201, status_json ''created'' (op_name new_op)), store_ops H (ops @ [new_op]) sv)))"

definition config_put :: "'c http \<Rightarrow> bytes \<Rightarrow> 'c server \<Rightarrow> response \<times> 'c server" where
  "config_put H body sv =
     (case ht_dec_op H body of
        Inl e \<Rightarrow> (invalid_format e, sv)
      | Inr new_op \<Rightarrow>
          (case all_ops H sv of (ops, sv) \<Rightarrow>
             (case op_position (op_name new_op) ops of
                Some pos \<Rightarrow> ((200, status_json ''updated'' (op_name new_op)), store_ops H (ops[pos := new_op]) sv)
              | None \<Rightarrow> ((404, error_json (''Operation '' @ quoted (op_name new_op) @ '' not found. Use POST to create.'')), sv))))"

definition config_get :: "'c http \<Rightarrow> saved_operation list \<Rightarrow> params \<Rightarrow> response" where
  "config_get H ops ps =
     (case hget ps ''name'' of
        Some nm \<Rightarrow> (case find_op ops nm of Some o1 \<Rightarrow> (200, ht_op_json H o1) | None \<Rightarrow> (404, error_json ''Operation not found''))
      | None \<Rightarrow> (200, JArr (map (ht_op_json H) ops)))"

definition config_delete :: "'c http \<Rightarrow> params \<Rightarrow> 'c server \<Rightarrow> response \<times> 'c server" where
  "config_delete H ps sv =
     (case hget ps ''name'' of
        None \<Rightarrow> ((400, error_json (''Missing '' @ quoted ''name'' @ '' query parameter'')), sv)
      | Some nm \<Rightarrow>
          (case all_ops H sv of (ops, sv) \<Rightarrow>
             let kept = filter (\<lambda>o1. op_name o1 \<noteq> nm) ops in
             if length kept < length ops then ((200, status_json ''deleted'' nm), store_ops H kept sv)
             else ((404, error_json ''Operation not found''), sv)))"

definition handle_config :: "'c http \<Rightarrow> saved_operation list \<Rightarrow> request \<Rightarrow> 'c server \<Rightarrow> response \<times> 'c server" where
  "handle_config H ops rq sv =
     (case rq_method rq of
        POST \<Rightarrow> config_post H (rq_body rq) sv
      | PUT \<Rightarrow> config_put H (rq_body rq) sv
      | GET \<Rightarrow> (config_get H ops (rq_params rq), sv)
      | DELETE \<Rightarrow> config_delete H (rq_params rq) sv
      | OTHER \<Rightarrow> ((405, error_json ''Method not allowed for /_config''), sv))"

text \<open>A reload also lets a change-data-capture worker start; that does not change what is modelled here.\<close>

definition config_reload :: "'c http \<Rightarrow> 'c server \<Rightarrow> response \<times> 'c server" where
  "config_reload H sv =
     ((200, JObj [(''status'', JStr ''success''), (''message'', JStr ''Configuration reloaded'')]),
      refresh_priority H (sv\<lparr>sv_ops_cache := None, sv_response_cache := cache_clear (sv_response_cache sv)\<rparr>))"

definition entities_catalog :: "'c http \<Rightarrow> json" where
  "entities_catalog H =
     JObj (fold (\<lambda>e m. if e = [] then m else hput e (JArr (map (JStr \<circ> fst) (fs_subdirs (ht_fs H) e))) m) (ht_entities H) [])"

section \<open>Operations\<close>

definition handle_insert :: "'c http \<Rightarrow> saved_insert \<Rightarrow> row \<Rightarrow> 'c manager \<Rightarrow> http_outcome \<times> 'c manager" where
  "handle_insert H i payload mg =
     (let missing = filter (\<lambda>f. hget payload f = None) (si_expected_fields i) in
      if missing \<noteq> [] then
        (Responded (400, JObj [(''error'', JStr ''Missing fields''), (''missing'', JArr (map JStr missing))]), mg)
      else let fail = (\<lambda>e. if e = Panic then Panics else Responded (500, error_json (sl_err_text (ht_lib H) (ReadFailed e)))) in
        case get_table (ht_env H) (si_entity i) (si_table i) mg of
          Inl e \<Rightarrow> (fail e, mg)
        | Inr (t, mg) \<Rightarrow> (case table_insert (ht_env H) payload t of
            Inl e \<Rightarrow> (fail e, mg)
          | Inr t \<Rightarrow> (Responded (201, JObj [(''status'', JStr ''success''), (''message'', JStr ''Record inserted'')]),
              put_table (si_entity i) (si_table i) t mg)))"

definition unauthorized :: "string \<Rightarrow> response" where
  "unauthorized details = (401, JObj [(''error'', JStr ''Unauthorized''), (''details'', JStr details)])"

text \<open>The identity a read is run with, or the response that ends the request.\<close>

definition read_identity :: "'c http \<Rightarrow> saved_query \<Rightarrow> request \<Rightarrow> 'c manager \<Rightarrow> (http_outcome + auth_context option) \<times> 'c manager" where
  "read_identity H q rq mg =
     (case sq_auth_config q of
        None \<Rightarrow> (Inr None, mg)
      | Some c \<Rightarrow>
          if \<not> sa_enabled c then (Inr None, mg)
          else (case extract_credential_from_headers (rq_headers rq) of
              None \<Rightarrow> (Inl (Responded (unauthorized
                ''Authorization: Bearer <api_key> or X-API-Key header is required for this operation.'')), mg)
            | Some token \<Rightarrow>
                (case resolve_token (ht_env H) (ht_auth H) (ht_fs H) (rq_now rq) (sq_entity q) token (Some c) mg of
                   (Panicked, mg) \<Rightarrow> (Inl Panics, mg)
                 | (Sliced None, mg) \<Rightarrow> (Inl (Responded (unauthorized ''Identity could not be resolved with the provided token.'')), mg)
                 | (Sliced (Some ctx), mg) \<Rightarrow> (Inr (Some ctx), mg))))"

definition execute_saved_read :: "'c http \<Rightarrow> saved_query \<Rightarrow> params \<Rightarrow> auth_context option \<Rightarrow> 'c manager \<Rightarrow> read_failure + json \<times> 'c manager" where
  "execute_saved_read H q ps auth mg =
     (case sq_execution_profile q of
        Some (Split p) \<Rightarrow> execute_split_enrichment_read (ht_lib H) (ht_env H) (ht_lazy H) q p ps auth mg
      | _ \<Rightarrow> execute_read_operation (ht_lib H) (ht_env H) (ht_lazy H) q ps auth mg)"

definition failed_outcome :: "read_failure \<Rightarrow> http_outcome" where
  "failed_outcome e = (case e of Refused status v \<Rightarrow> Responded (status, v) | Crashed \<Rightarrow> Panics)"

definition handle_read :: "'c http \<Rightarrow> string \<Rightarrow> saved_query \<Rightarrow> request \<Rightarrow> auth_context option \<Rightarrow> 'c server \<Rightarrow> http_outcome \<times> 'c server" where
  "handle_read H op_nm q rq auth sv =
     (let cached = auth = None \<and> is_cacheable_op (sv_response_cache sv) op_nm in
      case (if cached then cache_get (rq_now rq) op_nm (rq_params rq) (sv_response_cache sv) else (None, sv_response_cache sv)) of
        (Some v, rc) \<Rightarrow> (Responded (200, v), sv\<lparr>sv_response_cache := rc\<rparr>)
      | (None, rc) \<Rightarrow>
          (case execute_saved_read H q (rq_params rq) auth (sv_manager sv) of
             Inl e \<Rightarrow> (failed_outcome e, sv\<lparr>sv_response_cache := rc\<rparr>)
           | Inr (v, mg) \<Rightarrow>
               (Responded (200, v), sv\<lparr>sv_manager := mg,
                  sv_response_cache := (if cached then cache_put (rq_done rq) op_nm (rq_params rq) v rc else rc)\<rparr>)))"

definition handle_batch :: "'c http \<Rightarrow> saved_batch \<Rightarrow> params \<Rightarrow> nat \<Rightarrow> nat \<Rightarrow> string \<Rightarrow> 'c server \<Rightarrow> http_outcome \<times> 'c server" where
  "handle_batch H b ps now ready cache_op_name sv =
     (case reload_ops H now sv of (ops, sv) \<Rightarrow>
        (case run_batch (ht_lib H) (ht_batch_text H) (ht_env H) (ht_lazy H) ops b ps (sv_manager sv) of
           Inl e \<Rightarrow> (Panics, sv)
         | Inr ((v, cache_it), mg) \<Rightarrow>
             (Responded (200, v), sv\<lparr>sv_manager := mg,
                sv_response_cache := (if cache_it then cache_put ready cache_op_name ps v (sv_response_cache sv) else sv_response_cache sv)\<rparr>)))"

definition handle_get_batch :: "'c http \<Rightarrow> string \<Rightarrow> saved_batch \<Rightarrow> request \<Rightarrow> 'c server \<Rightarrow> http_outcome \<times> 'c server" where
  "handle_get_batch H op_nm b rq sv =
     (case cache_get (rq_now rq) op_nm (rq_params rq) (sv_response_cache sv) of
        (Some v, rc) \<Rightarrow> (Responded (200, v), sv\<lparr>sv_response_cache := rc\<rparr>)
      | (None, rc) \<Rightarrow> handle_batch H b (rq_params rq) (rq_now rq) (rq_done rq) op_nm (sv\<lparr>sv_response_cache := rc\<rparr>))"

definition handle_operation :: "'c http \<Rightarrow> string \<Rightarrow> saved_operation \<Rightarrow> request \<Rightarrow> 'c server \<Rightarrow> http_outcome \<times> 'c server" where
  "handle_operation H op_nm o1 rq sv =
     (case (case o1 of Read q \<Rightarrow> read_identity H q rq (sv_manager sv) | _ \<Rightarrow> (Inr None, sv_manager sv)) of
        (Inl r, mg) \<Rightarrow> (r, sv\<lparr>sv_manager := mg\<rparr>)
      | (Inr auth, mg) \<Rightarrow>
          let sv = sv\<lparr>sv_manager := mg\<rparr> in
          (case (rq_method rq, o1) of
             (GET, Read q) \<Rightarrow> handle_read H op_nm q rq auth sv
           | (GET, Batch b) \<Rightarrow> handle_get_batch H op_nm b rq sv
           | (POST, Insert i) \<Rightarrow>
               (case handle_insert H i (hdefault [] (ht_dec_payload H (rq_body rq))) (sv_manager sv) of
                  (r, mg) \<Rightarrow> (r, sv\<lparr>sv_manager := mg\<rparr>))
           | _ \<Rightarrow> (Responded (405, error_json ''Method not allowed for this operation''), sv)))"

fun trim_slashes :: "string \<Rightarrow> string" where
  "trim_slashes [] = []"
| "trim_slashes (c # cs) = (if c = CHR ''/'' then trim_slashes cs else c # cs)"

definition handle_request :: "'c http \<Rightarrow> request \<Rightarrow> 'c server \<Rightarrow> http_outcome \<times> 'c server" where
  "handle_request H rq sv =
     (let path = rq_path rq; op_nm = trim_slashes path in
      case current_ops H (rq_now rq) sv of (ops, sv) \<Rightarrow>
        if path = ''/_entities'' then (Responded (200, entities_catalog H), sv)
        else if path = ''/_config/reload'' then (case config_reload H sv of (r, sv) \<Rightarrow> (Responded r, sv))
        else if path = ''/_config'' then (case handle_config H ops rq sv of (r, sv) \<Rightarrow> (Responded r, sv))
        else case find_op ops op_nm of
          Some o1 \<Rightarrow> handle_operation H op_nm o1 rq sv
        | None \<Rightarrow> (Responded (404, error_json (''Operation '' @ quoted op_nm @ '' not found'')), sv))"

section \<open>The public router\<close>

definition handle_public_request :: "'c http \<Rightarrow> request \<Rightarrow> 'c server \<Rightarrow> http_outcome \<times> 'c server" where
  "handle_public_request H rq sv =
     (if starts_with (rq_path rq) ''/_'' then
        (Responded (404, JObj [(''error'', JStr ''not_found''), (''detail'', JStr
          ''Use the admin HTTP port (8080) for paths starting with /_ (e.g. POST /_config to create queries).'')]), sv)
      else handle_request H rq sv)"

text \<open>A successful response is one unary operation on the bill; a request beyond the limit of concurrent
  ones is turned away.\<close>

definition billable :: "http_outcome \<Rightarrow> bool" where
  "billable r = (case r of Responded (status, _) \<Rightarrow> 200 \<le> status \<and> status < 300 | Panics \<Rightarrow> False)"

definition count_billable_request :: "('s \<Rightarrow> http_outcome \<times> 's) \<Rightarrow> 's \<times> nat \<Rightarrow> http_outcome \<times> 's \<times> nat" where
  "count_billable_request next st =
     (case next (fst st) of (r, sv) \<Rightarrow> (r, sv, if billable r then snd st + 1 else snd st))"

definition busy :: response where
  "busy = (503, JObj [(''error'', JStr ''Server busy''), (''retry_after_ms'', JInt 500)])"

definition query_concurrency_middleware :: "nat \<Rightarrow> ('s \<Rightarrow> http_outcome \<times> 's) \<Rightarrow> 's \<Rightarrow> http_outcome \<times> 's" where
  "query_concurrency_middleware available_permits next s =
     (if 0 < available_permits then next s else (Responded busy, s))"

end
