(* ===== verification/Server_Access.thy ===== *)
theory Server_Access
  imports Server_Http Server_Page
begin

text \<open>
  What the HTTP handlers guarantee: who sees the answer of a protected read, what the response cache may
  answer with, and how the configuration endpoints change the saved operations.
\<close>

section \<open>The response cache\<close>

text \<open>What happens to the cache, at the times of the clock.\<close>

datatype cache_event = Put nat string params json | Get nat string params | Clear

definition cache_step :: "cache_event \<Rightarrow> response_cache \<Rightarrow> response_cache" where
  "cache_step ev rc = (case ev of
       Put t op_nm ps v \<Rightarrow> cache_put t op_nm ps v rc
     | Get t op_nm ps \<Rightarrow> snd (cache_get t op_nm ps rc)
     | Clear \<Rightarrow> cache_clear rc)"

definition cache_run :: "cache_event list \<Rightarrow> response_cache \<Rightarrow> response_cache" where
  "cache_run evs rc = fold cache_step evs rc"

text \<open>The last response put under a key since the last clearing, with its time: the newest event comes last.\<close>

definition note_put :: "response_cache \<Rightarrow> string \<Rightarrow> cache_event \<Rightarrow> (json \<times> nat) option \<Rightarrow> (json \<times> nat) option" where
  "note_put rc k ev x = (case ev of
       Put t op_nm ps v \<Rightarrow> if is_cacheable_op rc op_nm \<and> cache_key op_nm ps = k then Some (v, t) else x
     | Get t op_nm ps \<Rightarrow> x
     | Clear \<Rightarrow> None)"

definition last_put :: "response_cache \<Rightarrow> string \<Rightarrow> cache_event list \<Rightarrow> (json \<times> nat) option" where
  "last_put rc k evs = fold (note_put rc k) evs None"

definition same_settings :: "response_cache \<Rightarrow> response_cache \<Rightarrow> bool" where
  "same_settings a b \<longleftrightarrow> rc_ttl a = rc_ttl b \<and> rc_ops a = rc_ops b \<and> rc_max_entries a = rc_max_entries b"

lemma step_settings: "same_settings (cache_step ev rc) rc"
  by (cases ev) (auto simp: cache_step_def cache_put_def cache_get_def cache_clear_def same_settings_def Let_def split: option.splits)

lemma oldest_mem: "oldest m = Some (k, t) \<Longrightarrow> k \<in> fst ` set m"
  by (induction m) (auto split: option.splits if_splits)

lemma oldest_None: "oldest m = None \<longleftrightarrow> m = []"
  by (induction m) (auto split: option.splits if_splits)

lemma step_store:
  assumes "hwf (rc_store rc)" "length (rc_store rc) \<le> max 1 (rc_max_entries rc)"
  shows "hwf (rc_store (cache_step ev rc)) \<and> length (rc_store (cache_step ev rc)) \<le> max 1 (rc_max_entries rc)"
proof (cases ev)
  case (Put t op_nm ps v)
  show ?thesis
  proof (cases "is_cacheable_op rc op_nm \<and> rc_max_entries rc \<le> length (rc_store rc)")
    case True
    show ?thesis
    proof (cases "oldest (rc_store rc)")
      case None
      with True assms Put show ?thesis by (simp add: oldest_None cache_step_def cache_put_def Let_def hput_length)
    next
      case (Some kt)
      obtain k t' where kt: "kt = (k, t')" by (cases kt)
      with Some oldest_mem have "hget (rc_store rc) k \<noteq> None" by (simp add: hget_None_iff)
      with assms have "length (hdel k (rc_store rc)) = length (rc_store rc) - 1" "rc_store rc \<noteq> []"
        using Some by (auto simp: hdel_length)
      with True assms Put Some kt show ?thesis by (cases "rc_store rc") (auto simp: cache_step_def cache_put_def Let_def hput_length)
    qed
  next
    case False
    with assms Put show ?thesis by (auto simp: cache_step_def cache_put_def Let_def hput_length)
  qed
next
  case (Get t op_nm ps)
  have "length (hdel k (rc_store rc)) \<le> length (rc_store rc)" for k using assms by (simp add: hdel_length)
  with assms Get show ?thesis
    by (auto simp: cache_step_def cache_get_def Let_def split: option.splits intro: order_trans)
next
  case Clear
  then show ?thesis by (simp add: cache_step_def cache_clear_def)
qed

lemma same_cacheable: "same_settings a b \<Longrightarrow> is_cacheable_op a op_nm = is_cacheable_op b op_nm"
  by (simp add: same_settings_def is_cacheable_op_def cache_enabled_def)

lemma step_entries:
  assumes "\<And>x. hget (rc_store rc) k = Some x \<Longrightarrow> y = Some x"
    "hget (rc_store (cache_step ev rc)) k = Some x"
  shows "note_put rc k ev y = Some x"
proof (cases ev)
  case (Put t op_nm ps v)
  define st where "st = (if rc_max_entries rc \<le> length (rc_store rc)
     then (case oldest (rc_store rc) of None \<Rightarrow> rc_store rc | Some (k, t) \<Rightarrow> hdel k (rc_store rc)) else rc_store rc)"
  have old: "hget st k = Some x \<Longrightarrow> y = Some x" for x
    using assms(1) [of x] by (cases x) (auto simp: st_def split: if_splits option.splits)
  show ?thesis
    using assms(1,2) Put old
    by (auto simp: cache_step_def cache_put_def note_put_def Let_def st_def [symmetric] split: if_splits)
next
  case (Get t op_nm ps)
  then show ?thesis using assms
    by (cases x) (auto simp: cache_step_def cache_get_def note_put_def Let_def split: option.splits if_splits)
next
  case Clear
  then show ?thesis using assms by (simp add: cache_step_def cache_clear_def)
qed

lemma run_settings: "same_settings (cache_run evs rc) rc"
proof (induction evs rule: rev_induct)
  case (snoc ev evs)
  then show ?case using step_settings [of ev "cache_run evs rc"] by (auto simp: cache_run_def same_settings_def)
qed (simp add: cache_run_def same_settings_def)

lemma run_store: "rc_store rc = [] \<Longrightarrow> hwf (rc_store (cache_run evs rc)) \<and> length (rc_store (cache_run evs rc)) \<le> max 1 (rc_max_entries rc)"
proof (induction evs rule: rev_induct)
  case (snoc ev evs)
  then show ?case using step_store [of "cache_run evs rc" ev] run_settings [of evs rc] by (simp add: cache_run_def same_settings_def)
qed (simp add: cache_run_def)

lemma run_entries:
  assumes "rc_store rc = []"
  shows "hget (rc_store (cache_run evs rc)) k = Some x \<Longrightarrow> last_put rc k evs = Some x"
proof (induction evs arbitrary: x rule: rev_induct)
  case Nil
  then show ?case using assms by (simp add: cache_run_def)
next
  case (snoc ev evs)
  have "note_put (cache_run evs rc) k ev (last_put rc k evs) = Some x"
    using step_entries [of "cache_run evs rc" k "last_put rc k evs" ev x] snoc by (auto simp: cache_run_def)
  moreover have "note_put (cache_run evs rc) k ev y = note_put rc k ev y" for y
    using same_cacheable [OF run_settings [of evs rc]] by (cases ev) (simp_all add: note_put_def)
  ultimately show ?case by (simp add: last_put_def)
qed

text \<open>C14: Whatever was put into the response cache, read from it and cleared before, in any order and at any
  times: an answer of the cache is the last response put under the key of the request since the last
  clearing, it is not older than the time to live, and its operation is one the configuration names;
  and the cache never holds more responses than it may, or one where that number is 0.\<close>

theorem cached_response_fresh:
  assumes "rc_store rc = []" "fst (cache_get now op_nm ps (cache_run evs rc)) = Some v"
  shows "(\<exists>t. last_put rc (cache_key op_nm ps) evs = Some (v, t) \<and> now - t \<le> rc_ttl rc) \<and> op_nm \<in> rc_ops rc \<and>
    length (rc_store (cache_run evs rc)) \<le> max 1 (rc_max_entries rc)"
proof -
  have c: "is_cacheable_op (cache_run evs rc) op_nm"
    using assms(2) by (auto simp: cache_get_def split: if_splits)
  obtain t where t: "hget (rc_store (cache_run evs rc)) (cache_key op_nm ps) = Some (v, t)" "now - t \<le> rc_ttl (cache_run evs rc)"
    using assms(2) by (auto simp: cache_get_def Let_def split: if_splits option.splits)
  show ?thesis
    using run_entries [OF assms(1) t(1)] t(2) c run_settings [of evs rc] run_store [OF assms(1), of evs]
    by (auto simp: same_settings_def is_cacheable_op_def)
qed

definition small_cache :: response_cache where
  "small_cache = \<lparr>rc_ttl = 10, rc_ops = {''a''}, rc_max_entries = 1, rc_store = []\<rparr>"

definition some_events :: "cache_event list" where
  "some_events = [Put 1 ''a'' [] JNull, Put 2 ''a'' [(''k'', ''1'')] (JBool True), Get 3 ''a'' [], Put 3 ''b'' [] JNull]"

theorem cached_response_fresh_witness:
  "(\<exists>t. last_put small_cache ''a?k=1'' some_events = Some (JBool True, t) \<and> 12 - t \<le> 10) \<and>
   fst (cache_get 13 ''a'' [(''k'', ''1'')] (cache_run some_events small_cache)) = None"
proof -
  have "fst (cache_get 12 ''a'' [(''k'', ''1'')] (cache_run some_events small_cache)) = Some (JBool True)"
    by code_simp
  from cached_response_fresh [OF _ this] have "\<exists>t. last_put small_cache ''a?k=1'' some_events = Some (JBool True, t) \<and> 12 - t \<le> 10"
    by (simp add: small_cache_def cache_key_def)
  moreover have "fst (cache_get 13 ''a'' [(''k'', ''1'')] (cache_run some_events small_cache)) = None"
    by code_simp
  ultimately show ?thesis by blast
qed

text \<open>The key of a request joins its parameters without escapes: two requests can have the same key, and
  then one is answered with the response of the other.\<close>

lemma cache_keys_collide:
  "cache_key ''a'' [(''x'', ''1''), (''y'', ''2'')] = cache_key ''a'' [(''x'', ''1&y=2'')]"
  by code_simp

section \<open>The saved operations\<close>

text \<open>What the operations file holds, as the configuration endpoints read it; \<open>ops_codec_ok\<close> is the round trip of the
  JSON library on the operations \<open>W\<close> that it can write and read back. The operations in memory are fresh when
  they are those of the file.\<close>

definition config_ops :: "'c http \<Rightarrow> 'c server \<Rightarrow> saved_operation list" where
  "config_ops H sv = fst (load_ops H None (sv_ops_files sv))"

definition ops_codec_ok :: "saved_operation set \<Rightarrow> ops_codec \<Rightarrow> bool" where
  "ops_codec_ok W cd \<longleftrightarrow> (\<forall>ops. set ops \<subseteq> W \<longrightarrow> (\<exists>s. read_ops (enc_ops cd ops) = Inr s \<and> dec_ops cd s = Some ops))"

definition fresh_ops :: "saved_operation set \<Rightarrow> 'c http \<Rightarrow> 'c server \<Rightarrow> bool" where
  "fresh_ops W H sv \<longleftrightarrow> sv_entity_filter sv = None \<and> set (config_ops H sv) \<subseteq> W \<and>
     (case sv_ops_cache sv of None \<Rightarrow> True | Some (t, ops) \<Rightarrow> ops = config_ops H sv)"

text \<open>The configuration as a map from names to operations: the status of an answer with its body where it is the
  operation asked for, and the map after it. \<open>None\<close> leaves the answer open.\<close>

type_synonym op_map = "string \<Rightarrow> saved_operation option"

definition config_spec :: "'c http \<Rightarrow> request \<Rightarrow> op_map \<Rightarrow> nat \<times> json option \<times> op_map" where
  "config_spec H rq m = (case rq_method rq of
       POST \<Rightarrow> (case ht_dec_op H (rq_body rq) of
           Inl e \<Rightarrow> (400, None, m)
         | Inr o1 \<Rightarrow> if m (op_name o1) = None then (201, None, m(op_name o1 \<mapsto> o1)) else (409, None, m))
     | PUT \<Rightarrow> (case ht_dec_op H (rq_body rq) of
           Inl e \<Rightarrow> (400, None, m)
         | Inr o1 \<Rightarrow> if m (op_name o1) = None then (404, None, m) else (200, None, m(op_name o1 \<mapsto> o1)))
     | DELETE \<Rightarrow> (case hget (rq_params rq) ''name'' of
           None \<Rightarrow> (400, None, m)
         | Some nm \<Rightarrow> if m nm = None then (404, None, m) else (200, None, m(nm := None)))
     | GET \<Rightarrow> (case hget (rq_params rq) ''name'' of
           None \<Rightarrow> (200, None, m)
         | Some nm \<Rightarrow> (case m nm of None \<Rightarrow> (404, None, m) | Some o1 \<Rightarrow> (200, Some (ht_op_json H o1), m)))
     | OTHER \<Rightarrow> (405, None, m))"

definition request_spec :: "'c http \<Rightarrow> request \<Rightarrow> op_map \<Rightarrow> (nat \<times> json option) option \<times> op_map" where
  "request_spec H rq m =
     (if rq_path rq = ''/_config'' then (case config_spec H rq m of (st, b, m) \<Rightarrow> (Some (st, b), m))
      else if rq_path rq \<notin> {''/_entities'', ''/_config/reload''} \<and> m (trim_slashes (rq_path rq)) = None then (Some (404, None), m)
      else (None, m))"

fun answers :: "http_outcome \<Rightarrow> (nat \<times> json option) option \<Rightarrow> bool" where
  "answers r None = True"
| "answers r (Some (st, b)) = (case r of Responded (s, v) \<Rightarrow> s = st \<and> (case b of None \<Rightarrow> True | Some w \<Rightarrow> v = w) | Panics \<Rightarrow> False)"

fun serve :: "'c http \<Rightarrow> request list \<Rightarrow> 'c server \<Rightarrow> http_outcome list \<times> 'c server" where
  "serve H [] sv = ([], sv)"
| "serve H (rq # rqs) sv = (case handle_request H rq sv of (r, sv) \<Rightarrow> case serve H rqs sv of (rs, sv) \<Rightarrow> (r # rs, sv))"

fun serve_spec :: "'c http \<Rightarrow> request list \<Rightarrow> op_map \<Rightarrow> (nat \<times> json option) option list \<times> op_map" where
  "serve_spec H [] m = ([], m)"
| "serve_spec H (rq # rqs) m = (case request_spec H rq m of (a, m) \<Rightarrow> case serve_spec H rqs m of (as, m) \<Rightarrow> (a # as, m))"

lemma load_saved: "ops_codec_ok W (ht_codec H) \<Longrightarrow> set ops \<subseteq> W \<Longrightarrow> fst (load_ops H None (save_operations (ht_codec H) ops files)) = ops"
  unfolding load_ops_def load_operations_with_filter_def save_operations_def ops_codec_ok_def
  by (drule spec [of _ ops]) auto

lemma load_again:
  assumes "ops_codec_ok W (ht_codec H)" "set (fst (load_ops H None files)) \<subseteq> W"
    "load_operations_with_filter (e_ext (ht_env H)) (ht_codec H) ent files = Inr (ops, files')"
  shows "fst (load_ops H None files') = fst (load_ops H None files)"
proof -
  have saved: "\<exists>s. read_ops (enc_ops (ht_codec H) o1) = Inr s \<and> dec_ops (ht_codec H) s = Some o1" if "set o1 \<subseteq> W" for o1
    using assms(1) that by (simp add: ops_codec_ok_def)
  show ?thesis
  proof (cases "of_ops files")
    case (Some c)
    with assms(3) have "files' = files" by (auto simp: load_operations_with_filter_def rbind_Inr_iff split: option.splits)
    then show ?thesis by simp
  next
    case None
    show ?thesis
    proof (cases "of_root_ops files")
      case (Some c)
      with None assms(3) obtain s where s: "read_ops c = Inr s"
          "files' = (save_operations (ht_codec H) (hdefault [] (dec_ops (ht_codec H) s)) files)\<lparr>of_root_ops := None\<rparr>"
        by (auto simp: load_operations_with_filter_def rbind_Inr_iff Let_def)
      moreover from this Some None assms(2) have "set (hdefault [] (dec_ops (ht_codec H) s)) \<subseteq> W"
        by (simp add: load_ops_def load_operations_with_filter_def Let_def)
      ultimately show ?thesis using Some None saved [of "hdefault [] (dec_ops (ht_codec H) s)"]
        by (auto simp: load_ops_def load_operations_with_filter_def save_operations_def Let_def)
    next
      case root: None
      show ?thesis
      proof (cases "of_queries files")
        case (Some c)
        with None root assms(3) obtain s where s: "read_ops c = Inr s"
            "files' = (case dec_queries (ht_codec H) s of None \<Rightarrow> files | Some qs \<Rightarrow> save_operations (ht_codec H) (map Read qs) files)"
          by (auto simp: load_operations_with_filter_def rbind_Inr_iff split: option.splits)
        moreover from this Some None root assms(2) have "set (map Read (hdefault [] (dec_queries (ht_codec H) s))) \<subseteq> W"
          by (cases "dec_queries (ht_codec H) s") (auto simp: load_ops_def load_operations_with_filter_def)
        ultimately show ?thesis using Some None root saved [of "map Read (hdefault [] (dec_queries (ht_codec H) s))"]
          by (cases "dec_queries (ht_codec H) s") (auto simp: load_ops_def load_operations_with_filter_def save_operations_def)
      next
        case q: None
        with None root assms(3) show ?thesis by (auto simp: load_operations_with_filter_def)
      qed
    qed
  qed
qed

lemma refresh_config:
  assumes "ops_codec_ok W (ht_codec H)" "set (config_ops H sv) \<subseteq> W"
  shows "config_ops H (refresh_priority H sv) = config_ops H sv" "sv_ops_cache (refresh_priority H sv) = sv_ops_cache sv"
    "sv_entity_filter (refresh_priority H sv) = sv_entity_filter sv" "sv_response_cache (refresh_priority H sv) = sv_response_cache sv"
  using assms(2) load_again [OF assms(1), of "sv_ops_files sv" "sv_entity_filter sv"]
  by (auto simp: config_ops_def refresh_priority_def Let_def split: sum.splits)

lemma store_config:
  assumes "ops_codec_ok W (ht_codec H)" "set ops \<subseteq> W"
  shows "config_ops H (store_ops H ops sv) = ops" "sv_ops_cache (store_ops H ops sv) = None"
    "sv_entity_filter (store_ops H ops sv) = sv_entity_filter sv" "sv_response_cache (store_ops H ops sv) = sv_response_cache sv"
proof -
  let ?sv = "sv\<lparr>sv_ops_files := save_operations (ht_codec H) ops (sv_ops_files sv), sv_ops_cache := None\<rparr>"
  have c: "config_ops H ?sv = ops" by (simp add: config_ops_def load_saved [OF assms])
  then have "set (config_ops H ?sv) \<subseteq> W" using assms(2) by simp
  note refresh_config [OF assms(1) this]
  with c show "config_ops H (store_ops H ops sv) = ops" "sv_ops_cache (store_ops H ops sv) = None"
    "sv_entity_filter (store_ops H ops sv) = sv_entity_filter sv" "sv_response_cache (store_ops H ops sv) = sv_response_cache sv"
    by (simp_all add: store_ops_def)
qed

lemma all_ops_config:
  assumes "ops_codec_ok W (ht_codec H)" "set (config_ops H sv) \<subseteq> W" "all_ops H sv = (ops, sv')"
  shows "ops = config_ops H sv" "config_ops H sv' = config_ops H sv" "sv_ops_cache sv' = sv_ops_cache sv"
    "sv_entity_filter sv' = sv_entity_filter sv" "sv_response_cache sv' = sv_response_cache sv"
  using assms(2,3) load_again [OF assms(1), of "sv_ops_files sv" None]
  by (auto simp: all_ops_def config_ops_def load_ops_def split: prod.splits sum.splits)

lemma reload_config:
  assumes "ops_codec_ok W (ht_codec H)" "fresh_ops W H sv" "reload_ops H now sv = (ops, sv')"
  shows "ops = config_ops H sv" "config_ops H sv' = config_ops H sv" "fresh_ops W H sv'" "sv_response_cache sv' = sv_response_cache sv"
proof -
  obtain files where l: "load_ops H None (sv_ops_files sv) = (ops, files)" "sv' = sv\<lparr>sv_ops_files := files, sv_ops_cache := Some (now, ops)\<rparr>"
    using assms(2,3) by (auto simp: reload_ops_def fresh_ops_def split: prod.splits)
  then show o1: "ops = config_ops H sv" by (simp add: config_ops_def)
  have W: "set (config_ops H sv) \<subseteq> W" using assms(2) by (simp add: fresh_ops_def)
  have "fst (load_ops H None files) = fst (load_ops H None (sv_ops_files sv))"
    using load_again [OF assms(1), of "sv_ops_files sv" None ops files] l(1) W
    by (auto simp: load_ops_def config_ops_def split: sum.splits)
  then show c: "config_ops H sv' = config_ops H sv" using l by (simp add: config_ops_def)
  show "fresh_ops W H sv'" using c W o1 l(2) assms(2) by (simp add: fresh_ops_def)
  show "sv_response_cache sv' = sv_response_cache sv" using l(2) by simp
qed

lemma current_config:
  assumes "ops_codec_ok W (ht_codec H)" "fresh_ops W H sv" "current_ops H now sv = (ops, sv')"
  shows "ops = config_ops H sv" "config_ops H sv' = config_ops H sv" "fresh_ops W H sv'" "sv_response_cache sv' = sv_response_cache sv"
  using assms(2,3) reload_config [OF assms(1,2), of now ops sv']
  by (auto simp: current_ops_def fresh_ops_def split: option.splits prod.splits if_splits)

lemma find_op_simps [simp]:
  "find_op [] nm = None" "find_op (o1 # ops) nm = (if op_name o1 = nm then Some o1 else find_op ops nm)"
  by (simp_all add: find_op_def)

lemma op_position_simps [simp]:
  "op_position nm [] = None"
  "op_position nm (o1 # ops) = (if op_name o1 = nm then Some 0 else map_option Suc (op_position nm ops))"
  by (simp_all add: op_position_def)

lemma position_None: "op_position nm ops = None \<longleftrightarrow> find_op ops nm = None"
  by (induction ops) auto

lemma find_append: "find_op ops (op_name o1) = None \<Longrightarrow> find_op (ops @ [o1]) = (find_op ops)(op_name o1 \<mapsto> o1)"
  by (induction ops) (auto simp: fun_eq_iff split: if_splits)

lemma find_update: "op_position (op_name o1) ops = Some pos \<Longrightarrow> find_op (ops[pos := o1]) = (find_op ops)(op_name o1 \<mapsto> o1)"
  by (induction ops arbitrary: pos) (auto simp: fun_eq_iff split: if_splits)

lemma find_remove: "find_op (filter (\<lambda>o1. op_name o1 \<noteq> nm) ops) = (find_op ops)(nm := None)"
  by (induction ops) (auto simp: fun_eq_iff)

lemma shorter_iff: "length (filter (\<lambda>o1. op_name o1 \<noteq> nm) ops) < length ops \<longleftrightarrow> find_op ops nm \<noteq> None"
  by (induction ops) (auto simp: less_Suc_eq_le)

lemma handle_config_spec:
  assumes "ops_codec_ok W (ht_codec H)" "\<And>body o1. ht_dec_op H body = Inr o1 \<Longrightarrow> o1 \<in> W" "fresh_ops W H sv"
    "handle_config H (config_ops H sv) rq sv = (r, sv')"
    "config_spec H rq (find_op (config_ops H sv)) = (st, b, m)"
  shows "answers (Responded r) (Some (st, b))" "find_op (config_ops H sv') = m" "fresh_ops W H sv'"
    "sv_response_cache sv' = sv_response_cache sv"
proof -
  have W: "set (config_ops H sv) \<subseteq> W" and ent: "sv_entity_filter sv = None" using assms(3) by (simp_all add: fresh_ops_def)
  obtain sv1 where a: "all_ops H sv = (config_ops H sv, sv1)" "config_ops H sv1 = config_ops H sv" "sv_ops_cache sv1 = sv_ops_cache sv"
      "sv_entity_filter sv1 = sv_entity_filter sv" "sv_response_cache sv1 = sv_response_cache sv"
    using all_ops_config [OF assms(1) W] by (metis surj_pair)
  have f1: "fresh_ops W H sv1" using a assms(3) by (cases "sv_ops_cache sv") (auto simp: fresh_ops_def)
  have stored: "config_ops H (store_ops H ops sv1) = ops \<and> fresh_ops W H (store_ops H ops sv1) \<and>
      sv_response_cache (store_ops H ops sv1) = sv_response_cache sv" if "set ops \<subseteq> W" for ops
    using store_config [OF assms(1) that, of sv1] a ent that by (simp add: fresh_ops_def)
  note st = a f1 assms(3)
  have "answers (Responded r) (Some (st, b)) \<and> find_op (config_ops H sv') = m \<and> fresh_ops W H sv' \<and>
    sv_response_cache sv' = sv_response_cache sv"
  proof (cases "rq_method rq")
    case GET
    with assms(4,5) st show ?thesis
      by (auto simp: handle_config_def config_get_def config_spec_def split: option.splits)
  next
    case POST
    show ?thesis
    proof (cases "ht_dec_op H (rq_body rq)")
      case (Inl e)
      with POST assms(4,5) st show ?thesis by (auto simp: handle_config_def config_post_def config_spec_def invalid_format_def)
    next
      case (Inr o1)
      with assms(2) W have "set (config_ops H sv @ [o1]) \<subseteq> W" by auto
      from stored [OF this] POST Inr assms(4,5) st show ?thesis
        by (auto simp: handle_config_def config_post_def config_spec_def position_None find_append split: if_splits)
    qed
  next
    case PUT
    show ?thesis
    proof (cases "ht_dec_op H (rq_body rq)")
      case (Inl e)
      with PUT assms(4,5) st show ?thesis by (auto simp: handle_config_def config_put_def config_spec_def invalid_format_def)
    next
      case (Inr o1)
      with assms(2) W have "set ((config_ops H sv)[pos := o1]) \<subseteq> W" for pos using set_update_subset_insert [of "config_ops H sv" pos o1] by auto
      note put = stored [OF this]
      show ?thesis
      proof (cases "op_position (op_name o1) (config_ops H sv)")
        case None
        with PUT Inr assms(4,5) st show ?thesis by (auto simp: handle_config_def config_put_def config_spec_def position_None)
      next
        case (Some pos)
        then have "find_op (config_ops H sv) (op_name o1) \<noteq> None" using position_None [of "op_name o1" "config_ops H sv"] by simp
        with PUT Inr Some assms(4,5) st put [of pos] find_update [OF Some] show ?thesis
          by (auto simp: handle_config_def config_put_def config_spec_def)
      qed
    qed
  next
    case DELETE
    show ?thesis
    proof (cases "hget (rq_params rq) ''name''")
      case None
      with DELETE assms(4,5) st show ?thesis by (auto simp: handle_config_def config_delete_def config_spec_def)
    next
      case (Some nm)
      have "set (filter (\<lambda>o1. op_name o1 \<noteq> nm) (config_ops H sv)) \<subseteq> W" using W by auto
      from stored [OF this] DELETE Some assms(4,5) st show ?thesis
        by (auto simp: handle_config_def config_delete_def config_spec_def Let_def shorter_iff find_remove split: if_splits)
    qed
  next
    case OTHER
    with assms(4,5) st show ?thesis by (auto simp: handle_config_def config_spec_def)
  qed
  then show "answers (Responded r) (Some (st, b))" "find_op (config_ops H sv') = m" "fresh_ops W H sv'"
    "sv_response_cache sv' = sv_response_cache sv" by auto
qed

lemma same_files [simp]:
  "config_ops H (sv\<lparr>sv_manager := mg\<rparr>) = config_ops H sv" "config_ops H (sv\<lparr>sv_response_cache := rc\<rparr>) = config_ops H sv"
  "config_ops H (sv\<lparr>sv_ops_cache := c\<rparr>) = config_ops H sv"
  by (simp_all add: config_ops_def)

lemma still_fresh [simp]:
  "fresh_ops W H (sv\<lparr>sv_manager := mg\<rparr>) = fresh_ops W H sv" "fresh_ops W H (sv\<lparr>sv_response_cache := rc\<rparr>) = fresh_ops W H sv"
  by (cases "sv_ops_cache sv"; auto simp: fresh_ops_def)+

lemma handle_read_files:
  "handle_read H op_nm q rq auth sv = (r, sv') \<Longrightarrow> config_ops H sv' = config_ops H sv \<and> fresh_ops W H sv' = fresh_ops W H sv"
  by (auto simp: handle_read_def Let_def split: prod.splits option.splits sum.splits)

lemma handle_batch_files:
  assumes "ops_codec_ok W (ht_codec H)" "fresh_ops W H sv" "handle_get_batch H op_nm b rq sv = (r, sv')"
  shows "config_ops H sv' = config_ops H sv \<and> fresh_ops W H sv'"
proof -
  have b: "config_ops H s' = config_ops H s \<and> fresh_ops W H s'"
    if "fresh_ops W H s" "handle_batch H b ps now rdy nm s = (r, s')" for s s' ps now rdy nm
  proof -
    obtain ops s1 where r: "reload_ops H now s = (ops, s1)" by fastforce
    from reload_config [OF assms(1) that(1) r] that(2) r show ?thesis
      by (auto simp: handle_batch_def split: prod.splits option.splits sum.splits if_splits)
  qed
  show ?thesis
  proof (cases "cache_get (rq_now rq) op_nm (rq_params rq) (sv_response_cache sv)")
    case (Pair v rc)
    show ?thesis
    proof (cases v)
      case None
      have "fresh_ops W H (sv\<lparr>sv_response_cache := rc\<rparr>)" using assms(2) by simp
      from b [OF this] None Pair assms(3) show ?thesis by (simp add: handle_get_batch_def)
    qed (use assms(2,3) Pair in \<open>auto simp: handle_get_batch_def\<close>)
  qed
qed

lemma handle_operation_files:
  assumes "ops_codec_ok W (ht_codec H)" "fresh_ops W H sv" "handle_operation H op_nm o1 rq sv = (r, sv')"
  shows "config_ops H sv' = config_ops H sv \<and> fresh_ops W H sv'"
proof -
  obtain res mg where i: "(case o1 of Read q \<Rightarrow> read_identity H q rq (sv_manager sv) | _ \<Rightarrow> (Inr None, sv_manager sv)) = (res, mg)"
    by fastforce
  have b: "fresh_ops W H (sv\<lparr>sv_manager := mg\<rparr>)" using assms(2) by simp
  show ?thesis
  proof (cases res)
    case (Inl x)
    with assms(2,3) i show ?thesis by (auto simp: handle_operation_def)
  next
    case (Inr auth)
    with assms(2,3) i show ?thesis
      using handle_batch_files [OF assms(1) b]
      by (cases "rq_method rq"; cases o1)
        (auto simp: handle_operation_def Let_def split: prod.splits dest: handle_read_files)
  qed
qed

lemma handle_request_spec:
  assumes "ops_codec_ok W (ht_codec H)" "\<And>body o1. ht_dec_op H body = Inr o1 \<Longrightarrow> o1 \<in> W" "fresh_ops W H sv"
    "handle_request H rq sv = (r, sv')"
    "request_spec H rq (find_op (config_ops H sv)) = (a, m)"
  shows "answers r a" "find_op (config_ops H sv') = m" "fresh_ops W H sv'"
proof -
  obtain ops sv1 where c: "current_ops H (rq_now rq) sv = (ops, sv1)" by fastforce
  note c1 = current_config [OF assms(1,3) c]
  have "answers r a \<and> find_op (config_ops H sv') = m \<and> fresh_ops W H sv'"
  proof (cases "rq_path rq = ''/_config''")
    case True
    obtain r1 where h: "handle_config H (config_ops H sv1) rq sv1 = (r1, sv')" "r = Responded r1"
      using assms(4) c c1 True by (auto simp: handle_request_def Let_def split: prod.splits)
    obtain st b where "config_spec H rq (find_op (config_ops H sv1)) = (st, b, m)" "a = Some (st, b)"
      using assms(5) True c1 by (auto simp: request_spec_def split: prod.splits)
    with handle_config_spec [OF assms(1,2) c1(3) h(1)] h(2) show ?thesis by simp
  next
    case False
    show ?thesis
    proof (cases "rq_path rq \<in> {''/_entities'', ''/_config/reload''}")
      case True
      have "config_ops H (snd (config_reload H sv1)) = config_ops H sv1 \<and> fresh_ops W H (snd (config_reload H sv1))"
        using c1(3) refresh_config [OF assms(1), of "sv1\<lparr>sv_ops_cache := None, sv_response_cache := cache_clear (sv_response_cache sv1)\<rparr>"]
        by (simp add: config_reload_def fresh_ops_def)
      with True False assms(4,5) c c1 show ?thesis
        by (auto simp: handle_request_def request_spec_def Let_def split: prod.splits if_splits)
    next
      case op: False
      show ?thesis
      proof (cases "find_op (config_ops H sv) (trim_slashes (rq_path rq))")
        case None
        with False op assms(4,5) c c1 show ?thesis by (auto simp: handle_request_def request_spec_def Let_def)
      next
        case (Some o1)
        with False op assms(4) c c1 have "handle_operation H (trim_slashes (rq_path rq)) o1 rq sv1 = (r, sv')"
          by (auto simp: handle_request_def Let_def)
        from handle_operation_files [OF assms(1) c1(3) this] Some False op assms(5) c1 show ?thesis
          by (auto simp: request_spec_def)
      qed
    qed
  qed
  then show "answers r a" "find_op (config_ops H sv') = m" "fresh_ops W H sv'" by auto
qed


text \<open>A server without files, whose operations are two empty batches.\<close>

definition named_batch :: "string \<Rightarrow> saved_operation" where
  "named_batch nm = Batch \<lparr>sb_name = nm, sb_operations = [], sb_computed_fields = [], sb_response_mode = None\<rparr>"

definition small_ops_codec :: ops_codec where
  "small_ops_codec = \<lparr>enc_ops = map (\<lambda>o1. if op_name o1 = ''a'' then CHR ''a'' else CHR ''b''),
     dec_ops = (\<lambda>s. Some (map (\<lambda>c. named_batch [c]) s)), dec_queries = (\<lambda>_. None)\<rparr>"

definition small_http :: "(u128, postings) hmap http" where
  "small_http = \<lparr>ht_env = small_env, ht_lazy = None, ht_lib = small_server_lib, ht_batch_text = (\<lambda>_. []), ht_auth = small_lib,
     ht_fs = all_dirs, ht_entities = [], ht_codec = small_ops_codec,
     ht_dec_op = (\<lambda>b. if b = ''a'' \<or> b = ''b'' then Inr (named_batch b) else Inl ''bad''), ht_op_json = JStr \<circ> op_name,
     ht_dec_payload = (\<lambda>_. None), ht_vars = (\<lambda>_. None)\<rparr>"

definition small_server :: "(u128, postings) hmap server" where
  "small_server = \<lparr>sv_manager = key_manager, sv_ops_cache = None, sv_response_cache = small_cache,
     sv_ops_files = \<lparr>of_ops = None, of_root_ops = None, of_queries = None\<rparr>, sv_entity_filter = None\<rparr>"

definition small_request :: "http_method \<Rightarrow> string \<Rightarrow> params \<Rightarrow> bytes \<Rightarrow> request" where
  "small_request m p ps b = \<lparr>rq_now = 0, rq_done = 0, rq_method = m, rq_path = p, rq_params = ps, rq_headers = (\<lambda>_. None), rq_body = b\<rparr>"

lemma ascii_utf8: "list_all (\<lambda>c. bval c < 128) v \<Longrightarrow> utf8_valid v"
  by (induction v) (simp_all add: utf8_valid.simps utf8_head_def)

lemma small_codec_ok: "ops_codec_ok {named_batch ''a'', named_batch ''b''} small_ops_codec"
proof -
  have nm: "op_name (named_batch n) = n" for n by (simp add: named_batch_def)
  have "from_utf8 (enc_ops small_ops_codec ops) = Some (enc_ops small_ops_codec ops)" for ops
  proof -
    have "utf8_valid (enc_ops small_ops_codec ops)"
      by (rule ascii_utf8) (auto simp: small_ops_codec_def list_all_iff bval_def)
    then show ?thesis by (simp add: from_utf8_def)
  qed
  moreover have "set ops \<subseteq> {named_batch ''a'', named_batch ''b''} \<Longrightarrow> dec_ops small_ops_codec (enc_ops small_ops_codec ops) = Some ops" for ops
    by (induction ops) (auto simp: small_ops_codec_def nm)
  ultimately show ?thesis by (auto simp: ops_codec_ok_def read_ops_def)
qed

definition some_requests :: "request list" where
  "some_requests = [small_request POST ''/_config'' [] ''a'', small_request GET ''/_config'' [(''name'', ''a'')] [],
     small_request DELETE ''/_config'' [(''name'', ''a'')] [], small_request GET ''/a'' [] []]"


section \<open>Protected reads\<close>

text \<open>A read that fails does so with status 400 or 500, or crashes.\<close>

definition failed_read :: "read_failure + 'a \<Rightarrow> bool" where
  "failed_read r \<longleftrightarrow> (\<forall>st v. r = Inl (Refused st v) \<longrightarrow> st \<in> {400, 500})"

lemma failed_simps [simp]:
  "failed_read (Inr x)" "failed_read (Inl Crashed)" "failed_read (Inl (Refused st v)) \<longleftrightarrow> st \<in> {400, 500}"
  by (auto simp: failed_read_def)

lemma failed_rbind: "failed_read r \<Longrightarrow> (\<And>x. r = Inr x \<Longrightarrow> failed_read (f x)) \<Longrightarrow> failed_read (rbind r f)"
  by (cases r) (auto simp: failed_read_def)

lemma failed_page [intro]: "failed_read (map_err (read_failed S) r)"
  by (cases r) (auto simp: map_err_def read_failed_def)

lemma failed_shape [intro]: "failed_read (bad_shape S r)"
  by (cases r) (auto simp: bad_shape_def map_err_def)

lemma failed_materialize [intro]: "failed_read (materialize_query_rows E lazy q headers r mg)"
  by (auto simp: materialize_query_rows_def split: list.split option.split sum.split)

lemma failed_more:
  assumes "\<And>o1 m. failed_read (page o1 m)"
  shows "failed_read (more_rows page n next_offset rows mg)"
  using assms
proof (induction page n next_offset rows mg rule: more_rows.induct)
  case (1 page n next_offset rows mg)
  show ?case
  proof (cases "page next_offset mg")
    case (Inl e)
    with 1(2) [of next_offset mg] show ?thesis by (subst more_rows.simps) simp
  next
    case (Inr x)
    with 1 show ?thesis by (subst more_rows.simps) (cases x, auto simp: too_large_def)
  qed
qed

lemma failed_source: "(\<And>o1 m. failed_read (page o1 m)) \<Longrightarrow> failed_read (source_rows page n eo rows mg)"
  by (auto simp: source_rows_def too_large_def failed_more)

lemma failed_response [intro]: "failed_read (read_response S g cs page limit offset r rows all_rows)"
  unfolding read_response_def Let_def
  by (auto intro!: failed_rbind simp: pagination_json_def split: option.splits)

lemma failed_execute: "failed_read (execute_read_operation S E lazy q ps auth mg)"
  unfolding execute_read_operation_def Let_def
  by (auto intro!: failed_rbind failed_source)

lemma failed_split: "failed_read (execute_split_enrichment_read S E lazy q p ps auth mg)"
  unfolding execute_split_enrichment_read_def Let_def
  by (auto intro!: failed_rbind failed_execute split: option.splits)

lemma failed_saved: "failed_read (execute_saved_read H q ps auth mg)"
  unfolding execute_saved_read_def
  by (auto intro: failed_execute failed_split split: option.splits saved_execution_profile.splits)

lemma current_cache [simp]:
  "current_ops H now (sv\<lparr>sv_response_cache := rc\<rparr>) =
    (fst (current_ops H now sv), (snd (current_ops H now sv))\<lparr>sv_response_cache := rc\<rparr>)"
  "sv_response_cache (snd (current_ops H now sv)) = sv_response_cache sv"
  by (auto simp: current_ops_def reload_ops_def split: option.splits prod.splits)

lemma not_cached:
  "handle_read H op_nm q rq (Some ctx) sv = (case execute_saved_read H q (rq_params rq) (Some ctx) (sv_manager sv) of
     Inl e \<Rightarrow> (failed_outcome e, sv) | Inr (v, mg) \<Rightarrow> (Responded (200, v), sv\<lparr>sv_manager := mg\<rparr>))"
  by (simp add: handle_read_def split: sum.split prod.split)

lemma protected_request:
  assumes "find_op (fst (current_ops H (rq_now rq) sv)) (trim_slashes (rq_path rq)) = Some (Read q)"
    "rq_path rq \<notin> {''/_entities'', ''/_config'', ''/_config/reload''}"
  shows "handle_request H rq sv = handle_operation H (trim_slashes (rq_path rq)) (Read q) rq (snd (current_ops H (rq_now rq) sv))"
  using assms by (auto simp: handle_request_def Let_def split: prod.split)

lemma protected_operation:
  assumes "sq_auth_config q = Some c" "sa_enabled c" "handle_operation H op_nm (Read q) rq sv = (r, sv')"
  shows "sv_response_cache sv' = sv_response_cache sv"
    "fst (handle_operation H op_nm (Read q) rq (sv\<lparr>sv_response_cache := rc\<rparr>)) = r"
    "billable r \<Longrightarrow> \<exists>token ctx mg v mg'. extract_credential_from_headers (rq_headers rq) = Some token \<and>
       resolve_token (ht_env H) (ht_auth H) (ht_fs H) (rq_now rq) (sq_entity q) token (Some c) (sv_manager sv) = (Sliced (Some ctx), mg) \<and>
       execute_saved_read H q (rq_params rq) (Some ctx) mg = Inr (v, mg') \<and> r = Responded (200, v)"
proof -
  obtain res mg where i: "read_identity H q rq (sv_manager sv) = (res, mg)" by fastforce
  have "sv_response_cache sv' = sv_response_cache sv \<and> fst (handle_operation H op_nm (Read q) rq (sv\<lparr>sv_response_cache := rc\<rparr>)) = r \<and>
    (billable r \<longrightarrow> (\<exists>token ctx mg v mg'. extract_credential_from_headers (rq_headers rq) = Some token \<and>
       resolve_token (ht_env H) (ht_auth H) (ht_fs H) (rq_now rq) (sq_entity q) token (Some c) (sv_manager sv) = (Sliced (Some ctx), mg) \<and>
       execute_saved_read H q (rq_params rq) (Some ctx) mg = Inr (v, mg') \<and> r = Responded (200, v)))"
  proof (cases res)
    case (Inl x)
    then have "\<not> billable x" using i assms(1,2)
      by (auto simp: read_identity_def billable_def unauthorized_def split: option.splits prod.splits sliced.splits if_splits)
    with Inl i assms(3) show ?thesis by (auto simp: handle_operation_def)
  next
    case (Inr auth)
    then obtain token ctx where a: "auth = Some ctx" "extract_credential_from_headers (rq_headers rq) = Some token"
        "resolve_token (ht_env H) (ht_auth H) (ht_fs H) (rq_now rq) (sq_entity q) token (Some c) (sv_manager sv) = (Sliced (Some ctx), mg)"
      using i assms(1,2) by (auto simp: read_identity_def split: option.splits prod.splits sliced.splits if_splits)
    show ?thesis
    proof (cases "rq_method rq = GET")
      case True
      show ?thesis
      proof (cases "execute_saved_read H q (rq_params rq) (Some ctx) mg")
        case (Inl e)
        then have "\<not> billable (failed_outcome e)"
          using failed_saved [of H q "rq_params rq" "Some ctx" mg] by (cases e) (auto simp: failed_outcome_def billable_def)
        with Inl Inr a i True assms(3) show ?thesis by (auto simp: handle_operation_def not_cached Let_def)
      next
        case (Inr y)
        with \<open>res = Inr auth\<close> a i True assms(3) show ?thesis by (cases y) (auto simp: handle_operation_def not_cached Let_def)
      qed
    next
      case False
      with Inr a i assms(3) show ?thesis
        by (cases "rq_method rq") (auto simp: handle_operation_def Let_def billable_def)
    qed
  qed
  then show "sv_response_cache sv' = sv_response_cache sv"
    "fst (handle_operation H op_nm (Read q) rq (sv\<lparr>sv_response_cache := rc\<rparr>)) = r"
    "billable r \<Longrightarrow> \<exists>token ctx mg v mg'. extract_credential_from_headers (rq_headers rq) = Some token \<and>
       resolve_token (ht_env H) (ht_auth H) (ht_fs H) (rq_now rq) (sq_entity q) token (Some c) (sv_manager sv) = (Sliced (Some ctx), mg) \<and>
       execute_saved_read H q (rq_params rq) (Some ctx) mg = Inr (v, mg') \<and> r = Responded (200, v)"
    by blast+
qed

text \<open>C10: A read whose operation requires an identity is never answered from the response cache and never stored
  there: its answer is the same whatever the cache holds. And a successful answer is the result of the read
  run as a user that the credential of the request was resolved to.\<close>

theorem enabled_auth_is_enforced:
  assumes "find_op (fst (current_ops H (rq_now rq) sv)) (trim_slashes (rq_path rq)) = Some (Read q)"
    "rq_path rq \<notin> {''/_entities'', ''/_config'', ''/_config/reload''}"
    "sq_auth_config q = Some c" "sa_enabled c" "handle_request H rq sv = (r, sv')"
  shows "sv_response_cache sv' = sv_response_cache sv \<and> fst (handle_request H rq (sv\<lparr>sv_response_cache := rc\<rparr>)) = r \<and>
    (billable r \<longrightarrow> (\<exists>token ctx mg v mg'. extract_credential_from_headers (rq_headers rq) = Some token \<and>
       resolve_token (ht_env H) (ht_auth H) (ht_fs H) (rq_now rq) (sq_entity q) token (Some c)
         (sv_manager (snd (current_ops H (rq_now rq) sv))) = (Sliced (Some ctx), mg) \<and>
       execute_saved_read H q (rq_params rq) (Some ctx) mg = Inr (v, mg') \<and> r = Responded (200, v)))"
proof -
  have o1: "handle_operation H (trim_slashes (rq_path rq)) (Read q) rq (snd (current_ops H (rq_now rq) sv)) = (r, sv')"
    using protected_request [OF assms(1,2)] assms(5) by simp
  have o2: "handle_request H rq (sv\<lparr>sv_response_cache := rc\<rparr>) =
      handle_operation H (trim_slashes (rq_path rq)) (Read q) rq ((snd (current_ops H (rq_now rq) sv))\<lparr>sv_response_cache := rc\<rparr>)"
    using protected_request [of H rq "sv\<lparr>sv_response_cache := rc\<rparr>" q] assms(1,2) by simp
  show ?thesis
    using protected_operation [OF assms(3,4) o1] o2 by simp
qed

text \<open>A protected read over the table of keys, requested with the key of the user \<open>x\<close>.\<close>

definition protected_query :: saved_query where
  "protected_query = SavedQuery ''q'' ''e'' ''keys'' None [] [] None ''And'' [] [] None None [] [] None (Some key_config) None"

definition protected_server :: "(u128, postings) hmap server" where
  "protected_server = small_server\<lparr>sv_ops_cache := Some (0, [Read protected_query])\<rparr>"

definition keyed_request :: request where
  "keyed_request = (small_request GET ''/q'' [] [])\<lparr>rq_headers := (\<lambda>n. if n = ''x-api-key'' then Some ''bk_live_abcdefgh'' else None)\<rparr>"

theorem enabled_auth_is_enforced_witness:
  "sv_response_cache (snd (handle_request small_http keyed_request protected_server)) = small_cache \<and>
   (\<exists>token ctx mg. extract_credential_from_headers (rq_headers keyed_request) = Some token \<and>
     resolve_token small_env small_lib all_dirs 0 ''e'' token (Some key_config) key_manager = (Sliced (Some ctx), mg) \<and> ac_user_id ctx = ''x'')"
proof -
  have ops: "current_ops small_http 0 protected_server = ([Read protected_query], protected_server)"
    by (simp add: current_ops_def protected_server_def)
  have f: "find_op (fst (current_ops small_http (rq_now keyed_request) protected_server)) (trim_slashes (rq_path keyed_request)) =
      Some (Read protected_query)"
    by (simp add: keyed_request_def small_request_def ops protected_query_def)
  have c: "rq_path keyed_request \<notin> {''/_entities'', ''/_config'', ''/_config/reload''}" "sq_auth_config protected_query = Some key_config"
    "sa_enabled key_config"
    by (simp_all add: keyed_request_def small_request_def protected_query_def key_config_def)
  obtain r sv' where h: "handle_request small_http keyed_request protected_server = (r, sv')" by fastforce
  have k: "extract_credential_from_headers (rq_headers keyed_request) = Some ''bk_live_abcdefgh''"
    by (simp add: keyed_request_def extract_credential_from_headers_def api_key_header_def header_str_def trim_graphic graphic_def bval_def)
  have "sv_response_cache sv' = small_cache"
    using enabled_auth_is_enforced [OF f c h] by (simp add: protected_server_def small_server_def)
  with h k key_login [of 0] show ?thesis by (auto simp: login_def)
qed

section \<open>What the handlers leave open\<close>

text \<open>A batch runs its reads without asking who makes the request, also those that require an identity.\<close>

lemma batch_ignores_identity:
  assumes "find_op (fst (current_ops H (rq_now rq) sv)) (trim_slashes (rq_path rq)) = Some (Batch b)"
    "rq_path rq \<notin> {''/_entities'', ''/_config'', ''/_config/reload''}"
  shows "handle_request H (rq\<lparr>rq_headers := h\<rparr>) sv = handle_request H rq sv"
  using assms by (cases "rq_method rq")
    (auto simp: handle_request_def handle_operation_def handle_get_batch_def Let_def split: prod.split option.split)

text \<open>A change of the saved operations leaves the responses of the operations before it in the response cache.\<close>

lemma config_keeps_responses:
  assumes "ops_codec_ok W (ht_codec H)" "\<And>body o1. ht_dec_op H body = Inr o1 \<Longrightarrow> o1 \<in> W" "fresh_ops W H sv"
    "handle_config H (config_ops H sv) rq sv = (r, sv')"
  shows "sv_response_cache sv' = sv_response_cache sv"
proof -
  obtain st b m where "config_spec H rq (find_op (config_ops H sv)) = (st, b, m)" by (metis surj_pair)
  from handle_config_spec(4) [OF assms this] show ?thesis .
qed

text \<open>A file of operations that cannot be read counts as empty: creating an operation then replaces the file.\<close>

lemma post_on_unreadable_file:
  assumes "of_ops (sv_ops_files sv) = Some c" "from_utf8 c = None" "ht_dec_op H body = Inr o1"
  shows "config_post H body sv = ((201, status_json ''created'' (op_name o1)), store_ops H [o1] sv)"
  using assms by (simp add: config_post_def all_ops_def load_ops_def load_operations_with_filter_def read_ops_def op_position_def)

end
