(* ===== verification/Grpc_Query.thy ===== *)
theory Grpc_Query
  imports Server_Http
begin

text \<open>
  The gRPC face of the saved operations, first part (\<^verbatim>\<open>src/server/grpc.rs\<close>): the parameters and limits of a
  query, its run on a table or as a join, and the split profile with its rows as texts. The messages are
  those of \<^verbatim>\<open>proto/bittice.proto\<close>; timings are left out. A handler that panics gives no status (\<open>Gone\<close>).
\<close>

datatype grpc_status = No_Such_Query string | Invalid_Argument string | Internal string | Unimplemented string | Gone

definition grpc_failed :: "server_lib \<Rightarrow> read_error \<Rightarrow> grpc_status" where
  "grpc_failed S e = (if e \<in> {ReadFailed Panic, JoinFailed (TableFailed Panic)} then Gone else Internal (sl_err_text S e))"

section \<open>Limits and pagination\<close>

text \<open>The parameters of a saved query are put in as for REST, but a missing one leaves the text as it is.\<close>

definition grpc_filter :: "params \<Rightarrow> saved_filter \<Rightarrow> filter_t" where
  "grpc_filter ps sf =
     \<lparr>f_field = sf_field sf, f_op = op_from_str (sf_op sf), f_value = param_or_raw ps (sf_value sf),
      f_value_to = map_option (param_or_raw ps) (sf_value_to sf), f_type = sf_field_type sf,
      f_options = map (param_or_raw ps) (sf_values sf)\<rparr>"

definition grpc_aggregation :: "params \<Rightarrow> json \<Rightarrow> json" where
  "grpc_aggregation ps a = fst (read_aggregation ps a)"

definition grpc_limit :: "params \<Rightarrow> saved_query \<Rightarrow> nat \<Rightarrow> nat" where
  "grpc_limit ps q limit_override =
     (let limit = min (hdefault 100 (case sq_limit_param q of
            Some param \<Rightarrow> (case Option.bind (hget ps (hdefault param (param_key param))) parse_usize of Some n \<Rightarrow> Some n | None \<Rightarrow> sq_limit q)
          | None \<Rightarrow> sq_limit q)) 100 in
      if 0 < limit_override then limit_override else limit)"

definition grpc_page :: "params \<Rightarrow> nat" where
  "grpc_page ps = max (hdefault 1 (Option.bind (hget ps ''page'') parse_usize)) 1"

definition grpc_offset :: "params \<Rightarrow> nat \<Rightarrow> nat \<Rightarrow> nat" where
  "grpc_offset ps limit offset_override =
     (if 0 < offset_override then offset_override else wrap64 ((grpc_page ps - 1) * limit))"

record pagination_metadata =
  pg_page :: nat
  pg_per_page :: nat
  pg_total_pages :: nat
  pg_total_items :: nat

definition u32_or_max :: "nat \<Rightarrow> nat" where
  "u32_or_max n = (if n < 2 ^ 32 then n else 2 ^ 32 - 1)"

definition sat64 :: "nat \<Rightarrow> nat" where
  "sat64 n = min n (2 ^ 64 - 1)"

definition pages_of :: "nat \<Rightarrow> nat \<Rightarrow> nat" where
  "pages_of total_items limit =
     (if total_items = 0 then 1 else if 0 < limit then sat64 (total_items + (limit - 1)) div limit else 1)"

definition saved_query_pagination_meta :: "saved_query \<Rightarrow> params \<Rightarrow> nat \<Rightarrow> nat \<Rightarrow> nat \<Rightarrow> nat \<Rightarrow> pagination_metadata option" where
  "saved_query_pagination_meta q ps limit_override offset_override total_found headers_len =
     (if total_found = 0 \<or> headers_len = 0 then None
      else let limit = grpc_limit ps q limit_override;
               page = (if 0 < offset_override then (if 0 < limit then sat64 (offset_override div limit + 1) else 1) else grpc_page ps) in
        Some \<lparr>pg_page = u32_or_max page, pg_per_page = u32_or_max limit,
              pg_total_pages = u32_or_max (pages_of total_found limit), pg_total_items = total_found\<rparr>)"

definition ad_hoc_search_pagination_meta :: "nat \<Rightarrow> nat \<Rightarrow> nat \<Rightarrow> nat \<Rightarrow> pagination_metadata option" where
  "ad_hoc_search_pagination_meta limit offset total_found headers_len =
     (if total_found = 0 \<or> headers_len = 0 then None
      else let limit = (if 0 < limit then limit else 100) in
        Some \<lparr>pg_page = u32_or_max (offset div limit + 1), pg_per_page = u32_or_max limit,
              pg_total_pages = u32_or_max (pages_of total_found limit), pg_total_items = total_found\<rparr>)"

section \<open>Running a query\<close>

text \<open>A reload that fails is ignored: it has left the new manifest and segments, or nothing new.\<close>

definition reload_ignoring :: "'c env \<Rightarrow> 'c table \<Rightarrow> 'c table" where
  "reload_ignoring E t =
     (case reload_if_needed E t of
        Inr t \<Rightarrow> t
      | Inl e \<Rightarrow> (case Option.bind (hget (t_files t) ''manifest.json'') (e_man_dec E) of
          None \<Rightarrow> t | Some m \<Rightarrow> load_segments E (t\<lparr>t_manifest := m\<rparr>)))"

definition grpc_fields :: "'c env \<Rightarrow> string list \<Rightarrow> 'c table \<Rightarrow> string list" where
  "grpc_fields E selected t =
     (if ''*'' \<in> set selected then
        (let all_cols = (if m_original_fields (t_manifest t) = [] then filter is_base_column (get_indexed_fields E t)
               else m_original_fields (t_manifest t)) in
         rev (remdups (rev (concat (map (\<lambda>f. if f = ''*'' then all_cols else [f]) selected)))))
      else selected)"

definition execute_query_result_internal :: "server_lib \<Rightarrow> 'c env \<Rightarrow> string option \<Rightarrow> saved_query \<Rightarrow> params \<Rightarrow> nat \<Rightarrow> nat \<Rightarrow>
    auth_context option \<Rightarrow> 'c manager \<Rightarrow> grpc_status + query_result \<times> 'c manager" where
  "execute_query_result_internal S E lazy q ps limit_override offset_override auth mg =
     (let filters = map (grpc_filter ps) (sq_filters q); aggregations = map (grpc_aggregation ps) (sq_aggregations q);
          filters_op = (if sq_filters_op q = ''Or'' then Or else And);
          ob = map (\<lambda>so. \<lparr>ob_field = so_field so, ob_direction = (if so_direction so = ''Desc'' then Desc else Asc)\<rparr>) (sq_order_by q);
          limit = grpc_limit ps q limit_override; offset = grpc_offset ps limit offset_override in
      if is_multi_table q then map_err (grpc_failed S \<circ> JoinFailed) (execute_join_query E lazy q ps None limit offset auth mg)
      else case get_table_for_query E lazy (sq_entity q) (sq_table q) mg of
        Inl e \<Rightarrow> Inl (if e = Panic then Gone else Internal ''Table not found'')
      | Inr (t, mg) \<Rightarrow>
          let t = reload_ignoring E t in
          map_err (grpc_failed S \<circ> ReadFailed)
            (rbind (table_search E (grpc_fields E (sq_selected_fields q) t) filters filters_op aggregations ob limit offset auth t) (\<lambda>(r, t).
              Inr (r, put_table (sq_entity q) (sq_table q) t mg))))"

section \<open>Split enrichment\<close>

definition format_grpc_number :: "f64 \<Rightarrow> string" where
  "format_grpc_number v = (if f64_fract v = Fin 0 \<and> is_finite v then show_int (as_i64 v) else show_f64 v)"

definition row_cell :: "string list \<Rightarrow> nat \<Rightarrow> string option" where
  "row_cell r i = (if i < length r then Some (r ! i) else None)"

text \<open>The first row of each key.\<close>

definition enrich_lookup :: "nat \<Rightarrow> string list list \<Rightarrow> (string, string list) hmap" where
  "enrich_lookup key_idx rows =
     fold (\<lambda>r m. case row_cell r key_idx of
         Some v \<Rightarrow> (let k = trim v in if k \<noteq> [] \<and> hget m k = None then hput k r m else m)
       | None \<Rightarrow> m) rows []"

definition split_headers :: "saved_split_execution_profile \<Rightarrow> string list \<Rightarrow> string list \<Rightarrow> string list" where
  "split_headers p base_headers enrich_headers =
     fold (\<lambda>a hs. if ad_target_field a \<notin> set hs \<and> ad_source_field a \<in> set enrich_headers then hs @ [ad_target_field a] else hs)
       (sp_additive_fields p)
       (fold (\<lambda>f hs. if f \<notin> set hs then hs @ [f] else hs) (sp_merge_fields p) base_headers)"

definition default_text :: "(f64 \<Rightarrow> string) \<Rightarrow> json \<Rightarrow> string" where
  "default_text ryu v = (case v of JStr s \<Rightarrow> s | JInt i \<Rightarrow> json_text ryu v | JFloat f \<Rightarrow> json_text ryu v | JBool b \<Rightarrow> json_text ryu v | _ \<Rightarrow> [])"

definition merged_cell :: "saved_split_execution_profile \<Rightarrow> nat \<Rightarrow> string list \<Rightarrow> string list option \<Rightarrow> nat \<Rightarrow> string \<Rightarrow> string \<Rightarrow> string" where
  "merged_cell p base_len enrich_headers enr i header v =
     (case enr of
        None \<Rightarrow> v
      | Some r \<Rightarrow>
          (case Option.bind (if header \<in> set (sp_merge_fields p) then header_index header enrich_headers else None) (row_cell r) of
             None \<Rightarrow> v
           | Some w \<Rightarrow> if i < base_len \<and> w = [] then v else w))"

definition add_cell :: "string list \<Rightarrow> string list \<Rightarrow> string list \<Rightarrow> string list \<Rightarrow> string list \<Rightarrow> saved_split_additive_field \<Rightarrow>
    string list \<Rightarrow> string list" where
  "add_cell base_headers enrich_headers new_headers base_row enr a r =
     (case header_index (ad_source_field a) enrich_headers of
        None \<Rightarrow> r
      | Some ei \<Rightarrow>
          let base_val = hdefault (Fin 0) (Option.bind (Option.bind (header_index (ad_target_field a) base_headers) (row_cell base_row)) parse_f64);
              enrich_val = hdefault (Fin 0) (Option.bind (row_cell enr ei) parse_f64) in
          case header_index (ad_target_field a) new_headers of
            Some pos \<Rightarrow> r[pos := format_grpc_number (f64_add base_val enrich_val)]
          | None \<Rightarrow> r)"

definition resize :: "nat \<Rightarrow> string list \<Rightarrow> string list" where
  "resize n r = take n r @ replicate (n - length r) []"

definition split_row :: "(f64 \<Rightarrow> string) \<Rightarrow> saved_split_execution_profile \<Rightarrow> nat \<Rightarrow> string list \<Rightarrow> string list \<Rightarrow> (string, string list) hmap \<Rightarrow>
    string list \<Rightarrow> string list" where
  "split_row ryu p key_idx base_headers enrich_headers lookup base_row =
     (let new_headers = split_headers p base_headers enrich_headers;
          enr = hget lookup (hdefault [] (map_option trim (row_cell base_row key_idx)));
          r = map (\<lambda>(i, header, v). merged_cell p (length base_headers) enrich_headers enr i header v)
                (zip [0..<length new_headers] (zip new_headers (resize (length new_headers) base_row)));
          r = map (\<lambda>(header, v). if v = [] then hdefault v (map_option (default_text ryu) (hget (sp_defaults p) header)) else v) (zip new_headers r) in
      case enr of
        None \<Rightarrow> r
      | Some e \<Rightarrow> fold (add_cell base_headers enrich_headers new_headers base_row e) (sp_additive_fields p) r)"

definition split_debug :: "string option \<Rightarrow> string" where
  "split_debug label = ''split_mode: profile('' @ hdefault ''split_enrichment'' label @ '')''"

text \<open>The rows with their debug text, where the profile has run to its end.\<close>

definition execute_split_enrichment_result :: "server_lib \<Rightarrow> 'c env \<Rightarrow> string option \<Rightarrow> saved_query \<Rightarrow> saved_split_execution_profile \<Rightarrow> params \<Rightarrow>
    nat \<Rightarrow> nat \<Rightarrow> auth_context option \<Rightarrow> 'c manager \<Rightarrow> grpc_status + (query_result \<times> string option) \<times> 'c manager" where
  "execute_split_enrichment_result S E lazy q p ps limit_override offset_override auth mg =
     (let base_query = split_base_query (sp_base_join_aliases p) (sp_base_select_aliases p) q in
      rbind (execute_query_result_internal S E lazy base_query ps limit_override offset_override auth mg) (\<lambda>(base, mg).
      let unchanged = Inr ((base, None), mg) in
      if q_rows base = [] then unchanged
      else case header_index (sp_key_field p) (q_headers base) of
        None \<Rightarrow> unchanged
      | Some key_idx \<Rightarrow>
          let key_values = filter (\<lambda>v. v \<noteq> []) (map trim (List.map_filter (\<lambda>r. row_cell r key_idx) (q_rows base))) in
          if key_values = [] then unchanged
          else rbind (execute_query_result_internal S E lazy (without_profile (sp_enrichment_query p))
                 (hput (sp_ids_param p) (join_with '','' key_values) ps) 0 0 auth mg) (\<lambda>(enrichment, mg).
            case header_index (hdefault (sp_key_field p) (sp_enrichment_key_field p)) (q_headers enrichment) of
              None \<Rightarrow> Inr ((base, None), mg)
            | Some enrich_key_idx \<Rightarrow>
                let lookup = enrich_lookup enrich_key_idx (q_rows enrichment);
                    new_headers = split_headers p (q_headers base) (q_headers enrichment) in
                Inr ((\<lparr>q_headers = new_headers,
                       q_rows = map (split_row (sl_ryu S) p key_idx (q_headers base) (q_headers enrichment) lookup) (q_rows base),
                       q_row_ids = None, q_total_found = q_total_found base, q_aggregations = None\<rparr>,
                      Some (split_debug (sp_debug_label p))), mg))))"

end
