(* ===== verification/Grpc_Service.thy ===== *)
theory Grpc_Service
  imports Grpc_Query
begin

text \<open>
  The gRPC service (\<^verbatim>\<open>src/server/grpc.rs\<close>): searches, saved queries as one response or as a stream, batches and
  the subscription to row events. A handler returns its response or a status, the number of operations it
  puts on the bill, and the server. A stream is the list of its messages; its receiver reads them all. The
  expressions of a batch are evaluated by the \<^verbatim>\<open>evalexpr\<close> crate, the parameter \<open>eval\<close>. A debug text \<open>None\<close> is
  that of the engine.
\<close>

section \<open>Messages\<close>

record proto_filter =
  pf_field :: string
  pf_op :: int
  pf_value :: string
  pf_value_options :: "string list"
  pf_field_type :: int

record proto_order_by =
  po_field :: string
  po_direction :: int

record search_request =
  rs_entity :: string
  rs_table :: string
  rs_selected_fields :: "string list"
  rs_filters :: "proto_filter list"
  rs_filters_op :: int
  rs_order_by :: "proto_order_by list"
  rs_limit :: nat
  rs_offset :: nat

record saved_query_request =
  rs_query_name :: string
  rs_params :: params
  rs_limit_override :: nat
  rs_offset_override :: nat

type_synonym proto_rows = "string list list"

record unary_response =
  ur_headers :: "string list"
  ur_rows :: proto_rows
  ur_total_found :: nat
  ur_debug_info :: "string option"
  ur_aggregations :: "(string list \<times> proto_rows \<times> f64) list"
  ur_pagination :: "pagination_metadata option"

record search_metadata =
  md_headers :: "string list"
  md_total_found :: nat
  md_debug_info :: "string option"
  md_pagination :: "pagination_metadata option"

datatype search_content = Search_Metadata search_metadata | Row_Batch proto_rows

type_synonym stream = "(grpc_status + search_content) list"

section \<open>Enumerations\<close>

text \<open>A number without a name counts as the first of the enumeration.\<close>

definition proto_comparison_op_to_str :: "int \<Rightarrow> string" where
  "proto_comparison_op_to_str n =
     (if n = 1 then ''Ne'' else if n = 2 then ''Gt'' else if n = 3 then ''Gte'' else if n = 4 then ''Lt''
      else if n = 5 then ''Lte'' else if n = 6 then ''In'' else ''Eq'')"

definition proto_logical_op_to_str :: "int \<Rightarrow> string" where
  "proto_logical_op_to_str n = (if n = 1 then ''Or'' else ''And'')"

definition proto_sort_direction_to_str :: "int \<Rightarrow> string" where
  "proto_sort_direction_to_str n = (if n = 1 then ''Desc'' else ''Asc'')"

definition proto_field_type_to_core :: "int \<Rightarrow> field_type option" where
  "proto_field_type_to_core n =
     (if n = 0 then Some FString else if n = 1 then Some FInt else if n = 2 then Some FFloat
      else if n = 3 then Some FDate else None)"

section \<open>Operations and identity\<close>

definition get_operations :: "'c http \<Rightarrow> nat \<Rightarrow> 'c server \<Rightarrow> saved_operation list \<times> 'c server" where
  "get_operations H now sv =
     (case sv_ops_cache sv of
        Some (ts, ops) \<Rightarrow> if (now - ts) div nanos < 60 then (ops, sv) else reload_ops H now sv
      | None \<Rightarrow> reload_ops H now sv)"

definition extract_auth_context :: "'c http \<Rightarrow> nat \<Rightarrow> headers \<Rightarrow> saved_auth_config option \<Rightarrow> string option \<Rightarrow> 'c server \<Rightarrow>
    auth_context option sliced \<times> 'c server" where
  "extract_auth_context H now metadata config query_entity sv =
     (case extract_credential_from_metadata metadata of
        None \<Rightarrow> (Sliced None, sv)
      | Some token \<Rightarrow>
          let entity = (case query_entity of Some e \<Rightarrow> e | None \<Rightarrow> hdefault ''default'' (sv_entity_filter sv)) in
          (case resolve_token (ht_env H) (ht_auth H) (ht_fs H) now entity token config (sv_manager sv) of
             (r, mg) \<Rightarrow> (r, sv\<lparr>sv_manager := mg\<rparr>)))"

fun query_uses_rest_only_aggregations :: "server_lib \<Rightarrow> json list \<Rightarrow> string + bool" where
  "query_uses_rest_only_aggregations S [] = Inr False"
| "query_uses_rest_only_aggregations S (a # as) =
     (case sl_from_aggregation S a of
        Inr (Some c) \<Rightarrow> Inr True
      | Inr None \<Rightarrow> query_uses_rest_only_aggregations S as
      | Inl e \<Rightarrow> Inl (''Invalid Collect aggregation: '' @ e))"

section \<open>Responses\<close>

definition BATCH_SIZE :: nat where "BATCH_SIZE = 1000"

definition proto_aggregation :: "aggregation_result \<Rightarrow> string list \<times> proto_rows \<times> f64" where
  "proto_aggregation a = (ar_headers a, ar_rows a, hdefault (Fin 0) (ar_summary a))"

definition unary_of :: "query_result \<Rightarrow> string option \<Rightarrow> (string list \<times> proto_rows \<times> f64) list \<Rightarrow> pagination_metadata option \<Rightarrow> unary_response" where
  "unary_of r debug aggs pagination =
     \<lparr>ur_headers = q_headers r, ur_rows = q_rows r, ur_total_found = q_total_found r, ur_debug_info = debug,
      ur_aggregations = aggs, ur_pagination = pagination\<rparr>"

definition stream_of :: "query_result \<Rightarrow> string option \<Rightarrow> pagination_metadata option \<Rightarrow> stream" where
  "stream_of r debug pagination =
     Inr (Search_Metadata \<lparr>md_headers = q_headers r, md_total_found = q_total_found r, md_debug_info = debug, md_pagination = pagination\<rparr>) #
     map (Inr \<circ> Row_Batch) (chunks BATCH_SIZE (q_rows r))"

definition execute_query_unary_internal :: "server_lib \<Rightarrow> 'c env \<Rightarrow> string option \<Rightarrow> saved_query \<Rightarrow> params \<Rightarrow> nat \<Rightarrow> nat \<Rightarrow>
    auth_context option \<Rightarrow> 'c manager \<Rightarrow> grpc_status + unary_response \<times> 'c manager" where
  "execute_query_unary_internal S E lazy q ps limit_override offset_override auth mg =
     rbind (execute_query_result_internal S E lazy q ps limit_override offset_override auth mg) (\<lambda>(r, mg).
       Inr (unary_of r (Some []) (map proto_aggregation (hdefault [] (q_aggregations r)))
              (saved_query_pagination_meta q ps limit_override offset_override (q_total_found r) (length (q_headers r))), mg))"

section \<open>Batches\<close>

datatype eval_value = EFloat f64 | EInt int | EBool bool | EStr string | EOther

definition eval_input :: "(f64 \<Rightarrow> string) \<Rightarrow> json \<Rightarrow> eval_value" where
  "eval_input ryu v = (case v of
       JInt i \<Rightarrow> EFloat (hdefault (Fin 0) (as_f64 v)) | JFloat f \<Rightarrow> EFloat f
     | JStr s \<Rightarrow> EStr s | JBool b \<Rightarrow> EBool b | _ \<Rightarrow> EStr (json_text ryu v))"

definition eval_output :: "eval_value \<Rightarrow> json" where
  "eval_output v = (case v of EFloat f \<Rightarrow> json_f64 f | EInt i \<Rightarrow> JInt i | EBool b \<Rightarrow> JBool b | EStr s \<Rightarrow> JStr s | EOther \<Rightarrow> JNull)"

fun follow :: "json \<Rightarrow> string list \<Rightarrow> json" where
  "follow v [] = v"
| "follow v (part # parts) = (case json_get v part of Some w \<Rightarrow> follow w parts | None \<Rightarrow> JInt 0)"

definition resolve_batch_input_internal :: "jmap \<Rightarrow> string \<Rightarrow> string + json" where
  "resolve_batch_input_internal results source =
     (case split_pred (\<lambda>c. c = CHR ''.'') source of
        nm # part # parts \<Rightarrow> (case hget results nm of
            None \<Rightarrow> Inl (''Batch result '' @ quoted nm @ '' not found'')
          | Some v \<Rightarrow> Inr (follow v (part # parts)))
      | _ \<Rightarrow> Inl (''Invalid input source: '' @ source))"

definition result_json :: "query_result \<Rightarrow> json" where
  "result_json r =
     (let rows = map (\<lambda>row. JObj (fold (\<lambda>(h, v). hput h (JStr v)) (zip (q_headers r) row) [])) (q_rows r) in
      JObj ([(''headers'', JArr (map JStr (q_headers r))), (''data'', JArr rows), (''total_found'', JInt (int (q_total_found r)))] @
        (case hdefault [] (q_aggregations r) of [] \<Rightarrow> [] | a # _ \<Rightarrow> [(''summary'', json_f64 (hdefault (Fin 0) (ar_summary a)))])))"

type_synonym evaluator = "string \<Rightarrow> (string, eval_value) hmap \<Rightarrow> string + eval_value"

definition build_batch_computed_fields_internal :: "(f64 \<Rightarrow> string) \<Rightarrow> evaluator \<Rightarrow> jmap \<Rightarrow> saved_batch_computed_field list \<Rightarrow> grpc_status + jmap" where
  "build_batch_computed_fields_internal ryu eval results flds =
     fold_r (\<lambda>c computed.
       rbind (fold_r (\<lambda>(nm, source) ctx. rbind (map_err Internal (resolve_batch_input_internal results source)) (\<lambda>v.
           Inr (hput nm (eval_input ryu v) ctx))) (bc_inputs c) []) (\<lambda>ctx.
         case eval (bc_expression c) ctx of
           Inl e \<Rightarrow> Inl (Invalid_Argument (''Error evaluating expression '' @ quoted (bc_expression c) @ '': '' @ e))
         | Inr v \<Rightarrow> Inr (hput (bc_name c) (eval_output v) computed))) flds []"

text \<open>The reads of a batch, each with the identity its own configuration resolves; other operations are skipped.\<close>

definition grpc_batch_step :: "'c http \<Rightarrow> nat \<Rightarrow> headers \<Rightarrow> saved_operation list \<Rightarrow> params \<Rightarrow> string \<Rightarrow>
    (string, query_result) hmap \<times> 'c server \<Rightarrow> grpc_status + (string, query_result) hmap \<times> 'c server" where
  "grpc_batch_step H now metadata ops ps nm st =
     (case st of (results, sv) \<Rightarrow>
        (case find_op ops nm of
           Some (Read q) \<Rightarrow>
             (case extract_auth_context H now metadata (sq_auth_config q) (Some (sq_entity q)) sv of
                (Panicked, sv) \<Rightarrow> Inl Gone
              | (Sliced auth, sv) \<Rightarrow>
                  rbind (execute_query_result_internal (ht_lib H) (ht_env H) (ht_lazy H) q (batch_params nm ps) 0 0 auth (sv_manager sv)) (\<lambda>(r, mg).
                    Inr (hput nm r results, sv\<lparr>sv_manager := mg\<rparr>)))
         | _ \<Rightarrow> Inr st))"

definition value_text :: "(f64 \<Rightarrow> string) \<Rightarrow> json \<Rightarrow> string" where
  "value_text ryu v = (case v of JStr s \<Rightarrow> s | _ \<Rightarrow> json_text ryu v)"

definition batch_unary :: "(f64 \<Rightarrow> string) \<Rightarrow> saved_batch \<Rightarrow> (string, query_result) hmap \<Rightarrow> jmap \<Rightarrow> grpc_status + unary_response" where
  "batch_unary ryu b results computed =
     (let names = sort (map fst computed); texts = map (\<lambda>k. value_text ryu (the (hget computed k))) names;
          first = (case sb_operations b of [] \<Rightarrow> None | nm # _ \<Rightarrow> Some nm);
          reply = (\<lambda>hs rows total debug. \<lparr>ur_headers = hs, ur_rows = rows, ur_total_found = total, ur_debug_info = Some debug,
             ur_aggregations = [], ur_pagination = None\<rparr>) in
      if sb_response_mode b = Some ''computed_only'' then Inr (reply names [texts] 1 ''mode: computed_only'')
      else if sb_response_mode b = Some ''merge_first_data'' then
        (case first of
           None \<Rightarrow> Inl (Internal ''Batch has no operations'')
         | Some nm \<Rightarrow> (case hget results nm of
             None \<Rightarrow> Inl (Internal (''First operation '' @ quoted nm @ '' result not found''))
           | Some r \<Rightarrow>
               Inr (reply (fold (\<lambda>h hs. if h \<notin> set hs then hs @ [h] else hs) names (q_headers r)) (map (\<lambda>row. row @ texts) (q_rows r))
                 (q_total_found r) ''mode: merge_first_data'')))
      else (case Option.bind first (hget results) of
          Some r \<Rightarrow> Inr (reply (q_headers r) (q_rows r) (q_total_found r) ''default batch mode (first op only)'')
        | None \<Rightarrow> Inl (Unimplemented ''Generic batch response not yet implemented in gRPC'')))"

definition execute_batch_unary_internal :: "'c http \<Rightarrow> evaluator \<Rightarrow> nat \<Rightarrow> saved_batch \<Rightarrow> params \<Rightarrow> headers \<Rightarrow> 'c server \<Rightarrow>
    grpc_status + unary_response \<times> 'c server" where
  "execute_batch_unary_internal H eval now b ps metadata sv =
     (case get_operations H now sv of (ops, sv) \<Rightarrow>
        rbind (fold_r (grpc_batch_step H now metadata ops ps) (sb_operations b) ([], sv)) (\<lambda>(results, sv).
        rbind (build_batch_computed_fields_internal (sl_ryu (ht_lib H)) eval (map (\<lambda>(k, r). (k, result_json r)) results) (sb_computed_fields b))
          (\<lambda>computed. rbind (batch_unary (sl_ryu (ht_lib H)) b results computed) (\<lambda>u. Inr (u, sv)))))"

section \<open>Handlers\<close>

type_synonym ('r, 'c) handled = "(grpc_status + 'r) \<times> nat \<times> 'c server"

definition search_filter :: "proto_filter \<Rightarrow> filter_t" where
  "search_filter f = \<lparr>f_field = pf_field f, f_op = op_from_str (proto_comparison_op_to_str (pf_op f)), f_value = pf_value f,
     f_value_to = None, f_type = proto_field_type_to_core (pf_field_type f), f_options = []\<rparr>"

definition search_order :: "proto_order_by \<Rightarrow> order_by" where
  "search_order o1 = \<lparr>ob_field = po_field o1, ob_direction = (if proto_sort_direction_to_str (po_direction o1) = ''Desc'' then Desc else Asc)\<rparr>"

text \<open>The stream of an ad hoc search; its call is billed before the search has run.\<close>

definition grpc_search :: "'c http \<Rightarrow> nat \<Rightarrow> headers \<Rightarrow> search_request \<Rightarrow> 'c server \<Rightarrow> (stream, 'c) handled" where
  "grpc_search H now metadata req sv =
     (case extract_auth_context H now metadata None None sv of
        (Panicked, sv) \<Rightarrow> (Inl Gone, 0, sv)
      | (Sliced auth, sv) \<Rightarrow>
          let limit = (if 0 < rs_limit req then rs_limit req else 100);
              filters_op = (if proto_logical_op_to_str (rs_filters_op req) = ''Or'' then Or else And) in
          (case get_table_for_query (ht_env H) (ht_lazy H) (rs_entity req) (rs_table req) (sv_manager sv) of
             Inl e \<Rightarrow> (Inr (if e = Panic then [] else [Inl (Internal ''Table not found'')]), 1, sv)
           | Inr (t, mg) \<Rightarrow>
               (case table_search (ht_env H) (rs_selected_fields req) (map search_filter (rs_filters req)) filters_op []
                   (map search_order (rs_order_by req)) limit (rs_offset req) auth (reload_ignoring (ht_env H) t) of
                  Inl e \<Rightarrow> (Inr (if e = Panic then [] else [Inl (Internal (sl_err_text (ht_lib H) (ReadFailed e)))]), 1, sv)
                | Inr (r, t) \<Rightarrow>
                    (Inr (stream_of r (Some []) (ad_hoc_search_pagination_meta limit (rs_offset req) (q_total_found r) (length (q_headers r)))),
                     1, sv\<lparr>sv_manager := put_table (rs_entity req) (rs_table req) t mg\<rparr>))))"

definition ad_hoc_query :: "search_request \<Rightarrow> saved_query" where
  "ad_hoc_query req = SavedQuery ''ad-hoc'' (rs_entity req) (rs_table req) None []
     (map (\<lambda>f. \<lparr>sf_field = pf_field f, sf_op = proto_comparison_op_to_str (pf_op f), sf_value = pf_value f, sf_value_to = None,
        sf_values = [], sf_field_type = proto_field_type_to_core (pf_field_type f)\<rparr>) (rs_filters req))
     None (proto_logical_op_to_str (rs_filters_op req)) []
     (map (\<lambda>o1. \<lparr>so_field = po_field o1, so_direction = proto_sort_direction_to_str (po_direction o1)\<rparr>) (rs_order_by req))
     (Some (rs_limit req)) None (rs_selected_fields req) [] None None None"

definition answer :: "'c server \<Rightarrow> grpc_status + 'r \<times> 'c manager \<Rightarrow> ('r, 'c) handled" where
  "answer sv r = (case r of Inl e \<Rightarrow> (Inl e, 0, sv) | Inr (v, mg) \<Rightarrow> (Inr v, 1, sv\<lparr>sv_manager := mg\<rparr>))"

definition search_unary :: "'c http \<Rightarrow> nat \<Rightarrow> headers \<Rightarrow> search_request \<Rightarrow> 'c server \<Rightarrow> (unary_response, 'c) handled" where
  "search_unary H now metadata req sv =
     (case extract_auth_context H now metadata None None sv of
        (Panicked, sv) \<Rightarrow> (Inl Gone, 0, sv)
      | (Sliced auth, sv) \<Rightarrow>
          answer sv (execute_query_unary_internal (ht_lib H) (ht_env H) (ht_lazy H) (ad_hoc_query req) [] (rs_limit req) (rs_offset req) auth
            (sv_manager sv)))"

text \<open>What the REST API alone supports is refused.\<close>

definition rest_only :: "server_lib \<Rightarrow> string \<Rightarrow> saved_query \<Rightarrow> grpc_status + unit" where
  "rest_only S grouping_text q =
     (if sq_response_grouping q \<noteq> None then Inl (Invalid_Argument grouping_text)
      else case query_uses_rest_only_aggregations S (sq_aggregations q) of
        Inl e \<Rightarrow> Inl (Invalid_Argument e)
      | Inr uses \<Rightarrow> if uses then Inl (Invalid_Argument ''Collect aggregation is currently supported only by the REST API'') else Inr ())"

definition split_profile :: "saved_query \<Rightarrow> saved_split_execution_profile option" where
  "split_profile q = (case sq_execution_profile q of
       Some (Split p) \<Rightarrow> if sp_mode p = ''split_enrichment'' then Some p else None | _ \<Rightarrow> None)"

definition grouping_text :: string where
  "grouping_text = ''response_grouping is currently supported only by the REST API''"

definition query_meta :: "saved_query \<Rightarrow> saved_query_request \<Rightarrow> query_result \<Rightarrow> pagination_metadata option" where
  "query_meta q req r = saved_query_pagination_meta q (rs_params req) (rs_limit_override req) (rs_offset_override req)
     (q_total_found r) (length (q_headers r))"

text \<open>The stream of a saved query: a split profile runs before the call returns, any other query after it, with its
  error as the message of a stream that is billed.\<close>

definition execute_saved_query :: "'c http \<Rightarrow> nat \<Rightarrow> headers \<Rightarrow> saved_query_request \<Rightarrow> 'c server \<Rightarrow> (stream, 'c) handled" where
  "execute_saved_query H now metadata req sv =
     (case get_operations H now sv of (ops, sv) \<Rightarrow>
        (case find_op ops (rs_query_name req) of
           None \<Rightarrow> (Inl (No_Such_Query ''Query not found''), 0, sv)
         | Some (Read q) \<Rightarrow>
             (case rest_only (ht_lib H) grouping_text q of
                Inl e \<Rightarrow> (Inl e, 0, sv)
              | Inr _ \<Rightarrow>
                  (case extract_auth_context H now metadata (sq_auth_config q) (Some (sq_entity q)) sv of
                     (Panicked, sv) \<Rightarrow> (Inl Gone, 0, sv)
                   | (Sliced auth, sv) \<Rightarrow>
                       (case split_profile q of
                          Some p \<Rightarrow>
                            answer sv (rbind (execute_split_enrichment_result (ht_lib H) (ht_env H) (ht_lazy H) q p (rs_params req)
                                (rs_limit_override req) (rs_offset_override req) auth (sv_manager sv)) (\<lambda>((r, debug), mg).
                              Inr (stream_of r debug (query_meta q req r), mg)))
                        | None \<Rightarrow>
                            (case execute_query_result_internal (ht_lib H) (ht_env H) (ht_lazy H) q (rs_params req)
                                (rs_limit_override req) (rs_offset_override req) auth (sv_manager sv) of
                               Inl e \<Rightarrow> (Inr (if e = Gone then [] else [Inl e]), 1, sv)
                             | Inr (r, mg) \<Rightarrow> (Inr (stream_of r (Some []) (query_meta q req r)), 1, sv\<lparr>sv_manager := mg\<rparr>)))))
         | Some _ \<Rightarrow> (Inl (Invalid_Argument ''Not a read operation''), 0, sv)))"

definition execute_saved_query_unary :: "'c http \<Rightarrow> evaluator \<Rightarrow> nat \<Rightarrow> headers \<Rightarrow> saved_query_request \<Rightarrow> 'c server \<Rightarrow>
    (unary_response, 'c) handled" where
  "execute_saved_query_unary H eval now metadata req sv =
     (case get_operations H now sv of (ops, sv) \<Rightarrow>
        (case find_op ops (rs_query_name req) of
           None \<Rightarrow> (Inl (No_Such_Query (''Query '' @ quoted (rs_query_name req) @ '' not found'')), 0, sv)
         | Some (Read q) \<Rightarrow>
             (case rest_only (ht_lib H) grouping_text q of
                Inl e \<Rightarrow> (Inl e, 0, sv)
              | Inr _ \<Rightarrow>
                  (case extract_auth_context H now metadata (sq_auth_config q) (Some (sq_entity q)) sv of
                     (Panicked, sv) \<Rightarrow> (Inl Gone, 0, sv)
                   | (Sliced auth, sv) \<Rightarrow>
                       (case split_profile q of
                          Some p \<Rightarrow>
                            answer sv (rbind (execute_split_enrichment_result (ht_lib H) (ht_env H) (ht_lazy H) q p (rs_params req)
                                (rs_limit_override req) (rs_offset_override req) auth (sv_manager sv)) (\<lambda>((r, debug), mg).
                              Inr (unary_of r debug [] (query_meta q req r), mg)))
                        | None \<Rightarrow>
                            answer sv (execute_query_unary_internal (ht_lib H) (ht_env H) (ht_lazy H) q (rs_params req)
                              (rs_limit_override req) (rs_offset_override req) auth (sv_manager sv)))))
         | Some (Batch b) \<Rightarrow>
             (case execute_batch_unary_internal H eval now b (rs_params req) metadata sv of
                Inl e \<Rightarrow> (Inl e, 0, sv)
              | Inr (u, sv) \<Rightarrow> (Inr u, 1, sv))
         | Some _ \<Rightarrow> (Inl (Invalid_Argument (''Operation '' @ quoted (rs_query_name req) @
             '' is not a read or batch operation and cannot be executed via this endpoint'')), 0, sv)))"

section \<open>Subscriptions\<close>

record table_update_event =
  ev_entity :: string
  ev_table_name :: string
  ev_event_type :: string
  ev_pk :: string
  ev_columns :: "string list"
  ev_col_values :: "string list"

record sent_event =
  up_type :: string
  up_table :: string
  up_row :: "string list"
  up_pk :: string
  up_columns :: "string list"

text \<open>The aliases of the tables of a query, each with its entity and table.\<close>

definition subscribe_join_alias_map :: "saved_query \<Rightarrow> (string \<times> string \<times> string) list" where
  "subscribe_join_alias_map q =
     (let ent = trim (sq_entity q) in
      (hdefault (trim (sq_table q)) (sq_table_alias q), ent, trim (sq_table q)) #
      map (\<lambda>j. (hdefault (trim (sj_table j)) (sj_alias j), hdefault ent (map_option trim (sj_entity j)), trim (sj_table j))) (sq_joins q))"

definition subscribe_resolve_event_alias :: "ext \<Rightarrow> (string \<times> string \<times> string) list \<Rightarrow> string \<Rightarrow> string \<Rightarrow> string option" where
  "subscribe_resolve_event_alias x alias_map event_entity event_table =
     (let ee = to_lowercase x (trim event_entity); et = to_lowercase x (trim event_table) in
      map_option fst (List.find (\<lambda>(al, ent, tbl). eq_ignore_ascii_case (trim ent) ee \<and> eq_ignore_ascii_case (trim tbl) et) alias_map))"

text \<open>The text of a filter with the parameters of the subscription; the last part of a dotted name.\<close>

definition subscribe_value :: "params \<Rightarrow> string \<Rightarrow> string option" where
  "subscribe_value ps raw =
     (case strip_prefix ''$'' raw of
        Some key \<Rightarrow> hget ps (hd (split_pred (\<lambda>c. c = CHR ''|'') key))
      | None \<Rightarrow> Some raw)"

definition last_part :: "string \<Rightarrow> string" where
  "last_part s = last (split_pred (\<lambda>c. c = CHR ''.'') s)"

definition event_cells :: "ext \<Rightarrow> string list \<Rightarrow> string list \<Rightarrow> (string, string) hmap" where
  "event_cells x columns event_values = fold (\<lambda>(c, v). hput (to_lowercase x c) v) (zip columns event_values) []"

definition event_filter_matches :: "ext \<Rightarrow> params \<Rightarrow> (string, string) hmap \<Rightarrow> saved_filter \<Rightarrow> bool" where
  "event_filter_matches x ps cells f =
     (case (hget cells (to_lowercase x (last_part (sf_field f))), subscribe_value ps (sf_value f)) of
        (Some actual, Some expected) \<Rightarrow>
          compare_filter_value x actual (op_from_str (sf_op f)) expected (Option.bind (sf_value_to f) (subscribe_value ps))
            (List.map_filter (subscribe_value ps) (sf_values f)) (sf_field_type f)
      | _ \<Rightarrow> False)"

fun match_node :: "(saved_filter \<Rightarrow> bool) \<Rightarrow> saved_filter_tree_node \<Rightarrow> bool"
  and match_group :: "(saved_filter \<Rightarrow> bool) \<Rightarrow> saved_filter_group \<Rightarrow> bool" where
  "match_node m (Condition f) = m f"
| "match_node m (Group g) = match_group m g"
| "match_group m (FilterGroup opr nodes) =
     (if opr \<in> {''OR'', ''or'', ''Or''} then list_ex (match_node m) nodes else list_all (match_node m) nodes)"

definition subscribe_event_matches_query :: "ext \<Rightarrow> saved_query \<Rightarrow> params \<Rightarrow> string list \<Rightarrow> string list \<Rightarrow> bool" where
  "subscribe_event_matches_query x q ps columns event_values =
     (let m = event_filter_matches x ps (event_cells x columns event_values) in
      case sq_filter_tree q of Some tree \<Rightarrow> match_node m tree | None \<Rightarrow> list_all m (sq_filters q))"

definition forwards :: "ext \<Rightarrow> saved_query \<Rightarrow> params \<Rightarrow> table_update_event \<Rightarrow> bool" where
  "forwards x q ps ev \<longleftrightarrow>
     subscribe_resolve_event_alias x (subscribe_join_alias_map q) (trim (ev_entity ev)) (trim (ev_table_name ev)) \<noteq> None \<and>
     (sq_filters q \<noteq> [] \<or> sq_filter_tree q \<noteq> None \<longrightarrow> subscribe_event_matches_query x q ps (ev_columns ev) (ev_col_values ev))"

definition proto_event :: "table_update_event \<Rightarrow> sent_event" where
  "proto_event ev = \<lparr>up_type = ev_event_type ev, up_table = ev_table_name ev, up_row = ev_col_values ev, up_pk = ev_pk ev,
     up_columns = ev_columns ev\<rparr>"

text \<open>What the loop receives, and how many events the subscriber takes before it is gone: the events it is sent,
  with the notifications put on the bill.\<close>

datatype received = Event table_update_event | Lagged nat | Closed

fun subscribe_loop :: "ext \<Rightarrow> saved_query \<Rightarrow> params \<Rightarrow> received list \<Rightarrow> nat \<Rightarrow> sent_event list \<times> nat" where
  "subscribe_loop x q ps [] alive = ([], 0)"
| "subscribe_loop x q ps (Closed # rs) alive = ([], 0)"
| "subscribe_loop x q ps (Lagged skipped # rs) alive = subscribe_loop x q ps rs alive"
| "subscribe_loop x q ps (Event ev # rs) alive =
     (if \<not> forwards x q ps ev then subscribe_loop x q ps rs alive
      else if alive = 0 then ([], 0)
      else case subscribe_loop x q ps rs (alive - 1) of (sent, billed) \<Rightarrow> (proto_event ev # sent, billed + 1))"

text \<open>A subscription is not billed; it asks for no identity.\<close>

definition subscribe_updates :: "'c http \<Rightarrow> nat \<Rightarrow> headers \<Rightarrow> string \<Rightarrow> params \<Rightarrow> received list \<Rightarrow> nat \<Rightarrow> 'c server \<Rightarrow>
    (sent_event list, 'c) handled" where
  "subscribe_updates H now metadata query_name ps rs alive sv =
     (let query_name = trim query_name in
      if query_name = [] then (Inl (Invalid_Argument ''Query name required''), 0, sv)
      else case get_operations H now sv of (ops, sv) \<Rightarrow>
        (case find_op ops query_name of
           None \<Rightarrow> (Inl (No_Such_Query (''Query name '' @ quoted query_name @ '' not found in current configuration'')), 0, sv)
         | Some (Read q) \<Rightarrow>
             (case rest_only (ht_lib H) ''SubscribeUpdates does not support response_grouping (REST-only)'' q of
                Inl e \<Rightarrow> (Inl e, 0, sv)
              | Inr _ \<Rightarrow> (case subscribe_loop (e_ext (ht_env H)) q ps rs alive of (sent, billed) \<Rightarrow> (Inr sent, billed, sv)))
         | Some _ \<Rightarrow> (Inl (No_Such_Query (''Query found but it is not a '' @ quoted ''read'' @ '' operation'')), 0, sv)))"

end
