(* ===== verification/Grpc_Laws.thy ===== *)
theory Grpc_Laws
  imports Grpc_Service Table_Rows Compact_Rows Server_Page
begin

text \<open>
  What the gRPC service answers: the pagination metadata is that of the page read, a stream carries the rows
  of the single response, a subscription forwards the matching events in order and bills each, and what
  differs from the REST face.
\<close>

section \<open>Pagination\<close>

lemma pages_iff:
  assumes "0 < total_found" "0 < limit" "total_found + limit < 2 ^ 32" "0 < k"
  shows "k \<le> pages_of total_found limit \<longleftrightarrow> (k - 1) * limit < total_found"
proof -
  have p: "pages_of total_found limit = (total_found + (limit - 1)) div limit"
    using assms(1-3) by (simp add: pages_of_def sat64_def)
  obtain j where k: "k = Suc j" using assms(4) by (cases k) auto
  have "k \<le> (total_found + (limit - 1)) div limit \<longleftrightarrow> k * limit \<le> total_found + (limit - 1)"
    using assms(2) by (simp add: less_eq_div_iff_mult_less_eq)
  also have "\<dots> \<longleftrightarrow> j * limit < total_found" using assms(2) by (auto simp: k)
  finally show ?thesis by (simp add: p k)
qed

text \<open>C28: The pagination metadata of a saved query describe the page that was read: for every limit and offset,
  from the query, the parameters or the request, the page given is the one the offset falls into, its size
  is the limit, and the pages from 1 to the total_found are exactly those that have a row.\<close>

theorem pagination_of_page:
  assumes "limit = grpc_limit ps q lo" "offset = grpc_offset ps limit oo"
    "0 < total_found" "0 < headers_len" "0 < limit" "total_found + limit < 2 ^ 32" "grpc_page ps * limit < 2 ^ 32" "oo < 2 ^ 31"
  shows "\<exists>m. saved_query_pagination_meta q ps lo oo total_found headers_len = Some m \<and>
    pg_page m = offset div limit + 1 \<and> pg_per_page m = limit \<and> pg_total_items m = total_found \<and>
    (\<forall>k>0. k \<le> pg_total_pages m \<longleftrightarrow> (k - 1) * limit < total_found)"
proof -
  have page: "1 \<le> grpc_page ps" by (simp add: grpc_page_def)
  have lim32: "limit < 2 ^ 32" using assms(6) by simp
  have p1: "grpc_page ps < 2 ^ 32" using assms(5,7) by (metis le_less_trans mult_le_mono2 mult.right_neutral One_nat_def Suc_leI)
  have "(grpc_page ps - 1) * limit \<le> grpc_page ps * limit" by simp
  also have "\<dots> < 2 ^ 64" using assms(7) by simp
  finally have "wrap64 ((grpc_page ps - 1) * limit) = (grpc_page ps - 1) * limit" by (simp add: wrap64_def)
  then have p0: "oo = 0 \<Longrightarrow> offset div limit + 1 = grpc_page ps"
    using assms(2,5) page by (simp add: grpc_offset_def)
  have "oo div limit < 2 ^ 31" using assms(8) by (rule le_less_trans [rotated]) simp
  then have po: "oo div limit + 1 < 2 ^ 32" by simp
  have "pages_of total_found limit \<le> total_found"
    using pages_iff [OF assms(3,5,6), of "pages_of total_found limit"] assms(5)
    by (cases "pages_of total_found limit") (auto simp: Suc_le_eq intro: le_less_trans [rotated])
  then have tp: "u32_or_max (pages_of total_found limit) = pages_of total_found limit"
    using assms(6) by (simp add: u32_or_max_def)
  show ?thesis
    using assms(1-5) p0 p1 po lim32 tp pages_iff [OF assms(3,5,6)]
    by (auto simp: saved_query_pagination_meta_def Let_def u32_or_max_def sat64_def grpc_offset_def)
qed

definition listing_query :: saved_query where
  "listing_query = SavedQuery ''list'' ''e'' ''t'' None [] [] None ''And'' [] [] (Some 10) None [''a''] [] None None None"

theorem pagination_of_page_witness:
  "\<exists>m. saved_query_pagination_meta listing_query [(''page'', ''3'')] 0 0 25 1 = Some m \<and>
    pg_page m = 3 \<and> pg_per_page m = 10 \<and> pg_total_items m = 25 \<and> 3 \<le> pg_total_pages m \<and> \<not> 4 \<le> pg_total_pages m"
proof -
  have n: "parse_usize ''3'' = Some 3"
    using parse_show_nat [of 3 64] by (simp add: parse_usize_def show_nat.simps)
  have p: "grpc_page [(''page'', ''3'')] = 3" by (simp add: grpc_page_def n hget_def)
  have l: "10 = grpc_limit [(''page'', ''3'')] listing_query 0" by (simp add: grpc_limit_def listing_query_def)
  have o1: "20 = grpc_offset [(''page'', ''3'')] 10 0" by (simp add: grpc_offset_def p wrap64_def)
  obtain m where m: "saved_query_pagination_meta listing_query [(''page'', ''3'')] 0 0 25 1 = Some m"
      "pg_page m = 20 div 10 + 1" "pg_per_page m = 10" "pg_total_items m = 25"
      "\<forall>k>0. k \<le> pg_total_pages m \<longleftrightarrow> (k - 1) * 10 < 25"
    using pagination_of_page [OF l o1, of 25 1] p by auto
  then show ?thesis using m(5) [rule_format, of 3] m(5) [rule_format, of 4] by auto
qed

section \<open>Streams\<close>

lemma chunk_sizes: "c \<in> set (chunks n xs) \<Longrightarrow> c \<noteq> [] \<and> length c \<le> n"
proof (induction n xs rule: chunks.induct)
  case (1 n xs)
  show ?case
  proof (cases "xs = [] \<or> n = 0")
    case True
    then show ?thesis using "1.prems" by (simp add: chunks.simps)
  next
    case False
    with "1.prems" have "c = take n xs \<or> c \<in> set (chunks n (drop n xs))" by (subst (asm) chunks.simps) auto
    with 1 False show ?thesis by auto
  qed
qed

text \<open>A stream that carries a response: its metadata first, then its rows in batches of 1 to 1,000.\<close>

definition carries :: "stream \<Rightarrow> unary_response \<Rightarrow> bool" where
  "carries ms u \<longleftrightarrow> (\<exists>batches.
     ms = Inr (Search_Metadata \<lparr>md_headers = ur_headers u, md_total_found = ur_total_found u, md_debug_info = ur_debug_info u,
            md_pagination = ur_pagination u\<rparr>) # map (Inr \<circ> Row_Batch) batches \<and>
     (\<forall>b\<in>set batches. b \<noteq> [] \<and> length b \<le> 1000) \<and> concat batches = ur_rows u)"

lemma stream_carries: "ur_headers u = q_headers r \<Longrightarrow> ur_rows u = q_rows r \<Longrightarrow> ur_total_found u = q_total_found r \<Longrightarrow>
    carries (stream_of r (ur_debug_info u) (ur_pagination u)) u"
  unfolding carries_def stream_of_def
  by (intro exI [of _ "chunks BATCH_SIZE (q_rows r)"]) (auto dest: chunk_sizes simp: concat_chunks BATCH_SIZE_def)


definition listing_server :: "(u128, postings) hmap server" where
  "listing_server = \<lparr>sv_manager = manager_new None [], sv_ops_cache = Some (0, [Read listing_query]),
     sv_response_cache = \<lparr>rc_ttl = 0, rc_ops = {}, rc_max_entries = 0, rc_store = []\<rparr>,
     sv_ops_files = \<lparr>of_ops = None, of_root_ops = None, of_queries = None\<rparr>, sv_entity_filter = None\<rparr>"

definition listing_http :: "(u128, postings) hmap http" where
  "listing_http = \<lparr>ht_env = small_env, ht_lazy = None, ht_lib = small_server_lib, ht_batch_text = (\<lambda>_. []), ht_auth = small_lib,
     ht_fs = all_dirs, ht_entities = [], ht_codec = \<lparr>enc_ops = (\<lambda>_. []), dec_ops = (\<lambda>_. None), dec_queries = (\<lambda>_. None)\<rparr>,
     ht_dec_op = (\<lambda>_. Inl []), ht_op_json = (\<lambda>_. JNull), ht_dec_payload = (\<lambda>_. None), ht_vars = (\<lambda>_. None)\<rparr>"

definition listing_request :: saved_query_request where
  "listing_request = \<lparr>rs_query_name = ''list'', rs_params = [], rs_limit_override = 0, rs_offset_override = 0\<rparr>"


section \<open>Subscriptions\<close>

text \<open>The events received before the channel closes.\<close>

fun received_events :: "received list \<Rightarrow> table_update_event list" where
  "received_events [] = []"
| "received_events (Closed # rs) = []"
| "received_events (Lagged n # rs) = received_events rs"
| "received_events (Event ev # rs) = ev # received_events rs"


lemma event_cells_None: "to_lowercase x c \<notin> to_lowercase x ` set columns \<Longrightarrow> hget (event_cells x columns row) (to_lowercase x c) = None"
proof -
  assume c: "to_lowercase x c \<notin> to_lowercase x ` set columns"
  have "hget m (to_lowercase x c) = None \<Longrightarrow> fst ` set ps \<subseteq> set columns \<Longrightarrow>
      hget (fold (\<lambda>(c, v). hput (to_lowercase x c) v) ps m) (to_lowercase x c) = None" for ps m
  proof (induction ps arbitrary: m)
    case (Cons e es)
    obtain a b where e: "e = (a, b)" by (cases e)
    with Cons.prems(2) have "to_lowercase x a \<in> to_lowercase x ` set columns" by simp
    with c have "to_lowercase x a \<noteq> to_lowercase x c" by metis
    then have "hget (hput (to_lowercase x a) b m) (to_lowercase x c) = None" using Cons.prems(1) by simp
    from Cons.IH [OF this] Cons.prems(2) e show ?case by simp
  qed simp
  from this [of "[]" "zip columns row"] show ?thesis by (force simp: event_cells_def dest: set_zip_leftD)
qed

text \<open>An event of a change carries the changed columns only, and that of a deletion none: with a filter on any other
  column it is not forwarded, whether the row satisfies the filter or not.\<close>

theorem changes_elsewhere_dropped:
  assumes "sq_filter_tree q = None" "f \<in> set (sq_filters q)"
    "to_lowercase x (last_part (sf_field f)) \<notin> to_lowercase x ` set (ev_columns ev)"
  shows "\<not> forwards x q ps ev"
proof -
  have "\<not> event_filter_matches x ps (event_cells x (ev_columns ev) (ev_col_values ev)) f"
    using event_cells_None [OF assms(3)] by (simp add: event_filter_matches_def)
  with assms(1,2) have "\<not> subscribe_event_matches_query x q ps (ev_columns ev) (ev_col_values ev)"
    by (auto simp: subscribe_event_matches_query_def list_all_iff)
  moreover have "sq_filters q \<noteq> []" using assms(2) by auto
  ultimately show ?thesis by (simp add: forwards_def)
qed

text \<open>Nor does a subscription depend on who asks, also when its query requires an identity.\<close>

lemma subscription_ignores_identity:
  "subscribe_updates H now metadata nm ps rs alive sv = subscribe_updates H now other nm ps rs alive sv"
  by (simp add: subscribe_updates_def)

section \<open>Differences from the REST face\<close>

text \<open>A request without a credential is run without a user, also where the configuration requires one: its rows are
  then not those of any one user.\<close>

theorem no_credential_runs:
  assumes "find_op (fst (get_operations H now sv)) (rs_query_name req) = Some (Read q)"
    "rest_only (ht_lib H) grouping_text q = Inr ()" "split_profile q = None" "extract_credential_from_metadata metadata = None"
  shows "execute_saved_query_unary H eval now metadata req sv =
    (let sv = snd (get_operations H now sv) in
     answer sv (execute_query_unary_internal (ht_lib H) (ht_env H) (ht_lazy H) q (rs_params req) (rs_limit_override req)
       (rs_offset_override req) None (sv_manager sv)))"
  using assms by (cases "get_operations H now sv") (simp add: execute_saved_query_unary_def extract_auth_context_def)

text \<open>The rows of a page are dropped when there are more than 1,000 of them; only the REST API reads them again by
  their locations.\<close>

lemma search_at_most_1000:
  "table_search E flds filters filters_op aggs ob limit offset auth t = Inr (r, t') \<Longrightarrow> length (q_rows r) \<le> 1000"
  by (auto simp: table_search_def Let_def rbind_Inr_iff split: prod.splits if_splits)

theorem grpc_page_at_most_1000:
  assumes "execute_query_unary_internal S E lazy q ps lo oo auth mg = Inr (u, mg')" "\<not> is_multi_table q"
  shows "length (ur_rows u) \<le> 1000"
  using assms search_at_most_1000
  by (fastforce simp: execute_query_unary_internal_def execute_query_result_internal_def Let_def map_err_def rbind_Inr_iff unary_of_def
    split: sum.splits)

text \<open>An ad hoc search without a limit asks for 100 rows as a stream, for none as a single response.\<close>

lemma unlimited_search_is_empty: "rs_limit req = 0 \<Longrightarrow> grpc_limit [] (ad_hoc_query req) (rs_limit req) = 0"
  by (simp add: grpc_limit_def ad_hoc_query_def)

text \<open>The options of a filter are not read: an \<open>In\<close> filter that gives its values there matches nothing.\<close>

lemma value_options_ignored: "search_filter (f\<lparr>pf_value_options := os\<rparr>) = search_filter f"
  by (simp add: search_filter_def)

lemma options_match_nothing: "pf_op f = 6 \<Longrightarrow> pf_value f = [] \<Longrightarrow>
    \<not> compare_filter_value x actual (f_op (search_filter f)) (f_value (search_filter f)) None (f_options (search_filter f)) ty"
proof -
  have t: "trim [] = []" by (rule trim_graphic) (simp add: graphic_def)
  show "pf_op f = 6 \<Longrightarrow> pf_value f = [] \<Longrightarrow> ?thesis"
    by (simp add: search_filter_def proto_comparison_op_to_str_def op_from_str_def list_values_def t)
qed

text \<open>A computed field that has the name of a column adds a cell to each row and no header.\<close>

theorem computed_column_misaligned:
  assumes "batch_unary ryu b results computed = Inr u" "sb_response_mode b = Some ''merge_first_data''"
    "sb_operations b = nm # ops" "hget results nm = Some r" "set (map fst computed) \<inter> set (q_headers r) \<noteq> {}"
    "\<forall>row\<in>set (q_rows r). length row = length (q_headers r)" "hwf computed" "row \<in> set (ur_rows u)"
  shows "length (ur_headers u) < length row"
proof -
  have add: "length (fold (\<lambda>h hs. if h \<notin> set hs then hs @ [h] else hs) ns hs) \<le> length hs + length ns" for ns :: "string list" and hs
  proof (induction ns arbitrary: hs)
    case (Cons n ns)
    from Cons [of "hs @ [n]"] Cons [of hs] show ?case by auto
  qed simp
  have strict: "set ns \<inter> set hs \<noteq> {} \<Longrightarrow> length (fold (\<lambda>h hs. if h \<notin> set hs then hs @ [h] else hs) ns hs) < length hs + length ns"
    for ns :: "string list" and hs
  proof (induction ns arbitrary: hs)
    case (Cons n ns)
    show ?case
    proof (cases "n \<in> set hs")
      case True
      then show ?thesis using add [where ns = ns and hs = hs] by simp
    next
      case False
      with Cons.prems have "set ns \<inter> set (hs @ [n]) \<noteq> {}" by auto
      from Cons.IH [OF this] False show ?thesis by simp
    qed
  qed simp
  have "length row = length (q_headers r) + length computed"
    using assms by (auto simp: batch_unary_def Let_def)
  moreover have "length (ur_headers u) < length (q_headers r) + length computed"
    using assms strict [of "sort (map fst computed)" "q_headers r"] by (auto simp: batch_unary_def Let_def)
  ultimately show ?thesis by simp
qed

end
