(* ===== verification/Spec2Isabelle.thy ===== *)
theory Spec2Isabelle
  imports Wal Types Expression Date_Utils Index_V3 Exact_Index Primary_Index Segment
    Table_Rows Table_Store Table_Query Table_Compact Compact_Rows Top_K Table_Update Saved_Queries Table_Manager Join_Rows Join_Gate
    Cdc_Gtid Cdc_Names Cdc_Apply Cdc_Resume Auth Server_Group Server_Page Server_Access Grpc_Laws
begin

text \<open>
  The storage engine of \<^verbatim>\<open>bittice\<close>, a columnar table store in Rust (\<^verbatim>\<open>src/core\<close>), and the theorems that make
  it correct.

  \<^bold>\<open>The program.\<close> A table (\<^verbatim>\<open>src/core/storage/table.rs\<close>) is a list of immutable segments, one active segment
  that takes the inserts, a primary index from the hash of a key to a location (segment, row number),
  exact indices per column from the hash of a value to bitmaps per segment, a manifest and a
  write-ahead log. A row is appended column by column to data and offset files; a delete or an
  overwrite marks the row in the segment's bitmap of deletions. A full active segment is rotated:
  flushed, persisted with its bitmaps, merged into the exact indices and added to the immutable ones.
  Compaction copies the live rows into new segments. A search takes the path over the primary key, the
  exact indices or a scan, and answers with a page, an ordered page or an aggregation. The table manager
  (\<^verbatim>\<open>src/server/table_manager.rs\<close>) keeps a bounded number of tables open. A saved operation over several
  tables is run by \<^verbatim>\<open>src/core/join_query.rs\<close>: it fetches the rows of each table by the keys of the rows
  found so far, joins them by hashing, and filters, orders, aggregates and pages the result. Change data capture
  (\<^verbatim>\<open>src/core/cdc\<close>) copies the tables of a MySQL server and then applies the row events of its binlog to them.
  The HTTP server (\<^verbatim>\<open>src/server/mod.rs\<close>) runs the saved operations that requests name: it resolves the identity a
  read requires (\<^verbatim>\<open>src/core/auth.rs\<close>), puts the parameters into the query, shapes the rows found, answers
  repeated reads from a response cache and lets the administration change the saved operations.

  \<^bold>\<open>The theories.\<close>
  \<^item> \<^verbatim>\<open>Prelude\<close>: results as sums (\<open>rbind\<close>, \<open>map_r\<close>, \<open>fold_r\<close>), hash maps as association lists (\<open>hget\<close>, \<open>hput\<close>,
    \<open>hdel\<close>, \<open>hwf\<close>), little-endian numbers. \<^verbatim>\<open>Rust_Std\<close>: \<open>BufWriter\<close>, UTF-8, trimming and splitting of texts,
    integer parsing and printing. \<^verbatim>\<open>Float64\<close>: \<open>f64\<close> as rounded rationals with infinities and NaN, parsing
    and arithmetic.
  \<^item> \<^verbatim>\<open>Types\<close>, \<^verbatim>\<open>Expression\<close>, \<^verbatim>\<open>Date_Utils\<close>: \<^verbatim>\<open>types.rs\<close>, \<^verbatim>\<open>expression.rs\<close>, \<^verbatim>\<open>date_utils.rs\<close>: filters and their comparison,
    the expression parser and evaluator, date buckets.
  \<^item> \<^verbatim>\<open>Wal\<close>: \<^verbatim>\<open>wal.rs\<close>, the log as a buffered writer over a file, with what a crash can leave of it.
  \<^item> \<^verbatim>\<open>Index_V3\<close>: \<^verbatim>\<open>exact_index_v3/*.rs\<close>, the sorted index file, its validating reader and binary search.
    \<^verbatim>\<open>Exact_Index\<close>: \<^verbatim>\<open>exact_index.rs\<close>, the index in memory over that file (delta and LRU cache, the cache a
    locale). \<^verbatim>\<open>Primary_Index\<close>: \<^verbatim>\<open>primary_index.rs\<close>, \<^verbatim>\<open>primary_index_io.rs\<close>, and the locale \<open>key_map\<close> of the contract the
    table uses.
  \<^item> \<^verbatim>\<open>Segment\<close>: \<^verbatim>\<open>segment.rs\<close>: column files, bitmaps, bounds, append, flush, load, search, reading of cells.
  \<^item> \<^verbatim>\<open>Table\<close> (record, keys, batch reads, insert, delete, reconciliation), \<^verbatim>\<open>Table_Index\<close> (exact indices of a
    table), \<^verbatim>\<open>Table_Life\<close> (open, replay, rotation, close, reload), \<^verbatim>\<open>Table_Search\<close> (search, pages,
    aggregations), \<^verbatim>\<open>Table_Compact\<close> (compaction): the definitions of \<^verbatim>\<open>table.rs\<close> and \<^verbatim>\<open>manifest.rs\<close>.
  \<^item> \<^verbatim>\<open>Table_Rows\<close>, \<^verbatim>\<open>Table_Store\<close>: the representation of the rows of a table (\<open>rep\<close>, \<open>index_ok\<close>) and the refinement
    to a map from keys to rows (locale \<open>keyed_store\<close>, interpreted on the table's insert, delete and
    rotation). \<^verbatim>\<open>Top_K\<close>: the bounded parallel selection. \<^verbatim>\<open>Table_Query\<close>: pages, batch reads, aggregations, and
    what goes wrong in searches. \<^verbatim>\<open>Compact_Rows\<close>: the copy of the live rows. \<^verbatim>\<open>Table_Update\<close>: the update of a row, and
    that the reconciliation it ends with finds nothing to repair.
  \<^item> \<^verbatim>\<open>Saved_Queries\<close>: \<^verbatim>\<open>saved_queries.rs\<close>, the saved operations, the tables they touch (a recursion over batches
    that may call each other, written over an explicit list of pending calls) and the file with its
    migrations. \<^verbatim>\<open>Table_Manager\<close>: \<^verbatim>\<open>table_manager.rs\<close>, \<^verbatim>\<open>warm_config.rs\<close>, the cache of open tables, its bound and
    the order of eviction.
  \<^item> \<^verbatim>\<open>Join_Resolve\<close>, \<^verbatim>\<open>Join_Exec\<close>: \<^verbatim>\<open>join_query.rs\<close>, the resolution of a query and its execution. \<^verbatim>\<open>Join_Rows\<close>: the
    hash join is the nested loop, the window cut before left joins gives the page of all rows, the lookups
    miss no match, the resolved joins are well formed. \<^verbatim>\<open>Join_Gate\<close>: \<^verbatim>\<open>join_concurrency.rs\<close>, the gate as a
    transition system, with its invariant and the admission of every waiting call.
  \<^item> \<^verbatim>\<open>Cdc_Gtid\<close>, \<^verbatim>\<open>Cdc_Scope\<close>, \<^verbatim>\<open>Cdc_Rows\<close>, \<^verbatim>\<open>Cdc_Stream\<close>, \<^verbatim>\<open>Cdc_Start\<close>: \<^verbatim>\<open>cdc/mod.rs\<close>, \<^verbatim>\<open>cdc_durability.rs\<close>,
    \<^verbatim>\<open>mysql_host_cache.rs\<close>: the set of executed transactions, the tables in scope and their names, the conversion and
    application of rows, the event loop with its checkpoints and the copy of a table, and the start with the choice of the
    position. \<^verbatim>\<open>Cdc_Names\<close>: the SQL sent is read back as meant. \<^verbatim>\<open>Cdc_Apply\<close>: rows events are insertions, deletions and merges
    of the map from keys to rows (\<open>keyed_store\<close> interpreted once more). \<^verbatim>\<open>Cdc_Resume\<close>: checkpoints, start and copy.
  \<^item> \<^verbatim>\<open>Json\<close>: the values of \<open>serde_json\<close>, their accessors and their text, which tells scalars apart. \<^verbatim>\<open>Auth\<close>:
    \<^verbatim>\<open>auth.rs\<close>, credentials, API keys and legacy tokens, and who is let in. \<^verbatim>\<open>Server_Shape\<close>, \<^verbatim>\<open>Server_Read\<close>,
    \<^verbatim>\<open>Server_Batch\<close>, \<^verbatim>\<open>Server_Http\<close>: \<^verbatim>\<open>server/mod.rs\<close>, \<^verbatim>\<open>response_cache.rs\<close>, the shaping of rows, a read with its
    parameters and pages, split reads and batches, and the handlers with the response cache and the
    configuration. \<^verbatim>\<open>Server_Group\<close>: grouping by the texts of values is grouping by values. \<^verbatim>\<open>Server_Page\<close>: which
    rows a response is made from. \<^verbatim>\<open>Server_Access\<close>: the response cache along any sequence of events, the
    configuration as a map from names to operations along any sequence of requests, and protected reads.
  \<^item> \<^verbatim>\<open>Grpc_Query\<close>, \<^verbatim>\<open>Grpc_Service\<close>: \<^verbatim>\<open>server/grpc.rs\<close>, queries and split profiles, and the handlers with batches and
    subscriptions. \<^verbatim>\<open>Grpc_Laws\<close>: pagination, streams against single responses, subscriptions, and the
    differences from the REST face.

  \<^bold>\<open>Correspondence.\<close> Structs are records, enums datatypes, with the source's names; \<open>u64\<close>, \<open>u32\<close>, \<open>u128\<close> are
  words of that width, and \<open>usize\<close> values that are indices into slices are natural numbers with the
  wrap-around written out (\<open>wrap64\<close>) where the source adds. A panic is a value (\<open>Panic\<close>, \<open>Panicked\<close>), an error a
  constructor of \<open>table_error\<close>, \<open>segment_error\<close>, \<open>format_error\<close> or \<open>io_error\<close>. A \<open>HashMap\<close> is an association list
  with one entry per key (\<open>hwf\<close>); where the source iterates over one, the theorems do not depend on the
  order or state it. Files are byte strings in a map from names; a directory is such a map. Shared
  locks and the \<open>rayon\<close> parallel iterators are sequential, with the division of the work into jobs a
  parameter (\<open>e_jobs\<close>).

  \<^bold>\<open>Parameters.\<close> Third-party code is a field of the records \<open>ext\<close>, \<open>codec\<close>, \<open>seg_codec\<close>, \<open>pi_codec\<close>, \<open>env\<close>: NFC, xxh3,
  the bincode coding of records and bitmaps, the LRU cache, uuid draws, the environment variables; for change data
  capture the replies of the MySQL server (\<open>mysql\<close>), uuid parsing (\<open>uuid_crate\<close>), the clock and the calendar (\<open>cdc_ctx\<close>).
  The theorems assume of them what their documentation says (decoding inverts encoding, the layout of
  a coded string, the laws of an LRU cache), with concrete instances (\<open>ascii_ext\<close>, \<open>plain_codec\<close>, \<open>small_lru\<close>,
  \<open>small_env\<close>) in the witnesses.

  \<^bold>\<open>Bounds.\<close> Loops are structural or have a termination proof; the binary search decreases its interval,
  the merge its inputs, the parser its tokens (with fuel equal to their number, shown to suffice). A
  segment holds fewer than \<open>2\<^sup>3\<^sup>2\<close> rows and a column file is shorter than \<open>2\<^sup>6\<^sup>3\<close> bytes (\<open>row_fits\<close>, \<open>act_ok\<close>).

  A page of fetched rows starts below \<open>2\<^sup>6\<^sup>4\<close> (\<open>fetch_pages\<close>, a panic beyond). A number prints as the
  shortest decimal of at most 17 digits that reads back as it (\<open>show_f64\<close>). Groups of equal weight come in
  the order of their first rows, one of the orders that the source's hash maps may give.

  A request carries the times at which it arrives and is answered; requests are handled one after the other.

  \<^bold>\<open>Not modelled.\<close> Of the join queries, the timings, the debug text and the log lines are left out; of the saved
  queries, the defaults that \<open>serde\<close> gives to absent fields; of change data capture, the messages, the waiting
  and the connection itself; of the HTTP server, sockets, threads and the order of start and stop. The legacy query
  entry point, the CSV import, the mirror checks, the file of the operation counter, and the migration
  tools are not modelled: they call the components modelled here. The
  command line, monitoring, deployment and installation are I/O over third-party frameworks.
\<close>

end
